(* ===== verification/Forge_Prelude.thy ===== *)
theory Forge_Prelude
  imports Complex_Main "HOL-Library.Char_ord" "HOL-Library.List_Lexorder"
begin

text \<open>
  Shared vocabulary of the development.  Python's unbounded integers are \<^typ>\<open>int\<close>, its
  floats (times, costs, weights, scores) are exact rationals, its text is \<^typ>\<open>string\<close>, a
  \<^verbatim>\<open>dict\<close> whose order the code observes is an association list in insertion order, and a
  function that may raise returns a sum with the error on the left.  The section on lists holds
  the generic lemmas the components share: row updates by key, last-write-wins dictionaries,
  stable sorting by a key, and de-duplication that keeps the first occurrence.
\<close>

section \<open>Types\<close>

type_synonym pyfloat = rat
type_synonym pystr = string

text \<open>Association lists that stand for an insertion-ordered \<^verbatim>\<open>dict\<close>.\<close>

type_synonym ('k, 'v) dict = "('k \<times> 'v) list"

text \<open>\<^verbatim>\<open>str.lower()\<close> and \<^verbatim>\<open>str.casefold()\<close> on ASCII text.\<close>

definition lower_char :: "char \<Rightarrow> char" where
  "lower_char c =
     (let n = of_char c :: nat in if 65 \<le> n \<and> n \<le> 90 then char_of (n + 32) else c)"

definition lower_str :: "pystr \<Rightarrow> pystr" where
  "lower_str s = map lower_char s"

text \<open>\<^verbatim>\<open>str(n)\<close> of a natural number: its decimal digits.\<close>

definition digit_char :: "nat \<Rightarrow> char" where
  "digit_char d = char_of (48 + d)"

fun str_nat :: "nat \<Rightarrow> pystr" where
  "str_nat n = (if n < 10 then [digit_char n] else str_nat (n div 10) @ [digit_char (n mod 10)])"

declare str_nat.simps [simp del]

definition read_nat :: "pystr \<Rightarrow> nat" where
  "read_nat s = foldl (\<lambda>v c. 10 * v + (of_char c - 48)) 0 s"

lemma of_digit_char: "d < 10 \<Longrightarrow> of_char (digit_char d) = 48 + (d::nat)"
  by (simp add: digit_char_def)

lemma read_str_nat: "read_nat (str_nat n) = n"
proof (induction n rule: str_nat.induct)
  case (1 n)
  then show ?case
    by (cases "n < 10") (simp_all add: str_nat.simps [of n] read_nat_def of_digit_char)
qed

lemma str_nat_inject [simp]: "str_nat m = str_nat n \<longleftrightarrow> m = n"
  by (metis read_str_nat)

section \<open>Collections of rewrite rules the component theories extend\<close>

named_theorems queue_simps
named_theorems trace_simps
named_theorems grade_simps

section \<open>Results\<close>

definition is_ok :: "'e + 'a \<Rightarrow> bool" where
  "is_ok r = (case r of Inl _ \<Rightarrow> False | Inr _ \<Rightarrow> True)"

definition bind_res :: "'e + 'a \<Rightarrow> ('a \<Rightarrow> 'e + 'b) \<Rightarrow> 'e + 'b" where
  "bind_res r f = (case r of Inl e \<Rightarrow> Inl e | Inr a \<Rightarrow> f a)"

lemma is_ok_simps [simp]: "\<not> is_ok (Inl e)" "is_ok (Inr a)"
  by (simp_all add: is_ok_def)

lemma bind_res_simps [simp]: "bind_res (Inl e) f = Inl e" "bind_res (Inr a) f = f a"
  by (simp_all add: bind_res_def)

lemma is_ok_iff: "is_ok r \<longleftrightarrow> (\<exists>a. r = Inr a)"
  by (cases r) simp_all

lemma bind_res_assoc: "bind_res (bind_res r f) h = bind_res r (\<lambda>a. bind_res (f a) h)"
  by (cases r) simp_all

lemma bind_res_eq_Inr_iff: "bind_res r f = Inr b \<longleftrightarrow> (\<exists>a. r = Inr a \<and> f a = Inr b)"
  by (cases r) simp_all

text \<open>A comprehension whose body may raise: the first error stops it.\<close>

fun traverse :: "('a \<Rightarrow> 'e + 'b) \<Rightarrow> 'a list \<Rightarrow> 'e + 'b list" where
  "traverse f [] = Inr []"
| "traverse f (x # xs) = bind_res (f x) (\<lambda>y. bind_res (traverse f xs) (\<lambda>ys. Inr (y # ys)))"

lemma traverse_Inr_iff: "traverse f xs = Inr ys \<longleftrightarrow> list_all2 (\<lambda>x y. f x = Inr y) xs ys"
  by (induction xs arbitrary: ys) (auto simp: bind_res_eq_Inr_iff list_all2_Cons1)

lemma traverse_total: "(\<And>x. x \<in> set xs \<Longrightarrow> f x = Inr (g x)) \<Longrightarrow> traverse f xs = Inr (map g xs)"
  by (induction xs) simp_all

text \<open>The first error of a sequence of validators, as a chain of raising checks reports it.\<close>

fun first_error :: "'e option list \<Rightarrow> 'e option" where
  "first_error [] = None"
| "first_error (None # es) = first_error es"
| "first_error (Some e # es) = Some e"

lemma first_error_None_iff: "first_error es = None \<longleftrightarrow> set es \<subseteq> {None}"
  by (induction es rule: first_error.induct) auto

section \<open>Dictionaries in insertion order\<close>

text \<open>\<^verbatim>\<open>d[k] = v\<close>: an existing key keeps its place, a new one is appended.\<close>

fun dict_set :: "'k \<Rightarrow> 'v \<Rightarrow> ('k, 'v) dict \<Rightarrow> ('k, 'v) dict" where
  "dict_set k v [] = [(k, v)]"
| "dict_set k v ((k', v') # d) = (if k = k' then (k, v) # d else (k', v') # dict_set k v d)"

text \<open>\<^verbatim>\<open>dict(pairs)\<close> and dict comprehensions: the last pair of a key wins.\<close>

definition dict_of :: "('k \<times> 'v) list \<Rightarrow> ('k, 'v) dict" where
  "dict_of ps = fold (\<lambda>(k, v). dict_set k v) ps []"

lemma map_of_dict_set [simp]: "map_of (dict_set k v d) = (map_of d)(k \<mapsto> v)"
  by (induction d) (auto simp: fun_eq_iff)

lemma keys_dict_set [simp]: "fst ` set (dict_set k v d) = insert k (fst ` set d)"
  by (induction k v d rule: dict_set.induct) (auto split: if_splits)

lemma distinct_dict_set: "distinct (map fst d) \<Longrightarrow> distinct (map fst (dict_set k v d))"
  by (induction k v d rule: dict_set.induct) auto

lemma dict_set_new: "k \<notin> fst ` set d \<Longrightarrow> dict_set k v d = d @ [(k, v)]"
  by (induction d) auto

lemma fold_dict_set_new:
  "distinct (map fst (d @ ps)) \<Longrightarrow> fold (\<lambda>(k, v). dict_set k v) ps d = d @ ps"
proof (induction ps arbitrary: d)
  case Nil
  then show ?case by simp
next
  case (Cons p ps)
  obtain k v where p: "p = (k, v)" by (cases p)
  have "k \<notin> fst ` set d" using Cons.prems p by auto
  then have "dict_set k v d = d @ [p]" by (simp add: dict_set_new p)
  then show ?case using Cons.IH [of "d @ [p]"] Cons.prems by (simp add: p)
qed

lemma dict_of_distinct: "distinct (map fst ps) \<Longrightarrow> dict_of ps = ps"
  using fold_dict_set_new [of "[]" ps] by (simp add: dict_of_def)

lemma distinct_keys_fold:
  "distinct (map fst d) \<Longrightarrow> distinct (map fst (fold (\<lambda>(k, v). dict_set k v) ps d))"
  by (induction ps arbitrary: d) (auto simp: distinct_dict_set)

lemma distinct_keys_dict_of [simp]: "distinct (map fst (dict_of ps))"
  by (simp add: dict_of_def distinct_keys_fold)

lemma map_of_fold_dict_set:
  "map_of (fold (\<lambda>(k, v). dict_set k v) ps d) = map_of d ++ map_of (rev ps)"
  by (induction ps arbitrary: d) (auto simp: map_add_def fun_eq_iff split: option.splits)

lemma keys_fold_dict_set: "fst ` set (fold (\<lambda>(k, v). dict_set k v) ps d) = fst ` set d \<union> fst ` set ps"
  by (induction ps arbitrary: d) (auto simp: case_prod_beta)

lemma dict_of_keys: "fst ` set (dict_of ps) = fst ` set ps"
  by (simp add: dict_of_def keys_fold_dict_set)

lemma map_of_dict_of: "map_of (dict_of ps) = map_of (rev ps)"
  by (simp add: dict_of_def map_of_fold_dict_set)

section \<open>Keeping the first of equal elements\<close>

text \<open>\<^verbatim>\<open>list(dict.fromkeys(xs))\<close>.\<close>

fun dedup_from :: "'a list \<Rightarrow> 'a list \<Rightarrow> 'a list" where
  "dedup_from seen [] = []"
| "dedup_from seen (x # xs) =
     (if x \<in> set seen then dedup_from seen xs else x # dedup_from (x # seen) xs)"

definition dedup :: "'a list \<Rightarrow> 'a list" where
  "dedup xs = dedup_from [] xs"

lemma set_dedup_from: "set (dedup_from seen xs) = set xs - set seen"
  by (induction seen xs rule: dedup_from.induct) auto

lemma set_dedup [simp]: "set (dedup xs) = set xs"
  by (simp add: dedup_def set_dedup_from)

lemma distinct_dedup_from: "distinct (dedup_from seen xs)"
  by (induction seen xs rule: dedup_from.induct) (auto simp: set_dedup_from)

lemma distinct_dedup [simp]: "distinct (dedup xs)"
  by (simp add: dedup_def distinct_dedup_from)

lemma dedup_Nil_iff [simp]: "dedup xs = [] \<longleftrightarrow> xs = []"
  using set_dedup [of xs] by (metis set_empty)

section \<open>Rational sums over lists\<close>

lemma sum_list_nonneg_rat: "(\<And>x. x \<in> set xs \<Longrightarrow> (0::rat) \<le> f x) \<Longrightarrow> 0 \<le> sum_list (map f xs)"
  by (induction xs) (auto intro: add_nonneg_nonneg)

lemma sum_list_pos_rat:
  "xs \<noteq> [] \<Longrightarrow> (\<And>x. x \<in> set xs \<Longrightarrow> (0::rat) < f x) \<Longrightarrow> 0 < sum_list (map f xs)"
proof (induction xs)
  case Nil
  then show ?case by simp
next
  case (Cons x xs)
  then show ?case by (cases "xs = []") (auto intro: add_pos_pos)
qed

lemma sum_list_filter_le_rat:
  "(\<And>x. x \<in> set xs \<Longrightarrow> (0::rat) \<le> f x) \<Longrightarrow> sum_list (map f (filter P xs)) \<le> sum_list (map f xs)"
  by (induction xs) (auto intro: add_increasing)

lemma sum_list_filter_eq_iff_rat:
  assumes "\<And>x. x \<in> set xs \<Longrightarrow> (0::rat) < f x"
  shows "sum_list (map f (filter P xs)) = sum_list (map f xs) \<longleftrightarrow> (\<forall>x \<in> set xs. P x)"
  using assms
proof (induction xs)
  case Nil
  then show ?case by simp
next
  case (Cons x xs)
  have le: "sum_list (map f (filter P xs)) \<le> sum_list (map f xs)"
    using Cons.prems by (intro sum_list_filter_le_rat) (auto intro: less_imp_le)
  have pos: "0 < f x" using Cons.prems by simp
  show ?case
  proof (cases "P x")
    case True
    then show ?thesis using Cons by auto
  next
    case False
    then show ?thesis using le pos by auto
  qed
qed

text \<open>A weighted mean with non-negative weights lies between the bounds of what it averages.\<close>

lemma weighted_sum_bounds:
  assumes "\<And>x. x \<in> set xs \<Longrightarrow> 0 \<le> w x" and "\<And>x. x \<in> set xs \<Longrightarrow> lo \<le> f x \<and> f x \<le> (hi :: rat)"
  shows "lo * sum_list (map w xs) \<le> sum_list (map (\<lambda>x. f x * w x) xs)"
    and "sum_list (map (\<lambda>x. f x * w x) xs) \<le> hi * sum_list (map w xs)"
proof -
  have "sum_list (map (\<lambda>x. lo * w x) xs) \<le> sum_list (map (\<lambda>x. f x * w x) xs)"
    using assms by (intro sum_list_mono mult_right_mono) auto
  then show "lo * sum_list (map w xs) \<le> sum_list (map (\<lambda>x. f x * w x) xs)"
    by (simp add: sum_list_const_mult)
  have "sum_list (map (\<lambda>x. f x * w x) xs) \<le> sum_list (map (\<lambda>x. hi * w x) xs)"
    using assms by (intro sum_list_mono mult_right_mono) auto
  then show "sum_list (map (\<lambda>x. f x * w x) xs) \<le> hi * sum_list (map w xs)"
    by (simp add: sum_list_const_mult)
qed

lemma weighted_mean_bounds:
  assumes "\<And>x. x \<in> set xs \<Longrightarrow> 0 \<le> w x" and "\<And>x. x \<in> set xs \<Longrightarrow> lo \<le> f x \<and> f x \<le> (hi :: rat)"
    and "sum_list (map w xs) \<noteq> 0"
  shows "lo \<le> sum_list (map (\<lambda>x. f x * w x) xs) / sum_list (map w xs)"
    and "sum_list (map (\<lambda>x. f x * w x) xs) / sum_list (map w xs) \<le> hi"
proof -
  have "0 < sum_list (map w xs)"
    using sum_list_nonneg_rat [of xs w] assms(1,3) by (simp add: less_le)
  then show "lo \<le> sum_list (map (\<lambda>x. f x * w x) xs) / sum_list (map w xs)"
    and "sum_list (map (\<lambda>x. f x * w x) xs) / sum_list (map w xs) \<le> hi"
    using weighted_sum_bounds [of xs w lo f hi] assms(1,2)
    by (simp_all add: pos_le_divide_eq pos_divide_le_eq)
qed

end
