(* ===== verification/Run_Queue.thy ===== *)
theory Run_Queue
  imports Forge_Prelude
begin

text \<open>
  The durable attempt queue of \<^verbatim>\<open>tolokaforge/core/run_queue.py\<close>: one row per
  \<open>(task_id, trial_index)\<close>, leased by workers, retried up to a per-row budget.  Both backends
  are modelled over the same table: \<open>sqlite_*\<close> for \<^verbatim>\<open>SqliteRunQueue\<close> and \<open>pg_*\<close> for
  \<^verbatim>\<open>PostgresRunQueue\<close>.  The clock is an argument (one per \<^verbatim>\<open>time.time()\<close> call), and so is the
  set of rows other transactions hold locked, which \<^verbatim>\<open>FOR UPDATE SKIP LOCKED\<close> skips.
  The locale \<open>attempt_queue\<close> is the contract the orchestrator relies on; both backends are
  interpreted in it.
\<close>

section \<open>The attempts table\<close>

datatype attempt_status = Pending | Leased | Running | Completed | Failed | Cancelled

record attempt =
  att_id :: int
  task_id :: pystr
  trial_index :: int
  status :: attempt_status
  retry_count :: int
  max_retries :: int
  lease_owner :: "pystr option"
  lease_expires_at :: "pyfloat option"
  started_at :: "pyfloat option"
  ended_at :: "pyfloat option"
  last_error :: "pystr option"
  last_cost_usd :: pyfloat
  created_at :: pyfloat
  updated_at :: pyfloat

record attempt_event =
  event_id :: int
  event_attempt :: int
  event_type :: pystr

text \<open>
  The queue object's own retry budget and the database it owns: the rows in insertion order,
  the identity the next insertion takes, and the event table (no operation writes to it).
\<close>

record run_queue =
  queue_max_retries :: int
  rows :: "attempt list"
  next_id :: int
  events :: "attempt_event list"

record attempt_lease =
  lease_id :: int
  lease_task_id :: pystr
  lease_trial_index :: int
  lease_retry_count :: int

text \<open>A queue on a new database.\<close>

definition init_queue :: "int \<Rightarrow> run_queue" where
  "init_queue m = \<lparr>queue_max_retries = max 0 m, rows = [], next_id = 1, events = []\<rparr>"

section \<open>SQL building blocks\<close>

text \<open>\<^verbatim>\<open>UPDATE attempts SET ... WHERE id=?\<close>.\<close>

definition update_row :: "int \<Rightarrow> (attempt \<Rightarrow> attempt) \<Rightarrow> run_queue \<Rightarrow> run_queue" where
  "update_row i f q = q\<lparr>rows := map (\<lambda>r. if att_id r = i then f r else r) (rows q)\<rparr>"

text \<open>\<^verbatim>\<open>ORDER BY updated_at ASC, id ASC LIMIT 1\<close>.\<close>

definition row_before :: "attempt \<Rightarrow> attempt \<Rightarrow> bool" where
  "row_before r s \<longleftrightarrow>
     updated_at r < updated_at s \<or> updated_at r = updated_at s \<and> att_id r \<le> att_id s"

fun first_row :: "attempt list \<Rightarrow> attempt option" where
  "first_row [] = None"
| "first_row (r # rs) =
     (case first_row rs of None \<Rightarrow> Some r | Some s \<Rightarrow> Some (if row_before r s then r else s))"

definition key_of :: "attempt \<Rightarrow> pystr \<times> int" where
  "key_of r = (task_id r, trial_index r)"

definition fresh_row :: "int \<Rightarrow> int \<Rightarrow> pyfloat \<Rightarrow> pystr \<times> int \<Rightarrow> attempt" where
  "fresh_row i m now k = \<lparr>att_id = i, task_id = fst k, trial_index = snd k, status = Pending,
     retry_count = 0, max_retries = m, lease_owner = None, lease_expires_at = None,
     started_at = None, ended_at = None, last_error = None, last_cost_usd = 0,
     created_at = now, updated_at = now\<rparr>"

section \<open>SqliteRunQueue\<close>

text \<open>
  \<^verbatim>\<open>INSERT OR IGNORE\<close>: a duplicate key inserts nothing.  Whether it leaves a gap in the identities is not observed:
  they are only compared, and every later one is larger.
\<close>

definition sqlite_insert :: "pyfloat \<Rightarrow> run_queue \<Rightarrow> pystr \<times> int \<Rightarrow> run_queue" where
  "sqlite_insert now q k =
     (if k \<in> key_of ` set (rows q) then q
      else q\<lparr>rows := rows q @ [fresh_row (next_id q) (queue_max_retries q) now k],
             next_id := next_id q + 1\<rparr>)"

definition sqlite_enqueue :: "pyfloat \<Rightarrow> pystr \<Rightarrow> int \<Rightarrow> run_queue \<Rightarrow> run_queue" where
  "sqlite_enqueue now t i q = sqlite_insert now q (t, i)"

definition sqlite_enqueue_many :: "pyfloat \<Rightarrow> (pystr \<times> int) list \<Rightarrow> run_queue \<Rightarrow> run_queue" where
  "sqlite_enqueue_many now items q =
     (if items = [] then q else foldl (sqlite_insert now) q items)"

definition stale :: "pyfloat \<Rightarrow> pyfloat \<Rightarrow> attempt \<Rightarrow> bool" where
  "stale expiry cutoff r \<longleftrightarrow> status r \<in> {Leased, Running} \<and>
     ((case lease_expires_at r of None \<Rightarrow> True | Some e \<Rightarrow> e < expiry) \<or> updated_at r < cutoff)"

definition requeue_row :: "pyfloat \<Rightarrow> attempt \<Rightarrow> attempt" where
  "requeue_row now r =
     r\<lparr>status := Pending, lease_owner := None, lease_expires_at := None, updated_at := now\<rparr>"

text \<open>
  \<open>now0\<close> fixes the cutoff, \<open>now1\<close> is written to \<open>updated_at\<close> and \<open>now2\<close> is what lease
  expiries are compared with: three successive readings of the clock.
\<close>

definition sqlite_recover_inflight ::
  "pyfloat \<Rightarrow> pyfloat \<Rightarrow> pyfloat \<Rightarrow> int \<Rightarrow> run_queue \<Rightarrow> int \<times> run_queue" where
  "sqlite_recover_inflight now0 now1 now2 max_lease_age_s q =
     (let cutoff = now0 - of_int (max 1 max_lease_age_s) in
      (int (length (filter (stale now2 cutoff) (rows q))),
       q\<lparr>rows := map (\<lambda>r. if stale now2 cutoff r then requeue_row now1 r else r) (rows q)\<rparr>))"

definition lease_row :: "pystr \<Rightarrow> pyfloat \<Rightarrow> pyfloat \<Rightarrow> attempt \<Rightarrow> attempt" where
  "lease_row w expires now r = r\<lparr>status := Leased, lease_owner := Some w,
     lease_expires_at := Some expires, updated_at := now\<rparr>"

definition lease_of :: "attempt \<Rightarrow> attempt_lease" where
  "lease_of r = \<lparr>lease_id = att_id r, lease_task_id = task_id r,
     lease_trial_index = trial_index r, lease_retry_count = retry_count r\<rparr>"

definition sqlite_lease_next ::
  "pyfloat \<Rightarrow> pystr \<Rightarrow> int \<Rightarrow> run_queue \<Rightarrow> attempt_lease option \<times> run_queue" where
  "sqlite_lease_next now worker_id lease_seconds q =
     (let expires = now + of_int (max 30 lease_seconds) in
      case first_row (filter (\<lambda>r. status r = Pending) (rows q)) of
        None \<Rightarrow> (None, q)
      | Some r \<Rightarrow> (Some (lease_of r), update_row (att_id r) (lease_row worker_id expires now) q))"

definition sqlite_mark_running :: "pyfloat \<Rightarrow> int \<Rightarrow> pystr \<Rightarrow> run_queue \<Rightarrow> run_queue" where
  "sqlite_mark_running now i w q = update_row i
     (\<lambda>r. r\<lparr>status := Running, lease_owner := Some w,
            started_at := Some (case started_at r of None \<Rightarrow> now | Some t \<Rightarrow> t),
            updated_at := now\<rparr>) q"

definition sqlite_mark_completed :: "pyfloat \<Rightarrow> int \<Rightarrow> pyfloat \<Rightarrow> run_queue \<Rightarrow> run_queue" where
  "sqlite_mark_completed now i cost q = update_row i
     (\<lambda>r. r\<lparr>status := Completed, ended_at := Some now, lease_owner := None,
            lease_expires_at := None, last_cost_usd := max 0 cost, updated_at := now\<rparr>) q"

text \<open>
  \<open>mark_failed\<close> is two statements under autocommit: a \<^verbatim>\<open>SELECT\<close> that fixes the decision, then
  an \<^verbatim>\<open>UPDATE\<close>.  They are separate definitions, so that another worker's statement can be
  placed between them.
\<close>

definition mark_failed_read :: "int \<Rightarrow> bool \<Rightarrow> run_queue \<Rightarrow> bool option" where
  "mark_failed_read i retryable q =
     (case find (\<lambda>r. att_id r = i) (rows q) of
        None \<Rightarrow> None
      | Some r \<Rightarrow> Some (retryable \<and> retry_count r < max_retries r))"

definition retry_row :: "pyfloat \<Rightarrow> pystr \<Rightarrow> attempt \<Rightarrow> attempt" where
  "retry_row now err r = r\<lparr>status := Pending, retry_count := retry_count r + 1,
     lease_owner := None, lease_expires_at := None, last_error := Some err, updated_at := now\<rparr>"

definition fail_row :: "pyfloat \<Rightarrow> pystr \<Rightarrow> attempt \<Rightarrow> attempt" where
  "fail_row now err r = r\<lparr>status := Failed, ended_at := Some now,
     lease_owner := None, lease_expires_at := None, last_error := Some err, updated_at := now\<rparr>"

definition mark_failed_write :: "pyfloat \<Rightarrow> int \<Rightarrow> pystr \<Rightarrow> bool \<Rightarrow> run_queue \<Rightarrow> run_queue" where
  "mark_failed_write now i err should_retry q =
     update_row i (if should_retry then retry_row now err else fail_row now err) q"

definition sqlite_mark_failed ::
  "pyfloat \<Rightarrow> int \<Rightarrow> pystr \<Rightarrow> bool \<Rightarrow> run_queue \<Rightarrow> bool \<times> run_queue" where
  "sqlite_mark_failed now i err retryable q =
     (case mark_failed_read i retryable q of
        None \<Rightarrow> (False, q)
      | Some should_retry \<Rightarrow> (should_retry, mark_failed_write now i err should_retry q))"

definition count_status :: "attempt_status \<Rightarrow> run_queue \<Rightarrow> int" where
  "count_status s q = int (length (filter (\<lambda>r. status r = s) (rows q)))"

definition get_counts :: "run_queue \<Rightarrow> (pystr, int) dict" where
  "get_counts q =
     (let counts = [(''pending'', count_status Pending q), (''leased'', count_status Leased q),
                    (''running'', count_status Running q), (''completed'', count_status Completed q),
                    (''failed'', count_status Failed q), (''cancelled'', count_status Cancelled q)]
      in counts @ [(''total'', sum_list (map snd counts))])"

text \<open>The rows the \<^verbatim>\<open>WHERE\<close> clause of the estimate admits, and the arithmetic over its aggregates.\<close>

definition finished_rows :: "run_queue \<Rightarrow> attempt list" where
  "finished_rows q =
     filter (\<lambda>r. status r = Completed \<and> started_at r \<noteq> None \<and> ended_at r \<noteq> None) (rows q)"

definition eta_from :: "nat \<Rightarrow> pyfloat \<Rightarrow> int \<Rightarrow> pyfloat option" where
  "eta_from completed_n elapsed remaining =
     (if elapsed \<le> 0 then None
      else let throughput = of_nat completed_n / elapsed
           in if throughput \<le> 0 then None else Some (of_int remaining / throughput))"

definition estimate_eta_seconds :: "run_queue \<Rightarrow> pyfloat option" where
  "estimate_eta_seconds q =
     (let completed_n = length (finished_rows q) in
      if completed_n < 3 then None
      else let min_started = Min (set (map (the \<circ> started_at) (finished_rows q)));
               max_ended = Max (set (map (the \<circ> ended_at) (finished_rows q)))
           in eta_from completed_n (max_ended - min_started)
                (count_status Pending q + count_status Leased q + count_status Running q))"

definition clear_all :: "run_queue \<Rightarrow> run_queue" where
  "clear_all q = q\<lparr>rows := [], events := []\<rparr>"

section \<open>PostgresRunQueue\<close>

text \<open>
  \<^verbatim>\<open>ON CONFLICT DO NOTHING\<close> evaluates the \<^verbatim>\<open>BIGSERIAL\<close> default before the conflict is found,
  so a duplicate key consumes an identity: the ids of the two backends may differ.
\<close>

definition pg_insert :: "pyfloat \<Rightarrow> run_queue \<Rightarrow> pystr \<times> int \<Rightarrow> run_queue" where
  "pg_insert now q k =
     (if k \<in> key_of ` set (rows q) then q\<lparr>next_id := next_id q + 1\<rparr>
      else q\<lparr>rows := rows q @ [fresh_row (next_id q) (queue_max_retries q) now k],
             next_id := next_id q + 1\<rparr>)"

definition pg_enqueue :: "pyfloat \<Rightarrow> pystr \<Rightarrow> int \<Rightarrow> run_queue \<Rightarrow> run_queue" where
  "pg_enqueue now t i q = pg_insert now q (t, i)"

text \<open>The batches of 500 rows \<^verbatim>\<open>range(0, len(items), chunk_size)\<close> cuts the items into.\<close>

definition chunk_size :: nat where
  "chunk_size = 500"

function chunks :: "nat \<Rightarrow> 'a list \<Rightarrow> 'a list list" where
  "chunks n xs = (if n = 0 \<or> xs = [] then [] else take n xs # chunks n (drop n xs))"
  by pat_completeness auto
termination
  by (relation "measure (\<lambda>(n, xs). length xs)") auto

declare chunks.simps [simp del]

definition pg_enqueue_many :: "pyfloat \<Rightarrow> (pystr \<times> int) list \<Rightarrow> run_queue \<Rightarrow> run_queue" where
  "pg_enqueue_many now items q =
     (if items = [] then q
      else foldl (\<lambda>q chunk. foldl (pg_insert now) q chunk) q (chunks chunk_size items))"

definition pg_recover_inflight ::
  "pyfloat \<Rightarrow> pyfloat \<Rightarrow> pyfloat \<Rightarrow> int \<Rightarrow> run_queue \<Rightarrow> int \<times> run_queue" where
  "pg_recover_inflight now0 now1 now2 max_lease_age_s q =
     (let cutoff = now0 - of_int (max 1 max_lease_age_s) in
      (int (length (filter (stale now2 cutoff) (rows q))),
       q\<lparr>rows := map (\<lambda>r. if stale now2 cutoff r then requeue_row now1 r else r) (rows q)\<rparr>))"

definition pg_lease_next ::
  "int set \<Rightarrow> pyfloat \<Rightarrow> pystr \<Rightarrow> int \<Rightarrow> run_queue \<Rightarrow> attempt_lease option \<times> run_queue" where
  "pg_lease_next locked now worker_id lease_seconds q =
     (let expires = now + of_int (max 30 lease_seconds) in
      case first_row (filter (\<lambda>r. status r = Pending \<and> att_id r \<notin> locked) (rows q)) of
        None \<Rightarrow> (None, q)
      | Some r \<Rightarrow> (Some (lease_of r), update_row (att_id r) (lease_row worker_id expires now) q))"

definition pg_mark_running :: "pyfloat \<Rightarrow> int \<Rightarrow> pystr \<Rightarrow> run_queue \<Rightarrow> run_queue" where
  "pg_mark_running now i w q = update_row i
     (\<lambda>r. r\<lparr>status := Running, lease_owner := Some w,
            started_at := Some (case started_at r of None \<Rightarrow> now | Some t \<Rightarrow> t),
            updated_at := now\<rparr>) q"

definition pg_mark_completed :: "pyfloat \<Rightarrow> int \<Rightarrow> pyfloat \<Rightarrow> run_queue \<Rightarrow> run_queue" where
  "pg_mark_completed now i cost q = update_row i
     (\<lambda>r. r\<lparr>status := Completed, ended_at := Some now, lease_owner := None,
            lease_expires_at := None, last_cost_usd := max 0 cost, updated_at := now\<rparr>) q"

definition pg_mark_failed ::
  "pyfloat \<Rightarrow> int \<Rightarrow> pystr \<Rightarrow> bool \<Rightarrow> run_queue \<Rightarrow> bool \<times> run_queue" where
  "pg_mark_failed now i err retryable q =
     (case mark_failed_read i retryable q of
        None \<Rightarrow> (False, q)
      | Some should_retry \<Rightarrow> (should_retry, mark_failed_write now i err should_retry q))"

section \<open>create_run_queue\<close>

datatype queue_backend = SqliteBackend | PostgresBackend

datatype queue_error = MissingDsn | UnsupportedBackend pystr

text \<open>
  Both tables are created only if they are missing: a queue that is opened keeps the rows of its database and
  takes the retries it gives to new rows from its configuration.
\<close>

definition open_queue :: "int \<Rightarrow> run_queue \<Rightarrow> run_queue" where
  "open_queue m stored = stored\<lparr>queue_max_retries := max 0 m\<rparr>"

definition create_run_queue ::
  "pystr \<Rightarrow> int \<Rightarrow> pystr option \<Rightarrow> run_queue \<Rightarrow> queue_error + (queue_backend \<times> run_queue)" where
  "create_run_queue backend retries postgres_dsn stored =
     (let normalized = lower_str (if backend = [] then ''sqlite'' else backend) in
      if normalized = ''sqlite'' then Inr (SqliteBackend, open_queue retries stored)
      else if normalized = ''postgres'' then
        (if (case postgres_dsn of None \<Rightarrow> [] | Some d \<Rightarrow> d) = [] then Inl MissingDsn
         else Inr (PostgresBackend, open_queue retries stored))
      else Inl (UnsupportedBackend backend))"

section \<open>Operations and replies, as the orchestrator issues them\<close>

datatype queue_op =
    Enqueue pyfloat pystr int
  | EnqueueMany pyfloat "(pystr \<times> int) list"
  | RecoverInflight pyfloat pyfloat pyfloat int
  | LeaseNext pyfloat pystr int
  | MarkRunning pyfloat int pystr
  | MarkCompleted pyfloat int pyfloat
  | MarkFailed pyfloat int pystr bool
  | ClearAll

datatype queue_reply =
    Done | Recovered int | LeaseGrant "attempt_lease option" | Requeued bool

fun sqlite_exec :: "queue_op \<Rightarrow> run_queue \<Rightarrow> queue_reply \<times> run_queue" where
  "sqlite_exec (Enqueue now t i) q = (Done, sqlite_enqueue now t i q)"
| "sqlite_exec (EnqueueMany now items) q = (Done, sqlite_enqueue_many now items q)"
| "sqlite_exec (RecoverInflight t0 t1 t2 age) q =
     (case sqlite_recover_inflight t0 t1 t2 age q of (n, q') \<Rightarrow> (Recovered n, q'))"
| "sqlite_exec (LeaseNext now w secs) q =
     (case sqlite_lease_next now w secs q of (l, q') \<Rightarrow> (LeaseGrant l, q'))"
| "sqlite_exec (MarkRunning now i w) q = (Done, sqlite_mark_running now i w q)"
| "sqlite_exec (MarkCompleted now i c) q = (Done, sqlite_mark_completed now i c q)"
| "sqlite_exec (MarkFailed now i err retryable) q =
     (case sqlite_mark_failed now i err retryable q of (b, q') \<Rightarrow> (Requeued b, q'))"
| "sqlite_exec ClearAll q = (Done, clear_all q)"

text \<open>\<open>locks now\<close> are the rows other transactions hold when the statement issued at \<open>now\<close> runs.\<close>

fun pg_exec :: "(pyfloat \<Rightarrow> int set) \<Rightarrow> queue_op \<Rightarrow> run_queue \<Rightarrow> queue_reply \<times> run_queue" where
  "pg_exec locks (Enqueue now t i) q = (Done, pg_enqueue now t i q)"
| "pg_exec locks (EnqueueMany now items) q = (Done, pg_enqueue_many now items q)"
| "pg_exec locks (RecoverInflight t0 t1 t2 age) q =
     (case pg_recover_inflight t0 t1 t2 age q of (n, q') \<Rightarrow> (Recovered n, q'))"
| "pg_exec locks (LeaseNext now w secs) q =
     (case pg_lease_next (locks now) now w secs q of (l, q') \<Rightarrow> (LeaseGrant l, q'))"
| "pg_exec locks (MarkRunning now i w) q = (Done, pg_mark_running now i w q)"
| "pg_exec locks (MarkCompleted now i c) q = (Done, pg_mark_completed now i c q)"
| "pg_exec locks (MarkFailed now i err retryable) q =
     (case pg_mark_failed now i err retryable q of (b, q') \<Rightarrow> (Requeued b, q'))"
| "pg_exec locks ClearAll q = (Done, clear_all q)"

text \<open>A history: the operations in the order they committed, each with its reply.\<close>

fun run_trace :: "('op \<Rightarrow> 's \<Rightarrow> 'r \<times> 's) \<Rightarrow> 'op list \<Rightarrow> 's \<Rightarrow> ('op \<times> 'r) list \<times> 's" where
  "run_trace exec [] q = ([], q)"
| "run_trace exec (x # xs) q =
     (case exec x q of (r, q1) \<Rightarrow> case run_trace exec xs q1 of (tr, q2) \<Rightarrow> ((x, r) # tr, q2))"

fun requeues :: "int \<Rightarrow> queue_op \<times> queue_reply \<Rightarrow> bool" where
  "requeues i (MarkFailed now j err retryable, Requeued True) = (i = j)"
| "requeues i _ = False"

fun leases :: "int \<Rightarrow> queue_op \<times> queue_reply \<Rightarrow> bool" where
  "leases i (_, LeaseGrant (Some l)) = (lease_id l = i)"
| "leases i _ = False"

fun recovers :: "queue_op \<times> queue_reply \<Rightarrow> bool" where
  "recovers (RecoverInflight t0 t1 t2 age, _) = True"
| "recovers _ = False"

definition count_in :: "('a \<Rightarrow> bool) \<Rightarrow> 'a list \<Rightarrow> nat" where
  "count_in P xs = length (filter P xs)"

section \<open>Well-formed tables\<close>

definition wf_row :: "attempt \<Rightarrow> bool" where
  "wf_row r \<longleftrightarrow> 0 \<le> retry_count r \<and> retry_count r \<le> max_retries r \<and> 0 \<le> last_cost_usd r \<and>
     (case status r of
        Pending \<Rightarrow> lease_owner r = None \<and> lease_expires_at r = None
      | Leased \<Rightarrow> lease_owner r \<noteq> None \<and> lease_expires_at r \<noteq> None
      | Running \<Rightarrow> lease_owner r \<noteq> None \<and> started_at r \<noteq> None
      | Completed \<Rightarrow> lease_owner r = None \<and> lease_expires_at r = None \<and> ended_at r \<noteq> None
      | Failed \<Rightarrow> lease_owner r = None \<and> lease_expires_at r = None \<and> ended_at r \<noteq> None
      | Cancelled \<Rightarrow> False)"

definition wf_queue :: "run_queue \<Rightarrow> bool" where
  "wf_queue q \<longleftrightarrow> 0 \<le> queue_max_retries q \<and>
     sorted_wrt (<) (map att_id (rows q)) \<and>
     (\<forall>r \<in> set (rows q). att_id r < next_id q \<and> wf_row r) \<and>
     distinct (map key_of (rows q))"

definition row_at :: "int \<Rightarrow> run_queue \<Rightarrow> attempt option" where
  "row_at i q = find (\<lambda>r. att_id r = i) (rows q)"

section \<open>Lemmas on tables\<close>

text \<open>A row update that keeps identity, key and budget.\<close>

definition frames :: "(attempt \<Rightarrow> attempt) \<Rightarrow> bool" where
  "frames f \<longleftrightarrow> (\<forall>r. att_id (f r) = att_id r \<and> key_of (f r) = key_of r \<and>
     max_retries (f r) = max_retries r)"

lemma frames_row_updates [simp]:
  "frames (lease_row w e now)" "frames (requeue_row now)" "frames (retry_row now err)"
  "frames (fail_row now err)"
  by (simp_all add: frames_def key_of_def lease_row_def requeue_row_def retry_row_def fail_row_def)

lemma frames_if [simp]: "frames f \<Longrightarrow> frames (\<lambda>r. if P r then f r else r)"
  by (simp add: frames_def)

lemma wf_map_rows:
  assumes "wf_queue q" and "frames f" and "\<And>r. r \<in> set (rows q) \<Longrightarrow> wf_row r \<Longrightarrow> wf_row (f r)"
  shows "wf_queue (q\<lparr>rows := map f (rows q)\<rparr>)"
proof -
  have "att_id \<circ> f = att_id" "key_of \<circ> f = key_of"
    using assms(2) by (auto simp: frames_def)
  with assms show ?thesis by (auto simp: wf_queue_def frames_def)
qed

lemma row_at_map_rows:
  "frames f \<Longrightarrow> row_at i (q\<lparr>rows := map f (rows q)\<rparr>) = map_option f (row_at i q)"
proof -
  assume "frames f"
  then have "find (\<lambda>r. att_id r = i) (map f rs) = map_option f (find (\<lambda>r. att_id r = i) rs)" for rs
    by (induction rs) (auto simp: frames_def)
  then show ?thesis by (simp add: row_at_def)
qed

lemma row_at_Some_iff:
  assumes "wf_queue q"
  shows "row_at i q = Some r \<longleftrightarrow> r \<in> set (rows q) \<and> att_id r = i"
proof -
  have "sorted_wrt (<) (map att_id rs) \<Longrightarrow>
    find (\<lambda>r. att_id r = i) rs = Some r \<longleftrightarrow> r \<in> set rs \<and> att_id r = i" for rs
    by (induction rs) auto
  with assms show ?thesis by (simp add: row_at_def wf_queue_def)
qed

lemma row_at_id: "row_at i q = Some r \<Longrightarrow> att_id r = i"
  by (auto simp: row_at_def find_Some_iff)

lemma update_row_as_map: "update_row i f q = q\<lparr>rows := map (\<lambda>r. if att_id r = i then f r else r) (rows q)\<rparr>"
  by (simp add: update_row_def)

lemma update_row_frame [simp]:
  "queue_max_retries (update_row i f q) = queue_max_retries q"
  "events (update_row i f q) = events q" "next_id (update_row i f q) = next_id q"
  by (simp_all add: update_row_def)

lemma row_at_update_row:
  "frames f \<Longrightarrow> row_at j (update_row i f q) = map_option (\<lambda>r. if i = j then f r else r) (row_at j q)"
  by (cases "row_at j q") (auto simp: update_row_as_map row_at_map_rows dest: row_at_id)

lemma wf_update_row:
  assumes "wf_queue q" "frames f" "\<And>r. row_at i q = Some r \<Longrightarrow> wf_row r \<Longrightarrow> wf_row (f r)"
  shows "wf_queue (update_row i f q)"
  unfolding update_row_as_map
  using assms by (intro wf_map_rows) (auto simp: row_at_Some_iff)

lemma wf_fresh_row [simp]: "0 \<le> m \<Longrightarrow> wf_row (fresh_row i m now k)"
  by (simp add: wf_row_def fresh_row_def)

lemma wf_append_row:
  assumes "wf_queue q" "k \<notin> key_of ` set (rows q)"
  shows "wf_queue (q\<lparr>rows := rows q @ [fresh_row (next_id q) (queue_max_retries q) now k],
    next_id := next_id q + 1\<rparr>)"
  using assms by (fastforce simp: wf_queue_def fresh_row_def wf_row_def key_of_def sorted_wrt_append)

lemma wf_insert [simp]: "wf_queue q \<Longrightarrow> wf_queue (sqlite_insert now q k)"
  by (simp add: sqlite_insert_def wf_append_row)

lemma wf_pg_insert [simp]: "wf_queue q \<Longrightarrow> wf_queue (pg_insert now q k)"
  by (auto simp: pg_insert_def wf_append_row) (fastforce simp: wf_queue_def)

lemma row_at_append: "row_at i q = Some r \<Longrightarrow> row_at i (q\<lparr>rows := rows q @ rs, next_id := n\<rparr>) = Some r"
proof -
  have "find P xs = Some r \<Longrightarrow> find P (xs @ rs) = Some r" for P and xs :: "attempt list"
    by (induction xs) (auto split: if_splits)
  then show "row_at i q = Some r \<Longrightarrow> ?thesis" by (simp add: row_at_def)
qed

lemma row_at_insert: "row_at i q = Some r \<Longrightarrow> row_at i (sqlite_insert now q k) = Some r"
  by (simp add: sqlite_insert_def row_at_append)

lemma row_at_pg_insert: "row_at i q = Some r \<Longrightarrow> row_at i (pg_insert now q k) = Some r"
  using row_at_append by (auto simp: pg_insert_def) (simp add: row_at_def)

lemma foldl_wf:
  assumes "\<And>q k. wf_queue q \<Longrightarrow> wf_queue (ins q k)"
  shows "wf_queue q \<Longrightarrow> wf_queue (foldl ins q ks)"
  using assms by (induction ks arbitrary: q) auto

lemma foldl_row_at:
  assumes "\<And>q k. row_at i q = Some r \<Longrightarrow> row_at i (ins q k) = Some r"
  shows "row_at i q = Some r \<Longrightarrow> row_at i (foldl ins q ks) = Some r"
  using assms by (induction ks arbitrary: q) auto

lemmas foldl_insert_simps = foldl_wf [OF wf_insert] foldl_wf [OF wf_pg_insert]
  foldl_row_at [OF row_at_insert] foldl_row_at [OF row_at_pg_insert]

lemma chunks_concat: "0 < n \<Longrightarrow> concat (chunks n xs) = xs"
proof (induction n xs rule: chunks.induct)
  case (1 n xs)
  then show ?case by (cases "xs = []") (simp_all add: chunks.simps [of n xs] chunks.simps [of n "[]"])
qed

lemma foldl_concat: "foldl (\<lambda>q c. foldl f q c) q cs = foldl f q (concat cs)"
  by (induction cs arbitrary: q) simp_all

text \<open>Batching is invisible: the chunked insertion is the plain one.\<close>

lemma pg_enqueue_many_foldl [queue_simps]: "pg_enqueue_many now items q = foldl (pg_insert now) q items"
  by (simp add: pg_enqueue_many_def foldl_concat chunks_concat chunk_size_def)

lemma sqlite_enqueue_many_foldl [queue_simps]:
  "sqlite_enqueue_many now items q = foldl (sqlite_insert now) q items"
  by (simp add: sqlite_enqueue_many_def)

lemma row_before_total: "row_before r s \<or> row_before s r"
  by (auto simp: row_before_def)

lemma row_before_trans: "row_before r s \<Longrightarrow> row_before s t \<Longrightarrow> row_before r t"
  by (auto simp: row_before_def)

lemma first_row_None_iff [simp]: "first_row rs = None \<longleftrightarrow> rs = []"
  by (cases rs) (auto split: option.splits)

lemma first_row_minimal: "first_row rs = Some r \<Longrightarrow> r \<in> set rs \<and> (\<forall>s \<in> set rs. row_before r s)"
proof (induction rs arbitrary: r)
  case Nil
  then show ?case by simp
next
  case (Cons x rs)
  show ?case
  proof (cases "first_row rs")
    case None
    with Cons.prems show ?thesis using row_before_total by auto
  next
    case (Some s)
    with Cons.IH have s: "s \<in> set rs" "\<forall>t \<in> set rs. row_before s t" by auto
    have r: "r = (if row_before x s then x else s)" using Some Cons.prems by simp
    show ?thesis
    proof (cases "row_before x s")
      case True
      then have "\<forall>t \<in> set rs. row_before x t" using s row_before_trans by blast
      then show ?thesis using True r row_before_total [of x x] by simp
    next
      case False
      then have "row_before s x" using row_before_total by blast
      then show ?thesis using False r s by simp
    qed
  qed
qed

lemma wf_inj_id: "wf_queue q \<Longrightarrow> inj_on att_id (set (rows q))"
  by (simp add: wf_queue_def strict_sorted_iff distinct_map)

lemma wf_row_updates:
  "wf_row r \<Longrightarrow> wf_row (lease_row w e now r)"
  "wf_row r \<Longrightarrow> wf_row (requeue_row now r)"
  "wf_row r \<Longrightarrow> wf_row (fail_row now err r)"
  "wf_row r \<Longrightarrow> retry_count r < max_retries r \<Longrightarrow> wf_row (retry_row now err r)"
  by (simp_all add: wf_row_def lease_row_def requeue_row_def fail_row_def retry_row_def)

section \<open>The contract of a queue backend\<close>

text \<open>
  What one operation may do to one row: identity, key and budget are kept; \<open>retry_count\<close> moves
  exactly when the reply says the attempt was requeued; a row becomes pending only by such a
  requeue or by recovery; and a grant turns a pending row into a leased one.
\<close>

definition row_step :: "queue_op \<times> queue_reply \<Rightarrow> int \<Rightarrow> attempt \<Rightarrow> attempt \<Rightarrow> bool" where
  "row_step e i r r' \<longleftrightarrow> key_of r' = key_of r \<and> max_retries r' = max_retries r \<and>
     retry_count r' = retry_count r + of_bool (requeues i e) \<and>
     (status r' = Pending \<longrightarrow> status r = Pending \<or> requeues i e \<or> recovers e) \<and>
     (leases i e \<longrightarrow> status r = Pending \<and> status r' = Leased)"

locale attempt_queue =
  fixes exec :: "queue_op \<Rightarrow> run_queue \<Rightarrow> queue_reply \<times> run_queue"
  assumes exec_wf: "wf_queue q \<Longrightarrow> wf_queue (snd (exec x q))"
    and exec_row: "wf_queue q \<Longrightarrow> x \<noteq> ClearAll \<Longrightarrow> row_at i q = Some r \<Longrightarrow>
      \<exists>r'. row_at i (snd (exec x q)) = Some r' \<and> row_step (x, fst (exec x q)) i r r'"
begin

lemma run_wf: "wf_queue q \<Longrightarrow> wf_queue (snd (run_trace exec xs q))"
proof (induction xs arbitrary: q)
  case Nil
  then show ?case by simp
next
  case (Cons x xs)
  then have "wf_queue (snd (exec x q))" by (simp add: exec_wf)
  from Cons.IH [OF this] show ?case by (simp add: case_prod_beta)
qed

text \<open>
  The accounting invariant of a history: leases granted, plus one if the row is pending at the
  end, never exceed one if it was pending at the start plus the requeues and recoveries; and the
  retry counter advances by exactly the requeues.
\<close>

lemma run_accounting:
  assumes "wf_queue q" "ClearAll \<notin> set xs" "row_at i q = Some r" "run_trace exec xs q = (tr, q')"
  shows "\<exists>r'. row_at i q' = Some r' \<and> max_retries r' = max_retries r \<and> key_of r' = key_of r \<and>
    retry_count r' = retry_count r + int (count_in (requeues i) tr) \<and>
    count_in (leases i) tr + of_bool (status r' = Pending)
      \<le> of_bool (status r = Pending) + count_in (requeues i) tr + count_in recovers tr"
  using assms
proof (induction xs arbitrary: q r tr)
  case Nil
  then show ?case by (auto simp: count_in_def)
next
  case (Cons x xs)
  obtain q1 rep tr1 where ex: "exec x q = (rep, q1)" and tr1: "run_trace exec xs q1 = (tr1, q')"
    and tr: "tr = (x, rep) # tr1"
    using Cons.prems by (auto split: prod.splits)
  from exec_row [of q x i r] Cons.prems ex obtain r1 where r1: "row_at i q1 = Some r1"
    and st: "row_step (x, rep) i r r1" by auto
  have wf1: "wf_queue q1" using exec_wf [of q x] Cons.prems ex by simp
  from Cons.IH [OF wf1 _ r1 tr1] Cons.prems obtain r' where
    r': "row_at i q' = Some r'" "max_retries r' = max_retries r1" "key_of r' = key_of r1"
      "retry_count r' = retry_count r1 + int (count_in (requeues i) tr1)"
    and le: "count_in (leases i) tr1 + of_bool (status r' = Pending)
      \<le> of_bool (status r1 = Pending) + count_in (requeues i) tr1 + count_in recovers tr1"
    by auto
  have step: "of_bool (leases i (x, rep)) + of_bool (status r1 = Pending)
      \<le> (of_bool (status r = Pending) + of_bool (requeues i (x, rep)) + of_bool (recovers (x, rep)) :: nat)"
    using st by (auto simp: row_step_def)
  have cnt: "count_in P tr = of_bool (P (x, rep)) + count_in P tr1" for P
    by (simp add: tr count_in_def)
  show ?case
    using r' st le step by (auto simp: cnt row_step_def)
qed

lemma lease_count:
  assumes "wf_queue q" "ClearAll \<notin> set xs" "row_at i q = Some r" "run_trace exec xs q = (tr, q')"
  shows "count_in (leases i) tr \<le> 1 + count_in (requeues i) tr + count_in recovers tr"
  using run_accounting [OF assms] by (cases "status r = Pending") auto

lemma bounded_leases:
  assumes "wf_queue q" "ClearAll \<notin> set xs" "row_at i q = Some r" "run_trace exec xs q = (tr, q')"
  shows "int (count_in (leases i) tr)
    \<le> 1 + (max_retries r - retry_count r) + int (count_in recovers tr)"
proof -
  from run_accounting [OF assms] obtain r' where r': "row_at i q' = Some r'"
    "max_retries r' = max_retries r"
    "retry_count r' = retry_count r + int (count_in (requeues i) tr)"
    by blast
  have "wf_queue q'" using run_wf [of q xs] assms by simp
  with r' have "retry_count r' \<le> max_retries r'" by (auto simp: row_at_Some_iff wf_queue_def wf_row_def)
  with lease_count [OF assms] r' show ?thesis by linarith
qed

end

lemma row_step_frame: "row_step (x, Done) i r r'" if "key_of r' = key_of r" "max_retries r' = max_retries r"
  "retry_count r' = retry_count r" "status r' = Pending \<longrightarrow> status r = Pending"
  using that by (cases x) (auto simp: row_step_def)

lemma row_step_frameI:
  assumes "key_of r' = key_of r" "max_retries r' = max_retries r" "retry_count r' = retry_count r"
    "status r' = Pending \<longrightarrow> status r = Pending" "\<not> requeues i e" "\<not> leases i e"
  shows "row_step e i r r'"
  using assms by (simp add: row_step_def)

lemma lease_next_row:
  assumes wf: "wf_queue q" and row: "row_at i q = Some r"
    and fr: "first_row (filter P (rows q)) = Some r0" and P: "\<And>r. P r \<Longrightarrow> status r = Pending"
  shows "\<exists>r'. row_at i (update_row (att_id r0) (lease_row w e now) q) = Some r' \<and>
    row_step (LeaseNext now w secs, LeaseGrant (Some (lease_of r0))) i r r'"
proof -
  have r0: "r0 \<in> set (rows q)" "status r0 = Pending" using first_row_minimal [OF fr] P by auto
  have "att_id r0 = i \<Longrightarrow> r0 = r"
    using r0 row wf_inj_id [OF wf] by (auto simp: row_at_Some_iff [OF wf] dest: inj_onD)
  then show ?thesis using row r0
    by (auto simp: row_at_update_row row_step_def lease_of_def lease_row_def key_of_def)
qed

lemma mark_failed_row:
  assumes "row_at i q = Some r" "mark_failed_read j retryable q = Some b"
  shows "\<exists>r'. row_at i (mark_failed_write now j err b q) = Some r' \<and>
    row_step (MarkFailed now j err retryable, Requeued b) i r r'"
  using assms
  by (cases b) (auto simp: mark_failed_write_def row_at_update_row row_step_def retry_row_def
    fail_row_def key_of_def)

lemma mark_failed_wf:
  assumes "wf_queue q" "mark_failed_read j retryable q = Some b"
  shows "wf_queue (mark_failed_write now j err b q)"
  using assms unfolding mark_failed_write_def
  by (cases b) (auto intro!: wf_update_row wf_row_updates simp: mark_failed_read_def row_at_def
    split: option.splits)

lemma recover_row:
  assumes "row_at i q = Some r"
  shows "\<exists>r'. row_at i (q\<lparr>rows := map (\<lambda>r. if stale e c r then requeue_row now r else r) (rows q)\<rparr>)
    = Some r' \<and> row_step (RecoverInflight t0 t1 t2 age, Recovered n) i r r'"
  using assms row_at_map_rows [OF frames_if [OF frames_row_updates(2)], where i = i and q = q]
  by (auto simp: row_step_def requeue_row_def key_of_def)

lemma frames_mark [simp]:
  "frames (\<lambda>r. r\<lparr>status := Running, lease_owner := Some w, started_at := f r, updated_at := now\<rparr>)"
  "frames (\<lambda>r. r\<lparr>status := Completed, ended_at := Some now, lease_owner := None,
     lease_expires_at := None, last_cost_usd := c, updated_at := now\<rparr>)"
  by (simp_all add: frames_def key_of_def)

lemma wf_row_mark:
  "wf_row r \<Longrightarrow> wf_row (r\<lparr>status := Running, lease_owner := Some w, started_at := Some t,
     updated_at := now\<rparr>)"
  "wf_row r \<Longrightarrow> 0 \<le> c \<Longrightarrow> wf_row (r\<lparr>status := Completed, ended_at := Some now, lease_owner := None,
     lease_expires_at := None, last_cost_usd := c, updated_at := now\<rparr>)"
  by (simp_all add: wf_row_def)

lemma wf_init_queue: "wf_queue (init_queue m)"
  by (simp add: wf_queue_def init_queue_def)

lemma wf_clear_all: "wf_queue q \<Longrightarrow> wf_queue (clear_all q)"
  by (simp add: wf_queue_def clear_all_def)

lemma sqlite_exec_wf: "wf_queue q \<Longrightarrow> wf_queue (snd (sqlite_exec x q))"
  by (cases x)
    (auto simp: sqlite_enqueue_def sqlite_enqueue_many_foldl sqlite_recover_inflight_def Let_def
       sqlite_lease_next_def sqlite_mark_running_def sqlite_mark_completed_def sqlite_mark_failed_def
       wf_clear_all mark_failed_wf foldl_insert_simps
       intro!: wf_map_rows wf_update_row wf_row_updates wf_row_mark
       split: option.splits)

lemma sqlite_exec_row:
  assumes "wf_queue q" "x \<noteq> ClearAll" "row_at i q = Some r"
  shows "\<exists>r'. row_at i (snd (sqlite_exec x q)) = Some r' \<and> row_step (x, fst (sqlite_exec x q)) i r r'"
proof (cases x)
  case (LeaseNext now w secs)
  show ?thesis
  proof (cases "first_row (filter (\<lambda>r. status r = Pending) (rows q))")
    case None
    then show ?thesis using LeaseNext assms
      by (auto simp: sqlite_lease_next_def Let_def intro!: row_step_frameI)
  next
    case (Some r0)
    then show ?thesis using LeaseNext assms lease_next_row [OF assms(1,3) Some]
      by (simp add: sqlite_lease_next_def Let_def)
  qed
next
  case (MarkFailed now j err retryable)
  then show ?thesis using assms mark_failed_row
    by (auto simp: sqlite_mark_failed_def intro: row_step_frameI split: option.splits)
next
  case (RecoverInflight t0 t1 t2 age)
  then show ?thesis using assms recover_row by (simp add: sqlite_recover_inflight_def Let_def)
qed (use assms in \<open>auto simp: sqlite_enqueue_def sqlite_enqueue_many_foldl row_at_insert
    sqlite_mark_running_def sqlite_mark_completed_def row_at_update_row key_of_def
    foldl_insert_simps intro!: row_step_frameI\<close>)

interpretation sq: attempt_queue sqlite_exec
  by unfold_locales (auto simp: sqlite_exec_wf sqlite_exec_row)

lemma pg_exec_wf: "wf_queue q \<Longrightarrow> wf_queue (snd (pg_exec locks x q))"
  by (cases x)
    (auto simp: pg_enqueue_def pg_enqueue_many_foldl pg_recover_inflight_def Let_def
       pg_lease_next_def pg_mark_running_def pg_mark_completed_def pg_mark_failed_def
       wf_clear_all mark_failed_wf foldl_insert_simps
       intro!: wf_map_rows wf_update_row wf_row_updates wf_row_mark
       split: option.splits)

lemma pg_exec_row:
  assumes "wf_queue q" "x \<noteq> ClearAll" "row_at i q = Some r"
  shows "\<exists>r'. row_at i (snd (pg_exec locks x q)) = Some r' \<and> row_step (x, fst (pg_exec locks x q)) i r r'"
proof (cases x)
  case (LeaseNext now w secs)
  show ?thesis
  proof (cases "first_row (filter (\<lambda>r. status r = Pending \<and> att_id r \<notin> locks now) (rows q))")
    case None
    then show ?thesis using LeaseNext assms
      by (auto simp: pg_lease_next_def Let_def intro!: row_step_frameI)
  next
    case (Some r0)
    then show ?thesis using LeaseNext assms lease_next_row [OF assms(1,3) Some]
      by (simp add: pg_lease_next_def Let_def)
  qed
next
  case (MarkFailed now j err retryable)
  then show ?thesis using assms mark_failed_row
    by (auto simp: pg_mark_failed_def intro: row_step_frameI split: option.splits)
next
  case (RecoverInflight t0 t1 t2 age)
  then show ?thesis using assms recover_row by (simp add: pg_recover_inflight_def Let_def)
qed (use assms in \<open>auto simp: pg_enqueue_def pg_enqueue_many_foldl row_at_pg_insert
    pg_mark_running_def pg_mark_completed_def row_at_update_row key_of_def
    foldl_insert_simps intro!: row_step_frameI\<close>)

interpretation pg: attempt_queue "pg_exec locks" for locks
  by unfold_locales (auto simp: pg_exec_wf pg_exec_row)

section \<open>The two backends agree up to row identities\<close>

definition strip :: "attempt \<Rightarrow> attempt" where
  "strip r = r\<lparr>att_id := 0\<rparr>"

text \<open>The two tables hold the same rows in the same order, ids aside.\<close>

definition sim :: "run_queue \<Rightarrow> run_queue \<Rightarrow> bool" where
  "sim q1 q2 \<longleftrightarrow> wf_queue q1 \<and> wf_queue q2 \<and> queue_max_retries q1 = queue_max_retries q2 \<and>
     events q1 = events q2 \<and> list_all2 (\<lambda>r s. strip r = strip s) (rows q1) (rows q2)"

text \<open>The same request to both: an id names the row at the same place in each table.\<close>

inductive op_match :: "run_queue \<Rightarrow> run_queue \<Rightarrow> queue_op \<Rightarrow> queue_op \<Rightarrow> bool"
  for q1 q2 :: run_queue where
  "op_match q1 q2 (Enqueue now t i) (Enqueue now t i)"
| "op_match q1 q2 (EnqueueMany now items) (EnqueueMany now items)"
| "op_match q1 q2 (RecoverInflight t0 t1 t2 age) (RecoverInflight t0 t1 t2 age)"
| "op_match q1 q2 (LeaseNext now w secs) (LeaseNext now w secs)"
| "(r, s) \<in> set (zip (rows q1) (rows q2)) \<Longrightarrow>
     op_match q1 q2 (MarkRunning now (att_id r) w) (MarkRunning now (att_id s) w)"
| "(r, s) \<in> set (zip (rows q1) (rows q2)) \<Longrightarrow>
     op_match q1 q2 (MarkCompleted now (att_id r) c) (MarkCompleted now (att_id s) c)"
| "(r, s) \<in> set (zip (rows q1) (rows q2)) \<Longrightarrow>
     op_match q1 q2 (MarkFailed now (att_id r) err b) (MarkFailed now (att_id s) err b)"
| "op_match q1 q2 ClearAll ClearAll"

fun reply_match :: "queue_reply \<Rightarrow> queue_reply \<Rightarrow> bool" where
  "reply_match (LeaseGrant (Some l)) (LeaseGrant (Some m)) =
     (l\<lparr>lease_id := 0\<rparr> = m\<lparr>lease_id := 0\<rparr>)"
| "reply_match a b = (a = b)"

inductive_cases op_matchE: "op_match q1 q2 x1 x2"

lemma strip_fields:
  "strip r = strip s \<Longrightarrow> key_of r = key_of s \<and> status r = status s \<and> retry_count r = retry_count s \<and>
     max_retries r = max_retries s \<and> updated_at r = updated_at s \<and> started_at r = started_at s \<and>
     lease_expires_at r = lease_expires_at s \<and> task_id r = task_id s \<and> trial_index r = trial_index s"
  by (cases r; cases s) (simp add: strip_def key_of_def)

lemma stripE:
  assumes "strip r = strip s"
  obtains i where "s = r\<lparr>att_id := i\<rparr>"
  using assms by (cases r; cases s) (auto simp: strip_def)

lemma zip_pairs_same:
  "(x, y) \<in> set (zip xs ys) \<Longrightarrow> (x, y') \<in> set (zip xs ys) \<Longrightarrow> distinct xs \<Longrightarrow> y = y'"
  by (auto simp: in_set_zip nth_eq_iff_index_eq)

lemma sim_same_row:
  assumes "sim q1 q2" "(r, s) \<in> set (zip (rows q1) (rows q2))" "(x, y) \<in> set (zip (rows q1) (rows q2))"
  shows "att_id x = att_id r \<longleftrightarrow> att_id y = att_id s"
proof -
  have wf: "wf_queue q1" "wf_queue q2" and len: "length (rows q1) = length (rows q2)"
    using assms by (auto simp: sim_def list_all2_lengthD)
  have d: "distinct (rows q1)" "distinct (rows q2)"
    using wf by (auto simp: wf_queue_def strict_sorted_iff distinct_map)
  have mem: "r \<in> set (rows q1)" "x \<in> set (rows q1)" "s \<in> set (rows q2)" "y \<in> set (rows q2)"
    using assms(2,3) by (auto dest: set_zip_leftD set_zip_rightD)
  have "x = r \<longleftrightarrow> y = s"
    using assms(2,3) d len by (auto simp: in_set_zip nth_eq_iff_index_eq)
  moreover have "att_id x = att_id r \<longleftrightarrow> x = r"
    using mem wf_inj_id [OF wf(1)] by (auto dest: inj_onD)
  moreover have "att_id y = att_id s \<longleftrightarrow> y = s"
    using mem wf_inj_id [OF wf(2)] by (auto dest: inj_onD)
  ultimately show ?thesis by simp
qed

lemma sim_update:
  assumes "sim q1 q2" "(r, s) \<in> set (zip (rows q1) (rows q2))"
    and "wf_queue (update_row (att_id r) f q1)" "wf_queue (update_row (att_id s) f q2)"
    and "\<And>x y. strip x = strip y \<Longrightarrow> strip (f x) = strip (f y)"
  shows "sim (update_row (att_id r) f q1) (update_row (att_id s) f q2)"
proof -
  let ?f = "\<lambda>i x. if att_id x = i then f x else x"
  have len: "length (rows q1) = length (rows q2)"
    and same: "\<And>k. k < length (rows q1) \<Longrightarrow> strip (rows q1 ! k) = strip (rows q2 ! k)"
    using assms(1) by (auto simp: sim_def list_all2_conv_all_nth)
  have "strip (?f (att_id r) (rows q1 ! k)) = strip (?f (att_id s) (rows q2 ! k))"
    if k: "k < length (rows q1)" for k
  proof -
    have "(rows q1 ! k, rows q2 ! k) \<in> set (zip (rows q1) (rows q2))"
      using k len by (auto simp: in_set_zip)
    from sim_same_row [OF assms(1,2) this] show ?thesis
      using same [OF k] assms(5) [OF same [OF k]] by simp
  qed
  then have "list_all2 (\<lambda>r s. strip r = strip s) (rows (update_row (att_id r) f q1))
      (rows (update_row (att_id s) f q2))"
    using len by (simp add: update_row_def list_all2_conv_all_nth)
  with assms(1,3,4) show ?thesis by (simp add: sim_def)
qed

lemma first_row_sim:
  assumes "list_all2 (\<lambda>r s. strip r = strip s) rs ss"
    "sorted_wrt (<) (map att_id rs)" "sorted_wrt (<) (map att_id ss)"
  shows "first_row rs = None \<and> first_row ss = None \<or>
    (\<exists>r s. first_row rs = Some r \<and> first_row ss = Some s \<and> (r, s) \<in> set (zip rs ss) \<and> strip r = strip s)"
  using assms
proof (induction rule: list_all2_induct)
  case Nil
  then show ?case by simp
next
  case (Cons x xs y ys)
  then consider (none) "xs = []" "ys = []"
    | (some) r s where "first_row xs = Some r" "first_row ys = Some s" "(r, s) \<in> set (zip xs ys)"
        "strip r = strip s"
    by auto
  then show ?case
  proof cases
    case none
    then show ?thesis using Cons by simp
  next
    case some
    have "r \<in> set xs" "s \<in> set ys"
      using some(3) by (auto dest: set_zip_leftD set_zip_rightD)
    then have "att_id x < att_id r" "att_id y < att_id s" using Cons.prems by auto
    then have "row_before x r \<longleftrightarrow> row_before y s"
      using strip_fields [OF Cons.hyps(1)] strip_fields [OF some(4)] by (auto simp: row_before_def)
    with some Cons show ?thesis by auto
  qed
qed

lemma filter_sim:
  assumes "list_all2 (\<lambda>r s. strip r = strip s) rs ss"
  shows "list_all2 (\<lambda>r s. strip r = strip s) (filter (\<lambda>r. status r = st) rs) (filter (\<lambda>r. status r = st) ss)
    \<and> set (zip (filter (\<lambda>r. status r = st) rs) (filter (\<lambda>r. status r = st) ss)) \<subseteq> set (zip rs ss)"
  using assms by (induction rule: list_all2_induct) (auto dest: strip_fields)

lemma sorted_ids_filter: "sorted_wrt (<) (map att_id rs) \<Longrightarrow> sorted_wrt (<) (map att_id (filter P rs))"
  by (induction rs) auto

lemma sim_insert:
  assumes "sim q1 q2"
  shows "sim (sqlite_insert now q1 k) (pg_insert now q2 k)"
proof -
  have "list_all2 (\<lambda>r s. strip r = strip s) rs ss \<Longrightarrow> key_of ` set rs = key_of ` set ss" for rs ss
    by (induction rule: list_all2_induct) (auto dest: strip_fields)
  then have "key_of ` set (rows q1) = key_of ` set (rows q2)" using assms by (simp add: sim_def)
  moreover have "strip (fresh_row i m now k) = strip (fresh_row j m now k)" for i j m
    by (simp add: strip_def fresh_row_def)
  moreover have "wf_queue (sqlite_insert now q1 k)" "wf_queue (pg_insert now q2 k)"
    using assms by (simp_all add: sim_def)
  ultimately show ?thesis using assms
    by (auto simp: sim_def sqlite_insert_def pg_insert_def list_all2_appendI)
qed

lemma sim_foldl_insert: "sim q1 q2 \<Longrightarrow> sim (foldl (sqlite_insert now) q1 ks) (foldl (pg_insert now) q2 ks)"
  by (induction ks arbitrary: q1 q2) (auto simp: sim_insert)

lemma sim_lease:
  assumes "sim q1 q2"
  shows "sim (snd (sqlite_lease_next now w secs q1)) (snd (pg_lease_next {} now w secs q2)) \<and>
    reply_match (LeaseGrant (fst (sqlite_lease_next now w secs q1)))
      (LeaseGrant (fst (pg_lease_next {} now w secs q2)))"
proof -
  let ?P = "filter (\<lambda>r. status r = Pending)"
  have l: "list_all2 (\<lambda>r s. strip r = strip s) (rows q1) (rows q2)"
    and s: "sorted_wrt (<) (map att_id (rows q1))" "sorted_wrt (<) (map att_id (rows q2))"
    and wf: "wf_queue q1" "wf_queue q2"
    using assms by (auto simp: sim_def wf_queue_def)
  from first_row_sim [OF conjunct1 [OF filter_sim [OF l, of Pending]] sorted_ids_filter [OF s(1)]
      sorted_ids_filter [OF s(2)]]
  consider (none) "first_row (?P (rows q1)) = None" "first_row (?P (rows q2)) = None"
    | (some) a b where "first_row (?P (rows q1)) = Some a" "first_row (?P (rows q2)) = Some b"
        "(a, b) \<in> set (zip (rows q1) (rows q2))" "strip a = strip b"
    using conjunct2 [OF filter_sim [OF l, of Pending]] by (elim disjE exE conjE) auto
  then show ?thesis
  proof cases
    case none
    then show ?thesis using assms by (simp add: sqlite_lease_next_def pg_lease_next_def)
  next
    case some
    let ?f = "lease_row w (now + of_int (max 30 secs)) now"
    have "sim (update_row (att_id a) ?f q1) (update_row (att_id b) ?f q2)"
    proof (rule sim_update [OF assms some(3)])
      show "wf_queue (update_row (att_id a) ?f q1)" "wf_queue (update_row (att_id b) ?f q2)"
        using wf by (auto intro: wf_update_row wf_row_updates)
      show "strip (?f x) = strip (?f y)" if "strip x = strip y" for x y
        using that by (elim stripE) (simp add: strip_def lease_row_def)
    qed
    then show ?thesis using some strip_fields [OF some(4)]
      by (simp add: sqlite_lease_next_def pg_lease_next_def Let_def lease_of_def)
  qed
qed

lemma sim_mark_failed:
  assumes "sim q1 q2" "(r, s) \<in> set (zip (rows q1) (rows q2))"
  shows "sim (snd (sqlite_mark_failed now (att_id r) err b q1)) (snd (pg_mark_failed now (att_id s) err b q2))
    \<and> fst (sqlite_mark_failed now (att_id r) err b q1) = fst (pg_mark_failed now (att_id s) err b q2)"
proof -
  have wf: "wf_queue q1" "wf_queue q2" using assms(1) by (auto simp: sim_def)
  have "strip r = strip s" using assms by (auto simp: sim_def list_all2_iff)
  note fields = strip_fields [OF this]
  have "row_at (att_id r) q1 = Some r" "row_at (att_id s) q2 = Some s"
    using assms(2) wf by (auto simp: row_at_Some_iff dest: set_zip_leftD set_zip_rightD)
  then have rd: "mark_failed_read (att_id r) b q1 = Some (b \<and> retry_count r < max_retries r)"
    "mark_failed_read (att_id s) b q2 = Some (b \<and> retry_count r < max_retries r)"
    using fields by (simp_all add: mark_failed_read_def row_at_def)
  let ?g = "if b \<and> retry_count r < max_retries r then retry_row now err else fail_row now err"
  have "sim (update_row (att_id r) ?g q1) (update_row (att_id s) ?g q2)"
  proof (rule sim_update [OF assms])
    show "wf_queue (update_row (att_id r) ?g q1)" "wf_queue (update_row (att_id s) ?g q2)"
      using mark_failed_wf [OF wf(1) rd(1)] mark_failed_wf [OF wf(2) rd(2)]
      by (simp_all add: mark_failed_write_def)
    show "strip (?g x) = strip (?g y)" if "strip x = strip y" for x y
      using that by (elim stripE) (simp add: strip_def retry_row_def fail_row_def)
  qed
  then show ?thesis using rd by (simp add: sqlite_mark_failed_def pg_mark_failed_def mark_failed_write_def)
qed

lemma sim_recover:
  assumes "sim q1 q2"
  shows "sim (snd (sqlite_recover_inflight t0 t1 t2 age q1)) (snd (pg_recover_inflight t0 t1 t2 age q2)) \<and>
    fst (sqlite_recover_inflight t0 t1 t2 age q1) = fst (pg_recover_inflight t0 t1 t2 age q2)"
proof -
  let ?c = "t0 - of_int (max 1 age)"
  have st: "stale t2 ?c r \<longleftrightarrow> stale t2 ?c s" if "strip r = strip s" for r s
    using strip_fields [OF that] by (simp add: stale_def)
  have "list_all2 (\<lambda>r s. strip r = strip s) rs ss \<Longrightarrow>
      list_all2 (\<lambda>r s. strip r = strip s) (map (\<lambda>r. if stale t2 ?c r then requeue_row t1 r else r) rs)
        (map (\<lambda>r. if stale t2 ?c r then requeue_row t1 r else r) ss) \<and>
      length (filter (stale t2 ?c) rs) = length (filter (stale t2 ?c) ss)" for rs ss
  proof (induction rule: list_all2_induct)
    case (Cons x xs y ys)
    have "strip (requeue_row t1 x) = strip (requeue_row t1 y)"
      using Cons.hyps(1) by (elim stripE) (simp add: strip_def requeue_row_def)
    then show ?case using Cons st [OF Cons.hyps(1)] by simp
  qed simp
  moreover have "wf_queue (snd (sqlite_exec (RecoverInflight t0 t1 t2 age) q1))"
    "wf_queue (snd (pg_exec (\<lambda>_. {}) (RecoverInflight t0 t1 t2 age) q2))"
    using assms by (auto simp: sim_def intro: sqlite_exec_wf pg_exec_wf simp del: sqlite_exec.simps pg_exec.simps)
  ultimately show ?thesis using assms
    by (auto simp: sim_def sqlite_recover_inflight_def pg_recover_inflight_def Let_def)
qed

lemma sim_step:
  assumes "sim q1 q2" "op_match q1 q2 x1 x2"
  shows "sim (snd (sqlite_exec x1 q1)) (snd (pg_exec (\<lambda>_. {}) x2 q2)) \<and>
    reply_match (fst (sqlite_exec x1 q1)) (fst (pg_exec (\<lambda>_. {}) x2 q2))"
  using assms(2)
proof (cases rule: op_match.cases)
  case (5 r s now w)
  have "sim (sqlite_mark_running now (att_id r) w q1) (pg_mark_running now (att_id s) w q2)"
    unfolding sqlite_mark_running_def pg_mark_running_def
  proof (rule sim_update [OF assms(1) 5(3)], goal_cases)
    case (3 x y)
    then show ?case by (elim stripE) (simp add: strip_def)
  qed (use assms in \<open>auto simp: sim_def intro!: wf_update_row wf_row_mark\<close>)
  then show ?thesis by (simp add: 5)
next
  case (6 r s now c)
  have "sim (sqlite_mark_completed now (att_id r) c q1) (pg_mark_completed now (att_id s) c q2)"
    unfolding sqlite_mark_completed_def pg_mark_completed_def
  proof (rule sim_update [OF assms(1) 6(3)], goal_cases)
    case (3 x y)
    then show ?case by (elim stripE) (simp add: strip_def)
  qed (use assms in \<open>auto simp: sim_def intro!: wf_update_row wf_row_mark\<close>)
  then show ?thesis by (simp add: 6)
next
  case 7
  then show ?thesis using sim_mark_failed [OF assms(1) 7(3)] by (simp add: case_prod_beta)
next
  case 3
  then show ?thesis using sim_recover [OF assms(1)] by (simp add: case_prod_beta)
next
  case 4
  then show ?thesis using sim_lease [OF assms(1)] by (simp add: case_prod_beta)
next
  case 8
  then show ?thesis using assms(1) by (simp add: sim_def clear_all_def wf_queue_def)
qed (use assms in \<open>simp_all add: sqlite_enqueue_def pg_enqueue_def sim_insert sqlite_enqueue_many_foldl
  pg_enqueue_many_foldl sim_foldl_insert\<close>)

lemma eta_from_nonneg:
  assumes "eta_from n el k = Some e"
  shows "(0 \<le> k \<longrightarrow> 0 \<le> e) \<and> (e = 0 \<longleftrightarrow> k = 0)"
proof -
  have "0 < of_nat n / el" "e = of_int k / (of_nat n / el)"
    using assms by (auto simp: eta_from_def Let_def split: if_splits)
  moreover have "0 \<le> k \<Longrightarrow> (0::rat) \<le> of_int k" by simp
  ultimately show ?thesis by (simp add: zero_less_divide_iff)
qed

section \<open>Properties\<close>

definition backend_exec ::
  "queue_backend \<Rightarrow> (pyfloat \<Rightarrow> int set) \<Rightarrow> queue_op \<Rightarrow> run_queue \<Rightarrow> queue_reply \<times> run_queue" where
  "backend_exec b locks = (case b of SqliteBackend \<Rightarrow> sqlite_exec | PostgresBackend \<Rightarrow> pg_exec locks)"

interpretation be: attempt_queue "backend_exec b locks" for b locks
  by (cases b) (simp_all add: backend_exec_def sq.attempt_queue_axioms pg.attempt_queue_axioms)

lemma wf_open_queue: "wf_queue stored \<Longrightarrow> wf_queue (open_queue m stored)"
  by (simp add: wf_queue_def open_queue_def)

lemma create_run_queue_opens: "create_run_queue backend m dsn stored = Inr (b, q) \<Longrightarrow> q = open_queue m stored"
  by (auto simp: create_run_queue_def Let_def split: if_splits)

text \<open>
  When calls do not overlap and the table is not cleared, an attempt is handed out at most once, plus
  once for each time a failed execution
  of it was requeued and each recovery pass; and since a requeue always spends one unit of the
  row's retry budget, at most \<open>1 + (max_retries - retry_count)\<close> times plus the recovery passes.
  So two workers hold the same attempt only if a recovery or a granted retry separated them.
\<close>

theorem attempt_executions_bounded:
  assumes "wf_queue q" "ClearAll \<notin> set xs" "row_at i q = Some r"
    and "run_trace (backend_exec b locks) xs q = (tr, q')"
  shows "count_in (leases i) tr \<le> 1 + count_in (requeues i) tr + count_in recovers tr \<and>
    int (count_in (requeues i) tr) \<le> max_retries r - retry_count r \<and>
    int (count_in (leases i) tr)
      \<le> 1 + (max_retries r - retry_count r) + int (count_in recovers tr)"
proof -
  have "int (count_in (requeues i) tr) \<le> max_retries r - retry_count r"
  proof -
    from be.run_accounting [OF assms] obtain r' where "row_at i q' = Some r'"
      "max_retries r' = max_retries r" "retry_count r' = retry_count r + int (count_in (requeues i) tr)"
      by blast
    moreover have "wf_queue q'" using be.run_wf [OF assms(1), of b locks xs] assms(4) by simp
    ultimately show ?thesis by (auto simp: row_at_Some_iff wf_queue_def wf_row_def)
  qed
  with be.lease_count [OF assms] be.bounded_leases [OF assms] show ?thesis by blast
qed

definition demo_queue :: run_queue where
  "demo_queue = sqlite_enqueue_many 5 [(''a'', 0), (''b'', 0)] (init_queue 1)"

definition demo_ops :: "queue_op list" where
  "demo_ops = [LeaseNext 6 ''w'' 60, MarkFailed 7 1 ''x'' True, LeaseNext 8 ''w'' 60, LeaseNext 9 ''v'' 60]"

lemma wf_demo_queue: "wf_queue demo_queue"
  by (simp add: demo_queue_def queue_simps wf_init_queue)

theorem attempt_executions_bounded_witness:
  "\<exists>r tr q'. row_at 1 demo_queue = Some r \<and>
    run_trace (backend_exec SqliteBackend (\<lambda>_. {})) demo_ops demo_queue = (tr, q') \<and>
    count_in (leases 1) tr \<le> 1 + count_in (requeues 1) tr + count_in recovers tr"
proof -
  obtain tr q' where run: "run_trace (backend_exec SqliteBackend (\<lambda>_. {})) demo_ops demo_queue = (tr, q')"
    by (cases "run_trace (backend_exec SqliteBackend (\<lambda>_. {})) demo_ops demo_queue")
  obtain r where r: "row_at 1 demo_queue = Some r"
    by (simp add: demo_queue_def row_at_def queue_simps sqlite_insert_def init_queue_def fresh_row_def)
  have "ClearAll \<notin> set demo_ops" by (simp add: demo_ops_def)
  from attempt_executions_bounded [OF wf_demo_queue this r run] run r show ?thesis by blast
qed

text \<open>
  \<open>SqliteRunQueue.lease_next\<close> grants the pending row least in
  \<open>(updated_at, id)\<close>, moves exactly that row to \<open>leased\<close> for the caller with an expiry at
  least thirty seconds ahead, and answers nothing precisely when no row is pending.
\<close>

theorem sqlite_lease_next_correct:
  assumes "wf_queue q"
  shows "(case sqlite_lease_next now w secs q of
      (None, q') \<Rightarrow> q' = q \<and> (\<forall>r. r \<in> set (rows q) \<longrightarrow> status r \<noteq> Pending)
    | (Some l, q') \<Rightarrow> \<exists>r \<in> set (rows q). status r = Pending \<and> l = lease_of r \<and>
        (\<forall>s \<in> set (rows q). status s = Pending \<longrightarrow> row_before r s) \<and>
        (\<exists>e \<ge> now + 30. \<forall>i. row_at i q' =
           (if i = att_id r then Some (lease_row w e now r) else row_at i q)))"
proof (cases "first_row (filter (\<lambda>r. status r = Pending) (rows q))")
  case None
  then show ?thesis by (simp add: sqlite_lease_next_def filter_empty_conv)
next
  case (Some r)
  let ?e = "now + of_int (max 30 secs)"
  from first_row_minimal [OF Some] have r: "r \<in> set (rows q)" "status r = Pending"
    and least: "\<forall>s \<in> set (rows q). status s = Pending \<longrightarrow> row_before r s" by auto
  have "row_at (att_id r) q = Some r" using r assms by (simp add: row_at_Some_iff)
  then have upd: "row_at i (update_row (att_id r) (lease_row w ?e now) q) =
      (if i = att_id r then Some (lease_row w ?e now r) else row_at i q)" for i
    by (cases "row_at i q") (auto simp: row_at_update_row)
  have "(30::rat) = of_int 30" by simp
  also have "\<dots> \<le> of_int (max 30 secs)" by (simp only: of_int_le_iff)
  finally have "now + 30 \<le> ?e" by simp
  with upd have "\<exists>e \<ge> now + 30. \<forall>i. row_at i (update_row (att_id r) (lease_row w ?e now) q) =
      (if i = att_id r then Some (lease_row w e now r) else row_at i q)" by blast
  moreover have "sqlite_lease_next now w secs q =
      (Some (lease_of r), update_row (att_id r) (lease_row w ?e now) q)"
    using Some by (simp add: sqlite_lease_next_def Let_def)
  ultimately show ?thesis using r least by (simp only: prod.case option.case) blast
qed

theorem sqlite_lease_next_correct_witness:
  "wf_queue demo_queue \<and> (case sqlite_lease_next 6 ''w'' 60 demo_queue of
      (None, q') \<Rightarrow> False
    | (Some l, q') \<Rightarrow> \<exists>r e. r \<in> set (rows demo_queue) \<and> l = lease_of r \<and> 36 \<le> e \<and>
        row_at (att_id r) q' = Some (lease_row ''w'' e 6 r))"
proof (cases "sqlite_lease_next 6 ''w'' 60 demo_queue")
  case (Pair l q')
  have "fst (sqlite_lease_next 6 ''w'' 60 demo_queue) \<noteq> None" by code_simp
  then have "l \<noteq> None" using Pair by simp
  then obtain m where l: "l = Some m" by blast
  have "\<exists>r \<in> set (rows demo_queue). status r = Pending \<and> m = lease_of r \<and>
        (\<forall>s \<in> set (rows demo_queue). status s = Pending \<longrightarrow> row_before r s) \<and>
        (\<exists>e \<ge> 6 + 30. \<forall>i. row_at i q' =
           (if i = att_id r then Some (lease_row ''w'' e 6 r) else row_at i demo_queue))"
    using sqlite_lease_next_correct [OF wf_demo_queue, of 6 "''w''" 60] Pair l by simp
  then show ?thesis using Pair l wf_demo_queue by fastforce
qed

text \<open>
  \<open>recover_inflight\<close> requeues exactly the stale in-flight rows and reports how many
  there were; afterwards none is stale, every other row is untouched, and no retry counter moves,
  so a recovered attempt keeps its whole retry budget.
\<close>

theorem recover_inflight_correct:
  "(case sqlite_recover_inflight now0 now1 now2 age q of (n, q') \<Rightarrow>
      n = int (count_in (stale now2 (now0 - of_int (max 1 age))) (rows q)) \<and>
      rows q' = map (\<lambda>r. if stale now2 (now0 - of_int (max 1 age)) r then requeue_row now1 r else r) (rows q) \<and>
      count_in (stale now2 (now0 - of_int (max 1 age))) (rows q') = 0 \<and>
      map retry_count (rows q') = map retry_count (rows q))"
  by (auto simp: sqlite_recover_inflight_def Let_def count_in_def filter_empty_conv stale_def requeue_row_def)

text \<open>
  Property C39.  The statement pair of \<open>mark_failed\<close> is not atomic: two callers that both read the
  row before either writes are both told to retry, and the two increments take \<open>retry_count\<close> past
  \<open>max_retries\<close> when one unit of budget was left.
\<close>

theorem mark_failed_lost_update:
  assumes "row_at i q = Some r" "retry_count r + 1 = max_retries r"
  shows "mark_failed_read i True q = Some True \<and>
    (\<exists>r'. row_at i (mark_failed_write t2 i e2 True (mark_failed_write t1 i e1 True q)) = Some r' \<and>
       max_retries r' < retry_count r')"
  using assms by (simp add: mark_failed_read_def row_at_def [symmetric] mark_failed_write_def
      row_at_update_row) (simp add: retry_row_def)

theorem mark_failed_lost_update_witness:
  "\<exists>r. row_at 1 demo_queue = Some r \<and> retry_count r + 1 = max_retries r \<and>
    mark_failed_read 1 True demo_queue = Some True \<and>
    (\<exists>r'. row_at 1 (mark_failed_write 8 1 ''y'' True (mark_failed_write 7 1 ''x'' True demo_queue)) = Some r' \<and>
       max_retries r' < retry_count r')"
proof -
  obtain r where r: "row_at 1 demo_queue = Some r" "retry_count r + 1 = max_retries r"
    by (simp add: demo_queue_def row_at_def queue_simps sqlite_insert_def init_queue_def fresh_row_def)
  from mark_failed_lost_update [OF r, of 8 "''y''" 7 "''x''"] r show ?thesis by blast
qed

text \<open>
  Property C31.  The two backends are interchangeable: from tables that hold the same rows up to
  row identities, the same request (addressed to the same row) leaves such tables again and gets
  the same reply up to the lease id.  Postgres skips no row here, because nothing else holds a lock.
\<close>

theorem backends_simulate:
  assumes "sim q1 q2" "op_match q1 q2 x1 x2"
  shows "sim (snd (sqlite_exec x1 q1)) (snd (pg_exec (\<lambda>_. {}) x2 q2)) \<and>
    reply_match (fst (sqlite_exec x1 q1)) (fst (pg_exec (\<lambda>_. {}) x2 q2))"
  using assms by (rule sim_step)

theorem backends_simulate_witness:
  "sim (init_queue 3) (init_queue 3) \<and>
   sim (snd (sqlite_exec (EnqueueMany 5 [(''a'', 0), (''a'', 0), (''b'', 1)]) (init_queue 3)))
       (snd (pg_exec (\<lambda>_. {}) (EnqueueMany 5 [(''a'', 0), (''a'', 0), (''b'', 1)]) (init_queue 3)))"
proof -
  have h: "sim (init_queue 3) (init_queue 3)" by (simp add: sim_def wf_init_queue list_all2_refl)
  from backends_simulate [OF h op_match.intros(2)] h show ?thesis by blast
qed

text \<open>
  The counts add up: the \<open>total\<close> that \<open>get_counts\<close> reports is the number of rows.
\<close>

theorem get_counts_total: "map_of (get_counts q) ''total'' = Some (int (length (rows q)))"
proof -
  have "length (filter (\<lambda>r. status r = Pending) rs) + length (filter (\<lambda>r. status r = Leased) rs)
      + length (filter (\<lambda>r. status r = Running) rs) + length (filter (\<lambda>r. status r = Completed) rs)
      + length (filter (\<lambda>r. status r = Failed) rs) + length (filter (\<lambda>r. status r = Cancelled) rs)
    = length rs" for rs
  proof (induction rs)
    case (Cons r rs)
    then show ?case by (cases "status r") simp_all
  qed simp
  from this [of "rows q"] show ?thesis by (simp add: get_counts_def count_status_def)
qed

text \<open>
  An estimate of the remaining time is produced only from at least three completed
  attempts, is never negative, and is zero exactly when nothing is pending, leased or running.
\<close>

theorem eta_nonneg:
  assumes "estimate_eta_seconds q = Some e"
  shows "0 \<le> e \<and> 3 \<le> count_status Completed q \<and>
    (e = 0 \<longleftrightarrow> count_status Pending q + count_status Leased q + count_status Running q = 0)"
proof -
  let ?rem = "count_status Pending q + count_status Leased q + count_status Running q"
  obtain el where n: "3 \<le> length (finished_rows q)"
    and e: "eta_from (length (finished_rows q)) el ?rem = Some e"
    using assms unfolding estimate_eta_seconds_def by (simp only: Let_def split: if_splits) simp
  have "length (filter (\<lambda>r. status r = Completed \<and> P r) rs) \<le> length (filter (\<lambda>r. status r = Completed) rs)"
    for P and rs :: "attempt list"
    by (induction rs) auto
  from this [of "\<lambda>r. started_at r \<noteq> None \<and> ended_at r \<noteq> None" "rows q"]
  have "length (finished_rows q) \<le> length (filter (\<lambda>r. status r = Completed) (rows q))"
    by (simp only: finished_rows_def)
  then have "3 \<le> count_status Completed q" using n by (simp add: count_status_def)
  moreover have "0 \<le> ?rem" by (simp add: count_status_def)
  ultimately show ?thesis using eta_from_nonneg [OF e] by simp
qed

definition finished_queue :: run_queue where
  "finished_queue = (init_queue 0)\<lparr>rows := map (\<lambda>i. (fresh_row i 0 0 (''t'', i))
     \<lparr>status := Completed, started_at := Some 1, ended_at := Some 4\<rparr>) [1, 2, 3] @ [fresh_row 4 0 0 (''t'', 4)]\<rparr>"

theorem eta_nonneg_witness:
  "estimate_eta_seconds finished_queue = Some 1 \<and> (0::rat) \<le> 1 \<and>
   3 \<le> count_status Completed finished_queue"
proof -
  have h: "estimate_eta_seconds finished_queue = Some 1"
    by (simp add: estimate_eta_seconds_def finished_rows_def finished_queue_def eta_from_def
        count_status_def fresh_row_def init_queue_def)
  from eta_nonneg [OF h] h show ?thesis by blast
qed

end
