(* ===== verification/Queue_Histories.thy ===== *)
theory Queue_Histories
  imports Run_Queue
begin

text \<open>
  The attempt queue under concurrent workers.  Every call of the queue is one statement (or one transaction) on its
  table, except \<^verbatim>\<open>mark_failed\<close>: under autocommit its \<^verbatim>\<open>SELECT\<close> and its \<^verbatim>\<open>UPDATE\<close> are two, and any statement of
  another worker may come between them.  A history is a sequence of such statements; \<open>exec_stmt\<close> keeps, for each
  caller that has read and not yet written, the decision it took.  The locale \<open>interleaved_queue\<close> says what a backend
  promises of its single statements, whatever the slack of the retry counters; both backends are interpreted in it,
  and the bounds on retries and on executions hold of every interleaving.
\<close>

section \<open>Statements and open calls\<close>

record failed_call =
  call_now :: pyfloat
  call_id :: int
  call_error :: pystr
  call_retryable :: bool
  should_retry :: bool

text \<open>
  A caller is a number.  \<open>EnqueueMany\<close> may also be given as its single insertions, with other statements between
  them.
\<close>

datatype queue_stmt =
    Statement queue_op
  | SelectFailed nat pyfloat int pystr bool
  | UpdateFailed nat

type_synonym open_calls = "nat \<rightharpoonup> failed_call"

fun is_mark_failed :: "queue_op \<Rightarrow> bool" where
  "is_mark_failed (MarkFailed now i err retryable) = True"
| "is_mark_failed _ = False"

text \<open>
  One statement.  It gives the calls that returned with it, each with its reply.  A \<open>mark_failed\<close> is never a single
  statement, and a caller that is inside one issues no second.
\<close>

fun exec_stmt :: "(queue_op \<Rightarrow> run_queue \<Rightarrow> queue_reply \<times> run_queue) \<Rightarrow> queue_stmt \<Rightarrow>
    run_queue \<times> open_calls \<Rightarrow> (queue_op \<times> queue_reply) list \<times> run_queue \<times> open_calls" where
  "exec_stmt exec (Statement x) (q, calls) =
     (if is_mark_failed x then ([], q, calls)
      else case exec x q of (reply, q1) \<Rightarrow> ([(x, reply)], q1, calls))"
| "exec_stmt exec (SelectFailed c now i err retryable) (q, calls) =
     (case calls c of
        Some _ \<Rightarrow> ([], q, calls)
      | None \<Rightarrow>
        (case mark_failed_read i retryable q of
           None \<Rightarrow> ([(MarkFailed now i err retryable, Requeued False)], q, calls)
         | Some decision \<Rightarrow> ([], q, calls(c \<mapsto> \<lparr>call_now = now, call_id = i, call_error = err,
             call_retryable = retryable, should_retry = decision\<rparr>))))"
| "exec_stmt exec (UpdateFailed c) (q, calls) =
     (case calls c of
        None \<Rightarrow> ([], q, calls)
      | Some f \<Rightarrow>
        ([(MarkFailed (call_now f) (call_id f) (call_error f) (call_retryable f), Requeued (should_retry f))],
         mark_failed_write (call_now f) (call_id f) (call_error f) (should_retry f) q, calls(c := None)))"

fun run_statements :: "(queue_op \<Rightarrow> run_queue \<Rightarrow> queue_reply \<times> run_queue) \<Rightarrow> queue_stmt list \<Rightarrow>
    run_queue \<times> open_calls \<Rightarrow> (queue_op \<times> queue_reply) list \<times> run_queue \<times> open_calls" where
  "run_statements exec [] s = ([], s)"
| "run_statements exec (x # xs) s =
     (case exec_stmt exec x s of (es, s1) \<Rightarrow>
        case run_statements exec xs s1 of (tr, s2) \<Rightarrow> (es @ tr, s2))"

text \<open>The callers that report a failed attempt in a history.\<close>

fun stmt_caller :: "queue_stmt \<Rightarrow> nat set" where
  "stmt_caller (SelectFailed c now i err retryable) = {c}"
| "stmt_caller _ = {}"

definition failing_callers :: "queue_stmt list \<Rightarrow> nat set" where
  "failing_callers xs = \<Union> (set (map stmt_caller xs))"

section \<open>Tables whose retry counters have some slack\<close>

definition relax_row :: "int \<Rightarrow> attempt \<Rightarrow> attempt" where
  "relax_row k r = r\<lparr>max_retries := max_retries r + k\<rparr>"

definition relax :: "int \<Rightarrow> run_queue \<Rightarrow> run_queue" where
  "relax k q = q\<lparr>queue_max_retries := queue_max_retries q + k, rows := map (relax_row k) (rows q)\<rparr>"

text \<open>
  A table that is well-formed but for its retry counters, which may exceed the row's budget by at most \<open>k\<close>:
  with \<open>k = 0\<close> it is \<open>wf_queue\<close>.
\<close>

definition loose_queue :: "int \<Rightarrow> run_queue \<Rightarrow> bool" where
  "loose_queue k q \<longleftrightarrow> 0 \<le> queue_max_retries q \<and>
     sorted_wrt (<) (map att_id (rows q)) \<and>
     (\<forall>r \<in> set (rows q). att_id r < next_id q \<and> wf_row (relax_row k r)) \<and>
     distinct (map key_of (rows q))"

lemma relax_row_fields [simp]:
  "att_id (relax_row k r) = att_id r" "key_of (relax_row k r) = key_of r" "status (relax_row k r) = status r"
  "retry_count (relax_row k r) = retry_count r" "max_retries (relax_row k r) = max_retries r + k"
  "updated_at (relax_row k r) = updated_at r" "lease_expires_at (relax_row k r) = lease_expires_at r"
  "started_at (relax_row k r) = started_at r" "lease_of (relax_row k r) = lease_of r"
  by (simp_all add: relax_row_def key_of_def lease_of_def)

lemma loose_relax: "0 \<le> k \<Longrightarrow> loose_queue k q \<longleftrightarrow> 0 \<le> queue_max_retries q \<and> wf_queue (relax k q)"
  by (auto simp: loose_queue_def wf_queue_def relax_def comp_def)

lemma loose_zero: "loose_queue 0 q \<longleftrightarrow> wf_queue q"
  by (simp add: loose_queue_def wf_queue_def relax_row_def)

lemma wf_row_slack: "wf_row (relax_row k r) \<Longrightarrow> k \<le> k' \<Longrightarrow> wf_row (relax_row k' r)"
  by (auto simp: wf_row_def relax_row_def split: attempt_status.splits)

lemma loose_mono: "loose_queue k q \<Longrightarrow> k \<le> k' \<Longrightarrow> loose_queue k' q"
  using wf_row_slack by (auto simp: loose_queue_def)

lemma row_at_relax: "row_at i (relax k q) = map_option (relax_row k) (row_at i q)"
proof -
  have "find (\<lambda>r. att_id r = i) (map (relax_row k) rs) = map_option (relax_row k) (find (\<lambda>r. att_id r = i) rs)" for rs
    by (induction rs) auto
  then show ?thesis by (simp add: row_at_def relax_def)
qed

lemma row_step_relax: "row_step e i (relax_row k r) (relax_row k r') \<longleftrightarrow> row_step e i r r'"
  by (simp add: row_step_def)

lemma first_row_relax: "first_row (map (relax_row k) rs) = map_option (relax_row k) (first_row rs)"
  by (induction rs) (auto simp: row_before_def split: option.splits)

lemma relax_map:
  assumes "\<And>r. f (relax_row k r) = relax_row k (f r)"
  shows "(relax k q)\<lparr>rows := map f (rows (relax k q))\<rparr> = relax k (q\<lparr>rows := map f (rows q)\<rparr>)"
  using assms by (simp add: relax_def)

lemma relax_update:
  assumes "\<And>r. f (relax_row k r) = relax_row k (f r)"
  shows "update_row i f (relax k q) = relax k (update_row i f q)"
  using assms by (simp add: relax_def update_row_def)

lemma relax_row_updates:
  "lease_row w e now (relax_row k r) = relax_row k (lease_row w e now r)"
  "requeue_row now (relax_row k r) = relax_row k (requeue_row now r)"
  "retry_row now err (relax_row k r) = relax_row k (retry_row now err r)"
  "fail_row now err (relax_row k r) = relax_row k (fail_row now err r)"
  "fresh_row i (m + k) now key = relax_row k (fresh_row i m now key)"
  by (simp_all add: relax_row_def lease_row_def requeue_row_def retry_row_def fail_row_def fresh_row_def)

lemma relax_frame [simp]:
  "rows (relax k q) = map (relax_row k) (rows q)" "next_id (relax k q) = next_id q"
  "queue_max_retries (relax k q) = queue_max_retries q + k"
  by (simp_all add: relax_def)

lemma relax_inserts:
  "sqlite_insert now (relax k q) key = relax k (sqlite_insert now q key)"
  "pg_insert now (relax k q) key = relax k (pg_insert now q key)"
  by (auto simp: sqlite_insert_def pg_insert_def relax_row_updates image_comp comp_def) (simp_all add: relax_def)

section \<open>What a backend promises of its single statements\<close>

text \<open>The calls that were granted a retry of row \<open>i\<close> and have not written it yet.\<close>

definition granted :: "int \<Rightarrow> open_calls \<Rightarrow> nat set" where
  "granted i calls = {c. \<exists>f. calls c = Some f \<and> should_retry f \<and> call_id f = i}"

lemma granted_subset: "granted i calls \<subseteq> dom calls"
  by (auto simp: granted_def)

lemma granted_close:
  "granted i (calls(c := None)) = granted i calls - {c}"
  by (auto simp: granted_def)

lemma granted_open:
  "calls c = None \<Longrightarrow> granted i (calls(c \<mapsto> f)) =
     (if should_retry f \<and> call_id f = i then insert c (granted i calls) else granted i calls)"
  by (auto simp: granted_def)

text \<open>
  The invariant of an interleaving: the table has slack \<open>k\<close>, every open call is one of the callers \<open>C\<close>, a granted
  retry is for a row that was there, and the retries a row has spent and those it was granted exceed its budget by
  at most \<open>k\<close>.
\<close>

definition interleaving_inv :: "nat set \<Rightarrow> int \<Rightarrow> run_queue \<times> open_calls \<Rightarrow> bool" where
  "interleaving_inv C k s \<longleftrightarrow> (case s of (q, calls) \<Rightarrow>
     loose_queue k q \<and> dom calls \<subseteq> C \<and>
     (\<forall>i. granted i calls \<noteq> {} \<longrightarrow> i < next_id q) \<and>
     (\<forall>i r. row_at i q = Some r \<longrightarrow> retry_count r + int (card (granted i calls)) \<le> max_retries r + k))"

lemma inv_fields:
  assumes "interleaving_inv C k (q, calls)"
  shows "loose_queue k q" "dom calls \<subseteq> C" "granted i calls \<noteq> {} \<Longrightarrow> i < next_id q"
    "row_at i q = Some r \<Longrightarrow> retry_count r + int (card (granted i calls)) \<le> max_retries r + k"
  using assms by (auto simp: interleaving_inv_def)

lemma loose_row_at:
  assumes "loose_queue k q" "row_at i q = Some r"
  shows "i < next_id q" "wf_row (relax_row k r)"
  using assms by (auto simp: loose_queue_def row_at_def find_Some_iff)

text \<open>What one statement does to one row, and to the retries granted on it.\<close>

definition row_account :: "nat \<Rightarrow> int \<Rightarrow> (queue_op \<times> queue_reply) list \<Rightarrow> attempt \<Rightarrow> open_calls \<Rightarrow> attempt \<Rightarrow> open_calls \<Rightarrow> bool" where
  "row_account n i es r calls r' calls' \<longleftrightarrow> max_retries r' = max_retries r \<and>
     retry_count r' = retry_count r + int (count_in (requeues i) es) \<and>
     count_in (leases i) es + of_bool (status r' = Pending)
       \<le> of_bool (status r = Pending) + count_in (requeues i) es + count_in recovers es \<and>
     retry_count r' + int (card (granted i calls'))
       \<le> max (retry_count r + int (card (granted i calls))) (max_retries r + int n - 1)"

lemma row_account_step:
  assumes "row_step e i r r'" "\<not> requeues i e"
  shows "row_account n i [e] r calls r' calls"
  using assms by (auto simp: row_account_def row_step_def count_in_def)

lemma row_account_id: "row_account n i [] r calls r calls"
  by (simp add: row_account_def count_in_def)

lemma row_account_select:
  assumes "mark_failed_read j retryable q = Some b" "row_at i q = Some r" "calls c = None"
    and "finite C" "dom calls \<subseteq> C" "c \<in> C"
  shows "row_account (card C) i [] r calls r
    (calls(c \<mapsto> \<lparr>call_now = now, call_id = j, call_error = err, call_retryable = retryable, should_retry = b\<rparr>))"
proof -
  have "insert c (granted i calls) \<subseteq> C" using granted_subset [of i calls] assms(5,6) by blast
  then have "card (insert c (granted i calls)) \<le> card C" by (rule card_mono [OF assms(4)])
  moreover have "b \<Longrightarrow> j = i \<Longrightarrow> retry_count r < max_retries r"
    using assms(1,2) by (auto simp: mark_failed_read_def row_at_def)
  ultimately show ?thesis
    using assms(3) by (auto simp: row_account_def granted_open count_in_def)
qed

lemma row_account_update:
  assumes "row_at i q = Some r" "calls c = Some f" "finite (dom calls)"
  obtains r' where
    "row_at i (mark_failed_write (call_now f) (call_id f) (call_error f) (should_retry f) q) = Some r'"
    "row_account n i
      [(MarkFailed (call_now f) (call_id f) (call_error f) (call_retryable f), Requeued (should_retry f))]
      r calls r' (calls(c := None))"
proof -
  have fin: "finite (granted i calls)" using granted_subset assms(3) by (rule finite_subset)
  have c: "c \<in> granted i calls \<longleftrightarrow> should_retry f \<and> call_id f = i"
    using assms(2) by (auto simp: granted_def)
  show thesis
  proof (cases "should_retry f \<and> call_id f = i")
    case True
    then have "Suc (card (granted i calls - {c})) = card (granted i calls)"
      using c fin by (metis card_Suc_Diff1)
    moreover have "row_at i (mark_failed_write (call_now f) (call_id f) (call_error f) (should_retry f) q)
        = Some (retry_row (call_now f) (call_error f) r)"
      using True assms(1) by (simp add: mark_failed_write_def row_at_update_row)
    ultimately show thesis using True that
      by (simp add: row_account_def granted_close count_in_def retry_row_def)
  next
    case False
    then have "granted i calls - {c} = granted i calls" using c by simp
    moreover have "row_at i (mark_failed_write (call_now f) (call_id f) (call_error f) (should_retry f) q)
        = Some (if call_id f = i then fail_row (call_now f) (call_error f) r else r)"
      using False assms(1) by (auto simp: mark_failed_write_def row_at_update_row)
    moreover have "\<not> requeues i (MarkFailed (call_now f) (call_id f) (call_error f) (call_retryable f), Requeued (should_retry f))"
      using False by (cases "should_retry f") auto
    ultimately show thesis using that
      by (simp add: row_account_def granted_close count_in_def fail_row_def split: if_splits)
  qed
qed

text \<open>
  The laws beside those of \<open>attempt_queue\<close>: no statement reads a row's budget, so the slack of the counters does not
  matter to it; the budget for new rows is kept; identities only grow; a row that appears is a new one, with
  an identity not given before and no retry spent; and clearing leaves no row.
\<close>

locale interleaved_queue = attempt_queue +
  assumes exec_relax: "\<not> is_mark_failed x \<Longrightarrow>
      exec x (relax k q) = (fst (exec x q), relax k (snd (exec x q)))"
    and exec_budget: "queue_max_retries (snd (exec x q)) = queue_max_retries q"
    and exec_next_id: "next_id q \<le> next_id (snd (exec x q))"
    and exec_new_row: "row_at i q = None \<Longrightarrow> row_at i (snd (exec x q)) = Some r \<Longrightarrow>
      next_id q \<le> i \<and> retry_count r = 0"
    and exec_clear: "rows (snd (exec ClearAll q)) = []"
begin

lemma exec_loose:
  assumes "loose_queue k q" "0 \<le> k" "\<not> is_mark_failed x"
  shows "loose_queue k (snd (exec x q))"
  using exec_wf [of "relax k q" x] assms by (simp add: loose_relax exec_relax exec_budget)

lemma exec_row_loose:
  assumes "loose_queue k q" "0 \<le> k" "\<not> is_mark_failed x" "x \<noteq> ClearAll" "row_at i q = Some r"
  obtains r' where "row_at i (snd (exec x q)) = Some r'" "row_step (x, fst (exec x q)) i r r'"
  using exec_row [of "relax k q" x i "relax_row k r"] assms
  by (auto simp: loose_relax exec_relax row_at_relax row_step_relax)

lemma stmt_row:
  assumes "interleaving_inv C k (q, calls)" "finite C" "0 \<le> k" "stmt_caller x \<subseteq> C" "x \<noteq> Statement ClearAll"
    and "row_at i q = Some r" "exec_stmt exec x (q, calls) = (es, q1, calls1)"
  shows "\<exists>r1. row_at i q1 = Some r1 \<and> row_account (card C) i es r calls r1 calls1"
proof (cases x)
  case (Statement y)
  show ?thesis
  proof (cases "is_mark_failed y")
    case True
    then show ?thesis using assms Statement row_account_id by auto
  next
    case False
    with assms Statement obtain r1 where r1: "row_at i (snd (exec y q)) = Some r1"
      "row_step (y, fst (exec y q)) i r r1"
      using exec_row_loose [OF inv_fields(1) [OF assms(1)] assms(3) False _ assms(6)] by blast
    have "\<not> requeues i (y, fst (exec y q))" using False by (cases y) auto
    with r1 show ?thesis using assms(7) Statement False row_account_step by (auto simp: case_prod_beta)
  qed
next
  case (SelectFailed c now j err retryable)
  show ?thesis
  proof (cases "calls c")
    case (Some f)
    then show ?thesis using assms SelectFailed row_account_id by auto
  next
    case None
    show ?thesis
    proof (cases "mark_failed_read j retryable q")
      case unread: None
      have "row_account (card C) i [(MarkFailed now j err retryable, Requeued False)] r calls r calls"
        by (simp add: row_account_def count_in_def)
      then show ?thesis using assms SelectFailed None unread by auto
    next
      case (Some b)
      from row_account_select [OF Some assms(6) None assms(2) inv_fields(2) [OF assms(1)]]
      show ?thesis using assms SelectFailed None Some by auto
    qed
  qed
next
  case (UpdateFailed c)
  show ?thesis
  proof (cases "calls c")
    case None
    then show ?thesis using assms UpdateFailed row_account_id by auto
  next
    case (Some f)
    have "finite (dom calls)" using inv_fields(2) [OF assms(1)] assms(2) by (rule finite_subset)
    from row_account_update [OF assms(6) Some this] obtain r1 where
      "row_at i (mark_failed_write (call_now f) (call_id f) (call_error f) (should_retry f) q) = Some r1"
      "row_account (card C) i
        [(MarkFailed (call_now f) (call_id f) (call_error f) (call_retryable f), Requeued (should_retry f))]
        r calls r1 (calls(c := None))" by blast
    moreover have "es = [(MarkFailed (call_now f) (call_id f) (call_error f) (call_retryable f), Requeued (should_retry f))]"
      "q1 = mark_failed_write (call_now f) (call_id f) (call_error f) (should_retry f) q" "calls1 = calls(c := None)"
      using assms(7) UpdateFailed Some by simp_all
    ultimately show ?thesis by blast
  qed
qed

lemma stmt_frame:
  assumes "interleaving_inv C k (q, calls)" "stmt_caller x \<subseteq> C"
    and "exec_stmt exec x (q, calls) = (es, q1, calls1)"
  shows "dom calls1 \<subseteq> C" "next_id q \<le> next_id q1"
    "granted i calls1 \<noteq> {} \<Longrightarrow> i < next_id q1"
proof -
  note inv = inv_fields [OF assms(1)]
  have "dom calls1 \<subseteq> C \<and> next_id q \<le> next_id q1 \<and> (granted i calls1 \<noteq> {} \<longrightarrow> i < next_id q1)"
  proof (cases x)
    case (Statement y)
    then have "calls1 = calls" "next_id q \<le> next_id q1"
      using assms(3) exec_next_id [of q y] by (auto simp: case_prod_beta split: if_splits)
    then show ?thesis using inv(2) inv(3) [of i] by (cases "granted i calls = {}") auto
  next
    case (SelectFailed c now j err retryable)
    show ?thesis
    proof (cases "calls c = None \<and> mark_failed_read j retryable q \<noteq> None")
      case True
      then obtain b where b: "mark_failed_read j retryable q = Some b" by blast
      then have "\<exists>r. row_at j q = Some r" by (auto simp: mark_failed_read_def row_at_def split: option.splits)
      then have "j < next_id q" using loose_row_at(1) [OF inv(1)] by blast
      then show ?thesis using SelectFailed True b assms(2,3) inv(2) inv(3) [of i]
        by (cases "granted i calls = {}") (auto simp: granted_open domI subset_iff split: if_splits)
    next
      case False
      then have "calls1 = calls \<and> q1 = q" using SelectFailed assms(3) by (auto split: option.splits)
      then show ?thesis using inv(2) inv(3) [of i] by (cases "granted i calls = {}") auto
    qed
  next
    case (UpdateFailed c)
    then have "dom calls1 \<subseteq> dom calls" "next_id q1 = next_id q" "granted i calls1 \<subseteq> granted i calls"
      using assms(3) by (auto simp: mark_failed_write_def granted_def split: option.splits if_splits)
    then show ?thesis using inv(2) inv(3) [of i] by (cases "granted i calls = {}") auto
  qed
  then show "dom calls1 \<subseteq> C" "next_id q \<le> next_id q1" "granted i calls1 \<noteq> {} \<Longrightarrow> i < next_id q1"
    by auto
qed

lemma stmt_new_row:
  assumes "exec_stmt exec x (q, calls) = (es, q1, calls1)" "row_at i q = None" "row_at i q1 = Some r"
  shows "next_id q \<le> i \<and> retry_count r = 0 \<and> calls1 = calls"
proof (cases x)
  case (Statement y)
  then show ?thesis using assms exec_new_row [of i q y r]
    by (auto simp: case_prod_beta split: if_splits)
next
  case (SelectFailed c now j err retryable)
  then have "q1 = q" using assms(1) by (auto split: option.splits)
  then show ?thesis using assms by simp
next
  case (UpdateFailed c)
  then have "row_at i q1 = None" using assms(1,2)
    by (auto simp: mark_failed_write_def row_at_update_row split: option.splits if_splits)
  then show ?thesis using assms(3) by simp
qed

lemma write_loose:
  assumes "interleaving_inv C k (q, calls)" "finite C" "0 \<le> k" "calls c = Some f"
  shows "loose_queue k (mark_failed_write (call_now f) (call_id f) (call_error f) (should_retry f) q)"
proof -
  note inv = inv_fields [OF assms(1)]
  let ?g = "if should_retry f then retry_row (call_now f) (call_error f) else fail_row (call_now f) (call_error f)"
  have wf: "wf_queue (relax k q)" "0 \<le> queue_max_retries q" using inv(1) assms(3) by (simp_all add: loose_relax)
  have "wf_row (?g r)" if "row_at (call_id f) (relax k q) = Some r" "wf_row r" for r
  proof (cases "should_retry f")
    case True
    from that(1) obtain r0 where r0: "row_at (call_id f) q = Some r0" "r = relax_row k r0"
      by (auto simp: row_at_relax)
    have "c \<in> granted (call_id f) calls" using True assms(4) by (simp add: granted_def)
    moreover have "finite (granted (call_id f) calls)"
      using finite_subset [OF granted_subset finite_subset [OF inv(2) assms(2)]] .
    ultimately have "0 < card (granted (call_id f) calls)" by (auto simp: card_gt_0_iff)
    then have "retry_count r < max_retries r" using inv(4) [OF r0(1)] r0(2) by simp
    then show ?thesis using True that(2) by (simp add: wf_row_updates)
  qed (use that(2) in \<open>simp add: wf_row_updates\<close>)
  then have "wf_queue (update_row (call_id f) ?g (relax k q))" by (intro wf_update_row [OF wf(1)]) auto
  moreover have "update_row (call_id f) ?g (relax k q) = relax k (update_row (call_id f) ?g q)"
    by (rule relax_update) (simp add: relax_row_updates)
  ultimately show ?thesis using wf(2) assms(3) by (simp add: loose_relax mark_failed_write_def)
qed

lemma stmt_loose:
  assumes "interleaving_inv C k (q, calls)" "finite C" "0 \<le> k"
    and "exec_stmt exec x (q, calls) = (es, q1, calls1)"
  shows "loose_queue k q1"
proof (cases x)
  case (Statement y)
  then show ?thesis using assms inv_fields(1) [OF assms(1)] exec_loose
    by (auto simp: case_prod_beta split: if_splits)
next
  case (SelectFailed c now j err retryable)
  then have "q1 = q" using assms(4) by (auto split: option.splits)
  then show ?thesis using inv_fields(1) [OF assms(1)] by simp
next
  case (UpdateFailed c)
  then show ?thesis using assms write_loose [OF assms(1-3)] inv_fields(1) [OF assms(1)]
    by (auto split: option.splits)
qed

lemma stmt_inv:
  assumes "interleaving_inv C k (q, calls)" "finite C" "0 \<le> k" "int (card C) - 1 \<le> k" "stmt_caller x \<subseteq> C"
    and "exec_stmt exec x (q, calls) = (es, q1, calls1)"
  shows "interleaving_inv C k (q1, calls1)"
proof -
  note inv = inv_fields [OF assms(1)] and frame = stmt_frame [OF assms(1,5,6)]
  have loose: "loose_queue k q1" by (rule stmt_loose [OF assms(1-3,6)])
  have "retry_count r1 + int (card (granted i calls1)) \<le> max_retries r1 + k" if r1: "row_at i q1 = Some r1" for i r1
  proof (cases "row_at i q")
    case None
    from stmt_new_row [OF assms(6) None r1] inv(3) [of i] have "granted i calls1 = {}" "retry_count r1 = 0"
      by auto
    moreover have "retry_count r1 \<le> max_retries r1 + k"
      using loose_row_at(2) [OF loose r1] by (simp add: wf_row_def)
    ultimately show ?thesis by simp
  next
    case (Some r)
    have "x \<noteq> Statement ClearAll"
      using r1 assms(6) exec_clear [of q] by (auto simp: case_prod_beta row_at_def)
    from stmt_row [OF assms(1,2,3,5) this Some assms(6)] r1
    have "row_account (card C) i es r calls r1 calls1" by simp
    then show ?thesis using inv(4) [OF Some] assms(4) by (auto simp: row_account_def)
  qed
  then show ?thesis using loose frame by (auto simp: interleaving_inv_def)
qed

lemma run_inv:
  assumes "interleaving_inv C k s" "finite C" "0 \<le> k" "int (card C) - 1 \<le> k" "failing_callers xs \<subseteq> C"
  shows "interleaving_inv C k (snd (run_statements exec xs s))"
  using assms(1,5)
proof (induction xs arbitrary: s)
  case (Cons x xs)
  obtain q calls where s: "s = (q, calls)" by (cases s)
  obtain es q1 calls1 where x: "exec_stmt exec x (q, calls) = (es, q1, calls1)" by (metis surj_pair)
  have "stmt_caller x \<subseteq> C" "failing_callers xs \<subseteq> C" using Cons.prems(2) by (auto simp: failing_callers_def)
  with Cons.IH [OF stmt_inv [OF Cons.prems(1) [unfolded s] assms(2-4) _ x]] show ?case
    by (simp add: s x case_prod_beta)
qed simp

lemma run_row:
  assumes "interleaving_inv C k (q, calls)" "finite C" "0 \<le> k" "int (card C) - 1 \<le> k" "failing_callers xs \<subseteq> C"
    and "Statement ClearAll \<notin> set xs" "row_at i q = Some r"
    and "run_statements exec xs (q, calls) = (tr, q', calls')"
  shows "\<exists>r'. row_at i q' = Some r' \<and> row_account (card C) i tr r calls r' calls'"
  using assms(1,5-8)
proof (induction xs arbitrary: q calls r tr)
  case Nil
  then show ?case using row_account_id by auto
next
  case (Cons x xs)
  obtain es q1 calls1 where x: "exec_stmt exec x (q, calls) = (es, q1, calls1)" by (metis surj_pair)
  obtain tr1 where tr1: "run_statements exec xs (q1, calls1) = (tr1, q', calls')" and tr: "tr = es @ tr1"
    using Cons.prems(5) x by (auto split: prod.splits)
  have cs: "stmt_caller x \<subseteq> C" "failing_callers xs \<subseteq> C" using Cons.prems(2) by (auto simp: failing_callers_def)
  have "x \<noteq> Statement ClearAll" using Cons.prems(3) by auto
  from stmt_row [OF Cons.prems(1) assms(2,3) cs(1) this Cons.prems(4) x] obtain r1 where
    r1: "row_at i q1 = Some r1" and a1: "row_account (card C) i es r calls r1 calls1" by blast
  from Cons.IH [OF stmt_inv [OF Cons.prems(1) assms(2-4) cs(1) x] cs(2) _ r1 tr1] Cons.prems(3) obtain r' where
    r': "row_at i q' = Some r'" and a2: "row_account (card C) i tr1 r1 calls1 r' calls'" by auto
  have "row_account (card C) i tr r calls r' calls'"
    using a1 a2 by (simp add: row_account_def tr count_in_def) linarith
  with r' show ?case by blast
qed

end

section \<open>Both backends keep the laws\<close>

lemma foldl_relax:
  "(\<And>q key. ins (relax k q) key = relax k (ins q key)) \<Longrightarrow> foldl ins (relax k q) ks = relax k (foldl ins q ks)"
  by (induction ks arbitrary: q) auto

lemma foldl_budget:
  "(\<And>q key. queue_max_retries (ins q key) = queue_max_retries q \<and> next_id q \<le> next_id (ins q key)) \<Longrightarrow>
    queue_max_retries (foldl ins q ks) = queue_max_retries q \<and> next_id q \<le> next_id (foldl ins q ks)"
proof (induction ks arbitrary: q)
  case (Cons key ks)
  from Cons.IH [OF Cons.prems, of "ins q key"] Cons.prems [of q key] show ?case by simp
qed simp

lemma insert_frame:
  "queue_max_retries (sqlite_insert now q key) = queue_max_retries q \<and> next_id q \<le> next_id (sqlite_insert now q key)"
  "queue_max_retries (pg_insert now q key) = queue_max_retries q \<and> next_id q \<le> next_id (pg_insert now q key)"
  by (simp_all add: sqlite_insert_def pg_insert_def)

lemma new_row_append:
  assumes "row_at i q = None" "row_at i (q\<lparr>rows := rows q @ [fresh_row (next_id q) m now key], next_id := n\<rparr>) = Some r"
  shows "next_id q \<le> i \<and> retry_count r = 0"
proof -
  have "find P (xs @ [x]) = (case find P xs of None \<Rightarrow> if P x then Some x else None | Some y \<Rightarrow> Some y)"
    for P and x :: attempt and xs by (induction xs) auto
  with assms show ?thesis by (auto simp: row_at_def fresh_row_def split: if_splits)
qed

lemma insert_new_row:
  "row_at i q = None \<Longrightarrow> row_at i (sqlite_insert now q key) = Some r \<Longrightarrow> next_id q \<le> i \<and> retry_count r = 0"
  "row_at i q = None \<Longrightarrow> row_at i (pg_insert now q key) = Some r \<Longrightarrow> next_id q \<le> i \<and> retry_count r = 0"
  using new_row_append by (auto simp: sqlite_insert_def pg_insert_def row_at_def split: if_splits)

lemma foldl_new_row:
  assumes "\<And>q key r. row_at i q = None \<Longrightarrow> row_at i (ins q key) = Some r \<Longrightarrow> next_id q \<le> i \<and> retry_count r = 0"
    and "\<And>q key r. row_at i q = Some r \<Longrightarrow> row_at i (ins q key) = Some r"
    and "\<And>q key. next_id q \<le> next_id (ins q key)"
  shows "row_at i q = None \<Longrightarrow> row_at i (foldl ins q ks) = Some r \<Longrightarrow> next_id q \<le> i \<and> retry_count r = 0"
proof (induction ks arbitrary: q)
  case (Cons key ks)
  show ?case
  proof (cases "row_at i (ins q key)")
    case None
    from Cons.IH [OF this] Cons.prems(2) assms(3) [of q key] show ?thesis by auto
  next
    case (Some r1)
    then have "row_at i (foldl ins (ins q key) ks) = Some r1" using assms(2) by (intro foldl_row_at) auto
    then show ?thesis using assms(1) [OF Cons.prems(1) Some] Cons.prems(2) by simp
  qed
qed simp

lemma relax_recover:
  "(relax k q)\<lparr>rows := map (\<lambda>r. if stale e c r then requeue_row now r else r) (rows (relax k q))\<rparr>
    = relax k (q\<lparr>rows := map (\<lambda>r. if stale e c r then requeue_row now r else r) (rows q)\<rparr>)"
  by (rule relax_map) (simp add: stale_def relax_row_updates)

lemma relax_stale: "filter (stale e c) (rows (relax k q)) = map (relax_row k) (filter (stale e c) (rows q))"
proof -
  have "stale e c \<circ> relax_row k = stale e c" by (simp add: fun_eq_iff stale_def)
  then show ?thesis by (simp add: filter_map)
qed

lemma relax_lease:
  assumes "\<And>r. P (relax_row k r) = P r"
  shows "first_row (filter P (rows (relax k q))) = map_option (relax_row k) (first_row (filter P (rows q)))"
  using assms by (simp add: filter_map comp_def first_row_relax)

lemma relax_clear: "clear_all (relax k q) = relax k (clear_all q)"
  by (simp add: clear_all_def relax_def)

lemma relax_marks:
  "sqlite_mark_running now i w (relax k q) = relax k (sqlite_mark_running now i w q)"
  "sqlite_mark_completed now i c (relax k q) = relax k (sqlite_mark_completed now i c q)"
  unfolding sqlite_mark_running_def sqlite_mark_completed_def
  by (rule relax_update; simp add: relax_row_def)+

lemma pg_marks:
  "pg_mark_running = sqlite_mark_running" "pg_mark_completed = sqlite_mark_completed"
  by (simp_all add: fun_eq_iff pg_mark_running_def sqlite_mark_running_def pg_mark_completed_def sqlite_mark_completed_def)

text \<open>One law for both lease queries: which pending rows a query may take does not depend on the budget.\<close>

lemma sqlite_exec_relax:
  "\<not> is_mark_failed x \<Longrightarrow> sqlite_exec x (relax k q) = (fst (sqlite_exec x q), relax k (snd (sqlite_exec x q)))"
proof (cases x)
  case (LeaseNext now w secs)
  then show ?thesis
    by (simp add: sqlite_lease_next_def Let_def relax_lease relax_update relax_row_updates del: relax_frame(1)
        split: option.splits)
next
  case (RecoverInflight t0 t1 t2 age)
  then show ?thesis
    by (simp add: sqlite_recover_inflight_def Let_def relax_recover relax_stale del: relax_frame(1))
qed (simp_all add: sqlite_enqueue_def sqlite_enqueue_many_foldl relax_inserts foldl_relax relax_marks relax_clear)

lemma pg_exec_relax:
  "\<not> is_mark_failed x \<Longrightarrow> pg_exec locks x (relax k q) = (fst (pg_exec locks x q), relax k (snd (pg_exec locks x q)))"
proof (cases x)
  case (LeaseNext now w secs)
  then show ?thesis
    by (simp add: pg_lease_next_def Let_def relax_lease relax_update relax_row_updates del: relax_frame(1)
        split: option.splits)
next
  case (RecoverInflight t0 t1 t2 age)
  then show ?thesis
    by (simp add: pg_recover_inflight_def Let_def relax_recover relax_stale del: relax_frame(1))
qed (simp_all add: pg_enqueue_def pg_enqueue_many_foldl relax_inserts foldl_relax pg_marks relax_marks relax_clear)

lemmas exec_parts = sqlite_enqueue_def pg_enqueue_def sqlite_enqueue_many_foldl pg_enqueue_many_foldl
  sqlite_recover_inflight_def pg_recover_inflight_def sqlite_lease_next_def pg_lease_next_def
  sqlite_mark_running_def sqlite_mark_completed_def pg_marks sqlite_mark_failed_def pg_mark_failed_def
  mark_failed_write_def clear_all_def Let_def

lemma exec_frame:
  "queue_max_retries (snd (sqlite_exec x q)) = queue_max_retries q \<and> next_id q \<le> next_id (snd (sqlite_exec x q))"
  "queue_max_retries (snd (pg_exec locks x q)) = queue_max_retries q \<and> next_id q \<le> next_id (snd (pg_exec locks x q))"
  by (cases x; simp add: exec_parts insert_frame foldl_budget [OF insert_frame(1)] foldl_budget [OF insert_frame(2)]
      split: option.splits)+

lemma sqlite_many_new_row:
  assumes "row_at i q = None" "row_at i (foldl (sqlite_insert now) q ks) = Some r"
  shows "next_id q \<le> i \<and> retry_count r = 0"
proof (rule foldl_new_row [OF _ _ _ assms], goal_cases)
  case 1
  then show ?case by (rule insert_new_row(1))
next
  case 2
  then show ?case by (rule row_at_insert)
next
  case 3
  show ?case using insert_frame(1) by blast
qed

lemma pg_many_new_row:
  assumes "row_at i q = None" "row_at i (foldl (pg_insert now) q ks) = Some r"
  shows "next_id q \<le> i \<and> retry_count r = 0"
proof (rule foldl_new_row [OF _ _ _ assms], goal_cases)
  case 1
  then show ?case by (rule insert_new_row(2))
next
  case 2
  then show ?case by (rule row_at_pg_insert)
next
  case 3
  show ?case using insert_frame(2) by blast
qed

lemma exec_new_rows:
  "row_at i q = None \<Longrightarrow> row_at i (snd (sqlite_exec x q)) = Some r \<Longrightarrow> next_id q \<le> i \<and> retry_count r = 0"
  "row_at i q = None \<Longrightarrow> row_at i (snd (pg_exec locks x q)) = Some r \<Longrightarrow> next_id q \<le> i \<and> retry_count r = 0"
proof -
  have keep: "row_at i q = None \<Longrightarrow> row_at i (update_row j f q) = None" if "frames f" for j f
    using that by (simp add: row_at_update_row)
  have recover: "row_at i q = None \<Longrightarrow>
      row_at i (q\<lparr>rows := map (\<lambda>r. if stale e c r then requeue_row now r else r) (rows q)\<rparr>) = None" for e c now
    by (simp add: row_at_map_rows)
  have clear: "row_at i (q\<lparr>rows := [], events := []\<rparr>) = None" by (simp add: row_at_def)
  show "row_at i q = None \<Longrightarrow> row_at i (snd (sqlite_exec x q)) = Some r \<Longrightarrow> next_id q \<le> i \<and> retry_count r = 0"
    by (cases x) (auto simp: exec_parts keep recover clear dest: sqlite_many_new_row pg_many_new_row insert_new_row split: option.splits if_splits)
  show "row_at i q = None \<Longrightarrow> row_at i (snd (pg_exec locks x q)) = Some r \<Longrightarrow> next_id q \<le> i \<and> retry_count r = 0"
    by (cases x) (auto simp: exec_parts keep recover clear dest: sqlite_many_new_row pg_many_new_row insert_new_row split: option.splits if_splits)
qed

interpretation ib: interleaved_queue "backend_exec b locks" for b locks
proof -
  have "interleaved_queue sqlite_exec"
    by unfold_locales (simp_all add: sqlite_exec_relax exec_frame exec_new_rows clear_all_def)
  moreover have "interleaved_queue (pg_exec locks)" for locks
    by unfold_locales (simp_all add: pg_exec_relax exec_frame exec_new_rows clear_all_def)
  ultimately show "interleaved_queue (backend_exec b locks)" by (cases b) (simp_all add: backend_exec_def)
qed

section \<open>Properties\<close>

lemma inv_start:
  assumes "loose_queue k q" "k \<le> k'"
  shows "interleaving_inv C k' (q, Map.empty)"
proof -
  have "granted i Map.empty = {}" for i by (simp add: granted_def)
  moreover have "retry_count r \<le> max_retries r + k'" if "row_at i q = Some r" for i r
    using loose_row_at(2) [OF loose_mono [OF assms] that] by (simp add: wf_row_def)
  ultimately show ?thesis using loose_mono [OF assms] by (simp add: interleaving_inv_def)
qed

lemma finite_failing_callers: "finite (failing_callers xs)"
proof -
  have "finite (stmt_caller x)" for x by (cases x) simp_all
  then show ?thesis by (simp add: failing_callers_def)
qed

text \<open>
  Property C9.  The queue opened on a stored table, under any number of concurrent workers.  The stored table is
  well-formed, but that retry counters an earlier run left may exceed their budgets by at most \<open>k\<close>.  Take any
  interleaving of statements, in which the \<open>SELECT\<close> and the \<open>UPDATE\<close> of every \<open>mark_failed\<close> are apart and \<open>n\<close> callers report failures.
  On either backend and whatever rows Postgres skips, the table stays as it should be: one row per \<open>(task_id,
  trial_index)\<close>, ids strictly increasing and below the next one, no negative cost, the lease columns agree with the
  status (a pending or ended row holds no lease, a leased or running row has an owner), and no retry counter is
  negative or exceeds its row's budget by more than the larger of \<open>k\<close> and \<open>n - 1\<close>.  So on a well-formed table (\<open>k = 0\<close>)
  a single reporter never exceeds the budget.
\<close>

theorem interleaved_queue_stays_wellformed:
  assumes "create_run_queue backend m dsn stored = Inr (b, q)" "loose_queue k stored" "0 \<le> k"
  shows "loose_queue (max k (int (card (failing_callers xs)) - 1))
    (fst (snd (run_statements (backend_exec b locks) xs (q, Map.empty))))"
proof -
  let ?K = "max k (int (card (failing_callers xs)) - 1)"
  have "loose_queue k q" using assms(2) create_run_queue_opens [OF assms(1)] by (simp add: loose_queue_def open_queue_def)
  from ib.run_inv [OF inv_start [OF this] finite_failing_callers _ _ subset_refl, of ?K] assms(3)
  show ?thesis by (auto simp: interleaving_inv_def case_prod_beta)
qed

text \<open>
  Property C4.  How often an attempt is executed.  Take a well-formed table and any interleaving of statements that does
  not clear it, in which at most \<open>n\<close> callers, \<open>n\<close> at least one, report failures and may overlap.  An attempt is leased at most once, plus once for
  each report that requeued it and each recovery pass.  The reports requeue it at most as often as it had retries
  left, plus \<open>n - 1\<close> for the reports that read the counter before another one wrote it.  So it is leased at most
  \<open>1 + (max_retries - retry_count) + (n - 1)\<close> times plus the recovery passes, and with one reporter at most once per
  retry it had left, plus one.
\<close>

theorem interleaved_executions_bounded:
  assumes "wf_queue q" "Statement ClearAll \<notin> set xs" "row_at i q = Some r"
    and "run_statements (backend_exec b locks) xs (q, Map.empty) = (tr, q', calls)"
    and "card (failing_callers xs) \<le> n" "0 < n"
  shows "count_in (leases i) tr \<le> 1 + count_in (requeues i) tr + count_in recovers tr \<and>
    int (count_in (requeues i) tr) \<le> (max_retries r - retry_count r) + (int n - 1) \<and>
    int (count_in (leases i) tr)
      \<le> 1 + (max_retries r - retry_count r) + (int n - 1) + int (count_in recovers tr)"
proof -
  have none: "granted i Map.empty = {}" by (simp add: granted_def)
  have "loose_queue 0 q" using assms(1) by (simp add: loose_zero)
  then have "interleaving_inv (failing_callers xs) (int n - 1) (q, Map.empty)"
    using assms(6) by (intro inv_start) auto
  from ib.run_row [OF this finite_failing_callers _ _ subset_refl assms(2,3,4)] assms(5,6)
  obtain r' where acc: "row_account (card (failing_callers xs)) i tr r Map.empty r' calls" by auto
  have "retry_count r \<le> max_retries r" using assms(1,3) by (auto simp: row_at_Some_iff wf_queue_def wf_row_def)
  with acc have "int (count_in (requeues i) tr) \<le> (max_retries r - retry_count r) + (int n - 1)"
    using assms(5,6) by (auto simp: row_account_def none)
  moreover have "count_in (leases i) tr \<le> 1 + count_in (requeues i) tr + count_in recovers tr"
    using acc by (cases "status r = Pending") (auto simp: row_account_def)
  ultimately show ?thesis by linarith
qed

text \<open>Two workers report the same attempt, and both read it before either writes.\<close>

definition overlapping_reports :: "queue_stmt list" where
  "overlapping_reports =
     [Statement (LeaseNext 6 ''w'' 60), Statement (RecoverInflight 7200 7200 7200 60), Statement (LeaseNext 7201 ''v'' 60),
      SelectFailed 0 7202 1 ''x'' True, SelectFailed 1 7203 1 ''y'' True, UpdateFailed 0,
      Statement (LeaseNext 7204 ''w'' 60), UpdateFailed 1, Statement (LeaseNext 7205 ''v'' 60)]"

lemma overlapping_callers: "failing_callers overlapping_reports = {0, 1}"
  by (auto simp: failing_callers_def overlapping_reports_def)

theorem interleaved_queue_stays_wellformed_witness:
  "create_run_queue ''SQLite'' 1 None demo_queue = Inr (SqliteBackend, demo_queue) \<and>
   loose_queue 1 (fst (snd (run_statements (backend_exec SqliteBackend (\<lambda>_. {})) overlapping_reports (demo_queue, Map.empty))))"
proof -
  have h: "create_run_queue ''SQLite'' 1 None demo_queue = Inr (SqliteBackend, demo_queue)" by code_simp
  have "loose_queue 0 demo_queue" by (simp add: loose_zero wf_demo_queue)
  from interleaved_queue_stays_wellformed [OF h this, of overlapping_reports "\<lambda>_. {}"] h
  show ?thesis by (simp add: overlapping_callers)
qed

theorem interleaved_executions_bounded_witness:
  "\<exists>r tr q' calls. row_at 1 demo_queue = Some r \<and> max_retries r = 1 \<and>
    run_statements (backend_exec SqliteBackend (\<lambda>_. {})) overlapping_reports (demo_queue, Map.empty) = (tr, q', calls) \<and>
    int (count_in (requeues 1) tr) \<le> (max_retries r - retry_count r) + (2 - 1)"
proof -
  obtain tr q' calls where run:
    "run_statements (backend_exec SqliteBackend (\<lambda>_. {})) overlapping_reports (demo_queue, Map.empty) = (tr, q', calls)"
    by (metis surj_pair)
  obtain r where r: "row_at 1 demo_queue = Some r" "max_retries r = 1"
    by (simp add: demo_queue_def row_at_def queue_simps sqlite_insert_def init_queue_def fresh_row_def)
  have "Statement ClearAll \<notin> set overlapping_reports" by (simp add: overlapping_reports_def)
  from interleaved_executions_bounded [OF wf_demo_queue this r(1) run, of 2] run r
  show ?thesis by (simp add: overlapping_callers)
qed

end
