(* ===== verification/Json_Values.thy ===== *)
theory Json_Values
  imports Forge_Prelude
begin

text \<open>
  Python values as JSON yields them, and the comparisons of
  \<^verbatim>\<open>tolokaforge/core/grading/predicates.py\<close>: \<open>py_eq\<close> is Python's \<^verbatim>\<open>==\<close> (where
  \<^verbatim>\<open>True == 1 == 1.0\<close> and dictionaries ignore order), \<open>contains\<close> the recursive descent, and
  \<open>ever_satisfiable\<close> the authored table an authoring gate reads instead of the values.  The main
  theorem says that the table is exact: it answers yes for a pair of types exactly when two
  values of these types satisfy the comparison.
\<close>

section \<open>Values\<close>

datatype pyval =
    VNone
  | VBool bool
  | VInt int
  | VFloat pyfloat
  | VStr pystr
  | VList "pyval list"
  | VDict "(pystr \<times> pyval) list"

text \<open>The number a value compares as across Python's numeric types.\<close>

fun num_of :: "pyval \<Rightarrow> pyfloat option" where
  "num_of (VBool b) = Some (if b then 1 else 0)"
| "num_of (VInt i) = Some (of_int i)"
| "num_of (VFloat q) = Some q"
| "num_of _ = None"

fun py_eq :: "pyval \<Rightarrow> pyval \<Rightarrow> bool" where
  "py_eq VNone w = (w = VNone)"
| "py_eq (VStr s) w = (w = VStr s)"
| "py_eq (VList xs) w =
     (case w of VList ys \<Rightarrow> list_all2 py_eq xs ys | _ \<Rightarrow> False)"
| "py_eq (VDict d) w =
     (case w of VDict e \<Rightarrow>
        length d = length e \<and>
        list_all (\<lambda>(k, v). case map_of e k of None \<Rightarrow> False | Some u \<Rightarrow> py_eq v u) d
      | _ \<Rightarrow> False)"
| "py_eq v w = (num_of w = num_of v)"

lemma py_eq_num [simp]:
  "py_eq (VBool b) w = (num_of w = num_of (VBool b))"
  "py_eq (VInt i) w = (num_of w = num_of (VInt i))"
  "py_eq (VFloat q) w = (num_of w = num_of (VFloat q))"
  by simp_all

text \<open>The runtime type, as \<^verbatim>\<open>type(x) is type(y)\<close> compares it.\<close>

datatype pytype = TNone | TBool | TInt | TFloat | TStr | TList | TDict

fun py_type :: "pyval \<Rightarrow> pytype" where
  "py_type VNone = TNone"
| "py_type (VBool _) = TBool"
| "py_type (VInt _) = TInt"
| "py_type (VFloat _) = TFloat"
| "py_type (VStr _) = TStr"
| "py_type (VList _) = TList"
| "py_type (VDict _) = TDict"

section \<open>Type names and the satisfiability table\<close>

definition JSON_TYPES :: "pystr list" where
  "JSON_TYPES = [''string'', ''integer'', ''number'', ''boolean'', ''array'', ''object'']"

fun json_type_of :: "pyval \<Rightarrow> pystr option" where
  "json_type_of (VBool _) = Some ''boolean''"
| "json_type_of (VInt _) = Some ''integer''"
| "json_type_of (VFloat _) = Some ''number''"
| "json_type_of (VStr _) = Some ''string''"
| "json_type_of (VList _) = Some ''array''"
| "json_type_of (VDict _) = Some ''object''"
| "json_type_of VNone = None"

definition numerically_comparable_json_types :: "pystr list" where
  "numerically_comparable_json_types = [''integer'', ''number'', ''boolean'']"

definition scalar_json_types :: "pystr list" where
  "scalar_json_types = [''string'', ''integer'', ''number'', ''boolean'']"

definition EVER_SATISFIABLE :: "(pystr, (pystr, pystr list) dict) dict" where
  "EVER_SATISFIABLE =
     [(''equals_binding'',
        [(''string'', [''string'']),
         (''integer'', numerically_comparable_json_types),
         (''number'', numerically_comparable_json_types),
         (''boolean'', numerically_comparable_json_types),
         (''array'', [''array'']),
         (''object'', [''object''])]),
      (''contains_binding'',
        [(''string'', [''string'']),
         (''integer'', numerically_comparable_json_types),
         (''number'', numerically_comparable_json_types),
         (''boolean'', numerically_comparable_json_types),
         (''array'', scalar_json_types),
         (''object'', scalar_json_types)])]"

datatype satisfiable_error = NotABindingOperator

definition ever_satisfiable :: "pystr \<Rightarrow> pystr option \<Rightarrow> pystr option \<Rightarrow> satisfiable_error + bool" where
  "ever_satisfiable operator held bound =
     (case map_of EVER_SATISFIABLE operator of
        None \<Rightarrow> Inl NotABindingOperator
      | Some satisfiable_bounds \<Rightarrow>
          (case held of
             None \<Rightarrow> Inr True
           | Some h \<Rightarrow>
               (case map_of satisfiable_bounds h of
                  None \<Rightarrow> Inr True
                | Some bounds \<Rightarrow>
                    (case bound of
                       None \<Rightarrow> Inr True
                     | Some b \<Rightarrow> Inr (b \<notin> set JSON_TYPES \<or> b \<in> set bounds)))))"

section \<open>Containment\<close>

text \<open>\<^verbatim>\<open>needle in haystack\<close> on strings.\<close>

fun substring :: "pystr \<Rightarrow> pystr \<Rightarrow> bool" where
  "substring n [] = (n = [])"
| "substring n (c # h) = (take (length n) (c # h) = n \<or> substring n h)"

fun contains :: "pyval \<Rightarrow> pyval \<Rightarrow> bool \<Rightarrow> bool" where
  "contains (VList xs) needle ci = list_ex (\<lambda>x. contains x needle ci) xs"
| "contains (VDict d) needle ci = list_ex (\<lambda>(k, v). contains v needle ci) d"
| "contains (VStr h) needle ci =
     (case needle of
        VStr n \<Rightarrow> if ci then substring (lower_str n) (lower_str h) else substring n h
      | _ \<Rightarrow> py_eq (VStr h) needle)"
| "contains haystack needle ci = py_eq haystack needle"

lemma substring_iff: "substring n h \<longleftrightarrow> (\<exists>us vs. h = us @ n @ vs)"
proof (induction h)
  case Nil
  then show ?case by auto
next
  case (Cons c h)
  have "take (length n) (c # h) = n \<longleftrightarrow> (\<exists>vs. c # h = n @ vs)"
    by (metis append_eq_conv_conj append_take_drop_id)
  then show ?case using Cons by (auto simp: Cons_eq_append_conv)
qed

text \<open>The scalars the descent reaches, which decide containment of a non-string needle.\<close>

fun leaves :: "pyval \<Rightarrow> pyval list" where
  "leaves (VList xs) = concat (map leaves xs)"
| "leaves (VDict d) = concat (map (\<lambda>(k, v). leaves v) d)"
| "leaves v = [v]"

definition leaf_contains :: "pyval \<Rightarrow> bool \<Rightarrow> pyval \<Rightarrow> bool" where
  "leaf_contains needle ci x = (case (x, needle) of
     (VStr h, VStr n) \<Rightarrow> if ci then substring (lower_str n) (lower_str h) else substring n h
   | _ \<Rightarrow> py_eq x needle)"

lemma contains_iff_leaf: "contains h n ci \<longleftrightarrow> (\<exists>x \<in> set (leaves h). leaf_contains n ci x)"
proof (induction h n ci rule: contains.induct)
  case (1 xs needle ci)
  then show ?case by (fastforce simp: list_ex_iff)
next
  case (2 d needle ci)
  then show ?case by (fastforce simp: list_ex_iff)
next
  case (3 h needle ci)
  then show ?case by (auto simp: leaf_contains_def split: pyval.splits)
qed (auto simp: leaf_contains_def)

lemma leaves_scalar: "x \<in> set (leaves h) \<Longrightarrow> py_type x \<notin> {TList, TDict}"
  by (induction h rule: leaves.induct) auto

section \<open>Reference readings\<close>

text \<open>A binding comparison, by the name of its operator.\<close>

definition binding_compare :: "pystr \<Rightarrow> pyval \<Rightarrow> pyval \<Rightarrow> bool" where
  "binding_compare operator value bound =
     (if operator = ''equals_binding'' then py_eq value bound else contains value bound False)"

lemma py_eq_types:
  assumes "py_eq v w"
  shows "(num_of v \<noteq> None \<and> num_of w \<noteq> None) \<or> py_type v = py_type w"
  using assms by (cases v; cases w) auto

lemma num_of_json_type:
  "num_of v \<noteq> None \<longleftrightarrow> json_type_of v \<in> Some ` set numerically_comparable_json_types"
  by (cases v) (auto simp: numerically_comparable_json_types_def)

lemmas table_defs = ever_satisfiable_def EVER_SATISFIABLE_def JSON_TYPES_def
  numerically_comparable_json_types_def scalar_json_types_def

lemma equals_table_sound: "py_eq v w \<Longrightarrow>
  ever_satisfiable ''equals_binding'' (json_type_of v) (json_type_of w) = Inr True"
  using py_eq_types [of v w] by (cases v; cases w) (auto simp: table_defs)

lemma leaf_table:
  assumes "leaf_contains w ci x" "x \<in> set (leaves v)"
  shows "json_type_of w \<in> insert None (Some ` set scalar_json_types)"
proof -
  have "py_type x \<notin> {TList, TDict}" using assms(2) by (rule leaves_scalar)
  then show ?thesis using assms(1)
    by (cases x; cases w) (auto simp: leaf_contains_def scalar_json_types_def split: pyval.splits)
qed

lemma contains_table_sound:
  assumes "contains v w ci"
  shows "ever_satisfiable ''contains_binding'' (json_type_of v) (json_type_of w) = Inr True"
proof -
  from assms obtain x where x: "x \<in> set (leaves v)" "leaf_contains w ci x"
    by (auto simp: contains_iff_leaf)
  have scalar: "json_type_of w \<in> insert None (Some ` set scalar_json_types)"
    using leaf_table [OF x(2,1)] .
  show ?thesis
  proof (cases "py_type v \<in> {TList, TDict}")
    case True
    then show ?thesis using scalar by (cases v; cases w) (auto simp: table_defs)
  next
    case False
    then have "leaves v = [v]" by (cases v) auto
    with x have "leaf_contains w ci v" by simp
    then show ?thesis using False
      by (cases v; cases w) (auto simp: table_defs leaf_contains_def)
  qed
qed

text \<open>A value of each type, and a container that holds it.\<close>

definition sample :: "pystr \<Rightarrow> pyval" where
  "sample t = (if t = ''string'' then VStr [] else if t = ''integer'' then VInt 0
     else if t = ''number'' then VFloat 0 else if t = ''boolean'' then VBool False
     else if t = ''array'' then VList [] else VDict [])"

definition sample_held :: "pystr \<Rightarrow> pystr \<Rightarrow> pystr \<Rightarrow> pyval" where
  "sample_held operator h b =
     (if operator = ''contains_binding'' \<and> h = ''array'' then VList [sample b]
      else if operator = ''contains_binding'' \<and> h = ''object'' then VDict [([], sample b)]
      else sample h)"

lemma table_complete_all:
  "list_all (\<lambda>operator. list_all (\<lambda>h. list_all (\<lambda>b.
     ever_satisfiable operator (Some h) (Some b) = Inr True \<longrightarrow>
       json_type_of (sample_held operator h b) = Some h \<and> json_type_of (sample b) = Some b \<and>
       binding_compare operator (sample_held operator h b) (sample b))
     JSON_TYPES) JSON_TYPES) [''equals_binding'', ''contains_binding'']"
  by code_simp

lemma table_complete:
  assumes "operator \<in> {''equals_binding'', ''contains_binding''}"
    and "h \<in> set JSON_TYPES" "b \<in> set JSON_TYPES"
    and "ever_satisfiable operator (Some h) (Some b) = Inr True"
  shows "json_type_of (sample_held operator h b) = Some h \<and> json_type_of (sample b) = Some b \<and>
    binding_compare operator (sample_held operator h b) (sample b)"
  using table_complete_all assms by (simp only: list_all_iff list.set)

section \<open>Properties\<close>

text \<open>
  The satisfiability table is exact.  For both binding operators and every pair of
  JSON type names it answers \<^verbatim>\<open>True\<close> exactly when some value of the held type and some value of
  the bound type satisfy the comparison the grader makes; so a pair it refuses is false on every
  trajectory, and no satisfiable pair is refused.
\<close>

theorem ever_satisfiable_exact:
  assumes "operator \<in> {''equals_binding'', ''contains_binding''}"
    and "h \<in> set JSON_TYPES" and "b \<in> set JSON_TYPES"
  shows "ever_satisfiable operator (Some h) (Some b) =
    Inr (\<exists>v w. json_type_of v = Some h \<and> json_type_of w = Some b \<and> binding_compare operator v w)"
proof -
  have "map_of EVER_SATISFIABLE operator \<noteq> None" using assms(1) by (auto simp: EVER_SATISFIABLE_def)
  then have total: "\<exists>r. ever_satisfiable operator (Some h) (Some b) = Inr r"
    by (auto simp: ever_satisfiable_def split: option.splits)
  have sound: "ever_satisfiable operator (Some h) (Some b) = Inr True"
    if "json_type_of v = Some h" "json_type_of w = Some b" "binding_compare operator v w" for v w
    using that assms(1) equals_table_sound [of v w] contains_table_sound [of v w False]
    by (auto simp: binding_compare_def)
  show ?thesis
  proof (cases "ever_satisfiable operator (Some h) (Some b) = Inr True")
    case True
    with table_complete [OF assms] show ?thesis by auto
  next
    case False
    with total have "ever_satisfiable operator (Some h) (Some b) = Inr False" by auto
    with sound False show ?thesis by auto
  qed
qed

theorem ever_satisfiable_exact_witness:
  "ever_satisfiable ''contains_binding'' (Some ''array'') (Some ''object'') = Inr False \<and>
   \<not> (\<exists>v w. json_type_of v = Some ''array'' \<and> json_type_of w = Some ''object'' \<and>
      binding_compare ''contains_binding'' v w)"
proof -
  have e: "ever_satisfiable ''contains_binding'' (Some ''array'') (Some ''object'') = Inr False"
    by (simp add: table_defs)
  show ?thesis
    using ever_satisfiable_exact [of "''contains_binding''" "''array''" "''object''"] e
    by (simp add: JSON_TYPES_def)
qed

end
