(* ===== verification/Date_Keys.thy ===== *)
theory Date_Keys
  imports Json_Values
begin

text \<open>
  \<^verbatim>\<open>date_comparison_key\<close> of \<^verbatim>\<open>tolokaforge/core/grading/predicates.py\<close>: the shape gate, the part
  of \<^verbatim>\<open>datetime.fromisoformat\<close> that is reachable behind it, and the conversion to UTC.  A
  normalized datetime is the number of microseconds since the start of year 1, so comparing two
  datetimes is comparing two integers.  The conversion of a datetime with an offset can leave the
  years 1 to 9999 the type covers; Python raises there, and so does the model.
\<close>

section \<open>The shape gate\<close>

record iso_fields =
  f_year :: nat
  f_month :: nat
  f_day :: nat
  f_hour :: nat
  f_minute :: nat
  f_second :: nat
  f_micro :: nat
  f_offset :: "int option"  \<comment> \<open>minutes east of UTC\<close>

definition is_digit :: "char \<Rightarrow> bool" where
  "is_digit c \<longleftrightarrow> (let n = of_char c :: nat in 48 \<le> n \<and> n \<le> 57)"

definition digits :: "nat \<Rightarrow> pystr \<Rightarrow> (nat \<times> pystr) option" where
  "digits n s = (if length (take n s) = n \<and> list_all is_digit (take n s)
                 then Some (read_nat (take n s), drop n s) else None)"

fun expect :: "char \<Rightarrow> pystr \<Rightarrow> pystr option" where
  "expect c [] = None"
| "expect c (d # s) = (if c = d then Some s else None)"

text \<open>Three numbers of the given widths with a separator between them.\<close>

definition triple :: "nat \<Rightarrow> char \<Rightarrow> pystr \<Rightarrow> (nat \<times> nat \<times> nat \<times> pystr) option" where
  "triple w sep s =
     Option.bind (digits w s) (\<lambda>(a, s1).
     Option.bind (expect sep s1) (\<lambda>s2.
     Option.bind (digits 2 s2) (\<lambda>(b, s3).
     Option.bind (expect sep s3) (\<lambda>s4.
     Option.bind (digits 2 s4) (\<lambda>(c, s5). Some (a, b, c, s5))))))"

text \<open>Fractional seconds: at least one digit; digits past the sixth are dropped.\<close>

definition fraction :: "pystr \<Rightarrow> (nat \<times> pystr) option" where
  "fraction s =
     (case s of
        CHR ''.'' # s1 \<Rightarrow>
          let ds = takeWhile is_digit s1 in
          if ds = [] then None
          else Some (read_nat (take 6 (ds @ ''00000'')), dropWhile is_digit s1)
      | _ \<Rightarrow> Some (0, s))"

definition zone :: "pystr \<Rightarrow> int option option" where
  "zone s =
     (if s = [] then Some None
      else if s = ''Z'' then Some (Some 0)
      else if hd s \<in> {CHR ''+'', CHR ''-''} then
        Option.bind (digits 2 (tl s)) (\<lambda>(h, s1).
        Option.bind (expect CHR '':'' s1) (\<lambda>s2.
        Option.bind (digits 2 s2) (\<lambda>(m, s3).
          if s3 = [] then
            Some (Some ((if hd s = CHR ''-'' then -1 else 1) * int (60 * h + m)))
          else None)))
      else None)"

definition iso_shape :: "pystr \<Rightarrow> iso_fields option" where
  "iso_shape s =
     Option.bind (triple 4 CHR ''-'' s) (\<lambda>(y, mo, d, s1).
       if s1 = [] then Some \<lparr>f_year = y, f_month = mo, f_day = d, f_hour = 0, f_minute = 0,
                            f_second = 0, f_micro = 0, f_offset = None\<rparr>
       else
         Option.bind (expect CHR ''T'' s1) (\<lambda>s2.
         Option.bind (triple 2 CHR '':'' s2) (\<lambda>(h, mi, sec, s3).
         Option.bind (fraction s3) (\<lambda>(us, s4).
         Option.bind (zone s4) (\<lambda>off.
           Some \<lparr>f_year = y, f_month = mo, f_day = d, f_hour = h, f_minute = mi,
                 f_second = sec, f_micro = us, f_offset = off\<rparr>)))))"

section \<open>The calendar\<close>

definition is_leap :: "nat \<Rightarrow> bool" where
  "is_leap y \<longleftrightarrow> y mod 4 = 0 \<and> (y mod 100 \<noteq> 0 \<or> y mod 400 = 0)"

definition days_in_month :: "nat \<Rightarrow> nat \<Rightarrow> nat" where
  "days_in_month y m =
     (if m = 2 then if is_leap y then 29 else 28 else if m \<in> {4, 6, 9, 11} then 30 else 31)"

definition days_before_month :: "nat \<Rightarrow> nat \<Rightarrow> nat" where
  "days_before_month y m = sum_list (map (days_in_month y) [1..<m])"

definition days_before_year :: "nat \<Rightarrow> nat" where
  "days_before_year y = (let p = y - 1 in p * 365 + p div 4 - p div 100 + p div 400)"

text \<open>The fields \<^verbatim>\<open>fromisoformat\<close> accepts; anything else is its \<^verbatim>\<open>ValueError\<close>.\<close>

definition valid_fields :: "iso_fields \<Rightarrow> bool" where
  "valid_fields f \<longleftrightarrow>
     1 \<le> f_year f \<and> f_year f \<le> 9999 \<and> 1 \<le> f_month f \<and> f_month f \<le> 12 \<and>
     1 \<le> f_day f \<and> f_day f \<le> days_in_month (f_year f) (f_month f) \<and>
     f_hour f < 24 \<and> f_minute f < 60 \<and> f_second f < 60 \<and>
     (case f_offset f of None \<Rightarrow> True | Some off \<Rightarrow> \<bar>off\<bar> < 1440)"

definition day_micros :: int where
  "day_micros = 86400000000"

definition local_instant :: "iso_fields \<Rightarrow> int" where
  "local_instant f =
     (int (days_before_year (f_year f) + days_before_month (f_year f) (f_month f) + f_day f) - 1) *
       day_micros +
     ((int (f_hour f) * 60 + int (f_minute f)) * 60 + int (f_second f)) * 1000000 +
     int (f_micro f)"

definition max_instant :: int where
  "max_instant = int (days_before_year 10000) * day_micros"

datatype date_error = DateOverflow

definition date_comparison_key :: "pyval \<Rightarrow> date_error + int option" where
  "date_comparison_key value =
     (case value of
        VStr s \<Rightarrow>
          (case iso_shape s of
             None \<Rightarrow> Inr None
           | Some f \<Rightarrow>
               if \<not> valid_fields f then Inr None
               else (case f_offset f of
                       None \<Rightarrow> Inr (Some (local_instant f))
                     | Some off \<Rightarrow>
                         let utc = local_instant f - off * 60000000 in
                         if 0 \<le> utc \<and> utc < max_instant then Inr (Some utc) else Inl DateOverflow))
      | _ \<Rightarrow> Inr None)"

section \<open>Lemmas\<close>

lemma days_in_month_pos: "28 \<le> days_in_month y m"
  by (simp add: days_in_month_def)

lemma days_before_month_Suc:
  "1 \<le> m \<Longrightarrow> days_before_month y (Suc m) = days_before_month y m + days_in_month y m"
  by (simp add: days_before_month_def upt_Suc)

lemma days_before_month_13: "days_before_month y 13 = (if is_leap y then 366 else 365)"
proof -
  have "[1..<13] = [1, 2, 3, 4, 5, 6, 7, 8, 9, 10, 11, 12::nat]" by code_simp
  then show ?thesis by (simp add: days_before_month_def days_in_month_def)
qed

lemma days_before_month_mono:
  "1 \<le> m \<Longrightarrow> m < n \<Longrightarrow> days_before_month y m + days_in_month y m \<le> days_before_month y n"
proof (induction n)
  case 0
  then show ?case by simp
next
  case (Suc n)
  show ?case
  proof (cases "m = n")
    case True
    then show ?thesis using Suc.prems by (simp add: days_before_month_Suc)
  next
    case False
    then show ?thesis using Suc by (simp add: days_before_month_Suc)
  qed
qed

lemma leap_arith:
  fixes x :: nat
  assumes "h \<le> x + q" "H \<longrightarrow> Q" "F \<longrightarrow> H"
  shows "(x + 365) + (q + (if Q then 1 else 0)) - (h + (if H then 1 else 0)) + (f + (if F then 1 else 0))
    = x + q - h + f + (if Q \<and> (\<not> H \<or> F) then 366 else 365)"
  using assms by (cases Q; cases H; cases F) simp_all

lemma days_before_year_Suc:
  assumes "1 \<le> y"
  shows "days_before_year (Suc y) = days_before_year y + (if is_leap y then 366 else 365)"
proof -
  obtain p where p: "y = Suc p" using assms by (cases y) auto
  have q: "Suc p div k = p div k + (if k dvd Suc p then 1 else 0)" for k
    by (simp add: div_Suc dvd_eq_mod_eq_0)
  have "p div 100 \<le> p div 4" by (rule div_le_mono2) simp_all
  then have le: "p div 100 \<le> p * 365 + p div 4" by simp
  have d: "(100::nat) dvd Suc p \<Longrightarrow> 4 dvd Suc p" "(400::nat) dvd Suc p \<Longrightarrow> 100 dvd Suc p"
    by (auto intro: dvd_trans [of 4 100] dvd_trans [of 100 400])
  have leap: "is_leap (Suc p) \<longleftrightarrow> 4 dvd Suc p \<and> (\<not> 100 dvd Suc p \<or> 400 dvd Suc p)"
    by (simp only: is_leap_def dvd_eq_mod_eq_0)
  have "days_before_year (Suc (Suc p))
      = (p * 365 + 365) + (p div 4 + (if 4 dvd Suc p then 1 else 0))
        - (p div 100 + (if 100 dvd Suc p then 1 else 0)) + (p div 400 + (if 400 dvd Suc p then 1 else 0))"
    unfolding days_before_year_def Let_def diff_Suc_1 q [of 4] q [of 100] q [of 400] by simp
  moreover have "days_before_year (Suc p) = p * 365 + p div 4 - p div 100 + p div 400"
    by (simp only: days_before_year_def Let_def diff_Suc_1)
  moreover have "\<dots> + (if is_leap (Suc p) then 366 else 365) = days_before_year (Suc (Suc p))"
    unfolding leap calculation using d by (intro leap_arith [OF le, symmetric]) auto
  ultimately show ?thesis unfolding p by (simp only:)
qed

lemma days_before_year_mono:
  "1 \<le> y \<Longrightarrow> y < z \<Longrightarrow> days_before_year y + days_before_month y 13 \<le> days_before_year z"
proof (induction z)
  case 0
  then show ?case by simp
next
  case (Suc z)
  show ?case
  proof (cases "y = z")
    case True
    then show ?thesis using Suc.prems by (simp add: days_before_year_Suc days_before_month_13)
  next
    case False
    then show ?thesis using Suc by (simp add: days_before_year_Suc)
  qed
qed

definition day_number :: "iso_fields \<Rightarrow> nat" where
  "day_number f = days_before_year (f_year f) + days_before_month (f_year f) (f_month f) + f_day f"

definition time_micros :: "iso_fields \<Rightarrow> int" where
  "time_micros f = ((int (f_hour f) * 60 + int (f_minute f)) * 60 + int (f_second f)) * 1000000 + int (f_micro f)"

lemma local_instant_split: "local_instant f = (int (day_number f) - 1) * day_micros + time_micros f"
  by (simp add: local_instant_def day_number_def time_micros_def)

lemma time_micros_bounds:
  assumes "valid_fields f" "f_micro f < 1000000"
  shows "0 \<le> time_micros f \<and> time_micros f < day_micros"
  using assms by (simp add: time_micros_def day_micros_def valid_fields_def)

lemma day_number_bounds:
  assumes "valid_fields f"
  shows "day_number f \<le> days_before_year (Suc (f_year f)) \<and> days_before_year (f_year f) < day_number f"
proof -
  have v: "1 \<le> f_year f" "1 \<le> f_month f" "f_month f < 13" "1 \<le> f_day f"
      "f_day f \<le> days_in_month (f_year f) (f_month f)"
    using assms by (auto simp: valid_fields_def)
  have "days_before_month (f_year f) (f_month f) + f_day f \<le> days_before_month (f_year f) 13"
    using days_before_month_mono [OF v(2,3), of "f_year f"] v(5) by linarith
  then show ?thesis
    using days_before_year_mono [OF v(1), of "Suc (f_year f)"] v(4) by (simp add: day_number_def)
qed

lemma day_number_less:
  assumes "valid_fields f" "valid_fields g"
    and "[f_year f, f_month f, f_day f] < [f_year g, f_month g, f_day g]"
  shows "day_number f < day_number g"
proof -
  have v: "1 \<le> f_year f" "1 \<le> f_month f" "f_day f \<le> days_in_month (f_year f) (f_month f)" "1 \<le> f_day g"
    using assms(1,2) by (auto simp: valid_fields_def)
  consider "f_year f < f_year g"
    | "f_year f = f_year g" "f_month f < f_month g"
    | "f_year f = f_year g" "f_month f = f_month g" "f_day f < f_day g"
    using assms(3) by auto
  then show ?thesis
  proof cases
    case 1
    then have "days_before_year (f_year f) + days_before_month (f_year f) 13 \<le> days_before_year (f_year g)"
      using v(1) by (intro days_before_year_mono)
    then have "days_before_year (Suc (f_year f)) \<le> days_before_year (f_year g)"
      using v(1) by (simp add: days_before_year_Suc days_before_month_13)
    then show ?thesis using day_number_bounds [OF assms(1)] day_number_bounds [OF assms(2)] by linarith
  next
    case 2
    then show ?thesis using days_before_month_mono [OF v(2), of "f_month g" "f_year f"] v(3,4)
      by (simp add: day_number_def)
  next
    case 3
    then show ?thesis by (simp add: day_number_def)
  qed
qed

definition date_fields :: "iso_fields \<Rightarrow> nat list" where
  "date_fields f = [f_year f, f_month f, f_day f, f_hour f, f_minute f, f_second f, f_micro f]"

lemma local_instant_less:
  assumes "valid_fields f" "valid_fields g" "f_micro f < 1000000" "f_micro g < 1000000"
    and "date_fields f < date_fields g"
  shows "local_instant f < local_instant g"
proof (cases "[f_year f, f_month f, f_day f] < [f_year g, f_month g, f_day g]")
  case True
  then have "int (day_number f) + 1 \<le> int (day_number g)"
    using day_number_less [OF assms(1,2)] by simp
  then have "int (day_number f) * day_micros + day_micros \<le> int (day_number g) * day_micros"
    using mult_right_mono [of "int (day_number f) + 1" "int (day_number g)" day_micros]
    by (simp add: day_micros_def algebra_simps)
  then show ?thesis
    using time_micros_bounds [OF assms(1,3)] time_micros_bounds [OF assms(2,4)]
    by (simp add: local_instant_split algebra_simps)
next
  case False
  with assms(5) have same: "f_year f = f_year g" "f_month f = f_month g" "f_day f = f_day g"
    and lt: "[f_hour f, f_minute f, f_second f, f_micro f] < [f_hour g, f_minute g, f_second g, f_micro g]"
    by (auto simp: date_fields_def)
  have "f_minute f < 60" "f_second f < 60" "f_minute g < 60" "f_second g < 60"
    using assms(1,2) by (auto simp: valid_fields_def)
  then have "time_micros f < time_micros g"
    using lt assms(3,4) by (auto simp: time_micros_def)
  then show ?thesis using same by (simp add: local_instant_split day_number_def)
qed

lemma local_instant_order:
  assumes "valid_fields f" "valid_fields g" "f_micro f < 1000000" "f_micro g < 1000000"
  shows "local_instant f < local_instant g \<longleftrightarrow> date_fields f < date_fields g"
proof (cases "date_fields f" "date_fields g" rule: linorder_cases)
  case less
  then show ?thesis using local_instant_less assms by simp
next
  case equal
  then have "local_instant f = local_instant g" by (simp add: date_fields_def local_instant_def)
  then show ?thesis using equal by simp
next
  case greater
  then show ?thesis using local_instant_less [of g f] assms by simp
qed

lemma read_nat_snoc: "read_nat (ds @ [c]) = 10 * read_nat ds + (of_char c - 48)"
  by (simp add: read_nat_def)

lemma read_nat_bound: "list_all is_digit ds \<Longrightarrow> read_nat ds < 10 ^ length ds"
proof (induction ds rule: rev_induct)
  case Nil
  then show ?case by (simp add: read_nat_def)
next
  case (snoc c ds)
  then have "is_digit c" by simp
  then have "of_char c - 48 < (10::nat)" unfolding is_digit_def Let_def by linarith
  then show ?case using snoc by (simp add: read_nat_snoc)
qed

lemma fraction_bound:
  assumes "fraction s = Some (us, s')"
  shows "us < 1000000"
proof -
  have "list_all is_digit (take 6 (takeWhile is_digit t @ ''00000''))" for t
    by (auto simp: list_all_iff is_digit_def Let_def dest!: in_set_takeD set_takeWhileD)
  then have "read_nat (take 6 (takeWhile is_digit t @ ''00000'')) < 10 ^ length (take 6 (takeWhile is_digit t @ ''00000''))" for t
    by (rule read_nat_bound)
  moreover have "(10::nat) ^ length (take 6 (takeWhile is_digit t @ ''00000'')) \<le> 10 ^ 6" for t
    by (rule power_increasing) simp_all
  ultimately have b: "read_nat (take 6 (takeWhile is_digit t @ ''00000'')) < 1000000" for t
    by (rule order_less_le_trans [THEN order_less_le_trans]) simp_all
  show ?thesis using assms b
    by (auto simp: fraction_def Let_def split: list.splits char.splits bool.splits if_splits)
qed

lemma iso_shape_micro: "iso_shape s = Some f \<Longrightarrow> f_micro f < 1000000"
  by (auto simp: iso_shape_def bind_eq_Some_conv split: if_splits prod.splits dest: fraction_bound)

lemma local_instant_range:
  assumes "valid_fields f" "f_micro f < 1000000"
  shows "0 \<le> local_instant f \<and> local_instant f < max_instant"
proof -
  have y: "1 \<le> f_year f" "f_year f < 10000" using assms(1) by (auto simp: valid_fields_def)
  have "days_before_year (Suc (f_year f)) \<le> days_before_year 10000"
    using days_before_year_mono [OF y] y(1) by (simp add: days_before_year_Suc days_before_month_13)
  then have hi: "int (day_number f) \<le> int (days_before_year 10000)"
    using day_number_bounds [OF assms(1)] by linarith
  have lo: "1 \<le> int (day_number f)" using day_number_bounds [OF assms(1)] by linarith
  have "(int (day_number f) - 1) * day_micros \<le> (int (days_before_year 10000) - 1) * day_micros"
    using hi by (intro mult_right_mono) (simp_all add: day_micros_def)
  moreover have "0 \<le> (int (day_number f) - 1) * day_micros"
    using lo by (intro mult_nonneg_nonneg) (simp_all add: day_micros_def)
  ultimately show ?thesis using time_micros_bounds [OF assms]
    unfolding local_instant_split max_instant_def left_diff_distrib mult_1
    by (intro conjI; linarith)
qed

lemma overflow_first_or_last_day:
  assumes "valid_fields f" "f_micro f < 1000000" "\<bar>off\<bar> < 1440"
    and "\<not> (0 \<le> local_instant f - off * 60000000 \<and> local_instant f - off * 60000000 < max_instant)"
  shows "day_number f = 1 \<or> day_number f = days_before_year 10000"
proof (rule ccontr)
  assume "\<not> ?thesis"
  moreover have "1 \<le> day_number f" "day_number f \<le> days_before_year 10000"
  proof -
    have y: "1 \<le> f_year f" "f_year f < 10000" using assms(1) by (auto simp: valid_fields_def)
    have "days_before_year (Suc (f_year f)) \<le> days_before_year 10000"
      using days_before_year_mono [OF y] y(1) by (simp add: days_before_year_Suc days_before_month_13)
    then show "1 \<le> day_number f" "day_number f \<le> days_before_year 10000"
      using day_number_bounds [OF assms(1)] by linarith+
  qed
  ultimately have d: "1 \<le> int (day_number f) - 1" "int (day_number f) \<le> int (days_before_year 10000) - 1"
    by linarith+
  have "1 * day_micros \<le> (int (day_number f) - 1) * day_micros"
    using d(1) by (intro mult_right_mono) (simp_all add: day_micros_def)
  moreover have "int (day_number f) * day_micros \<le> (int (days_before_year 10000) - 1) * day_micros"
    using d(2) by (intro mult_right_mono) (simp_all add: day_micros_def)
  moreover have "\<bar>off * 60000000\<bar> < day_micros" using assms(3) by (simp add: day_micros_def)
  ultimately show False using assms(4) time_micros_bounds [OF assms(1,2)]
    unfolding local_instant_split max_instant_def left_diff_distrib mult_1 by linarith
qed

section \<open>Properties\<close>

text \<open>
  Date keys order date strings as a calendar does: two strings the gate and the
  calendar accept, both without an offset, get keys inside the range of the type that compare
  exactly as their fields from the year down to the microsecond.
\<close>

theorem date_keys_order:
  assumes "iso_shape s = Some f" "valid_fields f" "f_offset f = None"
    and "iso_shape t = Some g" "valid_fields g" "f_offset g = None"
  shows "\<exists>a b. date_comparison_key (VStr s) = Inr (Some a) \<and> date_comparison_key (VStr t) = Inr (Some b) \<and>
    0 \<le> a \<and> a < max_instant \<and> (a < b \<longleftrightarrow> date_fields f < date_fields g)"
  using assms local_instant_range [of f] local_instant_order [of f g]
    iso_shape_micro [of s f] iso_shape_micro [of t g]
  by (simp add: date_comparison_key_def)

theorem date_keys_order_witness:
  "\<exists>a b. date_comparison_key (VStr ''2026-02-28'') = Inr (Some a) \<and>
     date_comparison_key (VStr ''2026-03-01T12:00:00'') = Inr (Some b) \<and> a < b"
proof -
  have s: "iso_shape ''2026-02-28'' = Some \<lparr>f_year = 2026, f_month = 2, f_day = 28, f_hour = 0,
      f_minute = 0, f_second = 0, f_micro = 0, f_offset = None\<rparr>" by code_simp
  have t: "iso_shape ''2026-03-01T12:00:00'' = Some \<lparr>f_year = 2026, f_month = 3, f_day = 1, f_hour = 12,
      f_minute = 0, f_second = 0, f_micro = 0, f_offset = None\<rparr>" by code_simp
  have lt: "date_fields \<lparr>f_year = 2026, f_month = 2, f_day = 28, f_hour = 0,
      f_minute = 0, f_second = 0, f_micro = 0, f_offset = None\<rparr> < date_fields \<lparr>f_year = 2026,
      f_month = 3, f_day = 1, f_hour = 12, f_minute = 0, f_second = 0, f_micro = 0, f_offset = None\<rparr>"
    by (simp add: date_fields_def)
  show ?thesis
    using date_keys_order [OF s _ _ t] lt
    unfolding valid_fields_def days_in_month_def by fastforce
qed

text \<open>
  The key raises only at the two edges of the calendar: a string whose conversion to
  UTC leaves the years 1 to 9999 names the first or the last day of that range with an offset, so
  every other string gets a key or is read as not a date.
\<close>

theorem date_key_overflow_edges:
  assumes "date_comparison_key (VStr s) = Inl DateOverflow"
  shows "\<exists>f off. iso_shape s = Some f \<and> f_offset f = Some off \<and> valid_fields f \<and>
    (day_number f = 1 \<or> day_number f = days_before_year 10000)"
proof -
  obtain f off where f: "iso_shape s = Some f" "f_offset f = Some off" "valid_fields f"
    "\<not> (0 \<le> local_instant f - off * 60000000 \<and> local_instant f - off * 60000000 < max_instant)"
    using assms by (auto simp: date_comparison_key_def Let_def split: option.splits if_splits)
  have "\<bar>off\<bar> < 1440" using f(2,3) by (simp add: valid_fields_def)
  then show ?thesis
    using f overflow_first_or_last_day [OF f(3) iso_shape_micro [OF f(1)] _ f(4)] by blast
qed

theorem date_key_overflow_edges_witness:
  "date_comparison_key (VStr ''0001-01-01T00:00:00+01:00'') = Inl DateOverflow \<and>
   (\<exists>f. iso_shape ''0001-01-01T00:00:00+01:00'' = Some f \<and> valid_fields f)"
proof -
  have "date_comparison_key (VStr ''0001-01-01T00:00:00+01:00'') = Inl DateOverflow" by code_simp
  with date_key_overflow_edges [OF this] show ?thesis by blast
qed

end
