(* ===== verification/Value_Predicates.thy ===== *)
theory Value_Predicates
  imports Date_Keys
begin

text \<open>
  One value predicate and its operators: \<^verbatim>\<open>ValuePredicate\<close> of \<^verbatim>\<open>tolokaforge/runner/models.py\<close>
  with its validators, the operator vocabulary of \<^verbatim>\<open>value_predicate_operators.py\<close>, the operators
  of \<^verbatim>\<open>grading/trace_check_operator.py\<close> and the dispatch of \<^verbatim>\<open>grading/argument_predicates.py\<close>.

  The two regex engines (\<^verbatim>\<open>re\<close> and \<^verbatim>\<open>re2\<close>) are a parameter, the record \<open>regex_lib\<close>.  An operator
  is a constructor of \<open>operator\<close> that carries the operand its predicate field holds, so
  \<open>declared_operators\<close> lists the operators a predicate asserts together with their operands.  A
  Python expression that can raise is modelled by two functions: \<open>operator_holds\<close> is its value and
  \<open>operator_raises\<close> says where there is none.
\<close>

section \<open>Regular expressions\<close>

datatype RegexEngineKind = LINEAR | BACKTRACKING

record regex_lib =
  rx_groups :: "RegexEngineKind \<Rightarrow> pystr \<Rightarrow> nat option"  \<comment> \<open>None: the engine refuses the pattern\<close>
  rx_search :: "RegexEngineKind \<Rightarrow> pystr \<Rightarrow> pystr \<Rightarrow> bool"
  rx_first_groups :: "RegexEngineKind \<Rightarrow> pystr \<Rightarrow> pystr \<Rightarrow> pystr option list"

datatype pattern_error = UncompilablePattern RegexEngineKind pystr | NoPatterns

record CompiledPatterns =
  cp_engine :: RegexEngineKind
  cp_compiled :: "pystr list"

definition engine_compile :: "regex_lib \<Rightarrow> RegexEngineKind \<Rightarrow> pystr \<Rightarrow> pattern_error option" where
  "engine_compile lib engine pattern =
     (if rx_groups lib engine pattern = None then Some (UncompilablePattern engine pattern) else None)"

definition compile_patterns ::
    "regex_lib \<Rightarrow> pystr list \<Rightarrow> RegexEngineKind \<Rightarrow> pattern_error + CompiledPatterns" where
  "compile_patterns lib patterns engine =
     (if patterns = [] then Inl NoPatterns
      else case first_error (map (engine_compile lib engine) patterns) of
             Some e \<Rightarrow> Inl e
           | None \<Rightarrow> Inr \<lparr>cp_engine = engine, cp_compiled = patterns\<rparr>)"

definition every_searches :: "regex_lib \<Rightarrow> CompiledPatterns \<Rightarrow> pystr \<Rightarrow> bool" where
  "every_searches lib cp text = list_all (\<lambda>p. rx_search lib (cp_engine cp) p text) (cp_compiled cp)"

definition none_searches :: "regex_lib \<Rightarrow> CompiledPatterns \<Rightarrow> pystr \<Rightarrow> bool" where
  "none_searches lib cp text = (\<not> list_ex (\<lambda>p. rx_search lib (cp_engine cp) p text) (cp_compiled cp))"

section \<open>The predicate\<close>

datatype pattern_operand = OnePattern pystr | PatternList "pystr list"

record ValuePredicate =
  vp_equals :: pyval
  vp_equals_ci :: "pystr option"
  vp_contains :: pyval
  vp_contains_ci :: "pystr option"
  vp_not_contains :: pyval
  vp_not_equals :: pyval
  vp_regex :: "pattern_operand option"
  vp_not_regex :: "pattern_operand option"
  vp_is_null :: "bool option"
  vp_omitted :: "bool option"
  vp_gt :: "pyfloat option"
  vp_gte :: "pyfloat option"
  vp_lt :: "pyfloat option"
  vp_lte :: "pyfloat option"
  vp_date_gt :: "pystr option"
  vp_date_gte :: "pystr option"
  vp_date_lt :: "pystr option"
  vp_date_lte :: "pystr option"
  vp_in :: "pyval list option"
  vp_not_in :: "pyval list option"
  vp_len_gt :: "int option"
  vp_len_gte :: "int option"
  vp_exists :: "bool option"
  vp_equals_binding :: "pystr option"
  vp_contains_binding :: "pystr option"
  vp_regex_engine :: "RegexEngineKind option"

text \<open>A predicate with no field set; it asserts nothing, so the model validator refuses it.\<close>

definition empty_predicate :: ValuePredicate where
  "empty_predicate =
     \<lparr>vp_equals = VNone, vp_equals_ci = None, vp_contains = VNone, vp_contains_ci = None,
      vp_not_contains = VNone, vp_not_equals = VNone, vp_regex = None, vp_not_regex = None,
      vp_is_null = None, vp_omitted = None, vp_gt = None, vp_gte = None, vp_lt = None, vp_lte = None,
      vp_date_gt = None, vp_date_gte = None, vp_date_lt = None, vp_date_lte = None,
      vp_in = None, vp_not_in = None, vp_len_gt = None, vp_len_gte = None, vp_exists = None,
      vp_equals_binding = None, vp_contains_binding = None, vp_regex_engine = None\<rparr>"

datatype operator =
    Op_equals pyval | Op_equals_ci pystr | Op_contains pyval | Op_contains_ci pystr
  | Op_not_contains pyval | Op_not_equals pyval
  | Op_regex "pystr list" | Op_not_regex "pystr list"
  | Op_is_null bool | Op_omitted bool
  | Op_gt pyfloat | Op_gte pyfloat | Op_lt pyfloat | Op_lte pyfloat
  | Op_date_gt pystr | Op_date_gte pystr | Op_date_lt pystr | Op_date_lte pystr
  | Op_in "pyval list" | Op_not_in "pyval list"
  | Op_len_gt int | Op_len_gte int | Op_exists bool
  | Op_equals_binding pystr | Op_contains_binding pystr

definition regex_engine_under :: "ValuePredicate \<Rightarrow> RegexEngineKind \<Rightarrow> RegexEngineKind" where
  "regex_engine_under p section = (case vp_regex_engine p of None \<Rightarrow> section | Some e \<Rightarrow> e)"

fun patterns_of :: "pattern_operand \<Rightarrow> pystr list" where
  "patterns_of (OnePattern s) = [s]"
| "patterns_of (PatternList ss) = ss"

text \<open>An \<^verbatim>\<open>Any\<close> field counts as declared when it is not \<^verbatim>\<open>None\<close>.\<close>

definition declared_any :: "(pyval \<Rightarrow> operator) \<Rightarrow> pyval \<Rightarrow> operator list" where
  "declared_any c v = (if v = VNone then [] else [c v])"

definition declared_opt :: "('a \<Rightarrow> operator) \<Rightarrow> 'a option \<Rightarrow> operator list" where
  "declared_opt c v = (case v of None \<Rightarrow> [] | Some x \<Rightarrow> [c x])"

definition declared_operators :: "ValuePredicate \<Rightarrow> operator list" where
  "declared_operators p =
     declared_any Op_equals (vp_equals p) @
     declared_opt Op_equals_ci (vp_equals_ci p) @
     declared_any Op_contains (vp_contains p) @
     declared_opt Op_contains_ci (vp_contains_ci p) @
     declared_any Op_not_contains (vp_not_contains p) @
     declared_any Op_not_equals (vp_not_equals p) @
     declared_opt (\<lambda>x. Op_regex (patterns_of x)) (vp_regex p) @
     declared_opt (\<lambda>x. Op_not_regex (patterns_of x)) (vp_not_regex p) @
     declared_opt Op_is_null (vp_is_null p) @
     declared_opt Op_omitted (vp_omitted p) @
     declared_opt Op_gt (vp_gt p) @
     declared_opt Op_gte (vp_gte p) @
     declared_opt Op_lt (vp_lt p) @
     declared_opt Op_lte (vp_lte p) @
     declared_opt Op_date_gt (vp_date_gt p) @
     declared_opt Op_date_gte (vp_date_gte p) @
     declared_opt Op_date_lt (vp_date_lt p) @
     declared_opt Op_date_lte (vp_date_lte p) @
     declared_opt Op_in (vp_in p) @
     declared_opt Op_not_in (vp_not_in p) @
     declared_opt Op_len_gt (vp_len_gt p) @
     declared_opt Op_len_gte (vp_len_gte p) @
     declared_opt Op_exists (vp_exists p) @
     declared_opt Op_equals_binding (vp_equals_binding p) @
     declared_opt Op_contains_binding (vp_contains_binding p)"

definition pattern_operands :: "ValuePredicate \<Rightarrow> pystr list list" where
  "pattern_operands p =
     (case vp_not_regex p of None \<Rightarrow> [] | Some x \<Rightarrow> [patterns_of x]) @
     (case vp_regex p of None \<Rightarrow> [] | Some x \<Rightarrow> [patterns_of x])"

text \<open>Each pattern operator compiled, \<^verbatim>\<open>not_regex\<close> before \<^verbatim>\<open>regex\<close> as the sorted names come.\<close>

definition compiled_patterns :: "regex_lib \<Rightarrow> RegexEngineKind \<Rightarrow> ValuePredicate \<Rightarrow> pattern_error option" where
  "compiled_patterns lib section p =
     first_error (map (\<lambda>ps. case compile_patterns lib ps (regex_engine_under p section) of
                              Inl e \<Rightarrow> Some e | Inr _ \<Rightarrow> None) (pattern_operands p))"

definition compile_predicate_patterns ::
    "regex_lib \<Rightarrow> (pystr \<times> ValuePredicate) list \<Rightarrow> RegexEngineKind \<Rightarrow> pattern_error option" where
  "compile_predicate_patterns lib predicates section =
     first_error (map (\<lambda>(field, p). compiled_patterns lib section p) predicates)"

definition referenced_bindings :: "ValuePredicate \<Rightarrow> pystr list" where
  "referenced_bindings p =
     (case vp_equals_binding p of None \<Rightarrow> [] | Some n \<Rightarrow> [n]) @
     (case vp_contains_binding p of None \<Rightarrow> [] | Some n \<Rightarrow> [n])"

subsection \<open>Validators\<close>

datatype predicate_error =
    EmptyPatternList
  | NegativeLength
  | NoOperator
  | EngineOverNoPattern
  | UnparseableDateBound
  | DateBoundOverflow

definition reject_an_empty_pattern_list :: "pattern_operand option \<Rightarrow> predicate_error option" where
  "reject_an_empty_pattern_list patterns =
     (if patterns = Some (PatternList []) then Some EmptyPatternList else None)"

definition length_not_negative :: "int option \<Rightarrow> predicate_error option" where
  "length_not_negative n =
     (case n of None \<Rightarrow> None | Some k \<Rightarrow> if k < 0 then Some NegativeLength else None)"

definition reject_a_predicate_asserting_nothing :: "ValuePredicate \<Rightarrow> predicate_error option" where
  "reject_a_predicate_asserting_nothing p =
     (if declared_operators p = [] then Some NoOperator else None)"

definition reject_an_engine_over_no_pattern :: "ValuePredicate \<Rightarrow> predicate_error option" where
  "reject_an_engine_over_no_pattern p =
     (if vp_regex_engine p = None \<or> pattern_operands p \<noteq> [] then None else Some EngineOverNoPattern)"

definition date_bound_error :: "pystr option \<Rightarrow> predicate_error option" where
  "date_bound_error bound =
     (case bound of
        None \<Rightarrow> None
      | Some literal \<Rightarrow>
          (case date_comparison_key (VStr literal) of
             Inl _ \<Rightarrow> Some DateBoundOverflow
           | Inr None \<Rightarrow> Some UnparseableDateBound
           | Inr (Some _) \<Rightarrow> None))"

definition require_a_date_literal_some_calendar_holds :: "ValuePredicate \<Rightarrow> predicate_error option" where
  "require_a_date_literal_some_calendar_holds p =
     first_error (map date_bound_error [vp_date_gt p, vp_date_gte p, vp_date_lt p, vp_date_lte p])"

definition validate_predicate :: "ValuePredicate \<Rightarrow> predicate_error option" where
  "validate_predicate p =
     first_error
       [reject_an_empty_pattern_list (vp_regex p), reject_an_empty_pattern_list (vp_not_regex p),
        length_not_negative (vp_len_gt p), length_not_negative (vp_len_gte p),
        reject_a_predicate_asserting_nothing p,
        reject_an_engine_over_no_pattern p,
        require_a_date_literal_some_calendar_holds p]"

section \<open>Operators\<close>

type_synonym bindings = "(pystr, pyval) dict"

text \<open>\<^verbatim>\<open>MISSING\<close> is \<open>None\<close>; a JSON null is \<open>Some VNone\<close>.\<close>

type_synonym reading = "pyval option"

definition is_str :: "pyval \<Rightarrow> pystr option" where
  "is_str v = (case v of VStr s \<Rightarrow> Some s | _ \<Rightarrow> None)"

fun as_number :: "pyval \<Rightarrow> pyfloat option" where
  "as_number (VInt i) = Some (of_int i)"
| "as_number (VFloat q) = Some q"
| "as_number _ = None"

definition numeric :: "pyval \<Rightarrow> pyfloat \<Rightarrow> (pyfloat \<Rightarrow> pyfloat \<Rightarrow> bool) \<Rightarrow> bool" where
  "numeric v expected compare = (case as_number v of None \<Rightarrow> False | Some n \<Rightarrow> compare n expected)"

definition date_compare :: "pyval \<Rightarrow> pystr \<Rightarrow> (int \<Rightarrow> int \<Rightarrow> bool) \<Rightarrow> bool" where
  "date_compare v expected compare =
     (case (date_comparison_key v, date_comparison_key (VStr expected)) of
        (Inr (Some key), Inr (Some bound_key)) \<Rightarrow> compare key bound_key
      | _ \<Rightarrow> False)"

definition date_raises :: "pyval \<Rightarrow> pystr \<Rightarrow> bool" where
  "date_raises v expected \<longleftrightarrow>
     \<not> is_ok (date_comparison_key v) \<or> \<not> is_ok (date_comparison_key (VStr expected))"

fun sized :: "pyval \<Rightarrow> int option" where
  "sized (VStr s) = Some (int (length s))"
| "sized (VList xs) = Some (int (length xs))"
| "sized (VDict d) = Some (int (length d))"
| "sized _ = None"

text \<open>The registered callables, on a value that is not \<^verbatim>\<open>None\<close>.\<close>

fun registered_operator ::
    "regex_lib \<Rightarrow> RegexEngineKind \<Rightarrow> operator \<Rightarrow> pyval \<Rightarrow> bindings \<Rightarrow> bool" where
  "registered_operator lib e (Op_equals x) v b = py_eq v x"
| "registered_operator lib e (Op_not_equals x) v b = (\<not> py_eq v x)"
| "registered_operator lib e (Op_equals_ci x) v b =
     (case is_str v of None \<Rightarrow> False | Some s \<Rightarrow> lower_str s = lower_str x)"
| "registered_operator lib e (Op_contains x) v b = contains v x False"
| "registered_operator lib e (Op_contains_ci x) v b = contains v (VStr x) True"
| "registered_operator lib e (Op_not_contains x) v b = (\<not> contains v x False)"
| "registered_operator lib e (Op_regex ps) v b =
     (case is_str v of None \<Rightarrow> False
      | Some s \<Rightarrow> every_searches lib \<lparr>cp_engine = e, cp_compiled = ps\<rparr> s)"
| "registered_operator lib e (Op_not_regex ps) v b =
     (case is_str v of None \<Rightarrow> False
      | Some s \<Rightarrow> none_searches lib \<lparr>cp_engine = e, cp_compiled = ps\<rparr> s)"
| "registered_operator lib e (Op_gt x) v b = numeric v x (\<lambda>m n. n < m)"
| "registered_operator lib e (Op_gte x) v b = numeric v x (\<lambda>m n. n \<le> m)"
| "registered_operator lib e (Op_lt x) v b = numeric v x (\<lambda>m n. m < n)"
| "registered_operator lib e (Op_lte x) v b = numeric v x (\<lambda>m n. m \<le> n)"
| "registered_operator lib e (Op_date_gt x) v b = date_compare v x (\<lambda>m n. n < m)"
| "registered_operator lib e (Op_date_gte x) v b = date_compare v x (\<lambda>m n. n \<le> m)"
| "registered_operator lib e (Op_date_lt x) v b = date_compare v x (\<lambda>m n. m < n)"
| "registered_operator lib e (Op_date_lte x) v b = date_compare v x (\<lambda>m n. m \<le> n)"
| "registered_operator lib e (Op_in xs) v b = list_ex (py_eq v) xs"
| "registered_operator lib e (Op_not_in xs) v b = (\<not> list_ex (py_eq v) xs)"
| "registered_operator lib e (Op_len_gt n) v b = (case sized v of None \<Rightarrow> False | Some k \<Rightarrow> n < k)"
| "registered_operator lib e (Op_len_gte n) v b = (case sized v of None \<Rightarrow> False | Some k \<Rightarrow> n \<le> k)"
| "registered_operator lib e (Op_exists x) v b = ((v \<noteq> VNone) = x)"
| "registered_operator lib e (Op_equals_binding n) v b =
     (case map_of b n of None \<Rightarrow> False | Some w \<Rightarrow> py_eq v w)"
| "registered_operator lib e (Op_contains_binding n) v b =
     (case map_of b n of None \<Rightarrow> False | Some w \<Rightarrow> contains v w False)"
| "registered_operator lib e (Op_is_null x) v b = False"
| "registered_operator lib e (Op_omitted x) v b = False"

fun is_exists :: "operator \<Rightarrow> bool" where
  "is_exists (Op_exists _) = True"
| "is_exists _ = False"

text \<open>The dispatch: the nullness pair first, then the \<^verbatim>\<open>None\<close> gate, then the registry.\<close>

definition operator_holds ::
    "regex_lib \<Rightarrow> RegexEngineKind \<Rightarrow> operator \<Rightarrow> reading \<Rightarrow> bindings \<Rightarrow> bool" where
  "operator_holds lib e op r b =
     (case op of
        Op_is_null x \<Rightarrow> (r = Some VNone) = x
      | Op_omitted x \<Rightarrow> (r = None) = x
      | _ \<Rightarrow>
          (let v = (case r of None \<Rightarrow> VNone | Some w \<Rightarrow> w) in
           if v = VNone \<and> \<not> is_exists op then False else registered_operator lib e op v b))"

fun op_raises_on :: "operator \<Rightarrow> pyval \<Rightarrow> bindings \<Rightarrow> bool" where
  "op_raises_on (Op_date_gt x) v b = date_raises v x"
| "op_raises_on (Op_date_gte x) v b = date_raises v x"
| "op_raises_on (Op_date_lt x) v b = date_raises v x"
| "op_raises_on (Op_date_lte x) v b = date_raises v x"
| "op_raises_on (Op_equals_binding n) v b = (map_of b n = None)"
| "op_raises_on (Op_contains_binding n) v b = (map_of b n = None)"
| "op_raises_on _ v b = False"

definition operator_raises :: "operator \<Rightarrow> reading \<Rightarrow> bindings \<Rightarrow> bool" where
  "operator_raises op r b \<longleftrightarrow> (case r of None \<Rightarrow> False | Some VNone \<Rightarrow> False | Some v \<Rightarrow> op_raises_on op v b)"

definition predicate_holds ::
    "regex_lib \<Rightarrow> RegexEngineKind \<Rightarrow> ValuePredicate \<Rightarrow> reading \<Rightarrow> bindings \<Rightarrow> bool" where
  "predicate_holds lib section p r b =
     list_all (\<lambda>op. operator_holds lib (regex_engine_under p section) op r b) (declared_operators p)"

section \<open>Argument paths\<close>

text \<open>\<^verbatim>\<open>path.split(".")\<close>.\<close>

fun split_dots :: "pystr \<Rightarrow> pystr list" where
  "split_dots [] = [[]]"
| "split_dots (c # s) =
     (if c = CHR ''.'' then [] # split_dots s
      else (case split_dots s of [] \<Rightarrow> [[c]] | seg # segs \<Rightarrow> (c # seg) # segs))"

fun walk_segments :: "pyval \<Rightarrow> pystr list \<Rightarrow> reading" where
  "walk_segments v [] = Some v"
| "walk_segments v (seg # segs) =
     (case v of
        VDict d \<Rightarrow> (case map_of d seg of None \<Rightarrow> None | Some w \<Rightarrow> walk_segments w segs)
      | _ \<Rightarrow> None)"

definition argument_at :: "pyval \<Rightarrow> pystr \<Rightarrow> reading" where
  "argument_at arguments path = walk_segments arguments (split_dots path)"

section \<open>Lemmas\<close>

lemma mem_declared_any [simp]: "op \<in> set (declared_any c v) \<longleftrightarrow> v \<noteq> VNone \<and> op = c v"
  by (auto simp: declared_any_def)

lemma mem_declared_opt [simp]: "op \<in> set (declared_opt c v) \<longleftrightarrow> (\<exists>x. v = Some x \<and> op = c x)"
  by (auto simp: declared_opt_def split: option.splits)

lemma date_bound_error_None:
  "date_bound_error bound = None \<longleftrightarrow>
     (\<forall>x. bound = Some x \<longrightarrow> (\<exists>k. date_comparison_key (VStr x) = Inr (Some k)))"
  by (auto simp: date_bound_error_def split: option.splits sum.splits)

lemma validated_date_bounds:
  assumes "validate_predicate p = None" "op \<in> set (declared_operators p)"
    and "op \<in> {Op_date_gt x, Op_date_gte x, Op_date_lt x, Op_date_lte x}"
  shows "is_ok (date_comparison_key (VStr x))"
proof -
  have "\<forall>bound \<in> {vp_date_gt p, vp_date_gte p, vp_date_lt p, vp_date_lte p}. date_bound_error bound = None"
    using assms(1)
    by (simp add: validate_predicate_def first_error_None_iff require_a_date_literal_some_calendar_holds_def)
  then have "vp_date_gt p = Some x \<or> vp_date_gte p = Some x \<or> vp_date_lt p = Some x \<or> vp_date_lte p = Some x \<Longrightarrow>
      \<exists>k. date_comparison_key (VStr x) = Inr (Some k)"
    by (auto simp: date_bound_error_None)
  moreover have "vp_date_gt p = Some x \<or> vp_date_gte p = Some x \<or> vp_date_lt p = Some x \<or> vp_date_lte p = Some x"
    using assms(2,3) by (auto simp: declared_operators_def)
  ultimately show ?thesis by auto
qed

lemma declared_bindings:
  assumes "op \<in> set (declared_operators p)" "op = Op_equals_binding n \<or> op = Op_contains_binding n"
  shows "n \<in> set (referenced_bindings p)"
  using assms by (auto simp: declared_operators_def referenced_bindings_def)

lemma split_dots_nonempty [simp]: "split_dots s \<noteq> []"
  by (cases s) (auto split: list.splits)

fun join_dots :: "pystr list \<Rightarrow> pystr" where
  "join_dots [] = []"
| "join_dots [seg] = seg"
| "join_dots (seg # segs) = seg @ ''.'' @ join_dots segs"

fun nest :: "pystr list \<Rightarrow> pyval \<Rightarrow> pyval" where
  "nest [] v = v"
| "nest (seg # segs) v = VDict [(seg, nest segs v)]"

lemma split_dots_plain: "CHR ''.'' \<notin> set s \<Longrightarrow> split_dots s = [s]"
  by (induction s) auto

lemma split_dots_append:
  "CHR ''.'' \<notin> set s \<Longrightarrow> split_dots (s @ CHR ''.'' # t) = s # split_dots t"
  by (induction s) auto

lemma split_join_dots:
  "segs \<noteq> [] \<Longrightarrow> \<forall>s \<in> set segs. CHR ''.'' \<notin> set s \<Longrightarrow> split_dots (join_dots segs) = segs"
  by (induction segs rule: join_dots.induct) (auto simp: split_dots_plain split_dots_append)

lemma walk_nest: "walk_segments (nest segs v) segs = Some v"
  by (induction segs) auto

section \<open>Properties\<close>

text \<open>
  A value the trial does not have satisfies nothing by accident.  On an absent
  argument or a JSON null the only operators that hold are \<^verbatim>\<open>exists: false\<close> and the nullness probe
  that names exactly that state, whatever the regex engines answer.
\<close>

theorem absent_value_satisfies_only_nullness:
  assumes "r = None \<or> r = Some VNone"
  shows "operator_holds lib e op r b \<longleftrightarrow>
    op \<in> {Op_exists False, Op_is_null (r = Some VNone), Op_omitted (r = None)}"
  using assms by (cases op) (auto simp: operator_holds_def)

theorem absent_value_satisfies_only_nullness_witness:
  "\<not> operator_holds \<lparr>rx_groups = \<lambda>_ _. Some 0, rx_search = \<lambda>_ _ _. True, rx_first_groups = \<lambda>_ _ _. []\<rparr>
      LINEAR (Op_not_equals (VInt 3)) None [] \<and>
   operator_holds \<lparr>rx_groups = \<lambda>_ _. Some 0, rx_search = \<lambda>_ _ _. True, rx_first_groups = \<lambda>_ _ _. []\<rparr>
      LINEAR (Op_is_null True) (Some VNone) []"
  using absent_value_satisfies_only_nullness [of None _ LINEAR "Op_not_equals (VInt 3)" "[]"]
    absent_value_satisfies_only_nullness [of "Some VNone" _ LINEAR "Op_is_null True" "[]"]
  by simp

text \<open>
  What the load-time validators buy at grading time: an operator of a validated
  predicate, read under an environment that binds every name the predicate references, raises only
  on a value whose date key itself overflows.
\<close>

theorem validated_predicate_raises_only_on_date_overflow:
  assumes "validate_predicate p = None" and "op \<in> set (declared_operators p)"
    and "\<forall>n \<in> set (referenced_bindings p). map_of b n \<noteq> None"
    and "operator_raises op r b"
  shows "\<exists>v. r = Some v \<and> date_comparison_key v = Inl DateOverflow"
proof -
  obtain v where v: "r = Some v" "op_raises_on op v b"
    using assms(4) by (auto simp: operator_raises_def split: option.splits pyval.splits)
  have no_binding: "map_of b n \<noteq> None" if "op = Op_equals_binding n \<or> op = Op_contains_binding n" for n
    using declared_bindings [OF assms(2) that] assms(3) by blast
  then obtain x where x: "op \<in> {Op_date_gt x, Op_date_gte x, Op_date_lt x, Op_date_lte x}" "date_raises v x"
    using v(2) by (cases op) auto
  then have "\<not> is_ok (date_comparison_key v)"
    using validated_date_bounds [OF assms(1,2) x(1)] by (simp add: date_raises_def)
  then have "date_comparison_key v = Inl DateOverflow"
    by (cases "date_comparison_key v") (auto intro: date_error.exhaust)
  with v(1) show ?thesis by blast
qed

theorem validated_predicate_raises_only_on_date_overflow_witness:
  "validate_predicate (empty_predicate\<lparr>vp_date_lt := Some ''0001-01-02''\<rparr>) = None \<and>
   operator_raises (Op_date_lt ''0001-01-02'') (Some (VStr ''0001-01-01T00:00:00+01:00'')) [] \<and>
   (\<exists>v. Some (VStr ''0001-01-01T00:00:00+01:00'') = Some v \<and> date_comparison_key v = Inl DateOverflow)"
proof -
  have v: "validate_predicate (empty_predicate\<lparr>vp_date_lt := Some ''0001-01-02''\<rparr>) = None" by code_simp
  have d: "Op_date_lt ''0001-01-02'' \<in> set (declared_operators (empty_predicate\<lparr>vp_date_lt := Some ''0001-01-02''\<rparr>))"
    by (simp add: declared_operators_def)
  have b: "\<forall>n \<in> set (referenced_bindings (empty_predicate\<lparr>vp_date_lt := Some ''0001-01-02''\<rparr>)). map_of ([] :: bindings) n \<noteq> None"
    by (simp add: referenced_bindings_def empty_predicate_def)
  have r: "operator_raises (Op_date_lt ''0001-01-02'') (Some (VStr ''0001-01-01T00:00:00+01:00'')) []"
    by code_simp
  show ?thesis using validated_predicate_raises_only_on_date_overflow [OF v d b r] v r by blast
qed

text \<open>
  A dotted path reads back what was stored under it: the value nested below the
  segments is found by the path that joins them.
\<close>

theorem argument_at_nested:
  assumes "segs \<noteq> []" and "\<forall>s \<in> set segs. CHR ''.'' \<notin> set s"
  shows "argument_at (nest segs v) (join_dots segs) = Some v"
  using split_join_dots [OF assms] by (simp add: argument_at_def walk_nest)

theorem argument_at_nested_witness:
  "argument_at (VDict [(''body'', VDict [(''query'', VInt 7)])]) ''body.query'' = Some (VInt 7)"
  using argument_at_nested [of "[''body'', ''query'']" "VInt 7"] by simp

end
