(* ===== verification/Transcript.thy ===== *)
theory Transcript
  imports Value_Predicates
begin

text \<open>
  Messages, tool calls and tool-call records, and what each side of the dialogue reads of a
  transcript: \<^verbatim>\<open>tolokaforge/core/actors/tool_steps.py\<close> (where the user simulator's tool steps sit)
  and \<^verbatim>\<open>tolokaforge/core/actors/tool_turns.py\<close> (the agent's, the simulator's and the shared view).
  Of a message's fields the ones no modelled function reads (content blocks, the provider's
  generation id, time stamp) are left out of the record; its reasoning is kept as an opaque value,
  of which the agent loop reads only whether it is there.
\<close>

section \<open>Messages\<close>

datatype MessageRole = Role_SYSTEM | Role_USER | Role_ASSISTANT | Role_TOOL

datatype ToolExecutionStatus =
    SUCCESS | ENVIRONMENT_ERROR | TOOL_ERROR | ERROR | TIMEOUT | TOOL_NOT_FOUND | INVALID_ARGUMENTS

datatype ToolExecutorIdentity = Executor_AGENT | Executor_USER

fun status_value :: "ToolExecutionStatus \<Rightarrow> pystr" where
  "status_value SUCCESS = ''success''"
| "status_value ENVIRONMENT_ERROR = ''environment_error''"
| "status_value TOOL_ERROR = ''tool_error''"
| "status_value ERROR = ''error''"
| "status_value TIMEOUT = ''timeout''"
| "status_value TOOL_NOT_FOUND = ''tool_not_found''"
| "status_value INVALID_ARGUMENTS = ''invalid_arguments''"

definition all_statuses :: "ToolExecutionStatus list" where
  "all_statuses = [SUCCESS, ENVIRONMENT_ERROR, TOOL_ERROR, ERROR, TIMEOUT, TOOL_NOT_FOUND, INVALID_ARGUMENTS]"

definition ENVIRONMENT_ERROR_STATUSES :: "ToolExecutionStatus list" where
  "ENVIRONMENT_ERROR_STATUSES = [ENVIRONMENT_ERROR, TOOL_ERROR]"

fun executor_value :: "ToolExecutorIdentity \<Rightarrow> pystr" where
  "executor_value Executor_AGENT = ''agent''"
| "executor_value Executor_USER = ''user''"

record ToolCall =
  tc_id :: pystr
  tc_name :: pystr
  tc_arguments :: "(pystr, pyval) dict"

record Message =
  m_role :: MessageRole
  m_content :: pystr
  m_tool_calls :: "ToolCall list option"
  m_tool_call_id :: "pystr option"
  m_tool_status :: "ToolExecutionStatus option"
  m_reasoning :: "pyval option"

record RecordedToolCall =
  rc_call_id :: pystr
  rc_sequence :: int
  rc_tool_name :: pystr
  rc_arguments :: "(pystr, pyval) dict"
  rc_executor :: ToolExecutorIdentity
  rc_status :: ToolExecutionStatus
  rc_output :: pystr
  rc_latency_seconds :: pyfloat

text \<open>\<^verbatim>\<open>message.tool_calls or []\<close>.\<close>

definition calls_of :: "Message \<Rightarrow> ToolCall list" where
  "calls_of m = (case m_tool_calls m of None \<Rightarrow> [] | Some cs \<Rightarrow> cs)"

section \<open>Tool steps\<close>

record TurnShape =
  ts_role :: pystr
  ts_call_ids :: "pystr list"
  ts_answers :: "pystr option"

text \<open>The end of the run of tool messages that starts at \<open>end\<close>: the \<^verbatim>\<open>while\<close> loop of \<^verbatim>\<open>_tool_run_after\<close>.\<close>

function tool_run_end :: "TurnShape list \<Rightarrow> nat \<Rightarrow> nat" where
  "tool_run_end shapes end =
     (if end < length shapes \<and> ts_role (shapes ! end) = ''tool''
      then tool_run_end shapes (end + 1) else end)"
  by pat_completeness auto
termination by (relation "measure (\<lambda>(shapes, end). length shapes - end)") auto

declare tool_run_end.simps [simp del]

definition tool_run_after :: "TurnShape list \<Rightarrow> nat \<Rightarrow> nat list" where
  "tool_run_after shapes index = [index + 1 ..< tool_run_end shapes (index + 1)]"

definition answering :: "TurnShape list \<Rightarrow> nat \<Rightarrow> nat list" where
  "answering shapes index =
     filter (\<lambda>p. ts_answers (shapes ! p) \<in> Some ` set (ts_call_ids (shapes ! index)))
       (tool_run_after shapes index)"

definition is_step_at :: "TurnShape list \<Rightarrow> nat \<Rightarrow> bool" where
  "is_step_at shapes index \<longleftrightarrow>
     ts_role (shapes ! index) = ''user'' \<and> ts_call_ids (shapes ! index) \<noteq> [] \<and>
     Some ` set (ts_call_ids (shapes ! index)) \<subseteq> (\<lambda>p. ts_answers (shapes ! p)) ` set (answering shapes index)"

definition user_tool_step_positions :: "TurnShape list \<Rightarrow> nat list" where
  "user_tool_step_positions shapes =
     concat (map (\<lambda>index. if is_step_at shapes index then index # answering shapes index else [])
       [0 ..< length shapes])"

fun role_value :: "MessageRole \<Rightarrow> pystr" where
  "role_value Role_SYSTEM = ''system''"
| "role_value Role_USER = ''user''"
| "role_value Role_ASSISTANT = ''assistant''"
| "role_value Role_TOOL = ''tool''"

definition shape_of :: "Message \<Rightarrow> TurnShape" where
  "shape_of m = \<lparr>ts_role = role_value (m_role m), ts_call_ids = map tc_id (calls_of m),
                 ts_answers = m_tool_call_id m\<rparr>"

definition step_positions :: "Message list \<Rightarrow> nat list" where
  "step_positions messages = user_tool_step_positions (map shape_of messages)"

definition user_tool_step_call_ids :: "Message list \<Rightarrow> pystr list" where
  "user_tool_step_call_ids messages =
     concat (map (\<lambda>i. if m_role (messages ! i) = Role_USER then map tc_id (calls_of (messages ! i)) else [])
       (step_positions messages))"

definition is_user_tool_step :: "Message \<Rightarrow> pystr list \<Rightarrow> bool" where
  "is_user_tool_step m step_call_ids \<longleftrightarrow>
     m_role m = Role_USER \<and> list_ex (\<lambda>c. tc_id c \<in> set step_call_ids) (calls_of m)"

section \<open>Views\<close>

definition agent_view :: "Message list \<Rightarrow> Message list" where
  "agent_view messages =
     map snd (filter (\<lambda>(i, m). i \<notin> set (step_positions messages)) (enumerate 0 messages))"

fun flipped :: "MessageRole \<Rightarrow> MessageRole option" where
  "flipped Role_USER = Some Role_ASSISTANT"
| "flipped Role_ASSISTANT = Some Role_USER"
| "flipped _ = None"

text \<open>Whether \<^verbatim>\<open>content.strip()\<close> is empty.\<close>

definition is_space :: "char \<Rightarrow> bool" where
  "is_space c \<longleftrightarrow> (let n = of_char c :: nat in (9 \<le> n \<and> n \<le> 13) \<or> (28 \<le> n \<and> n \<le> 32) \<or> n = 133 \<or> n = 160)"

definition blank :: "pystr \<Rightarrow> bool" where
  "blank s = list_all is_space s"

definition text_message :: "MessageRole \<Rightarrow> pystr \<Rightarrow> Message" where
  "text_message role content =
     \<lparr>m_role = role, m_content = content, m_tool_calls = None, m_tool_call_id = None, m_tool_status = None,
      m_reasoning = None\<rparr>"

definition two_newlines :: pystr where
  "two_newlines = [CHR 0x0A, CHR 0x0A]"

definition as_the_simulator_reads_it :: "Message \<Rightarrow> bool \<Rightarrow> Message option" where
  "as_the_simulator_reads_it m in_step =
     (if in_step \<and> m_role m = Role_USER then
        Some \<lparr>m_role = Role_ASSISTANT, m_content = m_content m, m_tool_calls = m_tool_calls m,
              m_tool_call_id = None, m_tool_status = None, m_reasoning = m_reasoning m\<rparr>
      else if in_step then
        Some \<lparr>m_role = Role_TOOL, m_content = m_content m, m_tool_calls = None,
              m_tool_call_id = m_tool_call_id m, m_tool_status = None, m_reasoning = None\<rparr>
      else if m_role m = Role_ASSISTANT \<and> calls_of m \<noteq> [] then None
      else (case flipped (m_role m) of
              None \<Rightarrow> None
            | Some role \<Rightarrow> if blank (m_content m) then None else Some (text_message role (m_content m))))"

definition joins :: "Message list \<Rightarrow> Message \<Rightarrow> bool" where
  "joins view m \<longleftrightarrow>
     view \<noteq> [] \<and> m_role m \<noteq> Role_TOOL \<and> calls_of m = [] \<and>
     m_role (last view) = m_role m \<and> calls_of (last view) = []"

definition append_joining_text :: "Message list \<Rightarrow> Message \<Rightarrow> Message list" where
  "append_joining_text view m =
     (if \<not> joins view m then view @ [m]
      else butlast view @ [text_message (m_role m) (m_content (last view) @ two_newlines @ m_content m)])"

definition simulator_step :: "nat list \<Rightarrow> nat \<times> Message \<Rightarrow> Message list \<Rightarrow> Message list" where
  "simulator_step positions im view =
     (case as_the_simulator_reads_it (snd im) (fst im \<in> set positions) of
        None \<Rightarrow> view
      | Some replayed \<Rightarrow> append_joining_text view replayed)"

definition simulator_view :: "Message list \<Rightarrow> Message list" where
  "simulator_view messages =
     fold (simulator_step (step_positions messages)) (enumerate 0 messages) []"

definition shared_step :: "Message \<Rightarrow> Message list \<Rightarrow> Message list" where
  "shared_step m view =
     (if blank (m_content m) then view
      else case flipped (m_role m) of
             None \<Rightarrow> view
           | Some role \<Rightarrow>
               if view \<noteq> [] \<and> m_role (last view) = role
               then butlast view @ [text_message role (m_content (last view) @ two_newlines @ m_content m)]
               else view @ [text_message role (m_content m)])"

definition shared_view :: "Message list \<Rightarrow> Message list" where
  "shared_view messages = fold shared_step messages []"

section \<open>Lemmas\<close>

lemma tool_run_end_props:
  "end \<le> length shapes \<Longrightarrow>
     end \<le> tool_run_end shapes end \<and> tool_run_end shapes end \<le> length shapes \<and>
     (\<forall>p. end \<le> p \<longrightarrow> p < tool_run_end shapes end \<longrightarrow> ts_role (shapes ! p) = ''tool'')"
proof (induction shapes "end" rule: tool_run_end.induct)
  case (1 shapes "end")
  show ?case
  proof (cases "end < length shapes \<and> ts_role (shapes ! end) = ''tool''")
    case True
    then have "tool_run_end shapes end = tool_run_end shapes (end + 1)"
      by (subst tool_run_end.simps) simp
    moreover have "ts_role (shapes ! p) = ''tool''"
      if "end \<le> p" "p < tool_run_end shapes (end + 1)" for p
      using that True "1.IH" by (cases "p = end") auto
    ultimately show ?thesis using "1.IH" True by auto
  next
    case False
    then have "tool_run_end shapes end = end" by (subst tool_run_end.simps) auto
    then show ?thesis using "1.prems" by simp
  qed
qed

lemma answering_props:
  assumes "index < length shapes" "p \<in> set (answering shapes index)"
  shows "index < p \<and> p < length shapes \<and> ts_role (shapes ! p) = ''tool''"
  using assms tool_run_end_props [of "index + 1" shapes]
  by (auto simp: answering_def tool_run_after_def)

text \<open>No two neighbours related by \<open>R\<close>.\<close>

definition no_adjacent :: "('a \<Rightarrow> 'a \<Rightarrow> bool) \<Rightarrow> 'a list \<Rightarrow> bool" where
  "no_adjacent R xs \<longleftrightarrow> (\<forall>i. Suc i < length xs \<longrightarrow> \<not> R (xs ! i) (xs ! Suc i))"

lemma no_adjacent_snoc:
  "no_adjacent R (xs @ [x]) \<longleftrightarrow> no_adjacent R xs \<and> (xs \<noteq> [] \<longrightarrow> \<not> R (last xs) x)"
  unfolding no_adjacent_def
  by (auto simp: nth_append last_conv_nth less_Suc_eq) (metis One_nat_def diff_Suc_1)

lemma no_adjacent_butlast: "no_adjacent R xs \<Longrightarrow> no_adjacent R (butlast xs)"
  by (auto simp: no_adjacent_def nth_butlast)

lemma no_adjacent_last:
  "no_adjacent R xs \<Longrightarrow> xs \<noteq> [] \<Longrightarrow> butlast xs \<noteq> [] \<Longrightarrow> \<not> R (last (butlast xs)) (last xs)"
  using no_adjacent_snoc [of R "butlast xs" "last xs"] by simp

lemma no_adjacent_replace_last:
  assumes "no_adjacent R xs" "xs \<noteq> []" "\<And>y. R y x \<Longrightarrow> R y (last xs)"
  shows "no_adjacent R (butlast xs @ [x])"
  using assms no_adjacent_butlast [OF assms(1)] no_adjacent_last [OF assms(1,2)]
  by (auto simp: no_adjacent_snoc)

lemma text_message_simps [simp]:
  "m_role (text_message r c) = r" "m_content (text_message r c) = c" "calls_of (text_message r c) = []"
  by (simp_all add: text_message_def calls_of_def)

definition same_role :: "Message \<Rightarrow> Message \<Rightarrow> bool" where
  "same_role a b \<longleftrightarrow> m_role a = m_role b"

definition same_text_turn :: "Message \<Rightarrow> Message \<Rightarrow> bool" where
  "same_text_turn a b \<longleftrightarrow> m_role a = m_role b \<and> m_role b \<noteq> Role_TOOL \<and> calls_of a = [] \<and> calls_of b = []"

lemma shared_step_alternates:
  assumes "no_adjacent same_role view"
  shows "no_adjacent same_role (shared_step m view)"
  unfolding shared_step_def
  using assms no_adjacent_butlast [OF assms] no_adjacent_last [OF assms]
  by (auto simp: no_adjacent_snoc same_role_def split: option.splits)

lemma append_joining_text_joined:
  assumes "no_adjacent same_text_turn view"
  shows "no_adjacent same_text_turn (append_joining_text view m)"
proof (cases "joins view m")
  case True
  then have "no_adjacent same_text_turn
      (butlast view @ [text_message (m_role m) (m_content (last view) @ two_newlines @ m_content m)])"
    using assms by (intro no_adjacent_replace_last) (auto simp: joins_def same_text_turn_def)
  then show ?thesis using True by (simp add: append_joining_text_def)
next
  case False
  then show ?thesis using assms
    by (auto simp: append_joining_text_def no_adjacent_snoc joins_def same_text_turn_def)
qed

lemma fold_keeps: "P s \<Longrightarrow> (\<And>x s. P s \<Longrightarrow> P (f x s)) \<Longrightarrow> P (fold f xs s)"
  by (induction xs arbitrary: s) auto

lemma step_position_message:
  assumes "p \<in> set (step_positions ms)"
  shows "p < length ms \<and> (m_role (ms ! p) = Role_TOOL \<or> m_role (ms ! p) = Role_USER \<and> calls_of (ms ! p) \<noteq> [])"
proof -
  obtain i where i: "i < length ms" "is_step_at (map shape_of ms) i"
      "p = i \<or> p \<in> set (answering (map shape_of ms) i)"
    using assms by (auto simp: step_positions_def user_tool_step_positions_def split: if_splits)
  have role: "role_value (m_role m) = ''user'' \<longleftrightarrow> m_role m = Role_USER"
    "role_value (m_role m) = ''tool'' \<longleftrightarrow> m_role m = Role_TOOL" for m :: Message
    by (cases "m_role m"; simp)+
  from i(3) show ?thesis
  proof
    assume "p = i"
    then show ?thesis using i(1,2) by (simp add: is_step_at_def shape_of_def role)
  next
    assume "p \<in> set (answering (map shape_of ms) i)"
    then show ?thesis using answering_props [of i "map shape_of ms" p] i(1) by (auto simp: shape_of_def role)
  qed
qed

section \<open>Properties\<close>

text \<open>
  The views alternate.  Under shared tool turns the simulator's request never holds
  two neighbouring turns of one party; under isolated ones two neighbouring turns of one party are
  never both plain text, so only a tool step can follow its own party's turn.
\<close>

theorem simulator_views_alternate:
  "no_adjacent same_role (shared_view messages) \<and> no_adjacent same_text_turn (simulator_view messages)"
proof
  have "no_adjacent same_role []" by (simp add: no_adjacent_def)
  then show "no_adjacent same_role (shared_view messages)"
    unfolding shared_view_def by (rule fold_keeps) (rule shared_step_alternates)
  have "no_adjacent same_text_turn []" by (simp add: no_adjacent_def)
  then show "no_adjacent same_text_turn (simulator_view messages)"
    unfolding simulator_view_def
    by (rule fold_keeps) (auto simp: simulator_step_def split: option.splits intro: append_joining_text_joined)
qed

text \<open>
  The agent's view drops tool traffic of the user and nothing else: every message
  that is neither a tool result nor a user message with calls is still there, in the same order,
  and a transcript without tool steps is unchanged.
\<close>

theorem agent_view_keeps_the_dialogue:
  "filter (\<lambda>m. \<not> (m_role m = Role_TOOL \<or> m_role m = Role_USER \<and> calls_of m \<noteq> [])) (agent_view messages)
   = filter (\<lambda>m. \<not> (m_role m = Role_TOOL \<or> m_role m = Role_USER \<and> calls_of m \<noteq> [])) messages"
  (is "filter ?P _ = _")
proof -
  have keep: "i \<notin> set (step_positions messages)" if "(i, m) \<in> set (enumerate 0 messages)" "?P m" for i m
    using that step_position_message [of i messages] by (auto simp: in_set_enumerate_eq)
  have "filter ?P (agent_view messages)
      = map snd (filter (\<lambda>(i, m). ?P m) (filter (\<lambda>(i, m). i \<notin> set (step_positions messages)) (enumerate 0 messages)))"
    by (simp add: agent_view_def filter_map comp_def case_prod_beta)
  also have "\<dots> = map snd (filter (\<lambda>(i, m). ?P m) (enumerate 0 messages))"
    unfolding filter_filter by (rule arg_cong [where f = "map snd"], rule filter_cong) (auto dest: keep)
  also have "\<dots> = filter ?P (map snd (enumerate 0 messages))"
    unfolding filter_map by (rule arg_cong [where f = "map snd"], rule filter_cong) auto
  finally show ?thesis by simp
qed

end
