(* ===== verification/Tool_Call_Ids.thy ===== *)
theory Tool_Call_Ids
  imports Forge_Prelude
begin

text \<open>
  The episode-unique tool-call ids of \<^verbatim>\<open>tolokaforge/core/tool_call_ids.py\<close>, the join key
  between a call and its result.  \<open>assign\<close> is \<^verbatim>\<open>EpisodeUniqueCallIds.assign\<close> with the
  object's two fields as the state; its \<^verbatim>\<open>while True\<close> loop is \<open>assign_loop\<close>, whose termination
  proof says that some occurrence number is always free.
\<close>

section \<open>The assigner\<close>

record call_ids =
  occurrences :: "pystr \<rightharpoonup> nat"
  assigned :: "pystr list"

definition fresh_call_ids :: call_ids where
  "fresh_call_ids = \<lparr>occurrences = Map.empty, assigned = []\<rparr>"

definition call_key :: "pystr \<Rightarrow> nat \<Rightarrow> pystr" where
  "call_key raw_id occurrence =
     (if occurrence = 1 then raw_id else raw_id @ ''#'' @ str_nat occurrence)"

lemma call_key_inject [simp]: "call_key x m = call_key x n \<longleftrightarrow> m = n"
  by (auto simp: call_key_def)

function assign_loop :: "pystr list \<Rightarrow> pystr \<Rightarrow> nat \<Rightarrow> nat" where
  "assign_loop taken raw_id occurrence =
     (if call_key raw_id (Suc occurrence) \<in> set taken
      then assign_loop taken raw_id (Suc occurrence) else Suc occurrence)"
  by pat_completeness auto
termination
proof (relation "measure (\<lambda>(taken, raw_id, occurrence).
    card {k. occurrence < k \<and> call_key raw_id k \<in> set taken})", simp, clarsimp)
  fix taken :: "pystr list" and raw_id :: pystr and occurrence :: nat
  assume taken: "call_key raw_id (Suc occurrence) \<in> set taken"
  have "inj (call_key raw_id)" by (rule injI) simp
  then have "finite (call_key raw_id -` set taken)" by (rule finite_vimageI [OF finite_set])
  then have fin: "finite {k. occurrence < k \<and> call_key raw_id k \<in> set taken}"
    by (rule rev_finite_subset) auto
  have "{k. Suc occurrence < k \<and> call_key raw_id k \<in> set taken}
      \<subset> {k. occurrence < k \<and> call_key raw_id k \<in> set taken}"
    using taken by auto
  with fin show "card {k. Suc occurrence < k \<and> call_key raw_id k \<in> set taken}
      < card {k. occurrence < k \<and> call_key raw_id k \<in> set taken}"
    by (rule psubset_card_mono)
qed

declare assign_loop.simps [simp del]

definition assign :: "pystr \<Rightarrow> call_ids \<Rightarrow> pystr \<times> call_ids" where
  "assign raw_id s =
     (let start = (case occurrences s raw_id of None \<Rightarrow> 0 | Some n \<Rightarrow> n);
          occurrence = assign_loop (assigned s) raw_id start;
          key = call_key raw_id occurrence
      in (key, \<lparr>occurrences = (occurrences s)(raw_id \<mapsto> occurrence), assigned = key # assigned s\<rparr>))"

fun assign_all :: "pystr list \<Rightarrow> call_ids \<Rightarrow> pystr list \<times> call_ids" where
  "assign_all [] s = ([], s)"
| "assign_all (x # xs) s =
     (case assign x s of (k, s1) \<Rightarrow> case assign_all xs s1 of (ks, s2) \<Rightarrow> (k # ks, s2))"

definition episode_unique_call_ids :: "pystr list \<Rightarrow> pystr list" where
  "episode_unique_call_ids raw_ids = fst (assign_all raw_ids fresh_call_ids)"

section \<open>Lemmas\<close>

lemma assign_loop_free: "call_key x (assign_loop taken x n) \<notin> set taken"
proof (induction taken x n rule: assign_loop.induct)
  case (1 taken x n)
  then show ?case by (subst assign_loop.simps) simp
qed

lemma assign_loop_gt: "n < assign_loop taken x n"
proof (induction taken x n rule: assign_loop.induct)
  case (1 taken x n)
  then show ?case by (subst assign_loop.simps) (auto intro: Suc_lessD)
qed

lemma assign_loop_immediate: "call_key x (Suc n) \<notin> set taken \<Longrightarrow> assign_loop taken x n = Suc n"
  by (subst assign_loop.simps) simp

lemma assign_new:
  "fst (assign x s) \<notin> set (assigned s) \<and> assigned (snd (assign x s)) = fst (assign x s) # assigned s"
  by (simp add: assign_def Let_def assign_loop_free)

lemma assign_all_keys:
  "distinct (assigned s) \<Longrightarrow>
     distinct (fst (assign_all xs s)) \<and> set (fst (assign_all xs s)) \<inter> set (assigned s) = {} \<and>
     length (fst (assign_all xs s)) = length xs"
proof (induction xs arbitrary: s)
  case Nil
  then show ?case by simp
next
  case (Cons x xs)
  obtain k s1 where a: "assign x s = (k, s1)" by (cases "assign x s")
  with assign_new [of x s] have k: "k \<notin> set (assigned s)" "assigned s1 = k # assigned s" by auto
  with Cons.prems Cons.IH [of s1] a show ?case by (auto simp: case_prod_beta)
qed

lemma assign_all_append:
  "assign_all (xs @ ys) s =
     (case assign_all xs s of (ks, s1) \<Rightarrow> case assign_all ys s1 of (ls, s2) \<Rightarrow> (ks @ ls, s2))"
  by (induction xs arbitrary: s) (auto split: prod.splits)

lemma call_ids_append:
  "\<exists>ls. episode_unique_call_ids (xs @ ys) = episode_unique_call_ids xs @ ls \<and> length ls = length ys"
proof -
  obtain ks s1 where a: "assign_all xs fresh_call_ids = (ks, s1)"
    by (cases "assign_all xs fresh_call_ids")
  obtain ls s2 where b: "assign_all ys s1 = (ls, s2)" by (cases "assign_all ys s1")
  have "length (fst (assign_all zs t)) = length zs" for zs t
    by (induction zs arbitrary: t) (auto simp: case_prod_beta)
  from this [of ys s1] a b show ?thesis by (simp add: episode_unique_call_ids_def assign_all_append)
qed

lemma length_call_ids [simp]: "length (episode_unique_call_ids xs) = length xs"
  using assign_all_keys [of fresh_call_ids xs] by (simp add: episode_unique_call_ids_def fresh_call_ids_def)

lemma distinct_call_ids [simp]: "distinct (episode_unique_call_ids xs)"
  using assign_all_keys [of fresh_call_ids xs] by (simp add: episode_unique_call_ids_def fresh_call_ids_def)

text \<open>A prefix of the raw ids gets the same keys whatever follows it.\<close>

lemma call_ids_take: "episode_unique_call_ids (take n xs) = take n (episode_unique_call_ids xs)"
proof (cases "n \<le> length xs")
  case True
  obtain ls where ls: "episode_unique_call_ids (take n xs @ drop n xs)
      = episode_unique_call_ids (take n xs) @ ls"
    using call_ids_append by blast
  then have "take n (episode_unique_call_ids xs)
      = take n (episode_unique_call_ids (take n xs) @ ls)" by simp
  also have "\<dots> = take n (episode_unique_call_ids (take n xs))"
    using True by simp
  also have "\<dots> = episode_unique_call_ids (take n xs)" by (rule take_all) simp
  finally show ?thesis by simp
qed simp

text \<open>
  Without separators in the raw ids the keys handed out are exactly the pairs of an id and an
  occurrence number already reached, so the loop never iterates.
\<close>

definition occ :: "call_ids \<Rightarrow> pystr \<Rightarrow> nat" where
  "occ s x = (case occurrences s x of None \<Rightarrow> 0 | Some n \<Rightarrow> n)"

definition plain :: "pystr \<Rightarrow> bool" where
  "plain x \<longleftrightarrow> CHR ''#'' \<notin> set x"

lemma hash_split: "plain x \<Longrightarrow> plain y \<Longrightarrow> x @ CHR ''#'' # u = y @ CHR ''#'' # v \<Longrightarrow> x = y \<and> u = v"
proof (induction x arbitrary: y)
  case Nil
  then show ?case by (cases y) (auto simp: plain_def)
next
  case (Cons c x)
  then show ?case by (cases y) (auto simp: plain_def)
qed

lemma call_key_plain_inject:
  assumes "plain x" "plain y" "call_key x m = call_key y n"
  shows "x = y \<and> m = n"
proof -
  have no: "x \<noteq> y @ CHR ''#'' # v" "y \<noteq> x @ CHR ''#'' # v" for v
    using assms(1,2) by (auto simp: plain_def)
  consider "m = 1" "n = 1" | "m = 1" "n \<noteq> 1" | "m \<noteq> 1" "n = 1" | "m \<noteq> 1" "n \<noteq> 1" by blast
  then show ?thesis
  proof cases
    case 1
    then show ?thesis using assms(3) by (simp add: call_key_def)
  next
    case 2
    then show ?thesis using assms(3) no(1) [of "str_nat n"] by (simp add: call_key_def)
  next
    case 3
    then show ?thesis using assms(3) no(2) [of "str_nat m"] by (simp add: call_key_def)
  next
    case 4
    then have "x @ CHR ''#'' # str_nat m = y @ CHR ''#'' # str_nat n"
      using assms(3) by (simp add: call_key_def)
    from hash_split [OF assms(1,2) this] show ?thesis by simp
  qed
qed

definition counts_ok :: "call_ids \<Rightarrow> pystr set \<Rightarrow> bool" where
  "counts_ok s R \<longleftrightarrow> set (assigned s) = {call_key x k | x k. x \<in> R \<and> 1 \<le> k \<and> k \<le> occ s x} \<and>
     (\<forall>x. x \<notin> R \<longrightarrow> occ s x = 0)"

lemma assign_plain:
  assumes "counts_ok s R" "\<forall>x \<in> R. plain x" "x \<in> R"
  shows "fst (assign x s) = call_key x (Suc (occ s x)) \<and> counts_ok (snd (assign x s)) R \<and>
    occ (snd (assign x s)) = (occ s)(x := Suc (occ s x))"
proof -
  have "call_key x (Suc (occ s x)) \<notin> set (assigned s)"
  proof
    assume "call_key x (Suc (occ s x)) \<in> set (assigned s)"
    then obtain y k where yk: "call_key x (Suc (occ s x)) = call_key y k" "y \<in> R" "k \<le> occ s y"
      using assms(1) unfolding counts_ok_def by blast
    with call_key_plain_inject [of x y "Suc (occ s x)" k] assms(2,3) show False by auto
  qed
  then have l: "assign_loop (assigned s) x (occ s x) = Suc (occ s x)" by (rule assign_loop_immediate)
  have a: "assign x s = (call_key x (Suc (occ s x)),
      \<lparr>occurrences = (occurrences s)(x \<mapsto> Suc (occ s x)), assigned = call_key x (Suc (occ s x)) # assigned s\<rparr>)"
    using l by (simp add: assign_def occ_def Let_def)
  have o: "occ (snd (assign x s)) = (occ s)(x := Suc (occ s x))"
    by (auto simp: a occ_def fun_eq_iff)
  have "set (assigned (snd (assign x s)))
      = {call_key y k | y k. y \<in> R \<and> 1 \<le> k \<and> k \<le> occ (snd (assign x s)) y}"
    unfolding o using assms by (auto simp: a counts_ok_def le_Suc_eq)
  then have "counts_ok (snd (assign x s)) R"
    using assms by (auto simp: counts_ok_def o)
  then show ?thesis using a o by simp
qed

lemma assign_all_plain:
  assumes "counts_ok s R" "\<forall>x \<in> R. plain x" "set xs \<subseteq> R" "i < length xs"
  shows "fst (assign_all xs s) ! i = call_key (xs ! i) (Suc (occ s (xs ! i) + count_list (take i xs) (xs ! i)))"
  using assms
proof (induction xs arbitrary: s i)
  case Nil
  then show ?case by simp
next
  case (Cons x xs)
  obtain k s1 where a: "assign x s = (k, s1)" by (cases "assign x s")
  from assign_plain [of s R x] Cons.prems a have
    k: "k = call_key x (Suc (occ s x))" "counts_ok s1 R" "occ s1 = (occ s)(x := Suc (occ s x))" by auto
  show ?case
  proof (cases i)
    case 0
    then show ?thesis using a k by (simp add: case_prod_beta)
  next
    case (Suc j)
    then show ?thesis using a k Cons.IH [OF k(2), of j] Cons.prems by (simp add: case_prod_beta)
  qed
qed

lemma counts_ok_fresh: "counts_ok fresh_call_ids R"
  by (simp add: counts_ok_def fresh_call_ids_def occ_def)

text \<open>On a repeat-free sequence every id is its own key, separators or not.\<close>

lemma assign_all_distinct:
  assumes "distinct (xs @ assigned s)" "\<forall>x \<in> set xs. occurrences s x = None"
  shows "fst (assign_all xs s) = xs"
  using assms
proof (induction xs arbitrary: s)
  case Nil
  then show ?case by simp
next
  case (Cons x xs)
  have "assign_loop (assigned s) x 0 = 1"
    using Cons.prems by (simp add: assign_loop_immediate call_key_def)
  then have "assign x s = (x, \<lparr>occurrences = (occurrences s)(x \<mapsto> 1), assigned = x # assigned s\<rparr>)"
    using Cons.prems by (simp add: assign_def call_key_def)
  moreover have "fst (assign_all xs \<lparr>occurrences = (occurrences s)(x \<mapsto> 1), assigned = x # assigned s\<rparr>) = xs"
    using Cons.prems by (intro Cons.IH) auto
  ultimately show ?case by (simp add: case_prod_beta)
qed

lemma call_ids_distinct: "distinct xs \<Longrightarrow> episode_unique_call_ids xs = xs"
  by (simp add: episode_unique_call_ids_def fresh_call_ids_def assign_all_distinct)

section \<open>Properties\<close>

text \<open>
  Property C36.  One key per raw id, all of them different, whatever the provider minted (a repeated
  id, or an id that already looks like a disambiguated one); the keys are the raw ids themselves
  when none repeats; and keying a list of keys changes nothing.
\<close>

theorem call_ids_unique_and_idempotent:
  "length (episode_unique_call_ids xs) = length xs \<and> distinct (episode_unique_call_ids xs) \<and>
   (distinct xs \<longleftrightarrow> episode_unique_call_ids xs = xs) \<and>
   episode_unique_call_ids (episode_unique_call_ids xs) = episode_unique_call_ids xs"
  by (metis call_ids_distinct distinct_call_ids length_call_ids)

text \<open>
  When no raw id contains the separator, the key of an entry is its id numbered by
  how often the id occurred before it, so the \<open>k\<close>-th declaration of an id and the \<open>k\<close>-th record
  of it get the same key even when the two views interleave other ids differently.
\<close>

theorem call_ids_by_occurrence:
  assumes "\<forall>x \<in> set xs. CHR ''#'' \<notin> set x" "i < length xs"
  shows "episode_unique_call_ids xs ! i = call_key (xs ! i) (Suc (count_list (take i xs) (xs ! i)))"
  using assign_all_plain [OF counts_ok_fresh [of "set xs"], of xs i] assms
  by (simp add: episode_unique_call_ids_def plain_def occ_def fresh_call_ids_def)

theorem call_ids_by_occurrence_witness:
  "list_all (\<lambda>x. CHR ''#'' \<notin> set x) [''f:0'', ''g:1'', ''f:0''] \<and>
   episode_unique_call_ids [''f:0'', ''g:1'', ''f:0''] ! 2 = ''f:0#2''"
proof -
  have h: "\<forall>x \<in> set [''f:0'', ''g:1'', ''f:0'']. CHR ''#'' \<notin> set x" by simp
  have "str_nat 2 = ''2''" by code_simp
  then have "call_key ([''f:0'', ''g:1'', ''f:0''] ! 2)
      (Suc (count_list (take 2 [''f:0'', ''g:1'', ''f:0'']) ([''f:0'', ''g:1'', ''f:0''] ! 2))) = ''f:0#2''"
    by (simp add: call_key_def numeral_2_eq_2)
  with call_ids_by_occurrence [OF h, of 2] h show ?thesis by simp
qed

end
