(* ===== verification/Trace_Timeline.thy ===== *)
theory Trace_Timeline
  imports Transcript Tool_Call_Ids "HOL-Library.Multiset"
begin

text \<open>
  The trial's event timeline, \<^verbatim>\<open>tolokaforge/core/grading/trace_timeline.py\<close>: the message view and
  the tool-call record are joined by episode-unique call ids into one ordered list of events.
  \<open>build_trial_timeline\<close> is the whole function with its three ways to raise; the mutable
  \<^verbatim>\<open>_TimelineBuilder\<close> is the record \<open>builder\<close>, passed through \<open>append_event\<close>.  The lemmas reduce the
  builder to the list of events it appends (\<open>turn_seeds\<close>), from which the properties follow:
  positions and turn indices, one event per declared call, one result per record right after its
  call, and the pairing of declarations and records by occurrence.
\<close>

section \<open>Events\<close>

datatype TraceEventKind = ASSISTANT_MESSAGE | USER_MESSAGE | TOOL_CALL | TOOL_RESULT

record TraceEvent =
  ev_position :: nat
  ev_turn_index :: nat
  ev_kind :: TraceEventKind
  ev_text :: "pystr option"
  ev_call_id :: "pystr option"
  ev_tool_name :: "pystr option"
  ev_executor :: "ToolExecutorIdentity option"
  ev_arguments :: "(pystr, pyval) dict option"
  ev_status :: "ToolExecutionStatus option"
  ev_result :: "pystr option"
  ev_latency_seconds :: "pyfloat option"

record TrialTimeline =
  tl_events :: "TraceEvent list"
  tl_termination_reason :: "pystr option"
  tl_message_view_present :: bool
  tl_records_present :: bool

record DeclaredCall =
  dc_key :: pystr
  dc_call :: ToolCall

datatype TimelineInconsistencyError =
    UnlinkableRecord pystr
  | RecordNamesOtherTool pystr
  | ResultAnswersNoCall nat

section \<open>Keys of the two views\<close>

definition records_by_episode_key :: "RecordedToolCall list \<Rightarrow> (pystr, RecordedToolCall) dict" where
  "records_by_episode_key recorded =
     (let in_sequence = sort_key rc_sequence recorded
      in dict_of (zip (episode_unique_call_ids (map rc_call_id in_sequence)) in_sequence))"

fun declared_calls_from :: "call_ids \<Rightarrow> Message list \<Rightarrow> DeclaredCall list list" where
  "declared_calls_from s [] = []"
| "declared_calls_from s (m # ms) =
     (case assign_all (map tc_id (calls_of m)) s of (keys, s1) \<Rightarrow>
        map2 (\<lambda>k c. \<lparr>dc_key = k, dc_call = c\<rparr>) keys (calls_of m) # declared_calls_from s1 ms)"

definition declared_calls :: "Message list \<Rightarrow> DeclaredCall list list" where
  "declared_calls turns = declared_calls_from fresh_call_ids turns"

definition declarations_by_key :: "DeclaredCall list list \<Rightarrow> (pystr, ToolCall) dict" where
  "declarations_by_key declared = dict_of (map (\<lambda>d. (dc_key d, dc_call d)) (concat declared))"

section \<open>Reconciling the views\<close>

definition require_every_record_linkable ::
    "(pystr, RecordedToolCall) dict \<Rightarrow> (pystr, ToolCall) dict \<Rightarrow> TimelineInconsistencyError option" where
  "require_every_record_linkable records declarations =
     (case sort_key (\<lambda>(k, r). rc_sequence r) (filter (\<lambda>(k, r). map_of declarations k = None) records) of
        [] \<Rightarrow> None
      | (key, first) # _ \<Rightarrow> Some (UnlinkableRecord key))"

definition require_every_record_names_its_declared_tool ::
    "(pystr, RecordedToolCall) dict \<Rightarrow> (pystr, ToolCall) dict \<Rightarrow> TimelineInconsistencyError option" where
  "require_every_record_names_its_declared_tool records declarations =
     first_error (map (\<lambda>(key, record).
       case map_of declarations key of
         None \<Rightarrow> None
       | Some declared \<Rightarrow>
           if rc_tool_name record = tc_name declared then None else Some (RecordNamesOtherTool key)) records)"

definition require_records_reconcile ::
    "(pystr, RecordedToolCall) dict \<Rightarrow> DeclaredCall list list \<Rightarrow> TimelineInconsistencyError option" where
  "require_records_reconcile records declared =
     (let declarations = declarations_by_key declared
      in first_error [require_every_record_linkable records declarations,
                      require_every_record_names_its_declared_tool records declarations])"

fun index_message_results_from ::
    "nat \<Rightarrow> call_ids \<Rightarrow> pystr list \<Rightarrow> (pystr, Message) dict \<Rightarrow> Message list \<Rightarrow>
     TimelineInconsistencyError + (pystr, Message) dict" where
  "index_message_results_from index s declared_keys results [] = Inr results"
| "index_message_results_from index s declared_keys results (m # ms) =
     (if m_role m \<noteq> Role_TOOL then index_message_results_from (Suc index) s declared_keys results ms
      else case m_tool_call_id m of
             None \<Rightarrow> Inl (ResultAnswersNoCall index)
           | Some raw \<Rightarrow>
               (case assign raw s of (key, s1) \<Rightarrow>
                  if key \<notin> set declared_keys then Inl (ResultAnswersNoCall index)
                  else index_message_results_from (Suc index) s1 declared_keys (dict_set key m results) ms))"

definition index_message_results ::
    "Message list \<Rightarrow> DeclaredCall list list \<Rightarrow> TimelineInconsistencyError + (pystr, Message) dict" where
  "index_message_results messages declared =
     index_message_results_from 0 fresh_call_ids (map fst (declarations_by_key declared)) [] messages"

definition execution_order ::
    "DeclaredCall list \<Rightarrow> (pystr, RecordedToolCall) dict \<Rightarrow> DeclaredCall list" where
  "execution_order declared records =
     sort_key (\<lambda>d. case map_of records (dc_key d) of None \<Rightarrow> 0 | Some r \<Rightarrow> rc_sequence r)
       (filter (\<lambda>d. map_of records (dc_key d) \<noteq> None) declared) @
     filter (\<lambda>d. map_of records (dc_key d) = None) declared"

section \<open>The builder\<close>

record builder =
  bd_records :: "(pystr, RecordedToolCall) dict"
  bd_message_results :: "(pystr, Message) dict"
  bd_step_ids :: "pystr list"
  bd_events :: "TraceEvent list"
  bd_generations :: nat

definition new_builder ::
    "(pystr, RecordedToolCall) dict \<Rightarrow> (pystr, Message) dict \<Rightarrow> pystr list \<Rightarrow> builder" where
  "new_builder records message_results step_ids =
     \<lparr>bd_records = records, bd_message_results = message_results, bd_step_ids = step_ids,
      bd_events = [], bd_generations = 0\<rparr>"

text \<open>An event before \<^verbatim>\<open>_append\<close> numbers it: the keyword defaults are \<^verbatim>\<open>None\<close>.\<close>

definition seed :: "TraceEventKind \<Rightarrow> TraceEvent" where
  "seed kind =
     \<lparr>ev_position = 0, ev_turn_index = 0, ev_kind = kind, ev_text = None, ev_call_id = None,
      ev_tool_name = None, ev_executor = None, ev_arguments = None, ev_status = None,
      ev_result = None, ev_latency_seconds = None\<rparr>"

definition append_event :: "TraceEvent \<Rightarrow> builder \<Rightarrow> builder" where
  "append_event e b =
     b\<lparr>bd_events := bd_events b @
        [e\<lparr>ev_position := length (bd_events b), ev_turn_index := bd_generations b - 1\<rparr>]\<rparr>"

definition result_seed :: "pystr \<Rightarrow> RecordedToolCall \<Rightarrow> TraceEvent" where
  "result_seed key record =
     (seed TOOL_RESULT)\<lparr>ev_call_id := Some key, ev_tool_name := Some (rc_tool_name record),
       ev_executor := Some (rc_executor record), ev_status := Some (rc_status record),
       ev_result := Some (rc_output record), ev_latency_seconds := Some (rc_latency_seconds record)\<rparr>"

definition append_result :: "pystr \<Rightarrow> RecordedToolCall \<Rightarrow> builder \<Rightarrow> builder" where
  "append_result key record b = append_event (result_seed key record) b"

definition TOOL_ERROR_MESSAGE_PREFIX :: pystr where
  "TOOL_ERROR_MESSAGE_PREFIX = ''Error: ''"

definition message_result_text :: "Message \<Rightarrow> pystr" where
  "message_result_text m =
     (let raw = m_content m; n = length TOOL_ERROR_MESSAGE_PREFIX in
      if take n raw = TOOL_ERROR_MESSAGE_PREFIX \<and>
         m_tool_status m \<notin> Some ` set (SUCCESS # ENVIRONMENT_ERROR_STATUSES)
      then drop n raw else raw)"

definition message_result_seed :: "DeclaredCall \<Rightarrow> Message \<Rightarrow> TraceEvent" where
  "message_result_seed d m =
     (seed TOOL_RESULT)\<lparr>ev_call_id := Some (dc_key d), ev_tool_name := Some (tc_name (dc_call d)),
       ev_status := m_tool_status m, ev_result := Some (message_result_text m)\<rparr>"

definition append_message_result :: "DeclaredCall \<Rightarrow> Message \<Rightarrow> builder \<Rightarrow> builder" where
  "append_message_result d m b = append_event (message_result_seed d m) b"

definition call_seed ::
    "pystr \<Rightarrow> pystr \<Rightarrow> (pystr, pyval) dict \<Rightarrow> ToolExecutorIdentity option \<Rightarrow> TraceEvent" where
  "call_seed key name arguments executor =
     (seed TOOL_CALL)\<lparr>ev_call_id := Some key, ev_tool_name := Some name,
       ev_arguments := Some arguments, ev_executor := executor\<rparr>"

definition emit_call :: "DeclaredCall \<Rightarrow> builder \<Rightarrow> builder" where
  "emit_call d b =
     (let record = map_of (bd_records b) (dc_key d);
          b1 = append_event (call_seed (dc_key d) (tc_name (dc_call d)) (tc_arguments (dc_call d))
                 (map_option rc_executor record)) b
      in case record of
           Some r \<Rightarrow> append_result (dc_key d) r b1
         | None \<Rightarrow> (case map_of (bd_message_results b) (dc_key d) of
                      Some m \<Rightarrow> append_message_result d m b1
                    | None \<Rightarrow> b1))"

fun kind_by_role :: "MessageRole \<Rightarrow> TraceEventKind option" where
  "kind_by_role Role_ASSISTANT = Some ASSISTANT_MESSAGE"
| "kind_by_role Role_USER = Some USER_MESSAGE"
| "kind_by_role _ = None"

definition emit_turn :: "Message \<Rightarrow> DeclaredCall list \<Rightarrow> builder \<Rightarrow> builder" where
  "emit_turn m declared b =
     (let b1 = (if m_role m = Role_ASSISTANT then b\<lparr>bd_generations := Suc (bd_generations b)\<rparr> else b);
          b2 = (if is_user_tool_step m (bd_step_ids b) then b1
                else case kind_by_role (m_role m) of
                       None \<Rightarrow> b1
                     | Some kind \<Rightarrow> append_event ((seed kind)\<lparr>ev_text := Some (m_content m)\<rparr>) b1)
      in fold emit_call (execution_order declared (bd_records b)) b2)"

fun emit_message_view :: "Message list \<Rightarrow> DeclaredCall list list \<Rightarrow> builder \<Rightarrow> builder" where
  "emit_message_view (m # ms) (d # ds) b = emit_message_view ms ds (emit_turn m d b)"
| "emit_message_view _ _ b = b"

definition emit_record :: "pystr \<times> RecordedToolCall \<Rightarrow> builder \<Rightarrow> builder" where
  "emit_record kr b =
     (case kr of (key, record) \<Rightarrow>
        append_result key record
          (append_event (call_seed key (rc_tool_name record) (rc_arguments record) (Some (rc_executor record))) b))"

definition emit_records_alone :: "builder \<Rightarrow> builder" where
  "emit_records_alone b = fold emit_record (sort_key (\<lambda>(k, r). rc_sequence r) (bd_records b)) b"

section \<open>Building and reading a timeline\<close>

definition turns_of :: "Message list \<Rightarrow> Message list" where
  "turns_of messages = filter (\<lambda>m. kind_by_role (m_role m) \<noteq> None) messages"

definition build_trial_timeline ::
    "Message list \<Rightarrow> RecordedToolCall list \<Rightarrow> pystr option \<Rightarrow> TimelineInconsistencyError + TrialTimeline" where
  "build_trial_timeline messages recorded termination_reason =
     (let records = records_by_episode_key recorded;
          turns = turns_of messages;
          declared = declared_calls turns
      in case (if turns \<noteq> [] then require_records_reconcile records declared else None) of
           Some e \<Rightarrow> Inl e
         | None \<Rightarrow>
             bind_res (if records \<noteq> [] then Inr [] else index_message_results messages declared)
               (\<lambda>message_results.
                  let b = new_builder records message_results (user_tool_step_call_ids messages);
                      b' = (if turns \<noteq> [] then emit_message_view turns declared b else emit_records_alone b)
                  in Inr \<lparr>tl_events = bd_events b', tl_termination_reason = termination_reason,
                          tl_message_view_present = (turns \<noteq> []), tl_records_present = (recorded \<noteq> [])\<rparr>))"

definition assistant_texts :: "TrialTimeline \<Rightarrow> pystr list" where
  "assistant_texts timeline =
     map (\<lambda>e. case ev_text e of None \<Rightarrow> [] | Some t \<Rightarrow> t)
       (filter (\<lambda>e. ev_kind e = ASSISTANT_MESSAGE) (tl_events timeline))"

record AttemptedCall =
  ac_call_id :: pystr
  ac_tool_name :: pystr
  ac_arguments :: "(pystr, pyval) dict"
  ac_executor :: "ToolExecutorIdentity option"
  ac_status :: "ToolExecutionStatus option"

definition attempted_calls :: "TrialTimeline \<Rightarrow> AttemptedCall list" where
  "attempted_calls timeline =
     (let statuses = dict_of (map (\<lambda>e. (ev_call_id e, ev_status e))
                        (filter (\<lambda>e. ev_kind e = TOOL_RESULT) (tl_events timeline)))
      in map (\<lambda>e. \<lparr>ac_call_id = (case ev_call_id e of None \<Rightarrow> [] | Some k \<Rightarrow> k),
                   ac_tool_name = (case ev_tool_name e of None \<Rightarrow> [] | Some k \<Rightarrow> k),
                   ac_arguments = (case ev_arguments e of None \<Rightarrow> [] | Some k \<Rightarrow> k),
                   ac_executor = ev_executor e,
                   ac_status = (case map_of statuses (ev_call_id e) of None \<Rightarrow> None | Some st \<Rightarrow> st)\<rparr>)
           (filter (\<lambda>e. ev_kind e = TOOL_CALL) (tl_events timeline)))"

section \<open>What the builder appends\<close>

definition unnumbered :: "TraceEvent \<Rightarrow> TraceEvent" where
  "unnumbered e = e\<lparr>ev_position := 0, ev_turn_index := 0\<rparr>"

definition bd_seeds :: "builder \<Rightarrow> TraceEvent list" where
  "bd_seeds b = map unnumbered (bd_events b)"

definition same_inputs :: "builder \<Rightarrow> builder \<Rightarrow> bool" where
  "same_inputs b b' \<longleftrightarrow> bd_records b' = bd_records b \<and> bd_message_results b' = bd_message_results b \<and>
     bd_step_ids b' = bd_step_ids b"

lemma seed_unnumbered [trace_simps, simp]:
  "unnumbered (seed k) = seed k"
  "unnumbered ((seed k)\<lparr>ev_text := t\<rparr>) = (seed k)\<lparr>ev_text := t\<rparr>"
  "unnumbered (result_seed key r) = result_seed key r"
  "unnumbered (message_result_seed d m) = message_result_seed d m"
  "unnumbered (call_seed key name args ex) = call_seed key name args ex"
  by (simp_all add: unnumbered_def seed_def result_seed_def message_result_seed_def call_seed_def)

lemma append_event_seeds [trace_simps, simp]:
  "bd_seeds (append_event e b) = bd_seeds b @ [unnumbered e]"
  by (simp add: append_event_def bd_seeds_def unnumbered_def)

lemma append_event_inputs [trace_simps, simp]:
  "bd_records (append_event e b) = bd_records b"
  "bd_message_results (append_event e b) = bd_message_results b"
  "bd_step_ids (append_event e b) = bd_step_ids b"
  "bd_generations (append_event e b) = bd_generations b"
  by (simp_all add: append_event_def)

definition call_seeds ::
    "(pystr, RecordedToolCall) dict \<Rightarrow> (pystr, Message) dict \<Rightarrow> DeclaredCall \<Rightarrow> TraceEvent list" where
  "call_seeds records results d =
     call_seed (dc_key d) (tc_name (dc_call d)) (tc_arguments (dc_call d))
       (map_option rc_executor (map_of records (dc_key d))) #
     (case map_of records (dc_key d) of
        Some r \<Rightarrow> [result_seed (dc_key d) r]
      | None \<Rightarrow> (case map_of results (dc_key d) of
                   Some m \<Rightarrow> [message_result_seed d m] | None \<Rightarrow> []))"

definition turn_seeds ::
    "(pystr, RecordedToolCall) dict \<Rightarrow> (pystr, Message) dict \<Rightarrow> pystr list \<Rightarrow> Message \<Rightarrow>
     DeclaredCall list \<Rightarrow> TraceEvent list" where
  "turn_seeds records results steps m declared =
     (if is_user_tool_step m steps then []
      else case kind_by_role (m_role m) of
             None \<Rightarrow> [] | Some kind \<Rightarrow> [(seed kind)\<lparr>ev_text := Some (m_content m)\<rparr>]) @
     concat (map (call_seeds records results) (execution_order declared records))"

lemma emit_call_seeds:
  "bd_seeds (emit_call d b) = bd_seeds b @ call_seeds (bd_records b) (bd_message_results b) d \<and>
   same_inputs b (emit_call d b) \<and> bd_generations (emit_call d b) = bd_generations b"
  by (auto simp: emit_call_def call_seeds_def append_result_def append_message_result_def Let_def
      same_inputs_def split: option.splits)

lemma fold_emit_call_seeds:
  "bd_seeds (fold emit_call ds b)
     = bd_seeds b @ concat (map (call_seeds (bd_records b) (bd_message_results b)) ds) \<and>
   same_inputs b (fold emit_call ds b)"
proof (induction ds arbitrary: b)
  case Nil
  then show ?case by (simp add: same_inputs_def)
next
  case (Cons d ds)
  then show ?case using emit_call_seeds [of d b] by (simp add: same_inputs_def)
qed

lemma fold_emit_call_inputs [trace_simps, simp]:
  "bd_records (fold emit_call ds b) = bd_records b"
  "bd_message_results (fold emit_call ds b) = bd_message_results b"
  "bd_step_ids (fold emit_call ds b) = bd_step_ids b"
  using fold_emit_call_seeds [of ds b] by (simp_all add: same_inputs_def)

lemma emit_turn_seeds:
  "bd_seeds (emit_turn m d b)
     = bd_seeds b @ turn_seeds (bd_records b) (bd_message_results b) (bd_step_ids b) m d \<and>
   same_inputs b (emit_turn m d b)"
proof -
  have g: "bd_seeds (b\<lparr>bd_generations := n\<rparr>) = bd_seeds b" for n by (simp add: bd_seeds_def)
  show ?thesis
    by (auto simp: emit_turn_def turn_seeds_def Let_def fold_emit_call_seeds same_inputs_def g
        split: option.splits)
qed

lemma emit_message_view_seeds:
  "bd_seeds (emit_message_view ms ds b)
     = bd_seeds b @ concat (map2 (turn_seeds (bd_records b) (bd_message_results b) (bd_step_ids b)) ms ds)"
proof (induction ms ds b rule: emit_message_view.induct)
  case (1 m ms d ds b)
  then show ?case using emit_turn_seeds [of m d b] by (simp add: same_inputs_def)
qed simp_all

definition record_seeds :: "pystr \<times> RecordedToolCall \<Rightarrow> TraceEvent list" where
  "record_seeds kr = (case kr of (key, record) \<Rightarrow>
     [call_seed key (rc_tool_name record) (rc_arguments record) (Some (rc_executor record)),
      result_seed key record])"

lemma fold_emit_record_seeds: "bd_seeds (fold emit_record krs b) = bd_seeds b @ concat (map record_seeds krs)"
  by (induction krs arbitrary: b) (auto simp: emit_record_def record_seeds_def append_result_def)

subsection \<open>Numbering\<close>

definition numbered :: "builder \<Rightarrow> bool" where
  "numbered b \<longleftrightarrow> map ev_position (bd_events b) = [0 ..< length (bd_events b)] \<and>
     sorted (map ev_turn_index (bd_events b)) \<and>
     (\<forall>e \<in> set (bd_events b). ev_turn_index e \<le> bd_generations b - 1)"

lemma numbered_append: "numbered b \<Longrightarrow> numbered (append_event e b)"
  by (auto simp: numbered_def append_event_def sorted_append)

lemma numbered_call: "numbered b \<Longrightarrow> numbered (emit_call d b)"
  by (auto simp: emit_call_def Let_def append_result_def append_message_result_def
      split: option.splits intro!: numbered_append)

lemma numbered_generation: "numbered b \<Longrightarrow> numbered (b\<lparr>bd_generations := Suc (bd_generations b)\<rparr>)"
  by (fastforce simp: numbered_def)

lemma numbered_turn: "numbered b \<Longrightarrow> numbered (emit_turn m d b)"
  unfolding emit_turn_def Let_def
  by (rule fold_keeps)
     (auto split: option.splits intro: numbered_append numbered_generation numbered_call)

lemma numbered_view: "numbered b \<Longrightarrow> numbered (emit_message_view ms ds b)"
  by (induction ms ds b rule: emit_message_view.induct) (auto intro: numbered_turn)

lemma numbered_records: "numbered b \<Longrightarrow> numbered (emit_records_alone b)"
  unfolding emit_records_alone_def
  by (rule fold_keeps)
     (auto simp: emit_record_def append_result_def split: prod.splits intro: numbered_append)

lemma numbered_new: "numbered (new_builder r m s)"
  by (simp add: numbered_def new_builder_def)

subsection \<open>Keys\<close>

lemma declared_keys_from:
  "map dc_key (concat (declared_calls_from s ms))
     = fst (assign_all (concat (map (\<lambda>m. map tc_id (calls_of m)) ms)) s)"
proof (induction ms arbitrary: s)
  case Nil
  then show ?case by simp
next
  case (Cons m ms)
  obtain keys s1 where a: "assign_all (map tc_id (calls_of m)) s = (keys, s1)"
    by (cases "assign_all (map tc_id (calls_of m)) s")
  have "length (fst (assign_all xs t)) = length xs" for xs t
    by (induction xs arbitrary: t) (auto simp: case_prod_beta)
  from this [of "map tc_id (calls_of m)" s] a have len: "length keys = length (calls_of m)" by simp
  have "map dc_key (map2 (\<lambda>k c. \<lparr>dc_key = k, dc_call = c\<rparr>) keys (calls_of m)) = keys"
    using len by (simp add: comp_def case_prod_beta)
  then show ?case using Cons a by (simp add: assign_all_append case_prod_beta)
qed

definition declared_ids :: "Message list \<Rightarrow> pystr list" where
  "declared_ids turns = concat (map (\<lambda>m. map tc_id (calls_of m)) turns)"

lemma declared_keys: "map dc_key (concat (declared_calls turns)) = episode_unique_call_ids (declared_ids turns)"
  by (simp add: declared_calls_def declared_keys_from episode_unique_call_ids_def declared_ids_def)

lemma length_declared [simp]: "length (declared_calls turns) = length turns"
proof -
  have "length (declared_calls_from s ms) = length ms" for s ms
    by (induction ms arbitrary: s) (auto split: prod.splits)
  then show ?thesis by (simp add: declared_calls_def)
qed

lemma distinct_declared_keys [simp]: "distinct (map dc_key (concat (declared_calls turns)))"
  by (simp add: declared_keys)

lemma declarations_of_declared:
  assumes "d \<in> set (concat (declared_calls turns))"
  shows "map_of (declarations_by_key (declared_calls turns)) (dc_key d) = Some (dc_call d)"
proof -
  have "distinct (map fst (map (\<lambda>d. (dc_key d, dc_call d)) (concat (declared_calls turns))))"
    using distinct_declared_keys [of turns] by (simp add: comp_def)
  then show ?thesis
    using assms by (simp add: declarations_by_key_def dict_of_distinct map_of_eq_Some_iff)
qed

lemma declarations_keys:
  "fst ` set (declarations_by_key (declared_calls turns)) = set (episode_unique_call_ids (declared_ids turns))"
proof -
  have d: "distinct (map fst (map (\<lambda>d. (dc_key d, dc_call d)) (concat (declared_calls turns))))"
    using distinct_declared_keys [of turns] by (simp add: comp_def)
  show ?thesis unfolding declarations_by_key_def dict_of_distinct [OF d] declared_keys [symmetric]
    by force
qed

lemma records_zip:
  "records_by_episode_key recorded =
     zip (episode_unique_call_ids (map rc_call_id (sort_key rc_sequence recorded))) (sort_key rc_sequence recorded)"
  by (simp add: records_by_episode_key_def Let_def dict_of_distinct)

lemma records_Nil_iff [simp]: "records_by_episode_key recorded = [] \<longleftrightarrow> recorded = []"
  by (metis length_0_conv length_call_ids length_map length_sort length_zip min.idem records_zip)

lemma distinct_record_keys [simp]: "distinct (map fst (records_by_episode_key recorded))"
  by (simp add: records_zip)

subsection \<open>Reading events by kind\<close>

definition ids_of :: "TraceEventKind \<Rightarrow> TraceEvent list \<Rightarrow> pystr option list" where
  "ids_of kind events = map ev_call_id (filter (\<lambda>e. ev_kind e = kind) events)"

lemma ids_of_simps [trace_simps, simp]:
  "ids_of k [] = []"
  "ids_of k (e # es) = (if ev_kind e = k then ev_call_id e # ids_of k es else ids_of k es)"
  "ids_of k (xs @ ys) = ids_of k xs @ ids_of k ys"
  by (simp_all add: ids_of_def)

lemma ids_of_concat: "ids_of k (concat xss) = concat (map (ids_of k) xss)"
  by (induction xss) auto

lemma unnumbered_fields [trace_simps, simp]:
  "ev_kind (unnumbered e) = ev_kind e" "ev_call_id (unnumbered e) = ev_call_id e"
  "ev_tool_name (unnumbered e) = ev_tool_name e" "ev_status (unnumbered e) = ev_status e"
  "ev_result (unnumbered e) = ev_result e" "ev_executor (unnumbered e) = ev_executor e"
  "ev_text (unnumbered e) = ev_text e"
  by (simp_all add: unnumbered_def)

lemma ids_of_unnumbered [simp]: "ids_of k (map unnumbered es) = ids_of k es"
  by (induction es) auto

lemma seed_fields [trace_simps, simp]:
  "ev_kind (seed k) = k" "ev_call_id (seed k) = None"
  "ev_kind (call_seed key name args ex) = TOOL_CALL" "ev_call_id (call_seed key name args ex) = Some key"
  "ev_tool_name (call_seed key name args ex) = Some name"
  "ev_kind (result_seed key r) = TOOL_RESULT" "ev_call_id (result_seed key r) = Some key"
  "ev_tool_name (result_seed key r) = Some (rc_tool_name r)"
  "ev_status (result_seed key r) = Some (rc_status r)" "ev_result (result_seed key r) = Some (rc_output r)"
  "ev_kind (message_result_seed d m) = TOOL_RESULT"
  "ev_call_id (message_result_seed d m) = Some (dc_key d)"
  "ev_tool_name (message_result_seed d m) = Some (tc_name (dc_call d))"
  by (simp_all add: seed_def call_seed_def result_seed_def message_result_seed_def)

lemma kind_by_role_message [simp]:
  "kind_by_role r = Some k \<Longrightarrow> k \<noteq> TOOL_CALL \<and> k \<noteq> TOOL_RESULT"
  by (cases r) auto

lemma turn_call_ids:
  "ids_of TOOL_CALL (turn_seeds records results steps m d) = map (Some \<circ> dc_key) (execution_order d records)"
proof -
  have "ids_of TOOL_CALL (concat (map (call_seeds records results) ds)) = map (Some \<circ> dc_key) ds" for ds
    by (induction ds) (auto simp: call_seeds_def split: option.splits)
  then show ?thesis
    by (auto simp: turn_seeds_def split: option.splits dest: kind_by_role_message)
qed

lemma turn_result_ids:
  "ids_of TOOL_RESULT (turn_seeds records [] steps m d)
     = map (Some \<circ> dc_key) (filter (\<lambda>d. map_of records (dc_key d) \<noteq> None) (execution_order d records))"
proof -
  have "ids_of TOOL_RESULT (concat (map (call_seeds records []) ds))
      = map (Some \<circ> dc_key) (filter (\<lambda>d. map_of records (dc_key d) \<noteq> None) ds)" for ds
    by (induction ds) (auto simp: call_seeds_def split: option.splits)
  then show ?thesis
    by (auto simp: turn_seeds_def split: option.splits dest: kind_by_role_message)
qed

lemma mset_execution_order [simp]: "mset (execution_order d records) = mset d"
proof -
  have "mset (filter P xs) + mset (filter (\<lambda>x. \<not> P x) xs) = mset xs" for P and xs :: "DeclaredCall list"
    by (induction xs) auto
  from this [of "\<lambda>x. map_of records (dc_key x) \<noteq> None" d] show ?thesis
    by (simp add: execution_order_def)
qed

lemma mset_ids_concat_map2:
  assumes "length ms = length ds" "\<And>m d. mset (ids_of k (f m d)) = mset (g d)"
  shows "mset (ids_of k (concat (map2 f ms ds))) = mset (concat (map g ds))"
  using assms(1) by (induction ms ds rule: list_induct2) (auto simp: assms(2))

lemma call_ids_of_view:
  assumes "length ms = length ds"
  shows "mset (ids_of TOOL_CALL (concat (map2 (turn_seeds records results steps) ms ds)))
    = mset (map (Some \<circ> dc_key) (concat ds))"
proof -
  have "mset (ids_of TOOL_CALL (concat (map2 (turn_seeds records results steps) ms ds)))
      = mset (concat (map (\<lambda>d. map (Some \<circ> dc_key) d) ds))"
    using assms by (rule mset_ids_concat_map2) (simp add: turn_call_ids)
  then show ?thesis by (simp add: map_concat)
qed

subsection \<open>Reconciliation\<close>

definition answers_declaration :: "(pystr, ToolCall) dict \<Rightarrow> pystr \<times> RecordedToolCall \<Rightarrow> bool" where
  "answers_declaration declarations kr \<longleftrightarrow>
     (\<exists>c. map_of declarations (fst kr) = Some c \<and> rc_tool_name (snd kr) = tc_name c)"

lemma linkable_iff:
  "require_every_record_linkable records declarations = None \<longleftrightarrow>
     (\<forall>(k, r) \<in> set records. map_of declarations k \<noteq> None)"
proof -
  have "require_every_record_linkable records declarations = None \<longleftrightarrow>
      filter (\<lambda>(k, r). map_of declarations k = None) records = []"
    by (auto simp: require_every_record_linkable_def split: list.splits prod.splits)
       (metis length_0_conv length_sort)
  then show ?thesis by (auto simp: filter_empty_conv)
qed

lemma reconcile_iff:
  "require_records_reconcile records declared = None \<longleftrightarrow>
     (\<forall>kr \<in> set records. answers_declaration (declarations_by_key declared) kr)"
proof -
  have names: "require_every_record_names_its_declared_tool records ds = None \<longleftrightarrow>
      (\<forall>(k, r) \<in> set records. \<forall>c. map_of ds k = Some c \<longrightarrow> rc_tool_name r = tc_name c)" for ds
    by (auto simp: require_every_record_names_its_declared_tool_def first_error_None_iff
        split: option.splits if_splits)
  show ?thesis
    unfolding require_records_reconcile_def Let_def first_error_None_iff
    by (simp add: linkable_iff names answers_declaration_def) fastforce
qed

lemma build_inversion:
  assumes "build_trial_timeline ms recorded tr = Inr t"
  obtains results where
    "map unnumbered (tl_events t) =
       (if turns_of ms \<noteq> [] then
          concat (map2 (turn_seeds (records_by_episode_key recorded) results (user_tool_step_call_ids ms))
            (turns_of ms) (declared_calls (turns_of ms)))
        else concat (map record_seeds (sort_key (\<lambda>(k, r). rc_sequence r) (records_by_episode_key recorded))))"
    "map ev_position (tl_events t) = [0 ..< length (tl_events t)]"
    "sorted (map ev_turn_index (tl_events t))"
    "turns_of ms \<noteq> [] \<Longrightarrow>
       \<forall>kr \<in> set (records_by_episode_key recorded).
         answers_declaration (declarations_by_key (declared_calls (turns_of ms))) kr"
    "recorded \<noteq> [] \<Longrightarrow> results = []"
proof -
  from assms obtain results where r:
    "(if turns_of ms \<noteq> [] then require_records_reconcile (records_by_episode_key recorded)
        (declared_calls (turns_of ms)) else None) = None"
    "(if recorded \<noteq> [] then Inr [] else index_message_results ms (declared_calls (turns_of ms))) = Inr results"
    and ev: "tl_events t = bd_events (let b = new_builder (records_by_episode_key recorded) results (user_tool_step_call_ids ms)
        in if turns_of ms \<noteq> [] then emit_message_view (turns_of ms) (declared_calls (turns_of ms)) b
           else emit_records_alone b)"
    by (auto simp: build_trial_timeline_def Let_def bind_res_eq_Inr_iff split: option.splits if_splits)
  let ?b = "new_builder (records_by_episode_key recorded) results (user_tool_step_call_ids ms)"
  have "numbered (if turns_of ms \<noteq> [] then emit_message_view (turns_of ms) (declared_calls (turns_of ms)) ?b
           else emit_records_alone ?b)"
    using numbered_new numbered_view numbered_records by simp
  then have num: "map ev_position (tl_events t) = [0 ..< length (tl_events t)]"
      "sorted (map ev_turn_index (tl_events t))"
    by (auto simp: ev Let_def numbered_def)
  have nb: "bd_seeds ?b = []" "bd_records ?b = records_by_episode_key recorded"
      "bd_message_results ?b = results" "bd_step_ids ?b = user_tool_step_call_ids ms"
    by (simp_all add: new_builder_def bd_seeds_def)
  have seeds: "map unnumbered (tl_events t) =
       (if turns_of ms \<noteq> [] then
          concat (map2 (turn_seeds (records_by_episode_key recorded) results (user_tool_step_call_ids ms))
            (turns_of ms) (declared_calls (turns_of ms)))
        else concat (map record_seeds (sort_key (\<lambda>(k, r). rc_sequence r) (records_by_episode_key recorded))))"
    using emit_message_view_seeds [of "turns_of ms" "declared_calls (turns_of ms)" ?b]
      fold_emit_record_seeds [of "sort_key (\<lambda>(k, r). rc_sequence r) (records_by_episode_key recorded)" ?b]
    by (simp add: ev bd_seeds_def [symmetric] nb emit_records_alone_def Let_def)
  show thesis
    by (rule that [OF seeds num]) (use r reconcile_iff in \<open>auto split: if_splits\<close>)
qed

subsection \<open>A result stands right after its call\<close>

definition paired :: "TraceEvent list \<Rightarrow> bool" where
  "paired es \<longleftrightarrow> (\<forall>i < length es. ev_kind (es ! i) = TOOL_RESULT \<longrightarrow>
     0 < i \<and> ev_kind (es ! (i - 1)) = TOOL_CALL \<and> ev_call_id (es ! (i - 1)) = ev_call_id (es ! i) \<and>
     ev_tool_name (es ! (i - 1)) = ev_tool_name (es ! i))"

lemma paired_append: "paired xs \<Longrightarrow> paired ys \<Longrightarrow> paired (xs @ ys)"
  unfolding paired_def
proof (intro allI impI)
  fix i
  assume xs: "\<forall>i < length xs. ev_kind (xs ! i) = TOOL_RESULT \<longrightarrow>
     0 < i \<and> ev_kind (xs ! (i - 1)) = TOOL_CALL \<and> ev_call_id (xs ! (i - 1)) = ev_call_id (xs ! i) \<and>
     ev_tool_name (xs ! (i - 1)) = ev_tool_name (xs ! i)"
    and ys: "\<forall>i < length ys. ev_kind (ys ! i) = TOOL_RESULT \<longrightarrow>
     0 < i \<and> ev_kind (ys ! (i - 1)) = TOOL_CALL \<and> ev_call_id (ys ! (i - 1)) = ev_call_id (ys ! i) \<and>
     ev_tool_name (ys ! (i - 1)) = ev_tool_name (ys ! i)"
    and i: "i < length (xs @ ys)" "ev_kind ((xs @ ys) ! i) = TOOL_RESULT"
  show "0 < i \<and> ev_kind ((xs @ ys) ! (i - 1)) = TOOL_CALL \<and>
     ev_call_id ((xs @ ys) ! (i - 1)) = ev_call_id ((xs @ ys) ! i) \<and>
     ev_tool_name ((xs @ ys) ! (i - 1)) = ev_tool_name ((xs @ ys) ! i)"
  proof (cases "i < length xs")
    case True
    then show ?thesis using xs i by (auto simp: nth_append)
  next
    case False
    let ?j = "i - length xs"
    have "0 < ?j \<and> ev_kind (ys ! (?j - 1)) = TOOL_CALL \<and> ev_call_id (ys ! (?j - 1)) = ev_call_id (ys ! ?j) \<and>
       ev_tool_name (ys ! (?j - 1)) = ev_tool_name (ys ! ?j)"
      using ys [rule_format, of ?j] i False by (simp add: nth_append)
    moreover have "?j - 1 = i - 1 - length xs" "\<not> i - 1 < length xs"
      using calculation False by linarith+
    ultimately show ?thesis using False by (simp only: nth_append if_False) simp
  qed
qed

lemma paired_concat: "(\<And>xs. xs \<in> set xss \<Longrightarrow> paired xs) \<Longrightarrow> paired (concat xss)"
proof (induction xss)
  case Nil
  then show ?case by (simp add: paired_def)
next
  case (Cons xs xss)
  then show ?case by (auto intro: paired_append)
qed

lemma paired_unnumbered: "paired (map unnumbered es) \<longleftrightarrow> paired es"
proof -
  have "paired (map f es)" if "paired es"
    "\<And>e. ev_kind (f e) = ev_kind e \<and> ev_call_id (f e) = ev_call_id e \<and> ev_tool_name (f e) = ev_tool_name e"
    for f es using that unfolding paired_def by simp
  moreover have "paired es" if "paired (map unnumbered es)"
    using that unfolding paired_def by simp
  ultimately show ?thesis by auto
qed

lemma paired_two: "ev_kind a = TOOL_CALL \<Longrightarrow> ev_call_id a = ev_call_id b \<Longrightarrow> ev_tool_name a = ev_tool_name b \<Longrightarrow> paired [a, b]"
  by (auto simp: paired_def less_Suc_eq)

lemma paired_one: "ev_kind a \<noteq> TOOL_RESULT \<Longrightarrow> paired [a]"
  by (auto simp: paired_def)

lemma paired_turn:
  assumes "\<And>d. d \<in> set ds \<Longrightarrow>
    case map_of records (dc_key d) of None \<Rightarrow> True | Some r \<Rightarrow> rc_tool_name r = tc_name (dc_call d)"
  shows "paired (turn_seeds records results steps m ds)"
proof -
  have eq: "set (execution_order ds records) = set ds"
    by (rule mset_eq_setD) simp
  have "paired (concat (map (call_seeds records results) (execution_order ds records)))"
  proof (rule paired_concat)
    fix xs
    assume "xs \<in> set (map (call_seeds records results) (execution_order ds records))"
    then obtain d where d: "xs = call_seeds records results d" "d \<in> set ds" using eq by auto
    show "paired xs" unfolding d(1) call_seeds_def
      using assms [OF d(2)] by (auto split: option.splits intro!: paired_two paired_one)
  qed
  moreover have "paired (if is_user_tool_step m steps then []
      else case kind_by_role (m_role m) of None \<Rightarrow> [] | Some kind \<Rightarrow> [(seed kind)\<lparr>ev_text := Some (m_content m)\<rparr>])"
    by (auto simp: paired_def split: option.splits dest: kind_by_role_message)
  ultimately show ?thesis unfolding turn_seeds_def by (rule paired_append [rotated])
qed

lemma record_result_ids:
  assumes "turns_of ms \<noteq> []"
    and "\<forall>kr \<in> set records. answers_declaration (declarations_by_key (declared_calls turns)) kr"
    and "distinct (map fst records)"
  shows "mset (map (Some \<circ> dc_key) (filter (\<lambda>d. map_of records (dc_key d) \<noteq> None) (concat (declared_calls turns))))
    = mset (map (Some \<circ> fst) records)"
proof -
  let ?ds = "filter (\<lambda>d. map_of records (dc_key d) \<noteq> None) (concat (declared_calls turns))"
  have decl: "fst kr \<in> set (map dc_key (concat (declared_calls turns)))" if "kr \<in> set records" for kr
  proof -
    have "answers_declaration (declarations_by_key (declared_calls turns)) kr"
      using assms(2) that by (rule bspec)
    then obtain c where "map_of (declarations_by_key (declared_calls turns)) (fst kr) = Some c"
      by (auto simp: answers_declaration_def)
    then have "fst kr \<in> fst ` set (declarations_by_key (declared_calls turns))"
      by (metis domI dom_map_of_conv_image_fst)
    then show ?thesis by (simp add: declarations_keys declared_keys)
  qed
  have sub: "set (map dc_key ?ds) \<subseteq> set (map fst records)"
    by (auto simp: map_of_eq_None_iff dest: map_of_SomeD)
  have sup: "set (map fst records) \<subseteq> set (map dc_key ?ds)"
  proof
    fix k
    assume k: "k \<in> set (map fst records)"
    then obtain kr where kr: "kr \<in> set records" "k = fst kr" by auto
    from decl [OF kr(1)] obtain d where d: "d \<in> set (concat (declared_calls turns))" "dc_key d = k"
      unfolding kr(2) [symmetric] set_map by (elim imageE) simp
    have "map_of records (dc_key d) \<noteq> None" using k d(2) by (auto simp: map_of_eq_None_iff)
    then show "k \<in> set (map dc_key ?ds)" using d by force
  qed
  have "distinct (map dc_key ?ds)"
    using distinct_declared_keys [of turns] by (simp add: distinct_map_filter)
  then have "mset (map dc_key ?ds) = mset (map fst records)"
    using equalityI [OF sub sup] assms(3) by (simp only: set_eq_iff_mset_eq_distinct)
  then have "image_mset Some (mset (map dc_key ?ds)) = image_mset Some (mset (map fst records))" by simp
  then show ?thesis by (simp add: multiset.map_comp)
qed

lemma result_ids_of_view:
  assumes "length ms = length ds"
  shows "mset (ids_of TOOL_RESULT (concat (map2 (turn_seeds records [] steps) ms ds)))
    = mset (map (Some \<circ> dc_key) (filter (\<lambda>d. map_of records (dc_key d) \<noteq> None) (concat ds)))"
proof -
  have "mset (ids_of TOOL_RESULT (concat (map2 (turn_seeds records [] steps) ms ds)))
      = mset (concat (map (\<lambda>d. map (Some \<circ> dc_key) (filter (\<lambda>d. map_of records (dc_key d) \<noteq> None) d)) ds))"
    using assms by (rule mset_ids_concat_map2) (simp add: turn_result_ids mset_filter)
  then show ?thesis by (simp add: map_concat filter_concat comp_def)
qed

lemma record_ids_alone:
  "mset (ids_of TOOL_CALL (concat (map record_seeds krs))) = mset (map (Some \<circ> fst) krs)"
  "mset (ids_of TOOL_RESULT (concat (map record_seeds krs))) = mset (map (Some \<circ> fst) krs)"
  by (induction krs) (auto simp: record_seeds_def)

lemma declared_call_list: "map dc_call (concat (declared_calls turns)) = concat (map calls_of turns)"
proof -
  have len: "length (fst (assign_all xs t)) = length xs" for xs t
    by (induction xs arbitrary: t) (auto simp: case_prod_beta)
  have "map dc_call (concat (declared_calls_from s ms)) = concat (map calls_of ms)" for s ms
  proof (induction ms arbitrary: s)
    case (Cons m ms)
    then show ?case using len [of "map tc_id (calls_of m)" s]
      by (simp add: case_prod_beta comp_def)
  qed simp
  then show ?thesis by (simp add: declared_calls_def)
qed

lemma records_of_prefix:
  assumes "map rc_call_id (sort_key rc_sequence recorded) = take (length recorded) (declared_ids turns)"
  shows "map fst (records_by_episode_key recorded) = take (length recorded) (episode_unique_call_ids (declared_ids turns))"
    and "length recorded \<le> length (declared_ids turns)"
proof -
  show le: "length recorded \<le> length (declared_ids turns)"
    using arg_cong [OF assms, of length] by simp
  show "map fst (records_by_episode_key recorded) = take (length recorded) (episode_unique_call_ids (declared_ids turns))"
    by (simp add: records_zip assms call_ids_take le)
qed

lemma map_of_zip_nth': "length ks = length vs \<Longrightarrow> distinct ks \<Longrightarrow> i < length ks \<Longrightarrow> map_of (zip ks vs) (ks ! i) = Some (vs ! i)"
  by (simp add: map_of_eq_Some_iff set_zip) blast

text \<open>A two-call turn of which one call ran, used by the witnesses.\<close>

definition demo_call :: "pystr \<Rightarrow> pystr \<Rightarrow> ToolCall" where
  "demo_call i n = \<lparr>tc_id = i, tc_name = n, tc_arguments = []\<rparr>"

definition demo_messages :: "Message list" where
  "demo_messages =
     [\<lparr>m_role = Role_USER, m_content = ''hi'', m_tool_calls = None, m_tool_call_id = None, m_tool_status = None, m_reasoning = None\<rparr>,
      \<lparr>m_role = Role_ASSISTANT, m_content = [], m_tool_calls = Some [demo_call ''a'' ''get'', demo_call ''a'' ''put''],
       m_tool_call_id = None, m_tool_status = None, m_reasoning = None\<rparr>]"

definition demo_records :: "RecordedToolCall list" where
  "demo_records = [\<lparr>rc_call_id = ''a'', rc_sequence = 0, rc_tool_name = ''get'', rc_arguments = [],
     rc_executor = Executor_AGENT, rc_status = SUCCESS, rc_output = ''ok'', rc_latency_seconds = 1\<rparr>]"

lemma demo_reconciles: "is_ok (build_trial_timeline demo_messages demo_records None)"
  by code_simp

lemma demo_builds: "\<exists>t. build_trial_timeline demo_messages demo_records None = Inr t"
  using demo_reconciles by (cases "build_trial_timeline demo_messages demo_records None") auto

section \<open>Properties\<close>

text \<open>
  Property C32.  Positions count the events from zero without a gap, turn indices never go back,
  and every result stands right after the call it answers, under the same key and tool name; so a
  window between two positions and a reading of a call's outcome mean the same on every timeline
  the builder returns.
\<close>

theorem timeline_ordered_and_paired:
  assumes "build_trial_timeline messages recorded reason = Inr t"
  shows "map ev_position (tl_events t) = [0 ..< length (tl_events t)] \<and>
    sorted (map ev_turn_index (tl_events t)) \<and> paired (tl_events t)"
proof -
  from build_inversion [OF assms] obtain results where r:
    "map unnumbered (tl_events t) =
       (if turns_of messages \<noteq> [] then
          concat (map2 (turn_seeds (records_by_episode_key recorded) results (user_tool_step_call_ids messages))
            (turns_of messages) (declared_calls (turns_of messages)))
        else concat (map record_seeds (sort_key (\<lambda>(k, r). rc_sequence r) (records_by_episode_key recorded))))"
    "map ev_position (tl_events t) = [0 ..< length (tl_events t)]"
    "sorted (map ev_turn_index (tl_events t))"
    "turns_of messages \<noteq> [] \<Longrightarrow>
       \<forall>kr \<in> set (records_by_episode_key recorded).
         answers_declaration (declarations_by_key (declared_calls (turns_of messages))) kr"
    by metis
  have "paired (map unnumbered (tl_events t))"
  proof (cases "turns_of messages = []")
    case True
    then show ?thesis using r(1)
      by (auto intro!: paired_concat paired_two simp: record_seeds_def)
  next
    case False
    have name: "rc_tool_name rc = tc_name (dc_call d)"
      if "d \<in> set (concat (declared_calls (turns_of messages)))"
        "map_of (records_by_episode_key recorded) (dc_key d) = Some rc" for d rc
      using bspec [OF r(4) [OF False] map_of_SomeD [OF that(2)]] declarations_of_declared [OF that(1)]
      by (simp add: answers_declaration_def)
    have "paired (concat (map2 (turn_seeds (records_by_episode_key recorded) results (user_tool_step_call_ids messages))
            (turns_of messages) (declared_calls (turns_of messages))))"
    proof (rule paired_concat)
      fix xs
      assume "xs \<in> set (map2 (turn_seeds (records_by_episode_key recorded) results (user_tool_step_call_ids messages))
            (turns_of messages) (declared_calls (turns_of messages)))"
      then obtain m ds where "ds \<in> set (declared_calls (turns_of messages))"
        and xs: "xs = turn_seeds (records_by_episode_key recorded) results (user_tool_step_call_ids messages) m ds"
        by (auto dest: set_zip_rightD)
      then have "d \<in> set (concat (declared_calls (turns_of messages)))" if "d \<in> set ds" for d
        using that by auto
      then show "paired xs" unfolding xs
        by (intro paired_turn) (simp split: option.split add: name)
    qed
    then show ?thesis using r(1) False by simp
  qed
  then show ?thesis using r(2,3) by (simp add: paired_unnumbered)
qed

theorem timeline_ordered_and_paired_witness:
  "\<exists>t. build_trial_timeline demo_messages demo_records None = Inr t \<and>
     map ev_position (tl_events t) = [0 ..< length (tl_events t)] \<and>
     sorted (map ev_turn_index (tl_events t)) \<and> paired (tl_events t)"
  using demo_builds timeline_ordered_and_paired by blast

text \<open>
  Property C8.  The join loses nothing and invents nothing.  On a trial with a message view there
  is exactly one call event per declared call, under its episode-unique key; with a record view
  there is exactly one result event per recorded call, whether or not there is a message view.
\<close>

theorem timeline_accounts_for_every_call:
  assumes "build_trial_timeline messages recorded reason = Inr t"
  shows "mset (ids_of TOOL_CALL (tl_events t)) =
      (if turns_of messages \<noteq> [] then mset (map Some (episode_unique_call_ids (declared_ids (turns_of messages))))
       else mset (map (Some \<circ> fst) (records_by_episode_key recorded))) \<and>
    (recorded \<noteq> [] \<longrightarrow>
      mset (ids_of TOOL_RESULT (tl_events t)) = mset (map (Some \<circ> fst) (records_by_episode_key recorded)))"
proof -
  from build_inversion [OF assms] obtain results where r:
    "map unnumbered (tl_events t) =
       (if turns_of messages \<noteq> [] then
          concat (map2 (turn_seeds (records_by_episode_key recorded) results (user_tool_step_call_ids messages))
            (turns_of messages) (declared_calls (turns_of messages)))
        else concat (map record_seeds (sort_key (\<lambda>(k, r). rc_sequence r) (records_by_episode_key recorded))))"
    "turns_of messages \<noteq> [] \<Longrightarrow>
       \<forall>kr \<in> set (records_by_episode_key recorded).
         answers_declaration (declarations_by_key (declared_calls (turns_of messages))) kr"
    "recorded \<noteq> [] \<Longrightarrow> results = []"
    by metis
  have ids: "ids_of k (tl_events t) = ids_of k (map unnumbered (tl_events t))" for k by simp
  show ?thesis
  proof (cases "turns_of messages = []")
    case True
    then show ?thesis unfolding ids r(1) by (simp add: record_ids_alone mset_map [symmetric] del: mset_map)
        (simp add: record_ids_alone)
  next
    case False
    have keys: "map (Some \<circ> dc_key) (concat (declared_calls (turns_of messages)))
        = map Some (episode_unique_call_ids (declared_ids (turns_of messages)))"
      using declared_keys [of "turns_of messages"] by (metis map_map)
    show ?thesis
      unfolding ids r(1)
      using False call_ids_of_view [of "turns_of messages" "declared_calls (turns_of messages)"] keys r(3)
        result_ids_of_view [of "turns_of messages" "declared_calls (turns_of messages)"]
        record_result_ids [OF False r(2) distinct_record_keys]
      by simp
  qed
qed

theorem timeline_accounts_for_every_call_witness:
  "\<exists>t. build_trial_timeline demo_messages demo_records None = Inr t \<and>
     mset (ids_of TOOL_CALL (tl_events t)) = {#Some ''a'', Some ''a#2''#}"
proof -
  obtain t where t: "build_trial_timeline demo_messages demo_records None = Inr t"
    using demo_builds by blast
  have "turns_of demo_messages \<noteq> []" by code_simp
  moreover have "episode_unique_call_ids (declared_ids (turns_of demo_messages)) = [''a'', ''a#2'']" by code_simp
  ultimately show ?thesis using timeline_accounts_for_every_call [OF t] t by auto
qed

text \<open>
  Property C33.  When the join raises.  With a record view the timeline is built exactly when there
  is no message view, or every recorded key is a declared key whose declaration names the recorded
  tool; no other input makes it raise.
\<close>

theorem timeline_joins_iff_records_reconcile:
  assumes "recorded \<noteq> []"
  shows "is_ok (build_trial_timeline messages recorded reason) \<longleftrightarrow>
    turns_of messages = [] \<or>
    (\<forall>kr \<in> set (records_by_episode_key recorded).
       answers_declaration (declarations_by_key (declared_calls (turns_of messages))) kr)"
  using assms reconcile_iff [of "records_by_episode_key recorded" "declared_calls (turns_of messages)"]
  by (auto simp: build_trial_timeline_def Let_def split: option.splits)

theorem timeline_joins_iff_records_reconcile_witness:
  "demo_records \<noteq> [] \<and> \<not> is_ok (build_trial_timeline demo_messages
     (map (\<lambda>r. r\<lparr>rc_tool_name := ''put''\<rparr>) demo_records) None) \<and>
   \<not> list_all (answers_declaration (declarations_by_key (declared_calls (turns_of demo_messages))))
       (records_by_episode_key (map (\<lambda>r. r\<lparr>rc_tool_name := ''put''\<rparr>) demo_records))"
proof -
  have n: "demo_records \<noteq> []" "map (\<lambda>r. r\<lparr>rc_tool_name := ''put''\<rparr>) demo_records \<noteq> []"
    by (simp_all add: demo_records_def)
  have "\<not> is_ok (build_trial_timeline demo_messages (map (\<lambda>r. r\<lparr>rc_tool_name := ''put''\<rparr>) demo_records) None)"
    by code_simp
  then show ?thesis using timeline_joins_iff_records_reconcile [OF n(2), of demo_messages None] n(1)
    by (simp add: list_all_iff)
qed

text \<open>
  Why the join is by occurrence.  If the calls that ran are a prefix of the calls
  declared (a turn executes in declaration order and the episode stops at the first failure) and
  name the declared tools, then the timeline is built and the \<open>i\<close>-th declaration is paired with the
  \<open>i\<close>-th record, even when the provider repeats raw ids.
\<close>

theorem executed_prefix_pairs_by_occurrence:
  assumes "turns_of messages \<noteq> []" and "recorded \<noteq> []"
    and prefix: "map rc_call_id (sort_key rc_sequence recorded)
          = take (length recorded) (declared_ids (turns_of messages))"
    and tools: "\<forall>i < length recorded. rc_tool_name (sort_key rc_sequence recorded ! i)
          = tc_name (concat (map calls_of (turns_of messages)) ! i)"
  shows "is_ok (build_trial_timeline messages recorded reason) \<and>
    (\<forall>i < length recorded. map_of (records_by_episode_key recorded)
       (episode_unique_call_ids (declared_ids (turns_of messages)) ! i) = Some (sort_key rc_sequence recorded ! i))"
proof -
  let ?turns = "turns_of messages" and ?rs = "sort_key rc_sequence recorded"
  let ?keys = "episode_unique_call_ids (declared_ids ?turns)"
  let ?ds = "concat (declared_calls ?turns)"
  note keys = records_of_prefix [OF prefix]
  have rk: "episode_unique_call_ids (map rc_call_id ?rs) = take (length recorded) ?keys"
    by (simp add: prefix call_ids_take)
  have pair: "map_of (records_by_episode_key recorded) (?keys ! i) = Some (?rs ! i)"
    if "i < length recorded" for i
    using map_of_zip_nth' [of "take (length recorded) ?keys" ?rs i] that keys(2)
    by (simp add: records_zip rk)
  have "answers_declaration (declarations_by_key (declared_calls ?turns)) kr"
    if kr: "kr \<in> set (records_by_episode_key recorded)" for kr
  proof -
    obtain i where i: "i < length recorded" "kr = (?keys ! i, ?rs ! i)"
      using kr keys(2) by (auto simp: records_zip rk set_zip)
    have "length ?ds = length (declared_ids ?turns)"
      using declared_keys [of ?turns] by (metis length_call_ids length_map)
    then have il: "i < length ?ds" using i(1) keys(2) by simp
    have k: "?keys ! i = dc_key (?ds ! i)" using il declared_keys [of ?turns] by (metis nth_map)
    have "dc_call (?ds ! i) = concat (map calls_of ?turns) ! i"
      using il declared_call_list [of ?turns] by (metis nth_map)
    then show ?thesis
      using declarations_of_declared [OF nth_mem [OF il]] i tools
      by (simp add: answers_declaration_def k)
  qed
  then have "is_ok (build_trial_timeline messages recorded reason)"
    using assms(1,2) reconcile_iff [of "records_by_episode_key recorded" "declared_calls ?turns"]
    by (auto simp: build_trial_timeline_def Let_def split: option.splits)
  with pair show ?thesis by blast
qed

theorem executed_prefix_pairs_by_occurrence_witness:
  "is_ok (build_trial_timeline demo_messages demo_records None) \<and>
   map_of (records_by_episode_key demo_records) ''a'' = Some (demo_records ! 0)"
proof -
  have h: "turns_of demo_messages \<noteq> []" "demo_records \<noteq> []" by code_simp+
  have p: "map rc_call_id (sort_key rc_sequence demo_records)
      = take (length demo_records) (declared_ids (turns_of demo_messages))" by code_simp
  have one: "length demo_records = 1" "sort_key rc_sequence demo_records = demo_records"
    by (simp_all add: demo_records_def)
  have t: "\<forall>i < length demo_records. rc_tool_name (sort_key rc_sequence demo_records ! i)
      = tc_name (concat (map calls_of (turns_of demo_messages)) ! i)"
    by (simp add: one) (code_simp)
  have "episode_unique_call_ids (declared_ids (turns_of demo_messages)) ! 0 = ''a''" by code_simp
  with executed_prefix_pairs_by_occurrence [OF h p t, of None] one show ?thesis by simp
qed

end
