(* ===== verification/Trace_Model.thy ===== *)
theory Trace_Model
  imports Trace_Timeline
begin

text \<open>
  The authored \<^verbatim>\<open>trace_checks\<close> block and its load-time validators, the part of
  \<^verbatim>\<open>tolokaforge/runner/models.py\<close> from \<^verbatim>\<open>TRACE_MATCHABLE_FIELDS_BY_KIND\<close> to \<^verbatim>\<open>TraceChecksConfig\<close>.
  A validator returns the error it raises, if any, and is named after the method, and
  \<open>validate_config\<close> runs them in the order the models do, a nested model before the one that holds
  it.  A constraint expression is a datatype with one constructor per kind: the model class has one
  optional field per kind and refuses to be built with none or two of them.
\<close>

section \<open>Matchers\<close>

record TraceMatcher =
  tm_kind :: TraceEventKind
  tm_tool :: "ValuePredicate option"
  tm_executor :: "ValuePredicate option"
  tm_args :: "(pystr, ValuePredicate) dict option"
  tm_status :: "ValuePredicate option"
  tm_result :: "ValuePredicate option"
  tm_text :: "ValuePredicate option"

datatype config_error =
    PredicateError predicate_error
  | ArgsEmpty
  | NullnessProbeOnEvidence "pystr list"
  | FieldKindNeverCarries "pystr list"
  | UnproducibleStatus
  | UnhashableStatusLiteral
  | EngineWithoutPattern
  | CaptureGroupCount nat
  | BindsNothing
  | UnreadableExtraction "pystr list"
  | ClosedVocabularyExtraction "pystr list"
  | NegativeBound
  | CountUnbounded
  | CountBoundsInverted
  | EmptyNesting
  | OrderOverOneMatcher
  | AbsentBeforeItsOwnFirst
  | SelfReferentialWindow
  | WindowUnbounded
  | WindowInverted
  | EmptyText
  | WeightNotPositive
  | WeightOnGate
  | GateOpensOnMissing
  | UnboundReference "pystr list"
  | BinderReadsItsNames "pystr list"
  | UnreadBinding "pystr list"
  | GateOpensUnbound
  | OnMissingNothingAnchored
  | NothingToScore
  | TooFewAlternatives
  | UnscoreableRoute "pystr list"
  | DuplicateIds "pystr list"

fun TRACE_MATCHABLE_FIELDS_BY_KIND :: "TraceEventKind \<Rightarrow> pystr list" where
  "TRACE_MATCHABLE_FIELDS_BY_KIND TOOL_CALL = [''tool'', ''executor'', ''args'', ''status'', ''result'']"
| "TRACE_MATCHABLE_FIELDS_BY_KIND TOOL_RESULT = [''tool'', ''executor'', ''status'', ''result'']"
| "TRACE_MATCHABLE_FIELDS_BY_KIND ASSISTANT_MESSAGE = [''text'']"
| "TRACE_MATCHABLE_FIELDS_BY_KIND USER_MESSAGE = [''text'']"

definition declared_fields :: "TraceMatcher \<Rightarrow> pystr list" where
  "declared_fields m =
     (if tm_tool m \<noteq> None then [''tool''] else []) @
     (if tm_executor m \<noteq> None then [''executor''] else []) @
     (if tm_args m \<noteq> None then [''args''] else []) @
     (if tm_status m \<noteq> None then [''status''] else []) @
     (if tm_result m \<noteq> None then [''result''] else []) @
     (if tm_text m \<noteq> None then [''text''] else [])"

definition declares_nullness_probe :: "ValuePredicate option \<Rightarrow> bool" where
  "declares_nullness_probe p =
     (case p of None \<Rightarrow> False | Some q \<Rightarrow> vp_is_null q \<noteq> None \<or> vp_omitted q \<noteq> None)"

definition reject_a_nullness_probe_on_recorded_evidence :: "TraceMatcher \<Rightarrow> config_error option" where
  "reject_a_nullness_probe_on_recorded_evidence m =
     (let offenders = (if declares_nullness_probe (tm_executor m) then [''executor''] else []) @
                      (if declares_nullness_probe (tm_result m) then [''result''] else []) @
                      (if declares_nullness_probe (tm_status m) then [''status''] else [])
      in if offenders = [] then None else Some (NullnessProbeOnEvidence offenders))"

definition reject_fields_the_kind_never_carries :: "TraceMatcher \<Rightarrow> config_error option" where
  "reject_fields_the_kind_never_carries m =
     (let unmatchable = filter (\<lambda>f. f \<notin> set (TRACE_MATCHABLE_FIELDS_BY_KIND (tm_kind m))) (declared_fields m)
      in if unmatchable = [] then None else Some (FieldKindNeverCarries unmatchable))"

definition status_literals :: "ValuePredicate \<Rightarrow> pyval list" where
  "status_literals p =
     (if vp_equals p = VNone then [] else [vp_equals p]) @
     (if vp_not_equals p = VNone then [] else [vp_not_equals p]) @
     (case vp_in p of None \<Rightarrow> [] | Some vs \<Rightarrow> vs) @
     (case vp_not_in p of None \<Rightarrow> [] | Some vs \<Rightarrow> vs)"

text \<open>\<^verbatim>\<open>value not in producible\<close> hashes the value first, which a list or a dict refuses.\<close>

definition reject_a_status_literal_no_execution_produces :: "TraceMatcher \<Rightarrow> config_error option" where
  "reject_a_status_literal_no_execution_produces m =
     (case tm_status m of
        None \<Rightarrow> None
      | Some p \<Rightarrow>
          if list_ex (\<lambda>v. py_type v \<in> {TList, TDict}) (status_literals p) then Some UnhashableStatusLiteral
          else if list_ex (\<lambda>v. v \<notin> set (map (VStr \<circ> status_value) all_statuses)) (status_literals p)
               then Some UnproducibleStatus else None)"

definition predicates_of :: "TraceMatcher \<Rightarrow> ValuePredicate list" where
  "predicates_of m =
     (case tm_tool m of None \<Rightarrow> [] | Some p \<Rightarrow> [p]) @
     (case tm_executor m of None \<Rightarrow> [] | Some p \<Rightarrow> [p]) @
     (case tm_args m of None \<Rightarrow> [] | Some d \<Rightarrow> map snd d) @
     (case tm_status m of None \<Rightarrow> [] | Some p \<Rightarrow> [p]) @
     (case tm_result m of None \<Rightarrow> [] | Some p \<Rightarrow> [p]) @
     (case tm_text m of None \<Rightarrow> [] | Some p \<Rightarrow> [p])"

definition validate_matcher :: "TraceMatcher \<Rightarrow> config_error option" where
  "validate_matcher m =
     first_error
       (map (\<lambda>p. map_option PredicateError (validate_predicate p)) (predicates_of m) @
        [if tm_args m = Some [] then Some ArgsEmpty else None,
         reject_a_nullness_probe_on_recorded_evidence m,
         reject_fields_the_kind_never_carries m,
         reject_a_status_literal_no_execution_produces m])"

definition matcher_bindings :: "TraceMatcher \<Rightarrow> pystr list" where
  "matcher_bindings m = concat (map referenced_bindings (predicates_of m))"

subsection \<open>Equality of matchers\<close>

text \<open>Python's \<^verbatim>\<open>==\<close> on two models compares their fields, so two literals that Python equates make
  equal matchers and the order of \<^verbatim>\<open>args\<close> does not matter.\<close>

definition opt_list_eq :: "pyval list option \<Rightarrow> pyval list option \<Rightarrow> bool" where
  "opt_list_eq a b = (case (a, b) of
     (None, None) \<Rightarrow> True | (Some xs, Some ys) \<Rightarrow> list_all2 py_eq xs ys | _ \<Rightarrow> False)"

definition predicate_eq :: "ValuePredicate \<Rightarrow> ValuePredicate \<Rightarrow> bool" where
  "predicate_eq p q \<longleftrightarrow>
     py_eq (vp_equals p) (vp_equals q) \<and> py_eq (vp_contains p) (vp_contains q) \<and>
     py_eq (vp_not_contains p) (vp_not_contains q) \<and> py_eq (vp_not_equals p) (vp_not_equals q) \<and>
     opt_list_eq (vp_in p) (vp_in q) \<and> opt_list_eq (vp_not_in p) (vp_not_in q) \<and>
     p\<lparr>vp_equals := VNone, vp_contains := VNone, vp_not_contains := VNone, vp_not_equals := VNone,
       vp_in := None, vp_not_in := None\<rparr>
     = q\<lparr>vp_equals := VNone, vp_contains := VNone, vp_not_contains := VNone, vp_not_equals := VNone,
       vp_in := None, vp_not_in := None\<rparr>"

definition opt_predicate_eq :: "ValuePredicate option \<Rightarrow> ValuePredicate option \<Rightarrow> bool" where
  "opt_predicate_eq a b = (case (a, b) of
     (None, None) \<Rightarrow> True | (Some p, Some q) \<Rightarrow> predicate_eq p q | _ \<Rightarrow> False)"

definition args_eq ::
    "(pystr, ValuePredicate) dict option \<Rightarrow> (pystr, ValuePredicate) dict option \<Rightarrow> bool" where
  "args_eq a b = (case (a, b) of
     (None, None) \<Rightarrow> True
   | (Some d, Some e) \<Rightarrow> length d = length e \<and>
       list_all (\<lambda>(k, p). case map_of e k of None \<Rightarrow> False | Some q \<Rightarrow> predicate_eq p q) d
   | _ \<Rightarrow> False)"

definition matcher_eq :: "TraceMatcher \<Rightarrow> TraceMatcher \<Rightarrow> bool" where
  "matcher_eq m n \<longleftrightarrow> tm_kind m = tm_kind n \<and>
     opt_predicate_eq (tm_tool m) (tm_tool n) \<and> opt_predicate_eq (tm_executor m) (tm_executor n) \<and>
     args_eq (tm_args m) (tm_args n) \<and> opt_predicate_eq (tm_status m) (tm_status n) \<and>
     opt_predicate_eq (tm_result m) (tm_result n) \<and> opt_predicate_eq (tm_text m) (tm_text n)"

section \<open>Bindings\<close>

record BoundValue =
  bv_field :: pystr
  bv_pattern :: "pystr option"
  bv_regex_engine :: "RegexEngineKind option"

definition bound_engine_under :: "BoundValue \<Rightarrow> RegexEngineKind \<Rightarrow> RegexEngineKind" where
  "bound_engine_under v section = (case bv_regex_engine v of None \<Rightarrow> section | Some e \<Rightarrow> e)"

definition head_segment :: "BoundValue \<Rightarrow> pystr" where
  "head_segment v = takeWhile (\<lambda>c. c \<noteq> CHR ''.'') (bv_field v)"

definition bound_engine_over_no_pattern :: "BoundValue \<Rightarrow> config_error option" where
  "bound_engine_over_no_pattern v =
     (if bv_regex_engine v = None \<or> bv_pattern v \<noteq> None then None else Some EngineWithoutPattern)"

definition require_a_pattern_that_captures_exactly_one_value ::
    "regex_lib \<Rightarrow> BoundValue \<Rightarrow> config_error option" where
  "require_a_pattern_that_captures_exactly_one_value lib v =
     (case bv_pattern v of
        None \<Rightarrow> None
      | Some pattern \<Rightarrow>
          (case rx_groups lib BACKTRACKING pattern of
             None \<Rightarrow> None
           | Some groups \<Rightarrow> if groups = 1 then None else Some (CaptureGroupCount groups)))"

datatype OnUnbound = Unbound_FAIL | Unbound_PASS

record TraceBinding =
  tb_match :: TraceMatcher
  tb_values :: "(pystr, BoundValue) dict"
  tb_on_unbound :: OnUnbound

definition require_a_binding_that_binds_something :: "TraceBinding \<Rightarrow> config_error option" where
  "require_a_binding_that_binds_something b = (if tb_values b = [] then Some BindsNothing else None)"

definition reject_an_extraction_the_binder_cannot_read :: "TraceBinding \<Rightarrow> config_error option" where
  "reject_an_extraction_the_binder_cannot_read b =
     (let unreadable = filter (\<lambda>(n, v). head_segment v \<notin>
            set (TRACE_MATCHABLE_FIELDS_BY_KIND (tm_kind (tb_match b)))) (tb_values b)
      in if unreadable = [] then None else Some (UnreadableExtraction (sort (map fst unreadable))))"

definition reject_an_extraction_over_a_closed_vocabulary :: "TraceBinding \<Rightarrow> config_error option" where
  "reject_an_extraction_over_a_closed_vocabulary b =
     (let closed = filter (\<lambda>(n, v). head_segment v \<in> {''status'', ''executor''}) (tb_values b)
      in if closed = [] then None else Some (ClosedVocabularyExtraction (sort (map fst closed))))"

definition validate_binding :: "regex_lib \<Rightarrow> TraceBinding \<Rightarrow> config_error option" where
  "validate_binding lib b =
     first_error
       (validate_matcher (tb_match b) #
        concat (map (\<lambda>(n, v). [bound_engine_over_no_pattern v,
                   require_a_pattern_that_captures_exactly_one_value lib v]) (tb_values b)) @
        [require_a_binding_that_binds_something b,
         reject_an_extraction_the_binder_cannot_read b,
         reject_an_extraction_over_a_closed_vocabulary b])"

section \<open>Constraint expressions\<close>

datatype Quantifier = Q_ANY | Q_ALL | Q_FIRST | Q_LAST

datatype AnchorQuantifier = A_FIRST | A_LAST

record MatcherSide =
  ms_quantifier :: Quantifier
  ms_match :: TraceMatcher

record AnchorSide =
  as_quantifier :: AnchorQuantifier
  as_match :: TraceMatcher

datatype AdjacencyView = View_TOOL_CALLS | View_TOOL_RESULTS | View_MESSAGES | View_EVENTS

datatype TraceConstraintExpr =
    E_present TraceMatcher
  | E_absent TraceMatcher
  | E_count TraceMatcher "int option" "int option"
  | E_before MatcherSide MatcherSide
  | E_immediately_before MatcherSide MatcherSide AdjacencyView
  | E_absent_before TraceMatcher AnchorSide
  | E_absent_between TraceMatcher AnchorSide AnchorSide
  | E_all_of "TraceConstraintExpr list"
  | E_any_of "TraceConstraintExpr list"
  | E_negate TraceConstraintExpr

datatype TraceConstraintKind =
    K_PRESENT | K_ABSENT | K_COUNT | K_BEFORE | K_IMMEDIATELY_BEFORE | K_ABSENT_BEFORE
  | K_ABSENT_BETWEEN | K_ALL_OF | K_ANY_OF | K_NEGATE

fun declared_kind :: "TraceConstraintExpr \<Rightarrow> TraceConstraintKind" where
  "declared_kind (E_present _) = K_PRESENT"
| "declared_kind (E_absent _) = K_ABSENT"
| "declared_kind (E_count _ _ _) = K_COUNT"
| "declared_kind (E_before _ _) = K_BEFORE"
| "declared_kind (E_immediately_before _ _ _) = K_IMMEDIATELY_BEFORE"
| "declared_kind (E_absent_before _ _) = K_ABSENT_BEFORE"
| "declared_kind (E_absent_between _ _ _) = K_ABSENT_BETWEEN"
| "declared_kind (E_all_of _) = K_ALL_OF"
| "declared_kind (E_any_of _) = K_ANY_OF"
| "declared_kind (E_negate _) = K_NEGATE"

fun kinds_in_tree :: "TraceConstraintExpr \<Rightarrow> TraceConstraintKind list" where
  "kinds_in_tree (E_all_of es) = K_ALL_OF # concat (map kinds_in_tree es)"
| "kinds_in_tree (E_any_of es) = K_ANY_OF # concat (map kinds_in_tree es)"
| "kinds_in_tree (E_negate e) = K_NEGATE # kinds_in_tree e"
| "kinds_in_tree e = [declared_kind e]"

datatype OnMissing = M_FAIL | M_PASS | M_WITHHOLD

fun KINDS_REFUSING_EACH_ON_MISSING :: "OnMissing \<Rightarrow> TraceConstraintKind list" where
  "KINDS_REFUSING_EACH_ON_MISSING M_FAIL = [K_PRESENT, K_ABSENT, K_COUNT]"
| "KINDS_REFUSING_EACH_ON_MISSING M_PASS = [K_PRESENT, K_ABSENT, K_COUNT]"
| "KINDS_REFUSING_EACH_ON_MISSING M_WITHHOLD = [K_ABSENT]"

definition kinds_refusing_on_missing :: "TraceConstraintExpr \<Rightarrow> OnMissing \<Rightarrow> TraceConstraintKind list" where
  "kinds_refusing_on_missing e policy =
     filter (\<lambda>k. k \<in> set (KINDS_REFUSING_EACH_ON_MISSING policy)) (kinds_in_tree e)"

fun matchers_within :: "TraceConstraintExpr \<Rightarrow> TraceMatcher list" where
  "matchers_within (E_present m) = [m]"
| "matchers_within (E_absent m) = [m]"
| "matchers_within (E_count m _ _) = [m]"
| "matchers_within (E_before l r) = [ms_match l, ms_match r]"
| "matchers_within (E_immediately_before l r _) = [ms_match l, ms_match r]"
| "matchers_within (E_absent_before f a) = [f, as_match a]"
| "matchers_within (E_absent_between f s e) = [f, as_match s, as_match e]"
| "matchers_within (E_all_of es) = concat (map matchers_within es)"
| "matchers_within (E_any_of es) = concat (map matchers_within es)"
| "matchers_within (E_negate e) = matchers_within e"

definition bindings_referenced_by :: "TraceConstraintExpr \<Rightarrow> pystr list" where
  "bindings_referenced_by e = concat (map matcher_bindings (matchers_within e))"

subsection \<open>Validators\<close>

definition require_a_bound_that_can_fail :: "int option \<Rightarrow> int option \<Rightarrow> config_error option" where
  "require_a_bound_that_can_fail mn mx =
     (case (mn, mx) of
        (None, None) \<Rightarrow> Some CountUnbounded
      | (Some a, Some b) \<Rightarrow> if a > b then Some CountBoundsInverted else None
      | _ \<Rightarrow> None)"

definition bound_not_negative :: "int option \<Rightarrow> config_error option" where
  "bound_not_negative b = (case b of None \<Rightarrow> None | Some k \<Rightarrow> if k < 0 then Some NegativeBound else None)"

definition LEFT_QUANTIFIERS_LEAVING_A_SUCCESSOR :: "Quantifier list" where
  "LEFT_QUANTIFIERS_LEAVING_A_SUCCESSOR = [Q_FIRST, Q_ANY]"

definition RIGHT_QUANTIFIERS_LEAVING_A_PREDECESSOR :: "Quantifier list" where
  "RIGHT_QUANTIFIERS_LEAVING_A_PREDECESSOR = [Q_LAST, Q_ANY]"

definition order_can_hold :: "MatcherSide \<Rightarrow> MatcherSide \<Rightarrow> bool" where
  "order_can_hold l r \<longleftrightarrow>
     ms_quantifier l \<in> set LEFT_QUANTIFIERS_LEAVING_A_SUCCESSOR \<and>
     ms_quantifier r \<in> set RIGHT_QUANTIFIERS_LEAVING_A_PREDECESSOR"

fun reject_an_order_over_one_matcher_that_no_trial_decides ::
    "TraceConstraintExpr \<Rightarrow> config_error option" where
  "reject_an_order_over_one_matcher_that_no_trial_decides (E_before l r) =
     (if matcher_eq (ms_match l) (ms_match r) \<and> \<not> order_can_hold l r then Some OrderOverOneMatcher else None)"
| "reject_an_order_over_one_matcher_that_no_trial_decides (E_immediately_before l r v) =
     (if matcher_eq (ms_match l) (ms_match r) \<and> \<not> order_can_hold l r then Some OrderOverOneMatcher else None)"
| "reject_an_order_over_one_matcher_that_no_trial_decides (E_absent_before f a) =
     (if matcher_eq f (as_match a) \<and> as_quantifier a = A_FIRST then Some AbsentBeforeItsOwnFirst else None)"
| "reject_an_order_over_one_matcher_that_no_trial_decides (E_absent_between f s e) =
     (if matcher_eq f (as_match s) \<and> matcher_eq (as_match s) (as_match e) \<and>
         \<not> (as_quantifier s = A_FIRST \<and> as_quantifier e = A_LAST) then Some SelfReferentialWindow else None)"
| "reject_an_order_over_one_matcher_that_no_trial_decides _ = None"

fun payload_error :: "TraceConstraintExpr \<Rightarrow> config_error option" where
  "payload_error (E_count m mn mx) =
     first_error [bound_not_negative mn, bound_not_negative mx, require_a_bound_that_can_fail mn mx]"
| "payload_error (E_all_of es) = (if es = [] then Some EmptyNesting else None)"
| "payload_error (E_any_of es) = (if es = [] then Some EmptyNesting else None)"
| "payload_error _ = None"

fun validate_expr :: "TraceConstraintExpr \<Rightarrow> config_error option" where
  "validate_expr (E_all_of es) = first_error (map validate_expr es @ [payload_error (E_all_of es)])"
| "validate_expr (E_any_of es) = first_error (map validate_expr es @ [payload_error (E_any_of es)])"
| "validate_expr (E_negate e) = validate_expr e"
| "validate_expr e =
     first_error (map validate_matcher (matchers_within e) @
       [payload_error e, reject_an_order_over_one_matcher_that_no_trial_decides e])"

section \<open>Constraints and the block\<close>

datatype TraceConstraintSeverity = S_SCORED | S_GATE

record TurnWindow =
  tw_first_turn :: "int option"
  tw_last_turn :: "int option"

definition require_a_window_some_turn_falls_in :: "TurnWindow \<Rightarrow> config_error option" where
  "require_a_window_some_turn_falls_in w =
     (case (tw_first_turn w, tw_last_turn w) of
        (None, None) \<Rightarrow> Some WindowUnbounded
      | (Some a, Some b) \<Rightarrow> if a > b then Some WindowInverted else None
      | _ \<Rightarrow> None)"

definition validate_window :: "TurnWindow \<Rightarrow> config_error option" where
  "validate_window w =
     first_error [bound_not_negative (tw_first_turn w), bound_not_negative (tw_last_turn w),
                  require_a_window_some_turn_falls_in w]"

record TraceConstraint =
  con_id :: pystr
  con_description :: pystr
  con_weight :: pyfloat
  con_on_missing :: "OnMissing option"
  con_severity :: TraceConstraintSeverity
  con_within :: "TurnWindow option"
  con_bind :: "TraceBinding option"
  con_require :: TraceConstraintExpr

definition bound_names :: "TraceConstraint \<Rightarrow> pystr list" where
  "bound_names c = (case con_bind c of None \<Rightarrow> [] | Some b \<Rightarrow> map fst (tb_values b))"

definition constraint_matchers :: "TraceConstraint \<Rightarrow> TraceMatcher list" where
  "constraint_matchers c =
     (case con_bind c of None \<Rightarrow> [] | Some b \<Rightarrow> [tb_match b]) @ matchers_within (con_require c)"

definition require_a_weight_that_scores :: "TraceConstraint \<Rightarrow> config_error option" where
  "require_a_weight_that_scores c = (if con_weight c \<le> 0 then Some WeightNotPositive else None)"

definition reject_a_weight_on_a_check_nothing_scores :: "TraceConstraint \<Rightarrow> config_error option" where
  "reject_a_weight_on_a_check_nothing_scores c =
     (if con_severity c = S_GATE \<and> con_weight c \<noteq> 1 then Some WeightOnGate else None)"

definition reject_an_anchor_policy_that_opens_a_gate_vacuously :: "TraceConstraint \<Rightarrow> config_error option" where
  "reject_an_anchor_policy_that_opens_a_gate_vacuously c =
     (if con_severity c = S_GATE \<and> con_on_missing c = Some M_PASS then Some GateOpensOnMissing else None)"

definition binder_bindings :: "TraceConstraint \<Rightarrow> pystr list" where
  "binder_bindings c = (case con_bind c of None \<Rightarrow> [] | Some b \<Rightarrow> matcher_bindings (tb_match b))"

definition reject_a_reference_to_a_name_nothing_binds :: "TraceConstraint \<Rightarrow> config_error option" where
  "reject_a_reference_to_a_name_nothing_binds c =
     (let unbound = filter (\<lambda>n. n \<notin> set (bound_names c)) (bindings_referenced_by (con_require c) @ binder_bindings c)
      in if unbound = [] then None else Some (UnboundReference (sort (remdups unbound))))"

definition reject_a_binder_reading_the_names_it_binds :: "TraceConstraint \<Rightarrow> config_error option" where
  "reject_a_binder_reading_the_names_it_binds c =
     (let self_referential = filter (\<lambda>n. n \<in> set (bound_names c)) (binder_bindings c)
      in if self_referential = [] then None else Some (BinderReadsItsNames (sort (remdups self_referential))))"

definition reject_a_bound_value_nothing_reads :: "TraceConstraint \<Rightarrow> config_error option" where
  "reject_a_bound_value_nothing_reads c =
     (let unreferenced = filter (\<lambda>n. n \<notin> set (bindings_referenced_by (con_require c))) (bound_names c)
      in if unreferenced = [] then None else Some (UnreadBinding (sort unreferenced)))"

definition reject_a_binding_policy_that_opens_a_gate_vacuously :: "TraceConstraint \<Rightarrow> config_error option" where
  "reject_a_binding_policy_that_opens_a_gate_vacuously c =
     (case con_bind c of
        None \<Rightarrow> None
      | Some b \<Rightarrow>
          if tb_on_unbound b = Unbound_PASS \<and> con_severity c = S_GATE then Some GateOpensUnbound else None)"

definition reject_an_unmatched_anchor_policy_where_nothing_is_anchored ::
    "TraceConstraint \<Rightarrow> config_error option" where
  "reject_an_unmatched_anchor_policy_where_nothing_is_anchored c =
     (case con_on_missing c of
        None \<Rightarrow> None
      | Some policy \<Rightarrow>
          if kinds_refusing_on_missing (con_require c) policy = [] then None else Some OnMissingNothingAnchored)"

definition validate_constraint :: "regex_lib \<Rightarrow> TraceConstraint \<Rightarrow> config_error option" where
  "validate_constraint lib c =
     first_error
       [if con_id c = [] \<or> con_description c = [] then Some EmptyText else None,
        require_a_weight_that_scores c,
        (case con_within c of None \<Rightarrow> None | Some w \<Rightarrow> validate_window w),
        (case con_bind c of None \<Rightarrow> None | Some b \<Rightarrow> validate_binding lib b),
        validate_expr (con_require c),
        reject_a_weight_on_a_check_nothing_scores c,
        reject_an_anchor_policy_that_opens_a_gate_vacuously c,
        reject_a_reference_to_a_name_nothing_binds c,
        reject_a_binder_reading_the_names_it_binds c,
        reject_a_bound_value_nothing_reads c,
        reject_a_binding_policy_that_opens_a_gate_vacuously c,
        reject_an_unmatched_anchor_policy_where_nothing_is_anchored c]"

record TracePath =
  path_id :: pystr
  path_description :: pystr
  path_constraints :: "TraceConstraint list"

record TraceChecksConfig =
  cfg_constraints :: "TraceConstraint list"
  cfg_alternatives :: "TracePath list option"
  cfg_regex_engine :: RegexEngineKind

definition alternatives_of :: "TraceChecksConfig \<Rightarrow> TracePath list" where
  "alternatives_of cfg = (case cfg_alternatives cfg of None \<Rightarrow> [] | Some ps \<Rightarrow> ps)"

definition declared_config_ids :: "TraceChecksConfig \<Rightarrow> pystr list" where
  "declared_config_ids cfg =
     map con_id (cfg_constraints cfg) @
     concat (map (\<lambda>p. path_id p # map con_id (path_constraints p)) (alternatives_of cfg))"

definition require_something_to_score :: "TraceChecksConfig \<Rightarrow> config_error option" where
  "require_something_to_score cfg =
     (if cfg_constraints cfg = [] \<and> cfg_alternatives cfg = None then Some NothingToScore else None)"

definition require_alternatives_to_be_alternative :: "TraceChecksConfig \<Rightarrow> config_error option" where
  "require_alternatives_to_be_alternative cfg =
     (case cfg_alternatives cfg of
        None \<Rightarrow> None
      | Some ps \<Rightarrow> if length ps \<ge> 2 then None else Some TooFewAlternatives)"

definition route_is_scored :: "TraceChecksConfig \<Rightarrow> TracePath \<Rightarrow> bool" where
  "route_is_scored cfg p = list_ex (\<lambda>c. con_severity c \<noteq> S_GATE) (cfg_constraints cfg @ path_constraints p)"

definition require_every_route_to_be_scored_where_any_route_is :: "TraceChecksConfig \<Rightarrow> config_error option" where
  "require_every_route_to_be_scored_where_any_route_is cfg =
     (let scored = dict_of (map (\<lambda>p. (path_id p, route_is_scored cfg p)) (alternatives_of cfg));
          unscoreable = map fst (filter (\<lambda>(i, s). \<not> s) scored)
      in if unscoreable = [] \<or> \<not> list_ex snd scored then None else Some (UnscoreableRoute unscoreable))"

definition require_distinct_ids :: "TraceChecksConfig \<Rightarrow> config_error option" where
  "require_distinct_ids cfg =
     (let ids = declared_config_ids cfg;
          duplicated = filter (\<lambda>i. count_list ids i > 1) (remdups ids)
      in if duplicated = [] then None else Some (DuplicateIds (sort duplicated)))"

definition validate_path :: "regex_lib \<Rightarrow> TracePath \<Rightarrow> config_error option" where
  "validate_path lib p =
     first_error
       ([if path_id p = [] \<or> path_description p = [] then Some EmptyText else None,
         if path_constraints p = [] then Some EmptyNesting else None] @
        map (validate_constraint lib) (path_constraints p))"

definition validate_config :: "regex_lib \<Rightarrow> TraceChecksConfig \<Rightarrow> config_error option" where
  "validate_config lib cfg =
     first_error
       (map (validate_constraint lib) (cfg_constraints cfg) @
        map (validate_path lib) (alternatives_of cfg) @
        [require_something_to_score cfg,
         require_alternatives_to_be_alternative cfg,
         require_every_route_to_be_scored_where_any_route_is cfg,
         require_distinct_ids cfg])"

text \<open>The block's shared constraints, then every path's own.\<close>

definition every_constraint :: "TraceChecksConfig \<Rightarrow> TraceConstraint list" where
  "every_constraint cfg = cfg_constraints cfg @ concat (map path_constraints (alternatives_of cfg))"

section \<open>Lemmas\<close>

lemma validated_constraints:
  "validate_config lib cfg = None \<Longrightarrow> c \<in> set (every_constraint cfg) \<Longrightarrow> validate_constraint lib c = None"
proof -
  assume v: "validate_config lib cfg = None" and c: "c \<in> set (every_constraint cfg)"
  have shared: "\<forall>c \<in> set (cfg_constraints cfg). validate_constraint lib c = None"
    and paths: "\<forall>p \<in> set (alternatives_of cfg). validate_path lib p = None"
    using v by (auto simp: validate_config_def first_error_None_iff)
  have "\<forall>c \<in> set (path_constraints p). validate_constraint lib c = None" if "validate_path lib p = None" for p
    using that by (auto simp: validate_path_def first_error_None_iff)
  with shared paths c show "validate_constraint lib c = None" by (auto simp: every_constraint_def)
qed

lemma validated_weight: "validate_constraint lib c = None \<Longrightarrow> 0 < con_weight c"
  by (simp add: validate_constraint_def first_error_None_iff require_a_weight_that_scores_def
      split: if_splits)

lemma validated_gate:
  "validate_constraint lib c = None \<Longrightarrow> con_severity c = S_GATE \<Longrightarrow>
     con_weight c = 1 \<and> con_on_missing c \<noteq> Some M_PASS \<and>
     (\<forall>b. con_bind c = Some b \<longrightarrow> tb_on_unbound b \<noteq> Unbound_PASS)"
  by (auto simp: validate_constraint_def first_error_None_iff reject_a_weight_on_a_check_nothing_scores_def
      reject_an_anchor_policy_that_opens_a_gate_vacuously_def
      reject_a_binding_policy_that_opens_a_gate_vacuously_def split: if_splits)

lemma validated_references:
  "validate_constraint lib c = None \<Longrightarrow>
     set (bindings_referenced_by (con_require c)) = set (bound_names c) \<and> binder_bindings c = []"
proof -
  assume "validate_constraint lib c = None"
  then have e: "reject_a_reference_to_a_name_nothing_binds c = None"
      "reject_a_binder_reading_the_names_it_binds c = None"
      "reject_a_bound_value_nothing_reads c = None"
    by (simp_all add: validate_constraint_def first_error_None_iff)
  from e(1) have a: "set (bindings_referenced_by (con_require c)) \<union> set (binder_bindings c) \<subseteq> set (bound_names c)"
    by (auto simp: reject_a_reference_to_a_name_nothing_binds_def Let_def filter_empty_conv split: if_splits)
  from e(2) have b: "set (binder_bindings c) \<inter> set (bound_names c) = {}"
    by (auto simp: reject_a_binder_reading_the_names_it_binds_def Let_def filter_empty_conv split: if_splits)
  from e(3) have d: "set (bound_names c) \<subseteq> set (bindings_referenced_by (con_require c))"
    by (auto simp: reject_a_bound_value_nothing_reads_def Let_def filter_empty_conv split: if_splits)
  have sub: "set (bindings_referenced_by (con_require c)) \<subseteq> set (bound_names c)"
      "set (binder_bindings c) \<subseteq> set (bound_names c)"
    using a by simp_all
  have "set (binder_bindings c) = {}" using b Int_absorb2 [OF sub(2)] by simp
  moreover have "set (bindings_referenced_by (con_require c)) = set (bound_names c)"
    using sub(1) d by (rule equalityI)
  ultimately show ?thesis by simp
qed

lemma count_list_gt1_iff: "(\<exists>i \<in> set xs. count_list xs i > 1) \<longleftrightarrow> \<not> distinct xs"
  by (induction xs) (auto simp: count_list_0_iff)

lemma validated_ids: "validate_config lib cfg = None \<Longrightarrow> distinct (declared_config_ids cfg)"
  using count_list_gt1_iff [of "declared_config_ids cfg"]
  by (auto simp: validate_config_def first_error_None_iff require_distinct_ids_def Let_def
      filter_empty_conv split: if_splits)

lemma distinct_path_ids: "distinct (declared_config_ids cfg) \<Longrightarrow> distinct (map path_id (alternatives_of cfg))"
proof -
  have "distinct (concat (map (\<lambda>p. path_id p # map con_id (path_constraints p)) ps)) \<Longrightarrow> distinct (map path_id ps)" for ps
    by (induction ps) auto
  from this [of "alternatives_of cfg"]
  show "distinct (declared_config_ids cfg) \<Longrightarrow> distinct (map path_id (alternatives_of cfg))"
    unfolding declared_config_ids_def by simp
qed

lemma validated_alternatives:
  "validate_config lib cfg = None \<Longrightarrow> cfg_alternatives cfg = Some ps \<Longrightarrow> 2 \<le> length ps"
  by (auto simp: validate_config_def first_error_None_iff require_alternatives_to_be_alternative_def
      split: if_splits)

lemma validated_routes:
  assumes "validate_config lib cfg = None" "p \<in> set (alternatives_of cfg)" "q \<in> set (alternatives_of cfg)"
  shows "route_is_scored cfg p = route_is_scored cfg q"
proof -
  let ?sc = "map (\<lambda>p. (path_id p, route_is_scored cfg p)) (alternatives_of cfg)"
  have "distinct (map fst ?sc)"
    using distinct_path_ids [OF validated_ids [OF assms(1)]] by (simp add: comp_def)
  then have d: "dict_of ?sc = ?sc" by (rule dict_of_distinct)
  have "require_every_route_to_be_scored_where_any_route_is cfg = None"
    using assms(1) by (simp add: validate_config_def first_error_None_iff)
  then show ?thesis using assms(2,3)
    unfolding require_every_route_to_be_scored_where_any_route_is_def Let_def d
    by (auto simp: filter_empty_conv list_ex_iff split: if_splits)
qed

section \<open>Properties\<close>

text \<open>
  Property C30.  What a block that loads guarantees the evaluator: every weight is positive, a gate
  carries the default weight and neither policy opens it vacuously, the names a constraint's tree
  reads are exactly the names its binder binds and the binder reads none, ids are unique across the
  block, and either every route has a scored check or none has.
\<close>

theorem validated_config_guarantees:
  assumes "validate_config lib cfg = None"
  shows "(\<forall>c \<in> set (every_constraint cfg).
      0 < con_weight c \<and>
      (con_severity c = S_GATE \<longrightarrow> con_weight c = 1 \<and> con_on_missing c \<noteq> Some M_PASS \<and>
         (\<forall>b. con_bind c = Some b \<longrightarrow> tb_on_unbound b = Unbound_FAIL)) \<and>
      set (bindings_referenced_by (con_require c)) = set (bound_names c) \<and> binder_bindings c = []) \<and>
    distinct (declared_config_ids cfg) \<and>
    (\<forall>p \<in> set (alternatives_of cfg). \<forall>q \<in> set (alternatives_of cfg). route_is_scored cfg p = route_is_scored cfg q)"
proof (intro conjI ballI)
  fix c
  assume "c \<in> set (every_constraint cfg)"
  then have v: "validate_constraint lib c = None" by (rule validated_constraints [OF assms])
  show "0 < con_weight c" using v by (rule validated_weight)
  show "con_severity c = S_GATE \<longrightarrow> con_weight c = 1 \<and> con_on_missing c \<noteq> Some M_PASS \<and>
         (\<forall>b. con_bind c = Some b \<longrightarrow> tb_on_unbound b = Unbound_FAIL)"
    using validated_gate [OF v] by (metis OnUnbound.exhaust)
  show "set (bindings_referenced_by (con_require c)) = set (bound_names c)" "binder_bindings c = []"
    using validated_references [OF v] by simp_all
next
  show "distinct (declared_config_ids cfg)" using assms by (rule validated_ids)
next
  fix p q
  assume "p \<in> set (alternatives_of cfg)" "q \<in> set (alternatives_of cfg)"
  then show "route_is_scored cfg p = route_is_scored cfg q" by (rule validated_routes [OF assms])
qed

text \<open>A block with one gate and one scored check, used by the witnesses.\<close>

definition says_done :: TraceMatcher where
  "says_done = \<lparr>tm_kind = ASSISTANT_MESSAGE, tm_tool = None, tm_executor = None, tm_args = None,
     tm_status = None, tm_result = None, tm_text = Some (empty_predicate\<lparr>vp_contains := VStr ''done''\<rparr>)\<rparr>"

definition failed_call :: TraceMatcher where
  "failed_call = \<lparr>tm_kind = TOOL_CALL, tm_tool = None, tm_executor = None, tm_args = None,
     tm_status = Some (empty_predicate\<lparr>vp_equals := VStr ''error''\<rparr>), tm_result = None, tm_text = None\<rparr>"

definition demo_constraint :: "pystr \<Rightarrow> TraceConstraintSeverity \<Rightarrow> TraceConstraintExpr \<Rightarrow> TraceConstraint" where
  "demo_constraint i sev e = \<lparr>con_id = i, con_description = i, con_weight = 1, con_on_missing = None,
     con_severity = sev, con_within = None, con_bind = None, con_require = e\<rparr>"

definition demo_config :: TraceChecksConfig where
  "demo_config = \<lparr>cfg_constraints = [demo_constraint ''done'' S_SCORED (E_present says_done),
       demo_constraint ''clean'' S_GATE (E_absent failed_call)],
     cfg_alternatives = None, cfg_regex_engine = LINEAR\<rparr>"

definition no_regex :: regex_lib where
  "no_regex = \<lparr>rx_groups = \<lambda>_ _. Some 1, rx_search = \<lambda>_ _ _. False, rx_first_groups = \<lambda>_ _ _. []\<rparr>"

theorem validated_config_guarantees_witness:
  "validate_config no_regex demo_config = None \<and>
   list_all (\<lambda>c. 0 < con_weight c) (every_constraint demo_config) \<and> distinct (declared_config_ids demo_config)"
proof -
  have v: "validate_config no_regex demo_config = None" by code_simp
  from validated_config_guarantees [OF v] v show ?thesis unfolding list_all_iff by blast
qed

end
