(* ===== verification/Trace_Truth.thy ===== *)
theory Trace_Truth
  imports Trace_Model
begin

text \<open>
  The four-valued verdicts of \<^verbatim>\<open>tolokaforge/core/grading/trace_checks/truth.py\<close> and their folds.
  The order instantiated here puts \<^verbatim>\<open>FALSE\<close> below \<^verbatim>\<open>WITHHELD\<close> below \<^verbatim>\<open>UNKNOWN\<close> below \<^verbatim>\<open>TRUE\<close>, so that a
  conjunction is a minimum; the disjunction is its De Morgan dual.
\<close>

datatype truth = T_TRUE | T_FALSE | T_UNKNOWN | T_WITHHELD

definition conjunction :: "truth list \<Rightarrow> truth" where
  "conjunction verdicts =
     (if T_FALSE \<in> set verdicts then T_FALSE
      else if T_WITHHELD \<in> set verdicts then T_WITHHELD
      else if T_UNKNOWN \<in> set verdicts then T_UNKNOWN else T_TRUE)"

definition disjunction :: "truth list \<Rightarrow> truth" where
  "disjunction verdicts =
     (if T_TRUE \<in> set verdicts then T_TRUE
      else if T_WITHHELD \<in> set verdicts then T_WITHHELD
      else if T_UNKNOWN \<in> set verdicts then T_UNKNOWN else T_FALSE)"

definition decide :: "bool option list \<Rightarrow> OnMissing \<Rightarrow> truth" where
  "decide readings on_missing =
     (if on_missing = M_WITHHOLD \<and> list_ex (\<lambda>v. v = None) readings then T_WITHHELD
      else let unmatched_verdict = (on_missing = M_PASS);
               agreed = set (map (\<lambda>v. case v of None \<Rightarrow> unmatched_verdict | Some b \<Rightarrow> b) readings)
           in if agreed = {True} then T_TRUE else if agreed = {False} then T_FALSE else T_UNKNOWN)"

fun negated :: "truth \<Rightarrow> truth" where
  "negated T_TRUE = T_FALSE"
| "negated T_FALSE = T_TRUE"
| "negated T_UNKNOWN = T_UNKNOWN"
| "negated T_WITHHELD = T_WITHHELD"

section \<open>The order of verdicts\<close>

fun truth_rank :: "truth \<Rightarrow> nat" where
  "truth_rank T_FALSE = 0"
| "truth_rank T_WITHHELD = 1"
| "truth_rank T_UNKNOWN = 2"
| "truth_rank T_TRUE = 3"

lemma truth_rank_inject [simp]: "truth_rank a = truth_rank b \<longleftrightarrow> a = b"
  by (cases a; cases b) simp_all

instantiation truth :: linorder
begin

definition less_eq_truth :: "truth \<Rightarrow> truth \<Rightarrow> bool" where
  "less_eq_truth a b \<longleftrightarrow> truth_rank a \<le> truth_rank b"

definition less_truth :: "truth \<Rightarrow> truth \<Rightarrow> bool" where
  "less_truth a b \<longleftrightarrow> truth_rank a < truth_rank b"

instance
  by standard (auto simp: less_eq_truth_def less_truth_def)

end

section \<open>Lemmas\<close>

lemma conjunction_min: "conjunction ts = Min (set (T_TRUE # ts))"
proof (rule sym, rule Min_eqI)
  show "finite (set (T_TRUE # ts))" by simp
  show "conjunction ts \<in> set (T_TRUE # ts)"
    by (simp add: conjunction_def)
  fix t
  assume m: "t \<in> set (T_TRUE # ts)"
  show "conjunction ts \<le> t"
    by (cases t) (use m in \<open>simp_all add: conjunction_def less_eq_truth_def\<close>)
qed

lemma conjunction_Nil [simp]: "conjunction [] = T_TRUE"
  by (simp add: conjunction_def)

lemma conjunction_Cons: "conjunction (t # ts) = min t (conjunction ts)"
  by (cases t) (auto simp: conjunction_def min_def less_eq_truth_def)

lemma conjunction_append: "conjunction (ts @ us) = min (conjunction ts) (conjunction us)"
  by (simp add: conjunction_def min_def less_eq_truth_def)

lemma conjunction_set_cong: "set ts = set us \<Longrightarrow> conjunction ts = conjunction us"
  by (simp add: conjunction_def)

lemma disjunction_set_cong: "set ts = set us \<Longrightarrow> disjunction ts = disjunction us"
  by (simp add: disjunction_def)

lemma conjunction_iff:
  "conjunction ts = T_TRUE \<longleftrightarrow> (\<forall>t \<in> set ts. t = T_TRUE)"
  "conjunction ts = T_FALSE \<longleftrightarrow> T_FALSE \<in> set ts"
  using truth.exhaust by (auto simp: conjunction_def)

lemma disjunction_iff:
  "disjunction ts = T_FALSE \<longleftrightarrow> (\<forall>t \<in> set ts. t = T_FALSE)"
  "disjunction ts = T_TRUE \<longleftrightarrow> T_TRUE \<in> set ts"
  using truth.exhaust by (auto simp: disjunction_def)

lemma negated_negated [simp]: "negated (negated t) = t"
  by (cases t) simp_all

lemma negated_eq_iff [simp]:
  "negated t = T_TRUE \<longleftrightarrow> t = T_FALSE" "negated t = T_FALSE \<longleftrightarrow> t = T_TRUE"
  "negated t = T_UNKNOWN \<longleftrightarrow> t = T_UNKNOWN" "negated t = T_WITHHELD \<longleftrightarrow> t = T_WITHHELD"
  by (cases t; simp)+

lemma mem_map_negated:
  "T_TRUE \<in> set (map negated ts) \<longleftrightarrow> T_FALSE \<in> set ts"
  "T_FALSE \<in> set (map negated ts) \<longleftrightarrow> T_TRUE \<in> set ts"
  "T_UNKNOWN \<in> set (map negated ts) \<longleftrightarrow> T_UNKNOWN \<in> set ts"
  "T_WITHHELD \<in> set (map negated ts) \<longleftrightarrow> T_WITHHELD \<in> set ts"
  by (induction ts) (auto dest: sym)

text \<open>The bool an unmatched anchor reads as, and what a verdict of \<open>decide\<close> says about the readings.\<close>

definition resolved :: "OnMissing \<Rightarrow> bool option \<Rightarrow> bool" where
  "resolved om v = (case v of None \<Rightarrow> om = M_PASS | Some b \<Rightarrow> b)"

lemma image_singleton_iff: "f ` S = {c} \<longleftrightarrow> S \<noteq> {} \<and> (\<forall>x \<in> S. f x = c)"
  by auto

lemma decide_alt:
  "decide vs om =
     (if om = M_WITHHOLD \<and> None \<in> set vs then T_WITHHELD
      else if vs \<noteq> [] \<and> (\<forall>v \<in> set vs. resolved om v) then T_TRUE
      else if vs \<noteq> [] \<and> (\<forall>v \<in> set vs. \<not> resolved om v) then T_FALSE else T_UNKNOWN)"
proof -
  have r: "(\<lambda>v. case v of None \<Rightarrow> om = M_PASS | Some b \<Rightarrow> b) = resolved om"
    by (simp add: fun_eq_iff resolved_def)
  have e: "list_ex (\<lambda>v. v = None) vs \<longleftrightarrow> None \<in> set vs"
    by (induction vs) auto
  show ?thesis unfolding decide_def Let_def r e set_map image_singleton_iff by simp
qed

lemma decide_cong: "set vs = set ws \<Longrightarrow> decide vs om = decide ws om"
proof -
  assume s: "set vs = set ws"
  then have "vs = [] \<longleftrightarrow> ws = []" by (metis set_empty)
  with s show "decide vs om = decide ws om" by (simp add: decide_alt)
qed

lemma decide_TRUE: "decide vs om = T_TRUE \<Longrightarrow> vs \<noteq> [] \<and> (\<forall>v \<in> set vs. resolved om v)"
  by (simp add: decide_alt split: if_splits)

lemma decide_FALSE: "decide vs om = T_FALSE \<Longrightarrow> vs \<noteq> [] \<and> (\<forall>v \<in> set vs. \<not> resolved om v)"
  by (simp add: decide_alt split: if_splits)

section \<open>Properties\<close>

text \<open>
  The folds form a lattice: a conjunction is the minimum of its verdicts, so a definite
  failure beats a withheld branch and a withheld branch beats an undecided one, whatever the order
  of the branches, and negation exchanges conjunction and disjunction.
\<close>

theorem verdict_folds_dual:
  "conjunction ts = Min (set (T_TRUE # ts)) \<and>
   negated (conjunction ts) = disjunction (map negated ts) \<and>
   negated (disjunction ts) = conjunction (map negated ts)"
proof (intro conjI)
  show "conjunction ts = Min (set (T_TRUE # ts))" by (rule conjunction_min)
  show "negated (conjunction ts) = disjunction (map negated ts)"
    by (simp add: conjunction_def disjunction_def mem_map_negated del: set_map)
  show "negated (disjunction ts) = conjunction (map negated ts)"
    by (simp add: conjunction_def disjunction_def mem_map_negated del: set_map)
qed

end
