(* ===== verification/Trace_Matcher.thy ===== *)
theory Trace_Matcher
  imports Trace_Truth
begin

text \<open>
  What one matcher selects from a timeline, \<^verbatim>\<open>tolokaforge/core/grading/trace_checks/matcher.py\<close>.
  \<open>resolve\<close> is \<^verbatim>\<open>_resolve\<close> with the short-circuiting loop \<open>rejections\<close>; \<open>resolve_full\<close> is the same
  question answered by evaluating every predicate, and the first property says that the two agree.
  A \<^verbatim>\<open>completion\<close> of an event replaces the readings its missing evidence left open; the second
  property says what the three verdicts mean over all completions.
\<close>

section \<open>Records and outcomes\<close>

datatype Makeability = MADE | UNMAKEABLE | NEITHER

record ComparisonRecord =
  cr_event :: TraceEvent
  cr_field :: pystr
  cr_operator :: pystr
  cr_binding :: pystr
  cr_bound :: pyval
  cr_state :: Makeability

definition cr_reference :: "ComparisonRecord \<Rightarrow> pystr \<times> pystr \<times> pystr" where
  "cr_reference r = (cr_field r, cr_operator r, cr_binding r)"

record MatcherOutcome =
  mo_matched :: "TraceEvent list"
  mo_undecidable :: "TraceEvent list"
  mo_unreadable_fields :: "pystr list"
  mo_comparisons :: "ComparisonRecord list"

text \<open>A printed sentence is determined by its reference and the value bound.\<close>

type_synonym unmakeable_message = "(pystr \<times> pystr \<times> pystr) \<times> pyval"

definition unmakeable_message :: "ComparisonRecord \<Rightarrow> unmakeable_message" where
  "unmakeable_message r = (cr_reference r, cr_bound r)"

definition unmakeable_comparisons :: "MatcherOutcome \<Rightarrow> unmakeable_message list" where
  "unmakeable_comparisons out =
     map (\<lambda>ref. unmakeable_message (hd (filter (\<lambda>r. cr_reference r = ref) (mo_comparisons out))))
       (filter (\<lambda>ref. let records = filter (\<lambda>r. cr_reference r = ref) (mo_comparisons out) in
                  list_ex (\<lambda>r. cr_state r = UNMAKEABLE) records \<and> list_all (\<lambda>r. cr_state r \<noteq> MADE) records)
         (dedup (map cr_reference (mo_comparisons out))))"

text \<open>Which evidence is missing and where: the fields and the positions the sentence names.\<close>

definition missing_evidence :: "pystr list \<Rightarrow> nat list \<Rightarrow> pystr list \<times> nat list" where
  "missing_evidence names positions = (sort names, sort positions)"

definition indeterminate_reason :: "MatcherOutcome \<Rightarrow> (pystr list \<times> nat list) option" where
  "indeterminate_reason out =
     (if mo_undecidable out = [] then None
      else Some (missing_evidence (mo_unreadable_fields out) (map ev_position (mo_undecidable out))))"

section \<open>Readings\<close>

definition results_by_call_id :: "TraceEvent list \<Rightarrow> (pystr, TraceEvent) dict" where
  "results_by_call_id events =
     dict_of (concat (map (\<lambda>e. case ev_call_id e of
                              Some k \<Rightarrow> if ev_kind e = TOOL_RESULT then [(k, e)] else []
                            | None \<Rightarrow> []) events))"

definition outcome_of :: "TraceEvent \<Rightarrow> (pystr, TraceEvent) dict \<Rightarrow> TraceEvent option" where
  "outcome_of event results =
     (if ev_kind event \<noteq> TOOL_CALL then Some event
      else map_of results (case ev_call_id event of None \<Rightarrow> [] | Some k \<Rightarrow> k))"

definition RECORD_ONLY_FIELDS :: "pystr list" where
  "RECORD_ONLY_FIELDS = [''executor'', ''status'']"

definition unreadable_when_none :: "TraceEvent option \<Rightarrow> pystr list" where
  "unreadable_when_none outcome =
     (if outcome \<noteq> None then RECORD_ONLY_FIELDS else RECORD_ONLY_FIELDS @ [''result''])"

definition of_opt_str :: "pystr option \<Rightarrow> pyval" where
  "of_opt_str s = (case s of None \<Rightarrow> VNone | Some x \<Rightarrow> VStr x)"

definition EVENT_FIELDS :: "(pystr, TraceEvent \<Rightarrow> TraceEvent option \<Rightarrow> pyval) dict" where
  "EVENT_FIELDS =
     [(''tool'', \<lambda>event outcome. of_opt_str (ev_tool_name event)),
      (''executor'', \<lambda>event outcome. of_opt_str (map_option executor_value (ev_executor event))),
      (''status'', \<lambda>event outcome. case outcome of None \<Rightarrow> VNone
                    | Some r \<Rightarrow> of_opt_str (map_option status_value (ev_status r))),
      (''result'', \<lambda>event outcome. case outcome of None \<Rightarrow> VNone | Some r \<Rightarrow> of_opt_str (ev_result r)),
      (''text'', \<lambda>event outcome. of_opt_str (ev_text event))]"

definition ARGS_PREFIX :: pystr where
  "ARGS_PREFIX = ''args.''"

definition is_args_field :: "pystr \<Rightarrow> bool" where
  "is_args_field field \<longleftrightarrow> take (length ARGS_PREFIX) field = ARGS_PREFIX"

definition event_arguments :: "TraceEvent \<Rightarrow> pyval" where
  "event_arguments e = (case ev_arguments e of None \<Rightarrow> VNone | Some d \<Rightarrow> VDict d)"

definition value_read :: "pystr \<Rightarrow> TraceEvent \<Rightarrow> TraceEvent option \<Rightarrow> reading" where
  "value_read field event outcome =
     (if is_args_field field then argument_at (event_arguments event) (drop (length ARGS_PREFIX) field)
      else case map_of EVENT_FIELDS field of None \<Rightarrow> None | Some f \<Rightarrow> Some (f event outcome))"

definition field_predicate :: "TraceMatcher \<Rightarrow> pystr \<Rightarrow> ValuePredicate option" where
  "field_predicate m field =
     (if field = ''tool'' then tm_tool m else if field = ''executor'' then tm_executor m
      else if field = ''status'' then tm_status m else if field = ''result'' then tm_result m
      else if field = ''text'' then tm_text m else None)"

definition declared_predicates :: "TraceMatcher \<Rightarrow> (pystr \<times> ValuePredicate) list" where
  "declared_predicates m =
     concat (map (\<lambda>field. case field_predicate m field of None \<Rightarrow> [] | Some p \<Rightarrow> [(field, p)])
       (map fst EVENT_FIELDS)) @
     map (\<lambda>(path, p). (ARGS_PREFIX @ path, p)) (case tm_args m of None \<Rightarrow> [] | Some d \<Rightarrow> d)"

type_synonym predicate_reading = "pystr \<times> reading \<times> ValuePredicate"

definition predicate_readings ::
    "TraceMatcher \<Rightarrow> TraceEvent \<Rightarrow> TraceEvent option \<Rightarrow> predicate_reading list" where
  "predicate_readings m event outcome =
     map (\<lambda>(field, p). (field, value_read field event outcome, p)) (declared_predicates m)"

definition regex_operands :: "regex_lib \<Rightarrow> TraceMatcher \<Rightarrow> RegexEngineKind \<Rightarrow> pattern_error option" where
  "regex_operands lib m section = compile_predicate_patterns lib (declared_predicates m) section"

section \<open>Comparisons\<close>

definition makeability :: "pystr \<Rightarrow> pyval \<Rightarrow> pyval \<Rightarrow> Makeability" where
  "makeability operator value bound =
     (if json_type_of value = None \<or> json_type_of bound = None then NEITHER
      else if ever_satisfiable operator (json_type_of value) (json_type_of bound) = Inr True then MADE
      else UNMAKEABLE)"

definition binding_value :: "bindings \<Rightarrow> pystr \<Rightarrow> pyval" where
  "binding_value b n = (case map_of b n of None \<Rightarrow> VNone | Some v \<Rightarrow> v)"

definition binding_references :: "ValuePredicate \<Rightarrow> (pystr \<times> pystr) list" where
  "binding_references p =
     (case vp_contains_binding p of None \<Rightarrow> [] | Some n \<Rightarrow> [(''contains_binding'', n)]) @
     (case vp_equals_binding p of None \<Rightarrow> [] | Some n \<Rightarrow> [(''equals_binding'', n)])"

definition comparison_records ::
    "pystr \<Rightarrow> pyval \<Rightarrow> ValuePredicate \<Rightarrow> bindings \<Rightarrow> TraceEvent \<Rightarrow> ComparisonRecord list" where
  "comparison_records field value p b event =
     map (\<lambda>(name, bound_name).
        \<lparr>cr_event = event, cr_field = field, cr_operator = name, cr_binding = bound_name,
         cr_bound = binding_value b bound_name,
         cr_state = makeability name value (binding_value b bound_name)\<rparr>)
       (binding_references p)"

section \<open>Resolving one event\<close>

definition FIELD_COST :: "(pystr, nat) dict" where
  "FIELD_COST = [(''tool'', 0), (''executor'', 0), (''status'', 0), (''text'', 2), (''result'', 2)]"

definition cost :: "pystr \<Rightarrow> nat" where
  "cost field =
     (if is_args_field field then 1 else case map_of FIELD_COST field of None \<Rightarrow> 0 | Some c \<Rightarrow> c)"

definition could_reject :: "ComparisonRecord list list \<Rightarrow> nat \<Rightarrow> bool" where
  "could_reject records i = list_all (\<lambda>r. cr_state r = MADE) (records ! i)"

text \<open>
  The loop of \<^verbatim>\<open>_rejections\<close> over the indices in the order they are evaluated; \<open>holds i\<close> is
  \<^verbatim>\<open>predicate_holds\<close> of the reading.
\<close>

fun rejection_loop ::
    "(nat \<Rightarrow> bool) \<Rightarrow> ComparisonRecord list list \<Rightarrow> nat list \<Rightarrow> bool \<Rightarrow> nat list \<Rightarrow> bool \<times> nat list" where
  "rejection_loop holds records [] failed rejecting = (failed, rejecting)"
| "rejection_loop holds records (i # is) failed rejecting =
     (if (failed \<and> \<not> could_reject records i) \<or> holds i then rejection_loop holds records is failed rejecting
      else let rejecting' = (if could_reject records i then rejecting @ [i] else rejecting) in
           if length rejecting' > 1 \<or> (rejecting' \<noteq> [] \<and> records ! hd rejecting' = [])
           then (True, rejecting')
           else rejection_loop holds records is True rejecting')"

definition reading_holds ::
    "regex_lib \<Rightarrow> RegexEngineKind \<Rightarrow> bindings \<Rightarrow> predicate_reading \<Rightarrow> bool" where
  "reading_holds lib section b r = (case r of (field, value, p) \<Rightarrow> predicate_holds lib section p value b)"

definition rejections ::
    "regex_lib \<Rightarrow> RegexEngineKind \<Rightarrow> predicate_reading list \<Rightarrow> ComparisonRecord list list \<Rightarrow> nat list \<Rightarrow>
     bindings \<Rightarrow> bool \<times> nat list" where
  "rejections lib section readings records unread b =
     rejection_loop (\<lambda>i. reading_holds lib section b (readings ! i)) records
       (sort_key (\<lambda>i. cost (fst (readings ! i)))
         (filter (\<lambda>i. i \<notin> set unread) [0 ..< length readings])) False []"

definition unread_indices :: "predicate_reading list \<Rightarrow> TraceEvent option \<Rightarrow> nat list" where
  "unread_indices readings outcome =
     filter (\<lambda>i. case readings ! i of (field, value, p) \<Rightarrow>
               value = Some VNone \<and> field \<in> set (unreadable_when_none outcome)) [0 ..< length readings]"

definition candidate_records :: "ComparisonRecord list list \<Rightarrow> nat list \<Rightarrow> ComparisonRecord list" where
  "candidate_records records rejecting =
     concat (map (\<lambda>i. if set rejecting \<subseteq> {i} then records ! i else []) [0 ..< length records])"

definition reading_records ::
    "predicate_reading list \<Rightarrow> bindings \<Rightarrow> TraceEvent \<Rightarrow> ComparisonRecord list list" where
  "reading_records readings b event =
     map (\<lambda>(field, value, p). comparison_records field (case value of None \<Rightarrow> VNone | Some v \<Rightarrow> v) p b event)
       readings"

definition resolve ::
    "regex_lib \<Rightarrow> RegexEngineKind \<Rightarrow> TraceMatcher \<Rightarrow> TraceEvent \<Rightarrow> (pystr, TraceEvent) dict \<Rightarrow> bindings \<Rightarrow>
     truth \<times> pystr list \<times> ComparisonRecord list" where
  "resolve lib section m event results b =
     (let outcome = outcome_of event results;
          readings = predicate_readings m event outcome;
          records = reading_records readings b event;
          unread = unread_indices readings outcome;
          unreadable = map (\<lambda>i. fst (readings ! i)) unread
      in case rejections lib section readings records unread b of (failed, rejecting) \<Rightarrow>
           let kept = candidate_records records rejecting in
           if failed then (T_FALSE, [], kept)
           else if unreadable \<noteq> [] then (T_UNKNOWN, unreadable, kept)
           else (T_TRUE, [], kept))"

section \<open>Selecting\<close>

definition selected_events ::
    "regex_lib \<Rightarrow> RegexEngineKind \<Rightarrow> TraceEvent list \<Rightarrow> TraceMatcher \<Rightarrow> bindings \<Rightarrow> MatcherOutcome" where
  "selected_events lib section events m b =
     (let results = results_by_call_id events;
          candidates = filter (\<lambda>e. ev_kind e = tm_kind m) events;
          verdict = (\<lambda>e. resolve lib section m e results b)
      in \<lparr>mo_matched = filter (\<lambda>e. fst (verdict e) = T_TRUE) candidates,
          mo_undecidable = filter (\<lambda>e. fst (verdict e) = T_UNKNOWN) candidates,
          mo_unreadable_fields =
            sort (remdups (concat (map (\<lambda>e. fst (snd (verdict e)))
              (filter (\<lambda>e. fst (verdict e) = T_UNKNOWN) candidates)))),
          mo_comparisons = concat (map (\<lambda>e. snd (snd (verdict e))) candidates)\<rparr>)"

definition select_events ::
    "regex_lib \<Rightarrow> RegexEngineKind \<Rightarrow> TrialTimeline \<Rightarrow> TraceMatcher \<Rightarrow> bindings \<Rightarrow>
     pattern_error + MatcherOutcome" where
  "select_events lib section timeline m b =
     (case regex_operands lib m section of
        Some e \<Rightarrow> Inl e
      | None \<Rightarrow> Inr (selected_events lib section (tl_events timeline) m b))"

section \<open>The reference reading\<close>

definition failing :: "(nat \<Rightarrow> bool) \<Rightarrow> nat list \<Rightarrow> nat list" where
  "failing holds is = filter (\<lambda>i. \<not> holds i) is"

definition rejecting_full :: "(nat \<Rightarrow> bool) \<Rightarrow> ComparisonRecord list list \<Rightarrow> nat list \<Rightarrow> nat list" where
  "rejecting_full holds records is = filter (could_reject records) (failing holds is)"

definition resolve_full ::
    "regex_lib \<Rightarrow> RegexEngineKind \<Rightarrow> TraceMatcher \<Rightarrow> TraceEvent \<Rightarrow> (pystr, TraceEvent) dict \<Rightarrow> bindings \<Rightarrow>
     truth \<times> pystr list \<times> ComparisonRecord list" where
  "resolve_full lib section m event results b =
     (let outcome = outcome_of event results;
          readings = predicate_readings m event outcome;
          records = reading_records readings b event;
          unread = unread_indices readings outcome;
          holds = (\<lambda>i. reading_holds lib section b (readings ! i));
          read = filter (\<lambda>i. i \<notin> set unread) [0 ..< length readings];
          kept = candidate_records records (rejecting_full holds records read)
      in if list_ex (\<lambda>i. \<not> holds i) read then (T_FALSE, [], kept)
         else if unread \<noteq> [] then (T_UNKNOWN, map (\<lambda>i. fst (readings ! i)) unread, kept)
         else (T_TRUE, [], kept))"

section \<open>Lemmas\<close>

lemma rejecting_full_Cons:
  "rejecting_full holds records (i # is) =
     (if \<not> holds i \<and> could_reject records i then i # rejecting_full holds records is
      else rejecting_full holds records is)"
  by (simp add: rejecting_full_def failing_def)

text \<open>A rejecting set that already settles which records are kept: two rejecters, or one without records.\<close>

definition settled :: "ComparisonRecord list list \<Rightarrow> nat list \<Rightarrow> bool" where
  "settled records rejecting \<longleftrightarrow> length rejecting > 1 \<or> (rejecting \<noteq> [] \<and> records ! hd rejecting = [])"

lemma settled_candidates:
  assumes "settled records R" "distinct R" "set R \<subseteq> set S"
  shows "candidate_records records S = candidate_records records R"
proof -
  have none: "candidate_records records T = []" if sup: "set R \<subseteq> set T" for T
  proof -
    have "(if set T \<subseteq> {i} then records ! i else []) = []" for i
    proof (cases "set T \<subseteq> {i}")
      case True
      then have R: "set R \<subseteq> {i}" using sup by (rule subset_trans [rotated])
      then have "length R \<le> 1"
        using assms(2) by (metis card.empty card_insert_le_m1 card_mono diff_Suc_1 distinct_card finite.emptyI
            finite.insertI le_numeral_extra(3) One_nat_def card_1_singleton_iff)
      with assms(1) have "R \<noteq> []" "records ! hd R = []" by (auto simp: settled_def)
      moreover from R \<open>R \<noteq> []\<close> have "hd R = i" by (cases R) auto
      ultimately show ?thesis by simp
    qed simp
    then show ?thesis by (simp add: candidate_records_def)
  qed
  show ?thesis using none [OF assms(3)] none [OF subset_refl] by simp
qed

lemma rejection_loop_spec:
  assumes "distinct (R @ is)" "failed \<or> R = []" "\<not> settled records R"
    and "rejection_loop holds records is failed R = (failed', R')"
  shows "(failed' \<longleftrightarrow> failed \<or> list_ex (\<lambda>i. \<not> holds i) is) \<and>
    (R' = R @ rejecting_full holds records is \<or>
     settled records R' \<and> distinct R' \<and> set R' \<subseteq> set (R @ rejecting_full holds records is))"
  using assms
proof (induction "is" arbitrary: R failed)
  case Nil
  then show ?case by (simp add: rejecting_full_def failing_def)
next
  case (Cons i "is")
  show ?case
  proof (cases "(failed \<and> \<not> could_reject records i) \<or> holds i")
    case True
    then have "rejection_loop holds records is failed R = (failed', R')" using Cons.prems(4) by simp
    with Cons.IH [of R failed] Cons.prems have
      "(failed' \<longleftrightarrow> failed \<or> list_ex (\<lambda>i. \<not> holds i) is) \<and>
       (R' = R @ rejecting_full holds records is \<or>
        settled records R' \<and> distinct R' \<and> set R' \<subseteq> set (R @ rejecting_full holds records is))"
      by simp
    then show ?thesis using True by (auto simp: rejecting_full_Cons)
  next
    case False
    let ?R = "if could_reject records i then R @ [i] else R"
    have fail: "\<not> holds i" using False by simp
    have step: "rejection_loop holds records (i # is) failed R =
        (if settled records ?R then (True, ?R) else rejection_loop holds records is True ?R)"
      by (simp only: rejection_loop.simps False if_False Let_def settled_def)
    have full: "R @ rejecting_full holds records (i # is) = ?R @ rejecting_full holds records is"
      using fail by (simp add: rejecting_full_Cons)
    show ?thesis
    proof (cases "settled records ?R")
      case True
      then have "(failed', R') = (True, ?R)" using Cons.prems(4) unfolding step by (simp only: if_True)
      then show ?thesis using True fail Cons.prems(1) unfolding full by auto
    next
      case unset: False
      then have loop: "rejection_loop holds records is True ?R = (failed', R')"
        using Cons.prems(4) unfolding step by (simp only: if_False)
      have "distinct (?R @ is)" using Cons.prems(1) by auto
      from Cons.IH [OF this _ unset loop] show ?thesis unfolding full using fail by auto
    qed
  qed
qed

lemma rejections_candidates:
  assumes "distinct is" "rejection_loop holds records is False [] = (failed, R)"
  shows "failed = list_ex (\<lambda>i. \<not> holds i) is \<and>
    candidate_records records R = candidate_records records (rejecting_full holds records is)"
proof -
  have ns: "\<not> settled records []" by (simp add: settled_def)
  from rejection_loop_spec [of "[]" "is" False records holds failed R] assms ns
  have "failed = list_ex (\<lambda>i. \<not> holds i) is \<and>
    (R = rejecting_full holds records is \<or>
     settled records R \<and> distinct R \<and> set R \<subseteq> set (rejecting_full holds records is))" by simp
  then show ?thesis using settled_candidates [of records R] by metis
qed

lemma candidate_records_cong: "set R = set S \<Longrightarrow> candidate_records records R = candidate_records records S"
  by (simp add: candidate_records_def)

lemma resolve_eq_full: "resolve lib section m event results b = resolve_full lib section m event results b"
proof -
  let ?out = "outcome_of event results"
  let ?rs = "predicate_readings m event ?out"
  let ?rec = "reading_records ?rs b event" and ?un = "unread_indices ?rs ?out"
  let ?h = "\<lambda>i. reading_holds lib section b (?rs ! i)"
  let ?read = "filter (\<lambda>i. i \<notin> set ?un) [0 ..< length ?rs]"
  let ?is = "sort_key (\<lambda>i. cost (fst (?rs ! i))) ?read"
  obtain failed R where loop: "rejection_loop ?h ?rec ?is False [] = (failed, R)" by fastforce
  have "distinct ?is" by simp
  from rejections_candidates [OF this loop] have
    f: "failed = list_ex (\<lambda>i. \<not> ?h i) ?is" and
    k: "candidate_records ?rec R = candidate_records ?rec (rejecting_full ?h ?rec ?is)" by simp_all
  have f': "failed = list_ex (\<lambda>i. \<not> ?h i) ?read" unfolding f by (simp add: list_ex_iff)
  have k': "candidate_records ?rec R = candidate_records ?rec (rejecting_full ?h ?rec ?read)"
    unfolding k by (rule candidate_records_cong) (simp add: rejecting_full_def failing_def)
  show ?thesis
    unfolding resolve_def resolve_full_def Let_def rejections_def loop prod.case f' k' by simp
qed

subsection \<open>Completions of one event\<close>

definition completes :: "nat list \<Rightarrow> predicate_reading list \<Rightarrow> predicate_reading list \<Rightarrow> bool" where
  "completes unread rs rs' \<longleftrightarrow> length rs' = length rs \<and>
     (\<forall>i < length rs. fst (rs' ! i) = fst (rs ! i) \<and> snd (snd (rs' ! i)) = snd (snd (rs ! i)) \<and>
        (i \<notin> set unread \<longrightarrow> rs' ! i = rs ! i))"

definition event_matches :: "regex_lib \<Rightarrow> RegexEngineKind \<Rightarrow> bindings \<Rightarrow> predicate_reading list \<Rightarrow> bool" where
  "event_matches lib section b rs = list_all (reading_holds lib section b) rs"

lemma event_matches_nth: "event_matches lib section b rs \<longleftrightarrow> (\<forall>i < length rs. reading_holds lib section b (rs ! i))"
  by (simp add: event_matches_def list_all_length)

lemma unread_lt: "i \<in> set (unread_indices rs outcome) \<Longrightarrow> i < length rs"
  by (simp add: unread_indices_def)

subsection \<open>Selection\<close>

lemma resolve_not_withheld: "fst (resolve lib section m e results b) \<noteq> T_WITHHELD"
  by (simp add: resolve_def Let_def split: prod.splits)

lemma selected_positions:
  "sorted_wrt (<) (map ev_position events) \<Longrightarrow>
     sorted_wrt (<) (map ev_position (mo_matched (selected_events lib section events m b))) \<and>
     sorted_wrt (<) (map ev_position (mo_undecidable (selected_events lib section events m b)))"
  by (simp add: selected_events_def Let_def sorted_wrt_map sorted_wrt_filter)

lemma selected_disjoint:
  "set (mo_matched (selected_events lib section events m b)) \<inter>
     set (mo_undecidable (selected_events lib section events m b)) = {}"
  by (auto simp: selected_events_def Let_def)

lemma selected_subset:
  "set (mo_matched (selected_events lib section events m b)) \<union>
     set (mo_undecidable (selected_events lib section events m b)) \<subseteq> set events"
  by (auto simp: selected_events_def Let_def)

lemma binding_operator_declared:
  assumes "(name, n) \<in> set (binding_references p)"
  shows "name = ''equals_binding'' \<and> Op_equals_binding n \<in> set (declared_operators p) \<or>
    name = ''contains_binding'' \<and> Op_contains_binding n \<in> set (declared_operators p)"
  using assms by (auto simp: binding_references_def declared_operators_def split: option.splits)

lemma makeability_sound:
  assumes "makeability operator v w = UNMAKEABLE" "operator \<in> {''equals_binding'', ''contains_binding''}"
  shows "\<not> binding_compare operator v w"
proof
  assume "binding_compare operator v w"
  then have "ever_satisfiable operator (json_type_of v) (json_type_of w) = Inr True"
    using assms(2) equals_table_sound [of v w] contains_table_sound [of v w False]
    by (auto simp: binding_compare_def)
  with assms(1) show False by (simp add: makeability_def split: if_splits)
qed

section \<open>Properties\<close>

text \<open>
  Property C26.  The short-circuiting evaluation answers as the full one would: stopping at the second
  rejecting reading, or at one without comparisons, and skipping readings that cannot reject any
  more changes neither the verdict, nor the fields reported unreadable, nor which comparison
  records the event keeps.
\<close>

theorem resolve_short_circuit_exact:
  "resolve lib section m event results b = resolve_full lib section m event results b"
  by (rule resolve_eq_full)

text \<open>
  What a verdict on an event means over every completion of its missing evidence: a
  true one matches under all of them, a false one under none, and an unknown one exactly when the
  values filled in satisfy the predicates left unread; an event alone is never withheld.
\<close>

theorem resolve_sound_over_completions:
  assumes "rs = predicate_readings m event (outcome_of event results)"
    and "unread = unread_indices rs (outcome_of event results)"
    and "completes unread rs rs'"
  shows "case fst (resolve lib section m event results b) of
      T_TRUE \<Rightarrow> event_matches lib section b rs'
    | T_FALSE \<Rightarrow> \<not> event_matches lib section b rs'
    | T_UNKNOWN \<Rightarrow> unread \<noteq> [] \<and>
        (event_matches lib section b rs' \<longleftrightarrow> (\<forall>i \<in> set unread. reading_holds lib section b (rs' ! i)))
    | T_WITHHELD \<Rightarrow> False"
proof -
  let ?h = "\<lambda>i. reading_holds lib section b (rs ! i)"
  have len: "length rs' = length rs"
    and same: "\<And>i. i < length rs \<Longrightarrow> i \<notin> set unread \<Longrightarrow> rs' ! i = rs ! i"
    using assms(3) by (simp_all add: completes_def)
  have lt: "\<And>i. i \<in> set unread \<Longrightarrow> i < length rs" using assms(2) unread_lt by simp
  have v: "fst (resolve lib section m event results b) =
      (if \<exists>i < length rs. i \<notin> set unread \<and> \<not> ?h i then T_FALSE else if unread \<noteq> [] then T_UNKNOWN else T_TRUE)"
    unfolding resolve_eq_full resolve_full_def Let_def assms(1,2) by (auto simp: list_ex_iff)
  have m: "event_matches lib section b rs' \<longleftrightarrow> (\<forall>i < length rs. reading_holds lib section b (rs' ! i))"
    by (simp add: event_matches_nth len)
  show ?thesis
  proof (cases "\<exists>i < length rs. i \<notin> set unread \<and> \<not> ?h i")
    case True
    then show ?thesis using same unfolding v m by auto
  next
    case False
    then have "event_matches lib section b rs' \<longleftrightarrow> (\<forall>i \<in> set unread. reading_holds lib section b (rs' ! i))"
      unfolding m using same lt by metis
    then show ?thesis unfolding v if_not_P [OF False] by simp
  qed
qed

definition demo_event :: TraceEvent where
  "demo_event = (call_seed ''c1'' ''get'' [] None)"

theorem resolve_sound_over_completions_witness:
  "fst (resolve no_regex LINEAR failed_call demo_event [] []) = T_UNKNOWN \<and>
   event_matches no_regex LINEAR [] [(''status'', Some (VStr ''error''), empty_predicate\<lparr>vp_equals := VStr ''error''\<rparr>)]"
proof -
  let ?rs = "predicate_readings failed_call demo_event (outcome_of demo_event [])"
  let ?rs' = "[(''status'', Some (VStr ''error''), empty_predicate\<lparr>vp_equals := VStr ''error''\<rparr>)]"
  have rs: "?rs = [(''status'', Some VNone, empty_predicate\<lparr>vp_equals := VStr ''error''\<rparr>)]" by code_simp
  have un: "unread_indices ?rs (outcome_of demo_event []) = [0]" by code_simp
  have c: "completes (unread_indices ?rs (outcome_of demo_event [])) ?rs ?rs'"
    unfolding un by (simp add: completes_def rs)
  have u: "fst (resolve no_regex LINEAR failed_call demo_event [] []) = T_UNKNOWN" by code_simp
  have h: "reading_holds no_regex LINEAR [] (?rs' ! 0)" by code_simp
  from resolve_sound_over_completions [OF refl refl c, of no_regex LINEAR "[]"] u h un
  show ?thesis by simp
qed

text \<open>
  A comparison reported as not makeable was false: if a reading has a record of a
  binding comparison in the unmakeable state, and its environment binds the name, the predicate
  does not hold there.
\<close>

theorem unmakeable_comparison_fails:
  assumes "r \<in> set (comparison_records field v p b event)" and "cr_state r = UNMAKEABLE"
    and "map_of b (cr_binding r) \<noteq> None"
  shows "\<not> predicate_holds lib section p (Some v) b"
proof -
  obtain name n where ref: "(name, n) \<in> set (binding_references p)"
    and r: "cr_binding r = n" "makeability name v (binding_value b n) = UNMAKEABLE"
    using assms(1,2) by (auto simp: comparison_records_def)
  obtain w where w: "map_of b n = Some w" using assms(3) r(1) by auto
  have vn: "v \<noteq> VNone" using r(2) by (auto simp: makeability_def)
  from binding_operator_declared [OF ref] show ?thesis
  proof
    assume a: "name = ''equals_binding'' \<and> Op_equals_binding n \<in> set (declared_operators p)"
    then have "\<not> py_eq v w" using makeability_sound [OF r(2)] w by (simp add: binding_compare_def binding_value_def)
    then have "\<not> operator_holds lib (regex_engine_under p section) (Op_equals_binding n) (Some v) b"
      using vn w by (simp add: operator_holds_def)
    with a show ?thesis unfolding predicate_holds_def list_all_iff by (elim conjE) (rule notI, drule (1) bspec, simp)
  next
    assume a: "name = ''contains_binding'' \<and> Op_contains_binding n \<in> set (declared_operators p)"
    then have "\<not> contains v w False" using makeability_sound [OF r(2)] w by (simp add: binding_compare_def binding_value_def)
    then have "\<not> operator_holds lib (regex_engine_under p section) (Op_contains_binding n) (Some v) b"
      using vn w by (simp add: operator_holds_def)
    with a show ?thesis unfolding predicate_holds_def list_all_iff by (elim conjE) (rule notI, drule (1) bspec, simp)
  qed
qed

theorem unmakeable_comparison_fails_witness:
  "\<not> predicate_holds no_regex LINEAR (empty_predicate\<lparr>vp_equals_binding := Some ''x''\<rparr>)
      (Some (VInt 40)) [(''x'', VStr ''report.md'')]"
proof -
  let ?p = "empty_predicate\<lparr>vp_equals_binding := Some ''x''\<rparr>" and ?b = "[(''x'', VStr ''report.md'')]"
  let ?r = "\<lparr>cr_event = demo_event, cr_field = ''args.n'', cr_operator = ''equals_binding'', cr_binding = ''x'',
    cr_bound = VStr ''report.md'', cr_state = UNMAKEABLE\<rparr>"
  have m: "makeability ''equals_binding'' (VInt 40) (VStr ''report.md'') = UNMAKEABLE" by code_simp
  have "?r \<in> set (comparison_records ''args.n'' (VInt 40) ?p ?b demo_event)"
    by (simp add: comparison_records_def binding_references_def empty_predicate_def binding_value_def m)
  from unmakeable_comparison_fails [OF this] show ?thesis by simp
qed

end
