(* ===== verification/Trace_Sides.thy ===== *)
theory Trace_Sides
  imports Trace_Matcher
begin

text \<open>
  How one side of a constraint is read when some events are undecidable: \<^verbatim>\<open>_side_readings\<close> and
  \<^verbatim>\<open>_selections\<close> of \<^verbatim>\<open>trace_checks/bindings.py\<close>, the relations and windows of
  \<^verbatim>\<open>constraints/ordering.py\<close> and \<^verbatim>\<open>constraints/windows.py\<close>, and \<^verbatim>\<open>_reachable_counts\<close> of
  \<^verbatim>\<open>constraints/presence.py\<close>.

  The code enumerates a few position sets per side.  The locale \<open>bracket\<close> states what makes such an
  enumeration as good as all completions of the side: every enumerated reading is a completion,
  and a relation of the right shape that agrees on the enumerated readings agrees on all of them.
  Brackets are closed under products, which is how constraints with two and three sides are
  covered, and each kind of side is interpreted below.
\<close>

section \<open>Readings\<close>

type_synonym pos_reading = "nat list"

definition selections :: "pos_reading \<Rightarrow> pos_reading \<Rightarrow> bool \<Rightarrow> pos_reading list" where
  "selections matched unknown earliest =
     (if matched = [] then [] # map (\<lambda>p. [p]) unknown
      else let chosen = (if earliest then Min (set matched) else Max (set matched));
               ahead = filter (\<lambda>p. if earliest then p < chosen else p > chosen) unknown
           in map (\<lambda>p. [p]) (ahead @ [chosen]))"

definition side_readings :: "MatcherOutcome \<Rightarrow> Quantifier option \<Rightarrow> pos_reading list" where
  "side_readings out quantifier =
     (let matched = map ev_position (mo_matched out);
          unknown = map ev_position (mo_undecidable out)
      in if quantifier = Some Q_FIRST \<or> quantifier = Some Q_LAST
         then selections matched unknown (quantifier = Some Q_FIRST)
         else if unknown = [] then [matched]
         else if matched = [] then [] # map (\<lambda>p. [p]) unknown @ [sort unknown]
         else [matched, sort (matched @ unknown)])"

fun anchor_quantifier :: "AnchorQuantifier \<Rightarrow> Quantifier" where
  "anchor_quantifier A_FIRST = Q_FIRST"
| "anchor_quantifier A_LAST = Q_LAST"

definition quantified :: "Quantifier \<Rightarrow> bool list \<Rightarrow> bool" where
  "quantified q values = (if q = Q_ALL then list_all (\<lambda>b. b) values else list_ex (\<lambda>b. b) values)"

definition relation_holds ::
    "pos_reading \<Rightarrow> Quantifier \<Rightarrow> pos_reading \<Rightarrow> Quantifier \<Rightarrow> (nat \<Rightarrow> nat \<Rightarrow> bool) \<Rightarrow> bool option" where
  "relation_holds left lq right rq relation =
     (if left = [] \<or> right = [] then None
      else Some (quantified lq (map (\<lambda>p. quantified rq (map (relation p) right)) left)))"

definition prefix_window :: "pos_reading \<Rightarrow> (int \<times> int) option" where
  "prefix_window anchor = (case anchor of [] \<Rightarrow> None | a # _ \<Rightarrow> Some (-1, int a))"

definition between_window :: "pos_reading \<Rightarrow> pos_reading \<Rightarrow> (int \<times> int) option" where
  "between_window start end =
     (case (start, end) of
        (s # _, e # _) \<Rightarrow> if s \<ge> e then None else Some (int s, int e)
      | _ \<Rightarrow> None)"

definition nothing_inside :: "(int \<times> int) option \<Rightarrow> pos_reading \<Rightarrow> bool option" where
  "nothing_inside window forbidden =
     (case window of
        None \<Rightarrow> None
      | Some (low, high) \<Rightarrow> Some (\<not> list_ex (\<lambda>p. low < int p \<and> int p < high) forbidden))"

definition reachable_counts :: "MatcherOutcome \<Rightarrow> nat list" where
  "reachable_counts out =
     (let definite = length (mo_matched out)
      in [definite ..< definite + length (mo_undecidable out) + 1])"

definition within_bounds :: "nat \<Rightarrow> int option \<Rightarrow> int option \<Rightarrow> bool" where
  "within_bounds n minimum maximum \<longleftrightarrow>
     (case minimum of None \<Rightarrow> True | Some m \<Rightarrow> int n \<ge> m) \<and>
     (case maximum of None \<Rightarrow> True | Some m \<Rightarrow> int n \<le> m)"

section \<open>Completions of a side\<close>

definition matched_set :: "MatcherOutcome \<Rightarrow> nat set" where
  "matched_set out = ev_position ` set (mo_matched out)"

definition unknown_set :: "MatcherOutcome \<Rightarrow> nat set" where
  "unknown_set out = ev_position ` set (mo_undecidable out)"

definition completions :: "MatcherOutcome \<Rightarrow> nat set set" where
  "completions out = {matched_set out \<union> S | S. S \<subseteq> unknown_set out}"

text \<open>What a quantifier reads of one completion.\<close>

definition side_of :: "Quantifier option \<Rightarrow> nat set \<Rightarrow> nat set" where
  "side_of q C = (if C = {} then {} else if q = Some Q_FIRST then {Min C}
                  else if q = Some Q_LAST then {Max C} else C)"

definition all_readings :: "MatcherOutcome \<Rightarrow> Quantifier option \<Rightarrow> nat set set" where
  "all_readings out q = side_of q ` completions out"

definition enum_readings :: "MatcherOutcome \<Rightarrow> Quantifier option \<Rightarrow> nat set set" where
  "enum_readings out q = set ` set (side_readings out q)"

definition decide_set :: "bool option set \<Rightarrow> OnMissing \<Rightarrow> truth" where
  "decide_set V om =
     (if om = M_WITHHOLD \<and> None \<in> V then T_WITHHELD
      else if V \<noteq> {} \<and> (\<forall>v \<in> V. resolved om v) then T_TRUE
      else if V \<noteq> {} \<and> (\<forall>v \<in> V. \<not> resolved om v) then T_FALSE else T_UNKNOWN)"

lemma decide_eq_set: "decide vs om = decide_set (set vs) om"
  by (simp add: decide_alt decide_set_def)

section \<open>Brackets\<close>

locale bracket =
  fixes enum :: "'a set" and whole :: "'a set" and ok :: "('a \<Rightarrow> bool option) \<Rightarrow> bool"
  assumes enum_sub: "enum \<subseteq> whole"
    and enum_ne: "enum \<noteq> {}"
    and agree: "ok f \<Longrightarrow> (\<And>x. x \<in> enum \<Longrightarrow> resolved om (f x) = b) \<Longrightarrow> x \<in> whole \<Longrightarrow> resolved om (f x) = b"
    and none: "ok f \<Longrightarrow> x \<in> whole \<Longrightarrow> f x = None \<Longrightarrow> \<exists>y \<in> enum. f y = None"
begin

lemma decided:
  assumes "ok f"
  shows "decide_set (f ` enum) om = decide_set (f ` whole) om"
proof -
  have n: "None \<in> f ` enum \<longleftrightarrow> None \<in> f ` whole"
  proof
    assume "None \<in> f ` enum"
    then show "None \<in> f ` whole" using image_mono [OF enum_sub, of f] by (rule rev_subsetD)
  next
    assume "None \<in> f ` whole"
    then obtain x where "x \<in> whole" "f x = None" by auto
    from none [OF assms this] show "None \<in> f ` enum" by force
  qed
  have a: "(\<forall>v \<in> f ` enum. resolved om v = b) \<longleftrightarrow> (\<forall>v \<in> f ` whole. resolved om v = b)" for b
    unfolding ball_simps(9)
  proof
    assume "\<forall>x \<in> enum. resolved om (f x) = b"
    then show "\<forall>x \<in> whole. resolved om (f x) = b" using agree [OF assms, of om b] by simp
  next
    assume "\<forall>x \<in> whole. resolved om (f x) = b"
    then show "\<forall>x \<in> enum. resolved om (f x) = b" using enum_sub by (simp add: subset_iff)
  qed
  have e: "f ` enum \<noteq> {}" "f ` whole \<noteq> {}" using enum_ne enum_sub by auto
  show ?thesis using n a [of True] a [of False] e by (simp add: decide_set_def)
qed

end

locale two_brackets =
  l: bracket enum1 whole1 ok1 + r: bracket enum2 whole2 ok2
  for enum1 whole1 :: "'a set" and ok1 and enum2 whole2 :: "'b set" and ok2

sublocale two_brackets \<subseteq> pair: bracket "enum1 \<times> enum2" "whole1 \<times> whole2"
  "\<lambda>f. (\<forall>d. ok1 (\<lambda>c. f (c, d))) \<and> (\<forall>c. ok2 (\<lambda>d. f (c, d)))"
proof
  show "enum1 \<times> enum2 \<subseteq> whole1 \<times> whole2" using l.enum_sub r.enum_sub by (rule Sigma_mono)
  show "enum1 \<times> enum2 \<noteq> {}" using l.enum_ne r.enum_ne by simp
next
  fix f om b x
  assume ok: "(\<forall>d. ok1 (\<lambda>c. f (c, d))) \<and> (\<forall>c. ok2 (\<lambda>d. f (c, d)))"
    and e: "\<And>x. x \<in> enum1 \<times> enum2 \<Longrightarrow> resolved om (f x) = b" and x: "x \<in> whole1 \<times> whole2"
  obtain c d where cd: "x = (c, d)" "c \<in> whole1" "d \<in> whole2" using x by auto
  have l: "resolved om (f (c, d')) = b" if d': "d' \<in> enum2" for d'
  proof (rule l.agree [of "\<lambda>c. f (c, d')" om b c])
    show "ok1 (\<lambda>c. f (c, d'))" using ok by simp
    show "c \<in> whole1" by (rule cd(2))
    show "resolved om (f (y, d')) = b" if "y \<in> enum1" for y using e [of "(y, d')"] that d' by simp
  qed
  have "resolved om (f (c, d)) = b"
  proof (rule r.agree [of "\<lambda>d. f (c, d)" om b d])
    show "ok2 (\<lambda>d. f (c, d))" using ok by simp
    show "d \<in> whole2" by (rule cd(3))
    show "resolved om (f (c, y)) = b" if "y \<in> enum2" for y using that by (rule l)
  qed
  then show "resolved om (f x) = b" using cd by simp
next
  fix f x
  assume ok: "(\<forall>d. ok1 (\<lambda>c. f (c, d))) \<and> (\<forall>c. ok2 (\<lambda>d. f (c, d)))"
    and x: "x \<in> whole1 \<times> whole2" and n: "f x = None"
  obtain c d where cd: "x = (c, d)" "c \<in> whole1" "d \<in> whole2" using x by auto
  obtain c' where c': "c' \<in> enum1" "f (c', d) = None"
    using l.none [of "\<lambda>c. f (c, d)" c] ok cd n by auto
  obtain d' where "d' \<in> enum2" "f (c', d') = None"
    using r.none [of "\<lambda>d. f (c', d)" d] ok cd(3) c'(2) by auto
  with c'(1) show "\<exists>y \<in> enum1 \<times> enum2. f y = None" by auto
qed

section \<open>The sides are brackets\<close>

lemma enum_readings_simps:
  "enum_readings out q =
     (if q = Some Q_FIRST \<or> q = Some Q_LAST then
        if matched_set out = {} then insert {} ((\<lambda>p. {p}) ` unknown_set out)
        else let chosen = (if q = Some Q_FIRST then Min (matched_set out) else Max (matched_set out))
             in (\<lambda>p. {p}) ` insert chosen {p \<in> unknown_set out. if q = Some Q_FIRST then p < chosen else p > chosen}
      else if unknown_set out = {} then {matched_set out}
      else if matched_set out = {} then insert {} (insert (unknown_set out) ((\<lambda>p. {p}) ` unknown_set out))
      else {matched_set out, matched_set out \<union> unknown_set out})"
proof -
  have m: "mo_matched out = [] \<longleftrightarrow> matched_set out = {}"
    and u: "mo_undecidable out = [] \<longleftrightarrow> unknown_set out = {}"
    by (simp_all add: matched_set_def unknown_set_def)
  have sets: "set (map ev_position (mo_matched out)) = matched_set out"
    "set (map ev_position (mo_undecidable out)) = unknown_set out"
    by (simp_all add: matched_set_def unknown_set_def)
  have sel: "set ` set (selections M U e) =
      (if M = [] then insert {} ((\<lambda>p. {p}) ` set U)
       else let chosen = (if e then Min (set M) else Max (set M))
            in (\<lambda>p. {p}) ` insert chosen {p \<in> set U. if e then p < chosen else p > chosen})" for M U e
    by (simp add: selections_def Let_def image_image)
  show ?thesis
  proof (cases "q = Some Q_FIRST \<or> q = Some Q_LAST")
    case True
    then have "side_readings out q =
        selections (map ev_position (mo_matched out)) (map ev_position (mo_undecidable out)) (q = Some Q_FIRST)"
      by (simp add: side_readings_def Let_def)
    with True show ?thesis unfolding enum_readings_def by (simp add: sel m sets del: set_map)
  next
    case False
    have singles: "set ` (\<lambda>p. [p]) ` A = (\<lambda>p. {p}) ` A" for A :: "nat set" by (simp add: image_image)
    show ?thesis
      unfolding enum_readings_def side_readings_def Let_def map_is_Nil_conv m u
      using False by (simp add: sets singles image_image del: set_map) (simp add: sets [symmetric] insert_commute Un_commute image_image)
  qed
qed

lemma finite_sides [simp]: "finite (matched_set out)" "finite (unknown_set out)"
  by (simp_all add: matched_set_def unknown_set_def)

lemma finite_completion: "C \<in> completions out \<Longrightarrow> finite C"
  by (auto simp: completions_def intro: finite_subset)

definition unselecting :: "Quantifier option \<Rightarrow> bool" where
  "unselecting q \<longleftrightarrow> q \<noteq> Some Q_FIRST \<and> q \<noteq> Some Q_LAST"

lemma all_readings_unselecting: "unselecting q \<Longrightarrow> all_readings out q = completions out"
proof -
  assume "unselecting q"
  then have "side_of q C = C" for C by (simp add: unselecting_def side_of_def)
  then show ?thesis by (simp add: all_readings_def)
qed

lemma enum_ends:
  assumes "unselecting q"
  shows "matched_set out \<in> enum_readings out q"
    and "matched_set out \<union> unknown_set out \<in> enum_readings out q"
    and "matched_set out = {} \<Longrightarrow> p \<in> unknown_set out \<Longrightarrow> {p} \<in> enum_readings out q"
  using assms by (auto simp: enum_readings_simps unselecting_def)

lemma enum_sub_unselecting: "unselecting q \<Longrightarrow> enum_readings out q \<subseteq> completions out"
proof
  fix C
  assume "unselecting q" "C \<in> enum_readings out q"
  then have "C = matched_set out \<or> C = matched_set out \<union> unknown_set out \<or>
      matched_set out = {} \<and> (\<exists>p \<in> unknown_set out. C = {p})"
    by (auto simp: enum_readings_simps unselecting_def split: if_splits)
  then obtain S where "S \<subseteq> unknown_set out" "C = matched_set out \<union> S"
  proof (elim disjE conjE bexE)
    assume "C = matched_set out"
    then show ?thesis using that [of "{}"] by simp
  next
    assume "C = matched_set out \<union> unknown_set out"
    then show ?thesis using that [of "unknown_set out"] by simp
  next
    fix p
    assume "matched_set out = {}" "p \<in> unknown_set out" "C = {p}"
    then show ?thesis using that [of "{p}"] by simp
  qed
  then show "C \<in> completions out" by (auto simp: completions_def)
qed

text \<open>A nonempty completion holds an enumerated nonempty reading and lies inside the largest one.\<close>

lemma completion_brackets:
  assumes "unselecting q" "C \<in> completions out"
  shows "C \<subseteq> matched_set out \<union> unknown_set out"
    and "C = {} \<Longrightarrow> {} \<in> enum_readings out q"
    and "C \<noteq> {} \<Longrightarrow> \<exists>D \<in> enum_readings out q. D \<noteq> {} \<and> D \<subseteq> C"
proof -
  obtain S where S: "S \<subseteq> unknown_set out" "C = matched_set out \<union> S"
    using assms(2) by (auto simp: completions_def)
  show "C \<subseteq> matched_set out \<union> unknown_set out" using S by auto
  show "{} \<in> enum_readings out q" if "C = {}"
    using enum_ends(1) [OF assms(1), of out] S that by simp
  show "\<exists>D \<in> enum_readings out q. D \<noteq> {} \<and> D \<subseteq> C" if "C \<noteq> {}"
  proof (cases "matched_set out = {}")
    case True
    then have "S \<noteq> {}" using that S by simp
    then obtain p where "p \<in> S" by auto
    then have p: "p \<in> S" "p \<in> unknown_set out" using subsetD [OF S(1)] by simp_all
    then have "{p} \<subseteq> C" using S(2) by simp
    with enum_ends(3) [OF assms(1) True p(2)] show ?thesis by auto
  next
    case False
    then show ?thesis using enum_ends(1) [OF assms(1), of out] S(2) by auto
  qed
qed

text \<open>
  The relations a side can be bracketed for: existential readings keep \<^verbatim>\<open>True\<close> when the side grows,
  universal readings keep \<^verbatim>\<open>False\<close>, and an empty side is unmatched; a forbidden set is read
  universally and its emptiness is a verdict of its own.
\<close>

definition keeps :: "bool \<Rightarrow> (nat set \<Rightarrow> bool option) \<Rightarrow> bool" where
  "keeps v f \<longleftrightarrow> (\<forall>C. f C = None) \<or>
     ((\<forall>C. f C = None \<longleftrightarrow> C = {}) \<and> (\<forall>C D. C \<noteq> {} \<longrightarrow> C \<subseteq> D \<longrightarrow> f C = Some v \<longrightarrow> f D = Some v))"

definition forbids :: "(nat set \<Rightarrow> bool option) \<Rightarrow> bool" where
  "forbids f \<longleftrightarrow> (\<forall>C. f C = None) \<or>
     ((\<forall>C. f C \<noteq> None) \<and> (\<forall>C D. C \<subseteq> D \<longrightarrow> f C = Some False \<longrightarrow> f D = Some False))"

lemma resolved_Some [simp]: "resolved om (Some b) = b"
  by (simp add: resolved_def)

lemma bracket_constant_None:
  assumes "\<forall>C. f C = None" "E \<noteq> {}" "\<And>x. x \<in> E \<Longrightarrow> resolved om (f x) = b"
  shows "resolved om (f y) = b"
  using assms by auto

lemma bracket_monotone:
  assumes q: "unselecting q"
    and none: "\<And>C. f C = None \<longleftrightarrow> C = {}"
    and mono: "\<And>C D. C \<noteq> {} \<Longrightarrow> C \<subseteq> D \<Longrightarrow> f C = Some v \<Longrightarrow> f D = Some v"
    and e: "\<And>x. x \<in> enum_readings out q \<Longrightarrow> resolved om (f x) = b" and C: "C \<in> completions out"
  shows "resolved om (f C) = b"
proof (cases "C = {}")
  case True
  then show ?thesis using e completion_brackets(2) [OF q C] by simp
next
  case False
  then obtain c where c: "f C = Some c" using none by auto
  obtain D where D: "D \<in> enum_readings out q" "D \<noteq> {}" "D \<subseteq> C"
    using completion_brackets(3) [OF q C False] by auto
  then obtain d where d: "f D = Some d" using none by auto
  let ?T = "matched_set out \<union> unknown_set out"
  have sub: "C \<subseteq> ?T" using completion_brackets(1) [OF q C] .
  with False have "?T \<noteq> {}" by auto
  then obtain t where t: "f ?T = Some t" using none [of ?T] by (cases "f ?T") simp_all
  have "d = b" "t = b" using e [OF D(1)] d e [OF enum_ends(2) [OF q]] t by simp_all
  moreover have "d = v \<longrightarrow> c = v" using mono [OF D(2,3)] c d by auto
  moreover have "c = v \<longrightarrow> t = v" using mono [OF False sub] c t by auto
  ultimately show ?thesis using c by (cases v; cases b; cases c; simp)
qed

lemma unselecting_any [simp]: "unselecting (Some Q_ANY)" "unselecting (Some Q_ALL)" "unselecting None"
  by (simp_all add: unselecting_def)

definition plain_quantifier :: "bool \<Rightarrow> Quantifier option" where
  "plain_quantifier v = Some (if v then Q_ANY else Q_ALL)"

lemma unselecting_plain [simp]: "unselecting (plain_quantifier v)"
  by (simp add: unselecting_def plain_quantifier_def)

interpretation plain_side: bracket "enum_readings out (plain_quantifier v)" "all_readings out (plain_quantifier v)" "keeps v"
  for out v
proof
  let ?E = "enum_readings out (plain_quantifier v)"
  have all: "all_readings out (plain_quantifier v) = completions out" by (simp add: all_readings_unselecting)
  show "?E \<subseteq> all_readings out (plain_quantifier v)" by (simp add: all enum_sub_unselecting)
  show ne: "?E \<noteq> {}" using enum_ends(1) [of "plain_quantifier v" out] by auto
  fix f om b x
  assume ok: "keeps v f"
  show "resolved om (f x) = b"
    if e: "\<And>x. x \<in> ?E \<Longrightarrow> resolved om (f x) = b" and x: "x \<in> all_readings out (plain_quantifier v)"
    using ok unfolding keeps_def
  proof
    assume "\<forall>C. f C = None"
    then show ?thesis using ne e by (rule bracket_constant_None)
  next
    assume m: "(\<forall>C. f C = None \<longleftrightarrow> C = {}) \<and> (\<forall>C D. C \<noteq> {} \<longrightarrow> C \<subseteq> D \<longrightarrow> f C = Some v \<longrightarrow> f D = Some v)"
    show ?thesis
      by (rule bracket_monotone [of "plain_quantifier v" f v out om b x]) (use m e x all in simp_all)
  qed
  show "\<exists>y \<in> ?E. f y = None" if x: "x \<in> all_readings out (plain_quantifier v)" and n: "f x = None"
    using ok unfolding keeps_def
  proof
    assume "\<forall>C. f C = None"
    then show ?thesis using ne by auto
  next
    assume m: "(\<forall>C. f C = None \<longleftrightarrow> C = {}) \<and> (\<forall>C D. C \<noteq> {} \<longrightarrow> C \<subseteq> D \<longrightarrow> f C = Some v \<longrightarrow> f D = Some v)"
    then have "x = {}" using n by simp
    then have "{} \<in> ?E" using completion_brackets(2) [of "plain_quantifier v" x out] x all by simp
    then show ?thesis using m by auto
  qed
qed

interpretation forbidden_side: bracket "enum_readings out None" "all_readings out None" forbids
  for out
proof
  let ?E = "enum_readings out None"
  have all: "all_readings out None = completions out" by (simp add: all_readings_unselecting)
  show "?E \<subseteq> all_readings out None" by (simp add: all enum_sub_unselecting)
  show ne: "?E \<noteq> {}" using enum_ends(1) [of None out] by auto
  fix f om b x
  assume ok: "forbids f"
  show "resolved om (f x) = b"
    if e: "\<And>x. x \<in> ?E \<Longrightarrow> resolved om (f x) = b" and x: "x \<in> all_readings out None"
    using ok unfolding forbids_def
  proof
    assume "\<forall>C. f C = None"
    then show ?thesis using ne e by (rule bracket_constant_None)
  next
    assume m: "(\<forall>C. f C \<noteq> None) \<and> (\<forall>C D. C \<subseteq> D \<longrightarrow> f C = Some False \<longrightarrow> f D = Some False)"
    obtain S where S: "S \<subseteq> unknown_set out" "x = matched_set out \<union> S" using x all by (auto simp: completions_def)
    have some: "\<exists>c. f C = Some c" for C using m by auto
    obtain l t c where v: "f (matched_set out) = Some l" "f (matched_set out \<union> unknown_set out) = Some t" "f x = Some c"
      using some by metis
    have "l = b" "t = b" using e [OF enum_ends(1)] e [OF enum_ends(2)] v by simp_all
    moreover have "l = False \<longrightarrow> c = False"
    proof -
      have "matched_set out \<subseteq> x" using S(2) by auto
      then show ?thesis using m v by auto
    qed
    moreover have "c = False \<longrightarrow> t = False"
    proof -
      have "x \<subseteq> matched_set out \<union> unknown_set out" using S by auto
      then show ?thesis using m v by auto
    qed
    ultimately show ?thesis using v(3) by (cases b; cases c; simp)
  qed
  show "\<exists>y \<in> ?E. f y = None" if x: "x \<in> all_readings out None" and n: "f x = None"
    using ok unfolding forbids_def
  proof
    assume "\<forall>C. f C = None"
    then show ?thesis using ne by auto
  next
    assume "(\<forall>C. f C \<noteq> None) \<and> (\<forall>C D. C \<subseteq> D \<longrightarrow> f C = Some False \<longrightarrow> f D = Some False)"
    then have "f x \<noteq> None" by (elim conjE allE)
    then show ?thesis using n by contradiction
  qed
qed

subsection \<open>Selecting sides are read exactly\<close>

lemma Min_completion:
  assumes "finite M" "finite S" "M \<noteq> {}"
  shows "Min (M \<union> S) = Min M \<or> Min (M \<union> S) \<in> S \<and> Min (M \<union> S) < Min (M :: nat set)"
proof -
  have fin: "finite (M \<union> S)" "M \<union> S \<noteq> {}" using assms by auto
  have le: "Min (M \<union> S) \<le> Min M" using assms by (intro Min_antimono) auto
  show ?thesis
  proof (cases "Min (M \<union> S) \<in> M")
    case True
    then have "Min M \<le> Min (M \<union> S)" by (rule Min_le [OF assms(1)])
    with le show ?thesis by simp
  next
    case False
    then have "Min (M \<union> S) \<in> S" using Min_in [OF fin] by auto
    moreover have "Min (M \<union> S) \<noteq> Min M" using False assms Min_in [of M] by metis
    ultimately show ?thesis using le by simp
  qed
qed

lemma Max_completion:
  assumes "finite M" "finite S" "M \<noteq> {}"
  shows "Max (M \<union> S) = Max M \<or> Max (M \<union> S) \<in> S \<and> Max (M \<union> S) > Max (M :: nat set)"
proof -
  have fin: "finite (M \<union> S)" "M \<union> S \<noteq> {}" using assms by auto
  have le: "Max M \<le> Max (M \<union> S)" using assms by (intro Max_mono) auto
  show ?thesis
  proof (cases "Max (M \<union> S) \<in> M")
    case True
    then have "Max (M \<union> S) \<le> Max M" by (rule Max_ge [OF assms(1)])
    with le show ?thesis by simp
  next
    case False
    then have "Max (M \<union> S) \<in> S" using Max_in [OF fin] by auto
    moreover have "Max (M \<union> S) \<noteq> Max M" using False assms Max_in [of M] by metis
    ultimately show ?thesis using le by simp
  qed
qed

lemma completions_iff: "C \<in> completions out \<longleftrightarrow> (\<exists>S. S \<subseteq> unknown_set out \<and> C = matched_set out \<union> S)"
  by (auto simp: completions_def)

lemma completions_unmatched: "matched_set out = {} \<Longrightarrow> C \<in> completions out \<longleftrightarrow> C \<subseteq> unknown_set out"
  by (auto simp: completions_def)

lemma selecting_exact_unmatched:
  assumes "\<not> unselecting q" "matched_set out = {}"
  shows "all_readings out q = enum_readings out q"
proof -
  have e: "enum_readings out q = insert {} ((\<lambda>p. {p}) ` unknown_set out)"
    using assms by (auto simp: enum_readings_simps unselecting_def)
  show ?thesis unfolding e
  proof (intro equalityI subsetI)
    fix L
    assume "L \<in> all_readings out q"
    then obtain C where C: "C \<subseteq> unknown_set out" "L = side_of q C"
      using assms(2) by (auto simp: all_readings_def completions_unmatched)
    then have fin: "finite C" by (meson finite_sides(2) finite_subset)
    show "L \<in> insert {} ((\<lambda>p. {p}) ` unknown_set out)"
    proof (cases "C = {}")
      case True
      then show ?thesis using C(2) by (simp add: side_of_def)
    next
      case False
      then have "L = {Min C} \<or> L = {Max C}" using C(2) assms(1) by (auto simp: side_of_def unselecting_def)
      moreover have "Min C \<in> unknown_set out" "Max C \<in> unknown_set out"
        using subsetD [OF C(1) Min_in [OF fin False]] subsetD [OF C(1) Max_in [OF fin False]] by simp_all
      ultimately show ?thesis by auto
    qed
  next
    fix L
    assume "L \<in> insert {} ((\<lambda>p. {p}) ` unknown_set out)"
    then have "L = {} \<or> (\<exists>p \<in> unknown_set out. L = {p})" by auto
    then show "L \<in> all_readings out q"
    proof
      assume "L = {}"
      then have "L = side_of q {}" "{} \<in> completions out"
        using assms(2) by (simp_all add: side_of_def completions_unmatched)
      then show ?thesis unfolding all_readings_def by (rule image_eqI)
    next
      assume "\<exists>p \<in> unknown_set out. L = {p}"
      then obtain p where "p \<in> unknown_set out" "L = {p}" by auto
      then have "L = side_of q {p}" "{p} \<in> completions out"
        using assms(2) by (simp_all add: side_of_def completions_unmatched)
      then show ?thesis unfolding all_readings_def by (rule image_eqI)
    qed
  qed
qed

lemma first_exact_matched:
  assumes "matched_set out \<noteq> {}"
  shows "all_readings out (Some Q_FIRST) = enum_readings out (Some Q_FIRST)"
proof -
  let ?M = "matched_set out" and ?U = "unknown_set out"
  have e: "enum_readings out (Some Q_FIRST) = (\<lambda>p. {p}) ` insert (Min ?M) {p \<in> ?U. p < Min ?M}"
    using assms by (simp add: enum_readings_simps Let_def)
  show ?thesis unfolding e
  proof (intro equalityI subsetI)
    fix L
    assume "L \<in> all_readings out (Some Q_FIRST)"
    then obtain C where C: "C \<in> completions out" "L = side_of (Some Q_FIRST) C"
      unfolding all_readings_def by (elim imageE) simp
    then obtain S where S': "S \<subseteq> ?U" "C = ?M \<union> S" unfolding completions_iff by (elim exE conjE)
    then have S: "S \<subseteq> ?U" "L = {Min (?M \<union> S)}" using C(2) assms by (simp_all add: side_of_def)
    have "finite S" using S(1) by (rule finite_subset) simp
    from Min_completion [OF finite_sides(1) this assms] S
    show "L \<in> (\<lambda>p. {p}) ` insert (Min ?M) {p \<in> ?U. p < Min ?M}" by auto
  next
    fix L
    assume "L \<in> (\<lambda>p. {p}) ` insert (Min ?M) {p \<in> ?U. p < Min ?M}"
    then consider "L = {Min ?M}" | p where "p \<in> ?U" "p < Min ?M" "L = {p}" by auto
    then show "L \<in> all_readings out (Some Q_FIRST)"
    proof cases
      case 1
      then have "L = side_of (Some Q_FIRST) (?M \<union> {})" using assms by (simp add: side_of_def)
      then show ?thesis unfolding all_readings_def by (rule image_eqI) (auto simp: completions_iff)
    next
      case 2
      have "Min (?M \<union> {p}) = p" 
        using Min_Un [OF finite_sides(1) assms, of "{p}"] min_absorb2 [OF less_imp_le [OF 2(2)]]
        by (simp only: finite.intros insert_not_empty not_False_eq_True Min_singleton simp_thms)
      then have "L = side_of (Some Q_FIRST) (?M \<union> {p})" using 2(3) by (simp add: side_of_def)
      then show ?thesis unfolding all_readings_def
        by (rule image_eqI) (use 2(1) in \<open>auto simp: completions_iff intro!: exI [of _ "{p}"]\<close>)
    qed
  qed
qed

lemma last_exact_matched:
  assumes "matched_set out \<noteq> {}"
  shows "all_readings out (Some Q_LAST) = enum_readings out (Some Q_LAST)"
proof -
  let ?M = "matched_set out" and ?U = "unknown_set out"
  have e: "enum_readings out (Some Q_LAST) = (\<lambda>p. {p}) ` insert (Max ?M) {p \<in> ?U. p > Max ?M}"
    using assms by (simp add: enum_readings_simps Let_def)
  show ?thesis unfolding e
  proof (intro equalityI subsetI)
    fix L
    assume "L \<in> all_readings out (Some Q_LAST)"
    then obtain C where C: "C \<in> completions out" "L = side_of (Some Q_LAST) C"
      unfolding all_readings_def by (elim imageE) simp
    then obtain S where S': "S \<subseteq> ?U" "C = ?M \<union> S" unfolding completions_iff by (elim exE conjE)
    then have S: "S \<subseteq> ?U" "L = {Max (?M \<union> S)}" using C(2) assms by (simp_all add: side_of_def)
    have "finite S" using S(1) by (rule finite_subset) simp
    from Max_completion [OF finite_sides(1) this assms] S
    show "L \<in> (\<lambda>p. {p}) ` insert (Max ?M) {p \<in> ?U. p > Max ?M}" by auto
  next
    fix L
    assume "L \<in> (\<lambda>p. {p}) ` insert (Max ?M) {p \<in> ?U. p > Max ?M}"
    then consider "L = {Max ?M}" | p where "p \<in> ?U" "p > Max ?M" "L = {p}" by auto
    then show "L \<in> all_readings out (Some Q_LAST)"
    proof cases
      case 1
      then have "L = side_of (Some Q_LAST) (?M \<union> {})" using assms by (simp add: side_of_def)
      then show ?thesis unfolding all_readings_def by (rule image_eqI) (auto simp: completions_iff)
    next
      case 2
      have "Max (?M \<union> {p}) = p" 
        using Max_Un [OF finite_sides(1) assms, of "{p}"] max_absorb2 [OF less_imp_le [OF 2(2)]]
        by (simp only: finite.intros insert_not_empty not_False_eq_True Max_singleton simp_thms)
      then have "L = side_of (Some Q_LAST) (?M \<union> {p})" using 2(3) by (simp add: side_of_def)
      then show ?thesis unfolding all_readings_def
        by (rule image_eqI) (use 2(1) in \<open>auto simp: completions_iff intro!: exI [of _ "{p}"]\<close>)
    qed
  qed
qed

lemma selecting_exact: "\<not> unselecting q \<Longrightarrow> all_readings out q = enum_readings out q"
proof -
  assume q: "\<not> unselecting q"
  then have "q = Some Q_FIRST \<or> q = Some Q_LAST" by (auto simp: unselecting_def)
  with q show ?thesis
    by (metis first_exact_matched last_exact_matched selecting_exact_unmatched)
qed

lemma enum_readings_ne: "enum_readings out q \<noteq> {}"
  by (auto simp: enum_readings_simps Let_def)

definition select_quantifier :: "bool \<Rightarrow> Quantifier option" where
  "select_quantifier earliest = Some (if earliest then Q_FIRST else Q_LAST)"

interpretation selecting_side: bracket "enum_readings out (select_quantifier e)" "all_readings out (select_quantifier e)"
    "\<lambda>_. True" for out e
proof
  have "\<not> unselecting (select_quantifier e)" by (simp add: unselecting_def select_quantifier_def)
  then have all: "all_readings out (select_quantifier e) = enum_readings out (select_quantifier e)"
    by (rule selecting_exact)
  show "enum_readings out (select_quantifier e) \<subseteq> all_readings out (select_quantifier e)" by (simp add: all)
  show "enum_readings out (select_quantifier e) \<noteq> {}" by (rule enum_readings_ne)
  show "resolved om (f x) = b"
    if "\<And>x. x \<in> enum_readings out (select_quantifier e) \<Longrightarrow> resolved om (f x) = b"
      "x \<in> all_readings out (select_quantifier e)" for f :: "nat set \<Rightarrow> bool option" and om b x
    using that by (simp add: all)
  show "\<exists>y \<in> enum_readings out (select_quantifier e). f y = None"
    if "x \<in> all_readings out (select_quantifier e)" "f x = None" for f :: "nat set \<Rightarrow> bool option" and x
    using that by (auto simp: all)
qed

text \<open>One bracket per quantifier, whichever way it reads its side.\<close>

definition side_ok :: "Quantifier \<Rightarrow> (nat set \<Rightarrow> bool option) \<Rightarrow> bool" where
  "side_ok q f = (if q = Q_FIRST \<or> q = Q_LAST then True else keeps (q = Q_ANY) f)"

interpretation side: bracket "enum_readings out (Some q)" "all_readings out (Some q)" "side_ok q" for out q
proof -
  have plain: "Some q = plain_quantifier (q = Q_ANY) \<and> side_ok q = keeps (q = Q_ANY)" if "q = Q_ANY \<or> q = Q_ALL"
    using that by (auto simp: plain_quantifier_def side_ok_def fun_eq_iff)
  have sel: "Some q = select_quantifier (q = Q_FIRST) \<and> side_ok q = (\<lambda>_. True)" if "q = Q_FIRST \<or> q = Q_LAST"
    using that by (auto simp: select_quantifier_def side_ok_def fun_eq_iff)
  show "bracket (enum_readings out (Some q)) (all_readings out (Some q)) (side_ok q)"
    using plain sel plain_side.bracket_axioms [of out "q = Q_ANY"] selecting_side.bracket_axioms [of out "q = Q_FIRST"]
    by (cases q) metis+
qed

interpretation ordered: two_brackets "enum_readings lo (Some lq)" "all_readings lo (Some lq)" "side_ok lq"
    "enum_readings ro (Some rq)" "all_readings ro (Some rq)" "side_ok rq" for lo lq ro rq
  by unfold_locales

interpretation prefix: two_brackets "enum_readings ao (Some aq)" "all_readings ao (Some aq)" "side_ok aq"
    "enum_readings fo None" "all_readings fo None" forbids for ao aq fo
  by unfold_locales

interpretation between: two_brackets "enum_readings so (Some sq) \<times> enum_readings eo (Some eq)"
    "all_readings so (Some sq) \<times> all_readings eo (Some eq)"
    "\<lambda>f. (\<forall>d. side_ok sq (\<lambda>c. f (c, d))) \<and> (\<forall>c. side_ok eq (\<lambda>d. f (c, d)))"
    "enum_readings fo None" "all_readings fo None" forbids for so sq eo eq fo
  by unfold_locales

section \<open>Leaf verdicts from outcomes\<close>

definition ordering_truth ::
    "MatcherOutcome \<Rightarrow> Quantifier \<Rightarrow> MatcherOutcome \<Rightarrow> Quantifier \<Rightarrow> (nat \<Rightarrow> nat \<Rightarrow> bool) \<Rightarrow> OnMissing \<Rightarrow> truth" where
  "ordering_truth lo lq ro rq relation on_missing =
     decide (concat (map (\<lambda>l. map (\<lambda>r. relation_holds l lq r rq relation) (side_readings ro (Some rq)))
       (side_readings lo (Some lq)))) on_missing"

definition absent_before_truth ::
    "MatcherOutcome \<Rightarrow> AnchorQuantifier \<Rightarrow> MatcherOutcome \<Rightarrow> OnMissing \<Rightarrow> truth" where
  "absent_before_truth ao aq fo on_missing =
     decide (concat (map (\<lambda>a. map (\<lambda>f. nothing_inside (prefix_window a) f) (side_readings fo None))
       (side_readings ao (Some (anchor_quantifier aq))))) on_missing"

definition absent_between_truth ::
    "MatcherOutcome \<Rightarrow> AnchorQuantifier \<Rightarrow> MatcherOutcome \<Rightarrow> AnchorQuantifier \<Rightarrow> MatcherOutcome \<Rightarrow> OnMissing \<Rightarrow> truth" where
  "absent_between_truth so sq eo eq fo on_missing =
     decide (concat (map (\<lambda>s. concat (map (\<lambda>e. map (\<lambda>f. nothing_inside (between_window s e) f) (side_readings fo None))
       (side_readings eo (Some (anchor_quantifier eq))))) (side_readings so (Some (anchor_quantifier sq))))) on_missing"

definition present_truth :: "MatcherOutcome \<Rightarrow> OnMissing \<Rightarrow> truth" where
  "present_truth out on_missing =
     (let counts = reachable_counts out in
      if on_missing = M_WITHHOLD \<and> counts = [0] then T_WITHHELD
      else decide (map (\<lambda>n. Some (n > 0)) counts) on_missing)"

definition absent_truth :: "MatcherOutcome \<Rightarrow> OnMissing \<Rightarrow> truth" where
  "absent_truth out on_missing = decide (map (\<lambda>n. Some (n = 0)) (reachable_counts out)) on_missing"

definition count_truth :: "MatcherOutcome \<Rightarrow> int option \<Rightarrow> int option \<Rightarrow> OnMissing \<Rightarrow> truth" where
  "count_truth out minimum maximum on_missing =
     (let counts = reachable_counts out in
      if on_missing = M_WITHHOLD \<and> counts = [0] then T_WITHHELD
      else decide (map (\<lambda>n. Some (within_bounds n minimum maximum)) counts) on_missing)"

section \<open>Reference verdicts over all completions\<close>

definition quant_set :: "Quantifier \<Rightarrow> nat set \<Rightarrow> (nat \<Rightarrow> bool) \<Rightarrow> bool" where
  "quant_set q A P = (if q = Q_ALL then \<forall>x \<in> A. P x else \<exists>x \<in> A. P x)"

definition relation_set ::
    "Quantifier \<Rightarrow> Quantifier \<Rightarrow> (nat \<Rightarrow> nat \<Rightarrow> bool) \<Rightarrow> nat set \<times> nat set \<Rightarrow> bool option" where
  "relation_set lq rq relation LR = (case LR of (L, R) \<Rightarrow>
     if L = {} \<or> R = {} then None else Some (quant_set lq L (\<lambda>x. quant_set rq R (relation x))))"

definition prefix_set :: "nat set \<times> nat set \<Rightarrow> bool option" where
  "prefix_set AF = (case AF of (A, F) \<Rightarrow> if A = {} then None else Some (\<forall>p \<in> F. \<not> p < Min A))"

definition between_set :: "(nat set \<times> nat set) \<times> nat set \<Rightarrow> bool option" where
  "between_set SEF = (case SEF of ((S, E), F) \<Rightarrow>
     if S = {} \<or> E = {} \<or> Min S \<ge> Min E then None
     else Some (\<forall>p \<in> F. \<not> (Min S < p \<and> p < Min E)))"

lemma quantified_set: "quantified q (map P xs) = quant_set q (set xs) P"
  by (auto simp: quantified_def quant_set_def list_all_iff list_ex_iff)

lemma relation_holds_set: "relation_holds l lq r rq rel = relation_set lq rq rel (set l, set r)"
  by (simp add: relation_holds_def relation_set_def quantified_set)

lemma quant_set_mono: "(\<And>x. x \<in> A \<Longrightarrow> P x \<Longrightarrow> Q x) \<Longrightarrow> quant_set q A P \<Longrightarrow> quant_set q A Q"
  by (cases "q = Q_ALL") (simp_all add: quant_set_def, blast)

lemma quant_set_grow:
  assumes "q = Q_ANY \<or> q = Q_ALL" "C \<subseteq> D" "quant_set q C P = (q = Q_ANY)"
  shows "quant_set q D P = (q = Q_ANY)"
  using assms by (elim disjE) (simp_all add: quant_set_def, blast+)

lemma side_ok_left: "side_ok lq (\<lambda>L. relation_set lq rq rel (L, R))"
proof (cases "R = {} \<or> lq = Q_FIRST \<or> lq = Q_LAST")
  case True
  then show ?thesis by (auto simp: side_ok_def keeps_def relation_set_def)
next
  case False
  then have q: "lq = Q_ANY \<or> lq = Q_ALL" by (cases lq) auto
  have "relation_set lq rq rel (D, R) = Some (lq = Q_ANY)"
    if "C \<noteq> {}" "C \<subseteq> D" "relation_set lq rq rel (C, R) = Some (lq = Q_ANY)" for C D
  proof -
    have "D \<noteq> {}" using that by auto
    then show ?thesis using that False quant_set_grow [OF q that(2)] by (simp add: relation_set_def)
  qed
  then show ?thesis using False by (simp add: side_ok_def keeps_def) (simp add: relation_set_def)
qed

lemma side_ok_right: "side_ok rq (\<lambda>R. relation_set lq rq rel (L, R))"
proof (cases "L = {} \<or> rq = Q_FIRST \<or> rq = Q_LAST")
  case True
  then show ?thesis by (auto simp: side_ok_def keeps_def relation_set_def)
next
  case False
  then have q: "rq = Q_ANY \<or> rq = Q_ALL" by (cases rq) auto
  have "relation_set lq rq rel (L, D) = Some (rq = Q_ANY)"
    if CD: "C \<noteq> {}" "C \<subseteq> D" "relation_set lq rq rel (L, C) = Some (rq = Q_ANY)" for C D
  proof -
    have ne: "D \<noteq> {}" using CD by auto
    have v: "quant_set lq L (\<lambda>x. quant_set rq C (rel x)) = (rq = Q_ANY)"
      using CD False by (simp add: relation_set_def)
    have "quant_set lq L (\<lambda>x. quant_set rq D (rel x)) = (rq = Q_ANY)"
    proof (cases "rq = Q_ANY")
      case True
      have "quant_set rq C (rel x) \<Longrightarrow> quant_set rq D (rel x)" for x
        using quant_set_grow [OF q CD(2), of "rel x"] True by simp
      then show ?thesis using v True quant_set_mono [of L "\<lambda>x. quant_set rq C (rel x)"] by simp
    next
      case all: False
      have "quant_set rq D (rel x) \<Longrightarrow> quant_set rq C (rel x)" for x
        using quant_set_grow [OF q CD(2), of "rel x"] all by auto
      then show ?thesis using v all quant_set_mono [of L "\<lambda>x. quant_set rq D (rel x)"] by auto
    qed
    then show ?thesis using ne False by (simp add: relation_set_def)
  qed
  then show ?thesis using False by (simp add: side_ok_def keeps_def) (simp add: relation_set_def)
qed

text \<open>An ordering is decided exactly as it would be by reading every pair of completions.\<close>

lemma ordering_exact:
  "ordering_truth lo lq ro rq rel om =
     decide_set (relation_set lq rq rel ` (all_readings lo (Some lq) \<times> all_readings ro (Some rq))) om"
proof -
  have "set (concat (map (\<lambda>l. map (\<lambda>r. relation_holds l lq r rq rel) (side_readings ro (Some rq)))
       (side_readings lo (Some lq))))
    = relation_set lq rq rel ` (enum_readings lo (Some lq) \<times> enum_readings ro (Some rq))"
    by (force simp: relation_holds_set enum_readings_def)
  then have "ordering_truth lo lq ro rq rel om =
      decide_set (relation_set lq rq rel ` (enum_readings lo (Some lq) \<times> enum_readings ro (Some rq))) om"
    by (simp only: ordering_truth_def decide_eq_set)
  also have "\<dots> = decide_set (relation_set lq rq rel ` (all_readings lo (Some lq) \<times> all_readings ro (Some rq))) om"
    by (rule ordered.pair.decided) (simp add: side_ok_left side_ok_right)
  finally show ?thesis .
qed

lemma anchor_selecting: "\<not> unselecting (Some (anchor_quantifier q))" "side_ok (anchor_quantifier q) f"
  by (cases q; simp add: unselecting_def side_ok_def)+

lemma anchor_reading_single: "a \<in> set (side_readings out (Some (anchor_quantifier q))) \<Longrightarrow> a = [] \<or> (\<exists>p. a = [p])"
  by (cases q) (auto simp: side_readings_def selections_def Let_def split: if_splits)

lemma nothing_inside_prefix:
  "a = [] \<or> (\<exists>p. a = [p]) \<Longrightarrow> nothing_inside (prefix_window a) f = prefix_set (set a, set f)"
  by (auto simp: nothing_inside_def prefix_window_def prefix_set_def list_ex_iff)

lemma nothing_inside_between:
  "s = [] \<or> (\<exists>p. s = [p]) \<Longrightarrow> e = [] \<or> (\<exists>p. e = [p]) \<Longrightarrow>
     nothing_inside (between_window s e) f = between_set ((set s, set e), set f)"
  by (auto simp: nothing_inside_def between_window_def between_set_def list_ex_iff)

lemma forbids_prefix: "forbids (\<lambda>F. prefix_set (A, F))"
  by (auto simp: forbids_def prefix_set_def)

lemma forbids_between: "forbids (\<lambda>F. between_set (SE, F))"
  by (cases SE) (auto simp: forbids_def between_set_def)

lemma absent_before_exact:
  "absent_before_truth ao aq fo om =
     decide_set (prefix_set ` (all_readings ao (Some (anchor_quantifier aq)) \<times> all_readings fo None)) om"
proof -
  let ?A = "side_readings ao (Some (anchor_quantifier aq))" and ?F = "side_readings fo None"
  have "set (concat (map (\<lambda>a. map (\<lambda>f. nothing_inside (prefix_window a) f) ?F) ?A))
      = (\<lambda>(a, f). nothing_inside (prefix_window a) f) ` (set ?A \<times> set ?F)" by force
  also have "\<dots> = (\<lambda>(a, f). prefix_set (set a, set f)) ` (set ?A \<times> set ?F)"
    using anchor_reading_single by (intro image_cong) (auto simp: nothing_inside_prefix)
  also have "\<dots> = prefix_set ` (enum_readings ao (Some (anchor_quantifier aq)) \<times> enum_readings fo None)"
    by (force simp: enum_readings_def)
  finally have "absent_before_truth ao aq fo om =
      decide_set (prefix_set ` (enum_readings ao (Some (anchor_quantifier aq)) \<times> enum_readings fo None)) om"
    by (simp only: absent_before_truth_def decide_eq_set)
  also have "\<dots> = decide_set (prefix_set ` (all_readings ao (Some (anchor_quantifier aq)) \<times> all_readings fo None)) om"
    by (rule prefix.pair.decided) (simp add: anchor_selecting forbids_prefix)
  finally show ?thesis .
qed

lemma absent_between_exact:
  "absent_between_truth so sq eo eq fo om =
     decide_set (between_set ` ((all_readings so (Some (anchor_quantifier sq)) \<times>
       all_readings eo (Some (anchor_quantifier eq))) \<times> all_readings fo None)) om"
proof -
  let ?S = "side_readings so (Some (anchor_quantifier sq))" and ?E = "side_readings eo (Some (anchor_quantifier eq))"
  let ?F = "side_readings fo None"
  have "set (concat (map (\<lambda>s. concat (map (\<lambda>e. map (\<lambda>f. nothing_inside (between_window s e) f) ?F) ?E)) ?S))
      = (\<lambda>((s, e), f). nothing_inside (between_window s e) f) ` ((set ?S \<times> set ?E) \<times> set ?F)" by force
  also have "\<dots> = (\<lambda>((s, e), f). between_set ((set s, set e), set f)) ` ((set ?S \<times> set ?E) \<times> set ?F)"
    using anchor_reading_single by (intro image_cong) (auto simp: nothing_inside_between)
  also have "\<dots> = between_set ` ((enum_readings so (Some (anchor_quantifier sq)) \<times>
       enum_readings eo (Some (anchor_quantifier eq))) \<times> enum_readings fo None)"
    by (force simp: enum_readings_def)
  finally have "absent_between_truth so sq eo eq fo om =
      decide_set (between_set ` ((enum_readings so (Some (anchor_quantifier sq)) \<times>
       enum_readings eo (Some (anchor_quantifier eq))) \<times> enum_readings fo None)) om"
    by (simp only: absent_between_truth_def decide_eq_set)
  also have "\<dots> = decide_set (between_set ` ((all_readings so (Some (anchor_quantifier sq)) \<times>
       all_readings eo (Some (anchor_quantifier eq))) \<times> all_readings fo None)) om"
    by (rule between.pair.decided) (simp add: anchor_selecting forbids_between)
  finally show ?thesis .
qed

subsection \<open>Counts\<close>

definition outcome_wf :: "MatcherOutcome \<Rightarrow> bool" where
  "outcome_wf out \<longleftrightarrow> distinct (map ev_position (mo_matched out @ mo_undecidable out))"

lemma card_completion:
  assumes "outcome_wf out" "S \<subseteq> unknown_set out"
  shows "card (matched_set out \<union> S) = length (mo_matched out) + card S"
proof -
  have d: "distinct (map ev_position (mo_matched out))" "matched_set out \<inter> unknown_set out = {}"
    using assms(1) by (auto simp: outcome_wf_def matched_set_def unknown_set_def)
  then have "matched_set out \<inter> S = {}" using assms(2) by auto
  then have "card (matched_set out \<union> S) = card (matched_set out) + card S"
    using assms(2) by (intro card_Un_disjoint) (auto intro: finite_subset)
  moreover have "card (matched_set out) = length (mo_matched out)"
    using distinct_card [OF d(1)] by (simp add: matched_set_def)
  ultimately show ?thesis by simp
qed

lemma card_unknown: "outcome_wf out \<Longrightarrow> card (unknown_set out) = length (mo_undecidable out)"
  using distinct_card [of "map ev_position (mo_undecidable out)"] by (simp add: outcome_wf_def unknown_set_def)

lemma counts_exact:
  assumes "outcome_wf out"
  shows "set (reachable_counts out) = card ` completions out"
proof (intro equalityI subsetI)
  fix n
  assume "n \<in> set (reachable_counts out)"
  then have n: "length (mo_matched out) \<le> n" "n - length (mo_matched out) \<le> card (unknown_set out)"
    using card_unknown [OF assms] by (auto simp: reachable_counts_def Let_def)
  obtain S where S: "S \<subseteq> unknown_set out" "card S = n - length (mo_matched out)"
    using obtain_subset_with_card_n [OF n(2)] by auto
  then have "n = card (matched_set out \<union> S)" using card_completion [OF assms S(1)] n(1) by simp
  then show "n \<in> card ` completions out"
    by (rule image_eqI) (use S(1) in \<open>auto simp: completions_iff\<close>)
next
  fix n
  assume "n \<in> card ` completions out"
  then obtain S where S: "S \<subseteq> unknown_set out" "n = card (matched_set out \<union> S)"
    by (auto simp: completions_def)
  then have "card S \<le> length (mo_undecidable out)"
    using card_mono [OF finite_sides(2) S(1)] card_unknown [OF assms] by simp
  then show "n \<in> set (reachable_counts out)"
    using card_completion [OF assms S(1)] S(2) by (auto simp: reachable_counts_def Let_def)
qed

lemma reachable_counts_zero: "reachable_counts out = [0] \<longleftrightarrow> mo_matched out = [] \<and> mo_undecidable out = []"
proof -
  have "reachable_counts out = length (mo_matched out) # [Suc (length (mo_matched out)) ..<
      length (mo_matched out) + length (mo_undecidable out) + 1]"
    by (simp add: reachable_counts_def Let_def upt_conv_Cons del: upt_Suc)
  then show ?thesis by (cases "mo_undecidable out") simp_all
qed

lemma full_completion: "matched_set out \<union> unknown_set out \<in> completions out"
  by (auto simp: completions_iff)

subsection \<open>Ordering a set against itself\<close>

lemma quant_set_witness: "A \<noteq> {} \<Longrightarrow> quant_set q A P \<Longrightarrow> \<exists>x \<in> A. P x"
  by (auto simp: quant_set_def split: if_splits)

lemma side_of_cases:
  assumes "C \<noteq> {}" "finite C"
  shows "side_of (Some q) C \<noteq> {}" "side_of (Some q) C \<subseteq> C"
  using assms Min_in [OF assms(2,1)] Max_in [OF assms(2,1)] by (auto simp: side_of_def)

lemma self_order_false:
  assumes C: "C \<noteq> {}" "finite C" and rel: "\<And>x y. relation x y \<Longrightarrow> x < y"
    and q: "lq = Q_LAST \<or> lq = Q_ALL \<or> rq = Q_FIRST \<or> rq = Q_ALL"
  shows "\<not> quant_set lq (side_of (Some lq) C) (\<lambda>x. quant_set rq (side_of (Some rq) C) (relation x))"
proof
  assume h: "quant_set lq (side_of (Some lq) C) (\<lambda>x. quant_set rq (side_of (Some rq) C) (relation x))"
  have top: False if m: "quant_set rq (side_of (Some rq) C) (relation (Max C))"
  proof -
    obtain y where "y \<in> side_of (Some rq) C" "relation (Max C) y"
      using quant_set_witness [OF side_of_cases(1) [OF C] m] by auto
    then show False using rel [of "Max C" y] side_of_cases(2) [OF C, of rq] Max_ge [OF C(2), of y] by auto
  qed
  have bottom: False if "x \<in> side_of (Some lq) C" "relation x (Min C)" for x
    using rel [OF that(2)] side_of_cases(2) [OF C, of lq] Min_le [OF C(2), of x] that(1) by auto
  obtain x where x: "x \<in> side_of (Some lq) C" "quant_set rq (side_of (Some rq) C) (relation x)"
    using quant_set_witness [OF side_of_cases(1) [OF C] h] by auto
  from q show False
  proof (elim disjE)
    assume "lq = Q_LAST"
    then show False using h top C by (simp add: quant_set_def side_of_def)
  next
    assume "lq = Q_ALL"
    then show False using h top C Max_in [OF C(2,1)] by (simp add: quant_set_def [of Q_ALL C] side_of_def)
  next
    assume "rq = Q_FIRST"
    then show False using x bottom C by (simp add: quant_set_def side_of_def)
  next
    assume "rq = Q_ALL"
    then have "relation x (Min C)" using x(2) C Min_in [OF C(2,1)] by (simp add: quant_set_def side_of_def)
    then show False by (rule bottom [OF x(1)])
  qed
qed

section \<open>Properties\<close>

text \<open>
  Property C24.  An ordering constraint is decided exactly as reading every pair of completions of its
  two sides would decide it, for every combination of quantifiers, every relation between
  positions (before, or adjacent in a view) and every policy on an unmatched side; the handful of
  readings the code enumerates loses no verdict and invents none.
\<close>

theorem ordering_reads_every_completion:
  "ordering_truth lo lq ro rq relation on_missing =
     decide_set (relation_set lq rq relation ` (all_readings lo (Some lq) \<times> all_readings ro (Some rq))) on_missing"
  by (rule ordering_exact)

text \<open>
  Property C25.  The same for windows: \<^verbatim>\<open>absent_before\<close> over every completion of the anchor and of the
  forbidden events, \<^verbatim>\<open>absent_between\<close> over every completion of both anchors and of the forbidden
  events, where anchors that do not open a window leave it unmatched.
\<close>

theorem windows_read_every_completion:
  "absent_before_truth ao aq fo om =
     decide_set (prefix_set ` (all_readings ao (Some (anchor_quantifier aq)) \<times> all_readings fo None)) om \<and>
   absent_between_truth so sq eo eq fo om =
     decide_set (between_set ` ((all_readings so (Some (anchor_quantifier sq)) \<times>
       all_readings eo (Some (anchor_quantifier eq))) \<times> all_readings fo None)) om"
  using absent_before_exact absent_between_exact by simp

text \<open>
  The same for counting: on an outcome whose events are at different positions the counts
  read are exactly the sizes of the completions, so presence, absence and a bounded count are
  decided as over all of them, and only an outcome without any event is withheld.
\<close>

theorem counts_read_every_completion:
  assumes "outcome_wf out"
  shows "absent_truth out om = decide_set ((\<lambda>C. Some (card C = 0)) ` completions out) om \<and>
    count_truth out mn mx om =
      (if om = M_WITHHOLD \<and> matched_set out \<union> unknown_set out = {} then T_WITHHELD
       else decide_set ((\<lambda>C. Some (within_bounds (card C) mn mx)) ` completions out) om) \<and>
    present_truth out om =
      (if om = M_WITHHOLD \<and> matched_set out \<union> unknown_set out = {} then T_WITHHELD
       else decide_set ((\<lambda>C. Some (card C > 0)) ` completions out) om)"
proof -
  have z: "reachable_counts out = [0] \<longleftrightarrow> matched_set out \<union> unknown_set out = {}"
    by (simp add: reachable_counts_zero matched_set_def unknown_set_def)
  have c: "decide (map f (reachable_counts out)) om = decide_set ((\<lambda>C. f (card C)) ` completions out) om" for f
    by (simp add: decide_eq_set counts_exact [OF assms] image_image)
  show ?thesis unfolding absent_truth_def count_truth_def present_truth_def Let_def z c by simp
qed

definition demo_outcome :: MatcherOutcome where
  "demo_outcome = \<lparr>mo_matched = [], mo_undecidable = [demo_event, demo_event\<lparr>ev_position := 1\<rparr>],
     mo_unreadable_fields = [''status''], mo_comparisons = []\<rparr>"

theorem counts_read_every_completion_witness:
  "outcome_wf demo_outcome \<and> count_truth demo_outcome (Some 1) (Some 1) M_FAIL = T_UNKNOWN \<and>
   decide_set ((\<lambda>C. Some (within_bounds (card C) (Some 1) (Some 1))) ` completions demo_outcome) M_FAIL = T_UNKNOWN"
proof -
  have w: "outcome_wf demo_outcome"
    by (simp add: outcome_wf_def demo_outcome_def demo_event_def call_seed_def seed_def)
  have "count_truth demo_outcome (Some 1) (Some 1) M_FAIL = T_UNKNOWN" by code_simp
  with counts_read_every_completion [OF w, of M_FAIL "Some 1" "Some 1"] w show ?thesis by simp
qed

text \<open>
  The shapes the loader refuses could not pass.  Ordering one matcher against itself
  under quantifiers outside the admitted pairs never holds, whatever the matcher selected and
  whatever evidence is missing, for any relation that only relates earlier to later positions.
\<close>

theorem rejected_self_order_never_holds:
  assumes "\<not> (lq \<in> set LEFT_QUANTIFIERS_LEAVING_A_SUCCESSOR \<and> rq \<in> set RIGHT_QUANTIFIERS_LEAVING_A_PREDECESSOR)"
    and rel: "\<And>x y. relation x y \<Longrightarrow> x < y"
  shows "ordering_truth out lq out rq relation M_FAIL \<noteq> T_TRUE"
proof
  let ?C = "matched_set out \<union> unknown_set out"
  let ?L = "side_of (Some lq) ?C" and ?R = "side_of (Some rq) ?C"
  assume "ordering_truth out lq out rq relation M_FAIL = T_TRUE"
  then have all: "\<forall>v \<in> relation_set lq rq relation ` (all_readings out (Some lq) \<times> all_readings out (Some rq)). resolved M_FAIL v"
    unfolding ordering_exact by (simp add: decide_set_def split: if_splits)
  have mem: "?L \<in> all_readings out (Some lq)" "?R \<in> all_readings out (Some rq)"
    using full_completion by (auto simp: all_readings_def)
  then have r: "resolved M_FAIL (relation_set lq rq relation (?L, ?R))" using all by auto
  show False
  proof (cases "?C = {}")
    case True
    then have "?L = {}" by (simp add: side_of_def)
    then show False using r by (simp add: relation_set_def resolved_def)
  next
    case False
    have fin: "finite ?C" by simp
    have "lq = Q_LAST \<or> lq = Q_ALL \<or> rq = Q_FIRST \<or> rq = Q_ALL"
      using assms(1) by (cases lq; cases rq)
        (simp_all add: LEFT_QUANTIFIERS_LEAVING_A_SUCCESSOR_def RIGHT_QUANTIFIERS_LEAVING_A_PREDECESSOR_def)
    from self_order_false [OF False fin rel this] show False
      using r side_of_cases(1) [OF False fin, of lq] side_of_cases(1) [OF False fin, of rq]
      by (simp add: relation_set_def)
  qed
qed

theorem rejected_self_order_never_holds_witness:
  "ordering_truth demo_outcome Q_LAST demo_outcome Q_ANY (<) M_FAIL \<noteq> T_TRUE"
  by (rule rejected_self_order_never_holds)
     (simp_all add: LEFT_QUANTIFIERS_LEAVING_A_SUCCESSOR_def)

end
