(* ===== verification/Trace_Constraints.thy ===== *)
theory Trace_Constraints
  imports Trace_Sides
begin

text \<open>
  One constraint expression against one timeline: the resolver of
  \<^verbatim>\<open>trace_checks/resolver.py\<close>, the handlers of \<^verbatim>\<open>trace_checks/constraints/\<close> and the dispatch
  \<^verbatim>\<open>_evaluate\<close>.  \<open>evaluate\<close> threads the resolver's memory (what each matcher found, which kinds were
  visited) through the tree; \<open>verdict\<close> is its answer alone, and the properties relate it to the
  meaning of the tree under one completion of every matcher, \<open>holds\<close>.
\<close>

section \<open>The resolver\<close>

record Resolved =
  rv_label :: pystr
  rv_outcome :: MatcherOutcome
  rv_anchor :: bool

record resolver =
  rs_resolved :: "Resolved list"
  rs_visited :: "TraceConstraintKind list"

text \<open>What a resolver is built with.\<close>

record context_of =
  cx_lib :: regex_lib
  cx_engine :: RegexEngineKind
  cx_events :: "TraceEvent list"
  cx_within :: "TurnWindow option"
  cx_bindings :: bindings

definition inside :: "TraceEvent \<Rightarrow> TurnWindow \<Rightarrow> bool" where
  "inside event window =
     (let below = (case tw_first_turn window of None \<Rightarrow> False | Some t \<Rightarrow> int (ev_turn_index event) < t);
          above = (case tw_last_turn window of None \<Rightarrow> False | Some t \<Rightarrow> int (ev_turn_index event) > t)
      in \<not> below \<and> \<not> above)"

definition restricted :: "MatcherOutcome \<Rightarrow> TurnWindow option \<Rightarrow> MatcherOutcome" where
  "restricted out window =
     (case window of
        None \<Rightarrow> out
      | Some w \<Rightarrow>
          (let undecidable = filter (\<lambda>e. inside e w) (mo_undecidable out)
           in \<lparr>mo_matched = filter (\<lambda>e. inside e w) (mo_matched out),
               mo_undecidable = undecidable,
               mo_unreadable_fields = (if undecidable = [] then [] else mo_unreadable_fields out),
               mo_comparisons = filter (\<lambda>r. inside (cr_event r) w) (mo_comparisons out)\<rparr>))"

definition outcome_for :: "context_of \<Rightarrow> TraceMatcher \<Rightarrow> MatcherOutcome" where
  "outcome_for cx m =
     restricted (selected_events (cx_lib cx) (cx_engine cx) (cx_events cx) m (cx_bindings cx)) (cx_within cx)"

definition resolve_side ::
    "context_of \<Rightarrow> pystr \<Rightarrow> TraceMatcher \<Rightarrow> bool \<Rightarrow> resolver \<Rightarrow> MatcherOutcome \<times> resolver" where
  "resolve_side cx label m anchor st =
     (let out = outcome_for cx m
      in (out, st\<lparr>rs_resolved := rs_resolved st @ [\<lparr>rv_label = label, rv_outcome = out, rv_anchor = anchor\<rparr>]\<rparr>))"

definition resolver_unmakeable :: "resolver \<Rightarrow> unmakeable_message list" where
  "resolver_unmakeable st = dedup (concat (map (\<lambda>i. unmakeable_comparisons (rv_outcome i)) (rs_resolved st)))"

definition matched_positions :: "resolver \<Rightarrow> nat list" where
  "matched_positions st =
     sorted_list_of_set (set (concat (map (\<lambda>i. map ev_position (mo_matched (rv_outcome i))) (rs_resolved st))))"

definition undecided :: "resolver \<Rightarrow> (pystr \<times> (pystr list \<times> nat list)) list" where
  "undecided st =
     concat (map (\<lambda>i. case indeterminate_reason (rv_outcome i) of
                        None \<Rightarrow> [] | Some r \<Rightarrow> [(rv_label i, r)]) (rs_resolved st))"

definition empty_side :: "Resolved \<Rightarrow> bool" where
  "empty_side i \<longleftrightarrow> mo_matched (rv_outcome i) = [] \<and> mo_undecidable (rv_outcome i) = []"

definition unmatched_anchors :: "resolver \<Rightarrow> pystr list" where
  "unmatched_anchors st = map rv_label (filter (\<lambda>i. rv_anchor i \<and> empty_side i) (rs_resolved st))"

definition empty_sides :: "resolver \<Rightarrow> pystr list" where
  "empty_sides st = map rv_label (filter empty_side (rs_resolved st))"

text \<open>The sentence a grade prints, as what it is made of.\<close>

datatype constraint_message =
    Msg_none
  | Msg_undecided TraceConstraintKind "(pystr \<times> (pystr list \<times> nat list)) list"
  | Msg_withheld TraceConstraintKind "pystr list"
  | Msg_unmatched TraceConstraintKind "pystr list"
  | Msg_failed TraceConstraintKind

definition message_of :: "truth \<Rightarrow> TraceConstraintKind \<Rightarrow> resolver \<Rightarrow> OnMissing \<Rightarrow> constraint_message" where
  "message_of t kind st on_missing =
     (case t of
        T_TRUE \<Rightarrow> Msg_none
      | T_UNKNOWN \<Rightarrow> Msg_undecided kind (undecided st)
      | T_WITHHELD \<Rightarrow> Msg_withheld kind (empty_sides st)
      | T_FALSE \<Rightarrow>
          (let unmatched = (if on_missing = M_FAIL then unmatched_anchors st else [])
           in if unmatched \<noteq> [] then Msg_unmatched kind unmatched else Msg_failed kind))"

section \<open>Adjacency\<close>

fun VIEW_KINDS :: "AdjacencyView \<Rightarrow> TraceEventKind list" where
  "VIEW_KINDS View_TOOL_CALLS = [TOOL_CALL]"
| "VIEW_KINDS View_TOOL_RESULTS = [TOOL_RESULT]"
| "VIEW_KINDS View_MESSAGES = [ASSISTANT_MESSAGE, USER_MESSAGE]"
| "VIEW_KINDS View_EVENTS = [ASSISTANT_MESSAGE, USER_MESSAGE, TOOL_CALL, TOOL_RESULT]"

definition view_positions :: "TraceEvent list \<Rightarrow> AdjacencyView \<Rightarrow> nat list" where
  "view_positions events among = map ev_position (filter (\<lambda>e. ev_kind e \<in> set (VIEW_KINDS among)) events)"

definition adjacency :: "TraceEvent list \<Rightarrow> AdjacencyView \<Rightarrow> nat \<Rightarrow> nat \<Rightarrow> bool" where
  "adjacency events among left right =
     (let ps = view_positions events among;
          ranks = dict_of (zip ps [0 ..< length ps])
      in case (map_of ranks left, map_of ranks right) of
           (Some a, Some b) \<Rightarrow> b = a + 1
         | _ \<Rightarrow> False)"

section \<open>Handlers and dispatch\<close>

definition visit :: "TraceConstraintKind \<Rightarrow> resolver \<Rightarrow> resolver" where
  "visit k st = st\<lparr>rs_visited := (if k \<in> set (rs_visited st) then rs_visited st else rs_visited st @ [k])\<rparr>"

definition present_handler :: "context_of \<Rightarrow> TraceMatcher \<Rightarrow> OnMissing \<Rightarrow> resolver \<Rightarrow> truth \<times> resolver" where
  "present_handler cx m om st =
     (case resolve_side cx ''match'' m True st of (out, st1) \<Rightarrow> (present_truth out om, st1))"

definition absent_handler :: "context_of \<Rightarrow> TraceMatcher \<Rightarrow> OnMissing \<Rightarrow> resolver \<Rightarrow> truth \<times> resolver" where
  "absent_handler cx m om st =
     (case resolve_side cx ''match'' m False st of (out, st1) \<Rightarrow> (absent_truth out om, st1))"

definition count_handler ::
    "context_of \<Rightarrow> TraceMatcher \<Rightarrow> int option \<Rightarrow> int option \<Rightarrow> OnMissing \<Rightarrow> resolver \<Rightarrow> truth \<times> resolver" where
  "count_handler cx m mn mx om st =
     (case resolve_side cx ''match'' m False st of (out, st1) \<Rightarrow> (count_truth out mn mx om, st1))"

definition ordering_handler ::
    "context_of \<Rightarrow> MatcherSide \<Rightarrow> MatcherSide \<Rightarrow> (nat \<Rightarrow> nat \<Rightarrow> bool) \<Rightarrow> OnMissing \<Rightarrow> resolver \<Rightarrow> truth \<times> resolver" where
  "ordering_handler cx l r relation om st =
     (case resolve_side cx ''left'' (ms_match l) True st of (lo, st1) \<Rightarrow>
      case resolve_side cx ''right'' (ms_match r) True st1 of (ro, st2) \<Rightarrow>
        (ordering_truth lo (ms_quantifier l) ro (ms_quantifier r) relation om, st2))"

definition absent_before_handler ::
    "context_of \<Rightarrow> TraceMatcher \<Rightarrow> AnchorSide \<Rightarrow> OnMissing \<Rightarrow> resolver \<Rightarrow> truth \<times> resolver" where
  "absent_before_handler cx f a om st =
     (case resolve_side cx ''anchor'' (as_match a) True st of (ao, st1) \<Rightarrow>
      case resolve_side cx ''forbidden'' f False st1 of (fo, st2) \<Rightarrow>
        (absent_before_truth ao (as_quantifier a) fo om, st2))"

definition absent_between_handler ::
    "context_of \<Rightarrow> TraceMatcher \<Rightarrow> AnchorSide \<Rightarrow> AnchorSide \<Rightarrow> OnMissing \<Rightarrow> resolver \<Rightarrow> truth \<times> resolver" where
  "absent_between_handler cx f s e om st =
     (case resolve_side cx ''start'' (as_match s) True st of (so, st1) \<Rightarrow>
      case resolve_side cx ''end'' (as_match e) True st1 of (eo, st2) \<Rightarrow>
      case resolve_side cx ''forbidden'' f False st2 of (fo, st3) \<Rightarrow>
        (absent_between_truth so (as_quantifier s) eo (as_quantifier e) fo om, st3))"

fun evaluate :: "context_of \<Rightarrow> OnMissing \<Rightarrow> TraceConstraintExpr \<Rightarrow> resolver \<Rightarrow> truth \<times> resolver"
  and evaluate_all :: "context_of \<Rightarrow> OnMissing \<Rightarrow> TraceConstraintExpr list \<Rightarrow> resolver \<Rightarrow> truth list \<times> resolver" where
  "evaluate cx om (E_present m) st = present_handler cx m om (visit K_PRESENT st)"
| "evaluate cx om (E_absent m) st = absent_handler cx m om (visit K_ABSENT st)"
| "evaluate cx om (E_count m mn mx) st = count_handler cx m mn mx om (visit K_COUNT st)"
| "evaluate cx om (E_before l r) st = ordering_handler cx l r (<) om (visit K_BEFORE st)"
| "evaluate cx om (E_immediately_before l r v) st =
     ordering_handler cx l r (adjacency (cx_events cx) v) om (visit K_IMMEDIATELY_BEFORE st)"
| "evaluate cx om (E_absent_before f a) st = absent_before_handler cx f a om (visit K_ABSENT_BEFORE st)"
| "evaluate cx om (E_absent_between f s e) st = absent_between_handler cx f s e om (visit K_ABSENT_BETWEEN st)"
| "evaluate cx om (E_all_of es) st =
     (case evaluate_all cx om es (visit K_ALL_OF st) of (ts, st1) \<Rightarrow> (conjunction ts, st1))"
| "evaluate cx om (E_any_of es) st =
     (case evaluate_all cx om es (visit K_ANY_OF st) of (ts, st1) \<Rightarrow> (disjunction ts, st1))"
| "evaluate cx om (E_negate e) st =
     (case evaluate cx om e (visit K_NEGATE st) of (t, st1) \<Rightarrow> (negated t, st1))"
| "evaluate_all cx om [] st = ([], st)"
| "evaluate_all cx om (e # es) st =
     (case evaluate cx om e st of (t, st1) \<Rightarrow> case evaluate_all cx om es st1 of (ts, st2) \<Rightarrow> (t # ts, st2))"

section \<open>The verdict alone\<close>

fun verdict :: "(TraceMatcher \<Rightarrow> MatcherOutcome) \<Rightarrow> TraceEvent list \<Rightarrow> OnMissing \<Rightarrow> TraceConstraintExpr \<Rightarrow> truth" where
  "verdict oc es om (E_present m) = present_truth (oc m) om"
| "verdict oc es om (E_absent m) = absent_truth (oc m) om"
| "verdict oc es om (E_count m mn mx) = count_truth (oc m) mn mx om"
| "verdict oc es om (E_before l r) =
     ordering_truth (oc (ms_match l)) (ms_quantifier l) (oc (ms_match r)) (ms_quantifier r) (<) om"
| "verdict oc es om (E_immediately_before l r v) =
     ordering_truth (oc (ms_match l)) (ms_quantifier l) (oc (ms_match r)) (ms_quantifier r) (adjacency es v) om"
| "verdict oc es om (E_absent_before f a) = absent_before_truth (oc (as_match a)) (as_quantifier a) (oc f) om"
| "verdict oc es om (E_absent_between f s e) =
     absent_between_truth (oc (as_match s)) (as_quantifier s) (oc (as_match e)) (as_quantifier e) (oc f) om"
| "verdict oc es om (E_all_of xs) = conjunction (map (verdict oc es om) xs)"
| "verdict oc es om (E_any_of xs) = disjunction (map (verdict oc es om) xs)"
| "verdict oc es om (E_negate x) = negated (verdict oc es om x)"

lemma evaluate_verdict:
  "fst (evaluate cx om e st) = verdict (outcome_for cx) (cx_events cx) om e"
  "fst (evaluate_all cx om es st) = map (verdict (outcome_for cx) (cx_events cx) om) es"
  by (induction cx om e st and cx om es st rule: evaluate_evaluate_all.induct)
     (auto simp: present_handler_def absent_handler_def count_handler_def ordering_handler_def
       absent_before_handler_def absent_between_handler_def resolve_side_def Let_def split: prod.splits)

section \<open>The meaning under one completion\<close>

fun holds :: "(TraceMatcher \<Rightarrow> nat set) \<Rightarrow> TraceEvent list \<Rightarrow> OnMissing \<Rightarrow> TraceConstraintExpr \<Rightarrow> bool" where
  "holds C es om (E_present m) = (card (C m) > 0)"
| "holds C es om (E_absent m) = (card (C m) = 0)"
| "holds C es om (E_count m mn mx) = within_bounds (card (C m)) mn mx"
| "holds C es om (E_before l r) =
     resolved om (relation_set (ms_quantifier l) (ms_quantifier r) (<)
       (side_of (Some (ms_quantifier l)) (C (ms_match l)), side_of (Some (ms_quantifier r)) (C (ms_match r))))"
| "holds C es om (E_immediately_before l r v) =
     resolved om (relation_set (ms_quantifier l) (ms_quantifier r) (adjacency es v)
       (side_of (Some (ms_quantifier l)) (C (ms_match l)), side_of (Some (ms_quantifier r)) (C (ms_match r))))"
| "holds C es om (E_absent_before f a) =
     resolved om (prefix_set (side_of (Some (anchor_quantifier (as_quantifier a))) (C (as_match a)), C f))"
| "holds C es om (E_absent_between f s e) =
     resolved om (between_set ((side_of (Some (anchor_quantifier (as_quantifier s))) (C (as_match s)),
       side_of (Some (anchor_quantifier (as_quantifier e))) (C (as_match e))), C f))"
| "holds C es om (E_all_of xs) = list_all (holds C es om) xs"
| "holds C es om (E_any_of xs) = list_ex (holds C es om) xs"
| "holds C es om (E_negate x) = (\<not> holds C es om x)"

definition completes_all :: "(TraceMatcher \<Rightarrow> MatcherOutcome) \<Rightarrow> TraceConstraintExpr \<Rightarrow> (TraceMatcher \<Rightarrow> nat set) \<Rightarrow> bool" where
  "completes_all oc e C \<longleftrightarrow> (\<forall>m \<in> set (matchers_within e). C m \<in> completions (oc m))"

text \<open>No matcher of the tree left an event undecided.\<close>

definition complete_evidence :: "(TraceMatcher \<Rightarrow> MatcherOutcome) \<Rightarrow> TraceConstraintExpr \<Rightarrow> bool" where
  "complete_evidence oc e \<longleftrightarrow> (\<forall>m \<in> set (matchers_within e). mo_undecidable (oc m) = [])"

section \<open>Lemmas\<close>

lemma within_tree [simp]:
  "completes_all oc (E_all_of es) C \<longleftrightarrow> (\<forall>e \<in> set es. completes_all oc e C)"
  "completes_all oc (E_any_of es) C \<longleftrightarrow> (\<forall>e \<in> set es. completes_all oc e C)"
  "completes_all oc (E_negate e) C \<longleftrightarrow> completes_all oc e C"
  "complete_evidence oc (E_all_of es) \<longleftrightarrow> (\<forall>e \<in> set es. complete_evidence oc e)"
  "complete_evidence oc (E_any_of es) \<longleftrightarrow> (\<forall>e \<in> set es. complete_evidence oc e)"
  "complete_evidence oc (E_negate e) \<longleftrightarrow> complete_evidence oc e"
  by (auto simp: completes_all_def complete_evidence_def)

text \<open>A verdict over a set of readings binds every one of them.\<close>

lemma decide_set_binds:
  "decide_set V om = T_TRUE \<Longrightarrow> v \<in> V \<Longrightarrow> resolved om v"
  "decide_set V om = T_FALSE \<Longrightarrow> v \<in> V \<Longrightarrow> \<not> resolved om v"
  by (auto simp: decide_set_def split: if_splits)

lemma decide_set_singleton: "decide_set {v} om \<noteq> T_UNKNOWN"
  by (simp add: decide_set_def)

lemma completions_complete: "mo_undecidable out = [] \<Longrightarrow> completions out = {matched_set out}"
  by (simp add: completions_def unknown_set_def)

lemma all_readings_complete: "mo_undecidable out = [] \<Longrightarrow> all_readings out q = {side_of q (matched_set out)}"
  by (simp add: all_readings_def completions_complete)

lemma side_in_readings: "C \<in> completions out \<Longrightarrow> side_of q C \<in> all_readings out q"
  by (simp add: all_readings_def)

lemma completion_in_readings: "C \<in> completions out \<Longrightarrow> C \<in> all_readings out None"
  using side_in_readings [of C out None] by (simp add: side_of_def split: if_splits)

lemma reachable_counts_card:
  assumes "outcome_wf out" "C \<in> completions out"
  shows "card C \<in> set (reachable_counts out)"
  using assms counts_exact by auto

lemma decide_map_binds:
  assumes "v \<in> set vs"
  shows "decide (map f vs) om = T_TRUE \<Longrightarrow> resolved om (f v)"
    and "decide (map f vs) om = T_FALSE \<Longrightarrow> \<not> resolved om (f v)"
  using assms by (auto dest: decide_TRUE decide_FALSE)

definition agrees :: "truth \<Rightarrow> bool \<Rightarrow> bool" where
  "agrees t b \<longleftrightarrow> (t = T_TRUE \<longrightarrow> b) \<and> (t = T_FALSE \<longrightarrow> \<not> b)"

lemma counted_agrees:
  assumes "outcome_wf out" "C \<in> completions out"
  shows "agrees (present_truth out om) (card C > 0)"
    and "agrees (absent_truth out om) (card C = 0)"
    and "agrees (count_truth out mn mx om) (within_bounds (card C) mn mx)"
proof -
  have b: "agrees (decide (map f (reachable_counts out)) om) (resolved om (f (card C)))" for f
    unfolding agrees_def using decide_map_binds [OF reachable_counts_card [OF assms], of f om] by simp
  show "agrees (present_truth out om) (card C > 0)"
    using b [of "\<lambda>n. Some (n > 0)"] by (simp add: present_truth_def Let_def agrees_def)
  show "agrees (absent_truth out om) (card C = 0)"
    using b [of "\<lambda>n. Some (n = 0)"] by (simp add: absent_truth_def agrees_def)
  show "agrees (count_truth out mn mx om) (within_bounds (card C) mn mx)"
    using b [of "\<lambda>n. Some (within_bounds n mn mx)"] by (simp add: count_truth_def Let_def agrees_def)
qed

lemma readings_agree:
  assumes "v \<in> V"
  shows "agrees (decide_set V om) (resolved om v)"
  using decide_set_binds assms by (auto simp: agrees_def)

lemma placed_agrees:
  "A \<in> completions lo \<Longrightarrow> B \<in> completions ro \<Longrightarrow>
     agrees (ordering_truth lo lq ro rq rel om)
       (resolved om (relation_set lq rq rel (side_of (Some lq) A, side_of (Some rq) B)))"
  "A \<in> completions lo \<Longrightarrow> F \<in> completions fo \<Longrightarrow>
     agrees (absent_before_truth lo aq fo om)
       (resolved om (prefix_set (side_of (Some (anchor_quantifier aq)) A, F)))"
  "A \<in> completions lo \<Longrightarrow> B \<in> completions ro \<Longrightarrow> F \<in> completions fo \<Longrightarrow>
     agrees (absent_between_truth lo aq ro eq fo om) (resolved om (between_set
       ((side_of (Some (anchor_quantifier aq)) A, side_of (Some (anchor_quantifier eq)) B), F)))"
  unfolding ordering_exact absent_before_exact absent_between_exact
  by (rule readings_agree, rule imageI, simp add: side_in_readings completion_in_readings)+

lemma agrees_folds:
  "agrees t b \<Longrightarrow> agrees (negated t) (\<not> b)"
  "(\<And>x. x \<in> set xs \<Longrightarrow> agrees (f x) (g x)) \<Longrightarrow> agrees (conjunction (map f xs)) (list_all g xs)"
  "(\<And>x. x \<in> set xs \<Longrightarrow> agrees (f x) (g x)) \<Longrightarrow> agrees (disjunction (map f xs)) (list_ex g xs)"
  by (auto simp: agrees_def conjunction_iff disjunction_iff list_all_iff list_ex_iff)
     (metis image_eqI)+

lemma verdict_agrees:
  assumes "\<And>m. outcome_wf (oc m)" "completes_all oc e C"
  shows "agrees (verdict oc es om e) (holds C es om e)"
  using assms(2)
proof (induction e)
  case (E_present m)
  then show ?case by (simp add: completes_all_def counted_agrees [OF assms(1)])
next
  case (E_absent m)
  then show ?case by (simp add: completes_all_def counted_agrees(2) [OF assms(1)] del: card_eq_0_iff)
next
  case (E_count m mn mx)
  then show ?case by (simp add: completes_all_def counted_agrees [OF assms(1)])
next
  case (E_before l r)
  then show ?case by (simp add: completes_all_def placed_agrees(1))
next
  case (E_immediately_before l r v)
  then show ?case by (simp add: completes_all_def placed_agrees(1))
next
  case (E_absent_before f a)
  then show ?case by (simp add: completes_all_def placed_agrees(2))
next
  case (E_absent_between f s e)
  then show ?case by (simp add: completes_all_def placed_agrees(3))
next
  case (E_all_of xs)
  then show ?case by (simp add: agrees_folds(2))
next
  case (E_any_of xs)
  then show ?case by (simp add: agrees_folds(3))
next
  case (E_negate x)
  then show ?case by (simp add: agrees_folds(1))
qed

subsection \<open>Complete evidence\<close>

lemma counted_decided:
  assumes "mo_undecidable out = []"
  shows "present_truth out om \<noteq> T_UNKNOWN" "absent_truth out om \<noteq> T_UNKNOWN" "count_truth out mn mx om \<noteq> T_UNKNOWN"
  using assms by (simp_all add: present_truth_def absent_truth_def count_truth_def reachable_counts_def decide_eq_set
      decide_set_singleton)

lemma placed_decided:
  "mo_undecidable lo = [] \<Longrightarrow> mo_undecidable ro = [] \<Longrightarrow> ordering_truth lo lq ro rq rel om \<noteq> T_UNKNOWN"
  "mo_undecidable lo = [] \<Longrightarrow> mo_undecidable fo = [] \<Longrightarrow> absent_before_truth lo aq fo om \<noteq> T_UNKNOWN"
  "mo_undecidable lo = [] \<Longrightarrow> mo_undecidable ro = [] \<Longrightarrow> mo_undecidable fo = [] \<Longrightarrow>
     absent_between_truth lo aq ro eq fo om \<noteq> T_UNKNOWN"
  by (simp_all add: ordering_exact absent_before_exact absent_between_exact all_readings_complete
      decide_set_singleton)

lemma folds_decided:
  "\<forall>t \<in> set ts. t \<noteq> T_UNKNOWN \<Longrightarrow> conjunction ts \<noteq> T_UNKNOWN"
  "\<forall>t \<in> set ts. t \<noteq> T_UNKNOWN \<Longrightarrow> disjunction ts \<noteq> T_UNKNOWN"
  by (auto simp: conjunction_def disjunction_def)

lemma verdict_decided: "complete_evidence oc e \<Longrightarrow> verdict oc es om e \<noteq> T_UNKNOWN"
proof (induction e)
  case (E_all_of xs)
  then have "\<forall>t \<in> set (map (verdict oc es om) xs). t \<noteq> T_UNKNOWN" by fastforce
  then show ?case by (simp add: folds_decided(1))
next
  case (E_any_of xs)
  then have "\<forall>t \<in> set (map (verdict oc es om) xs). t \<noteq> T_UNKNOWN" by fastforce
  then show ?case by (simp add: folds_decided(2))
qed (simp_all add: complete_evidence_def counted_decided placed_decided)

subsection \<open>Outcomes of a timeline\<close>

lemma timeline_numbered:
  "build_trial_timeline messages recorded reason = Inr t \<Longrightarrow> map ev_position (tl_events t) = [0 ..< length (tl_events t)]"
  by (erule build_inversion)

lemma inside_filter_wf: "outcome_wf out \<Longrightarrow> outcome_wf (restricted out w)"
proof (cases w)
  case (Some v)
  assume wf: "outcome_wf out"
  let ?in = "filter (\<lambda>e. inside e v)"
  have "map ev_position (mo_matched (restricted out w) @ mo_undecidable (restricted out w))
      = map ev_position (?in (mo_matched out @ mo_undecidable out))"
    by (simp add: Some restricted_def Let_def)
  then show ?thesis using wf unfolding outcome_wf_def by (simp only: distinct_map_filter)
qed (simp add: restricted_def)

lemma selected_wf:
  assumes "distinct (map ev_position events)"
  shows "outcome_wf (selected_events lib eng events m b)"
proof -
  let ?out = "selected_events lib eng events m b"
  have f: "\<exists>P Q. mo_matched ?out = filter P events \<and> mo_undecidable ?out = filter Q events"
    by (auto simp: selected_events_def Let_def)
  then obtain P Q where pq: "mo_matched ?out = filter P events" "mo_undecidable ?out = filter Q events" by blast
  have "distinct events" "inj_on ev_position (set events)" using assms by (simp_all add: distinct_map)
  moreover have "set (mo_matched ?out @ mo_undecidable ?out) \<subseteq> set events"
    using selected_subset by simp
  ultimately show ?thesis using selected_disjoint [of lib eng events m b]
    unfolding outcome_wf_def distinct_map pq by (simp add: inj_on_subset)
qed

lemma outcome_for_wf: "distinct (map ev_position (cx_events cx)) \<Longrightarrow> outcome_wf (outcome_for cx m)"
  by (simp add: outcome_for_def inside_filter_wf selected_wf)

subsection \<open>Adjacency\<close>

lemma map_of_rank:
  assumes "distinct ps"
  shows "map_of (zip ps [0 ..< length ps]) x = Some i \<longleftrightarrow> i < length ps \<and> ps ! i = x"
  using map_of_zip_nth [of ps "[0 ..< length ps]"] assms
  by (auto simp: map_of_eq_Some_iff set_zip)

lemma neighbours_iff:
  assumes "sorted_wrt (<) (ps :: nat list)" "i < length ps" "j < length ps"
  shows "j = i + 1 \<longleftrightarrow> ps ! i < ps ! j \<and> (\<forall>p \<in> set ps. \<not> (ps ! i < p \<and> p < ps ! j))"
proof -
  have lt: "a < b \<longleftrightarrow> ps ! a < ps ! b" if "a < length ps" "b < length ps" for a b
    using assms(1) that by (metis nat_neq_iff order_less_asym sorted_wrt_nth_less)
  have "(\<forall>p \<in> set ps. \<not> (ps ! i < p \<and> p < ps ! j)) \<longleftrightarrow> (\<forall>k < length ps. \<not> (i < k \<and> k < j))"
    using lt assms(2,3) by (auto simp: all_set_conv_all_nth)
  also have "\<dots> \<longleftrightarrow> \<not> (i + 1 < j)"
  proof
    show "\<not> (i + 1 < j)" if none: "\<forall>k < length ps. \<not> (i < k \<and> k < j)"
      using spec [OF none, of "i + 1"] assms(3) by auto
  qed auto
  finally show ?thesis using lt [OF assms(2,3)] by auto
qed

lemma adjacency_iff:
  assumes "sorted_wrt (<) (map ev_position events)"
  shows "adjacency events among l r \<longleftrightarrow>
    (let ps = set (view_positions events among)
     in l \<in> ps \<and> r \<in> ps \<and> l < r \<and> (\<forall>p \<in> ps. \<not> (l < p \<and> p < r)))"
proof -
  let ?ps = "view_positions events among"
  have s: "sorted_wrt (<) ?ps"
    using assms by (simp add: view_positions_def sorted_wrt_map sorted_wrt_filter)
  then have d: "distinct ?ps" by (simp add: strict_sorted_iff)
  then have r: "dict_of (zip ?ps [0 ..< length ?ps]) = zip ?ps [0 ..< length ?ps]"
    by (simp add: dict_of_distinct)
  have "adjacency events among l r \<longleftrightarrow>
      (\<exists>i j. i < length ?ps \<and> ?ps ! i = l \<and> j < length ?ps \<and> ?ps ! j = r \<and> j = i + 1)"
    unfolding adjacency_def Let_def r
    by (auto simp: map_of_rank [OF d] nth_eq_iff_index_eq [OF d] split: option.splits)
  also have "\<dots> \<longleftrightarrow> l \<in> set ?ps \<and> r \<in> set ?ps \<and> l < r \<and> (\<forall>p \<in> set ?ps. \<not> (l < p \<and> p < r))"
    using neighbours_iff [OF s] by (metis in_set_conv_nth)
  finally show ?thesis by (simp add: Let_def)
qed

section \<open>Properties\<close>

text \<open>
  Property C3.  A constraint's verdict can be trusted.  On a timeline the builder returned, for every
  tree of constraints, every window and environment and every policy on missing sides: if the
  evaluator says TRUE the tree holds under every completion of the missing evidence of its
  matchers, if it says FALSE it fails under every one; and it only answers UNKNOWN when some matcher
  of the tree has an event it could not decide.
\<close>

theorem evaluated_constraint_sound:
  assumes "build_trial_timeline messages recorded reason = Inr t" "cx_events cx = tl_events t"
    and "completes_all (outcome_for cx) e C"
  shows "(fst (evaluate cx om e st) = T_TRUE \<longrightarrow> holds C (tl_events t) om e) \<and>
    (fst (evaluate cx om e st) = T_FALSE \<longrightarrow> \<not> holds C (tl_events t) om e) \<and>
    (fst (evaluate cx om e st) = T_UNKNOWN \<longrightarrow> \<not> complete_evidence (outcome_for cx) e)"
proof -
  have "distinct (map ev_position (cx_events cx))"
    using timeline_numbered [OF assms(1)] assms(2) by simp
  then have "agrees (verdict (outcome_for cx) (tl_events t) om e) (holds C (tl_events t) om e)"
    using assms(3) by (intro verdict_agrees outcome_for_wf)
  then show ?thesis
    using verdict_decided [of "outcome_for cx" e "tl_events t" om] assms(2)
    by (auto simp: evaluate_verdict agrees_def)
qed

definition demo_timeline :: TrialTimeline where
  "demo_timeline = (case build_trial_timeline demo_messages demo_records None of Inr t \<Rightarrow> t
     | Inl _ \<Rightarrow> \<lparr>tl_events = [], tl_termination_reason = None, tl_message_view_present = False,
          tl_records_present = False\<rparr>)"

definition demo_context :: context_of where
  "demo_context = \<lparr>cx_lib = no_regex, cx_engine = LINEAR, cx_events = tl_events demo_timeline,
     cx_within = None, cx_bindings = []\<rparr>"

lemma demo_timeline_built: "build_trial_timeline demo_messages demo_records None = Inr demo_timeline"
  using demo_builds by (auto simp: demo_timeline_def)

lemma matched_completes: "completes_all oc e (\<lambda>m. matched_set (oc m))"
  by (auto simp: completes_all_def completions_iff)

theorem evaluated_constraint_sound_witness:
  "fst (evaluate demo_context M_FAIL (E_absent says_done) \<lparr>rs_resolved = [], rs_visited = []\<rparr>) = T_TRUE \<and>
   holds (\<lambda>m. matched_set (outcome_for demo_context m)) (tl_events demo_timeline) M_FAIL (E_absent says_done)"
proof -
  have e: "cx_events demo_context = tl_events demo_timeline" by (simp add: demo_context_def)
  have "fst (evaluate demo_context M_FAIL (E_absent says_done) \<lparr>rs_resolved = [], rs_visited = []\<rparr>) = T_TRUE"
    by code_simp
  with evaluated_constraint_sound [OF demo_timeline_built e matched_completes] show ?thesis by blast
qed

text \<open>
  What adjacency means.  On a timeline the builder returned, two positions are
  immediately one before the other in a view exactly when both events belong to the view, the first
  is earlier, and the view has no event between them.
\<close>

theorem adjacency_is_nothing_between:
  assumes "build_trial_timeline messages recorded reason = Inr t"
  shows "adjacency (tl_events t) among l r \<longleftrightarrow>
    l \<in> set (view_positions (tl_events t) among) \<and> r \<in> set (view_positions (tl_events t) among) \<and> l < r \<and>
    (\<forall>p \<in> set (view_positions (tl_events t) among). \<not> (l < p \<and> p < r))"
proof -
  have "sorted_wrt (<) (map ev_position (tl_events t))"
    using timeline_numbered [OF assms] by simp
  from adjacency_iff [OF this] show ?thesis by (simp add: Let_def)
qed

theorem adjacency_is_nothing_between_witness:
  "adjacency (tl_events demo_timeline) View_TOOL_CALLS 2 4 \<and> \<not> adjacency (tl_events demo_timeline) View_EVENTS 2 4"
proof -
  have "view_positions (tl_events demo_timeline) View_TOOL_CALLS = [2, 4]"
    "view_positions (tl_events demo_timeline) View_EVENTS = [0, 1, 2, 3, 4]" by code_simp+
  then show ?thesis using adjacency_is_nothing_between [OF demo_timeline_built] by simp
qed

text \<open>
  Where the fold of a tree is weaker than its meaning.  A matcher with an undecided event
  and no matched one leaves the tree "present or absent" UNKNOWN, although it holds under every
  completion: each branch is decided over the completions on its own, the combination is not.
\<close>

theorem excluded_middle_is_undecided:
  assumes "mo_matched (outcome_for cx m) = []" "mo_undecidable (outcome_for cx m) \<noteq> []"
  shows "fst (evaluate cx om (E_any_of [E_present m, E_absent m]) st) = T_UNKNOWN \<and>
    (\<forall>C. holds C (cx_events cx) om (E_any_of [E_present m, E_absent m]))"
proof -
  have c: "{0, 1} \<subseteq> set (reachable_counts (outcome_for cx m))"
    using assms by (cases "mo_undecidable (outcome_for cx m)") (simp_all add: reachable_counts_def del: upt_Suc)
  have r: "reachable_counts (outcome_for cx m) \<noteq> [0]" using assms by (simp add: reachable_counts_zero)
  have d: "decide (map f (reachable_counts (outcome_for cx m))) om = T_UNKNOWN"
    if f: "f 0 = Some b" "f 1 = Some (\<not> b)" "\<And>n. f n \<noteq> None" for f and b
  proof -
    have m: "Some b \<in> set (map f (reachable_counts (outcome_for cx m)))"
      "Some (\<not> b) \<in> set (map f (reachable_counts (outcome_for cx m)))"
      using c f(1,2) by (auto simp: image_iff intro: bexI [of _ 0] bexI [of _ 1])
    have n: "None \<notin> set (map f (reachable_counts (outcome_for cx m)))" using f(3) by (metis (no_types, lifting) ex_map_conv)
    show ?thesis using decide_set_binds [OF _ m(1), of om] decide_set_binds [OF _ m(2), of om] n
      unfolding decide_eq_set by (cases "decide_set (set (map f (reachable_counts (outcome_for cx m)))) om")
        (auto simp: decide_set_def split: if_splits)
  qed
  have "present_truth (outcome_for cx m) om = T_UNKNOWN" "absent_truth (outcome_for cx m) om = T_UNKNOWN"
    using r d [of "\<lambda>n. Some (n > 0)" False] d [of "\<lambda>n. Some (n = 0)" True]
    by (simp_all add: present_truth_def absent_truth_def Let_def)
  then show ?thesis unfolding evaluate_verdict by (auto simp: disjunction_def)
qed

theorem excluded_middle_is_undecided_witness:
  "fst (evaluate (demo_context\<lparr>cx_events := [demo_event]\<rparr>) M_FAIL (E_any_of [E_present failed_call, E_absent failed_call])
     \<lparr>rs_resolved = [], rs_visited = []\<rparr>) = T_UNKNOWN"
proof -
  have "mo_matched (outcome_for (demo_context\<lparr>cx_events := [demo_event]\<rparr>) failed_call) = []"
    "length (mo_undecidable (outcome_for (demo_context\<lparr>cx_events := [demo_event]\<rparr>) failed_call)) = 1" by code_simp+
  then show ?thesis by (intro excluded_middle_is_undecided [THEN conjunct1]) auto
qed

end
