(* ===== verification/Trace_Bindings.thy ===== *)
theory Trace_Bindings
  imports Trace_Constraints
begin

text \<open>
  What a constraint's binder yields: the candidate environments of
  \<^verbatim>\<open>tolokaforge/core/grading/trace_checks/bindings.py\<close>.  An event the binder selected contributes one
  assignment per element of the product of its names' extracted values; the candidates are the
  distinct assignments, split into those the trial binds for certain and those some completion of
  its missing evidence binds.
\<close>

section \<open>Extraction\<close>

datatype binding_error = CaptureRefused pattern_error | NoBinderField pystr

definition BINDER_FIELDS :: "(pystr, TraceEvent \<Rightarrow> TraceEvent option \<Rightarrow> pyval) dict" where
  "BINDER_FIELDS =
     [(''tool'', \<lambda>event outcome. of_opt_str (ev_tool_name event)),
      (''text'', \<lambda>event outcome. of_opt_str (ev_text event)),
      (''result'', \<lambda>event outcome. case outcome of None \<Rightarrow> VNone | Some r \<Rightarrow> of_opt_str (ev_result r))]"

text \<open>\<^verbatim>\<open>bound.field.partition(".")\<close>, third component.\<close>

definition tail_path :: "BoundValue \<Rightarrow> pystr" where
  "tail_path v = drop (Suc (length (head_segment v))) (bv_field v)"

definition binder_reading :: "BoundValue \<Rightarrow> TraceEvent \<Rightarrow> TraceEvent option \<Rightarrow> binding_error + pyval" where
  "binder_reading bound event outcome =
     (let head = head_segment bound in
      if head \<noteq> ''args'' then
        (case map_of BINDER_FIELDS head of None \<Rightarrow> Inl (NoBinderField head) | Some f \<Rightarrow> Inr (f event outcome))
      else let path = tail_path bound;
               value = (if path \<noteq> [] then argument_at (event_arguments event) path else Some (event_arguments event))
           in Inr (case value of None \<Rightarrow> VNone | Some v \<Rightarrow> v))"

type_synonym capture = "RegexEngineKind \<times> pystr"

definition capture_patterns ::
    "regex_lib \<Rightarrow> TraceBinding \<Rightarrow> RegexEngineKind \<Rightarrow> binding_error + (pystr, capture) dict" where
  "capture_patterns lib binding engine =
     traverse (\<lambda>(name, bound, pattern).
         case engine_compile lib (bound_engine_under bound engine) pattern of
           Some e \<Rightarrow> Inl (CaptureRefused e)
         | None \<Rightarrow> Inr (name, bound_engine_under bound engine, pattern))
       (concat (map (\<lambda>(name, bound). case bv_pattern bound of None \<Rightarrow> [] | Some p \<Rightarrow> [(name, bound, p)])
         (tb_values binding)))"

definition extracted ::
    "regex_lib \<Rightarrow> BoundValue \<Rightarrow> capture option \<Rightarrow> TraceEvent \<Rightarrow> TraceEvent option \<Rightarrow> binding_error + pyval list" where
  "extracted lib bound capt event outcome =
     bind_res (binder_reading bound event outcome) (\<lambda>value.
       Inr (if value = VNone then []
            else case capt of
                   None \<Rightarrow> [value]
                 | Some (engine, pattern) \<Rightarrow>
                     (case is_str value of
                        None \<Rightarrow> []
                      | Some text \<Rightarrow> map of_opt_str (rx_first_groups lib engine pattern text))))"

record BoundEvent =
  be_assignments :: "bindings list"
  be_unreadable :: "pystr list"

definition bound_event ::
    "regex_lib \<Rightarrow> TraceBinding \<Rightarrow> (pystr, capture) dict \<Rightarrow> TraceEvent \<Rightarrow> (pystr, TraceEvent) dict \<Rightarrow>
     binding_error + BoundEvent" where
  "bound_event lib binding captures event results =
     (let outcome = outcome_of event results;
          names = sort (map fst (tb_values binding));
          bound = (\<lambda>name. the (map_of (tb_values binding) name))
      in bind_res (traverse (\<lambda>name. extracted lib (bound name) (map_of captures name) event outcome) names)
           (\<lambda>extracts.
              let heads = map (\<lambda>(name, values). head_segment (bound name))
                            (filter (\<lambda>(name, values). values = []) (zip names extracts))
              in Inr \<lparr>be_assignments = map (\<lambda>values. zip names values) (product_lists extracts),
                      be_unreadable = filter (\<lambda>f. f \<in> set heads) (unreadable_when_none outcome)\<rparr>))"

section \<open>Candidates\<close>

datatype emptiness = Determined | NoEventSelected | NoValueCarried nat

record Candidates =
  ca_definite :: "bindings list"
  ca_undecidable :: "bindings list"
  ca_unnamed :: bool
  ca_missing :: "(nat, pystr list) dict"
  ca_emptiness :: emptiness

definition undetermined :: "Candidates \<Rightarrow> (pystr list \<times> nat list) option" where
  "undetermined c =
     (if ca_missing c = [] then None
      else Some (missing_evidence (remdups (concat (map snd (ca_missing c)))) (map fst (ca_missing c))))"

definition same_assignment :: "bindings \<Rightarrow> bindings \<Rightarrow> bool" where
  "same_assignment left right =
     list_all (\<lambda>(name, v). case map_of right name of
                            None \<Rightarrow> False
                          | Some w \<Rightarrow> py_type v = py_type w \<and> py_eq v w) left"

fun distinct_from :: "bindings list \<Rightarrow> bindings list \<Rightarrow> bindings list" where
  "distinct_from seen [] = []"
| "distinct_from seen (a # as) =
     (if list_ex (same_assignment a) seen then distinct_from seen as
      else a # distinct_from (seen @ [a]) as)"

definition selected :: "MatcherOutcome \<Rightarrow> (TraceEvent \<times> bool) list" where
  "selected out = map (\<lambda>e. (e, True)) (mo_matched out) @ map (\<lambda>e. (e, False)) (mo_undecidable out)"

definition emptiness_of :: "MatcherOutcome \<Rightarrow> emptiness" where
  "emptiness_of out =
     (let n = length (mo_matched out) + length (mo_undecidable out)
      in if n = 0 then NoEventSelected else NoValueCarried n)"

record gathered =
  ga_bound :: "bindings list"
  ga_possible :: "bindings list"
  ga_unnamed :: bool
  ga_missing :: "(nat, pystr list) dict"

definition gather :: "pystr list \<Rightarrow> (TraceEvent \<times> bool) \<times> BoundEvent \<Rightarrow> gathered \<Rightarrow> gathered" where
  "gather unreadable_fields sel g =
     (case sel of ((event, sure), reading) \<Rightarrow>
        let membership = (if sure then [] else unreadable_fields)
        in \<lparr>ga_bound = (if sure then ga_bound g @ be_assignments reading else ga_bound g),
            ga_possible = (if sure then ga_possible g else ga_possible g @ be_assignments reading),
            ga_unnamed = (ga_unnamed g \<or> be_unreadable reading \<noteq> []),
            ga_missing =
              (if be_unreadable reading \<noteq> [] \<or> (be_assignments reading \<noteq> [] \<and> \<not> sure)
               then dict_set (ev_position event) (be_unreadable reading @ membership) (ga_missing g)
               else ga_missing g)\<rparr>)"

definition nothing_gathered :: gathered where
  "nothing_gathered = \<lparr>ga_bound = [], ga_possible = [], ga_unnamed = False, ga_missing = []\<rparr>"

definition candidates_of :: "MatcherOutcome \<Rightarrow> gathered \<Rightarrow> Candidates" where
  "candidates_of out g =
     (let definite = distinct_from [] (ga_bound g);
          undecidable = distinct_from definite (ga_possible g)
      in \<lparr>ca_definite = definite, ca_undecidable = undecidable, ca_unnamed = ga_unnamed g,
          ca_missing = ga_missing g,
          ca_emptiness = (if definite \<noteq> [] \<or> undecidable \<noteq> [] \<or> ga_unnamed g then Determined
                          else emptiness_of out)\<rparr>)"

definition binder_outcome ::
    "regex_lib \<Rightarrow> TrialTimeline \<Rightarrow> TraceConstraint \<Rightarrow> TraceBinding \<Rightarrow> RegexEngineKind \<Rightarrow> pattern_error + MatcherOutcome" where
  "binder_outcome lib timeline c binding engine =
     bind_res (select_events lib engine timeline (tb_match binding) [])
       (\<lambda>out. Inr (restricted out (con_within c)))"

definition candidates ::
    "regex_lib \<Rightarrow> TrialTimeline \<Rightarrow> TraceConstraint \<Rightarrow> RegexEngineKind \<Rightarrow> binding_error + Candidates" where
  "candidates lib timeline c engine =
     (case con_bind c of
        None \<Rightarrow> Inr \<lparr>ca_definite = [[]], ca_undecidable = [], ca_unnamed = False, ca_missing = [],
                    ca_emptiness = Determined\<rparr>
      | Some binding \<Rightarrow>
          bind_res (capture_patterns lib binding engine) (\<lambda>captures.
            case binder_outcome lib timeline c binding engine of
              Inl e \<Rightarrow> Inl (CaptureRefused e)
            | Inr out \<Rightarrow>
                bind_res (traverse (\<lambda>(event, sure).
                    bound_event lib binding captures event (results_by_call_id (tl_events timeline))) (selected out))
                  (\<lambda>readings.
                     Inr (candidates_of out
                       (fold (gather (mo_unreadable_fields out)) (zip (selected out) readings) nothing_gathered)))))"

section \<open>Lemmas\<close>

subsection \<open>Dropping repeats\<close>

lemma distinct_from_subset: "a \<in> set (distinct_from seen as) \<Longrightarrow> a \<in> set as"
  by (induction seen as rule: distinct_from.induct) (auto split: if_splits)

lemma distinct_from_covers:
  "a \<in> set as \<Longrightarrow> \<exists>s \<in> set seen \<union> set (distinct_from seen as). a = s \<or> same_assignment a s"
  by (induction seen as rule: distinct_from.induct) (fastforce simp: list_ex_iff)+

lemma distinct_from_new:
  "a \<in> set (distinct_from seen as) \<Longrightarrow> s \<in> set seen \<Longrightarrow> \<not> same_assignment a s"
  by (induction seen as rule: distinct_from.induct) (auto simp: list_ex_iff split: if_splits)

lemma distinct_from_pairwise: "sorted_wrt (\<lambda>x y. \<not> same_assignment y x) (distinct_from seen as)"
  by (induction seen as rule: distinct_from.induct) (auto dest: distinct_from_new)

subsection \<open>Gathering\<close>

definition contributed :: "(TraceEvent \<times> bool) \<times> BoundEvent \<Rightarrow> bool" where
  "contributed x \<longleftrightarrow> be_unreadable (snd x) \<noteq> [] \<or> be_assignments (snd x) \<noteq> [] \<and> \<not> snd (fst x)"

lemma gather_fields:
  "ga_bound (gather u x g) = ga_bound g @ (if snd (fst x) then be_assignments (snd x) else [])"
  "ga_possible (gather u x g) = ga_possible g @ (if snd (fst x) then [] else be_assignments (snd x))"
  "ga_unnamed (gather u x g) \<longleftrightarrow> ga_unnamed g \<or> be_unreadable (snd x) \<noteq> []"
  "ga_missing (gather u x g) = [] \<longleftrightarrow> ga_missing g = [] \<and> \<not> contributed x"
proof -
  obtain e s r where x: "x = ((e, s), r)" by (metis surj_pair)
  have d: "dict_set k v d \<noteq> []" for k v and d :: "(nat, pystr list) dict"
    by (cases d) (auto split: prod.splits if_splits)
  show "ga_bound (gather u x g) = ga_bound g @ (if snd (fst x) then be_assignments (snd x) else [])"
    "ga_possible (gather u x g) = ga_possible g @ (if snd (fst x) then [] else be_assignments (snd x))"
    "ga_unnamed (gather u x g) \<longleftrightarrow> ga_unnamed g \<or> be_unreadable (snd x) \<noteq> []"
    "ga_missing (gather u x g) = [] \<longleftrightarrow> ga_missing g = [] \<and> \<not> contributed x"
    by (auto simp: x gather_def contributed_def d Let_def)
qed

lemma gather_fold:
  "set (ga_bound (fold (gather u) xs g)) =
     set (ga_bound g) \<union> {a. \<exists>x \<in> set xs. snd (fst x) \<and> a \<in> set (be_assignments (snd x))}"
  "set (ga_possible (fold (gather u) xs g)) =
     set (ga_possible g) \<union> {a. \<exists>x \<in> set xs. \<not> snd (fst x) \<and> a \<in> set (be_assignments (snd x))}"
  "ga_unnamed (fold (gather u) xs g) \<longleftrightarrow> ga_unnamed g \<or> (\<exists>x \<in> set xs. be_unreadable (snd x) \<noteq> [])"
  "ga_missing (fold (gather u) xs g) = [] \<longleftrightarrow> ga_missing g = [] \<and> (\<forall>x \<in> set xs. \<not> contributed x)"
  "ga_possible (fold (gather u) xs g) = [] \<longleftrightarrow>
     ga_possible g = [] \<and> (\<forall>x \<in> set xs. snd (fst x) \<or> be_assignments (snd x) = [])"
proof (induction xs arbitrary: g)
  case (Cons x xs)
  { case 1 show ?case by (auto simp: Cons.IH(1) gather_fields) }
  { case 2 show ?case by (auto simp: Cons.IH(2) gather_fields) }
  { case 3 show ?case by (auto simp: Cons.IH(3) gather_fields) }
  { case 4 show ?case by (auto simp: Cons.IH(4) gather_fields) }
  { case 5 show ?case by (auto simp: Cons.IH(5) gather_fields) }
qed simp_all

subsection \<open>Inverting a run of the binder\<close>

text \<open>What one selected event contributes, when its extraction does not raise.\<close>

definition contribution :: "regex_lib \<Rightarrow> TrialTimeline \<Rightarrow> TraceBinding \<Rightarrow> RegexEngineKind \<Rightarrow> TraceEvent \<Rightarrow> BoundEvent \<Rightarrow> bool" where
  "contribution lib timeline b engine event r \<longleftrightarrow>
     (\<exists>captures. capture_patterns lib b engine = Inr captures \<and>
        bound_event lib b captures event (results_by_call_id (tl_events timeline)) = Inr r)"

lemma candidates_inversion:
  assumes "candidates lib timeline c engine = Inr cs" "con_bind c = Some b"
  obtains out readings where "binder_outcome lib timeline c b engine = Inr out"
    "list_all2 (\<lambda>x r. contribution lib timeline b engine (fst x) r) (selected out) readings"
    "cs = candidates_of out (fold (gather (mo_unreadable_fields out)) (zip (selected out) readings) nothing_gathered)"
proof -
  from assms obtain captures out readings where r: "capture_patterns lib b engine = Inr captures"
    "binder_outcome lib timeline c b engine = Inr out"
    "traverse (\<lambda>(event, sure). bound_event lib b captures event (results_by_call_id (tl_events timeline)))
       (selected out) = Inr readings"
    "cs = candidates_of out (fold (gather (mo_unreadable_fields out)) (zip (selected out) readings) nothing_gathered)"
    by (cases "binder_outcome lib timeline c b engine") (auto simp: candidates_def bind_res_eq_Inr_iff)
  have "list_all2 (\<lambda>x r. contribution lib timeline b engine (fst x) r) (selected out) readings"
    using r(3) unfolding traverse_Inr_iff
    by (rule list_all2_mono) (auto simp: contribution_def r(1))
  then show thesis using that r(2,4) by blast
qed

lemma contribution_unique:
  "contribution lib timeline b engine e r \<Longrightarrow> contribution lib timeline b engine e r' \<Longrightarrow> r = r'"
  by (auto simp: contribution_def)

lemma gathered_set:
  assumes rd: "list_all2 (\<lambda>x r. contribution lib timeline b engine (fst x) r) sel readings"
  shows "(\<exists>x \<in> set (zip sel readings). snd (fst x) = s \<and> P (snd x)) \<longleftrightarrow>
    (\<exists>e r. (e, s) \<in> set sel \<and> contribution lib timeline b engine e r \<and> P r)"
proof
  assume "\<exists>x \<in> set (zip sel readings). snd (fst x) = s \<and> P (snd x)"
  then obtain e r where "((e, s), r) \<in> set (zip sel readings)" "P r" by force
  moreover from this have "contribution lib timeline b engine e r" "(e, s) \<in> set sel"
    using rd set_zip_leftD by (fastforce simp: list_all2_iff)+
  ultimately show "\<exists>e r. (e, s) \<in> set sel \<and> contribution lib timeline b engine e r \<and> P r" by blast
next
  assume "\<exists>e r. (e, s) \<in> set sel \<and> contribution lib timeline b engine e r \<and> P r"
  then obtain e r where e: "(e, s) \<in> set sel" "contribution lib timeline b engine e r" "P r" by blast
  obtain r' where r': "((e, s), r') \<in> set (zip sel readings)"
    using in_set_impl_in_set_zip1 [OF list_all2_lengthD [OF rd] e(1)] by blast
  then have "contribution lib timeline b engine e r'" using rd by (auto simp: list_all2_iff)
  then have "r' = r" using e(2) contribution_unique by blast
  then show "\<exists>x \<in> set (zip sel readings). snd (fst x) = s \<and> P (snd x)" using r' e(3) by force
qed

lemma selected_iff [simp]:
  "(e, True) \<in> set (selected out) \<longleftrightarrow> e \<in> set (mo_matched out)"
  "(e, False) \<in> set (selected out) \<longleftrightarrow> e \<in> set (mo_undecidable out)"
  by (auto simp: selected_def)

text \<open>The assignments of the certain and of the unsettled events, as sets.\<close>

definition carried :: "regex_lib \<Rightarrow> TrialTimeline \<Rightarrow> TraceBinding \<Rightarrow> RegexEngineKind \<Rightarrow> TraceEvent set \<Rightarrow> bindings set" where
  "carried lib timeline b engine es =
     {a. \<exists>e \<in> es. \<exists>r. contribution lib timeline b engine e r \<and> a \<in> set (be_assignments r)}"

lemma candidates_carried:
  assumes "candidates lib timeline c engine = Inr cs" "con_bind c = Some b"
    and "binder_outcome lib timeline c b engine = Inr out"
  obtains g where "cs = candidates_of out g"
    "set (ga_bound g) = carried lib timeline b engine (set (mo_matched out))"
    "set (ga_possible g) = carried lib timeline b engine (set (mo_undecidable out))"
    "ga_unnamed g \<longleftrightarrow> (\<exists>e \<in> set (mo_matched out) \<union> set (mo_undecidable out). \<exists>r.
       contribution lib timeline b engine e r \<and> be_unreadable r \<noteq> [])"
    "ga_missing g = [] \<longleftrightarrow> \<not> ga_unnamed g \<and> ga_possible g = []"
proof -
  obtain readings where rd: "list_all2 (\<lambda>x r. contribution lib timeline b engine (fst x) r) (selected out) readings"
    and cs: "cs = candidates_of out (fold (gather (mo_unreadable_fields out)) (zip (selected out) readings) nothing_gathered)"
    using candidates_inversion [OF assms(1,2)] assms(3) by (metis Inr_inject)
  let ?g = "fold (gather (mo_unreadable_fields out)) (zip (selected out) readings) nothing_gathered"
  note gs = gathered_set [OF rd]
  have b: "set (ga_bound ?g) = carried lib timeline b engine (set (mo_matched out))"
    using gs [of True "\<lambda>r. a \<in> set (be_assignments r)" for a]
    by (intro set_eqI) (simp add: gather_fold carried_def nothing_gathered_def Bex_def)
  have p: "set (ga_possible ?g) = carried lib timeline b engine (set (mo_undecidable out))"
    using gs [of False "\<lambda>r. a \<in> set (be_assignments r)" for a]
    by (intro set_eqI) (simp add: gather_fold carried_def nothing_gathered_def Bex_def)
  have u: "ga_unnamed ?g \<longleftrightarrow> (\<exists>s. \<exists>x \<in> set (zip (selected out) readings). snd (fst x) = s \<and> be_unreadable (snd x) \<noteq> [])"
    unfolding gather_fold by (auto simp: nothing_gathered_def)
  have m: "ga_missing ?g = [] \<longleftrightarrow> \<not> ga_unnamed ?g \<and> ga_possible ?g = []"
    unfolding gather_fold contributed_def by (auto simp: nothing_gathered_def)
  show thesis
  proof (rule that [OF cs b p _ m])
    show "ga_unnamed ?g \<longleftrightarrow> (\<exists>e \<in> set (mo_matched out) \<union> set (mo_undecidable out). \<exists>r.
        contribution lib timeline b engine e r \<and> be_unreadable r \<noteq> [])"
      unfolding u ex_bool_eq gs [of True "\<lambda>r. be_unreadable r \<noteq> []"] gs [of False "\<lambda>r. be_unreadable r \<noteq> []"]
        selected_iff by blast
  qed
qed

lemma assignment_names:
  assumes "contribution lib timeline b engine event r" "a \<in> set (be_assignments r)"
  shows "map fst a = sort (map fst (tb_values b))"
proof -
  obtain captures extracts where e:
    "traverse (\<lambda>name. extracted lib (the (map_of (tb_values b) name)) (map_of captures name) event
        (outcome_of event (results_by_call_id (tl_events timeline)))) (sort (map fst (tb_values b))) = Inr extracts"
    and a: "a \<in> zip (sort (map fst (tb_values b))) ` set (product_lists extracts)"
    using assms by (auto simp: contribution_def bound_event_def Let_def bind_res_eq_Inr_iff)
  have "length extracts = length (sort (map fst (tb_values b)))"
    using e unfolding traverse_Inr_iff by (rule list_all2_lengthD [symmetric])
  then show ?thesis using a in_set_product_lists_length by fastforce
qed

subsection \<open>Validated binders\<close>

lemma validated_head:
  assumes "validate_binding lib b = None" "(name, v) \<in> set (tb_values b)"
  shows "head_segment v \<in> {''tool'', ''args'', ''result'', ''text''}"
proof -
  have "reject_an_extraction_the_binder_cannot_read b = None" "reject_an_extraction_over_a_closed_vocabulary b = None"
    using assms(1) by (simp_all add: validate_binding_def first_error_None_iff)
  then have "head_segment v \<in> set (TRACE_MATCHABLE_FIELDS_BY_KIND (tm_kind (tb_match b)))"
    "head_segment v \<notin> {''status'', ''executor''}"
    using assms(2) by (fastforce simp: reject_an_extraction_the_binder_cannot_read_def
        reject_an_extraction_over_a_closed_vocabulary_def Let_def filter_empty_conv split: if_splits)+
  then show ?thesis by (cases "tm_kind (tb_match b)") auto
qed

lemma readable_head:
  "head_segment v \<in> {''tool'', ''args'', ''result'', ''text''} \<Longrightarrow> is_ok (binder_reading v event outcome)"
  by (auto simp: binder_reading_def BINDER_FIELDS_def Let_def)

lemma traverse_ok: "(\<And>x. x \<in> set xs \<Longrightarrow> is_ok (f x)) \<Longrightarrow> is_ok (traverse f xs)"
proof -
  assume ok: "\<And>x. x \<in> set xs \<Longrightarrow> is_ok (f x)"
  have "f x = Inr (projr (f x))" if "x \<in> set xs" for x
    using ok [OF that] by (cases "f x") simp_all
  from traverse_total [of xs f, OF this] show "is_ok (traverse f xs)" by simp
qed

lemma bind_ok: "is_ok r \<Longrightarrow> (\<And>a. is_ok (f a)) \<Longrightarrow> is_ok (bind_res r f)"
  by (cases r) simp_all

lemma validated_bound_event:
  assumes "validate_binding lib b = None"
  shows "is_ok (bound_event lib' b captures event results)"
proof -
  have "is_ok (extracted lib' (the (map_of (tb_values b) name)) capt event outcome)"
    if "name \<in> set (sort (map fst (tb_values b)))" for name capt outcome
  proof -
    from that obtain v where v: "map_of (tb_values b) name = Some v" 
      by (cases "map_of (tb_values b) name") (auto simp: map_of_eq_None_iff)
    show ?thesis unfolding extracted_def v option.sel
      by (rule bind_ok [OF readable_head [OF validated_head [OF assms map_of_SomeD [OF v]]]]) simp
  qed
  then show ?thesis unfolding bound_event_def Let_def by (intro bind_ok traverse_ok) simp_all
qed

lemma validated_constraint_binding:
  "validate_constraint lib c = None \<Longrightarrow> con_bind c = Some b \<Longrightarrow> validate_binding lib b = None"
  by (auto simp: validate_constraint_def first_error_None_iff)

lemma validated_binder_total:
  assumes "validate_constraint lib c = None" "con_bind c = Some b"
  shows "is_ok (candidates lib timeline c engine) \<longleftrightarrow>
    is_ok (capture_patterns lib b engine) \<and> regex_operands lib (tb_match b) engine = None"
proof -
  have ok: "is_ok (traverse (\<lambda>(event, sure). bound_event lib b captures event results) xs)"
    for captures results and xs :: "(TraceEvent \<times> bool) list"
    by (rule traverse_ok) (simp add: validated_bound_event [OF validated_constraint_binding [OF assms]] split: prod.splits)
  have bo: "is_ok (binder_outcome lib timeline c b engine) \<longleftrightarrow> regex_operands lib (tb_match b) engine = None"
    by (simp add: binder_outcome_def select_events_def split: option.split)
  show ?thesis
  proof (cases "capture_patterns lib b engine")
    case (Inl e)
    then show ?thesis using assms(2) by (simp add: candidates_def)
  next
    case (Inr captures)
    show ?thesis
    proof (cases "binder_outcome lib timeline c b engine")
      case (Inl e)
      then show ?thesis using assms(2) Inr bo by (simp add: candidates_def)
    next
      fix out
      assume out: "binder_outcome lib timeline c b engine = Inr out"
      have "is_ok (candidates lib timeline c engine)"
        using assms(2) Inr out ok by (simp add: candidates_def bind_ok)
      then show ?thesis using Inr out bo by simp
    qed
  qed
qed

section \<open>Properties\<close>

text \<open>
  The candidates are the binder's values and nothing else.  Each definite candidate is an
  assignment some event the binder certainly selected carries, each undecidable one an assignment
  of an event it could not settle, and each binds exactly the binder's names; every assignment
  carried is represented by a candidate that binds the same values of the same types (a certain
  one by a definite candidate); and no candidate repeats an earlier one, an undecidable one never a
  definite one.
\<close>

theorem candidates_are_the_bound_values:
  assumes "candidates lib timeline c engine = Inr cs" "con_bind c = Some b"
    and "binder_outcome lib timeline c b engine = Inr out"
  shows "(\<forall>a \<in> set (ca_definite cs). map fst a = sort (map fst (tb_values b)) \<and>
      (\<exists>e \<in> set (mo_matched out). \<exists>r. contribution lib timeline b engine e r \<and> a \<in> set (be_assignments r))) \<and>
    (\<forall>a \<in> set (ca_undecidable cs). map fst a = sort (map fst (tb_values b)) \<and>
      (\<exists>e \<in> set (mo_undecidable out). \<exists>r. contribution lib timeline b engine e r \<and> a \<in> set (be_assignments r))) \<and>
    (\<forall>e r a. contribution lib timeline b engine e r \<longrightarrow> a \<in> set (be_assignments r) \<longrightarrow>
      (e \<in> set (mo_matched out) \<longrightarrow> (\<exists>d \<in> set (ca_definite cs). a = d \<or> same_assignment a d)) \<and>
      (e \<in> set (mo_undecidable out) \<longrightarrow>
         (\<exists>d \<in> set (ca_definite cs) \<union> set (ca_undecidable cs). a = d \<or> same_assignment a d))) \<and>
    sorted_wrt (\<lambda>x y. \<not> same_assignment y x) (ca_definite cs @ ca_undecidable cs)"
proof -
  obtain g where g: "cs = candidates_of out g"
    "set (ga_bound g) = carried lib timeline b engine (set (mo_matched out))"
    "set (ga_possible g) = carried lib timeline b engine (set (mo_undecidable out))"
    using candidates_carried [OF assms] by blast
  let ?d = "distinct_from [] (ga_bound g)"
  have ca: "ca_definite cs = ?d" "ca_undecidable cs = distinct_from ?d (ga_possible g)"
    by (simp_all add: g(1) candidates_of_def Let_def)
  have mem: "a \<in> carried lib timeline b engine es"
    if "contribution lib timeline b engine e r" "a \<in> set (be_assignments r)" "e \<in> es" for a e r es
    unfolding carried_def mem_Collect_eq using that by blast
  have sub: "a \<in> carried lib timeline b engine (set (mo_matched out))" if "a \<in> set (ca_definite cs)" for a
    using distinct_from_subset that g(2) by (simp add: ca) blast
  have sub': "a \<in> carried lib timeline b engine (set (mo_undecidable out))" if "a \<in> set (ca_undecidable cs)" for a
    using distinct_from_subset that g(3) by (simp add: ca) blast
  have cov: "\<exists>d \<in> set (ca_definite cs). a = d \<or> same_assignment a d"
    if "a \<in> carried lib timeline b engine (set (mo_matched out))" for a
    using distinct_from_covers [of a "ga_bound g" "[]"] that by (simp add: ca g(2))
  have cov': "\<exists>d \<in> set (ca_definite cs) \<union> set (ca_undecidable cs). a = d \<or> same_assignment a d"
    if "a \<in> carried lib timeline b engine (set (mo_undecidable out))" for a
    using distinct_from_covers [of a "ga_possible g" ?d] that by (simp add: ca g(3))
  have srt: "sorted_wrt (\<lambda>x y. \<not> same_assignment y x) (ca_definite cs @ ca_undecidable cs)"
    unfolding ca sorted_wrt_append using distinct_from_pairwise distinct_from_new by blast
  show ?thesis
  proof (intro conjI allI ballI impI)
    show "map fst a = sort (map fst (tb_values b))" if "a \<in> set (ca_definite cs)" for a
      using sub [OF that] assignment_names by (auto simp: carried_def)
    show "map fst a = sort (map fst (tb_values b))" if "a \<in> set (ca_undecidable cs)" for a
      using sub' [OF that] assignment_names by (auto simp: carried_def)
    show "\<exists>e \<in> set (mo_matched out). \<exists>r. contribution lib timeline b engine e r \<and> a \<in> set (be_assignments r)"
      if "a \<in> set (ca_definite cs)" for a using sub [OF that] by (simp add: carried_def)
    show "\<exists>e \<in> set (mo_undecidable out). \<exists>r. contribution lib timeline b engine e r \<and> a \<in> set (be_assignments r)"
      if "a \<in> set (ca_undecidable cs)" for a using sub' [OF that] by (simp add: carried_def)
  qed (fact srt | erule (1) mem [THEN cov] mem [THEN cov'], assumption)+
qed

definition demo_binding :: TraceBinding where
  "demo_binding = \<lparr>tb_match = failed_call\<lparr>tm_status := None\<rparr>,
     tb_values = [(''t'', \<lparr>bv_field = ''tool'', bv_pattern = None, bv_regex_engine = None\<rparr>)],
     tb_on_unbound = Unbound_FAIL\<rparr>"

definition bound_constraint :: TraceConstraint where
  "bound_constraint = (demo_constraint ''b'' S_SCORED (E_present (failed_call\<lparr>tm_status := None,
     tm_tool := Some (empty_predicate\<lparr>vp_equals_binding := Some ''t''\<rparr>)\<rparr>)))\<lparr>con_bind := Some demo_binding\<rparr>"

lemma bound_constraint_binds [simp]: "con_bind bound_constraint = Some demo_binding"
  by (simp add: bound_constraint_def)

lemma demo_candidates_ok:
  "is_ok (candidates no_regex demo_timeline bound_constraint LINEAR)"
  "is_ok (binder_outcome no_regex demo_timeline bound_constraint demo_binding LINEAR)"
  by code_simp+

definition demo_candidates :: Candidates where
  "demo_candidates = projr (candidates no_regex demo_timeline bound_constraint LINEAR)"

definition demo_binder_outcome :: MatcherOutcome where
  "demo_binder_outcome = projr (binder_outcome no_regex demo_timeline bound_constraint demo_binding LINEAR)"

lemma demo_candidates:
  "candidates no_regex demo_timeline bound_constraint LINEAR = Inr demo_candidates"
  "binder_outcome no_regex demo_timeline bound_constraint demo_binding LINEAR = Inr demo_binder_outcome"
  using demo_candidates_ok
  by (auto simp: demo_candidates_def demo_binder_outcome_def is_ok_def split: sum.splits)

theorem candidates_are_the_bound_values_witness:
  "ca_definite demo_candidates = [[(''t'', VStr ''get'')], [(''t'', VStr ''put'')]] \<and>
   sorted_wrt (\<lambda>x y. \<not> same_assignment y x) (ca_definite demo_candidates @ ca_undecidable demo_candidates)"
proof
  show "ca_definite demo_candidates = [[(''t'', VStr ''get'')], [(''t'', VStr ''put'')]]" by code_simp
  show "sorted_wrt (\<lambda>x y. \<not> same_assignment y x) (ca_definite demo_candidates @ ca_undecidable demo_candidates)"
    using candidates_are_the_bound_values [OF demo_candidates(1) bound_constraint_binds demo_candidates(2)] by blast
qed

text \<open>
  The binder's doubt is reported exactly when it has any: the candidate set is undetermined
  if and only if some selected event's value is not recorded, or an event whose membership is
  unsettled carries a value; otherwise every completion of the trial binds the same candidates.
\<close>

theorem candidate_set_undetermined_iff:
  assumes "candidates lib timeline c engine = Inr cs" "con_bind c = Some b"
    and "binder_outcome lib timeline c b engine = Inr out"
  shows "(undetermined cs \<noteq> None \<longleftrightarrow>
      ca_unnamed cs \<or> carried lib timeline b engine (set (mo_undecidable out)) \<noteq> {}) \<and>
    (ca_unnamed cs \<longleftrightarrow> (\<exists>e \<in> set (mo_matched out) \<union> set (mo_undecidable out). \<exists>r.
       contribution lib timeline b engine e r \<and> be_unreadable r \<noteq> []))"
proof -
  obtain g where g: "cs = candidates_of out g"
    "set (ga_bound g) = carried lib timeline b engine (set (mo_matched out))"
    "set (ga_possible g) = carried lib timeline b engine (set (mo_undecidable out))"
    "ga_unnamed g \<longleftrightarrow> (\<exists>e \<in> set (mo_matched out) \<union> set (mo_undecidable out). \<exists>r.
       contribution lib timeline b engine e r \<and> be_unreadable r \<noteq> [])"
    "ga_missing g = [] \<longleftrightarrow> \<not> ga_unnamed g \<and> ga_possible g = []"
    by (rule candidates_carried [OF assms])
  have "undetermined cs \<noteq> None \<longleftrightarrow> ca_unnamed cs \<or> carried lib timeline b engine (set (mo_undecidable out)) \<noteq> {}"
    using g(5) unfolding g(3) [symmetric] set_empty by (simp add: undetermined_def g(1) candidates_of_def Let_def)
  moreover have "ca_unnamed cs \<longleftrightarrow> (\<exists>e \<in> set (mo_matched out) \<union> set (mo_undecidable out). \<exists>r.
       contribution lib timeline b engine e r \<and> be_unreadable r \<noteq> [])"
    using g(4) by (simp add: g(1) candidates_of_def Let_def)
  ultimately show ?thesis ..
qed

theorem candidate_set_undetermined_iff_witness:
  "undetermined demo_candidates = None \<and>
   carried no_regex demo_timeline demo_binding LINEAR (set (mo_undecidable demo_binder_outcome)) = {}"
proof -
  have "undetermined demo_candidates = None" by code_simp
  with candidate_set_undetermined_iff [OF demo_candidates(1) bound_constraint_binds demo_candidates(2)]
  show ?thesis by blast
qed

text \<open>
  A binder that loaded never looks up a field it cannot read: grading a constraint the
  validators accepted, the candidates raise only where a capture pattern or a pattern of the
  binder's own matcher is refused by its engine.
\<close>

theorem validated_binder_raises_only_on_patterns:
  assumes "validate_constraint lib c = None" "con_bind c = Some b"
  shows "is_ok (candidates lib timeline c engine) \<longleftrightarrow>
    is_ok (capture_patterns lib b engine) \<and> regex_operands lib (tb_match b) engine = None"
  using assms by (rule validated_binder_total)

theorem validated_binder_raises_only_on_patterns_witness:
  "validate_constraint no_regex bound_constraint = None \<and>
   is_ok (candidates no_regex demo_timeline bound_constraint LINEAR)"
proof -
  have v: "validate_constraint no_regex bound_constraint = None" by code_simp
  have "is_ok (capture_patterns no_regex demo_binding LINEAR)" "regex_operands no_regex (tb_match demo_binding) LINEAR = None"
    by code_simp+
  with validated_binder_raises_only_on_patterns [OF v bound_constraint_binds, of demo_timeline LINEAR] v
  show ?thesis by blast
qed

text \<open>
  An assignment may have a hole.  Where a capture's group took no part in a match, its engine
  reports \<^verbatim>\<open>None\<close> for it and the binder keeps that as the value of the name: the event yields an
  environment in which the name is bound to \<^verbatim>\<open>None\<close>, under which no value equals the binding.
\<close>

theorem unmatched_group_leaves_a_hole:
  assumes "tb_values b = [(name, v)]" "captures = [(name, e, p)]"
    and "binder_reading v event (outcome_of event results) = Inr (VStr text)"
    and "rx_first_groups lib e p text = [None]"
  shows "bound_event lib b captures event results = Inr \<lparr>be_assignments = [[(name, VNone)]], be_unreadable = []\<rparr> \<and>
    \<not> operator_holds lib engine (Op_equals_binding name) (Some w) [(name, VNone)]"
proof
  show "bound_event lib b captures event results = Inr \<lparr>be_assignments = [[(name, VNone)]], be_unreadable = []\<rparr>"
    using assms by (simp add: bound_event_def extracted_def is_str_def of_opt_str_def)
      (auto simp: filter_empty_conv)
  show "\<not> operator_holds lib engine (Op_equals_binding name) (Some w) [(name, VNone)]"
    by (cases w) (simp_all add: operator_holds_def)
qed

theorem unmatched_group_leaves_a_hole_witness:
  "bound_event (no_regex\<lparr>rx_first_groups := \<lambda>_ _ _. [None]\<rparr>)
     (demo_binding\<lparr>tb_values := [(''n'', \<lparr>bv_field = ''tool'', bv_pattern = Some ''x|(y)'', bv_regex_engine = None\<rparr>)]\<rparr>)
     [(''n'', LINEAR, ''x|(y)'')] demo_event [] = Inr \<lparr>be_assignments = [[(''n'', VNone)]], be_unreadable = []\<rparr>"
proof -
  have "binder_reading \<lparr>bv_field = ''tool'', bv_pattern = Some ''x|(y)'', bv_regex_engine = None\<rparr> demo_event
      (outcome_of demo_event []) = Inr (VStr ''get'')" by code_simp
  from unmatched_group_leaves_a_hole [OF _ refl this, of
      "demo_binding\<lparr>tb_values := [(''n'', \<lparr>bv_field = ''tool'', bv_pattern = Some ''x|(y)'', bv_regex_engine = None\<rparr>)]\<rparr>"
      "''n''" "no_regex\<lparr>rx_first_groups := \<lambda>_ _ _. [None]\<rparr>" LINEAR "''x|(y)''" LINEAR VNone]
  show ?thesis by simp
qed

end
