(* ===== verification/Trace_Evaluator.thy ===== *)
theory Trace_Evaluator
  imports Trace_Bindings
begin

text \<open>
  The top of the trace checks, \<^verbatim>\<open>tolokaforge/core/grading/trace_checks/evaluator.py\<close>: one constraint read
  once per candidate its binder yields and folded over the completions of the candidate set, a
  route's verdicts folded into a score, the best route chosen and a tripped gate shutting the
  component.  Every step that can raise returns a sum; the ledger of visited kinds is passed along.
\<close>

section \<open>Results\<close>

datatype result_message =
    RM_none
  | RM_unmakeable "unmakeable_message list"
  | RM_unbound TraceConstraintKind emptiness
  | RM_folded constraint_message truth "bindings list" "(pystr list \<times> nat list) option"
  | RM_undetermined TraceConstraintKind "(pystr list \<times> nat list) option"

record TraceConstraintResult =
  cr_id :: pystr
  cr_kind :: TraceConstraintKind
  cr_passed :: bool
  cr_weight :: pyfloat
  cr_severity :: TraceConstraintSeverity
  cr_message :: result_message
  cr_positions :: "nat list"
  cr_undecided :: bool
  cr_withheld :: bool

datatype result_error = UndecidedPass | WithheldPass | WithheldUndecided

definition validate_result :: "TraceConstraintResult \<Rightarrow> result_error option" where
  "validate_result r =
     first_error [if cr_undecided r \<and> cr_passed r then Some UndecidedPass else None,
                  if cr_withheld r \<and> cr_passed r then Some WithheldPass else None,
                  if cr_withheld r \<and> cr_undecided r then Some WithheldUndecided else None]"

record TracePathResult =
  pr_id :: pystr
  pr_score :: pyfloat
  pr_gate_failed :: bool

datatype KeyAccountingRecord = EVALUATED | NO_TIMELINE_EVENTS_SKIP | UNBOUND_BINDING_SKIP

record TraceChecksResult =
  tr_passed :: bool
  tr_score :: pyfloat
  tr_constraints :: "TraceConstraintResult list"
  tr_winning_path :: pystr
  tr_gate_failed :: bool
  tr_failed_gate_ids :: "pystr list"
  tr_paths :: "TracePathResult list"
  tr_accounted_keys :: "(pystr, KeyAccountingRecord) dict"

record KindLedger =
  lg_visited :: "TraceConstraintKind list"
  lg_unevaluated :: "TraceConstraintKind list"

definition skipped_kinds :: "KindLedger \<Rightarrow> TraceConstraintKind list" where
  "skipped_kinds l = filter (\<lambda>k. k \<notin> set (lg_visited l)) (lg_unevaluated l)"

section \<open>One constraint\<close>

record CandidateReading =
  rd_environment :: bindings
  rd_truth :: truth
  rd_message :: constraint_message
  rd_positions :: "nat list"
  rd_unmakeable :: "unmakeable_message list"

definition context_under ::
    "regex_lib \<Rightarrow> TrialTimeline \<Rightarrow> TraceConstraint \<Rightarrow> bindings \<Rightarrow> RegexEngineKind \<Rightarrow> context_of" where
  "context_under lib timeline c environment engine =
     \<lparr>cx_lib = lib, cx_engine = engine, cx_events = tl_events timeline, cx_within = con_within c,
      cx_bindings = environment\<rparr>"

definition read_under ::
    "regex_lib \<Rightarrow> TrialTimeline \<Rightarrow> TraceConstraint \<Rightarrow> OnMissing \<Rightarrow> RegexEngineKind \<Rightarrow> bindings \<Rightarrow>
     TraceConstraintKind list \<Rightarrow> CandidateReading \<times> TraceConstraintKind list" where
  "read_under lib timeline c on_missing engine environment visited =
     (case evaluate (context_under lib timeline c environment engine) on_missing (con_require c)
             \<lparr>rs_resolved = [], rs_visited = visited\<rparr> of
        (t, resolver) \<Rightarrow>
          (\<lparr>rd_environment = environment, rd_truth = t,
            rd_message = message_of t (declared_kind (con_require c)) resolver on_missing,
            rd_positions = matched_positions resolver, rd_unmakeable = resolver_unmakeable resolver\<rparr>,
           rs_visited resolver))"

fun read_each ::
    "(bindings \<Rightarrow> TraceConstraintKind list \<Rightarrow> CandidateReading \<times> TraceConstraintKind list) \<Rightarrow> bindings list \<Rightarrow>
     TraceConstraintKind list \<Rightarrow> CandidateReading list \<times> TraceConstraintKind list" where
  "read_each f [] visited = ([], visited)"
| "read_each f (environment # rest) visited =
     (case f environment visited of (r, v1) \<Rightarrow> case read_each f rest v1 of (rs, v2) \<Rightarrow> (r # rs, v2))"

definition folded_truth :: "truth list \<Rightarrow> truth list \<Rightarrow> truth \<Rightarrow> truth" where
  "folded_truth definite undecidable unbound =
     (let inside = conjunction definite;
          empty_reading = (if definite \<noteq> [] then inside else unbound)
      in if undecidable = [] then empty_reading
         else let readings = set (empty_reading # map (\<lambda>t. conjunction [inside, t]) undecidable @
                                  [conjunction (inside # undecidable)])
              in if card readings = 1 then empty_reading else T_UNKNOWN)"

definition unbound_truth :: "TraceBinding option \<Rightarrow> truth" where
  "unbound_truth bind = (case bind of Some b \<Rightarrow> if tb_on_unbound b = Unbound_PASS then T_TRUE else T_FALSE
                         | None \<Rightarrow> T_FALSE)"

definition unbound_result :: "TraceConstraint \<Rightarrow> TraceConstraintKind \<Rightarrow> Candidates \<Rightarrow> TraceConstraintResult" where
  "unbound_result c kind cs =
     (let t = unbound_truth (con_bind c); passed = (t = T_TRUE)
      in \<lparr>cr_id = con_id c, cr_kind = kind, cr_passed = passed, cr_weight = con_weight c,
          cr_severity = con_severity c,
          cr_message = (if passed then RM_none else RM_unbound kind (ca_emptiness cs)),
          cr_positions = [], cr_undecided = (t = T_UNKNOWN), cr_withheld = False\<rparr>)"

definition folded_message ::
    "CandidateReading list \<Rightarrow> truth \<Rightarrow> TraceConstraintKind \<Rightarrow> (pystr list \<times> nat list) option \<Rightarrow> result_message" where
  "folded_message readings t kind undet =
     (if t = T_TRUE then RM_none
      else let clause = (if t = T_UNKNOWN then undet else None);
               responsible = filter (\<lambda>r. rd_truth r = t) readings
           in case responsible of
                [] \<Rightarrow> RM_undetermined kind clause
              | r # _ \<Rightarrow> RM_folded (rd_message r) t
                  (filter (\<lambda>e. e \<noteq> []) (map rd_environment responsible)) clause)"

definition folded_result ::
    "TraceConstraint \<Rightarrow> Candidates \<Rightarrow> CandidateReading list \<Rightarrow> CandidateReading list \<Rightarrow> TraceConstraintResult" where
  "folded_result c cs definite possible =
     (let kind = declared_kind (con_require c);
          readings = definite @ possible;
          unmakeable = dedup (concat (map rd_unmakeable readings));
          t = (if unmakeable \<noteq> [] then T_FALSE
               else folded_truth (map rd_truth definite)
                      (map rd_truth possible @ (if ca_unnamed cs then [T_UNKNOWN] else []))
                      (unbound_truth (con_bind c)));
          withheld = (t = T_WITHHELD)
      in \<lparr>cr_id = con_id c, cr_kind = kind, cr_passed = (t = T_TRUE), cr_weight = con_weight c,
          cr_severity = con_severity c,
          cr_message = (if unmakeable \<noteq> [] then RM_unmakeable unmakeable
                        else folded_message readings t kind (undetermined cs)),
          cr_positions = (if withheld then [] else sorted_list_of_set (set (concat (map rd_positions readings)))),
          cr_undecided = (t = T_UNKNOWN), cr_withheld = withheld\<rparr>)"

definition on_missing_of :: "TraceConstraint \<Rightarrow> OnMissing" where
  "on_missing_of c = (case con_on_missing c of None \<Rightarrow> M_FAIL | Some m \<Rightarrow> m)"

definition evaluate_constraint ::
    "regex_lib \<Rightarrow> TrialTimeline \<Rightarrow> RegexEngineKind \<Rightarrow> TraceConstraint \<Rightarrow> KindLedger \<Rightarrow>
     binding_error + (TraceConstraintResult \<times> KindLedger)" where
  "evaluate_constraint lib timeline engine c ledger =
     bind_res (candidates lib timeline c engine) (\<lambda>cs.
       let kind = declared_kind (con_require c);
           read = read_under lib timeline c (on_missing_of c) engine
       in case read_each read (ca_definite cs) (lg_visited ledger) of (definite, v1) \<Rightarrow>
          case read_each read (ca_undecidable cs) v1 of (possible, v2) \<Rightarrow>
            let untouched = (definite = [] \<and> possible = []);
                ledger' = (if untouched
                           then \<lparr>lg_visited = (if kind \<in> set v2 then v2 else v2 @ [kind]),
                                 lg_unevaluated = lg_unevaluated ledger @ kinds_in_tree (con_require c)\<rparr>
                           else ledger\<lparr>lg_visited := v2\<rparr>)
            in Inr (if untouched \<and> \<not> ca_unnamed cs then unbound_result c kind cs
                    else folded_result c cs definite possible, ledger'))"

fun evaluate_each ::
    "(TraceConstraint \<Rightarrow> KindLedger \<Rightarrow> binding_error + (TraceConstraintResult \<times> KindLedger)) \<Rightarrow>
     TraceConstraint list \<Rightarrow> KindLedger \<Rightarrow> binding_error + (TraceConstraintResult list \<times> KindLedger)" where
  "evaluate_each f [] l = Inr ([], l)"
| "evaluate_each f (c # cs) l =
     bind_res (f c l) (\<lambda>(r, l1). bind_res (evaluate_each f cs l1) (\<lambda>(rs, l2). Inr (r # rs, l2)))"

section \<open>A decision set\<close>

record DecisionSet =
  ds_results :: "TraceConstraintResult list"
  ds_score :: pyfloat
  ds_failed_gate_ids :: "pystr list"

definition weighted_fraction :: "TraceConstraintResult list \<Rightarrow> pyfloat" where
  "weighted_fraction results =
     (let total = sum_list (map cr_weight results);
          earned = sum_list (map cr_weight (filter cr_passed results))
      in earned / total)"

definition scored_results :: "TraceConstraintResult list \<Rightarrow> TraceConstraintResult list" where
  "scored_results results = filter (\<lambda>r. cr_severity r \<noteq> S_GATE \<and> \<not> cr_withheld r) results"

definition decided_results :: "TraceConstraintResult list \<Rightarrow> TraceConstraintResult list" where
  "decided_results results = filter (\<lambda>r. \<not> cr_withheld r) results"

definition decision_set :: "TraceConstraintResult list \<Rightarrow> DecisionSet" where
  "decision_set results =
     (let scored = scored_results results
      in \<lparr>ds_results = results,
          ds_score = (if scored \<noteq> [] then weighted_fraction scored
                      else if list_all cr_passed (decided_results results) then 1 else 0),
          ds_failed_gate_ids =
            map cr_id (filter (\<lambda>r. cr_severity r = S_GATE \<and> \<not> cr_passed r \<and> \<not> cr_withheld r) results)\<rparr>)"

definition precedence :: "DecisionSet \<Rightarrow> pyfloat \<times> bool" where
  "precedence route = (ds_score route, ds_failed_gate_ids route \<noteq> [])"

text \<open>The order of Python tuples of a float and a bool, and \<^verbatim>\<open>max(routes, key=...)\<close>, which keeps the
  first of equal keys.\<close>

definition exceeds :: "pyfloat \<times> bool \<Rightarrow> pyfloat \<times> bool \<Rightarrow> bool" where
  "exceeds a b \<longleftrightarrow> fst b < fst a \<or> fst a = fst b \<and> \<not> snd b \<and> snd a"

fun winner_from :: "pystr \<times> DecisionSet \<Rightarrow> (pystr \<times> DecisionSet) list \<Rightarrow> pystr \<times> DecisionSet" where
  "winner_from best [] = best"
| "winner_from best (r # rs) =
     winner_from (if exceeds (precedence (snd r)) (precedence (snd best)) then r else best) rs"

section \<open>The component\<close>

fun kind_key :: "TraceConstraintKind \<Rightarrow> pystr" where
  "kind_key K_PRESENT = ''trace_checks.constraints.present''"
| "kind_key K_ABSENT = ''trace_checks.constraints.absent''"
| "kind_key K_COUNT = ''trace_checks.constraints.count''"
| "kind_key K_BEFORE = ''trace_checks.constraints.before''"
| "kind_key K_IMMEDIATELY_BEFORE = ''trace_checks.constraints.immediately_before''"
| "kind_key K_ABSENT_BEFORE = ''trace_checks.constraints.absent_before''"
| "kind_key K_ABSENT_BETWEEN = ''trace_checks.constraints.absent_between''"
| "kind_key K_ALL_OF = ''trace_checks.constraints.all_of''"
| "kind_key K_ANY_OF = ''trace_checks.constraints.any_of''"
| "kind_key K_NEGATE = ''trace_checks.constraints.negate''"

definition accounting ::
    "TraceChecksConfig \<Rightarrow> TraceConstraintKind list \<Rightarrow> KeyAccountingRecord \<Rightarrow> (pystr, KeyAccountingRecord) dict" where
  "accounting cfg kinds rec =
     dict_of ([(''trace_checks.constraints'', rec)] @
       (if cfg_alternatives cfg \<noteq> None then [(''trace_checks.alternatives'', rec)] else []) @
       map (\<lambda>k. (kind_key k, rec)) kinds)"

definition declared_kinds :: "TraceChecksConfig \<Rightarrow> TraceConstraintKind list" where
  "declared_kinds cfg = concat (map (\<lambda>c. kinds_in_tree (con_require c)) (every_constraint cfg))"

definition component ::
    "TraceChecksConfig \<Rightarrow> DecisionSet \<Rightarrow> KindLedger \<Rightarrow> pystr \<Rightarrow> TracePathResult list \<Rightarrow> TraceChecksResult" where
  "component cfg winner ledger winner_id paths =
     \<lparr>tr_passed = list_all cr_passed (decided_results (ds_results winner)),
      tr_score = (if ds_failed_gate_ids winner \<noteq> [] then 0 else ds_score winner),
      tr_constraints = ds_results winner,
      tr_winning_path = winner_id,
      tr_gate_failed = (ds_failed_gate_ids winner \<noteq> []),
      tr_failed_gate_ids = ds_failed_gate_ids winner,
      tr_paths = paths,
      tr_accounted_keys =
        fold (\<lambda>k. dict_set (kind_key k) UNBOUND_BINDING_SKIP) (skipped_kinds ledger)
          (accounting cfg (lg_visited ledger) EVALUATED)\<rparr>"

definition compile_constraint :: "regex_lib \<Rightarrow> RegexEngineKind \<Rightarrow> TraceConstraint \<Rightarrow> binding_error option" where
  "compile_constraint lib engine c =
     first_error
       ((case con_bind c of None \<Rightarrow> None
         | Some b \<Rightarrow> (case capture_patterns lib b engine of Inl e \<Rightarrow> Some e | Inr _ \<Rightarrow> None)) #
        map (\<lambda>m. map_option CaptureRefused (regex_operands lib m engine)) (constraint_matchers c))"

definition compile_trace_check_patterns :: "regex_lib \<Rightarrow> TraceChecksConfig \<Rightarrow> binding_error option" where
  "compile_trace_check_patterns lib cfg =
     first_error (map (compile_constraint lib (cfg_regex_engine cfg)) (every_constraint cfg))"

fun evaluate_routes ::
    "(TraceConstraint \<Rightarrow> KindLedger \<Rightarrow> binding_error + (TraceConstraintResult \<times> KindLedger)) \<Rightarrow>
     TraceConstraintResult list \<Rightarrow> TracePath list \<Rightarrow> KindLedger \<Rightarrow>
     binding_error + ((pystr \<times> DecisionSet) list \<times> KindLedger)" where
  "evaluate_routes f shared [] l = Inr ([], l)"
| "evaluate_routes f shared (p # ps) l =
     bind_res (evaluate_each f (path_constraints p) l) (\<lambda>(rs, l1).
       bind_res (evaluate_routes f shared ps l1) (\<lambda>(routes, l2).
         Inr ((path_id p, decision_set (shared @ rs)) # routes, l2)))"

definition no_trace_result :: "TraceChecksConfig \<Rightarrow> TraceChecksResult" where
  "no_trace_result cfg =
     \<lparr>tr_passed = False, tr_score = 0, tr_constraints = [], tr_winning_path = [], tr_gate_failed = False,
      tr_failed_gate_ids = [], tr_paths = [],
      tr_accounted_keys = accounting cfg (declared_kinds cfg) NO_TIMELINE_EVENTS_SKIP\<rparr>"

datatype checks_error = Uncompilable binding_error | Binding binding_error | NoRoute

definition scored_result ::
    "regex_lib \<Rightarrow> TrialTimeline \<Rightarrow> TraceChecksConfig \<Rightarrow> binding_error + (checks_error + TraceChecksResult)" where
  "scored_result lib timeline cfg =
     (let eval = evaluate_constraint lib timeline (cfg_regex_engine cfg)
      in bind_res (evaluate_each eval (cfg_constraints cfg) \<lparr>lg_visited = [], lg_unevaluated = []\<rparr>) (\<lambda>(shared, l1).
           case cfg_alternatives cfg of
             None \<Rightarrow> Inr (Inr (component cfg (decision_set shared) l1 [] []))
           | Some paths \<Rightarrow>
               bind_res (evaluate_routes eval shared paths l1) (\<lambda>(route_list, l2).
                 let routes = dict_of route_list
                 in case routes of
                      [] \<Rightarrow> Inr (Inl NoRoute)
                    | r # rs \<Rightarrow>
                        (case winner_from r rs of (winner_id, w) \<Rightarrow>
                           Inr (Inr (component cfg w l2 winner_id
                             (map (\<lambda>(i, d). \<lparr>pr_id = i, pr_score = ds_score d,
                                             pr_gate_failed = (ds_failed_gate_ids d \<noteq> [])\<rparr>) routes)))))))"

definition evaluate_trace_checks ::
    "regex_lib \<Rightarrow> TrialTimeline \<Rightarrow> TraceChecksConfig \<Rightarrow> checks_error + TraceChecksResult" where
  "evaluate_trace_checks lib timeline cfg =
     (case compile_trace_check_patterns lib cfg of
        Some e \<Rightarrow> Inl (Uncompilable e)
      | None \<Rightarrow>
          if tl_events timeline = [] then Inr (no_trace_result cfg)
          else case scored_result lib timeline cfg of Inl e \<Rightarrow> Inl (Binding e) | Inr r \<Rightarrow> r)"

section \<open>Lemmas\<close>

subsection \<open>The fold over candidate sets\<close>

text \<open>The verdict of one completion of the candidate set: the candidates \<open>D\<close> and the chosen \<open>S\<close> of the
  undecidable ones.\<close>

definition candidate_verdict :: "truth list \<Rightarrow> truth \<Rightarrow> truth list \<Rightarrow> truth" where
  "candidate_verdict D unbound S = (if D @ S = [] then unbound else conjunction (D @ S))"

definition agreed :: "truth set \<Rightarrow> truth" where
  "agreed R = (if card R = 1 then the_elem R else T_UNKNOWN)"

lemma conjunction_member: "ts \<noteq> [] \<Longrightarrow> conjunction ts \<in> set ts"
  by (cases ts; cases "hd ts") (auto simp: conjunction_def)

lemma min_TRUE [simp]: "min t T_TRUE = t" "min T_TRUE t = t"
  by (cases t; simp add: min_def less_eq_truth_def)+

lemma conjunction_nested: "conjunction (conjunction D # ts) = conjunction (D @ ts)"
  by (simp add: conjunction_Cons conjunction_append)

lemma subseqs_ends: "[] \<in> set (subseqs U)" "U \<in> set (subseqs U)"
  by (induction U) (auto simp: Let_def)

lemma subseqs_singleton: "t \<in> set U \<Longrightarrow> [t] \<in> set (subseqs U)"
  by (induction U) (auto simp: Let_def subseqs_ends)

lemma completion_readings:
  "candidate_verdict D ub ` set (subseqs U) =
     set ((if D \<noteq> [] then conjunction D else ub) # map (\<lambda>t. conjunction [conjunction D, t]) U @
       (if U = [] then [] else [conjunction (conjunction D # U)]))" (is "?R = ?F")
proof (rule equalityI)
  show "?R \<subseteq> ?F"
  proof (rule image_subsetI)
    fix S
    assume S: "S \<in> set (subseqs U)"
    then have sub: "set S \<subseteq> set U" using subseqs_powset [of U] by blast
    show "candidate_verdict D ub S \<in> ?F"
    proof (cases "S = []")
      case True
      then show ?thesis by (simp add: candidate_verdict_def)
    next
      case False
      then have "conjunction S \<in> set U" using conjunction_member sub by blast
      moreover have "candidate_verdict D ub S = conjunction [conjunction D, conjunction S]"
        using False by (simp add: candidate_verdict_def conjunction_append conjunction_Cons)
      ultimately show ?thesis by simp
    qed
  qed
  show "?F \<subseteq> ?R"
  proof -
    have e: "(if D \<noteq> [] then conjunction D else ub) = candidate_verdict D ub []"
      by (simp add: candidate_verdict_def)
    have o: "conjunction [conjunction D, t] = candidate_verdict D ub [t]" for t
      by (simp add: candidate_verdict_def conjunction_nested)
    have w: "conjunction (conjunction D # U) = candidate_verdict D ub U" if "U \<noteq> []"
      using that by (simp add: candidate_verdict_def conjunction_nested)
    show ?thesis using subseqs_ends [of U] subseqs_singleton [of _ U]
      by (simp add: e o) (auto simp: w)
  qed
qed

lemma folded_truth_agreed: "folded_truth D U ub = agreed (candidate_verdict D ub ` set (subseqs U))"
proof (cases "U = []")
  case True
  then show ?thesis by (simp add: folded_truth_def agreed_def candidate_verdict_def Let_def)
next
  case False
  let ?e = "if D \<noteq> [] then conjunction D else ub"
  let ?F = "set (?e # map (\<lambda>t. conjunction [conjunction D, t]) U @ [conjunction (conjunction D # U)])"
  have "the_elem R = e" if "card R = 1" "e \<in> R" for R and e :: truth
    using that by (auto simp: card_1_singleton_iff)
  from this [of ?F ?e] have "card ?F = 1 \<Longrightarrow> the_elem ?F = ?e" by simp
  moreover have "candidate_verdict D ub ` set (subseqs U) = ?F"
    unfolding completion_readings if_not_P [OF False] ..
  moreover have "folded_truth D U ub = (if card ?F = 1 then ?e else T_UNKNOWN)"
    unfolding folded_truth_def Let_def if_not_P [OF False] ..
  ultimately show ?thesis unfolding agreed_def by metis
qed

lemma folded_truth_TRUE:
  assumes "folded_truth D U ub = T_TRUE"
  shows "\<forall>t \<in> set D \<union> set U. t = T_TRUE" "D = [] \<Longrightarrow> ub = T_TRUE"
proof -
  let ?R = "candidate_verdict D ub ` set (subseqs U)"
  have one: "card ?R = 1" "the_elem ?R = T_TRUE"
    using assms by (auto simp: folded_truth_agreed agreed_def split: if_splits)
  then have R: "?R = {T_TRUE}" by (metis card_1_singletonE the_elem_eq)
  have "candidate_verdict D ub U = T_TRUE" "candidate_verdict D ub [] = T_TRUE"
    using R subseqs_ends [of U] by blast+
  then show "\<forall>t \<in> set D \<union> set U. t = T_TRUE" "D = [] \<Longrightarrow> ub = T_TRUE"
    by (auto simp: candidate_verdict_def conjunction_iff split: if_splits)
qed

subsection \<open>Readings\<close>

lemma read_under_fields:
  "rd_truth (fst (read_under lib t c om engine env v)) =
     verdict (outcome_for (context_under lib t c env engine)) (tl_events t) om (con_require c)"
  "rd_environment (fst (read_under lib t c om engine env v)) = env"
  using evaluate_verdict(1) [of "context_under lib t c env engine" om "con_require c" "\<lparr>rs_resolved = [], rs_visited = v\<rparr>"]
  by (auto simp: read_under_def context_under_def split: prod.splits)

lemma read_each_map:
  assumes "\<And>env v. g (fst (f env v)) = h env"
  shows "map g (fst (read_each f envs v)) = map h envs"
  using assms by (induction envs arbitrary: v) (simp_all add: case_prod_beta)

text \<open>The verdict one environment gets.\<close>

definition verdict_under ::
    "regex_lib \<Rightarrow> TrialTimeline \<Rightarrow> TraceConstraint \<Rightarrow> RegexEngineKind \<Rightarrow> bindings \<Rightarrow> truth" where
  "verdict_under lib t c engine env =
     verdict (outcome_for (context_under lib t c env engine)) (tl_events t) (on_missing_of c) (con_require c)"

lemma read_each_truths:
  "map rd_truth (fst (read_each (read_under lib t c (on_missing_of c) engine) envs v)) =
     map (verdict_under lib t c engine) envs"
  by (rule read_each_map) (simp add: read_under_fields verdict_under_def)

lemma read_each_Nil: "fst (read_each f envs v) = [] \<longleftrightarrow> envs = []"
  by (cases envs) (auto split: prod.splits)

subsection \<open>Visited kinds and independence of the ledger\<close>

lemma handlers_visit:
  "rs_visited (snd (present_handler cx m om st)) = rs_visited st"
  "rs_visited (snd (absent_handler cx m om st)) = rs_visited st"
  "rs_visited (snd (count_handler cx m mn mx om st)) = rs_visited st"
  "rs_visited (snd (ordering_handler cx l r rel om st)) = rs_visited st"
  "rs_visited (snd (absent_before_handler cx f a om st)) = rs_visited st"
  "rs_visited (snd (absent_between_handler cx f s e om st)) = rs_visited st"
  by (simp_all add: present_handler_def absent_handler_def count_handler_def ordering_handler_def
      absent_before_handler_def absent_between_handler_def resolve_side_def Let_def)

lemma set_visit [simp]: "set (rs_visited (visit k st)) = insert k (set (rs_visited st))"
  by (auto simp: visit_def)

lemma evaluate_visits:
  "set (rs_visited (snd (evaluate cx om e st))) = set (rs_visited st) \<union> set (kinds_in_tree e)"
  "set (rs_visited (snd (evaluate_all cx om es st))) = set (rs_visited st) \<union> (\<Union>e \<in> set es. set (kinds_in_tree e))"
proof (induction cx om e st and cx om es st rule: evaluate_evaluate_all.induct)
  case (12 cx om e es st)
  obtain t st1 where e: "evaluate cx om e st = (t, st1)" by (metis surj_pair)
  then have "set (rs_visited st1) = set (rs_visited st) \<union> set (kinds_in_tree e)" using "12.IH"(1) by simp
  with "12.IH"(2) [OF e [symmetric]] show ?case by (simp add: e case_prod_beta Un_assoc)
qed (simp_all add: handlers_visit case_prod_beta)

text \<open>Nothing a reading reports depends on which kinds were visited before.\<close>

definition same_sides :: "resolver \<Rightarrow> resolver \<Rightarrow> bool" where
  "same_sides st st' \<longleftrightarrow> rs_resolved st = rs_resolved st'"

lemma same_sides_visit: "same_sides st st' \<Longrightarrow> same_sides (visit k st) (visit k st')"
  by (simp add: same_sides_def visit_def)

lemma handlers_same_sides:
  assumes "same_sides st st'"
  shows "same_sides (snd (present_handler cx m om st)) (snd (present_handler cx m om st'))"
    "same_sides (snd (absent_handler cx m om st)) (snd (absent_handler cx m om st'))"
    "same_sides (snd (count_handler cx m mn mx om st)) (snd (count_handler cx m mn mx om st'))"
    "same_sides (snd (ordering_handler cx l r rel om st)) (snd (ordering_handler cx l r rel om st'))"
    "same_sides (snd (absent_before_handler cx f a om st)) (snd (absent_before_handler cx f a om st'))"
    "same_sides (snd (absent_between_handler cx f s e om st)) (snd (absent_between_handler cx f s e om st'))"
  using assms by (simp_all add: same_sides_def present_handler_def absent_handler_def count_handler_def
      ordering_handler_def absent_before_handler_def absent_between_handler_def resolve_side_def Let_def)

lemma evaluate_same_sides:
  "same_sides st st' \<Longrightarrow> same_sides (snd (evaluate cx om e st)) (snd (evaluate cx om e st'))"
  "same_sides st st' \<Longrightarrow> same_sides (snd (evaluate_all cx om es st)) (snd (evaluate_all cx om es st'))"
proof (induction cx om e st and cx om es st arbitrary: st' and st' rule: evaluate_evaluate_all.induct)
  case (8 cx om es st)
  then show ?case using same_sides_visit by (fastforce split: prod.splits)
next
  case (9 cx om es st)
  then show ?case using same_sides_visit by (fastforce split: prod.splits)
next
  case (10 cx om e st)
  then show ?case using same_sides_visit by (fastforce split: prod.splits)
next
  case (12 cx om e es st)
  obtain t st1 t' st1' where e: "evaluate cx om e st = (t, st1)" "evaluate cx om e st' = (t', st1')"
    by (metis surj_pair)
  then have "same_sides st1 st1'" using "12.IH"(1) [OF "12.prems"] by simp
  from "12.IH"(2) [OF e(1) [symmetric], OF this] show ?case by (simp add: e case_prod_beta)
qed (simp_all add: handlers_same_sides same_sides_visit)

lemma read_under_ledger_free:
  "fst (read_under lib t c om engine env v) = fst (read_under lib t c om engine env v')"
proof -
  let ?cx = "context_under lib t c env engine"
  let ?s = "\<lparr>rs_resolved = [], rs_visited = v\<rparr>" and ?s' = "\<lparr>rs_resolved = [], rs_visited = v'\<rparr>"
  obtain a st a' st' where e: "evaluate ?cx om (con_require c) ?s = (a, st)" "evaluate ?cx om (con_require c) ?s' = (a', st')"
    by (metis surj_pair)
  have "same_sides ?s ?s'" by (simp add: same_sides_def)
  from evaluate_same_sides(1) [OF this, of ?cx om "con_require c"] have r: "rs_resolved st = rs_resolved st'"
    by (simp add: e same_sides_def)
  have a: "a = a'" using evaluate_verdict(1) [of ?cx om "con_require c"] e by (metis fst_conv)
  show ?thesis
    by (cases a') (simp_all add: read_under_def e a r message_of_def undecided_def empty_sides_def unmatched_anchors_def
        matched_positions_def resolver_unmakeable_def)
qed

lemma read_each_ledger_free:
  "fst (read_each (read_under lib t c om engine) envs v) = map (\<lambda>env. fst (read_under lib t c om engine env [])) envs"
proof (induction envs arbitrary: v)
  case (Cons env envs)
  show ?case using Cons.IH read_under_ledger_free [of lib t c om engine env v "[]"]
    by (simp add: case_prod_beta)
qed simp

text \<open>The result of one constraint, without the ledger.\<close>

definition result_of :: "regex_lib \<Rightarrow> TrialTimeline \<Rightarrow> RegexEngineKind \<Rightarrow> TraceConstraint \<Rightarrow> Candidates \<Rightarrow> TraceConstraintResult" where
  "result_of lib t engine c cs =
     (if ca_definite cs = [] \<and> ca_undecidable cs = [] \<and> \<not> ca_unnamed cs
      then unbound_result c (declared_kind (con_require c)) cs
      else let read = (\<lambda>env. fst (read_under lib t c (on_missing_of c) engine env []))
           in folded_result c cs (map read (ca_definite cs)) (map read (ca_undecidable cs)))"

lemma evaluate_constraint_result:
  "evaluate_constraint lib t engine c l = Inr (r, l') \<Longrightarrow>
     \<exists>cs. candidates lib t c engine = Inr cs \<and> r = result_of lib t engine c cs"
  unfolding evaluate_constraint_def bind_res_eq_Inr_iff
  by (auto simp: Let_def case_prod_beta read_each_ledger_free result_of_def)

text \<open>The three flags are readings of one verdict.\<close>

lemma folded_flags:
  "\<exists>v. cr_passed (folded_result c cs d p) = (v = T_TRUE) \<and> cr_undecided (folded_result c cs d p) = (v = T_UNKNOWN) \<and>
     cr_withheld (folded_result c cs d p) = (v = T_WITHHELD)"
  unfolding folded_result_def Let_def TraceConstraintResult.simps by blast

lemma result_flags:
  "\<exists>v. cr_passed (result_of lib t engine c cs) = (v = T_TRUE) \<and> cr_undecided (result_of lib t engine c cs) = (v = T_UNKNOWN) \<and>
     cr_withheld (result_of lib t engine c cs) = (v = T_WITHHELD)"
proof (cases "ca_definite cs = [] \<and> ca_undecidable cs = [] \<and> \<not> ca_unnamed cs")
  case True
  have "unbound_truth (con_bind c) \<noteq> T_WITHHELD" by (simp add: unbound_truth_def split: option.split)
  then show ?thesis using True by (auto simp: result_of_def unbound_result_def Let_def)
next
  case False
  show ?thesis unfolding result_of_def if_not_P [OF False] Let_def by (rule folded_flags)
qed

lemma evaluate_constraint_ok: "is_ok (evaluate_constraint lib t engine c l) \<longleftrightarrow> is_ok (candidates lib t c engine)"
  by (cases "candidates lib t c engine") (simp_all add: evaluate_constraint_def Let_def case_prod_beta)

lemma result_of_fields [simp]:
  "cr_id (result_of lib t engine c cs) = con_id c"
  "cr_weight (result_of lib t engine c cs) = con_weight c"
  "cr_severity (result_of lib t engine c cs) = con_severity c"
  by (simp_all add: result_of_def unbound_result_def folded_result_def Let_def)

definition verdict_of :: "regex_lib \<Rightarrow> TrialTimeline \<Rightarrow> RegexEngineKind \<Rightarrow> TraceConstraint \<Rightarrow> TraceConstraintResult" where
  "verdict_of lib t engine c = result_of lib t engine c (projr (candidates lib t c engine))"

lemma evaluate_each_results:
  "evaluate_each (evaluate_constraint lib t engine) cs l = Inr (rs, l') \<Longrightarrow> rs = map (verdict_of lib t engine) cs"
proof (induction cs arbitrary: l rs l')
  case (Cons c cs)
  then obtain r l1 rs' where "evaluate_constraint lib t engine c l = Inr (r, l1)"
    "evaluate_each (evaluate_constraint lib t engine) cs l1 = Inr (rs', l')" "rs = r # rs'"
    by (auto simp: bind_res_eq_Inr_iff)
  then show ?case using Cons.IH evaluate_constraint_result by (fastforce simp: verdict_of_def)
qed simp

lemma evaluate_routes_results:
  "evaluate_routes (evaluate_constraint lib t engine) shared ps l = Inr (routes, l') \<Longrightarrow>
     routes = map (\<lambda>p. (path_id p, decision_set (shared @ map (verdict_of lib t engine) (path_constraints p)))) ps"
  by (induction ps arbitrary: l routes l') (auto simp: bind_res_eq_Inr_iff dest: evaluate_each_results)

lemma is_okE: "is_ok r \<Longrightarrow> (\<And>a. r = Inr a \<Longrightarrow> thesis) \<Longrightarrow> thesis"
  by (cases r) simp_all

lemma evaluate_each_ok:
  assumes "\<And>c. c \<in> set cs \<Longrightarrow> is_ok (candidates lib t c engine)"
  shows "is_ok (evaluate_each (evaluate_constraint lib t engine) cs l)"
  using assms
proof (induction cs arbitrary: l)
  case (Cons c cs)
  obtain r l1 where "evaluate_constraint lib t engine c l = Inr (r, l1)"
    using Cons.prems evaluate_constraint_ok [of lib t engine c l]
    by (cases "evaluate_constraint lib t engine c l") auto
  moreover obtain rs l2 where "evaluate_each (evaluate_constraint lib t engine) cs l1 = Inr (rs, l2)"
    using Cons.IH [of l1] Cons.prems by (auto elim!: is_okE)
  ultimately show ?case by simp
qed simp

subsection \<open>Scores\<close>

definition weighted :: "TraceConstraintResult list \<Rightarrow> bool" where
  "weighted rs \<longleftrightarrow> (\<forall>r \<in> set rs. 0 < cr_weight r)"

lemma weighted_fraction_bounds:
  assumes "weighted rs" "rs \<noteq> []"
  shows "0 \<le> weighted_fraction rs" "weighted_fraction rs \<le> 1"
    "weighted_fraction rs = 1 \<longleftrightarrow> list_all cr_passed rs"
proof -
  have pos: "\<And>r. r \<in> set rs \<Longrightarrow> 0 < cr_weight r" using assms(1) by (simp add: weighted_def)
  have total: "0 < sum_list (map cr_weight rs)" by (rule sum_list_pos_rat [OF assms(2) pos])
  have "0 \<le> sum_list (map cr_weight (filter cr_passed rs))"
    by (rule sum_list_nonneg_rat) (auto intro: less_imp_le pos)
  then show "0 \<le> weighted_fraction rs" using total by (simp add: weighted_fraction_def Let_def)
  have "sum_list (map cr_weight (filter cr_passed rs)) \<le> sum_list (map cr_weight rs)"
    by (rule sum_list_filter_le_rat) (auto intro: less_imp_le pos)
  then show "weighted_fraction rs \<le> 1" using total by (simp add: weighted_fraction_def Let_def)
  show "weighted_fraction rs = 1 \<longleftrightarrow> list_all cr_passed rs"
    unfolding weighted_fraction_def Let_def divide_eq_1_iff list_all_iff
    using sum_list_filter_eq_iff_rat [of rs cr_weight cr_passed] pos total by simp
qed

lemma decision_set_bounds:
  assumes "weighted rs"
  shows "0 \<le> ds_score (decision_set rs)" "ds_score (decision_set rs) \<le> 1"
    "ds_failed_gate_ids (decision_set rs) \<noteq> [] \<Longrightarrow> \<not> list_all cr_passed (decided_results rs)"
    "ds_failed_gate_ids (decision_set rs) = [] \<Longrightarrow>
       ds_score (decision_set rs) = 1 \<longleftrightarrow> list_all cr_passed (decided_results rs)"
proof -
  have w: "weighted (scored_results rs)" using assms by (simp add: weighted_def scored_results_def)
  show "0 \<le> ds_score (decision_set rs)" "ds_score (decision_set rs) \<le> 1"
    using weighted_fraction_bounds [OF w] by (simp_all add: decision_set_def Let_def)
  show "ds_failed_gate_ids (decision_set rs) \<noteq> [] \<Longrightarrow> \<not> list_all cr_passed (decided_results rs)"
    by (auto simp: decision_set_def Let_def decided_results_def list_all_iff filter_empty_conv)
  assume "ds_failed_gate_ids (decision_set rs) = []"
  then have g: "\<And>r. r \<in> set rs \<Longrightarrow> cr_severity r = S_GATE \<Longrightarrow> \<not> cr_withheld r \<Longrightarrow> cr_passed r"
    by (auto simp: decision_set_def Let_def filter_empty_conv)
  have s: "list_all cr_passed (decided_results rs) \<longleftrightarrow> list_all cr_passed (scored_results rs)"
    using g by (auto simp: decided_results_def scored_results_def list_all_iff)
  show "ds_score (decision_set rs) = 1 \<longleftrightarrow> list_all cr_passed (decided_results rs)"
    using weighted_fraction_bounds(3) [OF w] by (simp add: decision_set_def Let_def s)
qed

lemma component_bounds:
  assumes "weighted rs"
  shows "0 \<le> tr_score (component cfg (decision_set rs) l i ps)" "tr_score (component cfg (decision_set rs) l i ps) \<le> 1"
    "tr_passed (component cfg (decision_set rs) l i ps) \<longleftrightarrow> tr_score (component cfg (decision_set rs) l i ps) = 1"
    "tr_gate_failed (component cfg (decision_set rs) l i ps) \<Longrightarrow> tr_score (component cfg (decision_set rs) l i ps) = 0"
proof -
  have r: "ds_results (decision_set rs) = rs" by (simp add: decision_set_def Let_def)
  show "0 \<le> tr_score (component cfg (decision_set rs) l i ps)" "tr_score (component cfg (decision_set rs) l i ps) \<le> 1"
    "tr_gate_failed (component cfg (decision_set rs) l i ps) \<Longrightarrow> tr_score (component cfg (decision_set rs) l i ps) = 0"
    using decision_set_bounds(1,2) [OF assms] by (simp_all add: component_def)
  show "tr_passed (component cfg (decision_set rs) l i ps) \<longleftrightarrow> tr_score (component cfg (decision_set rs) l i ps) = 1"
    using decision_set_bounds(3,4) [OF assms] by (simp add: component_def r)
qed

subsection \<open>The best route\<close>

lemma exceeds_order:
  "\<not> exceeds a a" "exceeds a b \<Longrightarrow> exceeds b c \<Longrightarrow> exceeds a c" "exceeds a b \<or> a = b \<or> exceeds b a"
  by (auto simp: exceeds_def prod_eq_iff)

lemma winner_from_mem: "winner_from best rs \<in> set (best # rs)"
  by (induction best rs rule: winner_from.induct) auto

lemma winner_from_max: "r \<in> set (best # rs) \<Longrightarrow> \<not> exceeds (precedence (snd r)) (precedence (snd (winner_from best rs)))"
proof (induction best rs arbitrary: r rule: winner_from.induct)
  case (1 best)
  then show ?case by (simp add: exceeds_order(1))
next
  case (2 best x xs)
  let ?b = "if exceeds (precedence (snd x)) (precedence (snd best)) then x else best"
  let ?w = "winner_from ?b xs"
  have IH: "r' \<in> set (?b # xs) \<Longrightarrow> \<not> exceeds (precedence (snd r')) (precedence (snd ?w))" for r'
    by (rule "2.IH")
  have b: "\<not> exceeds (precedence (snd ?b)) (precedence (snd ?w))" by (rule IH) simp
  have "\<not> exceeds (precedence (snd r')) (precedence (snd ?w))" if "r' = best \<or> r' = x" for r'
  proof (cases "exceeds (precedence (snd x)) (precedence (snd best))")
    case True
    then have "\<not> exceeds (precedence (snd best)) (precedence (snd ?w))" using b True exceeds_order(2) [OF True, of "precedence (snd ?w)"] by auto
    then show ?thesis using that b True by auto
  next
    case False
    then have "\<not> exceeds (precedence (snd x)) (precedence (snd ?w))"
      using b exceeds_order(2) [of "precedence (snd best)" "precedence (snd x)" "precedence (snd ?w)"]
        exceeds_order(3) [of "precedence (snd x)" "precedence (snd best)"] by auto
    then show ?thesis using that b False by auto
  qed
  moreover have "\<not> exceeds (precedence (snd r)) (precedence (snd ?w))" if "r \<in> set xs" using IH that by simp
  ultimately show ?case using "2.prems" unfolding winner_from.simps by (metis set_ConsD)
qed

text \<open>Two maximal elements have the same key, whatever list they were chosen from.\<close>

lemma winner_key_unique:
  assumes "set (b # rs) = set (b' # rs')"
  shows "precedence (snd (winner_from b rs)) = precedence (snd (winner_from b' rs'))"
  using exceeds_order(3) winner_from_max [of "winner_from b' rs'" b rs] winner_from_max [of "winner_from b rs" b' rs']
    winner_from_mem [of b rs] winner_from_mem [of b' rs'] assms by metis

subsection \<open>Accounting\<close>

definition ledger_kinds :: "KindLedger \<Rightarrow> TraceConstraintKind set" where
  "ledger_kinds l = set (lg_visited l) \<union> set (lg_unevaluated l)"

lemma read_each_visits:
  "set (snd (read_each (read_under lib t c om engine) envs v)) =
     (if envs = [] then set v else set v \<union> set (kinds_in_tree (con_require c)))"
proof (induction envs arbitrary: v)
  case (Cons env envs)
  obtain r v1 where r: "read_under lib t c om engine env v = (r, v1)" by (metis surj_pair)
  have "set v1 = set v \<union> set (kinds_in_tree (con_require c))"
    using r evaluate_visits(1) [of "context_under lib t c env engine" om "con_require c" "\<lparr>rs_resolved = [], rs_visited = v\<rparr>"]
    by (auto simp: read_under_def case_prod_beta)
  then show ?case using Cons.IH [of v1] by (auto simp: r case_prod_beta)
qed simp

lemma declared_kind_in_tree: "declared_kind e \<in> set (kinds_in_tree e)"
  by (cases e) simp_all

lemma evaluate_constraint_kinds:
  assumes "evaluate_constraint lib t engine c l = Inr (r, l')"
  shows "ledger_kinds l' = ledger_kinds l \<union> set (kinds_in_tree (con_require c))"
proof -
  let ?read = "read_under lib t c (on_missing_of c) engine"
  obtain cs where cs: "candidates lib t c engine = Inr cs"
    using assms by (cases "candidates lib t c engine") (auto simp: evaluate_constraint_def)
  obtain d v1 where d: "read_each ?read (ca_definite cs) (lg_visited l) = (d, v1)" by (metis surj_pair)
  obtain p v2 where p: "read_each ?read (ca_undecidable cs) v1 = (p, v2)" by (metis surj_pair)
  have e: "d = [] \<longleftrightarrow> ca_definite cs = []" "p = [] \<longleftrightarrow> ca_undecidable cs = []"
    using read_each_Nil [of ?read "ca_definite cs" "lg_visited l"] read_each_Nil [of ?read "ca_undecidable cs" v1] d p by simp_all
  have v: "set v2 = (if d = [] \<and> p = [] then set (lg_visited l)
      else set (lg_visited l) \<union> set (kinds_in_tree (con_require c)))"
    using read_each_visits [of lib t c "on_missing_of c" engine "ca_definite cs" "lg_visited l"]
      read_each_visits [of lib t c "on_missing_of c" engine "ca_undecidable cs" v1] d p e by auto
  have l': "l' = (if d = [] \<and> p = []
      then \<lparr>lg_visited = (if declared_kind (con_require c) \<in> set v2 then v2 else v2 @ [declared_kind (con_require c)]),
            lg_unevaluated = lg_unevaluated l @ kinds_in_tree (con_require c)\<rparr>
      else l\<lparr>lg_visited := v2\<rparr>)"
    using assms by (simp add: evaluate_constraint_def cs d p Let_def)
  show ?thesis using v declared_kind_in_tree [of "con_require c"]
    by (auto simp: l' ledger_kinds_def)
qed

lemma evaluate_each_kinds:
  "evaluate_each (evaluate_constraint lib t engine) cs l = Inr (rs, l') \<Longrightarrow>
     ledger_kinds l' = ledger_kinds l \<union> (\<Union>c \<in> set cs. set (kinds_in_tree (con_require c)))"
proof (induction cs arbitrary: l rs)
  case (Cons c cs)
  then obtain r l1 rs' where "evaluate_constraint lib t engine c l = Inr (r, l1)"
    "evaluate_each (evaluate_constraint lib t engine) cs l1 = Inr (rs', l')"
    by (auto simp: bind_res_eq_Inr_iff)
  then show ?case using Cons.IH evaluate_constraint_kinds by (simp add: Un_assoc)
qed simp

lemma evaluate_routes_kinds:
  "evaluate_routes (evaluate_constraint lib t engine) shared ps l = Inr (routes, l') \<Longrightarrow>
     ledger_kinds l' = ledger_kinds l \<union> (\<Union>c \<in> set (concat (map path_constraints ps)). set (kinds_in_tree (con_require c)))"
proof (induction ps arbitrary: l routes)
  case (Cons p ps)
  then obtain rs l1 routes' where "evaluate_each (evaluate_constraint lib t engine) (path_constraints p) l = Inr (rs, l1)"
    "evaluate_routes (evaluate_constraint lib t engine) shared ps l1 = Inr (routes', l')"
    by (auto simp: bind_res_eq_Inr_iff)
  then show ?case using Cons.IH evaluate_each_kinds by (simp add: Un_assoc UN_Un)
qed simp

definition author_keys :: "TraceChecksConfig \<Rightarrow> pystr set" where
  "author_keys cfg = {''trace_checks.constraints''} \<union>
     (if cfg_alternatives cfg \<noteq> None then {''trace_checks.alternatives''} else {}) \<union>
     kind_key ` set (declared_kinds cfg)"

lemma accounting_keys: "fst ` set (accounting cfg kinds rec) = {''trace_checks.constraints''} \<union>
     (if cfg_alternatives cfg \<noteq> None then {''trace_checks.alternatives''} else {}) \<union> kind_key ` set kinds"
  by (auto simp: accounting_def dict_of_keys image_Un image_image)

lemma fold_skip_keys:
  "fst ` set (fold (\<lambda>k. dict_set (kind_key k) rec) ks d) = fst ` set d \<union> kind_key ` set ks"
  by (induction ks arbitrary: d) auto

lemma component_keys:
  assumes "ledger_kinds l = set (declared_kinds cfg)"
  shows "fst ` set (tr_accounted_keys (component cfg w l i ps)) = author_keys cfg"
proof -
  have "set (lg_visited l) \<union> set (skipped_kinds l) = set (declared_kinds cfg)"
    using assms by (auto simp: ledger_kinds_def skipped_kinds_def)
  then have "kind_key ` set (lg_visited l) \<union> kind_key ` set (skipped_kinds l) = kind_key ` set (declared_kinds cfg)"
    by (metis image_Un)
  then show ?thesis by (simp add: component_def fold_skip_keys accounting_keys author_keys_def Un_assoc)
qed

subsection \<open>The whole block\<close>

definition shared_results :: "regex_lib \<Rightarrow> TrialTimeline \<Rightarrow> TraceChecksConfig \<Rightarrow> TraceConstraintResult list" where
  "shared_results lib t cfg = map (verdict_of lib t (cfg_regex_engine cfg)) (cfg_constraints cfg)"

definition route_of :: "regex_lib \<Rightarrow> TrialTimeline \<Rightarrow> TraceChecksConfig \<Rightarrow> TracePath \<Rightarrow> pystr \<times> DecisionSet" where
  "route_of lib t cfg p = (path_id p, decision_set (shared_results lib t cfg @
     map (verdict_of lib t (cfg_regex_engine cfg)) (path_constraints p)))"

definition winner_of :: "regex_lib \<Rightarrow> TrialTimeline \<Rightarrow> TraceChecksConfig \<Rightarrow> pystr \<times> DecisionSet" where
  "winner_of lib t cfg =
     (case map (route_of lib t cfg) (alternatives_of cfg) of
        [] \<Rightarrow> ([], decision_set (shared_results lib t cfg))
      | r # rs \<Rightarrow> winner_from r rs)"

lemma scored_result_component:
  assumes "validate_config lib cfg = None" "scored_result lib t cfg = Inr (Inr r)"
  shows "\<exists>l ps. r = component cfg (snd (winner_of lib t cfg)) l (fst (winner_of lib t cfg)) ps \<and>
    ledger_kinds l = set (declared_kinds cfg)"
proof (cases "cfg_alternatives cfg")
  case None
  let ?eval = "evaluate_constraint lib t (cfg_regex_engine cfg)"
  from assms(2) None obtain shared l1 where sh:
    "evaluate_each ?eval (cfg_constraints cfg) \<lparr>lg_visited = [], lg_unevaluated = []\<rparr> = Inr (shared, l1)"
    and r: "r = component cfg (decision_set shared) l1 [] []"
    by (auto simp: scored_result_def Let_def bind_res_eq_Inr_iff)
  have "ledger_kinds l1 = set (declared_kinds cfg)"
    using evaluate_each_kinds [OF sh] None
    by (simp add: ledger_kinds_def declared_kinds_def every_constraint_def alternatives_of_def)
  moreover have "winner_of lib t cfg = ([], decision_set shared)"
    using evaluate_each_results [OF sh] None by (simp add: winner_of_def alternatives_of_def shared_results_def)
  ultimately show ?thesis using r by auto
next
  case (Some paths)
  then have alt: "alternatives_of cfg = paths" by (simp add: alternatives_of_def)
  have "distinct (map path_id paths)" using distinct_path_ids [OF validated_ids [OF assms(1)]] alt by simp
  then have d: "dict_of (map (route_of lib t cfg) paths) = map (route_of lib t cfg) paths"
    by (intro dict_of_distinct) (simp add: route_of_def comp_def)
  have n: "paths \<noteq> []" using validated_alternatives [OF assms(1) Some] by auto
  let ?eval = "evaluate_constraint lib t (cfg_regex_engine cfg)"
  from assms(2) obtain shared l1 where sh:
    "evaluate_each ?eval (cfg_constraints cfg) \<lparr>lg_visited = [], lg_unevaluated = []\<rparr> = Inr (shared, l1)"
    by (auto simp: scored_result_def Let_def bind_res_eq_Inr_iff)
  with assms(2) Some obtain routes l2 where ro: "evaluate_routes ?eval shared paths l1 = Inr (routes, l2)"
    by (auto simp: scored_result_def Let_def bind_res_eq_Inr_iff)
  have routes: "routes = map (route_of lib t cfg) paths"
    using evaluate_routes_results [OF ro] evaluate_each_results [OF sh] by (simp add: route_of_def shared_results_def)
  let ?paths = "map (\<lambda>(i, d). \<lparr>pr_id = i, pr_score = ds_score d, pr_gate_failed = (ds_failed_gate_ids d \<noteq> [])\<rparr>) routes"
  from assms(2) have "(case routes of [] \<Rightarrow> Inl NoRoute
      | r1 # rs \<Rightarrow> (case winner_from r1 rs of (winner_id, w) \<Rightarrow> Inr (component cfg w l2 winner_id ?paths))) = Inr r"
    using d by (cases routes) (auto simp: scored_result_def Let_def sh ro Some routes split: list.splits prod.splits)
  then have "\<exists>ps. r = component cfg (snd (winner_of lib t cfg)) l2 (fst (winner_of lib t cfg)) ps"
    using n unfolding routes by (cases paths) (auto simp: winner_of_def alt split: prod.splits)
  moreover have "ledger_kinds l2 = set (declared_kinds cfg)"
    using evaluate_each_kinds [OF sh] evaluate_routes_kinds [OF ro]
    by (simp add: ledger_kinds_def declared_kinds_def every_constraint_def alt UN_Un)
  ultimately show ?thesis by blast
qed

lemma winner_of_results:
  "\<exists>rs. snd (winner_of lib t cfg) = decision_set rs \<and>
     set rs \<subseteq> verdict_of lib t (cfg_regex_engine cfg) ` set (every_constraint cfg)"
proof (cases "map (route_of lib t cfg) (alternatives_of cfg)")
  case Nil
  then show ?thesis by (auto simp: winner_of_def shared_results_def every_constraint_def)
next
  case (Cons r rs)
  then have "winner_of lib t cfg \<in> set (map (route_of lib t cfg) (alternatives_of cfg))"
    using winner_from_mem [of r rs] by (simp add: winner_of_def)
  then obtain p where "p \<in> set (alternatives_of cfg)" "winner_of lib t cfg = route_of lib t cfg p" by auto
  then show ?thesis by (fastforce simp: route_of_def shared_results_def every_constraint_def)
qed

lemma validated_weighted:
  assumes "validate_config lib cfg = None"
    and "set rs \<subseteq> verdict_of lib t (cfg_regex_engine cfg) ` set (every_constraint cfg)"
  shows "weighted rs"
  unfolding weighted_def
proof
  fix r
  assume "r \<in> set rs"
  then obtain c where "c \<in> set (every_constraint cfg)" "r = verdict_of lib t (cfg_regex_engine cfg) c"
    using assms(2) by blast
  then show "0 < cr_weight r"
    using validated_weight [OF validated_constraints [OF assms(1)]] by (simp add: verdict_of_def)
qed

lemma evaluated_component:
  assumes "validate_config lib cfg = None" "evaluate_trace_checks lib t cfg = Inr r" "tl_events t \<noteq> []"
  shows "\<exists>l ps. r = component cfg (snd (winner_of lib t cfg)) l (fst (winner_of lib t cfg)) ps \<and>
    ledger_kinds l = set (declared_kinds cfg)"
  using assms(2,3) scored_result_component [OF assms(1)]
  by (cases "scored_result lib t cfg") (auto simp: evaluate_trace_checks_def split: option.splits)

subsection \<open>Totality\<close>

lemma compiled_candidates_ok:
  assumes "validate_constraint lib c = None" "compile_constraint lib engine c = None"
  shows "is_ok (candidates lib t c engine)"
proof (cases "con_bind c")
  case None
  then show ?thesis by (simp add: candidates_def)
next
  case (Some b)
  have "is_ok (capture_patterns lib b engine)" "regex_operands lib (tb_match b) engine = None"
    using assms(2) Some by (auto simp: compile_constraint_def first_error_None_iff constraint_matchers_def is_ok_def
        split: sum.splits)
  then show ?thesis using validated_binder_total [OF assms(1) Some] by blast
qed

lemma evaluate_routes_ok:
  assumes "\<And>c. c \<in> set (concat (map path_constraints ps)) \<Longrightarrow> is_ok (candidates lib t c engine)"
  shows "is_ok (evaluate_routes (evaluate_constraint lib t engine) shared ps l)"
  using assms
proof (induction ps arbitrary: l)
  case (Cons p ps)
  have "is_ok (evaluate_each (evaluate_constraint lib t engine) (path_constraints p) l)"
    by (rule evaluate_each_ok) (use Cons.prems in simp)
  then obtain rs l1 where "evaluate_each (evaluate_constraint lib t engine) (path_constraints p) l = Inr (rs, l1)"
    by (auto elim!: is_okE)
  moreover have "is_ok (evaluate_routes (evaluate_constraint lib t engine) shared ps l1)"
    by (rule Cons.IH) (use Cons.prems in simp)
  ultimately show ?case by (auto elim!: is_okE)
qed simp

lemma scored_result_ok:
  assumes "validate_config lib cfg = None" "compile_trace_check_patterns lib cfg = None"
  shows "\<exists>r. scored_result lib t cfg = Inr (Inr r)"
proof -
  let ?eval = "evaluate_constraint lib t (cfg_regex_engine cfg)"
  have ok: "is_ok (candidates lib t c (cfg_regex_engine cfg))" if "c \<in> set (every_constraint cfg)" for c
    using validated_constraints [OF assms(1) that] compiled_candidates_ok assms(2) that
    by (auto simp: compile_trace_check_patterns_def first_error_None_iff)
  have "is_ok (evaluate_each ?eval (cfg_constraints cfg) \<lparr>lg_visited = [], lg_unevaluated = []\<rparr>)"
    by (rule evaluate_each_ok) (use ok in \<open>simp add: every_constraint_def\<close>)
  then obtain shared l1 where sh:
    "evaluate_each ?eval (cfg_constraints cfg) \<lparr>lg_visited = [], lg_unevaluated = []\<rparr> = Inr (shared, l1)"
    by (auto elim!: is_okE)
  show ?thesis
  proof (cases "cfg_alternatives cfg")
    case None
    then show ?thesis by (simp add: scored_result_def sh)
  next
    case (Some paths)
    have "is_ok (evaluate_routes ?eval shared paths l1)"
      by (rule evaluate_routes_ok) (use ok Some in \<open>auto simp: every_constraint_def alternatives_of_def\<close>)
    then obtain routes l2 where ro: "evaluate_routes ?eval shared paths l1 = Inr (routes, l2)"
      by (auto elim!: is_okE)
    have "paths \<noteq> []" using validated_alternatives [OF assms(1) Some] by auto
    then have "routes \<noteq> []" using evaluate_routes_results [OF ro] by auto
    then have "dict_of routes \<noteq> []" by (metis dict_of_keys image_is_empty set_empty)
    then show ?thesis
      by (cases "dict_of routes") (auto simp: scored_result_def sh Some ro Let_def split: prod.splits)
  qed
qed

lemma evaluates:
  assumes "validate_config lib cfg = None" "compile_trace_check_patterns lib cfg = None"
  shows "\<exists>r. evaluate_trace_checks lib t cfg = Inr r"
  using scored_result_ok [OF assms, of t] by (auto simp: evaluate_trace_checks_def assms(2))

section \<open>Properties\<close>

lemma component_facts:
  assumes "validate_config lib cfg = None" "evaluate_trace_checks lib t cfg = Inr r"
  shows "0 \<le> tr_score r \<and> tr_score r \<le> 1 \<and> (tr_passed r \<longleftrightarrow> tr_score r = 1) \<and>
    (tr_gate_failed r \<longrightarrow> tr_score r = 0) \<and> (tr_gate_failed r \<longleftrightarrow> tr_failed_gate_ids r \<noteq> [])"
proof (cases "tl_events t = []")
  case True
  then show ?thesis using assms(2) by (auto simp: evaluate_trace_checks_def no_trace_result_def split: option.splits)
next
  case False
  obtain l ps where r: "r = component cfg (snd (winner_of lib t cfg)) l (fst (winner_of lib t cfg)) ps"
    using evaluated_component [OF assms False] by blast
  obtain rs where rs: "snd (winner_of lib t cfg) = decision_set rs" "weighted rs"
    using winner_of_results [of lib t cfg] validated_weighted [OF assms(1)] by blast
  show ?thesis
    using component_bounds [OF rs(2), of cfg l "fst (winner_of lib t cfg)" ps] unfolding r rs(1)
    by (auto simp: component_def)
qed

text \<open>
  The component's score means what it says.  On a block that loaded, whatever the trial did:
  the score lies between 0 and 1, the component passes exactly when its score is 1, a failed gate
  sets it to 0, and a gate is reported failed exactly when some gate's id is listed.
\<close>

theorem component_score_and_gates:
  assumes "validate_config lib cfg = None" "evaluate_trace_checks lib t cfg = Inr r"
  shows "0 \<le> tr_score r \<and> tr_score r \<le> 1 \<and> (tr_passed r \<longleftrightarrow> tr_score r = 1) \<and>
    (tr_gate_failed r \<longrightarrow> tr_score r = 0) \<and> (tr_gate_failed r \<longleftrightarrow> tr_failed_gate_ids r \<noteq> [])"
  by (rule component_facts [OF assms])

definition demo_result :: TraceChecksResult where
  "demo_result = projr (evaluate_trace_checks no_regex demo_timeline demo_config)"

lemma demo_config_validated: "validate_config no_regex demo_config = None"
  by code_simp

lemma demo_config_compiles: "compile_trace_check_patterns no_regex demo_config = None"
  by code_simp

lemma demo_evaluates: "evaluate_trace_checks no_regex demo_timeline demo_config = Inr demo_result"
  using evaluates [OF demo_config_validated demo_config_compiles, of demo_timeline] by (auto simp: demo_result_def)

theorem component_score_and_gates_witness:
  "tr_gate_failed demo_result \<and> tr_score demo_result = 0 \<and> \<not> tr_passed demo_result"
proof -
  have "tr_gate_failed demo_result" by code_simp
  with component_score_and_gates [OF demo_config_validated demo_evaluates] show ?thesis by auto
qed

text \<open>
  Property C7.  A passing constraint holds.  On a timeline the builder returned, a constraint reported as
  passed holds under every candidate its binder yields, definite or not, and under every completion
  of the evidence its matchers miss there; no candidate's value was unrecorded; and if nothing was
  bound for certain, its author had asked for a pass in that case.
\<close>

theorem passed_constraint_holds:
  assumes "build_trial_timeline messages recorded reason = Inr t"
    and "evaluate_constraint lib t engine c l = Inr (r, l')" "cr_passed r"
    and "candidates lib t c engine = Inr cs"
  shows "\<not> ca_unnamed cs \<and>
    (\<forall>env \<in> set (ca_definite cs) \<union> set (ca_undecidable cs). \<forall>C.
       completes_all (outcome_for (context_under lib t c env engine)) (con_require c) C \<longrightarrow>
       holds C (tl_events t) (on_missing_of c) (con_require c)) \<and>
    (ca_definite cs = [] \<longrightarrow> (\<exists>b. con_bind c = Some b \<and> tb_on_unbound b = Unbound_PASS))"
proof -
  let ?v = "verdict_under lib t c engine"
  have r: "r = result_of lib t engine c cs" using evaluate_constraint_result [OF assms(2)] assms(4) by auto
  have ub: "unbound_truth (con_bind c) = T_TRUE \<Longrightarrow> \<exists>b. con_bind c = Some b \<and> tb_on_unbound b = Unbound_PASS"
    by (auto simp: unbound_truth_def split: option.splits if_splits)
  have main: "\<not> ca_unnamed cs \<and> (\<forall>env \<in> set (ca_definite cs) \<union> set (ca_undecidable cs). ?v env = T_TRUE) \<and>
      (ca_definite cs = [] \<longrightarrow> unbound_truth (con_bind c) = T_TRUE)"
  proof (cases "ca_definite cs = [] \<and> ca_undecidable cs = [] \<and> \<not> ca_unnamed cs")
    case True
    then show ?thesis using assms(3) by (simp add: r result_of_def unbound_result_def Let_def)
  next
    case False
    have m: "map (\<lambda>env. rd_truth (fst (read_under lib t c (on_missing_of c) engine env []))) envs = map ?v envs" for envs
      by (simp add: read_under_fields verdict_under_def)
    have "folded_truth (map ?v (ca_definite cs))
        (map ?v (ca_undecidable cs) @ (if ca_unnamed cs then [T_UNKNOWN] else [])) (unbound_truth (con_bind c)) = T_TRUE"
      using assms(3) False unfolding r result_of_def if_not_P [OF False] Let_def folded_result_def
      by (auto simp: m comp_def split: if_splits)
    from folded_truth_TRUE [OF this] show ?thesis by (cases "ca_unnamed cs") auto
  qed
  have "holds C (tl_events t) (on_missing_of c) (con_require c)"
    if env: "env \<in> set (ca_definite cs) \<union> set (ca_undecidable cs)"
      and C: "completes_all (outcome_for (context_under lib t c env engine)) (con_require c) C" for env C
  proof -
    have "distinct (map ev_position (cx_events (context_under lib t c env engine)))"
      using timeline_numbered [OF assms(1)] by (simp add: context_under_def)
    from verdict_agrees [OF outcome_for_wf [OF this] C, of "tl_events t" "on_missing_of c"] main env
    show ?thesis by (auto simp: agrees_def verdict_under_def)
  qed
  then show ?thesis using main ub by blast
qed

definition demo_evaluated :: "TraceConstraintResult \<times> KindLedger" where
  "demo_evaluated = projr (evaluate_constraint no_regex demo_timeline LINEAR bound_constraint
     \<lparr>lg_visited = [], lg_unevaluated = []\<rparr>)"

lemma demo_evaluated:
  "evaluate_constraint no_regex demo_timeline LINEAR bound_constraint \<lparr>lg_visited = [], lg_unevaluated = []\<rparr>
     = Inr (fst demo_evaluated, snd demo_evaluated)"
proof -
  have "is_ok (evaluate_constraint no_regex demo_timeline LINEAR bound_constraint \<lparr>lg_visited = [], lg_unevaluated = []\<rparr>)"
    using demo_candidates_ok(1) by (simp only: evaluate_constraint_ok)
  then show ?thesis by (rule is_okE) (simp add: demo_evaluated_def)
qed

theorem passed_constraint_holds_witness:
  "cr_passed (fst demo_evaluated) \<and>
   holds (\<lambda>m. matched_set (outcome_for (context_under no_regex demo_timeline bound_constraint [(''t'', VStr ''put'')] LINEAR) m))
     (tl_events demo_timeline) M_FAIL (con_require bound_constraint)"
proof -
  have p: "cr_passed (fst demo_evaluated)" by code_simp
  have e: "[(''t'', VStr ''put'')] \<in> set (ca_definite demo_candidates)" by code_simp
  have m: "on_missing_of bound_constraint = M_FAIL" by code_simp
  from passed_constraint_holds [OF demo_timeline_built demo_evaluated p demo_candidates(1)] e p
    matched_completes [of "outcome_for (context_under no_regex demo_timeline bound_constraint [(''t'', VStr ''put'')] LINEAR)"
      "con_require bound_constraint"]
  show ?thesis unfolding m by blast
qed

text \<open>
  The fold over the candidate set is exact: the verdict is the one every completion of the
  candidate set agrees on (its definite candidates and any selection of the undecidable ones, the
  empty set reading as the author's policy), and unknown when two completions disagree; the few
  readings the code enumerates are all there are.
\<close>

theorem folded_truth_reads_every_completion:
  "folded_truth definite undecidable unbound =
     agreed ((\<lambda>S. if definite @ S = [] then unbound else conjunction (definite @ S)) ` set (subseqs undecidable))"
  unfolding folded_truth_agreed candidate_verdict_def ..

text \<open>
  Grading cannot fail half-way.  On a block that loaded, evaluation returns a result for
  every timeline exactly when every pattern of the block compiles under its engine; a pattern that
  does not is reported whatever the trial did, also on a trial that left no trace.
\<close>

theorem validated_block_raises_only_on_patterns:
  assumes "validate_config lib cfg = None"
  shows "(is_ok (evaluate_trace_checks lib t cfg) \<longleftrightarrow> compile_trace_check_patterns lib cfg = None) \<and>
    (\<forall>e. compile_trace_check_patterns lib cfg = Some e \<longrightarrow> evaluate_trace_checks lib t cfg = Inl (Uncompilable e))"
  using evaluates [OF assms, of t]
  by (cases "compile_trace_check_patterns lib cfg") (auto simp: evaluate_trace_checks_def)

theorem validated_block_raises_only_on_patterns_witness:
  "is_ok (evaluate_trace_checks no_regex demo_timeline demo_config)"
  using validated_block_raises_only_on_patterns [OF demo_config_validated, of demo_timeline] demo_config_compiles by blast

text \<open>
  The trial's verdict does not turn on where in the file its routes were written: declaring
  the same alternatives in another order changes neither the score, nor whether the component
  passed, nor whether a gate shut it.
\<close>

theorem route_order_does_not_matter:
  assumes "validate_config lib cfg = None" "validate_config lib (cfg\<lparr>cfg_alternatives := Some ps'\<rparr>) = None"
    and "cfg_alternatives cfg = Some ps" "mset ps' = mset ps"
    and "evaluate_trace_checks lib t cfg = Inr r" "evaluate_trace_checks lib t (cfg\<lparr>cfg_alternatives := Some ps'\<rparr>) = Inr r'"
  shows "tr_score r' = tr_score r \<and> tr_passed r' = tr_passed r \<and> tr_gate_failed r' = tr_gate_failed r"
proof (cases "tl_events t = []")
  case True
  then show ?thesis using assms(5,6)
    by (auto simp: evaluate_trace_checks_def no_trace_result_def split: option.splits)
next
  case False
  let ?cfg' = "cfg\<lparr>cfg_alternatives := Some ps'\<rparr>"
  have same: "route_of lib t ?cfg' = route_of lib t cfg" by (simp add: fun_eq_iff route_of_def shared_results_def)
  have alt: "alternatives_of cfg = ps" "alternatives_of ?cfg' = ps'" using assms(3) by (simp_all add: alternatives_of_def)
  have ne: "ps \<noteq> []" "ps' \<noteq> []"
    using validated_alternatives [OF assms(1,3)] assms(4) by auto
  have sets: "set (map (route_of lib t cfg) ps') = set (map (route_of lib t cfg) ps)"
    unfolding set_map mset_eq_setD [OF assms(4)] ..
  have w: "precedence (snd (winner_of lib t ?cfg')) = precedence (snd (winner_of lib t cfg))"
  proof -
    obtain b rs b' rs' where m: "map (route_of lib t cfg) ps = b # rs" "map (route_of lib t cfg) ps' = b' # rs'"
      using ne by (metis list.exhaust list.map_disc_iff)
    have "set (b' # rs') = set (b # rs)" using sets unfolding m .
    from winner_key_unique [OF this] show ?thesis by (simp add: winner_of_def alt same m)
  qed
  obtain l ps1 where r: "r = component cfg (snd (winner_of lib t cfg)) l (fst (winner_of lib t cfg)) ps1"
    using evaluated_component [OF assms(1,5) False] by blast
  obtain l' ps1' where r': "r' = component ?cfg' (snd (winner_of lib t ?cfg')) l' (fst (winner_of lib t ?cfg')) ps1'"
    using evaluated_component [OF assms(2,6) False] by blast
  have s: "tr_score r' = tr_score r" "tr_gate_failed r' = tr_gate_failed r"
    using w by (simp_all add: r r' component_def precedence_def)
  obtain rs where rs: "snd (winner_of lib t cfg) = decision_set rs" "weighted rs"
    using winner_of_results [of lib t cfg] validated_weighted [OF assms(1)] by blast
  obtain rs' where rs': "snd (winner_of lib t ?cfg') = decision_set rs'" "weighted rs'"
    using winner_of_results [of lib t ?cfg'] validated_weighted [OF assms(2)] by blast
  have "tr_passed r \<longleftrightarrow> tr_score r = 1" "tr_passed r' \<longleftrightarrow> tr_score r' = 1"
    unfolding r r' rs(1) rs'(1) using rs(2) rs'(2) by (simp_all only: component_bounds(3))
  then show ?thesis using s by simp
qed

definition demo_path :: "pystr \<Rightarrow> TraceConstraintExpr \<Rightarrow> TracePath" where
  "demo_path i e = \<lparr>path_id = i, path_description = i,
     path_constraints = [demo_constraint (i @ ''c'') S_SCORED e]\<rparr>"

definition routed_config :: "TracePath list \<Rightarrow> TraceChecksConfig" where
  "routed_config ps = \<lparr>cfg_constraints = [], cfg_alternatives = Some ps, cfg_regex_engine = LINEAR\<rparr>"

theorem route_order_does_not_matter_witness:
  "\<exists>r r'. evaluate_trace_checks no_regex demo_timeline
       (routed_config [demo_path ''p'' (E_present says_done), demo_path ''q'' (E_absent says_done)]) = Inr r \<and>
     evaluate_trace_checks no_regex demo_timeline
       (routed_config [demo_path ''q'' (E_absent says_done), demo_path ''p'' (E_present says_done)]) = Inr r' \<and>
     tr_score r' = tr_score r"
proof -
  let ?p = "demo_path ''p'' (E_present says_done)" and ?q = "demo_path ''q'' (E_absent says_done)"
  have sw: "(routed_config [?p, ?q])\<lparr>cfg_alternatives := Some [?q, ?p]\<rparr> = routed_config [?q, ?p]"
    by (simp add: routed_config_def)
  have v: "validate_config no_regex (routed_config [?p, ?q]) = None" by code_simp
  have v': "validate_config no_regex (routed_config [?q, ?p]) = None" by code_simp
  have "compile_trace_check_patterns no_regex (routed_config [?p, ?q]) = None" by code_simp
  then obtain r where r: "evaluate_trace_checks no_regex demo_timeline (routed_config [?p, ?q]) = Inr r"
    using evaluates [OF v] by blast
  have "compile_trace_check_patterns no_regex (routed_config [?q, ?p]) = None" by code_simp
  then obtain r' where r': "evaluate_trace_checks no_regex demo_timeline (routed_config [?q, ?p]) = Inr r'"
    using evaluates [OF v'] by blast
  have a: "cfg_alternatives (routed_config [?p, ?q]) = Some [?p, ?q]" by (simp add: routed_config_def)
  have m: "mset [?q, ?p] = mset [?p, ?q]" by simp
  have "tr_score r' = tr_score r"
    by (rule route_order_does_not_matter [OF v _ a m r, of r', THEN conjunct1]) (simp_all only: sw v' r')
  then show ?thesis using r r' by blast
qed

text \<open>
  Every author key is accounted for.  Whenever evaluation returns, the keys it accounts are
  exactly the block's own, its alternatives' where it declares any, and one per constraint kind
  declared anywhere in it, nested or inside a route, whether the trees were read, a binder bound
  nothing or the trial left no trace.
\<close>

theorem every_declared_key_accounted:
  assumes "validate_config lib cfg = None" "evaluate_trace_checks lib t cfg = Inr r"
  shows "fst ` set (tr_accounted_keys r) = author_keys cfg"
proof (cases "tl_events t = []")
  case True
  then have "r = no_trace_result cfg" using assms(2) by (simp add: evaluate_trace_checks_def split: option.splits)
  then show ?thesis by (simp add: no_trace_result_def accounting_keys author_keys_def)
next
  case False
  then show ?thesis using evaluated_component [OF assms False] component_keys by blast
qed

theorem every_declared_key_accounted_witness:
  "fst ` set (tr_accounted_keys demo_result) = author_keys demo_config"
  by (rule every_declared_key_accounted [OF demo_config_validated demo_evaluates])

text \<open>
  Each reported verdict is one of four: the result model's validators accept every constraint
  result the evaluator builds, so passed, undecided and withheld never meet.
\<close>

theorem reported_results_validate:
  assumes "evaluate_constraint lib t engine c l = Inr (r, l')"
  shows "validate_result r = None \<and> cr_id r = con_id c \<and> cr_weight r = con_weight c \<and> cr_severity r = con_severity c"
proof -
  obtain cs where r: "r = result_of lib t engine c cs" using evaluate_constraint_result [OF assms] by blast
  have "\<exists>v. cr_passed r = (v = T_TRUE) \<and> cr_undecided r = (v = T_UNKNOWN) \<and> cr_withheld r = (v = T_WITHHELD)"
    unfolding r by (rule result_flags)
  then have "validate_result r = None" by (auto simp: validate_result_def)
  then show ?thesis by (simp add: r)
qed

theorem reported_results_validate_witness: "validate_result (fst demo_evaluated) = None"
  using reported_results_validate [OF demo_evaluated] by blast

end
