(* ===== verification/Grade_Fold.thy ===== *)
theory Grade_Fold
  imports Json_Values
begin

text \<open>
  From component scores to a trial's verdict: \<^verbatim>\<open>combine_method.py\<close>, \<^verbatim>\<open>combine_weights.py\<close>,
  \<^verbatim>\<open>grade_components.py\<close>, \<^verbatim>\<open>state_composition.py\<close> and \<^verbatim>\<open>composite_fold.py\<close> of
  \<^verbatim>\<open>tolokaforge/core/grading/\<close>, and the fold of the core engine (\<^verbatim>\<open>combine.py\<close>).  The two substrates, the
  core engine and the runner, compose independently; both are modelled and shown to agree.  How
  pydantic reads a raw \<^verbatim>\<open>custom_checks\<close> block is the parameter \<open>custom\<close>: \<open>None\<close> where it refuses the
  block, the flag \<^verbatim>\<open>enabled\<close> otherwise.
\<close>

section \<open>Errors\<close>

datatype fold_error =
    UnsupportedMethod pyval
  | NoComponentScores
  | MissingComponentWeight pystr
  | WeightKeyError pystr
  | ConflictingStateSources
  | ConflictingHashSources pystr pystr
  | MissingHashWeight
  | HashWeightType pyval
  | HashWeightDomain pyfloat
  | InvalidCustomChecks

section \<open>Combination methods\<close>

datatype CombineMethod = M_weighted | M_all | M_any

definition COMBINE_METHODS :: "(pystr, CombineMethod) dict" where
  "COMBINE_METHODS = [(''weighted'', M_weighted), (''all'', M_all), (''any'', M_any)]"

definition validate_combine_method :: "pyval \<Rightarrow> fold_error + CombineMethod" where
  "validate_combine_method value =
     (case value of
        VStr s \<Rightarrow> (case map_of COMBINE_METHODS s of Some m \<Rightarrow> Inr m | None \<Rightarrow> Inl (UnsupportedMethod value))
      | _ \<Rightarrow> Inl (UnsupportedMethod value))"

definition aggregate_by :: "CombineMethod \<Rightarrow> pyfloat list \<Rightarrow> pyfloat \<Rightarrow> pyfloat \<Rightarrow> pyfloat \<times> bool" where
  "aggregate_by method scores weighted_mean threshold =
     (case method of
        M_weighted \<Rightarrow> (weighted_mean, threshold \<le> weighted_mean)
      | M_all \<Rightarrow> (Min (set scores), list_all (\<lambda>s. threshold \<le> s) scores)
      | M_any \<Rightarrow> (Max (set scores), list_ex (\<lambda>s. threshold \<le> s) scores))"

definition combine_by_method ::
    "pyval \<Rightarrow> (pystr, pyfloat) dict \<Rightarrow> pyfloat \<Rightarrow> pyfloat \<Rightarrow> fold_error + (pyfloat \<times> bool)" where
  "combine_by_method method component_scores weighted_mean threshold =
     bind_res (validate_combine_method method) (\<lambda>aggregation.
       if component_scores = [] then Inl NoComponentScores
       else Inr (aggregate_by aggregation (map snd component_scores) weighted_mean threshold))"

section \<open>Weights\<close>

datatype uncounted_clause =
    ProducedNoVerdict "pystr list"
  | WeightsSumToZero "(pystr \<times> pyfloat) list"
  | WeightsNameNothingConfigured "pystr list"

datatype fold_reason =
    NothingAsked
  | DeclaredButUnscored "pystr list"
  | NothingCounted "uncounted_clause list"

record FoldedGrade =
  fg_score :: pyfloat
  fg_binary_pass :: bool
  fg_reason :: "fold_reason option"
  fg_refusal :: bool

definition require_component_weight :: "pystr \<Rightarrow> (pystr, pyfloat) dict \<Rightarrow> fold_error + pyfloat" where
  "require_component_weight name weights =
     (case map_of weights name of None \<Rightarrow> Inl (MissingComponentWeight name) | Some w \<Rightarrow> Inr w)"

definition weight_at :: "(pystr, pyfloat) dict \<Rightarrow> pystr \<Rightarrow> fold_error + pyfloat" where
  "weight_at weights name = (case map_of weights name of None \<Rightarrow> Inl (WeightKeyError name) | Some w \<Rightarrow> Inr w)"

definition carries_no_weight :: "pystr list \<Rightarrow> (pystr, pyfloat) dict \<Rightarrow> CombineMethod \<Rightarrow> fold_error + bool" where
  "carries_no_weight scored weights method =
     (if scored = [] then Inr True
      else if method \<noteq> M_weighted then Inr False
      else bind_res (traverse (weight_at weights) scored) (\<lambda>ws. Inr (sum_list ws = 0)))"

definition unevaluated_names :: "pystr list \<Rightarrow> pystr list \<Rightarrow> pystr list" where
  "unevaluated_names requested scored = sort (filter (\<lambda>n. n \<notin> set scored) (remdups requested))"

definition why_nothing_counted ::
    "pystr list \<Rightarrow> pystr list \<Rightarrow> (pystr, pyfloat) dict \<Rightarrow> fold_error + uncounted_clause list" where
  "why_nothing_counted scored requested weights =
     (let unevaluated = unevaluated_names requested scored;
          missing = (if unevaluated \<noteq> [] then [ProducedNoVerdict unevaluated] else []);
          unconfigured = (if requested = [] then [WeightsNameNothingConfigured (sort (map fst weights))] else [])
      in if scored \<noteq> [] then
           bind_res (traverse (\<lambda>n. bind_res (weight_at weights n) (\<lambda>w. Inr (n, w))) (sort scored)) (\<lambda>shares.
             Inr (missing @ [WeightsSumToZero shares] @ unconfigured))
         else Inr (missing @ unconfigured))"

definition resolve_uncounted_fold ::
    "pystr list \<Rightarrow> pystr list \<Rightarrow> (pystr, pyfloat) dict \<Rightarrow> CombineMethod \<Rightarrow> fold_error + FoldedGrade option" where
  "resolve_uncounted_fold scored requested weights method =
     (if requested = [] \<and> weights = [] then
        Inr (Some \<lparr>fg_score = 1, fg_binary_pass = True, fg_reason = Some NothingAsked, fg_refusal = False\<rparr>)
      else if unevaluated_names requested scored \<noteq> [] then
        Inr (Some \<lparr>fg_score = 0, fg_binary_pass = False,
                  fg_reason = Some (DeclaredButUnscored (unevaluated_names requested scored)), fg_refusal = True\<rparr>)
      else bind_res (carries_no_weight scored weights method) (\<lambda>none.
        if \<not> none then Inr None
        else bind_res (why_nothing_counted scored requested weights) (\<lambda>clauses.
          Inr (Some \<lparr>fg_score = 0, fg_binary_pass = False, fg_reason = Some (NothingCounted clauses),
                    fg_refusal = True\<rparr>))))"

section \<open>Components\<close>

record GradeComponentSpec =
  gs_name :: pystr
  gs_config_section :: pystr
  gs_core_field :: pystr
  gs_runner_score_field :: "pystr option"
  gs_opt_in :: bool  \<comment> \<open>the component has an opt-in gate\<close>

definition GRADE_COMPONENTS :: "GradeComponentSpec list" where
  "GRADE_COMPONENTS =
     [\<lparr>gs_name = ''state_checks'', gs_config_section = ''state_checks'', gs_core_field = ''state_checks'',
       gs_runner_score_field = None, gs_opt_in = False\<rparr>,
      \<lparr>gs_name = ''transcript_rules'', gs_config_section = ''transcript_rules'', gs_core_field = ''transcript_rules'',
       gs_runner_score_field = Some ''transcript_score'', gs_opt_in = False\<rparr>,
      \<lparr>gs_name = ''trace_checks'', gs_config_section = ''trace_checks'', gs_core_field = ''trace_checks'',
       gs_runner_score_field = Some ''trace_checks_score'', gs_opt_in = False\<rparr>,
      \<lparr>gs_name = ''llm_judge'', gs_config_section = ''llm_judge'', gs_core_field = ''llm_judge'',
       gs_runner_score_field = Some ''llm_judge_score'', gs_opt_in = False\<rparr>,
      \<lparr>gs_name = ''custom_checks'', gs_config_section = ''custom_checks'', gs_core_field = ''custom_checks'',
       gs_runner_score_field = Some ''custom_checks_score'', gs_opt_in = True\<rparr>]"

type_synonym custom_reader = "(pystr \<times> pyval) list \<Rightarrow> bool option"

definition custom_checks_enabled :: "custom_reader \<Rightarrow> pyval \<Rightarrow> fold_error + bool" where
  "custom_checks_enabled custom section =
     (case section of
        VDict d \<Rightarrow> if d = [] then Inr False
                  else (case custom d of None \<Rightarrow> Inl InvalidCustomChecks | Some b \<Rightarrow> Inr b)
      | _ \<Rightarrow> Inr False)"

definition component_requested :: "custom_reader \<Rightarrow> GradeComponentSpec \<Rightarrow> pyval \<Rightarrow> fold_error + bool" where
  "component_requested custom spec section =
     (if \<not> gs_opt_in spec then Inr (section \<noteq> VNone) else custom_checks_enabled custom section)"

text \<open>The grading configuration both folds read; a section that is not there reads as \<^verbatim>\<open>None\<close>.\<close>

record FoldConfig =
  fc_method :: pyval
  fc_weights :: "(pystr, pyfloat) dict"
  fc_threshold :: pyfloat
  fc_hash_weight :: "pyfloat option"
  fc_sections :: "(pystr, pyval) dict"

definition section_of :: "FoldConfig \<Rightarrow> pystr \<Rightarrow> pyval" where
  "section_of cfg name = (case map_of (fc_sections cfg) name of None \<Rightarrow> VNone | Some v \<Rightarrow> v)"

definition requested_components :: "custom_reader \<Rightarrow> FoldConfig \<Rightarrow> fold_error + pystr list" where
  "requested_components custom cfg =
     bind_res (traverse (\<lambda>spec. bind_res (component_requested custom spec (section_of cfg (gs_config_section spec)))
                          (\<lambda>b. Inr (gs_name spec, b))) GRADE_COMPONENTS)
       (\<lambda>flags. Inr (map fst (filter snd flags)))"

section \<open>The state-check sources\<close>

record StateHashConfig =
  sh_enabled :: bool
  sh_expect_initial_state :: bool
  sh_golden_actions :: pyval
  sh_weight :: "pyfloat option"
  sh_description :: pystr

fun py_true :: "pyval \<Rightarrow> bool" where
  "py_true VNone = False"
| "py_true (VBool b) = b"
| "py_true (VInt i) = (i \<noteq> 0)"
| "py_true (VFloat q) = (q \<noteq> 0)"
| "py_true (VStr s) = (s \<noteq> [])"
| "py_true (VList xs) = (xs \<noteq> [])"
| "py_true (VDict d) = (d \<noteq> [])"

definition RETIRED_HASH_KEYS :: "pystr list" where
  "RETIRED_HASH_KEYS = [''expected_state_hash'']"

definition drop_retired_hash_keys :: "(pystr \<times> pyval) list \<Rightarrow> (pystr \<times> pyval) list" where
  "drop_retired_hash_keys data = filter (\<lambda>(k, v). k \<notin> set RETIRED_HASH_KEYS) data"

definition validate_hash_weight :: "pyval \<Rightarrow> fold_error + pyfloat" where
  "validate_hash_weight value =
     (case value of
        VInt i \<Rightarrow> if 0 \<le> i \<and> i \<le> 1 then Inr (of_int i) else Inl (HashWeightDomain (of_int i))
      | VFloat q \<Rightarrow> if 0 \<le> q \<and> q \<le> 1 then Inr q else Inl (HashWeightDomain q)
      | _ \<Rightarrow> Inl (HashWeightType value))"

definition validate_weight_domain :: "pyval \<Rightarrow> fold_error + pyfloat option" where
  "validate_weight_domain value =
     (if value = VNone then Inr None else bind_res (validate_hash_weight value) (\<lambda>w. Inr (Some w)))"

definition declared_sources :: "StateHashConfig \<Rightarrow> pystr list" where
  "declared_sources h =
     (if py_true (sh_golden_actions h) then [''golden_actions''] else []) @
     (if sh_expect_initial_state h then [''expect_initial_state''] else [])"

definition refuse_a_second_expected_state :: "StateHashConfig \<Rightarrow> fold_error option" where
  "refuse_a_second_expected_state h =
     (case declared_sources h of a # b # _ \<Rightarrow> Some (ConflictingHashSources a b) | _ \<Rightarrow> None)"

definition hash_block_is_a_state_source :: "StateHashConfig option \<Rightarrow> bool" where
  "hash_block_is_a_state_source h =
     (case h of None \<Rightarrow> False | Some b \<Rightarrow> sh_enabled b \<and> declared_sources b \<noteq> [])"

definition resolve_hash_weight :: "StateHashConfig option \<Rightarrow> 'a list \<Rightarrow> fold_error + pyfloat option" where
  "resolve_hash_weight h jsonpaths =
     (let declared = (case h of None \<Rightarrow> None | Some b \<Rightarrow> sh_weight b)
      in bind_res (case declared of None \<Rightarrow> Inr None
                   | Some w \<Rightarrow> bind_res (validate_hash_weight (VFloat w)) (\<lambda>v. Inr (Some v))) (\<lambda>weight.
           if weight = None \<and> hash_block_is_a_state_source h \<and> jsonpaths \<noteq> [] then Inl MissingHashWeight
           else Inr weight))"

definition probes_conflict_with_another_state_source :: "'a list \<Rightarrow> 'b list \<Rightarrow> bool \<Rightarrow> bool" where
  "probes_conflict_with_another_state_source db_probes jsonpaths hash_is_a_state_source =
     (if db_probes = [] then False else jsonpaths \<noteq> [] \<or> hash_is_a_state_source)"

definition refuse_probes_beside_another_state_source ::
    "'a list \<Rightarrow> 'b list \<Rightarrow> StateHashConfig option \<Rightarrow> fold_error option" where
  "refuse_probes_beside_another_state_source db_probes jsonpaths h =
     (if probes_conflict_with_another_state_source db_probes jsonpaths (hash_block_is_a_state_source h)
      then Some ConflictingStateSources else None)"

definition compose_state_checks_score ::
    "pyfloat option \<Rightarrow> pyfloat option \<Rightarrow> pyfloat option \<Rightarrow> fold_error + pyfloat option" where
  "compose_state_checks_score hash_score jsonpath_score hash_weight =
     (case (hash_score, jsonpath_score) of
        (None, j) \<Rightarrow> Inr j
      | (Some h, None) \<Rightarrow> Inr (Some h)
      | (Some h, Some j) \<Rightarrow>
          (case hash_weight of None \<Rightarrow> Inl MissingHashWeight
           | Some w \<Rightarrow> Inr (Some (j * (1 - w) + h * w))))"

definition inert_hash_weight_reason :: "pyfloat option \<Rightarrow> pyfloat option \<Rightarrow> pyfloat option \<Rightarrow> bool" where
  "inert_hash_weight_reason hash_score jsonpath_score hash_weight \<longleftrightarrow>
     hash_weight \<noteq> None \<and> \<not> (hash_score \<noteq> None \<and> jsonpath_score \<noteq> None)"

record StateChecksOutcome =
  so_component :: "pyfloat option"
  so_inert_weight_reason :: bool

definition evaluated :: "pyfloat \<Rightarrow> pyfloat option" where
  "evaluated score = (if score < 0 then None else Some score)"

definition resolve_state_checks_component ::
    "pyfloat \<Rightarrow> pyfloat \<Rightarrow> pyfloat \<Rightarrow> pyfloat option \<Rightarrow> fold_error + StateChecksOutcome" where
  "resolve_state_checks_component hash_score jsonpath_score db_probe_score hash_weight =
     (let hash_source = evaluated hash_score;
          jsonpath_source = evaluated jsonpath_score;
          probes_decide = (0 \<le> db_probe_score)
      in if probes_decide \<and> (hash_source \<noteq> None \<or> jsonpath_source \<noteq> None) then Inl ConflictingStateSources
         else bind_res (if probes_decide then Inr (Some db_probe_score)
                        else compose_state_checks_score hash_source jsonpath_source hash_weight) (\<lambda>component.
                Inr \<lparr>so_component = component,
                     so_inert_weight_reason = inert_hash_weight_reason hash_source jsonpath_source hash_weight\<rparr>))"

section \<open>The runner's fold\<close>

record CompositeGradeComponents =
  gc_hash_match :: "bool option"
  gc_hash_score :: pyfloat
  gc_jsonpath_score :: pyfloat
  gc_jsonpath_reasons :: pystr
  gc_db_probe_score :: pyfloat
  gc_db_probe_reasons :: pystr
  gc_transcript_pass :: "bool option"
  gc_transcript_score :: pyfloat
  gc_trace_checks_score :: pyfloat
  gc_llm_judge_score :: pyfloat
  gc_llm_judge_reasons :: pystr
  gc_custom_checks_score :: pyfloat

definition no_components :: CompositeGradeComponents where
  "no_components = \<lparr>gc_hash_match = None, gc_hash_score = -1, gc_jsonpath_score = -1, gc_jsonpath_reasons = [],
     gc_db_probe_score = -1, gc_db_probe_reasons = [], gc_transcript_pass = None, gc_transcript_score = -1,
     gc_trace_checks_score = -1, gc_llm_judge_score = -1, gc_llm_judge_reasons = [], gc_custom_checks_score = -1\<rparr>"

text \<open>\<^verbatim>\<open>components.get(field, -1.0)\<close> for the score fields of the registry.\<close>

definition score_field :: "CompositeGradeComponents \<Rightarrow> pystr \<Rightarrow> pyfloat" where
  "score_field c field =
     (if field = ''transcript_score'' then gc_transcript_score c
      else if field = ''trace_checks_score'' then gc_trace_checks_score c
      else if field = ''llm_judge_score'' then gc_llm_judge_score c
      else if field = ''custom_checks_score'' then gc_custom_checks_score c
      else -1)"

definition active_components :: "CompositeGradeComponents \<Rightarrow> pyfloat option \<Rightarrow> (pystr, pyfloat) dict" where
  "active_components c state =
     (case state of None \<Rightarrow> [] | Some s \<Rightarrow> [(''state_checks'', s)]) @
     concat (map (\<lambda>spec. case gs_runner_score_field spec of
                           None \<Rightarrow> []
                         | Some field \<Rightarrow> (if 0 \<le> score_field c field then [(gs_name spec, score_field c field)] else []))
       GRADE_COMPONENTS)"

definition weighted_mean_of :: "(pystr, pyfloat) dict \<Rightarrow> pyfloat list \<Rightarrow> pyfloat" where
  "weighted_mean_of scores shares =
     (let total_weight = sum_list shares;
          weighted_sum = sum_list (map2 (\<lambda>(n, s) w. s * w) scores shares)
      in if total_weight \<noteq> 0 then weighted_sum / total_weight else 0)"

text \<open>The tail of the runner's fold: shares, the uncounted rule, then the mean and the aggregation.\<close>

definition fold_scored ::
    "pyval \<Rightarrow> CombineMethod \<Rightarrow> (pystr, pyfloat) dict \<Rightarrow> pyfloat \<Rightarrow> (fold_error + pystr list) \<Rightarrow> (pystr, pyfloat) dict \<Rightarrow>
     fold_error + FoldedGrade" where
  "fold_scored method aggregation weights threshold requested scores =
     bind_res (traverse (\<lambda>n. require_component_weight n weights) (map fst scores)) (\<lambda>shares.
     bind_res requested (\<lambda>asked.
     bind_res (resolve_uncounted_fold (map fst scores) asked weights aggregation) (\<lambda>uncounted.
       case uncounted of
         Some g \<Rightarrow> Inr g
       | None \<Rightarrow> bind_res (combine_by_method method scores (weighted_mean_of scores shares) threshold) (\<lambda>(score, pass).
           Inr \<lparr>fg_score = score, fg_binary_pass = pass, fg_reason = None, fg_refusal = False\<rparr>))))"

definition combine_grade_components ::
    "custom_reader \<Rightarrow> CompositeGradeComponents \<Rightarrow> FoldConfig \<Rightarrow> fold_error + FoldedGrade" where
  "combine_grade_components custom c cfg =
     bind_res (validate_combine_method (fc_method cfg)) (\<lambda>aggregation.
     bind_res (resolve_state_checks_component (gc_hash_score c) (gc_jsonpath_score c) (gc_db_probe_score c)
                 (fc_hash_weight cfg)) (\<lambda>slot.
       fold_scored (fc_method cfg) aggregation (fc_weights cfg) (fc_threshold cfg) (requested_components custom cfg)
         (active_components c (so_component slot))))"

record TrialVerdict =
  tv_judge_component :: pyfloat
  tv_score :: pyfloat
  tv_binary_pass :: bool
  tv_reason :: "fold_reason option"
  tv_refusal :: bool

definition compose_trial_verdict ::
    "custom_reader \<Rightarrow> CompositeGradeComponents \<Rightarrow> FoldConfig \<Rightarrow> bool \<Rightarrow> bool \<Rightarrow> fold_error + TrialVerdict" where
  "compose_trial_verdict custom c cfg judge_gate_failed trace_gate_failed =
     (let folded = (if judge_gate_failed then c\<lparr>gc_llm_judge_score := 0\<rparr> else c)
      in bind_res (combine_grade_components custom folded cfg) (\<lambda>combined.
           Inr \<lparr>tv_judge_component = gc_llm_judge_score folded, tv_score = fg_score combined,
                tv_binary_pass = (fg_binary_pass combined \<and> \<not> (judge_gate_failed \<or> trace_gate_failed)),
                tv_reason = fg_reason combined, tv_refusal = fg_refusal combined\<rparr>))"

section \<open>The core engine's fold\<close>

text \<open>The core substrate holds one optional score per component, by its core field.\<close>

definition core_scores :: "(pystr, pyfloat option) dict \<Rightarrow> (pystr, pyfloat) dict" where
  "core_scores components =
     concat (map (\<lambda>spec. case map_of components (gs_core_field spec) of
                           Some (Some s) \<Rightarrow> [(gs_name spec, s)] | _ \<Rightarrow> []) GRADE_COMPONENTS)"

text \<open>The shares, by name: \<^verbatim>\<open>{name: require_component_weight(name, weights) for name in component_scores}\<close>.\<close>

definition core_shares :: "(pystr, pyfloat) dict \<Rightarrow> (pystr, pyfloat) dict \<Rightarrow> fold_error + (pystr, pyfloat) dict" where
  "core_shares weights component_scores =
     traverse (\<lambda>name. bind_res (require_component_weight name weights) (\<lambda>w. Inr (name, w))) (map fst component_scores)"

text \<open>The core engine's own mean; it looks every share up by the component's name.\<close>

definition core_weighted_mean :: "(pystr, pyfloat) dict \<Rightarrow> (pystr, pyfloat) dict \<Rightarrow> fold_error + pyfloat" where
  "core_weighted_mean component_scores shares =
     (let total_weight = sum_list (map snd shares)
      in if total_weight = 0 then Inr 0
         else bind_res (traverse (\<lambda>(name, score). bind_res (weight_at shares name) (\<lambda>w. Inr (score * w))) component_scores)
                (\<lambda>products. Inr (sum_list products / total_weight)))"

definition core_requested_components :: "custom_reader \<Rightarrow> FoldConfig \<Rightarrow> fold_error + pystr list" where
  "core_requested_components custom config =
     bind_res (traverse (\<lambda>spec. bind_res (component_requested custom spec (section_of config (gs_config_section spec)))
                          (\<lambda>requested. Inr (if requested then [gs_name spec] else []))) GRADE_COMPONENTS)
       (\<lambda>names. Inr (concat names))"

definition core_combine ::
    "custom_reader \<Rightarrow> (pystr, pyfloat option) dict \<Rightarrow> CombineMethod \<Rightarrow> FoldConfig \<Rightarrow> fold_error + FoldedGrade" where
  "core_combine custom components aggregation cfg =
     (let component_scores = core_scores components
      in bind_res (core_shares (fc_weights cfg) component_scores) (\<lambda>shares.
         bind_res (core_requested_components custom cfg) (\<lambda>requested.
         bind_res (resolve_uncounted_fold (map fst component_scores) requested (fc_weights cfg) aggregation) (\<lambda>uncounted.
           case uncounted of
             Some folded \<Rightarrow> Inr folded
           | None \<Rightarrow> bind_res (core_weighted_mean component_scores shares) (\<lambda>weighted_mean.
                bind_res (combine_by_method (fc_method cfg) component_scores weighted_mean (fc_threshold cfg)) (\<lambda>(score, pass).
                  Inr \<lparr>fg_score = score, fg_binary_pass = pass, fg_reason = None, fg_refusal = False\<rparr>))))))"

text \<open>
  The end of \<^verbatim>\<open>grade_trajectory\<close>, on components that are scored: the fold, then the gate of the trace block.  A
  configuration whose method is not supported was refused when it was constructed.
\<close>

definition core_grade ::
    "custom_reader \<Rightarrow> (pystr, pyfloat option) dict \<Rightarrow> bool \<Rightarrow> FoldConfig \<Rightarrow> fold_error + FoldedGrade" where
  "core_grade custom components trace_gate_failed cfg =
     bind_res (validate_combine_method (fc_method cfg)) (\<lambda>aggregation.
     bind_res (core_combine custom components aggregation cfg) (\<lambda>folded.
       Inr (if trace_gate_failed then folded\<lparr>fg_binary_pass := False\<rparr> else folded)))"

section \<open>The shares of the scored components\<close>

lemma require_component_weight_Inr [simp]: "require_component_weight n ws = Inr w \<longleftrightarrow> map_of ws n = Some w"
  by (simp add: require_component_weight_def split: option.splits)

lemma weight_at_Inr [simp]: "weight_at ws n = Inr w \<longleftrightarrow> map_of ws n = Some w"
  by (simp add: weight_at_def split: option.splits)

lemma shares_Inr:
  "traverse (\<lambda>n. require_component_weight n ws) ns = Inr shares \<longleftrightarrow>
   set ns \<subseteq> dom (map_of ws) \<and> shares = map (\<lambda>n. the (map_of ws n)) ns"
proof (induction ns arbitrary: shares)
  case Nil
  then show ?case by auto
next
  case (Cons n ns)
  then show ?case by (cases "map_of ws n") (auto simp: bind_res_eq_Inr_iff)
qed

lemma weights_at_total:
  assumes "set ns \<subseteq> dom (map_of ws)"
  shows "traverse (weight_at ws) ns = Inr (map (\<lambda>n. the (map_of ws n)) ns)"
  using assms by (intro traverse_total) (auto simp: weight_at_def)

lemma shares_listed_total:
  assumes "set ns \<subseteq> dom (map_of ws)"
  shows "traverse (\<lambda>n. bind_res (weight_at ws n) (\<lambda>w. Inr (n, w))) (sort ns) =
           Inr (map (\<lambda>n. (n, the (map_of ws n))) (sort ns))"
  using assms by (intro traverse_total) (auto simp: weight_at_def)

lemma set_unevaluated [simp]: "set (unevaluated_names asked scored) = set asked - set scored"
  by (auto simp: unevaluated_names_def)

lemma unevaluated_Nil [simp]: "unevaluated_names asked scored = [] \<longleftrightarrow> set asked \<subseteq> set scored"
  using set_unevaluated [of asked scored] by (metis Diff_eq_empty_iff set_empty)

lemma weighted_mean_alt:
  "weighted_mean_of scores (map f (map fst scores)) =
     (let total = sum_list (map (\<lambda>p. f (fst p)) scores)
      in if total \<noteq> 0 then sum_list (map (\<lambda>p. snd p * f (fst p)) scores) / total else 0)"
proof -
  have "map2 (\<lambda>(n, s) w. s * w) scores (map f (map fst scores)) = map (\<lambda>p. snd p * f (fst p)) scores"
    by (induction scores) (auto simp: case_prod_beta)
  then show ?thesis by (simp add: weighted_mean_of_def Let_def comp_def)
qed

section \<open>What a fold answers\<close>

definition refused_grade :: "fold_reason \<Rightarrow> FoldedGrade" where
  "refused_grade r = \<lparr>fg_score = 0, fg_binary_pass = False, fg_reason = Some r, fg_refusal = True\<rparr>"

definition free_pass :: FoldedGrade where
  "free_pass = \<lparr>fg_score = 1, fg_binary_pass = True, fg_reason = Some NothingAsked, fg_refusal = False\<rparr>"

definition aggregated :: "pyfloat \<times> bool \<Rightarrow> FoldedGrade" where
  "aggregated v = \<lparr>fg_score = fst v, fg_binary_pass = snd v, fg_reason = None, fg_refusal = False\<rparr>"

definition counted_nothing :: "CombineMethod \<Rightarrow> (pystr, pyfloat) dict \<Rightarrow> (pystr, pyfloat) dict \<Rightarrow> bool" where
  "counted_nothing agg ws scores \<longleftrightarrow>
     scores = [] \<or> (agg = M_weighted \<and> sum_list (map (\<lambda>p. the (map_of ws (fst p))) scores) = 0)"

definition uncounted_clauses :: "pystr list \<Rightarrow> (pystr, pyfloat) dict \<Rightarrow> (pystr, pyfloat) dict \<Rightarrow> uncounted_clause list" where
  "uncounted_clauses asked ws scores =
     (if scores = [] then []
      else [WeightsSumToZero (map (\<lambda>n. (n, the (map_of ws n))) (sort (map fst scores)))]) @
     (if asked = [] then [WeightsNameNothingConfigured (sort (map fst ws))] else [])"

text \<open>The contract of a fold: the first of four answers whose condition holds.\<close>

definition fold_verdict ::
    "CombineMethod \<Rightarrow> (pystr, pyfloat) dict \<Rightarrow> pyfloat \<Rightarrow> pystr list \<Rightarrow> (pystr, pyfloat) dict \<Rightarrow> FoldedGrade" where
  "fold_verdict agg ws threshold asked scores =
     (if asked = [] \<and> ws = [] then free_pass
      else if \<not> set asked \<subseteq> fst ` set scores then
        refused_grade (DeclaredButUnscored (unevaluated_names asked (map fst scores)))
      else if counted_nothing agg ws scores then refused_grade (NothingCounted (uncounted_clauses asked ws scores))
      else aggregated (aggregate_by agg (map snd scores)
             (sum_list (map (\<lambda>p. snd p * the (map_of ws (fst p))) scores) /
              sum_list (map (\<lambda>p. the (map_of ws (fst p))) scores)) threshold))"

lemma carries_no_weight_total:
  assumes "fst ` set scores \<subseteq> dom (map_of ws)"
  shows "carries_no_weight (map fst scores) ws agg = Inr (counted_nothing agg ws scores)"
  using weights_at_total [of "map fst scores" ws] assms
  by (auto simp: carries_no_weight_def counted_nothing_def comp_def)

lemma why_nothing_counted_total:
  assumes "fst ` set scores \<subseteq> dom (map_of ws)" and "set asked \<subseteq> fst ` set scores"
  shows "why_nothing_counted (map fst scores) asked ws = Inr (uncounted_clauses asked ws scores)"
  using shares_listed_total [of "map fst scores" ws] assms
  by (cases asked) (auto simp: why_nothing_counted_def uncounted_clauses_def Let_def comp_def)

lemma resolve_uncounted_total:
  assumes "fst ` set scores \<subseteq> dom (map_of ws)"
  shows "resolve_uncounted_fold (map fst scores) asked ws agg =
     Inr (if asked = [] \<and> ws = [] then Some free_pass
          else if \<not> set asked \<subseteq> fst ` set scores then
            Some (refused_grade (DeclaredButUnscored (unevaluated_names asked (map fst scores))))
          else if counted_nothing agg ws scores then Some (refused_grade (NothingCounted (uncounted_clauses asked ws scores)))
          else None)"
  using assms
  by (simp add: resolve_uncounted_fold_def carries_no_weight_total why_nothing_counted_total free_pass_def
      refused_grade_def)

lemma fold_scored_Inr:
  assumes supported: "validate_combine_method m = Inr agg"
    and known: "fst ` set scores \<subseteq> dom (map_of ws)"
  shows "fold_scored m agg ws threshold (Inr asked) scores = Inr (fold_verdict agg ws threshold asked scores)"
proof -
  let ?f = "\<lambda>n. the (map_of ws n)"
  have shares: "traverse (\<lambda>n. require_component_weight n ws) (map fst scores) = Inr (map ?f (map fst scores))"
    using shares_Inr [of ws "map fst scores"] known by auto
  have agg: "aggregate_by agg ss (weighted_mean_of scores (map ?f (map fst scores))) threshold =
      aggregate_by agg ss (sum_list (map (\<lambda>p. snd p * ?f (fst p)) scores) / sum_list (map (\<lambda>p. ?f (fst p)) scores)) threshold"
    if "\<not> counted_nothing agg ws scores" for ss
    unfolding weighted_mean_alt Let_def
    using that by (cases agg) (simp_all add: counted_nothing_def aggregate_by_def)
  have "scores \<noteq> []" if "\<not> counted_nothing agg ws scores" using that by (simp add: counted_nothing_def)
  then show ?thesis
    unfolding fold_scored_def shares bind_res_simps resolve_uncounted_total [OF known]
    using agg supported by (simp add: fold_verdict_def combine_by_method_def aggregated_def case_prod_beta)
qed

lemma fold_scored_known:
  assumes "fold_scored m agg ws threshold requested scores = Inr g"
  shows "fst ` set scores \<subseteq> dom (map_of ws)" and "\<exists>asked. requested = Inr asked"
proof -
  obtain shares where "traverse (\<lambda>n. require_component_weight n ws) (map fst scores) = Inr shares"
    using assms by (auto simp: fold_scored_def bind_res_eq_Inr_iff)
  then show "fst ` set scores \<subseteq> dom (map_of ws)" using shares_Inr [of ws "map fst scores" shares] by simp
  show "\<exists>asked. requested = Inr asked"
    using assms by (auto simp: fold_scored_def bind_res_eq_Inr_iff)
qed

lemma validate_names [simp]:
  "validate_combine_method (VStr ''weighted'') = Inr M_weighted"
  "validate_combine_method (VStr ''all'') = Inr M_all"
  "validate_combine_method (VStr ''any'') = Inr M_any"
  by (simp_all add: validate_combine_method_def COMBINE_METHODS_def)

text \<open>Every verdict lies between the bounds of the scores it aggregates.\<close>

lemma aggregate_bounds:
  assumes "scores \<noteq> []" and "\<And>s. s \<in> set scores \<Longrightarrow> lo \<le> s \<and> s \<le> hi" and "agg = M_weighted \<Longrightarrow> lo \<le> m \<and> m \<le> hi"
  shows "lo \<le> fst (aggregate_by agg scores m threshold) \<and> fst (aggregate_by agg scores m threshold) \<le> hi"
  using assms(2) [of "Min (set scores)"] assms(2) [of "Max (set scores)"] assms(1,3)
  by (cases agg) (simp_all add: aggregate_by_def)

lemma known_weight_nonneg:
  assumes "fst ` set scores \<subseteq> dom (map_of ws)" and "\<And>w. w \<in> snd ` set ws \<Longrightarrow> (0 :: rat) \<le> w" and "p \<in> set scores"
  shows "0 \<le> the (map_of ws (fst p))"
proof -
  have "fst p \<in> dom (map_of ws)" using assms(1,3) by blast
  then obtain w where "map_of ws (fst p) = Some w" by blast
  then show ?thesis using map_of_SomeD [of ws "fst p" w] assms(2) [of w] by force
qed

lemma fold_verdict_bounds:
  assumes known: "fst ` set scores \<subseteq> dom (map_of ws)"
    and nonneg: "\<And>w. w \<in> snd ` set ws \<Longrightarrow> 0 \<le> w"
    and unit: "\<And>s. s \<in> snd ` set scores \<Longrightarrow> 0 \<le> s \<and> s \<le> 1"
  shows "0 \<le> fg_score (fold_verdict agg ws threshold asked scores) \<and>
         fg_score (fold_verdict agg ws threshold asked scores) \<le> 1"
proof (cases "counted_nothing agg ws scores")
  case True
  then show ?thesis by (simp add: fold_verdict_def free_pass_def refused_grade_def)
next
  case False
  let ?w = "\<lambda>p. the (map_of ws (fst p))"
  let ?m = "sum_list (map (\<lambda>p. snd p * ?w p) scores) / sum_list (map ?w scores)"
  have "0 \<le> ?w p" if "p \<in> set scores" for p using known_weight_nonneg [OF known nonneg that] .
  then have m: "0 \<le> ?m \<and> ?m \<le> 1" if "agg = M_weighted"
    using weighted_mean_bounds [of scores ?w 0 snd 1] unit False that by (simp add: counted_nothing_def)
  have ne: "map snd scores \<noteq> []" using False by (simp add: counted_nothing_def)
  have "0 \<le> fst (aggregate_by agg (map snd scores) ?m threshold) \<and> fst (aggregate_by agg (map snd scores) ?m threshold) \<le> 1"
    by (rule aggregate_bounds [OF ne]) (use unit m in auto)
  then show ?thesis by (simp add: fold_verdict_def free_pass_def refused_grade_def aggregated_def)
qed

lemma fold_verdict_refusal:
  "fg_refusal (fold_verdict agg ws threshold asked scores) \<longleftrightarrow>
   \<not> (asked = [] \<and> ws = []) \<and> (\<not> set asked \<subseteq> fst ` set scores \<or> counted_nothing agg ws scores)"
  by (simp add: fold_verdict_def free_pass_def refused_grade_def aggregated_def)

lemma fold_verdict_reason:
  "fg_reason (fold_verdict agg ws threshold asked scores) = None \<longleftrightarrow>
   \<not> (asked = [] \<and> ws = []) \<and> \<not> fg_refusal (fold_verdict agg ws threshold asked scores)"
  by (simp add: fold_verdict_def free_pass_def refused_grade_def aggregated_def)

lemma uncounted_clauses_ne:
  assumes "set asked \<subseteq> fst ` set scores"
  shows "uncounted_clauses asked ws scores \<noteq> []"
  using assms by (cases asked) (auto simp: uncounted_clauses_def)

text \<open>Lowering scores never raises a verdict.\<close>

definition scores_le :: "(pystr, pyfloat) dict \<Rightarrow> (pystr, pyfloat) dict \<Rightarrow> bool" where
  "scores_le lower upper \<longleftrightarrow> list_all2 (\<lambda>p q. fst p = fst q \<and> snd p \<le> snd q) lower upper"

lemma scores_le_names: "scores_le lower upper \<Longrightarrow> map fst lower = map fst upper"
  unfolding scores_le_def by (induction rule: list_all2_induct) auto

lemma scores_le_Nil: "scores_le lower upper \<Longrightarrow> lower = [] \<longleftrightarrow> upper = []"
  by (auto simp: scores_le_def)

lemma scores_le_weights: "scores_le lower upper \<Longrightarrow> map (\<lambda>p. f (fst p)) lower = map (\<lambda>p. f (fst p)) upper"
  using scores_le_names by (metis (no_types, lifting) list.map_comp comp_apply map_eq_conv)

lemma scores_le_sum:
  assumes "scores_le lower upper" and "\<And>p. p \<in> set upper \<Longrightarrow> 0 \<le> f (fst p)"
  shows "sum_list (map (\<lambda>p. snd p * f (fst p)) lower) \<le> sum_list (map (\<lambda>p. snd p * f (fst p)) upper)"
  using assms unfolding scores_le_def
  by (induction rule: list_all2_induct) (auto intro: add_mono mult_right_mono)

lemma scores_le_down:
  assumes "scores_le lower upper" and "q \<in> snd ` set upper"
  shows "\<exists>p \<in> snd ` set lower. p \<le> q"
  using assms unfolding scores_le_def by (induction rule: list_all2_induct) auto

lemma scores_le_up:
  assumes "scores_le lower upper" and "p \<in> snd ` set lower"
  shows "\<exists>q \<in> snd ` set upper. p \<le> q"
  using assms unfolding scores_le_def by (induction rule: list_all2_induct) auto

lemma aggregate_mono:
  assumes le: "scores_le lower upper" and ne: "upper \<noteq> []" and m: "agg = M_weighted \<Longrightarrow> ml \<le> mu"
  shows "fst (aggregate_by agg (map snd lower) ml threshold) \<le> fst (aggregate_by agg (map snd upper) mu threshold)"
    and "snd (aggregate_by agg (map snd lower) ml threshold) \<Longrightarrow> snd (aggregate_by agg (map snd upper) mu threshold)"
proof -
  have ne': "lower \<noteq> []" using ne scores_le_Nil [OF le] by simp
  show "fst (aggregate_by agg (map snd lower) ml threshold) \<le> fst (aggregate_by agg (map snd upper) mu threshold)"
  proof (cases agg)
    case M_weighted
    then show ?thesis using m by (simp add: aggregate_by_def)
  next
    case M_all
    have "Min (snd ` set lower) \<le> Min (snd ` set upper)"
      using ne ne' scores_le_down [OF le] by (simp add: Min_le_iff)
    then show ?thesis using M_all by (simp add: aggregate_by_def)
  next
    case M_any
    have "Max (snd ` set lower) \<le> Max (snd ` set upper)"
      using ne ne' scores_le_up [OF le, of "Max (snd ` set lower)"] by (simp add: Max_ge_iff)
    then show ?thesis using M_any by (simp add: aggregate_by_def)
  qed
  show "snd (aggregate_by agg (map snd upper) mu threshold)" if "snd (aggregate_by agg (map snd lower) ml threshold)"
  proof (cases agg)
    case M_weighted
    then show ?thesis using that m by (simp add: aggregate_by_def)
  next
    case M_all
    then have all: "threshold \<le> p" if "p \<in> snd ` set lower" for p
      using \<open>snd (aggregate_by agg (map snd lower) ml threshold)\<close> that by (auto simp: aggregate_by_def list_all_iff)
    have "threshold \<le> q" if q: "q \<in> snd ` set upper" for q
    proof -
      obtain p where "p \<in> snd ` set lower" "p \<le> q" using scores_le_down [OF le q] by blast
      then show ?thesis using all [of p] by linarith
    qed
    then show ?thesis using M_all by (simp add: aggregate_by_def list_all_iff)
  next
    case M_any
    then obtain p where p: "p \<in> snd ` set lower" "threshold \<le> p"
      using \<open>snd (aggregate_by agg (map snd lower) ml threshold)\<close> by (auto simp: aggregate_by_def list_ex_iff)
    obtain q where "q \<in> snd ` set upper" "p \<le> q" using scores_le_up [OF le p(1)] by blast
    then have "\<exists>q \<in> snd ` set upper. threshold \<le> q" using p(2) order_trans [of threshold p q] by blast
    then show ?thesis using M_any by (simp add: aggregate_by_def list_ex_iff)
  qed
qed

lemma fold_verdict_mono:
  assumes le: "scores_le lower upper" and known: "fst ` set upper \<subseteq> dom (map_of ws)"
    and nonneg: "\<And>w. w \<in> snd ` set ws \<Longrightarrow> 0 \<le> w"
  shows "fg_score (fold_verdict agg ws threshold asked lower) \<le> fg_score (fold_verdict agg ws threshold asked upper)"
    and "fg_binary_pass (fold_verdict agg ws threshold asked lower) \<Longrightarrow> fg_binary_pass (fold_verdict agg ws threshold asked upper)"
proof -
  let ?f = "\<lambda>n. the (map_of ws n)"
  have w: "map (\<lambda>p. ?f (fst p)) lower = map (\<lambda>p. ?f (fst p)) upper" using scores_le_weights [OF le] .
  have names: "fst ` set lower = fst ` set upper" using scores_le_names [OF le] by (metis set_map)
  have counted: "counted_nothing agg ws lower \<longleftrightarrow> counted_nothing agg ws upper"
    using w scores_le_Nil [OF le] by (simp add: counted_nothing_def)
  let ?t = "sum_list (map (\<lambda>p. ?f (fst p)) upper)"
  have nn: "0 \<le> ?f (fst p)" if "p \<in> set upper" for p using known_weight_nonneg [OF known nonneg that] .
  have "sum_list (map (\<lambda>p. snd p * ?f (fst p)) lower) / ?t \<le> sum_list (map (\<lambda>p. snd p * ?f (fst p)) upper) / ?t"
    using scores_le_sum [OF le, of ?f] nn sum_list_nonneg_rat [of upper "\<lambda>p. ?f (fst p)"] by (simp add: divide_right_mono)
  note m = aggregate_mono [OF le _ this, of agg threshold]
  have ne: "upper \<noteq> []" if "\<not> counted_nothing agg ws upper" using that by (simp add: counted_nothing_def)
  show "fg_score (fold_verdict agg ws threshold asked lower) \<le> fg_score (fold_verdict agg ws threshold asked upper)"
    using m(1) ne by (simp add: fold_verdict_def counted w names scores_le_names [OF le] free_pass_def refused_grade_def aggregated_def)
  show "fg_binary_pass (fold_verdict agg ws threshold asked upper)"
    if "fg_binary_pass (fold_verdict agg ws threshold asked lower)"
    using that m(2) ne
    by (auto simp: fold_verdict_def counted w names free_pass_def refused_grade_def aggregated_def split: if_splits)
qed

section \<open>The contract the two substrates share\<close>

text \<open>
  A substrate collects the component scores of a trial and folds them.  What it owes is that its
  grade is the shared fold of what it collected, and that what it collects does not depend on the
  method; everything below is proved once for both.
\<close>

locale grading_substrate =
  fixes collect :: "'t \<Rightarrow> FoldConfig \<Rightarrow> fold_error + (pystr, pyfloat) dict"
    and grade :: "custom_reader \<Rightarrow> 't \<Rightarrow> FoldConfig \<Rightarrow> fold_error + FoldedGrade"
  assumes grade_folds:
      "grade custom t cfg =
         bind_res (validate_combine_method (fc_method cfg)) (\<lambda>agg. bind_res (collect t cfg) (\<lambda>scores.
           fold_scored (fc_method cfg) agg (fc_weights cfg) (fc_threshold cfg) (requested_components custom cfg) scores))"
    and collect_method: "collect t (cfg\<lparr>fc_method := m\<rparr>) = collect t cfg"
begin

lemma graded:
  "grade custom t cfg = Inr g \<longleftrightarrow>
   (\<exists>agg scores asked. validate_combine_method (fc_method cfg) = Inr agg \<and> collect t cfg = Inr scores \<and>
      requested_components custom cfg = Inr asked \<and> fst ` set scores \<subseteq> dom (map_of (fc_weights cfg)) \<and>
      g = fold_verdict agg (fc_weights cfg) (fc_threshold cfg) asked scores)"
  (is "?l \<longleftrightarrow> ?r")
proof
  assume ?l
  then obtain agg scores where v: "validate_combine_method (fc_method cfg) = Inr agg" "collect t cfg = Inr scores"
    and f: "fold_scored (fc_method cfg) agg (fc_weights cfg) (fc_threshold cfg) (requested_components custom cfg) scores = Inr g"
    by (auto simp: grade_folds bind_res_eq_Inr_iff)
  obtain asked where a: "requested_components custom cfg = Inr asked" using fold_scored_known(2) [OF f] by blast
  have k: "fst ` set scores \<subseteq> dom (map_of (fc_weights cfg))" using fold_scored_known(1) [OF f] .
  show ?r using v a k f fold_scored_Inr [OF v(1) k, of "fc_threshold cfg" asked] by auto
next
  assume ?r
  then show ?l using fold_scored_Inr by (fastforce simp: grade_folds)
qed

lemma grade_in_unit:
  assumes "grade custom t cfg = Inr g" and "collect t cfg = Inr scores"
    and "\<And>w. w \<in> snd ` set (fc_weights cfg) \<Longrightarrow> 0 \<le> w" and "\<And>s. s \<in> snd ` set scores \<Longrightarrow> 0 \<le> s \<and> s \<le> 1"
  shows "0 \<le> fg_score g \<and> fg_score g \<le> 1"
proof -
  obtain agg asked where k: "fst ` set scores \<subseteq> dom (map_of (fc_weights cfg))"
    and g: "g = fold_verdict agg (fc_weights cfg) (fc_threshold cfg) asked scores"
    using assms(1,2) by (auto simp: graded)
  show ?thesis unfolding g by (rule fold_verdict_bounds [OF k assms(3,4)])
qed

lemma unmeasured_refused:
  assumes "grade custom t cfg = Inr g" and "collect t cfg = Inr scores"
    and "requested_components custom cfg = Inr asked" and "n \<in> set asked" and "n \<notin> fst ` set scores"
  shows "fg_refusal g \<and> fg_score g = 0 \<and> \<not> fg_binary_pass g \<and>
         (\<exists>ns. fg_reason g = Some (DeclaredButUnscored ns) \<and> n \<in> set ns)"
proof -
  obtain agg where "g = fold_verdict agg (fc_weights cfg) (fc_threshold cfg) asked scores"
    using assms(1-3) by (auto simp: graded)
  moreover have "asked \<noteq> []" "\<not> set asked \<subseteq> fst ` set scores" using assms(4,5) by auto
  ultimately show ?thesis using assms(4,5) by (simp add: fold_verdict_def refused_grade_def)
qed

lemma stricter_method:
  assumes all: "grade custom t (cfg\<lparr>fc_method := VStr ''all''\<rparr>) = Inr ga"
    and weighted: "grade custom t (cfg\<lparr>fc_method := VStr ''weighted''\<rparr>) = Inr gw"
    and any: "grade custom t (cfg\<lparr>fc_method := VStr ''any''\<rparr>) = Inr gy"
    and counted: "\<not> fg_refusal gw"
    and nonneg: "\<And>w. w \<in> snd ` set (fc_weights cfg) \<Longrightarrow> 0 \<le> w"
  shows "fg_score ga \<le> fg_score gw \<and> fg_score gw \<le> fg_score gy \<and>
         (fg_binary_pass ga \<longrightarrow> fg_binary_pass gw) \<and> (fg_binary_pass gw \<longrightarrow> fg_binary_pass gy)"
proof -
  let ?ws = "fc_weights cfg" and ?th = "fc_threshold cfg"
  have req: "requested_components custom (cfg\<lparr>fc_method := m\<rparr>) = requested_components custom cfg" for m
    by (simp add: requested_components_def section_of_def)
  obtain scores asked where k: "fst ` set scores \<subseteq> dom (map_of ?ws)"
    and ga: "ga = fold_verdict M_all ?ws ?th asked scores"
    and gw: "gw = fold_verdict M_weighted ?ws ?th asked scores"
    and gy: "gy = fold_verdict M_any ?ws ?th asked scores"
    using all weighted any by (auto simp: graded collect_method req)
  show ?thesis
  proof (cases "asked = [] \<and> ?ws = []")
    case True
    then show ?thesis by (simp add: ga gw gy fold_verdict_def)
  next
    case False
    then have counted': "\<not> counted_nothing M_weighted ?ws scores" and asked: "set asked \<subseteq> fst ` set scores"
      using counted by (auto simp: gw fold_verdict_refusal)
    let ?w = "\<lambda>p. the (map_of ?ws (fst p))"
    let ?m = "sum_list (map (\<lambda>p. snd p * ?w p) scores) / sum_list (map ?w scores)"
    have ne: "scores \<noteq> []" and t: "sum_list (map ?w scores) \<noteq> 0" using counted' by (simp_all add: counted_nothing_def)
    have m: "Min (snd ` set scores) \<le> ?m" "?m \<le> Max (snd ` set scores)"
      using weighted_mean_bounds [of scores ?w "Min (snd ` set scores)" snd "Max (snd ` set scores)", OF _ _ t]
        known_weight_nonneg [OF k nonneg] by simp_all
    have all_min: "(\<forall>s \<in> snd ` set scores. ?th \<le> s) \<longrightarrow> ?th \<le> Min (snd ` set scores)"
      using ne by simp
    have any_max: "?th \<le> Max (snd ` set scores) \<longrightarrow> (\<exists>s \<in> snd ` set scores. ?th \<le> s)"
      using ne by (simp add: Max_ge_iff)
    have "fg_score gy = Max (snd ` set scores) \<and> fg_binary_pass gy = (\<exists>s \<in> snd ` set scores. ?th \<le> s) \<and>
          fg_score ga = Min (snd ` set scores) \<and> fg_binary_pass ga = (\<forall>s \<in> snd ` set scores. ?th \<le> s) \<and>
          fg_score gw = ?m \<and> fg_binary_pass gw = (?th \<le> ?m)"
      unfolding ga gw gy fold_verdict_def if_not_P [OF False]
      using counted' asked ne by (simp add: counted_nothing_def aggregated_def aggregate_by_def list_all_iff list_ex_iff)
    then show ?thesis using m all_min any_max by auto
  qed
qed

end

text \<open>What the runner collects: the state slot, then every component with a score.\<close>

definition runner_scores :: "CompositeGradeComponents \<Rightarrow> FoldConfig \<Rightarrow> fold_error + (pystr, pyfloat) dict" where
  "runner_scores c cfg =
     bind_res (resolve_state_checks_component (gc_hash_score c) (gc_jsonpath_score c) (gc_db_probe_score c)
                 (fc_hash_weight cfg)) (\<lambda>slot. Inr (active_components c (so_component slot)))"

interpretation runner: grading_substrate runner_scores combine_grade_components
  by unfold_locales (simp_all add: runner_scores_def combine_grade_components_def bind_res_assoc)

text \<open>The core engine's copy of the tail is the runner's: its dictionary of shares lists them in the scores' order.\<close>

lemma core_shares_zip:
  "core_shares weights scores =
     bind_res (traverse (\<lambda>n. require_component_weight n weights) (map fst scores)) (\<lambda>ws. Inr (zip (map fst scores) ws))"
  unfolding core_shares_def
proof (induction scores)
  case (Cons p scores)
  then show ?case
    by (cases "require_component_weight (fst p) weights";
        cases "traverse (\<lambda>n. require_component_weight n weights) (map fst scores)")
      (simp_all add: comp_def del: require_component_weight_Inr)
qed simp

lemma core_mean_zip:
  assumes "distinct (map fst scores)" and "length ws = length scores"
  shows "core_weighted_mean scores (zip (map fst scores) ws) = Inr (weighted_mean_of scores ws)"
proof -
  let ?shares = "zip (map fst scores) ws"
  have at: "map_of ?shares (fst (scores ! i)) = Some (ws ! i)" if "i < length scores" for i
    using that assms map_of_zip_nth [of "map fst scores" ws i] by simp
  let ?g = "\<lambda>(name, score). score * the (map_of ?shares name)"
  have "traverse (\<lambda>(name, score). bind_res (weight_at ?shares name) (\<lambda>w. Inr (score * w))) scores = Inr (map ?g scores)"
  proof (rule traverse_total)
    fix p
    assume "p \<in> set scores"
    then obtain i where "i < length scores" "p = scores ! i" by (auto simp: in_set_conv_nth)
    with at [of i] show "(\<lambda>(name, score). bind_res (weight_at ?shares name) (\<lambda>w. Inr (score * w))) p = Inr (?g p)"
      by (simp add: case_prod_beta weight_at_def)
  qed
  moreover have "map ?g scores = map2 (\<lambda>(n, s) w. s * w) scores ws"
    using at assms(2) by (intro nth_equalityI) (simp_all add: case_prod_beta)
  ultimately show ?thesis
    using assms(2) by (simp add: core_weighted_mean_def weighted_mean_of_def Let_def)
qed

lemma core_requested_same: "core_requested_components custom cfg = requested_components custom cfg"
proof -
  have "bind_res (traverse (\<lambda>x. bind_res (f x) (\<lambda>b. Inr (if b then [g x] else []))) xs) (\<lambda>names. Inr (concat names)) =
      bind_res (traverse (\<lambda>x. bind_res (f x) (\<lambda>b. Inr (g x, b))) xs) (\<lambda>flags. Inr (map fst (filter snd flags)))"
    for f :: "GradeComponentSpec \<Rightarrow> fold_error + bool" and g :: "GradeComponentSpec \<Rightarrow> pystr" and xs
  proof (induction xs)
    case (Cons x xs)
    then show ?case
      by (cases "f x"; cases "traverse (\<lambda>x. bind_res (f x) (\<lambda>b. Inr (if b then [g x] else []))) xs";
          cases "traverse (\<lambda>x. bind_res (f x) (\<lambda>b. Inr (g x, b))) xs") auto
  qed simp
  then show ?thesis by (simp only: core_requested_components_def requested_components_def)
qed

lemma core_scores_distinct: "distinct (map fst (core_scores components))"
proof -
  let ?f = "\<lambda>spec. case map_of components (gs_core_field spec) of Some (Some s) \<Rightarrow> [(gs_name spec, s)] | _ \<Rightarrow> []"
  have names: "fst ` set (concat (map ?f specs)) \<subseteq> gs_name ` set specs" for specs
    by (auto split: option.splits)
  have "distinct (map gs_name specs) \<Longrightarrow> distinct (map fst (concat (map ?f specs)))" for specs
  proof (induction specs)
    case (Cons spec specs)
    then have "gs_name spec \<notin> fst ` set (concat (map ?f specs))" using names [of specs] by auto
    with Cons show ?case by (auto split: option.splits)
  qed simp
  moreover have "distinct (map gs_name GRADE_COMPONENTS)" by (simp add: GRADE_COMPONENTS_def)
  ultimately show ?thesis by (simp only: core_scores_def)
qed

lemma core_combine_fold_scored:
  "core_combine custom components aggregation cfg =
     fold_scored (fc_method cfg) aggregation (fc_weights cfg) (fc_threshold cfg) (requested_components custom cfg)
       (core_scores components)"
proof (cases "traverse (\<lambda>n. require_component_weight n (fc_weights cfg)) (map fst (core_scores components))")
  case (Inl e)
  then show ?thesis by (simp add: core_combine_def core_shares_zip fold_scored_def)
next
  case (Inr ws)
  then have "length ws = length (core_scores components)" using shares_Inr by fastforce
  then show ?thesis
    using Inr core_mean_zip [OF core_scores_distinct]
    by (simp add: core_combine_def core_shares_zip fold_scored_def core_requested_same Let_def)
qed

lemma core_grade_open:
  "core_grade custom components False cfg =
     bind_res (validate_combine_method (fc_method cfg)) (\<lambda>agg. core_combine custom components agg cfg)"
proof -
  have "bind_res x Inr = x" for x :: "fold_error + FoldedGrade" by (cases x) simp_all
  then show ?thesis by (simp add: core_grade_def)
qed

interpretation core: grading_substrate "\<lambda>components cfg. Inr (core_scores components)"
    "\<lambda>custom components. core_grade custom components False"
  by unfold_locales (simp_all add: core_grade_open core_combine_fold_scored)

section \<open>What the runner's fold promises\<close>

lemma evaluated_Some [simp]: "evaluated q = Some s \<longleftrightarrow> 0 \<le> q \<and> s = q"
  by (auto simp: evaluated_def)

lemma evaluated_None [simp]: "evaluated q = None \<longleftrightarrow> q < 0"
  by (simp add: evaluated_def)

lemma state_slot_unit:
  assumes "resolve_state_checks_component h j d weight = Inr slot" and "so_component slot = Some s"
    and "h \<le> 1" and "j \<le> 1" and "d \<le> 1" and "\<And>w. weight = Some w \<Longrightarrow> 0 \<le> w \<and> w \<le> 1"
  shows "0 \<le> s \<and> s \<le> 1"
proof -
  have mix: "0 \<le> j * (1 - w) + h * w \<and> j * (1 - w) + h * w \<le> 1" if "0 \<le> h" "0 \<le> j" "weight = Some w" for w
  proof -
    have w: "0 \<le> w" "w \<le> 1" using assms(6) that(3) by auto
    have "j * (1 - w) \<le> 1 * (1 - w)" "h * w \<le> 1 * w" 
      using w assms(3,4) mult_right_mono [of j 1 "1 - w"] mult_right_mono [of h 1 w] by simp_all
    moreover have "0 \<le> j * (1 - w)" "0 \<le> h * w" using w that(1,2) by simp_all
    ultimately have "0 \<le> j * (1 - w) + h * w" "j * (1 - w) + h * w \<le> 1 * (1 - w) + 1 * w"
      by (blast intro: add_nonneg_nonneg add_mono)+
    then show ?thesis by simp
  qed
  show ?thesis
    using assms mix
    by (auto simp: resolve_state_checks_component_def compose_state_checks_score_def Let_def evaluated_def
        bind_res_eq_Inr_iff split: if_splits option.splits)
qed

definition unit_scores :: "CompositeGradeComponents \<Rightarrow> bool" where
  "unit_scores c \<longleftrightarrow> gc_hash_score c \<le> 1 \<and> gc_jsonpath_score c \<le> 1 \<and> gc_db_probe_score c \<le> 1 \<and>
     gc_transcript_score c \<le> 1 \<and> gc_trace_checks_score c \<le> 1 \<and> gc_llm_judge_score c \<le> 1 \<and>
     gc_custom_checks_score c \<le> 1"

lemma active_scores:
  assumes "p \<in> set (active_components c state)"
  shows "state = Some (snd p) \<or> (\<exists>field. snd p = score_field c field \<and> 0 \<le> snd p)"
  using assms by (auto simp: active_components_def split: option.splits if_splits)

lemma score_field_unit: "unit_scores c \<Longrightarrow> score_field c field \<le> 1"
  by (simp add: unit_scores_def score_field_def)

text \<open>
  A trial's score stays in the unit interval: when every component score that was produced is
  at most one, the declared weights are not negative and the hash weight, where declared, lies in the unit
  interval, the folded score lies between zero and one, by every method and on the refusing paths too.
\<close>
lemma runner_unit:
  assumes fold: "combine_grade_components custom c cfg = Inr g"
    and scores: "unit_scores c"
    and weights: "list_all (\<lambda>p. 0 \<le> snd p) (fc_weights cfg)"
    and hash: "\<And>w. fc_hash_weight cfg = Some w \<Longrightarrow> 0 \<le> w \<and> w \<le> 1"
  shows "0 \<le> fg_score g \<and> fg_score g \<le> 1"
proof -
  obtain scores where s: "runner_scores c cfg = Inr scores" using fold by (auto simp: runner.graded)
  then obtain slot where slot: "resolve_state_checks_component (gc_hash_score c) (gc_jsonpath_score c)
      (gc_db_probe_score c) (fc_hash_weight cfg) = Inr slot" and sc: "scores = active_components c (so_component slot)"
    by (auto simp: runner_scores_def bind_res_eq_Inr_iff)
  have slot_unit: "0 \<le> x \<and> x \<le> 1" if "so_component slot = Some x" for x
    using state_slot_unit [OF slot that] scores hash by (simp add: unit_scores_def)
  have "0 \<le> x \<and> x \<le> 1" if "x \<in> snd ` set scores" for x
    using that active_scores [of _ c "so_component slot"] slot_unit score_field_unit [OF scores] by (force simp: sc)
  then show ?thesis
    using weights by (intro runner.grade_in_unit [OF fold s]) (auto simp: list_all_iff)
qed

text \<open>A pack that scores its state by a hash and file assertions, beside a trace block.\<close>

definition demo_fold_config :: FoldConfig where
  "demo_fold_config = \<lparr>fc_method = VStr ''weighted'',
     fc_weights = [(''state_checks'', 3), (''trace_checks'', 1)], fc_threshold = 1 / 2,
     fc_hash_weight = Some (1 / 4),
     fc_sections = [(''state_checks'', VDict []), (''trace_checks'', VDict [])]\<rparr>"

definition demo_components :: CompositeGradeComponents where
  "demo_components = no_components\<lparr>gc_hash_score := 0, gc_jsonpath_score := 1, gc_trace_checks_score := 1\<rparr>"

definition demo_reader :: custom_reader where
  "demo_reader d = Some False"

lemma demo_fold: "combine_grade_components demo_reader demo_components demo_fold_config =
    Inr \<lparr>fg_score = 13 / 16, fg_binary_pass = True, fg_reason = None, fg_refusal = False\<rparr>"
  by code_simp

text \<open>
  The bound needs its hypothesis on the weights, and nothing in the configuration supplies it:
  with a negative weight a fold of one perfect and one failed component scores two, which passes every
  threshold up to that value.
\<close>
theorem negative_weight_leaves_the_unit_interval:
  "\<exists>c cfg g. unit_scores c \<and> combine_grade_components demo_reader c cfg = Inr g \<and> \<not> fg_refusal g \<and>
     fg_binary_pass g \<and> fg_score g = 2"
proof -
  have "combine_grade_components demo_reader (no_components\<lparr>gc_trace_checks_score := 1, gc_llm_judge_score := 0\<rparr>)
      (demo_fold_config\<lparr>fc_weights := [(''trace_checks'', 2), (''llm_judge'', -1)],
         fc_sections := [(''trace_checks'', VDict []), (''llm_judge'', VDict [])]\<rparr>) =
    Inr \<lparr>fg_score = 2, fg_binary_pass = True, fg_reason = None, fg_refusal = False\<rparr>"
    by code_simp
  moreover have "unit_scores (no_components\<lparr>gc_trace_checks_score := 1, gc_llm_judge_score := 0\<rparr>)"
    by code_simp
  ultimately show ?thesis by fastforce
qed

text \<open>The runner's components as the core engine holds them: a negative score is no score.\<close>

definition core_view :: "CompositeGradeComponents \<Rightarrow> pyfloat option \<Rightarrow> (pystr, pyfloat option) dict" where
  "core_view c state =
     [(''state_checks'', state), (''transcript_rules'', evaluated (gc_transcript_score c)),
      (''trace_checks'', evaluated (gc_trace_checks_score c)), (''llm_judge'', evaluated (gc_llm_judge_score c)),
      (''custom_checks'', evaluated (gc_custom_checks_score c))]"

lemma core_scores_view: "core_scores (core_view c state) = active_components c state"
  by (simp add: core_scores_def core_view_def active_components_def GRADE_COMPONENTS_def score_field_def evaluated_def
      split: option.splits)

text \<open>What a verdict of the runner says in the terms of the core engine's grade.\<close>

definition verdict_grade :: "TrialVerdict \<Rightarrow> FoldedGrade" where
  "verdict_grade v = \<lparr>fg_score = tv_score v, fg_binary_pass = tv_binary_pass v, fg_reason = tv_reason v,
     fg_refusal = tv_refusal v\<rparr>"

text \<open>
  Property C23.  The two substrates agree.  The core engine folds a trial's scores with its own shares and its own
  mean and then applies the gate of the trace block; the runner folds with its own copy of that code inside
  \<open>compose_trial_verdict\<close>.  Once the runner's state sources fold into one slot, and with no required criterion of
  the judge failed (the core engine runs no judge), both give the same score, the same pass, the same sentence, the
  same refusal, and raise the same errors, whether or not the trace gate failed.
\<close>
theorem substrates_agree:
  assumes "resolve_state_checks_component (gc_hash_score c) (gc_jsonpath_score c) (gc_db_probe_score c)
             (fc_hash_weight cfg) = Inr slot"
  shows "core_grade custom (core_view c (so_component slot)) trace_gate cfg =
    bind_res (compose_trial_verdict custom c cfg False trace_gate) (\<lambda>v. Inr (verdict_grade v))"
proof -
  have "core_grade custom (core_view c (so_component slot)) False cfg = combine_grade_components custom c cfg"
    using assms by (simp add: core_grade_open core_combine_fold_scored combine_grade_components_def core_scores_view)
  moreover have "core_grade custom components trace_gate cfg =
      bind_res (core_grade custom components False cfg)
        (\<lambda>g. Inr (if trace_gate then g\<lparr>fg_binary_pass := False\<rparr> else g))" for components
    by (simp add: core_grade_def bind_res_assoc)
  ultimately show ?thesis
    by (cases "combine_grade_components custom c cfg")
      (simp_all add: compose_trial_verdict_def verdict_grade_def)
qed

lemma demo_slot: "resolve_state_checks_component (gc_hash_score demo_components) (gc_jsonpath_score demo_components)
    (gc_db_probe_score demo_components) (fc_hash_weight demo_fold_config) =
  Inr \<lparr>so_component = Some (3 / 4), so_inert_weight_reason = False\<rparr>"
  by code_simp

theorem substrates_agree_witness:
  "core_grade demo_reader (core_view demo_components (Some (3 / 4))) True demo_fold_config =
     Inr \<lparr>fg_score = 13 / 16, fg_binary_pass = False, fg_reason = None, fg_refusal = False\<rparr>"
  using substrates_agree [OF demo_slot, of demo_reader True] demo_fold
  by (simp add: compose_trial_verdict_def verdict_grade_def)

text \<open>
  A grade is composed, rather than an error raised, exactly when the method is supported, the
  state sources fold, the custom-checks block can be read, and every component that was scored has a declared
  weight.
\<close>
theorem grade_composed_iff:
  "is_ok (combine_grade_components custom c cfg) \<longleftrightarrow>
     is_ok (validate_combine_method (fc_method cfg)) \<and> is_ok (requested_components custom cfg) \<and>
     (\<exists>slot. resolve_state_checks_component (gc_hash_score c) (gc_jsonpath_score c) (gc_db_probe_score c)
               (fc_hash_weight cfg) = Inr slot \<and>
             fst ` set (active_components c (so_component slot)) \<subseteq> fst ` set (fc_weights cfg))"
  by (auto simp: is_ok_iff runner.graded runner_scores_def bind_res_eq_Inr_iff dom_map_of_conv_image_fst)

text \<open>
  A component the configuration asks for and nothing scored is never folded around: the grade
  is a refusal with score zero that does not pass, and its sentence names the component.
\<close>
theorem unmeasured_component_is_refused:
  assumes "combine_grade_components custom c cfg = Inr g"
    and "requested_components custom cfg = Inr asked" and "n \<in> set asked"
    and "runner_scores c cfg = Inr scores" and "n \<notin> fst ` set scores"
  shows "fg_refusal g \<and> fg_score g = 0 \<and> \<not> fg_binary_pass g \<and>
         (\<exists>ns. fg_reason g = Some (DeclaredButUnscored ns) \<and> n \<in> set ns)"
  by (rule runner.unmeasured_refused [OF assms(1,4,2,3,5)])

theorem unmeasured_component_is_refused_witness:
  "\<exists>g. combine_grade_components demo_reader (demo_components\<lparr>gc_trace_checks_score := -1\<rparr>) demo_fold_config = Inr g \<and>
       fg_refusal g \<and> fg_score g = 0"
proof -
  let ?c = "demo_components\<lparr>gc_trace_checks_score := -1\<rparr>"
  let ?g = "\<lparr>fg_score = 0, fg_binary_pass = False, fg_reason = Some (DeclaredButUnscored [''trace_checks'']),
             fg_refusal = True\<rparr>"
  have g: "combine_grade_components demo_reader ?c demo_fold_config = Inr ?g" by code_simp
  have s: "runner_scores ?c demo_fold_config = Inr [(''state_checks'', 3 / 4)]" by code_simp
  have a: "requested_components demo_reader demo_fold_config = Inr [''state_checks'', ''trace_checks'']" by code_simp
  show ?thesis using unmeasured_component_is_refused [OF g a _ s, of "''trace_checks''"] g by simp
qed

text \<open>
  The three methods are ordered by strictness: with weights that are not negative and a fold
  that counts something, \<^verbatim>\<open>all\<close> scores no more than \<^verbatim>\<open>weighted\<close> and \<^verbatim>\<open>weighted\<close> no more than \<^verbatim>\<open>any\<close>, and a trial
  that passes by the stricter method passes by the weaker ones.
\<close>
theorem methods_ordered_by_strictness:
  assumes "combine_grade_components custom c (cfg\<lparr>fc_method := VStr ''all''\<rparr>) = Inr ga"
    and "combine_grade_components custom c (cfg\<lparr>fc_method := VStr ''weighted''\<rparr>) = Inr gw"
    and "combine_grade_components custom c (cfg\<lparr>fc_method := VStr ''any''\<rparr>) = Inr gy"
    and "\<not> fg_refusal gw" and weights: "list_all (\<lambda>p. 0 \<le> snd p) (fc_weights cfg)"
  shows "fg_score ga \<le> fg_score gw \<and> fg_score gw \<le> fg_score gy \<and>
         (fg_binary_pass ga \<longrightarrow> fg_binary_pass gw) \<and> (fg_binary_pass gw \<longrightarrow> fg_binary_pass gy)"
  using weights by (intro runner.stricter_method [OF assms(1-4)]) (auto simp: list_all_iff)

theorem methods_ordered_by_strictness_witness:
  "(3 / 4 :: pyfloat) \<le> 13 / 16 \<and> 13 / 16 \<le> (1 :: pyfloat) \<and>
   combine_grade_components demo_reader demo_components (demo_fold_config\<lparr>fc_method := VStr ''any''\<rparr>) =
     Inr \<lparr>fg_score = 1, fg_binary_pass = True, fg_reason = None, fg_refusal = False\<rparr>"
proof -
  have a: "combine_grade_components demo_reader demo_components (demo_fold_config\<lparr>fc_method := VStr ''all''\<rparr>) =
      Inr \<lparr>fg_score = 3 / 4, fg_binary_pass = True, fg_reason = None, fg_refusal = False\<rparr>" by code_simp
  have w: "combine_grade_components demo_reader demo_components (demo_fold_config\<lparr>fc_method := VStr ''weighted''\<rparr>) =
      Inr \<lparr>fg_score = 13 / 16, fg_binary_pass = True, fg_reason = None, fg_refusal = False\<rparr>" by code_simp
  have y: "combine_grade_components demo_reader demo_components (demo_fold_config\<lparr>fc_method := VStr ''any''\<rparr>) =
      Inr \<lparr>fg_score = 1, fg_binary_pass = True, fg_reason = None, fg_refusal = False\<rparr>" by code_simp
  have "list_all (\<lambda>p. 0 \<le> snd p) (fc_weights demo_fold_config)" by code_simp
  then show ?thesis using methods_ordered_by_strictness [OF a w y] y by simp
qed

text \<open>
  What a verdict may say: a trial passes only with both gates open and no refusal; a refusal
  carries score zero and a sentence; a failed required criterion leaves the judge component at zero; and the
  trace gate decides the pass alone, without touching the score or the sentence.
\<close>
theorem verdict_respects_its_gates:
  assumes "compose_trial_verdict custom c cfg judge_gate trace_gate = Inr v"
  shows "(tv_binary_pass v \<longrightarrow> \<not> judge_gate \<and> \<not> trace_gate \<and> \<not> tv_refusal v) \<and>
         (tv_refusal v \<longrightarrow> tv_score v = 0 \<and> tv_reason v \<noteq> None) \<and>
         (judge_gate \<longrightarrow> tv_judge_component v = 0) \<and>
         (\<exists>open. compose_trial_verdict custom c cfg judge_gate False = Inr open \<and>
            v = open\<lparr>tv_binary_pass := tv_binary_pass open \<and> \<not> trace_gate\<rparr>)"
proof -
  let ?c = "if judge_gate then c\<lparr>gc_llm_judge_score := 0\<rparr> else c"
  obtain g where g: "combine_grade_components custom ?c cfg = Inr g"
    and v: "v = \<lparr>tv_judge_component = gc_llm_judge_score ?c, tv_score = fg_score g,
                tv_binary_pass = (fg_binary_pass g \<and> \<not> (judge_gate \<or> trace_gate)),
                tv_reason = fg_reason g, tv_refusal = fg_refusal g\<rparr>"
    using assms by (auto simp: compose_trial_verdict_def Let_def bind_res_eq_Inr_iff)
  obtain agg scores asked where "g = fold_verdict agg (fc_weights cfg) (fc_threshold cfg) asked scores"
    using g by (auto simp: runner.graded)
  then have "fg_refusal g \<longrightarrow> fg_score g = 0 \<and> fg_reason g \<noteq> None \<and> \<not> fg_binary_pass g"
    by (simp add: fold_verdict_def free_pass_def refused_grade_def aggregated_def)
  moreover have "compose_trial_verdict custom c cfg judge_gate False =
      Inr (v\<lparr>tv_binary_pass := fg_binary_pass g \<and> \<not> judge_gate\<rparr>)"
    using g by (simp add: compose_trial_verdict_def v)
  ultimately show ?thesis by (auto simp: v)
qed

theorem verdict_respects_its_gates_witness:
  "\<exists>v. compose_trial_verdict demo_reader demo_components demo_fold_config False True = Inr v \<and>
       tv_score v = 13 / 16 \<and> \<not> tv_binary_pass v"
proof -
  let ?v = "\<lparr>tv_judge_component = -1, tv_score = 13 / 16, tv_binary_pass = False, tv_reason = None, tv_refusal = False\<rparr>"
  have "compose_trial_verdict demo_reader demo_components demo_fold_config False True = Inr ?v" by code_simp
  then show ?thesis using verdict_respects_its_gates [of demo_reader demo_components demo_fold_config False True ?v] by simp
qed

lemma zeroed_judge_le:
  assumes "0 \<le> gc_llm_judge_score c"
  shows "scores_le (active_components (c\<lparr>gc_llm_judge_score := 0\<rparr>) state) (active_components c state)"
  using assms by (simp add: scores_le_def active_components_def GRADE_COMPONENTS_def score_field_def split: option.splits)

text \<open>
  A failed required criterion never helps a trial: with weights that are not negative, zeroing
  the judge component of a trial that was judged leaves the score at most where it was, by every method.
\<close>
theorem judge_gate_never_helps:
  assumes gated: "compose_trial_verdict custom c cfg True trace_gate = Inr v1"
    and free: "compose_trial_verdict custom c cfg False trace_gate = Inr v0"
    and judged: "0 \<le> gc_llm_judge_score c" and weights: "list_all (\<lambda>p. 0 \<le> snd p) (fc_weights cfg)"
  shows "tv_score v1 \<le> tv_score v0"
proof -
  let ?z = "c\<lparr>gc_llm_judge_score := 0\<rparr>"
  obtain g1 g0 where g: "combine_grade_components custom ?z cfg = Inr g1" "combine_grade_components custom c cfg = Inr g0"
    and v: "tv_score v1 = fg_score g1" "tv_score v0 = fg_score g0"
    using gated free by (auto simp: compose_trial_verdict_def Let_def bind_res_eq_Inr_iff)
  obtain slot where slot: "resolve_state_checks_component (gc_hash_score c) (gc_jsonpath_score c) (gc_db_probe_score c)
      (fc_hash_weight cfg) = Inr slot"
    using g(2) by (auto simp: runner.graded runner_scores_def bind_res_eq_Inr_iff)
  then have s: "runner_scores ?z cfg = Inr (active_components ?z (so_component slot))"
    "runner_scores c cfg = Inr (active_components c (so_component slot))" by (simp_all add: runner_scores_def)
  obtain agg asked where f: "g1 = fold_verdict agg (fc_weights cfg) (fc_threshold cfg) asked (active_components ?z (so_component slot))"
    "g0 = fold_verdict agg (fc_weights cfg) (fc_threshold cfg) asked (active_components c (so_component slot))"
    and k: "fst ` set (active_components c (so_component slot)) \<subseteq> dom (map_of (fc_weights cfg))"
    using g s by (auto simp: runner.graded)
  show ?thesis
    unfolding v f using weights by (intro fold_verdict_mono(1) [OF zeroed_judge_le [OF judged] k]) (auto simp: list_all_iff)
qed

theorem judge_gate_never_helps_witness:
  "\<exists>v1 v0. compose_trial_verdict demo_reader (no_components\<lparr>gc_llm_judge_score := 1 / 2\<rparr>)
      (demo_fold_config\<lparr>fc_weights := [(''llm_judge'', 1)], fc_sections := [(''llm_judge'', VDict [])]\<rparr>) True False = Inr v1 \<and>
    compose_trial_verdict demo_reader (no_components\<lparr>gc_llm_judge_score := 1 / 2\<rparr>)
      (demo_fold_config\<lparr>fc_weights := [(''llm_judge'', 1)], fc_sections := [(''llm_judge'', VDict [])]\<rparr>) False False = Inr v0 \<and>
    tv_score v1 \<le> tv_score v0 \<and> tv_binary_pass v0 \<and> \<not> tv_binary_pass v1"
proof -
  let ?c = "no_components\<lparr>gc_llm_judge_score := 1 / 2\<rparr>"
  let ?cfg = "demo_fold_config\<lparr>fc_weights := [(''llm_judge'', 1)], fc_sections := [(''llm_judge'', VDict [])]\<rparr>"
  have g: "compose_trial_verdict demo_reader ?c ?cfg True False =
      Inr \<lparr>tv_judge_component = 0, tv_score = 0, tv_binary_pass = False, tv_reason = None, tv_refusal = False\<rparr>" by code_simp
  have f: "compose_trial_verdict demo_reader ?c ?cfg False False =
      Inr \<lparr>tv_judge_component = 1 / 2, tv_score = 1 / 2, tv_binary_pass = True, tv_reason = None, tv_refusal = False\<rparr>" by code_simp
  have "0 \<le> gc_llm_judge_score ?c" "list_all (\<lambda>p. 0 \<le> snd p) (fc_weights ?cfg)" by code_simp+
  then show ?thesis using judge_gate_never_helps [OF g f] g f by auto
qed

end
