(* ===== verification/Rubric_Grading.thy ===== *)
theory Rubric_Grading
  imports Transcript
begin

text \<open>
  The rubric judge without its language model: the rubric and its validator
  (\<^verbatim>\<open>tolokaforge/runner/models.py\<close>), the report schema, the parser of a submitted report with its
  trailing-marker check, the aggregation (\<^verbatim>\<open>tolokaforge/core/grading/rubric.py\<close>) and the bounded retry loop of
  \<^verbatim>\<open>tolokaforge/core/grading/judge.py\<close>.  The two marker patterns are fixed, so their matching is written out.
  What one run of the tool-calling loop yields is an argument of the retry loop.
\<close>

section \<open>Rubrics\<close>

datatype criterion_kind = Kind_binary | Kind_graded

record Criterion =
  cn_id :: pystr
  cn_description :: pystr
  cn_weight :: pyfloat
  cn_kind :: criterion_kind
  cn_required :: bool
  cn_expected :: "pystr option"

record Rubric =
  rb_criteria :: "Criterion list"
  rb_reference :: "pystr option"

record CriterionResult =
  jc_id :: pystr
  jc_met :: bool
  jc_score :: pyfloat
  jc_justification :: pystr

definition REASONS_KEY :: pystr where "REASONS_KEY = ''reasons''"
definition JUSTIFICATION_SUFFIX :: pystr where "JUSTIFICATION_SUFFIX = ''_justification''"
definition INTERPRETATION_SUFFIX :: pystr where "INTERPRETATION_SUFFIX = ''_interpretation''"

definition justification_key :: "pystr \<Rightarrow> pystr" where
  "justification_key cid = cid @ JUSTIFICATION_SUFFIX"

definition interpretation_key :: "pystr \<Rightarrow> pystr" where
  "interpretation_key cid = cid @ INTERPRETATION_SUFFIX"

definition is_letter :: "char \<Rightarrow> bool" where
  "is_letter c \<longleftrightarrow> (let n = of_char c :: nat in (65 \<le> n \<and> n \<le> 90) \<or> (97 \<le> n \<and> n \<le> 122))"

definition is_decimal :: "char \<Rightarrow> bool" where
  "is_decimal c \<longleftrightarrow> (let n = of_char c :: nat in 48 \<le> n \<and> n \<le> 57)"

definition ident_char :: "char \<Rightarrow> bool" where
  "ident_char c \<longleftrightarrow> is_letter c \<or> is_decimal c \<or> c = CHR ''_''"

text \<open>\<^verbatim>\<open>re.match(r"^[A-Za-z][A-Za-z0-9_]*$", cid)\<close>: the dollar also matches before one final newline.\<close>

definition safe_id :: "pystr \<Rightarrow> bool" where
  "safe_id cid =
     (case cid of [] \<Rightarrow> False
      | c # cs \<Rightarrow> is_letter c \<and>
          (list_all ident_char cs \<or> (cs \<noteq> [] \<and> last cs = CHR 0x0A \<and> list_all ident_char (butlast cs))))"

definition ends_with :: "pystr \<Rightarrow> pystr \<Rightarrow> bool" where
  "ends_with suffix s \<longleftrightarrow> length suffix \<le> length s \<and> drop (length s - length suffix) s = suffix"

datatype rubric_error =
    DuplicateIds | UnsafeId pystr | ReservedId pystr | JustificationSuffix pystr | InterpretationSuffix pystr
  | JustificationCollision pystr | InterpretationCollision pystr

definition id_error :: "pystr \<Rightarrow> rubric_error option" where
  "id_error cid =
     (if \<not> safe_id cid then Some (UnsafeId cid)
      else if cid = REASONS_KEY then Some (ReservedId cid)
      else if ends_with JUSTIFICATION_SUFFIX cid then Some (JustificationSuffix cid)
      else if ends_with INTERPRETATION_SUFFIX cid then Some (InterpretationSuffix cid)
      else None)"

definition collision_error :: "pystr list \<Rightarrow> pystr \<Rightarrow> rubric_error option" where
  "collision_error ids cid =
     (if justification_key cid \<in> set ids then Some (JustificationCollision cid)
      else if interpretation_key cid \<in> set ids then Some (InterpretationCollision cid)
      else None)"

definition validate_criterion_ids :: "Rubric \<Rightarrow> rubric_error option" where
  "validate_criterion_ids r =
     (let ids = map cn_id (rb_criteria r)
      in if \<not> distinct ids then Some DuplicateIds
         else first_error (map id_error ids @ map (collision_error ids) ids))"

section \<open>The report schema\<close>

text \<open>A property of the schema: its JSON type with the text of the criterion it carries.\<close>

datatype report_field =
    BooleanVerdict pystr
  | NumberVerdict pyfloat pyfloat pystr
  | JustificationText criterion_kind pystr
  | InterpretationText pystr pystr
  | ReasonsText

definition criterion_field_description :: "Criterion \<Rightarrow> pystr" where
  "criterion_field_description c =
     cn_description c @ (case cn_expected c of None \<Rightarrow> [] | Some e \<Rightarrow> '' Expected: '' @ e)"

definition criterion_verdict_property :: "Criterion \<Rightarrow> report_field" where
  "criterion_verdict_property c =
     (if cn_kind c = Kind_binary then BooleanVerdict (criterion_field_description c)
      else NumberVerdict 0 1 (criterion_field_description c))"

definition criterion_justification_property :: "Criterion \<Rightarrow> report_field" where
  "criterion_justification_property c = JustificationText (cn_kind c) (cn_id c)"

definition needs_interpretation :: "Criterion \<Rightarrow> bool" where
  "needs_interpretation c \<longleftrightarrow> cn_kind c = Kind_graded \<and> cn_expected c = None"

definition criterion_interpretation_property :: "Criterion \<Rightarrow> report_field" where
  "criterion_interpretation_property c = InterpretationText (cn_id c) (cn_description c)"

record ReportSchema =
  rs_properties :: "(pystr, report_field) dict"
  rs_required :: "pystr list"

definition add_criterion :: "Criterion \<Rightarrow> ReportSchema \<Rightarrow> ReportSchema" where
  "add_criterion c s =
     (let p0 = rs_properties s;
          p1 = (if needs_interpretation c
                then dict_set (interpretation_key (cn_id c)) (criterion_interpretation_property c) p0 else p0);
          p2 = dict_set (justification_key (cn_id c)) (criterion_justification_property c) p1;
          p3 = dict_set (cn_id c) (criterion_verdict_property c) p2
      in \<lparr>rs_properties = p3, rs_required = rs_required s @ [justification_key (cn_id c), cn_id c]\<rparr>)"

definition build_report_tool_parameters :: "Rubric \<Rightarrow> ReportSchema" where
  "build_report_tool_parameters r =
     (let s = fold add_criterion (rb_criteria r) \<lparr>rs_properties = [], rs_required = []\<rparr>
      in \<lparr>rs_properties = dict_set REASONS_KEY ReasonsText (rs_properties s),
          rs_required = rs_required s @ [REASONS_KEY]\<rparr>)"

section \<open>Markers\<close>

definition is_linebreak :: "char \<Rightarrow> bool" where
  "is_linebreak c \<longleftrightarrow> (let n = of_char c :: nat in (10 \<le> n \<and> n \<le> 13) \<or> (28 \<le> n \<and> n \<le> 30) \<or> n = 133)"

text \<open>\<^verbatim>\<open>str.splitlines()\<close>, with the open line as its first argument.\<close>

fun splitlines_from :: "pystr \<Rightarrow> pystr \<Rightarrow> pystr list" where
  "splitlines_from line [] = (if line = [] then [] else [line])"
| "splitlines_from line (c # cs) =
     (if \<not> is_linebreak c then splitlines_from (line @ [c]) cs
      else if c = CHR 0x0D \<and> cs \<noteq> [] \<and> hd cs = CHR 0x0A then line # splitlines_from [] (tl cs)
      else line # splitlines_from [] cs)"

definition splitlines :: "pystr \<Rightarrow> pystr list" where
  "splitlines s = splitlines_from [] s"

definition strip :: "pystr \<Rightarrow> pystr" where
  "strip s = rev (dropWhile is_space (rev (dropWhile is_space s)))"

definition final_nonempty_line :: "pystr \<Rightarrow> pystr" where
  "final_nonempty_line text =
     (case filter (\<lambda>l. l \<noteq> []) (map strip (rev (splitlines text))) of [] \<Rightarrow> [] | l # _ \<Rightarrow> l)"

text \<open>A literal of the pattern, case ignored: what is left after it.\<close>

fun after :: "pystr \<Rightarrow> pystr \<Rightarrow> pystr option" where
  "after [] s = Some s"
| "after (p # ps) [] = None"
| "after (p # ps) (c # cs) = (if lower_char c = p then after ps cs else None)"

definition after_colon :: "pystr \<Rightarrow> pystr \<Rightarrow> pystr option" where
  "after_colon keyword s =
     (case after keyword s of None \<Rightarrow> None
      | Some r \<Rightarrow> map_option (dropWhile is_space) (after '':'' (dropWhile is_space r)))"

text \<open>\<^verbatim>\<open>verdict\s*:\s*(not\s+met|met)\<close> at the start of the text: whether the group lacks a \<^verbatim>\<open>not\<close>, and the rest.\<close>

definition binary_marker :: "pystr \<Rightarrow> (bool \<times> pystr) option" where
  "binary_marker s =
     (case after_colon ''verdict'' s of None \<Rightarrow> None
      | Some r \<Rightarrow>
          (case after ''not'' r of
             Some q \<Rightarrow> if q \<noteq> [] \<and> is_space (hd q) then map_option (Pair False) (after ''met'' (dropWhile is_space q)) else None
           | None \<Rightarrow> map_option (Pair True) (after ''met'' r)))"

text \<open>\<^verbatim>\<open>score\s*:\s*([0-9]*\.?[0-9]+)\<close> at the start of the text: the number read, and the rest.\<close>

definition decimal_value :: "pystr \<Rightarrow> pystr \<Rightarrow> pyfloat" where
  "decimal_value whole decimals = of_nat (read_nat whole) + of_nat (read_nat decimals) / 10 ^ length decimals"

definition graded_marker :: "pystr \<Rightarrow> (pyfloat \<times> pystr) option" where
  "graded_marker s =
     (case after_colon ''score'' s of None \<Rightarrow> None
      | Some r \<Rightarrow>
          let whole = takeWhile is_decimal r;
              rest = dropWhile is_decimal r;
              decimals = (case rest of [] \<Rightarrow> [] | c # cs \<Rightarrow> if c = CHR ''.'' then takeWhile is_decimal cs else [])
          in if decimals \<noteq> [] then Some (decimal_value whole decimals, dropWhile is_decimal (tl rest))
             else if whole \<noteq> [] then Some (decimal_value whole [], rest)
             else None)"

text \<open>\<^verbatim>\<open>finditer\<close> with the lookbehind: no letter may stand right before a match.  A match is never empty.\<close>

function find_matches :: "(pystr \<Rightarrow> ('a \<times> pystr) option) \<Rightarrow> char option \<Rightarrow> pystr \<Rightarrow> 'a list" where
  "find_matches pat prev [] = []"
| "find_matches pat prev (c # cs) =
     (case (if prev \<noteq> None \<and> is_letter (the prev) then None else pat (c # cs)) of
        Some (v, rest) \<Rightarrow>
          if length rest \<le> length cs then v # find_matches pat (Some ((c # cs) ! (length cs - length rest))) rest
          else find_matches pat (Some c) cs
      | None \<Rightarrow> find_matches pat (Some c) cs)"
  by pat_completeness auto
termination
  by (relation "measure (\<lambda>(pat, prev, s). length s)") (auto split: if_splits)

definition last_match :: "(pystr \<Rightarrow> ('a \<times> pystr) option) \<Rightarrow> pystr \<Rightarrow> 'a option" where
  "last_match pat line =
     (let matches = find_matches pat None line in if matches = [] then None else Some (last matches))"

section \<open>Parsing a report\<close>

datatype report_error =
    MissingVerdict pystr
  | MissingJustification pystr
  | JustificationType pystr pyval
  | InterpretationType pystr pyval
  | NotBoolean pystr pyval
  | NotNumber pystr pyval
  | ScoreRange pystr pyfloat
  | MarkerMissing pystr pystr
  | MarkerContradicts pystr pystr
  | UnknownFields "pystr list"
  | ResultsMismatch
  | NonPositiveWeight pyfloat
  | FloatOverflow pystr int  \<comment> \<open>an OverflowError of Python, not a validation error\<close>

definition is_validation_error :: "report_error \<Rightarrow> bool" where
  "is_validation_error e = (case e of FloatOverflow _ _ \<Rightarrow> False | _ \<Rightarrow> True)"

definition is_consistency_error :: "report_error \<Rightarrow> bool" where
  "is_consistency_error e = (case e of MarkerMissing _ _ \<Rightarrow> True | MarkerContradicts _ _ \<Rightarrow> True | _ \<Rightarrow> False)"

definition GRADED_MET_THRESHOLD :: pyfloat where "GRADED_MET_THRESHOLD = 1 / 2"
definition GRADED_MARKER_TOLERANCE :: pyfloat where "GRADED_MARKER_TOLERANCE = 5 / 100"

definition require_present :: "(pystr, pyval) dict \<Rightarrow> pystr \<Rightarrow> report_error \<Rightarrow> report_error + pyval" where
  "require_present args key e = (case map_of args key of None \<Rightarrow> Inl e | Some v \<Rightarrow> Inr v)"

definition coerce_binary_met :: "pyval \<Rightarrow> pystr \<Rightarrow> report_error + bool" where
  "coerce_binary_met value cid = (case value of VBool b \<Rightarrow> Inr b | _ \<Rightarrow> Inl (NotBoolean cid value))"

text \<open>\<^verbatim>\<open>float(n)\<close> of an integer raises from the first one that rounds beyond the largest double.\<close>

definition float_overflow :: "int \<Rightarrow> bool" where
  "float_overflow i \<longleftrightarrow> 2 ^ 1024 - 2 ^ 970 \<le> abs i"

definition in_range :: "pystr \<Rightarrow> pyfloat \<Rightarrow> report_error + pyfloat" where
  "in_range cid score = (if 0 \<le> score \<and> score \<le> 1 then Inr score else Inl (ScoreRange cid score))"

definition coerce_graded_score :: "pyval \<Rightarrow> pystr \<Rightarrow> report_error + pyfloat" where
  "coerce_graded_score value cid =
     (case value of
        VInt i \<Rightarrow> if float_overflow i then Inl (FloatOverflow cid i) else in_range cid (of_int i)
      | VFloat q \<Rightarrow> in_range cid q
      | _ \<Rightarrow> Inl (NotNumber cid value))"

definition check_verdict_marker :: "Criterion \<Rightarrow> pystr \<Rightarrow> bool \<Rightarrow> pyfloat \<Rightarrow> report_error option" where
  "check_verdict_marker c justification met score =
     (let final_line = final_nonempty_line justification
      in if cn_kind c = Kind_binary then
           (case last_match binary_marker final_line of
              None \<Rightarrow> Some (MarkerMissing (cn_id c) final_line)
            | Some marker_met \<Rightarrow> if marker_met \<noteq> met then Some (MarkerContradicts (cn_id c) final_line) else None)
         else
           (case last_match graded_marker final_line of
              None \<Rightarrow> Some (MarkerMissing (cn_id c) final_line)
            | Some marker_value \<Rightarrow>
                if abs (marker_value - score) > GRADED_MARKER_TOLERANCE + 1 / 10 ^ 9
                then Some (MarkerContradicts (cn_id c) final_line) else None))"

definition justification_text :: "Criterion \<Rightarrow> (pystr, pyval) dict \<Rightarrow> pystr \<Rightarrow> report_error + pystr" where
  "justification_text c args raw =
     (if \<not> needs_interpretation c then Inr raw
      else (case map_of args (interpretation_key (cn_id c)) of
              None \<Rightarrow> Inr raw
            | Some VNone \<Rightarrow> Inr raw
            | Some (VStr s) \<Rightarrow> Inr (''Interpretation: '' @ strip s @ [CHR 0x0A, CHR 0x0A] @ raw)
            | Some v \<Rightarrow> Inl (InterpretationType (cn_id c) v)))"

definition read_verdict :: "Criterion \<Rightarrow> pyval \<Rightarrow> report_error + (bool \<times> pyfloat)" where
  "read_verdict c raw =
     (if cn_kind c = Kind_binary then bind_res (coerce_binary_met raw (cn_id c)) (\<lambda>met. Inr (met, if met then 1 else 0))
      else bind_res (coerce_graded_score raw (cn_id c)) (\<lambda>score. Inr (GRADED_MET_THRESHOLD \<le> score, score)))"

definition criterion_result :: "(pystr, pyval) dict \<Rightarrow> Criterion \<Rightarrow> report_error + CriterionResult" where
  "criterion_result args c =
     bind_res (require_present args (cn_id c) (MissingVerdict (cn_id c))) (\<lambda>raw_verdict.
     bind_res (require_present args (justification_key (cn_id c)) (MissingJustification (cn_id c))) (\<lambda>raw_value.
       case raw_value of
         VStr raw \<Rightarrow>
           bind_res (justification_text c args raw) (\<lambda>text.
           bind_res (read_verdict c raw_verdict) (\<lambda>(met, score).
             case check_verdict_marker c raw met score of
               Some e \<Rightarrow> Inl e
             | None \<Rightarrow> Inr \<lparr>jc_id = cn_id c, jc_met = met, jc_score = score, jc_justification = text\<rparr>))
       | _ \<Rightarrow> Inl (JustificationType (cn_id c) raw_value)))"

definition expected_keys :: "Rubric \<Rightarrow> pystr list" where
  "expected_keys r =
     (let ids = map cn_id (rb_criteria r)
      in ids @ map justification_key ids @
         map (interpretation_key \<circ> cn_id) (filter needs_interpretation (rb_criteria r)) @ [REASONS_KEY])"

definition parse_submit_report :: "(pystr, pyval) dict \<Rightarrow> Rubric \<Rightarrow> report_error + CriterionResult list" where
  "parse_submit_report args r =
     bind_res (traverse (criterion_result args) (rb_criteria r)) (\<lambda>results.
       let extra = filter (\<lambda>k. k \<notin> set (expected_keys r)) (map fst args)
       in if extra \<noteq> [] then Inl (UnknownFields (sort extra)) else Inr results)"

section \<open>Aggregation\<close>

record RubricAggregate =
  ra_score :: pyfloat
  ra_binary_pass :: bool
  ra_gate_failed :: bool
  ra_failed_required_ids :: "pystr list"

definition result_of_id :: "CriterionResult list \<Rightarrow> pystr \<Rightarrow> CriterionResult option" where
  "result_of_id results = map_of (dict_of (map (\<lambda>x. (jc_id x, x)) results))"

definition met_of :: "CriterionResult list \<Rightarrow> pystr \<Rightarrow> bool" where
  "met_of results cid = (case result_of_id results cid of None \<Rightarrow> False | Some x \<Rightarrow> jc_met x)"

definition score_of :: "CriterionResult list \<Rightarrow> pystr \<Rightarrow> pyfloat" where
  "score_of results cid = (case result_of_id results cid of None \<Rightarrow> 0 | Some x \<Rightarrow> jc_score x)"

definition aggregate_rubric :: "Rubric \<Rightarrow> CriterionResult list \<Rightarrow> report_error + RubricAggregate" where
  "aggregate_rubric r results =
     (let ids = map cn_id (rb_criteria r)
      in if set (map jc_id results) \<noteq> set ids \<or> \<not> distinct (map jc_id results) then Inl ResultsMismatch
         else
           let failed = map cn_id (filter (\<lambda>c. cn_required c \<and> \<not> met_of results (cn_id c)) (rb_criteria r));
               gate_failed = (failed \<noteq> []);
               non_required = filter (\<lambda>c. \<not> cn_required c) (rb_criteria r);
               total_weight = sum_list (map cn_weight non_required);
               weighted = sum_list (map (\<lambda>c. cn_weight c * score_of results (cn_id c)) non_required)
           in bind_res (if non_required = [] then Inr (if gate_failed then 0 else 1)
                        else if total_weight \<le> 0 then Inl (NonPositiveWeight total_weight)
                        else Inr (weighted / total_weight)) (\<lambda>score.
                Inr \<lparr>ra_score = score, ra_binary_pass = (\<not> gate_failed \<and> GRADED_MET_THRESHOLD \<le> score),
                     ra_gate_failed = gate_failed, ra_failed_required_ids = failed\<rparr>))"

section \<open>The retry loop\<close>

text \<open>What one run of the tool-calling loop ends with.\<close>

datatype loop_end =
    LoopCrashed pystr
  | ReaderRefused
  | NoReport pystr
  | Report "(pystr, pyval) dict"

datatype JudgeStatus = Judge_UNSPECIFIED | Judge_COMPLETED | Judge_ERRORED

datatype judge_reasons =
    LoopCrash pystr
  | NeverSubmitted pystr
  | InvalidAfterRetries int report_error
  | JudgeSummary "pystr option" "pystr list"

record JudgeResult =
  jr_status :: JudgeStatus
  jr_reasons :: judge_reasons
  jr_score :: "pyfloat option"
  jr_binary_pass :: "bool option"
  jr_gate_failed :: bool
  jr_criterion_results :: "CriterionResult list"
  jr_failed_required_ids :: "pystr list"
  jr_consistency_rejections :: nat

datatype judge_raise = RefusalRaised | OverflowRaised report_error

definition errored_judge_result :: "nat \<Rightarrow> judge_reasons \<Rightarrow> JudgeResult" where
  "errored_judge_result rejections reasons =
     \<lparr>jr_status = Judge_ERRORED, jr_reasons = reasons, jr_score = None, jr_binary_pass = None, jr_gate_failed = False,
      jr_criterion_results = [], jr_failed_required_ids = [], jr_consistency_rejections = rejections\<rparr>"

definition build_judge_reasons :: "(pystr, pyval) dict \<Rightarrow> pystr list \<Rightarrow> judge_reasons" where
  "build_judge_reasons args failed =
     JudgeSummary (case map_of args ''reasons'' of
                     Some (VStr s) \<Rightarrow> if strip s \<noteq> [] then Some (strip s) else None
                   | _ \<Rightarrow> None) failed"

definition judged :: "(pystr, pyval) dict \<Rightarrow> Rubric \<Rightarrow> report_error + (CriterionResult list \<times> RubricAggregate)" where
  "judged args r =
     bind_res (parse_submit_report args r) (\<lambda>results.
     bind_res (aggregate_rubric r results) (\<lambda>agg. Inr (results, agg)))"

definition completed_judge_result ::
    "nat \<Rightarrow> (pystr, pyval) dict \<Rightarrow> CriterionResult list \<times> RubricAggregate \<Rightarrow> JudgeResult" where
  "completed_judge_result rejections args v =
     (let agg = snd v
      in \<lparr>jr_status = Judge_COMPLETED, jr_reasons = build_judge_reasons args (ra_failed_required_ids agg),
          jr_score = Some (ra_score agg), jr_binary_pass = Some (ra_binary_pass agg),
          jr_gate_failed = ra_gate_failed agg, jr_criterion_results = fst v,
          jr_failed_required_ids = ra_failed_required_ids agg, jr_consistency_rejections = rejections\<rparr>)"

function judge_loop ::
    "(nat \<Rightarrow> loop_end) \<Rightarrow> int \<Rightarrow> Rubric \<Rightarrow> nat \<Rightarrow> nat \<Rightarrow> judge_raise + JudgeResult" where
  "judge_loop run retries r attempts rejections =
     (case run attempts of
        LoopCrashed m \<Rightarrow> Inr (errored_judge_result rejections (LoopCrash m))
      | ReaderRefused \<Rightarrow> Inl RefusalRaised
      | NoReport m \<Rightarrow> Inr (errored_judge_result rejections (NeverSubmitted m))
      | Report args \<Rightarrow>
          (case judged args r of
             Inr v \<Rightarrow> Inr (completed_judge_result rejections args v)
           | Inl e \<Rightarrow>
               if \<not> is_validation_error e then Inl (OverflowRaised e)
               else
                 let rejections' = (if is_consistency_error e then rejections + 1 else rejections)
                 in if retries < int (attempts + 1) then Inr (errored_judge_result rejections' (InvalidAfterRetries retries e))
                    else judge_loop run retries r (attempts + 1) rejections'))"
  by pat_completeness auto
termination
  by (relation "measure (\<lambda>(run, retries, r, attempts, rejections). nat (retries - int attempts))") auto

definition judge_grade :: "(nat \<Rightarrow> loop_end) \<Rightarrow> int \<Rightarrow> Rubric \<Rightarrow> judge_raise + JudgeResult" where
  "judge_grade run retries r = judge_loop run retries r 0 0"

declare judge_loop.simps [simp del]

section \<open>The keys of a report\<close>

lemmas key_defs = justification_key_def interpretation_key_def JUSTIFICATION_SUFFIX_def INTERPRETATION_SUFFIX_def

lemma ends_with_append: "ends_with suffix (s @ suffix)"
  by (simp add: ends_with_def)

lemma suffixes_differ: "a @ ''_justification'' \<noteq> b @ ''_interpretation''"
proof
  assume "a @ ''_justification'' = b @ ''_interpretation''"
  then have "rev (a @ ''_justification'') = rev (b @ ''_interpretation'')" by simp
  then show False by simp
qed

text \<open>An id that passed its own checks.\<close>

definition plain_id :: "pystr \<Rightarrow> bool" where
  "plain_id cid \<longleftrightarrow> id_error cid = None"

lemma plain_id_facts:
  assumes "plain_id cid"
  shows "safe_id cid" "cid \<noteq> REASONS_KEY" "cid \<noteq> justification_key k" "cid \<noteq> interpretation_key k"
  using assms ends_with_append [of JUSTIFICATION_SUFFIX k] ends_with_append [of INTERPRETATION_SUFFIX k]
  by (auto simp: plain_id_def id_error_def justification_key_def interpretation_key_def split: if_splits)

lemma derived_keys_differ [simp]:
  "justification_key a = justification_key b \<longleftrightarrow> a = b"
  "interpretation_key a = interpretation_key b \<longleftrightarrow> a = b"
  "justification_key a \<noteq> interpretation_key b" "interpretation_key a \<noteq> justification_key b"
  using suffixes_differ [of a b] suffixes_differ [of b a] by (auto simp: key_defs)

lemma derived_not_reasons [simp]: "justification_key a \<noteq> REASONS_KEY" "interpretation_key a \<noteq> REASONS_KEY"
proof -
  have "length (justification_key a) > length REASONS_KEY" "length (interpretation_key a) > length REASONS_KEY"
    by (simp_all add: key_defs REASONS_KEY_def)
  then show "justification_key a \<noteq> REASONS_KEY" "interpretation_key a \<noteq> REASONS_KEY" by (metis less_irrefl)+
qed

lemma validated_criterion_ids:
  assumes "validate_criterion_ids r = None"
  shows "distinct (map cn_id (rb_criteria r))" and "\<And>c. c \<in> set (rb_criteria r) \<Longrightarrow> plain_id (cn_id c)"
  using assms
  by (auto simp: validate_criterion_ids_def Let_def first_error_None_iff plain_id_def split: if_splits)

definition criterion_fields :: "Criterion \<Rightarrow> (pystr \<times> report_field) list" where
  "criterion_fields c =
     (if needs_interpretation c then [(interpretation_key (cn_id c), criterion_interpretation_property c)] else []) @
     [(justification_key (cn_id c), criterion_justification_property c), (cn_id c, criterion_verdict_property c)]"

lemma add_criterion_fields:
  "rs_properties (add_criterion c s) = fold (\<lambda>(k, v). dict_set k v) (criterion_fields c) (rs_properties s)"
  "rs_required (add_criterion c s) = rs_required s @ [justification_key (cn_id c), cn_id c]"
  by (simp_all add: add_criterion_def criterion_fields_def Let_def)

lemma fold_add_criterion:
  "rs_properties (fold add_criterion cs s) = fold (\<lambda>(k, v). dict_set k v) (concat (map criterion_fields cs)) (rs_properties s)"
  "rs_required (fold add_criterion cs s) = rs_required s @ concat (map (\<lambda>c. [justification_key (cn_id c), cn_id c]) cs)"
  by (induction cs arbitrary: s) (simp_all add: add_criterion_fields)

lemma report_properties:
  "rs_properties (build_report_tool_parameters r) = dict_of (concat (map criterion_fields (rb_criteria r)) @ [(REASONS_KEY, ReasonsText)])"
  "rs_required (build_report_tool_parameters r) = concat (map (\<lambda>c. [justification_key (cn_id c), cn_id c]) (rb_criteria r)) @ [REASONS_KEY]"
  by (simp_all add: build_report_tool_parameters_def Let_def fold_add_criterion dict_of_def)

lemma field_keys:
  "fst ` set (criterion_fields c) =
     {cn_id c, justification_key (cn_id c)} \<union> (if needs_interpretation c then {interpretation_key (cn_id c)} else {})"
  by (auto simp: criterion_fields_def)

lemma field_keys_disjoint:
  assumes "plain_id (cn_id c)" "plain_id (cn_id d)" "cn_id c \<noteq> cn_id d"
  shows "fst ` set (criterion_fields c) \<inter> fst ` set (criterion_fields d) = {}"
  using assms plain_id_facts [OF assms(1)] plain_id_facts [OF assms(2)]
  by (auto simp: field_keys)

lemma fields_distinct:
  assumes "distinct (map cn_id cs)" and "\<And>c. c \<in> set cs \<Longrightarrow> plain_id (cn_id c)"
  shows "distinct (map fst (concat (map criterion_fields cs)))"
  using assms
proof (induction cs)
  case Nil
  then show ?case by simp
next
  case (Cons c cs)
  have own: "distinct (map fst (criterion_fields c))"
    using plain_id_facts(3,4) [of "cn_id c" "cn_id c", symmetric] Cons.prems(2) [of c]
    by (simp add: criterion_fields_def)
  have "fst ` set (criterion_fields c) \<inter> fst ` set (criterion_fields d) = {}" if "d \<in> set cs" for d
    using Cons.prems that by (intro field_keys_disjoint) auto
  then have "fst ` set (criterion_fields c) \<inter> fst ` set (concat (map criterion_fields cs)) = {}" by auto
  then show ?case using own Cons by simp
qed

text \<open>
  The report schema of a validated rubric loses no field: its properties are exactly each
  criterion's interpretation, justification and verdict in rubric order, then the overall reasons, under keys
  that are all different; the required keys are among them; and these keys are the ones the parser allows.
\<close>
theorem schema_loses_no_field:
  assumes "validate_criterion_ids r = None"
  shows "rs_properties (build_report_tool_parameters r) =
           concat (map criterion_fields (rb_criteria r)) @ [(REASONS_KEY, ReasonsText)] \<and>
         distinct (map fst (rs_properties (build_report_tool_parameters r))) \<and>
         set (rs_required (build_report_tool_parameters r)) \<subseteq> fst ` set (rs_properties (build_report_tool_parameters r)) \<and>
         fst ` set (rs_properties (build_report_tool_parameters r)) = set (expected_keys r)"
proof -
  let ?fields = "concat (map criterion_fields (rb_criteria r)) @ [(REASONS_KEY, ReasonsText)]"
  note ids = validated_criterion_ids [OF assms]
  have "REASONS_KEY \<notin> fst ` set (concat (map criterion_fields (rb_criteria r)))"
  proof -
    have "REASONS_KEY \<noteq> cn_id c" if "c \<in> set (rb_criteria r)" for c
      using plain_id_facts(2) [OF ids(2) [OF that]] by simp
    then show ?thesis by (auto simp: criterion_fields_def derived_not_reasons [symmetric] split: if_splits)
  qed
  then have "distinct (map fst ?fields)" using fields_distinct [OF ids] by simp
  then have p: "rs_properties (build_report_tool_parameters r) = ?fields"
    by (simp add: report_properties dict_of_distinct)
  have keys: "fst ` set ?fields = set (expected_keys r)"
    by (auto simp: expected_keys_def Let_def criterion_fields_def image_iff split: if_splits)
  have "set (rs_required (build_report_tool_parameters r)) \<subseteq> fst ` set ?fields"
    unfolding keys by (auto simp: report_properties expected_keys_def Let_def)
  then show ?thesis using p keys \<open>distinct (map fst ?fields)\<close> by metis
qed

text \<open>A rubric with a required gate and an unanchored graded criterion, and a report on it.\<close>

definition demo_rubric :: Rubric where
  "demo_rubric = \<lparr>rb_criteria =
     [\<lparr>cn_id = ''safe'', cn_description = ''no leak'', cn_weight = 1, cn_kind = Kind_binary, cn_required = True, cn_expected = None\<rparr>,
      \<lparr>cn_id = ''tone'', cn_description = ''polite'', cn_weight = 2, cn_kind = Kind_graded, cn_required = False, cn_expected = None\<rparr>],
     rb_reference = None\<rparr>"

definition demo_report :: "(pystr, pyval) dict" where
  "demo_report = [(''safe_justification'', VStr ''ok. VERDICT: MET''), (''safe'', VBool True),
     (''tone_justification'', VStr ''fine. Score: 0.75''), (''tone'', VFloat (3 / 4)), (''reasons'', VStr ''good'')]"

definition demo_results :: "CriterionResult list" where
  "demo_results = [\<lparr>jc_id = ''safe'', jc_met = True, jc_score = 1, jc_justification = ''ok. VERDICT: MET''\<rparr>,
     \<lparr>jc_id = ''tone'', jc_met = True, jc_score = 3 / 4, jc_justification = ''fine. Score: 0.75''\<rparr>]"

lemma demo_rubric_valid: "validate_criterion_ids demo_rubric = None"
  by code_simp

lemma demo_parsed: "parse_submit_report demo_report demo_rubric = Inr demo_results"
  by code_simp

theorem schema_loses_no_field_witness:
  "distinct (map fst (rs_properties (build_report_tool_parameters demo_rubric))) \<and>
   length (rs_properties (build_report_tool_parameters demo_rubric)) = 6"
proof -
  have "length (concat (map criterion_fields (rb_criteria demo_rubric)) @ [(REASONS_KEY, ReasonsText)]) = 6" by code_simp
  then show ?thesis using schema_loses_no_field [OF demo_rubric_valid] by metis
qed

section \<open>What an accepted report says\<close>

lemma require_present_Inr [simp]: "require_present args k e = Inr v \<longleftrightarrow> map_of args k = Some v"
  by (simp add: require_present_def split: option.splits)

lemma coerce_binary_Inr [simp]: "coerce_binary_met v cid = Inr b \<longleftrightarrow> v = VBool b"
  by (cases v) (simp_all add: coerce_binary_met_def)

lemma coerce_graded_Inr:
  assumes "coerce_graded_score v cid = Inr q"
  shows "num_of v = Some q \<and> \<not> (\<exists>b. v = VBool b) \<and> 0 \<le> q \<and> q \<le> 1"
  using assms by (cases v) (auto simp: coerce_graded_score_def in_range_def split: if_splits)

text \<open>The verdict the judge submitted, and the marker its justification ends with.\<close>

definition verdict_read :: "(pystr, pyval) dict \<Rightarrow> Criterion \<Rightarrow> CriterionResult \<Rightarrow> bool" where
  "verdict_read args c x \<longleftrightarrow>
     (case cn_kind c of
        Kind_binary \<Rightarrow> map_of args (cn_id c) = Some (VBool (jc_met x)) \<and> jc_score x = (if jc_met x then 1 else 0)
      | Kind_graded \<Rightarrow> (case map_of args (cn_id c) of None \<Rightarrow> False | Some v \<Rightarrow> num_of v = Some (jc_score x)) \<and>
          0 \<le> jc_score x \<and> jc_score x \<le> 1 \<and> jc_met x = (1 / 2 \<le> jc_score x))"

definition marker_agrees :: "(pystr, pyval) dict \<Rightarrow> Criterion \<Rightarrow> CriterionResult \<Rightarrow> bool" where
  "marker_agrees args c x \<longleftrightarrow>
     (case map_of args (justification_key (cn_id c)) of
        Some (VStr raw) \<Rightarrow>
          (case cn_kind c of
             Kind_binary \<Rightarrow> last_match binary_marker (final_nonempty_line raw) = Some (jc_met x)
           | Kind_graded \<Rightarrow> (case last_match graded_marker (final_nonempty_line raw) of
               None \<Rightarrow> False | Some m \<Rightarrow> abs (m - jc_score x) \<le> 5 / 100 + 1 / 10 ^ 9))
      | _ \<Rightarrow> False)"

lemma read_verdict_sound:
  assumes "read_verdict c v = Inr (met, score)" and "map_of args (cn_id c) = Some v"
    and "jc_met x = met" and "jc_score x = score"
  shows "verdict_read args c x"
proof (cases "cn_kind c")
  case Kind_binary
  then show ?thesis using assms by (auto simp: read_verdict_def verdict_read_def bind_res_eq_Inr_iff)
next
  case Kind_graded
  then show ?thesis
    using assms coerce_graded_Inr [of v "cn_id c" score]
    by (auto simp: read_verdict_def verdict_read_def bind_res_eq_Inr_iff GRADED_MET_THRESHOLD_def)
qed

lemma check_marker_sound:
  assumes "check_verdict_marker c raw met score = None" and "map_of args (justification_key (cn_id c)) = Some (VStr raw)"
    and "jc_met x = met" and "jc_score x = score"
  shows "marker_agrees args c x"
proof (cases "cn_kind c")
  case Kind_binary
  then show ?thesis using assms by (auto simp: check_verdict_marker_def marker_agrees_def Let_def split: option.splits if_splits)
next
  case Kind_graded
  then show ?thesis using assms
    by (auto simp: check_verdict_marker_def marker_agrees_def Let_def GRADED_MARKER_TOLERANCE_def not_less
        split: option.splits if_splits)
qed

lemma criterion_result_sound:
  assumes "criterion_result args c = Inr x"
  shows "jc_id x = cn_id c \<and> verdict_read args c x \<and> marker_agrees args c x"
proof -
  obtain v where v: "map_of args (cn_id c) = Some v"
    using assms by (auto simp: criterion_result_def bind_res_eq_Inr_iff)
  obtain u where u: "map_of args (justification_key (cn_id c)) = Some u"
    using assms by (auto simp: criterion_result_def bind_res_eq_Inr_iff)
  then obtain raw where raw: "map_of args (justification_key (cn_id c)) = Some (VStr raw)"
    using assms v by (cases u) (auto simp: criterion_result_def require_present_def)
  obtain just met score where t: "justification_text c args raw = Inr just"
    and r: "read_verdict c v = Inr (met, score)" and m: "check_verdict_marker c raw met score = None"
    and x: "x = \<lparr>jc_id = cn_id c, jc_met = met, jc_score = score, jc_justification = just\<rparr>"
    using assms v raw
    by (auto simp: criterion_result_def require_present_def bind_res_eq_Inr_iff split: option.splits)
  show ?thesis using read_verdict_sound [OF r v, of x] check_marker_sound [OF m raw, of x] x by simp
qed

lemma verdict_read_unit: "verdict_read args c x \<Longrightarrow> 0 \<le> jc_score x \<and> jc_score x \<le> 1"
  by (cases "cn_kind c") (simp_all add: verdict_read_def)

lemma parse_results:
  assumes "parse_submit_report args r = Inr results"
  shows "list_all2 (\<lambda>c x. criterion_result args c = Inr x) (rb_criteria r) results"
    and "fst ` set args \<subseteq> set (expected_keys r)"
proof -
  show "list_all2 (\<lambda>c x. criterion_result args c = Inr x) (rb_criteria r) results"
    using assms by (auto simp: parse_submit_report_def bind_res_eq_Inr_iff Let_def traverse_Inr_iff split: if_splits)
  show "fst ` set args \<subseteq> set (expected_keys r)"
    using assms by (auto simp: parse_submit_report_def bind_res_eq_Inr_iff Let_def filter_empty_conv split: if_splits)
qed

text \<open>
  Property C29.  An accepted report is read as it was written: one result per criterion in rubric order, whose
  verdict is the submitted boolean or number (a graded one inside the unit interval, and met from one half on),
  whose justification ends with a marker that says the same, and no key outside the schema was let through.
\<close>
theorem accepted_report_is_read_faithfully:
  assumes "parse_submit_report args r = Inr results"
  shows "list_all2 (\<lambda>c x. jc_id x = cn_id c \<and> verdict_read args c x \<and> marker_agrees args c x) (rb_criteria r) results \<and>
         fst ` set args \<subseteq> set (expected_keys r)"
  using list_all2_mono [OF parse_results(1) [OF assms], of "\<lambda>c x. jc_id x = cn_id c \<and> verdict_read args c x \<and> marker_agrees args c x"]
    criterion_result_sound parse_results(2) [OF assms] by blast

theorem accepted_report_is_read_faithfully_witness:
  "list_all2 (\<lambda>c x. jc_id x = cn_id c \<and> verdict_read demo_report c x \<and> marker_agrees demo_report c x)
     (rb_criteria demo_rubric) demo_results"
  using accepted_report_is_read_faithfully [OF demo_parsed] by (rule conjunct1)

section \<open>How a report is refused\<close>

lemma traverse_Inl: "traverse f xs = Inl e \<Longrightarrow> \<exists>x \<in> set xs. f x = Inl e"
proof (induction xs)
  case Nil
  then show ?case by simp
next
  case (Cons x xs)
  then show ?case by (cases "f x"; cases "traverse f xs") auto
qed

lemma criterion_result_overflow:
  assumes "criterion_result args c = Inl e" and "\<not> is_validation_error e"
  shows "cn_kind c = Kind_graded \<and> (\<exists>i. map_of args (cn_id c) = Some (VInt i) \<and> float_overflow i)"
proof (cases "map_of args (cn_id c)")
  case None
  then show ?thesis using assms by (auto simp: criterion_result_def require_present_def is_validation_error_def)
next
  case (Some v)
  have texts: "is_validation_error d" if "justification_text c args raw = Inl d" for raw d
    using that by (auto simp: justification_text_def is_validation_error_def split: if_splits option.splits pyval.splits)
  have marker: "is_validation_error d" if "check_verdict_marker c raw met score = Some d" for raw met score d
    using that by (auto simp: check_verdict_marker_def is_validation_error_def Let_def split: if_splits option.splits)
  have verdict: "cn_kind c = Kind_graded \<and> (\<exists>i. v = VInt i \<and> float_overflow i)" if "read_verdict c v = Inl d" "\<not> is_validation_error d" for d
    using that by (cases "cn_kind c"; cases v)
      (auto simp: read_verdict_def coerce_binary_met_def coerce_graded_score_def in_range_def is_validation_error_def split: if_splits)
  have "\<exists>d. (read_verdict c v = Inl d) \<and> \<not> is_validation_error d"
    using assms Some texts marker
    by (auto simp: criterion_result_def require_present_def is_validation_error_def bind_res_def
        split: option.splits pyval.splits sum.splits)
  then show ?thesis using verdict Some by auto
qed

text \<open>
  A bad report is answered with the validation error its caller catches, with one exception: a
  graded verdict that is an integer too large for a double raises from the conversion instead.
\<close>
theorem report_refused_by_validation_or_overflow:
  assumes "parse_submit_report args r = Inl e" and "\<not> is_validation_error e"
  shows "\<exists>c \<in> set (rb_criteria r). cn_kind c = Kind_graded \<and>
           (\<exists>i. map_of args (cn_id c) = Some (VInt i) \<and> float_overflow i)"
proof -
  have "traverse (criterion_result args) (rb_criteria r) = Inl e"
    using assms by (auto simp: parse_submit_report_def bind_res_def is_validation_error_def Let_def split: sum.splits if_splits)
  then show ?thesis using traverse_Inl criterion_result_overflow assms(2) by metis
qed

definition huge_report :: "(pystr, pyval) dict" where
  "huge_report = dict_set ''tone'' (VInt (2 ^ 1024)) demo_report"

lemma huge_overflows: "parse_submit_report huge_report demo_rubric = Inl (FloatOverflow ''tone'' (2 ^ 1024))"
  by code_simp

theorem report_refused_by_validation_or_overflow_witness:
  "\<exists>c \<in> set (rb_criteria demo_rubric). cn_kind c = Kind_graded \<and>
     (\<exists>i. map_of huge_report (cn_id c) = Some (VInt i) \<and> float_overflow i)"
  using report_refused_by_validation_or_overflow [OF huge_overflows] by (simp add: is_validation_error_def)

section \<open>Writing a marker and reading it back\<close>

lemma splitlines_last:
  assumes "w \<noteq> []" and "list_all (\<lambda>c. \<not> is_linebreak c) w"
  shows "splitlines_from line w = [line @ w]"
proof -
  have "splitlines_from line (u @ v) = splitlines_from (line @ u) v" if "list_all (\<lambda>c. \<not> is_linebreak c) u" for u v
    using that by (induction u arbitrary: line) simp_all
  from this [of w "[]"] show ?thesis using assms by simp
qed

lemma newline_breaks: "is_linebreak (CHR 0x0A)" "is_linebreak (CHR 0x0D)"
  by code_simp+

lemma splitlines_append: "\<exists>ls. splitlines_from line (t @ CHR 0x0A # w) = ls @ splitlines_from [] w"
proof (induction line t rule: splitlines_from.induct)
  case (1 line)
  then show ?case by (simp add: newline_breaks)
next
  case (2 line c cs)
  show ?case
  proof (cases "is_linebreak c \<and> c = CHR 0x0D \<and> cs = []")
    case True
    then show ?thesis by (simp add: newline_breaks)
  next
    case False
    have step: "splitlines_from line ((c # cs) @ CHR 0x0A # w) =
        (if \<not> is_linebreak c then splitlines_from (line @ [c]) (cs @ CHR 0x0A # w)
         else if c = CHR 0x0D \<and> cs \<noteq> [] \<and> hd cs = CHR 0x0A then line # splitlines_from [] (tl cs @ CHR 0x0A # w)
         else line # splitlines_from [] (cs @ CHR 0x0A # w))"
      using False by (cases cs) simp_all
    consider "\<not> is_linebreak c" | "is_linebreak c" "c = CHR 0x0D \<and> cs \<noteq> [] \<and> hd cs = CHR 0x0A"
      | "is_linebreak c" "\<not> (c = CHR 0x0D \<and> cs \<noteq> [] \<and> hd cs = CHR 0x0A)" by blast
    then show ?thesis
    proof cases
      case 1
      then show ?thesis using "2.IH"(1) step by simp
    next
      case 2
      then obtain ls where "splitlines_from [] (tl cs @ CHR 0x0A # w) = ls @ splitlines_from [] w"
        using "2.IH"(2) by blast
      then show ?thesis using 2 step by (metis append_Cons)
    next
      case 3
      then obtain ls where "splitlines_from [] (cs @ CHR 0x0A # w) = ls @ splitlines_from [] w"
        using "2.IH"(3) by blast
      then show ?thesis using 3 step by (metis append_Cons)
    qed
  qed
qed

lemma final_line_of:
  assumes "w \<noteq> []" and "list_all (\<lambda>c. \<not> is_linebreak c) w" and "\<not> is_space (hd w)" and "\<not> is_space (last w)"
  shows "final_nonempty_line (t @ CHR 0x0A # w) = w"
proof -
  obtain ls where "splitlines (t @ CHR 0x0A # w) = ls @ [w]"
    using splitlines_append [of "[]" t w] splitlines_last [OF assms(1,2), of "[]"] by (auto simp: splitlines_def)
  moreover have "dropWhile is_space w = w" using assms(1,3) by (cases w) simp_all
  moreover have "dropWhile is_space (rev w) = rev w"
    using assms(1,4) by (cases w rule: rev_cases) simp_all
  ultimately show ?thesis using assms(1) by (simp add: final_nonempty_line_def strip_def)
qed

text \<open>
  A verdict written as the schema asks, on a final line of its own below any text, is read back:
  \<^verbatim>\<open>VERDICT: MET\<close> as met and \<^verbatim>\<open>VERDICT: NOT MET\<close> as not met, whatever verdicts the text above discusses.
\<close>
theorem verdict_marker_round_trip:
  "last_match binary_marker
     (final_nonempty_line (t @ CHR 0x0A # (if met then ''VERDICT: MET'' else ''VERDICT: NOT MET''))) = Some met"
proof -
  have "final_nonempty_line (t @ CHR 0x0A # ''VERDICT: MET'') = ''VERDICT: MET''"
    by (rule final_line_of; code_simp)
  moreover have "final_nonempty_line (t @ CHR 0x0A # ''VERDICT: NOT MET'') = ''VERDICT: NOT MET''"
    by (rule final_line_of; code_simp)
  moreover have "last_match binary_marker ''VERDICT: MET'' = Some True" "last_match binary_marker ''VERDICT: NOT MET'' = Some False"
    by code_simp+
  ultimately show ?thesis by simp
qed

lemma whole_match: "pat s = Some (v, []) \<Longrightarrow> s \<noteq> [] \<Longrightarrow> find_matches pat None s = [v]"
  by (cases s) simp_all

lemma decimal_plain:
  assumes "is_decimal c"
  shows "\<not> is_linebreak c \<and> \<not> is_space c"
  using assms by (simp add: is_decimal_def is_linebreak_def is_space_def Let_def)

text \<open>
  Property C40.  The score marker reads the decimals it was written with: a final line \<^verbatim>\<open>SCORE: 0.ddd\<close> below any
  text yields the value of its digits over the power of ten their number gives.
\<close>
theorem score_marker_round_trip:
  assumes "ds \<noteq> []" and "list_all is_decimal ds"
  shows "last_match graded_marker (final_nonempty_line (t @ CHR 0x0A # ''SCORE: 0.'' @ ds)) =
           Some (of_nat (read_nat ds) / 10 ^ length ds)"
proof -
  let ?w = "''SCORE: 0.'' @ ds"
  have plain: "\<not> is_linebreak c" "\<not> is_space c" if "c \<in> set ds" for c
    using decimal_plain [of c] assms(2) that by (auto simp: list_all_iff)
  have pre: "list_all (\<lambda>c. \<not> is_linebreak c) ''SCORE: 0.''" "\<not> is_space (hd ''SCORE: 0.'')" by code_simp+
  have "list_all (\<lambda>c. \<not> is_linebreak c) ?w" using pre(1) plain(1) unfolding list_all_append by (simp add: list_all_iff)
  moreover have "\<not> is_space (last ?w)" using assms(1) plain(2) by simp
  ultimately have line: "final_nonempty_line (t @ CHR 0x0A # ?w) = ?w" using pre(2) by (intro final_line_of) simp_all
  have all: "takeWhile is_decimal ds = ds" "dropWhile is_decimal ds = []" using assms(2) by (auto simp: list_all_iff)
  have "lower_char (CHR ''S'') = CHR ''s''" "lower_char (CHR ''C'') = CHR ''c''" "lower_char (CHR ''O'') = CHR ''o''"
    "lower_char (CHR ''R'') = CHR ''r''" "lower_char (CHR ''E'') = CHR ''e''" "lower_char (CHR '':'') = CHR '':''"
    "\<not> is_space (CHR '':'')" "is_space (CHR '' '')" "\<not> is_space (CHR ''0'')" by code_simp+
  then have "after_colon ''score'' ?w = Some (''0.'' @ ds)" by (simp add: after_colon_def)
  moreover have "is_decimal (CHR ''0'')" "\<not> is_decimal (CHR ''.'')" by code_simp+
  ultimately have "graded_marker ?w = Some (decimal_value ''0'' ds, [])"
    using assms(1) by (simp add: graded_marker_def Let_def all)
  then have f: "find_matches graded_marker None ?w = [decimal_value ''0'' ds]" by (intro whole_match) simp_all
  show ?thesis unfolding line last_match_def f Let_def by (simp add: decimal_value_def read_nat_def)
qed

theorem score_marker_round_trip_witness:
  "last_match graded_marker (final_nonempty_line (''score: 1'' @ CHR 0x0A # ''SCORE: 0.'' @ ''75'')) = Some (of_nat (read_nat ''75'') / 10 ^ 2)"
proof -
  have "list_all is_decimal ''75''" by code_simp
  then show ?thesis using score_marker_round_trip [of "''75''" "''score: 1''"] by simp
qed

section \<open>What an aggregate says\<close>

lemma parsed_ids:
  assumes "parse_submit_report args r = Inr results"
  shows "map jc_id results = map cn_id (rb_criteria r)"
proof -
  have "list_all2 (\<lambda>c x. jc_id x = cn_id c) (rb_criteria r) results"
    by (rule list_all2_mono [OF parse_results(1) [OF assms]]) (simp add: criterion_result_sound)
  then show ?thesis by (induction rule: list_all2_induct) simp_all
qed

lemma parsed_unit: "parse_submit_report args r = Inr results \<Longrightarrow> x \<in> set results \<Longrightarrow> 0 \<le> jc_score x \<and> jc_score x \<le> 1"
proof -
  assume p: "parse_submit_report args r = Inr results" and x: "x \<in> set results"
  obtain i where i: "i < length results" "x = results ! i" using x by (metis in_set_conv_nth)
  have "criterion_result args (rb_criteria r ! i) = Inr x"
    using parse_results(1) [OF p] i by (simp add: list_all2_conv_all_nth)
  then show ?thesis using criterion_result_sound verdict_read_unit by blast
qed

lemma result_of_id_mem: "result_of_id results cid = Some x \<Longrightarrow> x \<in> set results \<and> jc_id x = cid"
  by (auto simp: result_of_id_def map_of_dict_of dest!: map_of_SomeD)

lemma score_of_unit:
  assumes "\<And>x. x \<in> set results \<Longrightarrow> 0 \<le> jc_score x \<and> jc_score x \<le> 1"
  shows "0 \<le> score_of results cid \<and> score_of results cid \<le> 1"
  using assms result_of_id_mem by (auto simp: score_of_def split: option.splits)

lemma aggregate_Inr:
  assumes "aggregate_rubric r results = Inr a"
  shows "ra_failed_required_ids a = map cn_id (filter (\<lambda>c. cn_required c \<and> \<not> met_of results (cn_id c)) (rb_criteria r))"
    and "ra_gate_failed a \<longleftrightarrow> ra_failed_required_ids a \<noteq> []"
    and "ra_binary_pass a \<longleftrightarrow> \<not> ra_gate_failed a \<and> 1 / 2 \<le> ra_score a"
    and "filter (\<lambda>c. \<not> cn_required c) (rb_criteria r) \<noteq> [] \<Longrightarrow>
           ra_score a = sum_list (map (\<lambda>c. score_of results (cn_id c) * cn_weight c) (filter (\<lambda>c. \<not> cn_required c) (rb_criteria r))) /
                        sum_list (map cn_weight (filter (\<lambda>c. \<not> cn_required c) (rb_criteria r))) \<and>
           0 < sum_list (map cn_weight (filter (\<lambda>c. \<not> cn_required c) (rb_criteria r)))"
    and "filter (\<lambda>c. \<not> cn_required c) (rb_criteria r) = [] \<Longrightarrow> ra_score a = (if ra_gate_failed a then 0 else 1)"
  using assms
  by (auto simp: aggregate_rubric_def Let_def bind_res_eq_Inr_iff GRADED_MET_THRESHOLD_def mult.commute split: if_splits)

text \<open>
  The judge component of an accepted report: it aggregates unless the criteria outside the gate
  carry no positive weight; the gate fails exactly when some required criterion was not met, and then the
  rubric does not pass; and with weights that are not negative the score lies in the unit interval.
\<close>
lemma aggregate_of_parsed:
  assumes parsed: "parse_submit_report args r = Inr results"
    and valid: "validate_criterion_ids r = None"
    and weights: "list_all (\<lambda>c. 0 \<le> cn_weight c) (rb_criteria r)"
  shows "case aggregate_rubric r results of
           Inl e \<Rightarrow> (\<exists>w. e = NonPositiveWeight w)
         | Inr a \<Rightarrow> 0 \<le> ra_score a \<and> ra_score a \<le> 1 \<and>
             ra_gate_failed a = list_ex (\<lambda>c. cn_required c \<and> \<not> met_of results (cn_id c)) (rb_criteria r) \<and>
             (ra_binary_pass a \<longrightarrow> \<not> ra_gate_failed a)"
proof (cases "aggregate_rubric r results")
  case (Inl e)
  have "set (map jc_id results) = set (map cn_id (rb_criteria r))" "distinct (map jc_id results)"
    using parsed_ids [OF parsed] validated_criterion_ids(1) [OF valid] by simp_all
  then show ?thesis
    using Inl by (auto simp: aggregate_rubric_def Let_def bind_res_def split: if_splits)
next
  case (Inr a)
  note agg = aggregate_Inr [OF Inr]
  let ?cs = "filter (\<lambda>c. \<not> cn_required c) (rb_criteria r)"
  have unit: "0 \<le> score_of results cid \<and> score_of results cid \<le> 1" for cid
    using score_of_unit [of results cid] parsed_unit [OF parsed] by blast
  have "0 \<le> ra_score a \<and> ra_score a \<le> 1"
  proof (cases "?cs = []")
    case True
    then show ?thesis using agg(5) by simp
  next
    case False
    then show ?thesis
      using agg(4) weighted_mean_bounds [of ?cs cn_weight 0 "\<lambda>c. score_of results (cn_id c)" 1] unit weights
      by (simp add: list_all_iff)
  qed
  moreover have "ra_gate_failed a = list_ex (\<lambda>c. cn_required c \<and> \<not> met_of results (cn_id c)) (rb_criteria r)"
    unfolding agg(2) agg(1) by (auto simp: list_ex_iff filter_empty_conv)
  ultimately show ?thesis using agg(3) Inr by simp
qed

lemma demo_aggregate: "aggregate_rubric demo_rubric demo_results =
    Inr \<lparr>ra_score = 3 / 4, ra_binary_pass = True, ra_gate_failed = False, ra_failed_required_ids = []\<rparr>"
  by code_simp

text \<open>A criterion's weight has no lower bound, so a validated rubric may leave the unit interval.\<close>

lemma negative_criterion_weight:
  "\<exists>r args a. validate_criterion_ids r = None \<and> judged args r = Inr a \<and> ra_score (snd a) = 2"
proof -
  let ?c = "\<lambda>cid w. \<lparr>cn_id = cid, cn_description = [], cn_weight = w, cn_kind = Kind_binary, cn_required = False, cn_expected = None\<rparr>"
  let ?r = "\<lparr>rb_criteria = [?c ''a'' 2, ?c ''b'' (-1)], rb_reference = None\<rparr>"
  let ?args = "[(''a'', VBool True), (''a_justification'', VStr ''VERDICT: MET''),
     (''b'', VBool False), (''b_justification'', VStr ''VERDICT: NOT MET'')]"
  have valid: "validate_criterion_ids ?r = None" by code_simp
  have "case judged ?args ?r of Inl e \<Rightarrow> False | Inr a \<Rightarrow> ra_score (snd a) = 2" by code_simp
  then obtain a where "judged ?args ?r = Inr a" "ra_score (snd a) = 2" by (cases "judged ?args ?r") simp_all
  then show ?thesis using valid by (intro exI conjI)
qed

text \<open>An id with a final newline passes the identifier check.\<close>

lemma newline_id_is_safe: "safe_id (''tone'' @ [CHR 0x0A])"
  by code_simp

section \<open>The bounded retry\<close>

lemma judge_loop_cases:
  assumes "judge_loop run retries r attempts rejections = Inr res"
  shows "(\<exists>why n. res = errored_judge_result n why) \<or>
         (\<exists>k args v n. attempts \<le> k \<and> int k \<le> max retries (int attempts) \<and> run k = Report args \<and> judged args r = Inr v \<and>
            res = completed_judge_result n args v)"
  using assms
proof (induction run retries r attempts rejections rule: judge_loop.induct)
  case (1 run retries r attempts rejections)
  show ?case
  proof (cases "\<exists>args e. run attempts = Report args \<and> judged args r = Inl e \<and> is_validation_error e \<and> int (attempts + 1) \<le> retries")
    case True
    then obtain args e where t: "run attempts = Report args" "judged args r = Inl e" "is_validation_error e"
      "int (attempts + 1) \<le> retries" by blast
    let ?n = "if is_consistency_error e then rejections + 1 else rejections"
    have next_run: "judge_loop run retries r (attempts + 1) ?n = Inr res"
      using "1.prems" t by (simp add: judge_loop.simps [of run retries r attempts] Let_def)
    have "(\<exists>why n. res = errored_judge_result n why) \<or>
       (\<exists>k args v n. attempts + 1 \<le> k \<and> int k \<le> max retries (int (attempts + 1)) \<and> run k = Report args \<and> judged args r = Inr v \<and>
          res = completed_judge_result n args v)"
      by (rule "1.IH" [OF t(1) t(2)]) (use t next_run in auto)
    then show ?thesis using t(4) by (fastforce simp: max_def)
  next
    case False
    show ?thesis
    proof (cases "\<exists>args v. run attempts = Report args \<and> judged args r = Inr v")
      case True
      then obtain args v where v: "run attempts = Report args" "judged args r = Inr v" by blast
      then have "res = completed_judge_result rejections args v"
        using "1.prems" by (simp add: judge_loop.simps [of run retries r attempts])
      then show ?thesis using v by (intro disjI2 exI conjI [OF le_refl]) auto
    next
      case no_verdict: False
      then show ?thesis using False "1.prems"
        by (auto simp: judge_loop.simps [of run retries r attempts] Let_def split: loop_end.splits sum.splits if_splits)
    qed
  qed
qed

lemma judge_results:
  assumes "judge_grade run retries r = Inr res"
  shows "(jr_status res = Judge_COMPLETED \<and>
            (\<exists>k args results a. int k \<le> max retries 0 \<and> run k = Report args \<and>
               parse_submit_report args r = Inr results \<and> aggregate_rubric r results = Inr a \<and>
               jr_score res = Some (ra_score a) \<and> jr_gate_failed res = ra_gate_failed a \<and> jr_criterion_results res = results)) \<or>
         (jr_status res = Judge_ERRORED \<and> jr_score res = None \<and> jr_binary_pass res = None \<and> jr_criterion_results res = [])"
proof -
  consider (err) why n where "res = errored_judge_result n why"
    | (ok) k args v n where "int k \<le> max retries 0" "run k = Report args" "judged args r = Inr v" "res = completed_judge_result n args v"
    using judge_loop_cases [OF assms [unfolded judge_grade_def]] by auto
  then show ?thesis
  proof cases
    case err
    then show ?thesis by (simp add: errored_judge_result_def)
  next
    case ok
    then have "parse_submit_report args r = Inr (fst v)" "aggregate_rubric r (fst v) = Inr (snd v)"
      by (auto simp: judged_def bind_res_eq_Inr_iff)
    then show ?thesis using ok by (auto simp: completed_judge_result_def Let_def)
  qed
qed

text \<open>
  Property C28.  The judge never invents a score.  Whatever its runs yield, the retry loop ends; a completed
  result is the aggregate of a report that was accepted on the first attempt or on one of the configured
  retries, and an errored result carries no score, no pass and no criterion results.
\<close>
theorem judge_never_invents_a_score:
  assumes "judge_grade run retries r = Inr res"
  shows "(jr_status res = Judge_COMPLETED \<and>
            (\<exists>k args results a. int k \<le> max retries 0 \<and> run k = Report args \<and>
               parse_submit_report args r = Inr results \<and> aggregate_rubric r results = Inr a \<and>
               jr_score res = Some (ra_score a) \<and> jr_gate_failed res = ra_gate_failed a \<and> jr_criterion_results res = results)) \<or>
         (jr_status res = Judge_ERRORED \<and> jr_score res = None \<and> jr_binary_pass res = None \<and> jr_criterion_results res = [])"
  by (rule judge_results [OF assms])

definition demo_runs :: "nat \<Rightarrow> loop_end" where
  "demo_runs n = (if n = 0 then Report [] else Report demo_report)"

lemma demo_judged: "judge_grade demo_runs 1 demo_rubric = Inr (completed_judge_result 0 demo_report (demo_results, the (sum.case_sum (\<lambda>_. None) Some (aggregate_rubric demo_rubric demo_results))))"
  by code_simp

theorem judge_never_invents_a_score_witness:
  "\<exists>res. judge_grade demo_runs 1 demo_rubric = Inr res \<and> jr_status res = Judge_COMPLETED \<and> jr_score res = Some (3 / 4)"
  using judge_never_invents_a_score [OF demo_judged] demo_judged demo_aggregate
  by (simp add: completed_judge_result_def)

end
