(* ===== verification/Trial_Verdict.thy ===== *)
theory Trial_Verdict
  imports Trace_Evaluator Grade_Fold Rubric_Grading
begin

text \<open>
  The end of a trial's grading: \<^verbatim>\<open>build_grade_reasons\<close> and \<^verbatim>\<open>CompositeFold.finalise\<close> of
  \<^verbatim>\<open>tolokaforge/core/grading/composite_fold.py\<close>, which fold the components of the trace evaluator and of the rubric
  judge into one result, and the part of \<^verbatim>\<open>GradeTrial\<close> (\<^verbatim>\<open>runner/service.py\<close>) that hands them over and answers.  The reasons text is kept as the list of its segments, each with the values it
  renders; joining them with a bar is left out.
\<close>

section \<open>Segments\<close>

record FailedGoldenAction =
  fa_index :: nat
  fa_name :: pystr
  fa_kind :: pystr
  fa_error :: pystr

record GoldenReplayRecord =
  gr_authored :: nat
  gr_failures :: "FailedGoldenAction list"

record TranscriptDetail =
  td_passed :: bool
  td_message :: "pystr option"
  td_rule_type :: pystr

datatype grade_segment =
    HashMatch
  | StateDiffSummary pystr
  | HashMismatch
  | ComparisonView pystr
  | GoldenReplayErrors nat nat "FailedGoldenAction list"
  | JsonPathReasons pystr
  | JsonPathAllPassed
  | JsonPathScore pyfloat
  | DbProbeReasons pystr
  | DbProbesAllPassed
  | DbProbeScore pyfloat
  | TranscriptAllPassed nat
  | TranscriptFailures nat nat "pystr list"
  | TranscriptPassed
  | TranscriptFailed
  | TraceScore pyfloat pystr
  | FailedTraceGates "pystr list"
  | TraceCheckFailed pystr result_message
  | JudgeScore pyfloat "pystr option"
  | CustomReasons pystr
  | JudgeErrored "pystr option"
  | LedgerSkipNotes "pystr list"
  | InertWeight
  | VerdictReason fold_reason

definition truthy :: "pystr option \<Rightarrow> bool" where
  "truthy s = (case s of None \<Rightarrow> False | Some t \<Rightarrow> t \<noteq> [])"

definition incomplete_replay_reason :: "GoldenReplayRecord \<Rightarrow> grade_segment option" where
  "incomplete_replay_reason rec =
     (if gr_failures rec = [] then None
      else Some (GoldenReplayErrors (length (gr_failures rec)) (gr_authored rec) (gr_failures rec)))"

record FoldInputs =
  fi_state_diff_summary :: "pystr option"
  fi_transcript :: "TranscriptDetail list option"
  fi_judge_reasons :: "pystr option"
  fi_trace :: "TraceChecksResult option"
  fi_golden_replay :: "GoldenReplayRecord option"
  fi_custom_checks_reasons :: "pystr option"
  fi_judge_errored :: bool
  fi_ledger_skip_notes :: "pystr list"
  fi_comparison_view_reason :: "pystr option"

definition state_reasons :: "CompositeGradeComponents \<Rightarrow> FoldInputs \<Rightarrow> grade_segment list" where
  "state_reasons c i =
     (if 0 \<le> gc_hash_score c then
        (if gc_hash_match c = Some True then [HashMatch]
         else if truthy (fi_state_diff_summary i) then [StateDiffSummary (the (fi_state_diff_summary i))]
         else [HashMismatch])
      else []) @
     (if truthy (fi_comparison_view_reason i) \<and> 0 \<le> gc_hash_score c
      then [ComparisonView (the (fi_comparison_view_reason i))] else []) @
     (case fi_golden_replay i of None \<Rightarrow> []
      | Some rec \<Rightarrow> (case incomplete_replay_reason rec of None \<Rightarrow> [] | Some s \<Rightarrow> [s])) @
     (if 0 \<le> gc_jsonpath_score c then
        (if gc_jsonpath_reasons c \<noteq> [] then [JsonPathReasons (gc_jsonpath_reasons c)]
         else if gc_jsonpath_score c = 1 then [JsonPathAllPassed] else [JsonPathScore (gc_jsonpath_score c)])
      else []) @
     (if 0 \<le> gc_db_probe_score c then
        (if gc_db_probe_reasons c \<noteq> [] then [DbProbeReasons (gc_db_probe_reasons c)]
         else if gc_db_probe_score c = 1 then [DbProbesAllPassed] else [DbProbeScore (gc_db_probe_score c)])
      else [])"

definition transcript_reasons :: "CompositeGradeComponents \<Rightarrow> FoldInputs \<Rightarrow> grade_segment list" where
  "transcript_reasons c i =
     (if 0 \<le> gc_transcript_score c then
        (case fi_transcript i of
           Some details \<Rightarrow>
             let failures = filter (\<lambda>d. \<not> td_passed d) details
             in if failures = [] then [TranscriptAllPassed (length details)]
                else [TranscriptFailures (length failures) (length details)
                        (map (\<lambda>d. case td_message d of Some m \<Rightarrow> m | None \<Rightarrow> td_rule_type d) failures)]
         | None \<Rightarrow> if gc_transcript_pass c = Some True then [TranscriptPassed] else [TranscriptFailed])
      else [])"

definition trace_reasons :: "CompositeGradeComponents \<Rightarrow> FoldInputs \<Rightarrow> grade_segment list" where
  "trace_reasons c i =
     (if 0 \<le> gc_trace_checks_score c then
        (case fi_trace i of
           None \<Rightarrow> [TraceScore (gc_trace_checks_score c) []]
         | Some tr \<Rightarrow>
             [TraceScore (gc_trace_checks_score c) (tr_winning_path tr)] @
             (if tr_failed_gate_ids tr \<noteq> [] then [FailedTraceGates (tr_failed_gate_ids tr)] else []) @
             map (\<lambda>x. TraceCheckFailed (cr_id x) (cr_message x)) (filter (\<lambda>x. \<not> cr_passed x) (tr_constraints tr)))
      else [])"

definition build_grade_reasons :: "CompositeGradeComponents \<Rightarrow> FoldInputs \<Rightarrow> grade_segment list" where
  "build_grade_reasons c i =
     state_reasons c i @ transcript_reasons c i @ trace_reasons c i @
     (if 0 \<le> gc_llm_judge_score c then
        [JudgeScore (gc_llm_judge_score c) (if truthy (fi_judge_reasons i) then fi_judge_reasons i else None)] else []) @
     (if truthy (fi_custom_checks_reasons i) then [CustomReasons (the (fi_custom_checks_reasons i))] else [])"

section \<open>The fold\<close>

record CompositeFoldResult =
  cf_score :: pyfloat
  cf_binary_pass :: bool
  cf_verdict_reason :: "fold_reason option"
  cf_judge_component :: pyfloat
  cf_state_checks_component :: "pyfloat option"
  cf_inert_weight_reason :: bool
  cf_reasons :: "grade_segment list"
  cf_refusal :: bool

definition tail_segments :: "FoldInputs \<Rightarrow> bool \<Rightarrow> fold_reason option \<Rightarrow> grade_segment list" where
  "tail_segments i inert reason =
     (if fi_judge_errored i then [JudgeErrored (fi_judge_reasons i)] else []) @
     (if fi_ledger_skip_notes i \<noteq> [] \<and> fi_ledger_skip_notes i \<noteq> [[]] then [LedgerSkipNotes (fi_ledger_skip_notes i)] else []) @
     (if inert then [InertWeight] else []) @
     (case reason of None \<Rightarrow> [] | Some s \<Rightarrow> [VerdictReason s])"

definition finalise ::
    "custom_reader \<Rightarrow> CompositeGradeComponents \<Rightarrow> FoldConfig \<Rightarrow> pyfloat option \<Rightarrow> bool \<Rightarrow> bool \<Rightarrow> FoldInputs \<Rightarrow>
     fold_error + CompositeFoldResult" where
  "finalise custom c cfg hash_weight judge_gate_failed trace_gate_failed i =
     bind_res (resolve_state_checks_component (gc_hash_score c) (gc_jsonpath_score c) (gc_db_probe_score c) hash_weight) (\<lambda>slot.
     bind_res (compose_trial_verdict custom c cfg judge_gate_failed trace_gate_failed) (\<lambda>verdict.
       let c' = c\<lparr>gc_llm_judge_score := tv_judge_component verdict\<rparr>
       in Inr \<lparr>cf_score = tv_score verdict, cf_binary_pass = tv_binary_pass verdict,
               cf_verdict_reason = tv_reason verdict, cf_judge_component = tv_judge_component verdict,
               cf_state_checks_component = so_component slot, cf_inert_weight_reason = so_inert_weight_reason slot,
               cf_reasons = build_grade_reasons c' i @ tail_segments i (so_inert_weight_reason slot) (tv_reason verdict),
               cf_refusal = tv_refusal verdict\<rparr>))"

section \<open>The results as \<^verbatim>\<open>GradeTrial\<close> folds them\<close>

text \<open>
  The part of \<^verbatim>\<open>GradeTrial\<close> in \<^verbatim>\<open>runner/service.py\<close> between the evaluators and its answer.  The components come with
  what the state checks, the transcript rules and the custom checks left; \<open>None\<close> is a block that is not configured, or
  a judge that was skipped because there were no messages.
\<close>

definition record_trace :: "TraceChecksResult option \<Rightarrow> CompositeGradeComponents \<Rightarrow> CompositeGradeComponents" where
  "record_trace trace components =
     (case trace of
        None \<Rightarrow> components
      | Some r \<Rightarrow> if tr_constraints r \<noteq> [] then components\<lparr>gc_trace_checks_score := tr_score r\<rparr> else components)"

definition trace_gate :: "TraceChecksResult option \<Rightarrow> bool" where
  "trace_gate trace = (case trace of None \<Rightarrow> False | Some r \<Rightarrow> tr_gate_failed r)"

definition judge_errored :: "JudgeResult option \<Rightarrow> bool" where
  "judge_errored judge = (case judge of None \<Rightarrow> False | Some r \<Rightarrow> jr_status r = Judge_ERRORED)"

text \<open>
  An errored judge leaves its component at the sentinel and its gate open; a completed one gives both, and always
  carries a score.
\<close>

definition record_judge :: "JudgeResult option \<Rightarrow> CompositeGradeComponents \<Rightarrow> CompositeGradeComponents" where
  "record_judge judge components =
     (case judge of
        None \<Rightarrow> components
      | Some r \<Rightarrow> if jr_status r = Judge_ERRORED then components
                 else (case jr_score r of None \<Rightarrow> components | Some q \<Rightarrow> components\<lparr>gc_llm_judge_score := q\<rparr>))"

definition judge_gate :: "JudgeResult option \<Rightarrow> bool" where
  "judge_gate judge = (case judge of None \<Rightarrow> False
     | Some r \<Rightarrow> if jr_status r = Judge_ERRORED then False else jr_gate_failed r)"

datatype grade_reply =
    NotGradeable fold_error
  | RefusedGrade "fold_reason option"
  | Graded CompositeFoldResult

text \<open>A fold that raises, and a fold that refuses, leave the trial without a grade.\<close>

definition fold_graded_trial ::
    "custom_reader \<Rightarrow> FoldConfig \<Rightarrow> pyfloat option \<Rightarrow> TraceChecksResult option \<Rightarrow> JudgeResult option \<Rightarrow> FoldInputs \<Rightarrow>
     CompositeGradeComponents \<Rightarrow> grade_reply" where
  "fold_graded_trial custom cfg hash_weight trace judge i components =
     (let components1 = record_judge judge (record_trace trace components);
          i1 = i\<lparr>fi_trace := trace, fi_judge_errored := judge_errored judge\<rparr>
      in case finalise custom components1 cfg hash_weight (judge_gate judge) (trace_gate trace) i1 of
           Inl e \<Rightarrow> NotGradeable e
         | Inr f \<Rightarrow> if cf_refusal f then RefusedGrade (cf_verdict_reason f) else Graded f)"

section \<open>What the result says\<close>

lemma finalise_Inr:
  assumes "finalise custom c cfg hw jg tg i = Inr f"
  obtains v slot where "compose_trial_verdict custom c cfg jg tg = Inr v"
    and "resolve_state_checks_component (gc_hash_score c) (gc_jsonpath_score c) (gc_db_probe_score c) hw = Inr slot"
    and "f = \<lparr>cf_score = tv_score v, cf_binary_pass = tv_binary_pass v, cf_verdict_reason = tv_reason v,
           cf_judge_component = tv_judge_component v, cf_state_checks_component = so_component slot,
           cf_inert_weight_reason = so_inert_weight_reason slot,
           cf_reasons = build_grade_reasons (c\<lparr>gc_llm_judge_score := tv_judge_component v\<rparr>) i @
             tail_segments i (so_inert_weight_reason slot) (tv_reason v),
           cf_refusal = tv_refusal v\<rparr>"
  using assms by (auto simp: finalise_def bind_res_eq_Inr_iff Let_def)

lemma verdict_fields:
  assumes "compose_trial_verdict custom c cfg jg tg = Inr v"
  obtains g where "combine_grade_components custom (if jg then c\<lparr>gc_llm_judge_score := 0\<rparr> else c) cfg = Inr g"
    and "v = \<lparr>tv_judge_component = (if jg then 0 else gc_llm_judge_score c), tv_score = fg_score g,
           tv_binary_pass = (fg_binary_pass g \<and> \<not> (jg \<or> tg)), tv_reason = fg_reason g, tv_refusal = fg_refusal g\<rparr>"
  using assms by (auto simp: compose_trial_verdict_def Let_def bind_res_eq_Inr_iff)

lemma finalise_folds:
  assumes "finalise custom c cfg hw jg tg i = Inr f"
  shows "\<exists>g. combine_grade_components custom (if jg then c\<lparr>gc_llm_judge_score := 0\<rparr> else c) cfg = Inr g \<and>
           cf_score f = fg_score g \<and> cf_refusal f = fg_refusal g \<and>
           cf_binary_pass f = (fg_binary_pass g \<and> \<not> jg \<and> \<not> tg)"
proof (rule finalise_Inr [OF assms])
  fix v slot
  assume v: "compose_trial_verdict custom c cfg jg tg = Inr v"
    and f: "f = \<lparr>cf_score = tv_score v, cf_binary_pass = tv_binary_pass v, cf_verdict_reason = tv_reason v,
           cf_judge_component = tv_judge_component v, cf_state_checks_component = so_component slot,
           cf_inert_weight_reason = so_inert_weight_reason slot,
           cf_reasons = build_grade_reasons (c\<lparr>gc_llm_judge_score := tv_judge_component v\<rparr>) i @
             tail_segments i (so_inert_weight_reason slot) (tv_reason v),
           cf_refusal = tv_refusal v\<rparr>"
  show ?thesis by (rule verdict_fields [OF v]) (simp add: f)
qed

lemma folded_reason:
  assumes "combine_grade_components custom c cfg = Inr g"
  shows "(fg_refusal g \<longrightarrow> fg_reason g \<noteq> None \<and> fg_score g = 0 \<and> \<not> fg_binary_pass g)"
proof -
  obtain agg scores asked where "g = fold_verdict agg (fc_weights cfg) (fc_threshold cfg) asked scores"
    using assms by (auto simp: runner.graded)
  then show ?thesis by (simp add: fold_verdict_def free_pass_def refused_grade_def aggregated_def)
qed

text \<open>
  A result explains itself.  A refused trial scores zero, does not pass, and states its reason
  among its segments; the judge segment shows the component after its gate, not the raw aggregate; and where
  the trace component was scored, every constraint that did not pass and every gate that shut is named.
\<close>
theorem result_explains_itself:
  assumes "finalise custom c cfg hw jg tg i = Inr f"
  shows "(cf_refusal f \<longrightarrow> cf_score f = 0 \<and> \<not> cf_binary_pass f \<and>
            (\<exists>s. cf_verdict_reason f = Some s \<and> VerdictReason s \<in> set (cf_reasons f))) \<and>
         (jg \<longrightarrow> cf_judge_component f = 0 \<and> (\<exists>n. JudgeScore 0 n \<in> set (cf_reasons f)) \<and> \<not> cf_binary_pass f) \<and>
         (\<forall>q n. JudgeScore q n \<in> set (cf_reasons f) \<longrightarrow> q = cf_judge_component f) \<and>
         (\<forall>tr. fi_trace i = Some tr \<longrightarrow> 0 \<le> gc_trace_checks_score c \<longrightarrow>
            (\<forall>x \<in> set (tr_constraints tr). \<not> cr_passed x \<longrightarrow> TraceCheckFailed (cr_id x) (cr_message x) \<in> set (cf_reasons f)) \<and>
            (tr_failed_gate_ids tr \<noteq> [] \<longrightarrow> FailedTraceGates (tr_failed_gate_ids tr) \<in> set (cf_reasons f)))"
proof -
  obtain v slot where v: "compose_trial_verdict custom c cfg jg tg = Inr v"
    and "resolve_state_checks_component (gc_hash_score c) (gc_jsonpath_score c) (gc_db_probe_score c) hw = Inr slot"
    and f: "f = \<lparr>cf_score = tv_score v, cf_binary_pass = tv_binary_pass v, cf_verdict_reason = tv_reason v,
           cf_judge_component = tv_judge_component v, cf_state_checks_component = so_component slot,
           cf_inert_weight_reason = so_inert_weight_reason slot,
           cf_reasons = build_grade_reasons (c\<lparr>gc_llm_judge_score := tv_judge_component v\<rparr>) i @
             tail_segments i (so_inert_weight_reason slot) (tv_reason v),
           cf_refusal = tv_refusal v\<rparr>"
    by (rule finalise_Inr [OF assms])
  obtain g where g: "combine_grade_components custom (if jg then c\<lparr>gc_llm_judge_score := 0\<rparr> else c) cfg = Inr g"
    and v': "v = \<lparr>tv_judge_component = (if jg then 0 else gc_llm_judge_score c), tv_score = fg_score g,
           tv_binary_pass = (fg_binary_pass g \<and> \<not> (jg \<or> tg)), tv_reason = fg_reason g, tv_refusal = fg_refusal g\<rparr>"
    by (rule verdict_fields [OF v])
  have "cf_refusal f \<longrightarrow> cf_score f = 0 \<and> \<not> cf_binary_pass f \<and>
            (\<exists>s. cf_verdict_reason f = Some s \<and> VerdictReason s \<in> set (cf_reasons f))"
    using folded_reason [OF g] by (auto simp: f v' tail_segments_def)
  moreover have "jg \<longrightarrow> cf_judge_component f = 0 \<and> (\<exists>n. JudgeScore 0 n \<in> set (cf_reasons f)) \<and> \<not> cf_binary_pass f"
    by (auto simp: f v' build_grade_reasons_def)
  moreover have "q = cf_judge_component f" if "JudgeScore q n \<in> set (cf_reasons f)" for q n
    using that
    by (auto simp: f build_grade_reasons_def tail_segments_def state_reasons_def transcript_reasons_def trace_reasons_def
        incomplete_replay_reason_def Let_def split: if_splits option.splits)
  moreover have "(\<forall>x \<in> set (tr_constraints tr). \<not> cr_passed x \<longrightarrow> TraceCheckFailed (cr_id x) (cr_message x) \<in> set (cf_reasons f)) \<and>
            (tr_failed_gate_ids tr \<noteq> [] \<longrightarrow> FailedTraceGates (tr_failed_gate_ids tr) \<in> set (cf_reasons f))"
    if "fi_trace i = Some tr" "0 \<le> gc_trace_checks_score c" for tr
    using that by (auto simp: f build_grade_reasons_def trace_reasons_def)
  ultimately show ?thesis by blast
qed

definition no_inputs :: FoldInputs where
  "no_inputs = \<lparr>fi_state_diff_summary = None, fi_transcript = None, fi_judge_reasons = None, fi_trace = None,
     fi_golden_replay = None, fi_custom_checks_reasons = None, fi_judge_errored = False, fi_ledger_skip_notes = [],
     fi_comparison_view_reason = None\<rparr>"

definition judged_components :: CompositeGradeComponents where
  "judged_components = no_components\<lparr>gc_llm_judge_score := 1 / 2\<rparr>"

definition judged_config :: FoldConfig where
  "judged_config = demo_fold_config\<lparr>fc_weights := [(''llm_judge'', 1)], fc_sections := [(''llm_judge'', VDict [])]\<rparr>"

definition gated_result :: CompositeFoldResult where
  "gated_result = \<lparr>cf_score = 0, cf_binary_pass = False, cf_verdict_reason = None, cf_judge_component = 0,
     cf_state_checks_component = None, cf_inert_weight_reason = True,
     cf_reasons = [JudgeScore 0 None, InertWeight], cf_refusal = False\<rparr>"

lemma judged_finalised: "finalise demo_reader judged_components judged_config (Some (1 / 4)) True False no_inputs = Inr gated_result"
  by code_simp

theorem result_explains_itself_witness:
  "cf_judge_component gated_result = 0 \<and> (\<exists>n. JudgeScore 0 n \<in> set (cf_reasons gated_result)) \<and> \<not> cf_binary_pass gated_result"
  using result_explains_itself [OF judged_finalised] by simp

end
