(* ===== verification/Trial_Outcome.thy ===== *)
theory Trial_Outcome
  imports Transcript
begin

text \<open>
  How a trial ends and whether that ending counts: the termination reasons and trial statuses of
  \<^verbatim>\<open>tolokaforge/core/models/trial_status.py\<close>, the exceptions a turn may raise and their
  classification (\<^verbatim>\<open>classify_loop_error\<close> of \<^verbatim>\<open>tolokaforge/core/loop.py\<close> with the \<^verbatim>\<open>429\<close> evidence
  walk of \<^verbatim>\<open>tolokaforge/core/llm/client.py\<close>), the outcome classes of
  \<^verbatim>\<open>tolokaforge/core/failure_attribution.py\<close>, and the runner's downgrade of an exclusion nothing
  evidences (\<^verbatim>\<open>tolokaforge/core/runner.py\<close>).  An exception is a value: its class as far as the code
  tells classes apart, its qualified name, its text, its HTTP status and its \<^verbatim>\<open>__cause__\<close>.
\<close>

section \<open>Python text\<close>

definition str_int :: "int \<Rightarrow> pystr" where
  "str_int i = (if i < 0 then ''-'' @ str_nat (nat (- i)) else str_nat (nat i))"

definition hex_digit :: "nat \<Rightarrow> char" where
  "hex_digit d = (if d < 10 then char_of (48 + d) else char_of (87 + d))"

text \<open>\<^verbatim>\<open>repr\<close> of text whose characters are below \<^verbatim>\<open>0x100\<close>.\<close>

definition repr_char :: "char \<Rightarrow> char \<Rightarrow> pystr" where
  "repr_char quote c =
     (let n = of_char c :: nat; backslash = CHR 0x5C in
      if c = quote \<or> c = backslash then [backslash, c]
      else if n = 9 then [backslash, CHR ''t'']
      else if n = 10 then [backslash, CHR ''n'']
      else if n = 13 then [backslash, CHR ''r'']
      else if n < 32 \<or> (127 \<le> n \<and> n \<le> 160) \<or> n = 173
        then [backslash, CHR ''x'', hex_digit (n div 16), hex_digit (n mod 16)]
      else [c])"

definition repr_str :: "pystr \<Rightarrow> pystr" where
  "repr_str s =
     (let single = CHR 0x27; double = CHR 0x22;
          quote = (if single \<in> set s \<and> double \<notin> set s then double else single)
      in [quote] @ concat (map (repr_char quote) s) @ [quote])"

definition repr_opt_str :: "pystr option \<Rightarrow> pystr" where
  "repr_opt_str v = (case v of None \<Rightarrow> ''None'' | Some s \<Rightarrow> repr_str s)"

section \<open>Statuses and reasons\<close>

datatype TrialStatus = Status_COMPLETED | Status_FAILED | Status_TIMEOUT | Status_ERROR

datatype TerminationReason =
    AGENT_DONE | AGENT_SUBMITTED | USER_STOP | STUCK_DETECTED | Reason_TIMEOUT | MAX_TURNS | MAX_STEPS
  | TOO_MANY_ERRORS | TRIAL_TOKEN_BUDGET | USER_TOOL_LOOP_LIMIT | Reason_ERROR | RATE_LIMIT | API_TIMEOUT
  | API_ERROR | PROVIDER_REFUSED_ALL_REQUESTS | EMPTY_COMPLETION | PROVIDER_CONTENT_FILTER
  | REASONING_WITHOUT_ACTION | CONTEXT_WINDOW_EXCEEDED | PROVISION_ERROR | TRIAL_LOST

fun reason_value :: "TerminationReason \<Rightarrow> pystr" where
  "reason_value AGENT_DONE = ''agent_done''"
| "reason_value AGENT_SUBMITTED = ''agent_submitted''"
| "reason_value USER_STOP = ''user_stop''"
| "reason_value STUCK_DETECTED = ''stuck_detected''"
| "reason_value Reason_TIMEOUT = ''timeout''"
| "reason_value MAX_TURNS = ''max_turns''"
| "reason_value MAX_STEPS = ''max_steps''"
| "reason_value TOO_MANY_ERRORS = ''too_many_errors''"
| "reason_value TRIAL_TOKEN_BUDGET = ''trial_token_budget''"
| "reason_value USER_TOOL_LOOP_LIMIT = ''user_tool_loop_limit''"
| "reason_value Reason_ERROR = ''error''"
| "reason_value RATE_LIMIT = ''rate_limit''"
| "reason_value API_TIMEOUT = ''api_timeout''"
| "reason_value API_ERROR = ''api_error''"
| "reason_value PROVIDER_REFUSED_ALL_REQUESTS = ''provider_refused_all_requests''"
| "reason_value EMPTY_COMPLETION = ''empty_completion''"
| "reason_value PROVIDER_CONTENT_FILTER = ''provider_content_filter''"
| "reason_value REASONING_WITHOUT_ACTION = ''reasoning_without_action''"
| "reason_value CONTEXT_WINDOW_EXCEEDED = ''context_window_exceeded''"
| "reason_value PROVISION_ERROR = ''provision_error''"
| "reason_value TRIAL_LOST = ''trial_lost''"

record TerminationDecision =
  td_reason :: TerminationReason
  td_system_message :: pystr
  td_status :: "TrialStatus option"
  td_evidence :: "pystr option"

record LoopOutcome =
  lo_status :: TrialStatus
  lo_termination_reason :: "TerminationReason option"
  lo_effective_prompt :: "pystr option"
  lo_evidence :: "pystr option"

section \<open>Exceptions\<close>

datatype exn_class =
    TrialNotRegisteredError | ContextWindowExceededError | LLMApiTimeoutError | RateLimitError
  | AllApiKeysExhaustedError | SummarizerFailedError | UnassignedToolCallError | RuntimeError
  | ValueError | OtherError

datatype exn =
  Exn (exn_class: exn_class) (exn_qualname: pystr) (exn_str: pystr) (exn_status_code: "int option")
      (exn_cause: "exn option")

fun cause_chain :: "exn \<Rightarrow> exn list" where
  "cause_chain (Exn c q t st None) = [Exn c q t st None]"
| "cause_chain (Exn c q t st (Some e)) = Exn c q t st (Some e) # cause_chain e"

fun join_str :: "pystr \<Rightarrow> pystr list \<Rightarrow> pystr" where
  "join_str sep [] = []"
| "join_str sep [x] = x"
| "join_str sep (x # y # xs) = x @ sep @ join_str sep (y # xs)"

definition exception_type_evidence :: "exn \<Rightarrow> pystr" where
  "exception_type_evidence e = join_str '' <- '' (map exn_qualname (cause_chain e))"

definition EXCEPTION_CAUSE_DEPTH :: nat where
  "EXCEPTION_CAUSE_DEPTH = 4"

datatype RateLimitTypeEvidence = TYPED_429 | TERMINAL_EXHAUSTION | OTHER_HTTP_STATUS | NO_EVIDENCE

fun rate_limit_walk :: "exn list \<Rightarrow> bool \<Rightarrow> RateLimitTypeEvidence" where
  "rate_limit_walk [] saw_http_status = (if saw_http_status then OTHER_HTTP_STATUS else NO_EVIDENCE)"
| "rate_limit_walk (candidate # rest) saw_http_status =
     (if exn_class candidate = RateLimitError then TYPED_429
      else if exn_status_code candidate = Some 429 then TYPED_429
      else if exn_class candidate = AllApiKeysExhaustedError then TERMINAL_EXHAUSTION
      else rate_limit_walk rest (saw_http_status \<or> exn_status_code candidate \<noteq> None))"

definition rate_limit_type_evidence :: "exn \<Rightarrow> RateLimitTypeEvidence" where
  "rate_limit_type_evidence e = rate_limit_walk (take EXCEPTION_CAUSE_DEPTH (cause_chain e)) False"

definition is_typed_rate_limit_exception :: "exn \<Rightarrow> bool" where
  "is_typed_rate_limit_exception e \<longleftrightarrow> rate_limit_type_evidence e = TYPED_429"

text \<open>A compiled pattern is its \<^verbatim>\<open>search\<close>, a parameter of the classifier.\<close>

type_synonym rate_limit_pattern = "pystr \<Rightarrow> bool"

definition matches_rate_limit_text :: "pystr \<Rightarrow> rate_limit_pattern list \<Rightarrow> bool" where
  "matches_rate_limit_text s patterns = list_ex (\<lambda>p. p s) patterns"

definition classify_loop_error :: "exn \<Rightarrow> rate_limit_pattern list \<Rightarrow> TerminationDecision" where
  "classify_loop_error e patterns =
     (let error_str = exn_str e in
      if exn_class e = TrialNotRegisteredError then
        \<lparr>td_reason = TRIAL_LOST, td_system_message = error_str @ '' Dialogue terminated.'',
         td_status = Some Status_ERROR, td_evidence = None\<rparr>
      else if exn_class e = ContextWindowExceededError then
        \<lparr>td_reason = CONTEXT_WINDOW_EXCEEDED,
         td_system_message = ''Context window exceeded: '' @ error_str @ ''. Dialogue terminated.'',
         td_status = Some Status_FAILED, td_evidence = None\<rparr>
      else if exn_class e = LLMApiTimeoutError then
        \<lparr>td_reason = API_TIMEOUT,
         td_system_message = ''API timeout: '' @ error_str @ ''. Dialogue terminated.'',
         td_status = Some Status_ERROR, td_evidence = Some (exception_type_evidence e)\<rparr>
      else if is_typed_rate_limit_exception e then
        \<lparr>td_reason = RATE_LIMIT,
         td_system_message = ''Rate limit error: '' @ error_str @ ''. Dialogue terminated.'',
         td_status = Some Status_ERROR, td_evidence = Some (exception_type_evidence e)\<rparr>
      else if matches_rate_limit_text error_str patterns then
        \<lparr>td_reason = Reason_ERROR,
         td_system_message = ''Rate-limit-shaped error with no typed provider exception behind it, '' @
           ''so the trial is counted rather than excluded: '' @ error_str @ ''. Dialogue terminated.'',
         td_status = Some Status_ERROR, td_evidence = None\<rparr>
      else if substring ''API'' error_str \<or> substring ''OpenAI'' error_str \<or> substring ''Anthropic'' error_str then
        \<lparr>td_reason = API_ERROR,
         td_system_message = ''API error: '' @ error_str @ ''. Dialogue terminated.'',
         td_status = Some Status_ERROR, td_evidence = None\<rparr>
      else
        \<lparr>td_reason = Reason_ERROR,
         td_system_message = ''Error: '' @ error_str @ ''. Dialogue terminated.'',
         td_status = Some Status_ERROR, td_evidence = None\<rparr>)"

section \<open>Outcome classes\<close>

datatype TrialOutcomeClass = MEASURED | HARNESS_ERROR | INFRASTRUCTURE_ABORT | UNGRADEABLE

definition EXCLUDED_TYPED_REASONS :: "TerminationReason list" where
  "EXCLUDED_TYPED_REASONS =
     [API_TIMEOUT, EMPTY_COMPLETION, PROVIDER_REFUSED_ALL_REQUESTS, PROVISION_ERROR, RATE_LIMIT,
      REASONING_WITHOUT_ACTION]"

text \<open>The fields of a \<^verbatim>\<open>Trajectory\<close> the outcome class is read from.\<close>

record trial_ending =
  te_status :: TrialStatus
  te_termination_reason :: "TerminationReason option"
  te_grading_error :: "pystr option"

definition classify_trial_outcome :: "'t trial_ending_scheme \<Rightarrow> TrialOutcomeClass" where
  "classify_trial_outcome t =
     (if te_grading_error t \<noteq> None then UNGRADEABLE
      else if te_termination_reason t \<in> Some ` set EXCLUDED_TYPED_REASONS then INFRASTRUCTURE_ABORT
      else if te_termination_reason t \<in> {Some Reason_ERROR, Some TRIAL_LOST} then HARNESS_ERROR
      else if te_termination_reason t = None \<and> te_status t \<in> {Status_ERROR, Status_TIMEOUT, Status_FAILED}
        then HARNESS_ERROR
      else MEASURED)"

definition reason_downgraded_without_typed_evidence ::
    "LoopOutcome \<Rightarrow> TerminationReason option \<Rightarrow> TerminationReason option" where
  "reason_downgraded_without_typed_evidence outcome reason =
     (if reason \<notin> Some ` set EXCLUDED_TYPED_REASONS then reason
      else if lo_evidence outcome \<noteq> None then reason
      else Some Reason_ERROR)"

section \<open>Prose never excludes a trial\<close>

text \<open>The same exception, causes included, with every text rewritten.\<close>

fun reword :: "(pystr \<Rightarrow> pystr) \<Rightarrow> exn \<Rightarrow> exn" where
  "reword f (Exn c q t st None) = Exn c q (f t) st None"
| "reword f (Exn c q t st (Some e)) = Exn c q (f t) st (Some (reword f e))"

lemma reword_chain [simp]: "cause_chain (reword f e) = map (reword f) (cause_chain e)"
  by (induction f e rule: reword.induct) simp_all

lemma reword_reads [simp]:
  "exn_class (reword f e) = exn_class e" "exn_qualname (reword f e) = exn_qualname e"
  "exn_status_code (reword f e) = exn_status_code e"
  by (induction f e rule: reword.induct) simp_all

lemma reword_walk [simp]: "rate_limit_walk (map (reword f) es) b = rate_limit_walk es b"
  by (induction es arbitrary: b) simp_all

lemma reword_typed [simp]: "is_typed_rate_limit_exception (reword f e) = is_typed_rate_limit_exception e"
  by (simp add: is_typed_rate_limit_exception_def rate_limit_type_evidence_def take_map)

lemma reword_evidence [simp]: "exception_type_evidence (reword f e) = exception_type_evidence e"
  by (simp add: exception_type_evidence_def comp_def)

lemma excluded_reason_iff:
  "td_reason (classify_loop_error e ps) \<in> set EXCLUDED_TYPED_REASONS \<longleftrightarrow>
     exn_class e \<notin> {TrialNotRegisteredError, ContextWindowExceededError} \<and>
     (exn_class e = LLMApiTimeoutError \<or> is_typed_rate_limit_exception e)"
  by (simp add: classify_loop_error_def Let_def EXCLUDED_TYPED_REASONS_def)

lemma evidence_iff:
  "td_evidence (classify_loop_error e ps) =
     (if exn_class e \<notin> {TrialNotRegisteredError, ContextWindowExceededError} \<and>
         (exn_class e = LLMApiTimeoutError \<or> is_typed_rate_limit_exception e)
      then Some (exception_type_evidence e) else None)"
  by (simp add: classify_loop_error_def Let_def)

text \<open>
  No wording excludes a trial.  Whatever the text of an exception and of its causes says,
  and whatever rate-limit patterns the provider carries, \<^verbatim>\<open>classify_loop_error\<close> gives an excluding
  reason exactly when the exception is an \<^verbatim>\<open>LLMApiTimeoutError\<close> or a \<^verbatim>\<open>429\<close> is found by type or
  status within four links of its cause chain; rewording every text of the chain changes neither
  whether the trial is excluded nor the evidence.
\<close>

theorem prose_never_excludes:
  "(td_reason (classify_loop_error (reword f e) patterns') \<in> set EXCLUDED_TYPED_REASONS \<longleftrightarrow>
      td_reason (classify_loop_error e patterns) \<in> set EXCLUDED_TYPED_REASONS) \<and>
   td_evidence (classify_loop_error (reword f e) patterns') = td_evidence (classify_loop_error e patterns) \<and>
   (td_evidence (classify_loop_error e patterns) \<noteq> None \<longleftrightarrow>
      td_reason (classify_loop_error e patterns) \<in> set EXCLUDED_TYPED_REASONS)"
  by (simp add: excluded_reason_iff evidence_iff)

end
