(* ===== verification/Loop_Guards.thy ===== *)
theory Loop_Guards
  imports Trial_Outcome
begin

text \<open>
  The limits that bound a trial's dialogue from outside the model: the step and error budget of
  \<^verbatim>\<open>tolokaforge/core/simulation_budget.py\<close>, the stuck detector of \<^verbatim>\<open>tolokaforge/core/stuck.py\<close>
  and the tool-output cap of \<^verbatim>\<open>tolokaforge/core/tool_output_truncation.py\<close>.
\<close>

section \<open>The simulation budget\<close>

record SimulationBudget =
  sb_max_steps :: "int option"
  sb_max_errors :: "int option"
  sb_steps :: int
  sb_errors :: int
  sb_awaiting :: bool

definition runtime_error :: "pystr \<Rightarrow> exn" where
  "runtime_error msg = Exn RuntimeError ''RuntimeError'' msg None None"

definition value_error :: "pystr \<Rightarrow> exn" where
  "value_error msg = Exn ValueError ''ValueError'' msg None None"

definition not_positive :: "int option \<Rightarrow> bool" where
  "not_positive limit = (case limit of None \<Rightarrow> False | Some n \<Rightarrow> n < 1)"

definition new_budget :: "int option \<Rightarrow> int option \<Rightarrow> exn + SimulationBudget" where
  "new_budget max_steps max_errors =
     (if not_positive max_steps then Inl (value_error ''max_simulation_steps must be positive'')
      else if not_positive max_errors then Inl (value_error ''max_environment_errors must be positive'')
      else if max_steps = None \<and> max_errors = None
        then Inl (value_error ''simulation budget needs at least one limit'')
      else Inr \<lparr>sb_max_steps = max_steps, sb_max_errors = max_errors, sb_steps = 0, sb_errors = 0,
                sb_awaiting = False\<rparr>)"

definition reached :: "int option \<Rightarrow> int \<Rightarrow> bool" where
  "reached limit n = (case limit of None \<Rightarrow> False | Some k \<Rightarrow> n \<ge> k)"

definition budget_reason :: "SimulationBudget \<Rightarrow> TerminationReason option" where
  "budget_reason b =
     (if sb_awaiting b then None
      else if reached (sb_max_errors b) (sb_errors b) then Some TOO_MANY_ERRORS
      else if reached (sb_max_steps b) (sb_steps b) then Some MAX_STEPS
      else None)"

definition participant :: "bool \<Rightarrow> SimulationBudget \<Rightarrow> (exn + TerminationReason option) \<times> SimulationBudget" where
  "participant calls_environment b =
     (if sb_awaiting b
      then (Inl (runtime_error ''a participant replied before the pending environment batch''), b)
      else let b' = b\<lparr>sb_steps := sb_steps b + 1, sb_awaiting := calls_environment\<rparr>
           in (Inr (if calls_environment then None else budget_reason b'), b'))"

definition environment :: "int \<Rightarrow> SimulationBudget \<Rightarrow> (exn + TerminationReason option) \<times> SimulationBudget" where
  "environment errors b =
     (if \<not> sb_awaiting b
      then (Inl (runtime_error ''an environment batch answered no participant call''), b)
      else if errors < 0 then (Inl (value_error ''environment error count cannot be negative''), b)
      else let b' = b\<lparr>sb_steps := sb_steps b + 1, sb_errors := sb_errors b + errors, sb_awaiting := False\<rparr>
           in (Inr (budget_reason b'), b'))"

section \<open>Stuck detection\<close>

text \<open>
  The digest of an output and the rendering of an argument dictionary are the library's
  (\<^verbatim>\<open>hashlib.sha256(...).hexdigest()\<close> and \<^verbatim>\<open>str\<close>), hence arguments of the detector.
\<close>

definition signature ::
    "(pystr \<Rightarrow> pystr) \<Rightarrow> ((pystr, pyval) dict \<Rightarrow> pystr) \<Rightarrow> RecordedToolCall \<Rightarrow> pystr" where
  "signature digest render call =
     rc_tool_name call @ '':'' @ render (rc_arguments call) @ '':'' @ digest (rc_output call)"

text \<open>\<^verbatim>\<open>xs[-k:]\<close> for a Python integer \<open>k\<close>.\<close>

definition last_slice :: "int \<Rightarrow> 'a list \<Rightarrow> 'a list" where
  "last_slice k xs =
     (if k > 0 then drop (length xs - nat k) xs else drop (nat (- k)) xs)"

definition most_common_count :: "'a list \<Rightarrow> int" where
  "most_common_count xs = (if xs = [] then 0 else int (Max (set (map (\<lambda>x. count_list xs x) xs))))"

definition has_repeated_tool_calls ::
    "(pystr \<Rightarrow> pystr) \<Rightarrow> ((pystr, pyval) dict \<Rightarrow> pystr) \<Rightarrow> int \<Rightarrow> RecordedToolCall list \<Rightarrow> bool" where
  "has_repeated_tool_calls digest render max_repeated calls =
     (if int (length calls) < max_repeated then False
      else most_common_count (map (signature digest render) (last_slice max_repeated calls)) \<ge> max_repeated)"

definition is_stuck ::
    "(pystr \<Rightarrow> pystr) \<Rightarrow> ((pystr, pyval) dict \<Rightarrow> pystr) \<Rightarrow> int \<Rightarrow> RecordedToolCall list \<Rightarrow> bool" where
  "is_stuck digest render max_repeated calls = has_repeated_tool_calls digest render max_repeated calls"

section \<open>The tool-output cap\<close>

definition omission_marker :: "nat \<Rightarrow> nat \<Rightarrow> pystr" where
  "omission_marker omitted whole =
     [CHR 0x0A] @ ''...['' @ str_nat omitted @ '' of '' @ str_nat whole @
     '' chars omitted; narrow the request to see the rest]...'' @ [CHR 0x0A]"

definition keep_head_and_tail :: "pystr \<Rightarrow> int \<Rightarrow> exn + (pystr \<times> nat)" where
  "keep_head_and_tail t max_chars =
     (if max_chars \<le> 0 then
        Inl (value_error (''max_chars must be a positive integer, got '' @ str_int max_chars @
          ''. Set tool_output_max_chars to a positive value on the preset, '' @
          ''or leave it unset to disable the cap.''))
      else if int (length t) \<le> max_chars then Inr (t, 0)
      else let half = nat max_chars div 2; omitted = length t - 2 * half
           in Inr (take half t @ omission_marker omitted (length t) @ drop (length t - half) t, omitted))"

section \<open>What the budget guarantees\<close>

text \<open>
  The states of a budget a driver can reach that stops at the first reason it is given: a participant
  speaks only while no reason is reported, a batch answers whenever one is pending.
\<close>

inductive driven :: "int option \<Rightarrow> int option \<Rightarrow> SimulationBudget \<Rightarrow> bool" for ms me where
  started: "new_budget ms me = Inr b \<Longrightarrow> driven ms me b"
| spoke: "driven ms me b \<Longrightarrow> budget_reason b = None \<Longrightarrow> participant c b = (Inr r, b') \<Longrightarrow> driven ms me b'"
| answered: "driven ms me b \<Longrightarrow> environment n b = (Inr r, b') \<Longrightarrow> driven ms me b'"

lemma participant_ok:
  "participant c b = (Inr r, b') \<longleftrightarrow>
     \<not> sb_awaiting b \<and> b' = b\<lparr>sb_steps := sb_steps b + 1, sb_awaiting := c\<rparr> \<and>
     r = (if c then None else budget_reason b')"
  by (auto simp: participant_def Let_def)

lemma environment_ok:
  "environment n b = (Inr r, b') \<longleftrightarrow>
     sb_awaiting b \<and> 0 \<le> n \<and>
     b' = b\<lparr>sb_steps := sb_steps b + 1, sb_errors := sb_errors b + n, sb_awaiting := False\<rparr> \<and> r = budget_reason b'"
  by (auto simp: environment_def Let_def)

lemma going_on: "budget_reason b = None \<Longrightarrow> \<not> sb_awaiting b \<Longrightarrow> sb_max_steps b = Some limit \<Longrightarrow> sb_steps b < limit"
  by (simp add: budget_reason_def reached_def split: if_splits)

lemma driven_keeps:
  "driven ms me b \<Longrightarrow> sb_max_steps b = ms \<and> sb_max_errors b = me \<and> 0 \<le> sb_errors b \<and>
     (\<forall>limit. ms = Some limit \<longrightarrow> sb_steps b \<le> (if sb_awaiting b then limit else limit + 1))"
proof (induction rule: driven.induct)
  case (started b)
  then show ?case by (auto simp: new_budget_def not_positive_def split: if_splits)
next
  case (spoke b c r b')
  then show ?case using going_on [OF spoke.hyps(2)] by (auto simp: participant_ok)
next
  case (answered b n r b')
  then show ?case by (auto simp: environment_ok)
qed

text \<open>
  Property C37.  The step budget overruns by at most one step and reports honestly: in every state a
  driver that stops at the first reported reason can reach, the steps taken are at most the limit
  while a batch is pending and at most one more otherwise (the batch that closes the last
  participant step), and a reported reason names a limit that is really reached, errors before
  steps.
\<close>

theorem simulation_budget_overruns_by_one_batch:
  assumes "driven max_steps max_errors b"
  shows "(case max_steps of None \<Rightarrow> True
      | Some limit \<Rightarrow> sb_steps b \<le> limit + 1 \<and> (sb_awaiting b \<longrightarrow> sb_steps b \<le> limit)) \<and>
    (budget_reason b = Some TOO_MANY_ERRORS \<longleftrightarrow> \<not> sb_awaiting b \<and> reached max_errors (sb_errors b)) \<and>
    (budget_reason b = Some MAX_STEPS \<longleftrightarrow>
       \<not> sb_awaiting b \<and> \<not> reached max_errors (sb_errors b) \<and> reached max_steps (sb_steps b))"
  using driven_keeps [OF assms] by (auto simp: budget_reason_def split: option.split if_splits)

definition one_exchange :: SimulationBudget where
  "one_exchange = \<lparr>sb_max_steps = Some 1, sb_max_errors = None, sb_steps = 2, sb_errors = 0, sb_awaiting = False\<rparr>"

lemma one_exchange_driven: "driven (Some 1) None one_exchange"
proof -
  have "driven (Some 1) None \<lparr>sb_max_steps = Some 1, sb_max_errors = None, sb_steps = 0, sb_errors = 0, sb_awaiting = False\<rparr>"
    by (rule driven.started) (simp add: new_budget_def not_positive_def)
  then have "driven (Some 1) None \<lparr>sb_max_steps = Some 1, sb_max_errors = None, sb_steps = 1, sb_errors = 0, sb_awaiting = True\<rparr>"
    by (rule driven.spoke [where c = True and r = None]) (simp_all add: budget_reason_def reached_def participant_def)
  then show ?thesis
    by (rule driven.answered [where n = 0 and r = "Some MAX_STEPS"])
      (simp add: environment_def budget_reason_def reached_def one_exchange_def)
qed

theorem simulation_budget_overruns_by_one_batch_witness:
  "driven (Some 1) None one_exchange \<and> sb_steps one_exchange = 1 + 1 \<and> budget_reason one_exchange = Some MAX_STEPS"
  using simulation_budget_overruns_by_one_batch [OF one_exchange_driven] one_exchange_driven
  by (simp add: one_exchange_def reached_def)

section \<open>What the stuck detector detects\<close>

lemma most_common_all:
  assumes "xs \<noteq> []"
  shows "int (length xs) \<le> most_common_count xs \<longleftrightarrow> (\<forall>a \<in> set xs. \<forall>b \<in> set xs. a = b)"
proof
  assume "int (length xs) \<le> most_common_count xs"
  then obtain x where "x \<in> set xs" "length xs \<le> count_list xs x"
    using assms by (auto simp: most_common_count_def Max_ge_iff)
  have "a = x" if "a \<in> set xs" for a
  proof (rule ccontr)
    assume "a \<noteq> x"
    with length_filter_less [OF that, of "(=) x"] \<open>length xs \<le> count_list xs x\<close> show False
      by (simp add: count_list_eq_length_filter)
  qed
  then show "\<forall>a \<in> set xs. \<forall>b \<in> set xs. a = b" by blast
next
  assume all: "\<forall>a \<in> set xs. \<forall>b \<in> set xs. a = b"
  let ?x = "hd xs"
  have "filter (\<lambda>y. ?x = y) xs = xs" using all assms by (simp add: filter_id_conv)
  then have "count_list xs ?x = length xs" by (simp add: count_list_eq_length_filter)
  then show "int (length xs) \<le> most_common_count xs"
    using assms by (auto simp: most_common_count_def Max_ge_iff intro!: bexI [of _ ?x])
qed

lemma colon_split:
  "CHR '':'' \<notin> set x \<Longrightarrow> CHR '':'' \<notin> set y \<Longrightarrow> x @ CHR '':'' # u = y @ CHR '':'' # v \<Longrightarrow> x = y \<and> u = v"
proof (induction x arbitrary: y)
  case Nil
  then show ?case by (cases y) auto
next
  case (Cons c x)
  then show ?case by (cases y) auto
qed

lemma signature_inject:
  assumes "CHR '':'' \<notin> set (rc_tool_name a)" "CHR '':'' \<notin> set (rc_tool_name b)"
    and "length (digest (rc_output a)) = length (digest (rc_output b))"
    and "signature digest render a = signature digest render b"
  shows "rc_tool_name a = rc_tool_name b \<and> render (rc_arguments a) = render (rc_arguments b) \<and>
    digest (rc_output a) = digest (rc_output b)"
proof -
  from assms(4) have "rc_tool_name a @ CHR '':'' # (render (rc_arguments a) @ '':'' @ digest (rc_output a))
      = rc_tool_name b @ CHR '':'' # (render (rc_arguments b) @ '':'' @ digest (rc_output b))"
    by (simp add: signature_def)
  from colon_split [OF assms(1,2) this] have n: "rc_tool_name a = rc_tool_name b"
    and r: "(render (rc_arguments a) @ '':'') @ digest (rc_output a) = (render (rc_arguments b) @ '':'') @ digest (rc_output b)"
    by simp_all
  from r assms(3) have "render (rc_arguments a) @ '':'' = render (rc_arguments b) @ '':'' \<and> digest (rc_output a) = digest (rc_output b)"
    by (metis append_eq_append_conv)
  with n show ?thesis by simp
qed

text \<open>
  The detector fires exactly on a run of identical calls: with a limit of at least one,
  \<^verbatim>\<open>is_stuck\<close> holds iff at least that many calls are recorded and the last ones, as many as the
  limit, agree in tool, arguments and output, provided tool names hold no colon, digests have one
  length, and neither the digest nor the rendering of arguments confuses two of the recorded values.
\<close>

theorem stuck_iff_last_calls_identical:
  assumes "1 \<le> k"
    and "\<forall>c \<in> set calls. CHR '':'' \<notin> set (rc_tool_name c) \<and> length (digest (rc_output c)) = 64"
    and "inj_on digest (rc_output ` set calls)" "inj_on render (rc_arguments ` set calls)"
  shows "is_stuck digest render k calls \<longleftrightarrow>
    k \<le> int (length calls) \<and>
    (\<exists>tool arguments out. \<forall>c \<in> set (drop (length calls - nat k) calls).
       rc_tool_name c = tool \<and> rc_arguments c = arguments \<and> rc_output c = out)"
proof (cases "k \<le> int (length calls)")
  case True
  let ?recent = "drop (length calls - nat k) calls"
  have len: "int (length ?recent) = k" using True assms(1) by simp
  then have ne: "?recent \<noteq> []" using assms(1) by auto
  have sub: "set ?recent \<subseteq> set calls" by (rule set_drop_subset)
  have same: "signature digest render a = signature digest render b \<longleftrightarrow>
      rc_tool_name a = rc_tool_name b \<and> rc_arguments a = rc_arguments b \<and> rc_output a = rc_output b"
    if "a \<in> set ?recent" "b \<in> set ?recent" for a b
  proof -
    have ab: "a \<in> set calls" "b \<in> set calls" using that sub by auto
    show ?thesis
      using signature_inject [of a b digest render] assms(2) ab
        inj_on_eq_iff [OF assms(3), of "rc_output a" "rc_output b"]
        inj_on_eq_iff [OF assms(4), of "rc_arguments a" "rc_arguments b"]
      by (auto simp: signature_def)
  qed
  have "is_stuck digest render k calls \<longleftrightarrow>
      int (length (map (signature digest render) ?recent)) \<le> most_common_count (map (signature digest render) ?recent)"
    using True assms(1) len by (simp add: is_stuck_def has_repeated_tool_calls_def last_slice_def)
  also have "\<dots> \<longleftrightarrow> (\<forall>a \<in> set ?recent. \<forall>b \<in> set ?recent. signature digest render a = signature digest render b)"
    using ne by (subst most_common_all) auto
  also have "\<dots> \<longleftrightarrow> (\<exists>tool arguments out. \<forall>c \<in> set ?recent.
       rc_tool_name c = tool \<and> rc_arguments c = arguments \<and> rc_output c = out)"
  proof
    assume all: "\<forall>a \<in> set ?recent. \<forall>b \<in> set ?recent. signature digest render a = signature digest render b"
    let ?c = "hd ?recent"
    have "rc_tool_name c = rc_tool_name ?c \<and> rc_arguments c = rc_arguments ?c \<and> rc_output c = rc_output ?c"
      if "c \<in> set ?recent" for c
      by (rule iffD1 [OF same [OF that hd_in_set [OF ne]]], rule bspec [OF bspec [OF all that] hd_in_set [OF ne]])
    then show "\<exists>tool arguments out. \<forall>c \<in> set ?recent.
        rc_tool_name c = tool \<and> rc_arguments c = arguments \<and> rc_output c = out"
      by (intro exI ballI)
  qed (auto simp: signature_def)
  finally show ?thesis using True by simp
next
  case False
  then show ?thesis by (simp add: is_stuck_def has_repeated_tool_calls_def)
qed

definition polled :: "RecordedToolCall list" where
  "polled = replicate 3 \<lparr>rc_call_id = ''a'', rc_sequence = 0, rc_tool_name = ''poll'', rc_arguments = [], rc_executor = Executor_AGENT,
              rc_status = SUCCESS, rc_output = ''busy'', rc_latency_seconds = 0\<rparr>"

theorem stuck_iff_last_calls_identical_witness:
  "is_stuck (\<lambda>s. take 64 (s @ replicate 64 CHR ''.'')) (\<lambda>_. ''{}'') 3 polled \<and>
   \<not> is_stuck (\<lambda>s. take 64 (s @ replicate 64 CHR ''.'')) (\<lambda>_. ''{}'') 4 polled"
  using stuck_iff_last_calls_identical [of 3 polled "\<lambda>s. take 64 (s @ replicate 64 CHR ''.'')" "\<lambda>_. ''{}''"]
    stuck_iff_last_calls_identical [of 4 polled "\<lambda>s. take 64 (s @ replicate 64 CHR ''.'')" "\<lambda>_. ''{}''"]
  by (simp add: polled_def)

text \<open>A limit below one is met by no calls at all: the detector fires before the agent has acted.\<close>

lemma nonpositive_limit_always_fires: "k \<le> 0 \<Longrightarrow> is_stuck digest render k calls"
proof -
  assume k: "k \<le> 0"
  have "0 \<le> most_common_count xs" for xs :: "pystr list" by (simp add: most_common_count_def)
  from order_trans [OF k this] k show ?thesis
    by (simp add: is_stuck_def has_repeated_tool_calls_def)
qed

section \<open>What the cap keeps\<close>

text \<open>
  The cap keeps both ends and counts what it drops.  For a positive cap the helper never
  raises: a text within the cap comes back whole with nothing omitted; a longer one comes back as
  its first and last \<^verbatim>\<open>max_chars // 2\<close> characters around a marker that states how many of how many
  characters are missing, at least one, and head, omission and tail add up to the text.  A cap below
  one raises.
\<close>

theorem cap_keeps_both_ends:
  "(if max_chars \<le> 0 then \<not> is_ok (keep_head_and_tail t max_chars)
    else if int (length t) \<le> max_chars then keep_head_and_tail t max_chars = Inr (t, 0)
    else \<exists>head middle tail. t = head @ middle @ tail \<and> middle \<noteq> [] \<and>
      length head = nat max_chars div 2 \<and> length tail = nat max_chars div 2 \<and>
      keep_head_and_tail t max_chars =
        Inr (head @ omission_marker (length middle) (length t) @ tail, length middle))"
proof -
  { assume m: "0 < max_chars" "max_chars < int (length t)"
    let ?h = "nat max_chars div 2"
    have h: "2 * ?h < length t" using m by linarith
    have "t = take ?h t @ take (length t - 2 * ?h) (drop ?h t) @ drop (length t - ?h) t"
    proof -
      have "drop (length t - 2 * ?h) (drop ?h t) = drop (length t - ?h) t" using h by simp
      then show ?thesis by (metis append_take_drop_id)
    qed
    moreover have "length (take (length t - 2 * ?h) (drop ?h t)) = length t - 2 * ?h" using h by simp
    moreover have "take (length t - 2 * ?h) (drop ?h t) \<noteq> []" using h by simp
    moreover have "length (take ?h t) = ?h" "length (drop (length t - ?h) t) = ?h" using h by simp_all
    moreover have "keep_head_and_tail t max_chars =
        Inr (take ?h t @ omission_marker (length t - 2 * ?h) (length t) @ drop (length t - ?h) t, length t - 2 * ?h)"
      using m by (simp add: keep_head_and_tail_def Let_def)
    ultimately have "\<exists>head middle tail. t = head @ middle @ tail \<and> middle \<noteq> [] \<and>
      length head = ?h \<and> length tail = ?h \<and>
      keep_head_and_tail t max_chars =
        Inr (head @ omission_marker (length middle) (length t) @ tail, length middle)"
      by metis }
  then show ?thesis by (simp add: keep_head_and_tail_def)
qed

end
