(* ===== verification/Tool_Funnel.thy ===== *)
theory Tool_Funnel
  imports Loop_Guards Trace_Timeline
begin

text \<open>
  The state of a running trial and the one path from a parsed tool call to its executed, recorded
  result: \<^verbatim>\<open>ToolCallFunnel\<close> of \<^verbatim>\<open>tolokaforge/core/loop.py\<close>, the status and text a result is
  recorded under (\<^verbatim>\<open>tolokaforge/tools/registry.py\<close>) and the trial's recorder
  (\<^verbatim>\<open>tolokaforge/core/runner.py\<close>).  \<open>trial\<close> holds the objects the caller owns and the user's
  side of the dialogue shares: the recorded messages, the id assigner, the tool-call record, the
  simulation budget, and \<open>tr_world\<close>, everything outside the loop (provider, tools, metrics sink,
  clock).  \<open>loop_state\<close> adds the fields of a \<^verbatim>\<open>ToolCallingLoop\<close> and of its funnel, and
  \<open>ls_sent\<close>, the log of the message lists handed to the model client.  What the loop is given and
  does not own is a field of \<open>loop_env\<close>, a function on the world; each that may raise returns a sum.
\<close>

section \<open>Results of tools and generations\<close>

record ToolResult =
  tres_success :: bool
  tres_output :: pystr
  tres_error :: "pystr option"
  tres_status :: "ToolExecutionStatus option"

definition resolve_tool_status :: "ToolResult \<Rightarrow> ToolExecutionStatus" where
  "resolve_tool_status r =
     (case tres_status r of Some status \<Rightarrow> status | None \<Rightarrow> if tres_success r then SUCCESS else ERROR)"

definition TOOL_FAILURE_WITHOUT_MESSAGE :: pystr where
  "TOOL_FAILURE_WITHOUT_MESSAGE = ''Tool returned failure with no error message''"

definition resolve_tool_output :: "ToolResult \<Rightarrow> pystr" where
  "resolve_tool_output r =
     (if tres_success r then tres_output r
      else case tres_error r of
             None \<Rightarrow> TOOL_FAILURE_WITHOUT_MESSAGE
           | Some e \<Rightarrow> if e = [] then TOOL_FAILURE_WITHOUT_MESSAGE else e)"

record ParserError =
  pe_tool_name :: pystr
  pe_raw_arguments :: pystr
  pe_reason :: pystr

record GenerationResult =
  gr_text :: pystr
  gr_tool_calls :: "ToolCall list"
  gr_completion_tokens :: int
  gr_reasoning_tokens :: int
  gr_reasoning :: "pyval option"
  gr_effective_system_prompt :: "pystr option"
  gr_finish_reason :: "pystr option"
  gr_native_finish_reason :: "pystr option"
  gr_parser_errors :: "ParserError list"

record UserTurnResult =
  ut_message :: "Message option"
  ut_termination :: "TerminationDecision option"

section \<open>State and environment\<close>

record 'w trial =
  tr_messages :: "Message list"
  tr_call_ids :: call_ids
  tr_recorded :: "RecordedToolCall list"
  tr_budget :: "SimulationBudget option"
  tr_world :: 'w

record 'w loop_state = "'w trial" +
  ls_wire :: "Message list"
  ls_assigned_ids :: "pystr list"
  ls_evidence :: "pystr option"
  ls_stall_turns :: nat
  ls_effective_prompt :: "pystr option"
  ls_sent :: "Message list list"

record 'w loop_env =
  le_generate :: "pystr \<Rightarrow> Message list \<Rightarrow> 'w \<Rightarrow> (exn + GenerationResult) \<times> 'w"
  le_execute :: "pystr \<Rightarrow> (pystr, pyval) dict \<Rightarrow> pystr \<Rightarrow> pyval option option \<Rightarrow> 'w \<Rightarrow> (exn + ToolResult) \<times> 'w"
  le_should_terminate :: "GenerationResult \<Rightarrow> nat \<Rightarrow> 'w trial \<Rightarrow> (exn + TerminationDecision option) \<times> 'w"
  le_user_turn :: "('w trial \<Rightarrow> (exn + UserTurnResult) \<times> 'w trial) option"
  le_classify_error :: "exn \<Rightarrow> TerminationDecision"
  le_record_generation :: "GenerationResult \<Rightarrow> 'w \<Rightarrow> 'w"
  le_record_parser_errors :: "ParserError list \<Rightarrow> 'w \<Rightarrow> 'w"
  le_record_tool_call :: "'w \<Rightarrow> 'w"
  le_record_tool_output_truncated :: "nat \<Rightarrow> 'w \<Rightarrow> 'w"
  le_last_prompt_tokens :: "'w \<Rightarrow> int option"
  le_cumulative_tokens :: "'w \<Rightarrow> int option"
  le_time :: "'w \<Rightarrow> pyfloat \<times> 'w"
  le_acquire :: "'w \<Rightarrow> 'w"
  le_retry_sleep :: "pyfloat \<Rightarrow> 'w \<Rightarrow> 'w"
  le_has_recorder :: bool
  le_normalize_arguments :: "(pystr \<Rightarrow> (pystr, pyval) dict \<Rightarrow> pystr \<Rightarrow> exn + (pystr, pyval) dict) option"
  le_validation_schemas :: "(pystr, pyval) dict option"
  le_output_max_chars_by_tool :: "(pystr, int) dict"
  le_agent_view :: "(Message list \<Rightarrow> Message list) option"
  le_observe_generation :: "nat \<Rightarrow> nat \<Rightarrow> Message list \<Rightarrow> GenerationResult \<Rightarrow> 'w \<Rightarrow> 'w"
  le_observe_tool_call :: "nat \<Rightarrow> ToolCall \<Rightarrow> ToolResult \<Rightarrow> 'w \<Rightarrow> 'w"

definition append_both :: "Message \<Rightarrow> 'w loop_state \<Rightarrow> 'w loop_state" where
  "append_both m s = s\<lparr>tr_messages := tr_messages s @ [m], ls_wire := ls_wire s @ [m]\<rparr>"

definition record_call ::
    "pystr \<Rightarrow> pystr \<Rightarrow> (pystr, pyval) dict \<Rightarrow> ToolExecutorIdentity \<Rightarrow> ToolExecutionStatus \<Rightarrow> pystr \<Rightarrow> pyfloat
     \<Rightarrow> RecordedToolCall list \<Rightarrow> RecordedToolCall list" where
  "record_call call_id tool_name arguments executor status out latency recorded =
     recorded @ [\<lparr>rc_call_id = call_id, rc_sequence = int (length recorded), rc_tool_name = tool_name,
                  rc_arguments = arguments, rc_executor = executor, rc_status = status, rc_output = out,
                  rc_latency_seconds = latency\<rparr>]"

definition recorded_for :: "ToolExecutorIdentity \<Rightarrow> RecordedToolCall list \<Rightarrow> RecordedToolCall list" where
  "recorded_for executor recorded = filter (\<lambda>call. rc_executor call = executor) recorded"

section \<open>The funnel\<close>

fun assign_ids :: "ToolCall list \<Rightarrow> 'w loop_state \<Rightarrow> ToolCall list \<times> 'w loop_state" where
  "assign_ids [] s = ([], s)"
| "assign_ids (call # calls) s =
     (case assign (tc_id call) (tr_call_ids s) of (key, ids) \<Rightarrow>
      case assign_ids calls (s\<lparr>tr_call_ids := ids, ls_assigned_ids := key # ls_assigned_ids s\<rparr>) of
        (assigned_calls, s') \<Rightarrow> (call\<lparr>tc_id := key\<rparr> # assigned_calls, s'))"

text \<open>
  A change to the most recent assistant message of a list.  The two lists hold the same message
  object, so a change the funnel makes to a call of it is seen in both.
\<close>

fun update_first :: "('a \<Rightarrow> bool) \<Rightarrow> ('a \<Rightarrow> 'a) \<Rightarrow> 'a list \<Rightarrow> 'a list" where
  "update_first P f [] = []"
| "update_first P f (x # xs) = (if P x then f x # xs else x # update_first P f xs)"

definition update_last_assistant :: "(Message \<Rightarrow> Message) \<Rightarrow> Message list \<Rightarrow> Message list" where
  "update_last_assistant f ms = rev (update_first (\<lambda>m. m_role m = Role_ASSISTANT) f (rev ms))"

definition set_call_arguments :: "pystr \<Rightarrow> (pystr, pyval) dict \<Rightarrow> Message \<Rightarrow> Message" where
  "set_call_arguments call_id arguments m =
     m\<lparr>m_tool_calls := map_option (map (\<lambda>c. if tc_id c = call_id then c\<lparr>tc_arguments := arguments\<rparr> else c))
        (m_tool_calls m)\<rparr>"

definition recover_arguments ::
    "'w loop_env \<Rightarrow> ToolCall \<Rightarrow> pystr \<Rightarrow> 'w loop_state \<Rightarrow> (exn + ToolCall) \<times> 'w loop_state" where
  "recover_arguments env call assistant_text s =
     (case le_normalize_arguments env of
        None \<Rightarrow> (Inr call, s)
      | Some normalized \<Rightarrow>
          (case normalized (tc_name call) (tc_arguments call) assistant_text of
             Inl e \<Rightarrow> (Inl e, s)
           | Inr arguments \<Rightarrow>
               if py_eq (VDict arguments) (VDict (tc_arguments call)) then (Inr call, s)
               else let change = update_last_assistant (set_call_arguments (tc_id call) arguments)
                    in (Inr (call\<lparr>tc_arguments := arguments\<rparr>),
                        s\<lparr>tr_messages := change (tr_messages s), ls_wire := change (ls_wire s)\<rparr>)))"

text \<open>The tighter of the two caps that are set.\<close>

definition effective_cap :: "'w loop_env \<Rightarrow> int option \<Rightarrow> pystr \<Rightarrow> int option" where
  "effective_cap env max_chars tool_name =
     (case (map_of (le_output_max_chars_by_tool env) tool_name, max_chars) of
        (None, None) \<Rightarrow> None
      | (Some c, None) \<Rightarrow> Some c
      | (None, Some c) \<Rightarrow> Some c
      | (Some c, Some d) \<Rightarrow> Some (min c d))"

definition cap_tool_message_content ::
    "'w loop_env \<Rightarrow> int option \<Rightarrow> pystr \<Rightarrow> pystr \<Rightarrow> 'w \<Rightarrow> (exn + pystr) \<times> 'w" where
  "cap_tool_message_content env max_chars tool_name raw w =
     (case effective_cap env max_chars tool_name of
        None \<Rightarrow> (Inr raw, w)
      | Some cap \<Rightarrow>
          (case keep_head_and_tail raw cap of
             Inl e \<Rightarrow> (Inl e, w)
           | Inr (capped, omitted) \<Rightarrow>
               (Inr capped, if omitted \<noteq> 0 then le_record_tool_output_truncated env omitted w else w)))"

definition unassigned_tool_call :: "ToolCall \<Rightarrow> exn" where
  "unassigned_tool_call call =
     Exn UnassignedToolCallError ''UnassignedToolCallError''
       (''tool call '' @ repr_str (tc_id call) @ '' for tool '' @ repr_str (tc_name call) @
        '' was not assigned by this funnel: '' @
        ''pass the turn's calls through ToolCallFunnel.assign_ids and put the returned '' @
        ''ids on the assistant message before executing any of them'') None None"

definition tool_message :: "pystr \<Rightarrow> pystr \<Rightarrow> ToolExecutionStatus \<Rightarrow> Message" where
  "tool_message call_id content status =
     \<lparr>m_role = Role_TOOL, m_content = content, m_tool_calls = None, m_tool_call_id = Some call_id,
      m_tool_status = Some status, m_reasoning = None\<rparr>"

definition raw_tool_content :: "ToolResult \<Rightarrow> pystr" where
  "raw_tool_content r =
     (if tres_success r then tres_output r else TOOL_ERROR_MESSAGE_PREFIX @ resolve_tool_output r)"

definition record_result :: "'w loop_env \<Rightarrow> ToolCall \<Rightarrow> ToolResult \<Rightarrow> pyfloat \<Rightarrow> 'w loop_state \<Rightarrow> 'w loop_state" where
  "record_result env call r duration s =
     (if le_has_recorder env
      then s\<lparr>tr_recorded := record_call (tc_id call) (tc_name call) (tc_arguments call) Executor_AGENT
               (resolve_tool_status r) (resolve_tool_output r) duration (tr_recorded s)\<rparr>
      else s)"

text \<open>What \<^verbatim>\<open>execute\<close> writes once the tool has answered: record, capped message, observation.\<close>

definition deliver_result ::
    "'w loop_env \<Rightarrow> int option \<Rightarrow> ToolCall \<Rightarrow> ToolResult \<Rightarrow> pyfloat \<Rightarrow> 'w loop_state
     \<Rightarrow> (exn + ToolResult) \<times> 'w loop_state" where
  "deliver_result env max_chars call r duration s =
     (let s1 = record_result env call r duration s in
      case cap_tool_message_content env max_chars (tc_name call) (raw_tool_content r) (tr_world s1) of
        (Inl e, w) \<Rightarrow> (Inl e, s1\<lparr>tr_world := w\<rparr>)
      | (Inr content, w) \<Rightarrow>
          let s2 = append_both (tool_message (tc_id call) content (resolve_tool_status r)) (s1\<lparr>tr_world := w\<rparr>)
          in (Inr r, s2\<lparr>tr_world := le_observe_tool_call env (length (tr_messages s2) - 1) call r (tr_world s2)\<rparr>))"

definition execute_tool ::
    "'w loop_env \<Rightarrow> int option \<Rightarrow> ToolCall \<Rightarrow> 'w loop_state \<Rightarrow> (exn + ToolResult) \<times> 'w loop_state" where
  "execute_tool env max_chars call s =
     (case le_time env (tr_world s) of (tool_start, w1) \<Rightarrow>
      case le_execute env (tc_name call) (tc_arguments call) (tc_id call)
             (map_option (\<lambda>schemas. map_of schemas (tc_name call)) (le_validation_schemas env)) w1 of
        (Inl e, w2) \<Rightarrow> (Inl e, s\<lparr>tr_world := w2\<rparr>)
      | (Inr r, w2) \<Rightarrow>
          (case le_time env w2 of (tool_end, w3) \<Rightarrow>
             deliver_result env max_chars call r (tool_end - tool_start)
               (s\<lparr>tr_world := le_record_tool_call env w3\<rparr>)))"

definition execute ::
    "'w loop_env \<Rightarrow> int option \<Rightarrow> ToolCall \<Rightarrow> pystr \<Rightarrow> 'w loop_state \<Rightarrow> (exn + ToolResult) \<times> 'w loop_state" where
  "execute env max_chars call assistant_text s =
     (if tc_id call \<notin> set (ls_assigned_ids s) then (Inl (unassigned_tool_call call), s)
      else case recover_arguments env call assistant_text s of
             (Inl e, s1) \<Rightarrow> (Inl e, s1)
           | (Inr call1, s1) \<Rightarrow> execute_tool env max_chars call1 s1)"

fun execute_all ::
    "'w loop_env \<Rightarrow> int option \<Rightarrow> pystr \<Rightarrow> ToolCall list \<Rightarrow> 'w loop_state \<Rightarrow> (exn + ToolResult list) \<times> 'w loop_state" where
  "execute_all env max_chars assistant_text [] s = (Inr [], s)"
| "execute_all env max_chars assistant_text (call # calls) s =
     (case execute env max_chars call assistant_text s of
        (Inl e, s1) \<Rightarrow> (Inl e, s1)
      | (Inr r, s1) \<Rightarrow>
          (case execute_all env max_chars assistant_text calls s1 of
             (Inl e, s2) \<Rightarrow> (Inl e, s2)
           | (Inr rs, s2) \<Rightarrow> (Inr (r # rs), s2)))"

end
