(* ===== verification/Agent_Loop.thy ===== *)
theory Agent_Loop
  imports Tool_Funnel
begin

text \<open>
  \<^verbatim>\<open>ToolCallingLoop\<close> of \<^verbatim>\<open>tolokaforge/core/loop.py\<close>: one episode of an agent's multi-turn
  tool-calling dialogue.  Every function below is the method of the same name as a function of the
  loop's state that returns its value, or the exception it raises, together with the new state.
  The three nested loops keep their shape: \<open>run_from\<close> is the \<^verbatim>\<open>for\<close> over turns, \<open>attempt_turn\<close>
  the retry after a classified API error, \<open>sample_loop\<close> the resampling of one turn's generation;
  the measures of the last two say that each retry spends one unit of a budget of the configuration.
\<close>

section \<open>Configuration\<close>

record 'w LoopConfig =
  lc_max_turns :: int
  lc_episode_timeout_s :: int
  lc_max_trial_tokens :: "int option"
  lc_api_error_retries :: int
  lc_api_error_backoff_s :: pyfloat
  lc_empty_retry_count :: int
  lc_reasoning_stall_retry_count :: int
  lc_reasoning_stall_turn_limit :: int
  lc_output_length_retry_count :: int
  lc_parser_error_retry_count :: int
  lc_tool_output_max_chars :: "int option"
  lc_observation_window :: "int option"
  lc_observation_window_polling :: int
  lc_max_context_tokens :: "int option"
  lc_context_watermark :: "int option"
  lc_summarize_policy :: "(pystr \<Rightarrow> Message list \<Rightarrow> 'w \<Rightarrow> (exn + pystr) \<times> 'w) option"

type_synonym turn_result = "TrialStatus option \<times> TerminationReason option \<times> bool"

section \<open>Readings of a generation\<close>

definition is_content_filter_refusal :: "GenerationResult \<Rightarrow> bool" where
  "is_content_filter_refusal r \<longleftrightarrow>
     gr_finish_reason r \<in> Some ` set [''content_filter''] \<or>
     gr_native_finish_reason r \<in> Some ` set [''content_filter'', ''refusal'', ''safety'']"

definition is_reasoning_only :: "GenerationResult \<Rightarrow> bool" where
  "is_reasoning_only r \<longleftrightarrow> gr_finish_reason r = Some ''length'' \<or> gr_reasoning_tokens r \<noteq> 0"

definition reasoning_stall_evidence :: "GenerationResult \<Rightarrow> pystr" where
  "reasoning_stall_evidence r =
     ''GenerationResult with no text and no tool calls after '' @ str_int (gr_completion_tokens r) @
     '' completion tokens, '' @ str_int (gr_reasoning_tokens r) @ '' of them reasoning (finish_reason='' @
     repr_opt_str (gr_finish_reason r) @ ''), after the resample budget''"

definition EMPTY_COMPLETION_EVIDENCE :: pystr where
  "EMPTY_COMPLETION_EVIDENCE =
     ''GenerationResult with empty text and no tool calls, after the empty-completion retry budget''"

definition assistant_message :: "GenerationResult \<Rightarrow> Message" where
  "assistant_message r =
     \<lparr>m_role = Role_ASSISTANT, m_content = gr_text r,
      m_tool_calls = (if gr_tool_calls r \<noteq> [] then Some (gr_tool_calls r) else None),
      m_tool_call_id = None, m_tool_status = None, m_reasoning = gr_reasoning r\<rparr>"

definition system_message :: "pystr \<Rightarrow> Message" where
  "system_message content = text_message Role_SYSTEM content"

definition user_message :: "pystr \<Rightarrow> Message" where
  "user_message content = text_message Role_USER content"

definition parser_error_line :: "ParserError \<Rightarrow> pystr" where
  "parser_error_line e =
     ''- tool='' @ repr_str (pe_tool_name e) @ '': '' @ pe_reason e @ ''. Raw arguments: '' @
     repr_str (pe_raw_arguments e)"

definition format_parser_error_feedback :: "ParserError list \<Rightarrow> pystr" where
  "format_parser_error_feedback errors =
     join_str [CHR 0x0A]
       ([''The previous response had tool_call argument parse errors and could not be executed:''] @
        map parser_error_line errors @
        [''Please fix these issues and provide valid JSON arguments for each tool call, then try again.''])"

definition truncation_feedback :: pystr where
  "truncation_feedback =
     ''The previous response was truncated at max_tokens (finish_reason: length). Please split the next '' @
     ''action into smaller pieces (fewer tool calls per turn, shorter text) and try again.''"

definition stall_feedback :: pystr where
  "stall_feedback =
     ''The previous response contained reasoning but no action. '' @
     ''Keep deliberation short and reply with a tool call.''"

section \<open>What the model is sent\<close>

definition collapsed_content :: "pystr \<Rightarrow> pystr" where
  "collapsed_content content = ''[earlier output, '' @ str_nat (length content) @ '' characters, not shown]''"

definition live_observations :: "int \<Rightarrow> nat \<Rightarrow> int \<Rightarrow> nat" where
  "live_observations keep_last turn polling =
     nat (keep_last + (if polling > 1 then int turn mod polling else 0))"

definition tool_positions :: "Message list \<Rightarrow> nat list" where
  "tool_positions wire = filter (\<lambda>i. m_role (wire ! i) = Role_TOOL) [0 ..< length wire]"

definition with_collapsed_observations :: "Message list \<Rightarrow> int \<Rightarrow> nat \<Rightarrow> int \<Rightarrow> Message list" where
  "with_collapsed_observations wire keep_last turn polling =
     (if keep_last < 0 \<or> wire = [] then wire
      else let live = live_observations keep_last turn polling; indices = tool_positions wire in
        if length indices \<le> live then wire
        else let collapse = take (length indices - live) indices in
          map (\<lambda>(i, m). if i \<in> set collapse then m\<lparr>m_content := collapsed_content (m_content m)\<rparr> else m)
            (enumerate 0 wire))"

definition without_last_assistant_reasoning :: "Message list \<Rightarrow> Message list" where
  "without_last_assistant_reasoning wire = update_last_assistant (\<lambda>m. m\<lparr>m_reasoning := None\<rparr>) wire"

fun opening_through_user :: "Message list \<Rightarrow> Message list option" where
  "opening_through_user [] = None"
| "opening_through_user (m # ms) =
     (if m_role m = Role_USER then Some [m] else map_option (Cons m) (opening_through_user ms))"

definition wire_opening :: "Message list \<Rightarrow> Message list" where
  "wire_opening wire = (case opening_through_user wire of Some ms \<Rightarrow> ms | None \<Rightarrow> take 1 wire)"

definition read_as_agent :: "'w loop_env \<Rightarrow> Message list \<Rightarrow> Message list" where
  "read_as_agent env messages = (case le_agent_view env of None \<Rightarrow> messages | Some view \<Rightarrow> view messages)"

definition wire_to_send :: "'w LoopConfig \<Rightarrow> nat \<Rightarrow> bool \<Rightarrow> Message list \<Rightarrow> Message list" where
  "wire_to_send cfg turn replay_reasoning wire =
     (let wire1 = (case lc_observation_window cfg of
                     None \<Rightarrow> wire
                   | Some keep_last \<Rightarrow>
                       with_collapsed_observations wire keep_last turn (lc_observation_window_polling cfg))
      in if replay_reasoning then wire1 else without_last_assistant_reasoning wire1)"

definition generate ::
    "'w loop_env \<Rightarrow> 'w LoopConfig \<Rightarrow> nat \<Rightarrow> pystr \<Rightarrow> bool \<Rightarrow> 'w loop_state \<Rightarrow> (exn + GenerationResult) \<times> 'w loop_state" where
  "generate env cfg turn system_prompt replay_reasoning s =
     (let wire = wire_to_send cfg turn replay_reasoning (ls_wire s) in
      case le_generate env system_prompt wire (le_acquire env (tr_world s)) of
        (r, w) \<Rightarrow> (r, s\<lparr>tr_world := w, ls_sent := ls_sent s @ [wire]\<rparr>))"

section \<open>Stopping and summarizing\<close>

definition stop_on :: "TerminationDecision \<Rightarrow> 'w loop_state \<Rightarrow> turn_result \<times> 'w loop_state" where
  "stop_on d s = ((td_status d, Some (td_reason d), True), s\<lparr>ls_evidence := td_evidence d\<rparr>)"

definition announce_and_stop :: "TerminationDecision \<Rightarrow> 'w loop_state \<Rightarrow> turn_result \<times> 'w loop_state" where
  "announce_and_stop d s = stop_on d (append_both (system_message (td_system_message d)) s)"

definition stop_for_simulation_limit :: "TerminationReason \<Rightarrow> 'w loop_state \<Rightarrow> turn_result \<times> 'w loop_state" where
  "stop_for_simulation_limit reason s =
     announce_and_stop \<lparr>td_reason = reason, td_system_message = ''Simulation ended at '' @ reason_value reason @ ''.'',
       td_status = None, td_evidence = None\<rparr> s"

definition summarize_armed :: "'w LoopConfig \<Rightarrow> bool" where
  "summarize_armed cfg \<longleftrightarrow>
     lc_max_context_tokens cfg \<noteq> None \<and> lc_context_watermark cfg \<noteq> None \<and> lc_summarize_policy cfg \<noteq> None"

definition summarize_failure :: "pystr \<Rightarrow> TerminationDecision" where
  "summarize_failure msg =
     \<lparr>td_reason = CONTEXT_WINDOW_EXCEEDED, td_system_message = msg, td_status = Some Status_FAILED,
      td_evidence = None\<rparr>"

definition perform_summarize ::
    "'w loop_env \<Rightarrow> 'w LoopConfig \<Rightarrow> nat \<Rightarrow> pystr \<Rightarrow> pystr \<Rightarrow> 'w loop_state
     \<Rightarrow> (exn + TerminationDecision option) \<times> 'w loop_state" where
  "perform_summarize env cfg turn system_prompt trigger s =
     (case lc_summarize_policy cfg of
        None \<Rightarrow> (Inl (Exn OtherError ''AssertionError'' [] None None), s)
      | Some summarize \<Rightarrow>
          (case summarize system_prompt (read_as_agent env (tr_messages s)) (tr_world s) of
             (Inl e, w) \<Rightarrow>
               let s1 = s\<lparr>tr_world := w\<rparr> in
               if exn_class e = ContextWindowExceededError then
                 (Inr (Some (summarize_failure (''Summarize call itself exceeded the context window ('' @ trigger @
                    ''): '' @ exn_str e @ ''. Dialogue terminated.''))), s1)
               else if exn_class e = SummarizerFailedError then
                 (Inr (Some (summarize_failure (''Summarize policy produced no recap ('' @ trigger @
                    ''): '' @ exn_str e @ ''. Dialogue terminated.''))), s1)
               else (Inl e, s1)
           | (Inr recap, w) \<Rightarrow>
               let marker = system_message (''Context summarized before turn '' @ str_nat turn @ '' ('' @ trigger @
                              ''); wire history reset.'')
               in (Inr None, s\<lparr>tr_world := w, tr_messages := tr_messages s @ [marker],
                              ls_wire := wire_opening (ls_wire s) @ [user_message recap, marker]\<rparr>)))"

definition maybe_summarize ::
    "'w loop_env \<Rightarrow> 'w LoopConfig \<Rightarrow> nat \<Rightarrow> pystr \<Rightarrow> 'w loop_state
     \<Rightarrow> (exn + TerminationDecision option) \<times> 'w loop_state" where
  "maybe_summarize env cfg turn system_prompt s =
     (if \<not> summarize_armed cfg then (Inr None, s)
      else case (le_last_prompt_tokens env (tr_world s), lc_context_watermark cfg, lc_max_context_tokens cfg) of
             (Some last_tokens, Some watermark, Some max_ctx) \<Rightarrow>
               if last_tokens + watermark < max_ctx then (Inr None, s)
               else perform_summarize env cfg turn system_prompt
                      (''pre-turn watermark (prev prompt_tokens='' @ str_int last_tokens @ '', watermark='' @
                       str_int watermark @ '', max_context='' @ str_int max_ctx @ '')'') s
           | _ \<Rightarrow> (Inr None, s))"

definition maybe_reactive_summarize ::
    "'w loop_env \<Rightarrow> 'w LoopConfig \<Rightarrow> nat \<Rightarrow> pystr \<Rightarrow> 'w loop_state
     \<Rightarrow> (exn + TerminationDecision option) \<times> 'w loop_state" where
  "maybe_reactive_summarize env cfg turn system_prompt s =
     (if \<not> summarize_armed cfg then (Inr None, s)
      else perform_summarize env cfg turn system_prompt ''reactive context_window_exceeded'' s)"

section \<open>One generation, with the reactive summarize\<close>

datatype draw = Drawn GenerationResult | Draw_ended turn_result

definition draw_ended :: "turn_result \<times> 'w loop_state \<Rightarrow> (exn + draw) \<times> 'w loop_state" where
  "draw_ended p = (Inr (Draw_ended (fst p)), snd p)"

definition retry_after_summarize ::
    "'w loop_env \<Rightarrow> 'w LoopConfig \<Rightarrow> nat \<Rightarrow> pystr \<Rightarrow> 'w loop_state \<Rightarrow> (exn + draw) \<times> 'w loop_state" where
  "retry_after_summarize env cfg turn system_prompt s =
     (case generate env cfg turn system_prompt True s of
        (Inr r, s1) \<Rightarrow> (Inr (Drawn r), s1)
      | (Inl e, s1) \<Rightarrow>
          if exn_class e = ContextWindowExceededError then
            (Inr (Draw_ended (Some Status_FAILED, Some CONTEXT_WINDOW_EXCEEDED, True)),
             append_both (system_message (''Context window exceeded on the post-summarize retry: '' @ exn_str e @
               ''. Dialogue terminated.'')) s1)
          else (Inl e, s1))"

definition draw_completion ::
    "'w loop_env \<Rightarrow> 'w LoopConfig \<Rightarrow> nat \<Rightarrow> pystr \<Rightarrow> bool \<Rightarrow> 'w loop_state \<Rightarrow> (exn + draw) \<times> 'w loop_state" where
  "draw_completion env cfg turn system_prompt replay_reasoning s =
     (case generate env cfg turn system_prompt replay_reasoning s of
        (Inr r, s1) \<Rightarrow> (Inr (Drawn r), s1)
      | (Inl e, s1) \<Rightarrow>
          if exn_class e \<noteq> ContextWindowExceededError then (Inl e, s1)
          else (case maybe_reactive_summarize env cfg turn system_prompt s1 of
                  (Inl e', s2) \<Rightarrow> (Inl e', s2)
                | (Inr (Some d), s2) \<Rightarrow> draw_ended (announce_and_stop d s2)
                | (Inr None, s2) \<Rightarrow>
                    if \<not> summarize_armed cfg then (Inl e, s2)
                    else retry_after_summarize env cfg turn system_prompt s2))"

text \<open>Ids, the effective prompt and the metrics of a generation, before anything reads it.\<close>

definition capture_effective_prompt :: "GenerationResult \<Rightarrow> 'w loop_state \<Rightarrow> 'w loop_state" where
  "capture_effective_prompt r s =
     (case gr_effective_system_prompt r of
        Some p \<Rightarrow> if p \<noteq> [] \<and> ls_effective_prompt s = None then s\<lparr>ls_effective_prompt := Some p\<rparr> else s
      | None \<Rightarrow> s)"

definition register_result ::
    "'w loop_env \<Rightarrow> GenerationResult \<Rightarrow> 'w loop_state \<Rightarrow> GenerationResult \<times> 'w loop_state" where
  "register_result env r s =
     (case assign_ids (gr_tool_calls r) s of (calls, s1) \<Rightarrow>
        let r1 = r\<lparr>gr_tool_calls := calls\<rparr>;
            s2 = capture_effective_prompt r1 s1;
            w1 = le_record_generation env r1 (tr_world s2);
            w2 = (if gr_parser_errors r1 \<noteq> [] then le_record_parser_errors env (gr_parser_errors r1) w1 else w1)
        in (r1, s2\<lparr>tr_world := w2\<rparr>))"

section \<open>Resampling\<close>

record attempts =
  at_empty :: nat
  at_output_length :: nat
  at_reasoning_stall :: nat
  at_parser_error :: nat

definition no_attempts :: attempts where
  "no_attempts = \<lparr>at_empty = 0, at_output_length = 0, at_reasoning_stall = 0, at_parser_error = 0\<rparr>"

text \<open>The resamples the configuration still allows this turn.\<close>

definition attempts_left :: "'w LoopConfig \<Rightarrow> attempts \<Rightarrow> nat" where
  "attempts_left cfg a =
     nat (lc_empty_retry_count cfg - int (at_empty a)) +
     nat (lc_output_length_retry_count cfg - int (at_output_length a)) +
     nat (lc_reasoning_stall_retry_count cfg - int (at_reasoning_stall a)) +
     nat (lc_parser_error_retry_count cfg - int (at_parser_error a))"

lemma attempts_left_less [simp]:
  "int (at_parser_error a) < lc_parser_error_retry_count cfg \<Longrightarrow>
     attempts_left cfg (a\<lparr>at_parser_error := Suc (at_parser_error a)\<rparr>) < attempts_left cfg a"
  "int (at_output_length a) < lc_output_length_retry_count cfg \<Longrightarrow>
     attempts_left cfg (a\<lparr>at_output_length := Suc (at_output_length a)\<rparr>) < attempts_left cfg a"
  "int (at_reasoning_stall a) < lc_reasoning_stall_retry_count cfg \<Longrightarrow>
     attempts_left cfg (a\<lparr>at_reasoning_stall := Suc (at_reasoning_stall a)\<rparr>) < attempts_left cfg a"
  "int (at_empty a) < lc_empty_retry_count cfg \<Longrightarrow>
     attempts_left cfg (a\<lparr>at_empty := Suc (at_empty a)\<rparr>) < attempts_left cfg a"
  by (simp_all add: attempts_left_def)

datatype sample = Sampled GenerationResult bool | Sample_ended turn_result

function sample_loop ::
    "'w loop_env \<Rightarrow> 'w LoopConfig \<Rightarrow> nat \<Rightarrow> pystr \<Rightarrow> attempts \<Rightarrow> bool \<Rightarrow> bool \<Rightarrow> 'w loop_state
     \<Rightarrow> (exn + sample) \<times> 'w loop_state" where
  "sample_loop env cfg turn system_prompt a suppress_replay stalled s =
     (case draw_completion env cfg turn system_prompt (\<not> suppress_replay) s of
        (Inl e, s1) \<Rightarrow> (Inl e, s1)
      | (Inr (Draw_ended t), s1) \<Rightarrow> (Inr (Sample_ended t), s1)
      | (Inr (Drawn r0), s1) \<Rightarrow>
          (case register_result env r0 s1 of (r, s2) \<Rightarrow>
             if gr_text r \<noteq> [] \<or> gr_tool_calls r \<noteq> [] then
               if gr_parser_errors r \<noteq> [] \<and> int (at_parser_error a) < lc_parser_error_retry_count cfg then
                 sample_loop env cfg turn system_prompt (a\<lparr>at_parser_error := Suc (at_parser_error a)\<rparr>) False stalled
                   (append_both (user_message (format_parser_error_feedback (gr_parser_errors r))) s2)
               else if gr_finish_reason r = Some ''length'' \<and>
                       int (at_output_length a) < lc_output_length_retry_count cfg then
                 sample_loop env cfg turn system_prompt (a\<lparr>at_output_length := Suc (at_output_length a)\<rparr>) False stalled
                   (append_both (user_message truncation_feedback) s2)
               else (Inr (Sampled r stalled), s2)
             else if is_content_filter_refusal r then
               (Inr (Sample_ended (Some Status_FAILED, Some PROVIDER_CONTENT_FILTER, True)),
                append_both (system_message (''Provider declined the request (content filter); no text and '' @
                  ''no tool calls returned. Dialogue terminated.'')) s2)
             else if is_reasoning_only r then
               if int (at_reasoning_stall a) < lc_reasoning_stall_retry_count cfg then
                 sample_loop env cfg turn system_prompt (a\<lparr>at_reasoning_stall := Suc (at_reasoning_stall a)\<rparr>) True True
                   (append_both (user_message stall_feedback) s2)
               else
                 (Inr (Sample_ended (Some Status_FAILED, Some REASONING_WITHOUT_ACTION, True)),
                  (append_both (system_message (''Model returned reasoning but no text and no tool call; trial '' @
                     ''terminated to keep the next request provider-legal.'')) s2)
                  \<lparr>ls_evidence := Some (reasoning_stall_evidence r)\<rparr>)
             else if int (at_empty a) \<ge> lc_empty_retry_count cfg then
               (Inr (Sample_ended (Some Status_FAILED, Some EMPTY_COMPLETION, True)),
                (append_both (system_message (''Model returned an empty completion (no text, no tool calls); '' @
                   ''trial terminated to keep the next request provider-legal.'')) s2)
                \<lparr>ls_evidence := Some EMPTY_COMPLETION_EVIDENCE\<rparr>)
             else sample_loop env cfg turn system_prompt (a\<lparr>at_empty := Suc (at_empty a)\<rparr>) False stalled s2))"
  by pat_completeness auto
termination
  by (relation "measure (\<lambda>(env, cfg, turn, system_prompt, a, suppress_replay, stalled, s). attempts_left cfg a)")
    auto

declare sample_loop.simps [simp del]

section \<open>Acting on a generation\<close>

definition turn_ended :: "turn_result \<times> 'w loop_state \<Rightarrow> (exn + turn_result) \<times> 'w loop_state" where
  "turn_ended p = (Inr (fst p), snd p)"

definition carry_on :: turn_result where
  "carry_on = (None, None, False)"

definition with_budget ::
    "(SimulationBudget \<Rightarrow> (exn + TerminationReason option) \<times> SimulationBudget) \<Rightarrow> 'w loop_state
     \<Rightarrow> (exn + TerminationReason option) \<times> 'w loop_state" where
  "with_budget step s =
     (case tr_budget s of
        None \<Rightarrow> (Inr None, s)
      | Some b \<Rightarrow> (case step b of (r, b') \<Rightarrow> (r, s\<lparr>tr_budget := Some b'\<rparr>)))"

definition environment_errors :: "ToolExecutionStatus list \<Rightarrow> int" where
  "environment_errors statuses = int (length (filter (\<lambda>st. st \<in> set ENVIRONMENT_ERROR_STATUSES) statuses))"

definition execute_batch ::
    "'w loop_env \<Rightarrow> 'w LoopConfig \<Rightarrow> GenerationResult \<Rightarrow> 'w loop_state \<Rightarrow> (exn + turn_result) \<times> 'w loop_state" where
  "execute_batch env cfg r s =
     (let batch_start = length (tr_messages s) in
      case execute_all env (lc_tool_output_max_chars cfg) (gr_text r) (gr_tool_calls r) s of
        (Inl e, s1) \<Rightarrow>
          (case with_budget (environment (environment_errors
                  (List.map_filter m_tool_status (drop batch_start (tr_messages s1))))) s1 of
             (Inl e', s2) \<Rightarrow> (Inl e', s2)
           | (Inr _, s2) \<Rightarrow> (Inl e, s2))
      | (Inr results, s1) \<Rightarrow>
          (case with_budget (environment (environment_errors (map resolve_tool_status results))) s1 of
             (Inl e, s2) \<Rightarrow> (Inl e, s2)
           | (Inr (Some reason), s2) \<Rightarrow> turn_ended (stop_for_simulation_limit reason s2)
           | (Inr None, s2) \<Rightarrow> (Inr carry_on, s2)))"

definition finish_user_turn ::
    "UserTurnResult \<Rightarrow> 'w loop_state \<Rightarrow> (exn + turn_result) \<times> 'w loop_state" where
  "finish_user_turn outcome s =
     (case ut_termination outcome of
        None \<Rightarrow> (Inr carry_on, s)
      | Some d \<Rightarrow> turn_ended (announce_and_stop d s))"

definition advance_user_turn ::
    "'w loop_env \<Rightarrow> 'w loop_state \<Rightarrow> (exn + turn_result) \<times> 'w loop_state" where
  "advance_user_turn env s =
     (case le_user_turn env of
        None \<Rightarrow> (Inr carry_on, s)
      | Some user_turn \<Rightarrow>
          (case user_turn (trial.truncate s) of
             (Inl e, t) \<Rightarrow> (Inl e, trial.extend t (trial.more s))
           | (Inr outcome, t) \<Rightarrow>
               let s1 = trial.extend t (trial.more s) in
               (case ut_message outcome of
                  None \<Rightarrow> finish_user_turn outcome s1
                | Some m \<Rightarrow>
                    (case with_budget (participant (calls_of m \<noteq> [])) (append_both m s1) of
                       (Inl e, s2) \<Rightarrow> (Inl e, s2)
                     | (Inr (Some reason), s2) \<Rightarrow> turn_ended (stop_for_simulation_limit reason s2)
                     | (Inr None, s2) \<Rightarrow> finish_user_turn outcome s2))))"

definition count_stall :: "bool \<Rightarrow> 'w loop_state \<Rightarrow> 'w loop_state" where
  "count_stall stalled s = s\<lparr>ls_stall_turns := (if stalled then Suc (ls_stall_turns s) else 0)\<rparr>"

definition record_turn :: "'w loop_env \<Rightarrow> nat \<Rightarrow> GenerationResult \<Rightarrow> 'w loop_state \<Rightarrow> 'w loop_state" where
  "record_turn env turn r s =
     (let s1 = append_both (assistant_message r) s
      in s1\<lparr>tr_world := le_observe_generation env (length (tr_messages s1) - 1) turn
               (read_as_agent env (butlast (tr_messages s1))) r (tr_world s1)\<rparr>)"

definition stall_limit_reached :: "'w LoopConfig \<Rightarrow> bool \<Rightarrow> 'w loop_state \<Rightarrow> bool" where
  "stall_limit_reached cfg stalled s \<longleftrightarrow>
     stalled \<and> lc_reasoning_stall_turn_limit cfg \<noteq> 0 \<and>
     int (ls_stall_turns s) \<ge> lc_reasoning_stall_turn_limit cfg"

definition stop_stalled :: "'w LoopConfig \<Rightarrow> 'w loop_state \<Rightarrow> turn_result \<times> 'w loop_state" where
  "stop_stalled cfg s =
     ((Some Status_FAILED, Some REASONING_WITHOUT_ACTION, True),
      (append_both (system_message (''Model stalled on reasoning in '' @ str_nat (ls_stall_turns s) @
         '' consecutive turns; trial terminated.'')) s)
      \<lparr>ls_evidence := Some (str_nat (ls_stall_turns s) @ '' consecutive turns each contained a '' @
         ''generation with no text and no tool calls that billed reasoning '' @
         ''tokens, against a limit of '' @ str_int (lc_reasoning_stall_turn_limit cfg))\<rparr>)"

definition decide_and_act ::
    "'w loop_env \<Rightarrow> 'w LoopConfig \<Rightarrow> nat \<Rightarrow> GenerationResult \<Rightarrow> 'w loop_state \<Rightarrow> (exn + turn_result) \<times> 'w loop_state" where
  "decide_and_act env cfg turn r s =
     (case le_should_terminate env r turn (trial.truncate s) of
        (Inl e, w) \<Rightarrow> (Inl e, s\<lparr>tr_world := w\<rparr>)
      | (Inr (Some d), w) \<Rightarrow> turn_ended (announce_and_stop d (s\<lparr>tr_world := w\<rparr>))
      | (Inr None, w) \<Rightarrow>
          if gr_tool_calls r \<noteq> [] then execute_batch env cfg r (s\<lparr>tr_world := w\<rparr>)
          else advance_user_turn env (s\<lparr>tr_world := w\<rparr>))"

definition act_on_sample ::
    "'w loop_env \<Rightarrow> 'w LoopConfig \<Rightarrow> nat \<Rightarrow> GenerationResult \<Rightarrow> bool \<Rightarrow> 'w loop_state
     \<Rightarrow> (exn + turn_result) \<times> 'w loop_state" where
  "act_on_sample env cfg turn r stalled s =
     (case with_budget (participant (gr_tool_calls r \<noteq> [])) (record_turn env turn r (count_stall stalled s)) of
        (Inl e, s1) \<Rightarrow> (Inl e, s1)
      | (Inr (Some reason), s1) \<Rightarrow> turn_ended (stop_for_simulation_limit reason s1)
      | (Inr None, s1) \<Rightarrow>
          if stall_limit_reached cfg stalled s1 then turn_ended (stop_stalled cfg s1)
          else decide_and_act env cfg turn r s1)"

definition run_turn ::
    "'w loop_env \<Rightarrow> 'w LoopConfig \<Rightarrow> nat \<Rightarrow> pystr \<Rightarrow> 'w loop_state \<Rightarrow> (exn + turn_result) \<times> 'w loop_state" where
  "run_turn env cfg turn system_prompt s =
     (case maybe_summarize env cfg turn system_prompt s of
        (Inl e, s1) \<Rightarrow> (Inl e, s1)
      | (Inr (Some d), s1) \<Rightarrow> turn_ended (announce_and_stop d s1)
      | (Inr None, s1) \<Rightarrow>
          (case sample_loop env cfg turn system_prompt no_attempts False False s1 of
             (Inl e, s2) \<Rightarrow> (Inl e, s2)
           | (Inr (Sample_ended t), s2) \<Rightarrow> (Inr t, s2)
           | (Inr (Sampled r stalled), s2) \<Rightarrow> act_on_sample env cfg turn r stalled s2))"

section \<open>Turns, retries and the episode\<close>

definition episode_timeout_decision :: "pyfloat \<Rightarrow> int \<Rightarrow> pyfloat \<Rightarrow> TerminationDecision option" where
  "episode_timeout_decision start_time episode_timeout_s now =
     (if now - start_time \<le> of_int episode_timeout_s then None
      else Some \<lparr>td_reason = Reason_TIMEOUT,
        td_system_message = ''Episode timeout reached ('' @ str_int episode_timeout_s @ ''s). Dialogue terminated.'',
        td_status = Some Status_TIMEOUT, td_evidence = None\<rparr>)"

definition check_trial_token_budget :: "'w loop_env \<Rightarrow> 'w LoopConfig \<Rightarrow> 'w \<Rightarrow> TerminationDecision option" where
  "check_trial_token_budget env cfg w =
     (case (lc_max_trial_tokens cfg, le_cumulative_tokens env w) of
        (Some limit, Some spent) \<Rightarrow>
          if spent < limit then None
          else Some \<lparr>td_reason = TRIAL_TOKEN_BUDGET,
            td_system_message = ''Per-trial token budget reached ('' @ str_int spent @ '' >= '' @ str_int limit @
              '' tokens). Dialogue terminated.'',
            td_status = None, td_evidence = None\<rparr>
      | _ \<Rightarrow> None)"

function attempt_turn ::
    "'w loop_env \<Rightarrow> 'w LoopConfig \<Rightarrow> nat \<Rightarrow> pystr \<Rightarrow> pyfloat \<Rightarrow> nat \<Rightarrow> 'w loop_state
     \<Rightarrow> (TerminationDecision + turn_result) \<times> 'w loop_state" where
  "attempt_turn env cfg turn system_prompt start_time api_error_attempts s =
     (case le_time env (tr_world s) of (now, w) \<Rightarrow>
        let s0 = s\<lparr>tr_world := w\<rparr> in
        case episode_timeout_decision start_time (lc_episode_timeout_s cfg) now of
          Some d \<Rightarrow> (Inl d, s0)
        | None \<Rightarrow>
            (case check_trial_token_budget env cfg w of
               Some d \<Rightarrow> (Inl d, s0)
             | None \<Rightarrow>
                 (case run_turn env cfg turn system_prompt s0 of
                    (Inr t, s1) \<Rightarrow> (Inr t, s1)
                  | (Inl e, s1) \<Rightarrow>
                      let d = le_classify_error env e in
                      if td_reason d = API_ERROR \<and> int api_error_attempts < lc_api_error_retries cfg
                      then attempt_turn env cfg turn system_prompt start_time (Suc api_error_attempts)
                             (s1\<lparr>tr_world := le_retry_sleep env (lc_api_error_backoff_s cfg) (tr_world s1)\<rparr>)
                      else (Inl d, s1))))"
  by pat_completeness auto
termination
  by (relation "measure (\<lambda>(env, cfg, turn, system_prompt, start_time, n, s). nat (lc_api_error_retries cfg - int n))")
    auto

declare attempt_turn.simps [simp del]

fun run_from ::
    "'w loop_env \<Rightarrow> 'w LoopConfig \<Rightarrow> pystr \<Rightarrow> pyfloat \<Rightarrow> nat list \<Rightarrow> TrialStatus \<Rightarrow> 'w loop_state
     \<Rightarrow> (TrialStatus \<times> TerminationReason option) \<times> 'w loop_state" where
  "run_from env cfg system_prompt start_time [] status s =
     ((status, Some MAX_TURNS),
      append_both (system_message (''Maximum turns ('' @ str_int (lc_max_turns cfg) @
        '') reached. Dialogue terminated.'')) s)"
| "run_from env cfg system_prompt start_time (turn # turns) status s =
     (case attempt_turn env cfg turn system_prompt start_time 0 s of
        (Inl d, s1) \<Rightarrow>
          (((case td_status d of Some st \<Rightarrow> st | None \<Rightarrow> status), Some (td_reason d)),
           (append_both (system_message (td_system_message d)) s1)\<lparr>ls_evidence := td_evidence d\<rparr>)
      | (Inr (turn_status, turn_reason, stop), s1) \<Rightarrow>
          let status1 = (case turn_status of Some st \<Rightarrow> st | None \<Rightarrow> status) in
          if stop then ((status1, turn_reason), s1)
          else run_from env cfg system_prompt start_time turns status1 s1)"

definition run ::
    "'w loop_env \<Rightarrow> 'w LoopConfig \<Rightarrow> pystr \<Rightarrow> pyfloat \<Rightarrow> 'w loop_state \<Rightarrow> LoopOutcome \<times> 'w loop_state" where
  "run env cfg system_prompt start_time s =
     (let s0 = s\<lparr>ls_wire := read_as_agent env (tr_messages s), ls_evidence := None, ls_stall_turns := 0\<rparr> in
      case run_from env cfg system_prompt start_time [0 ..< nat (lc_max_turns cfg)] Status_COMPLETED s0 of
        ((status, reason), s1) \<Rightarrow>
          (\<lparr>lo_status = status, lo_termination_reason = reason, lo_effective_prompt = ls_effective_prompt s1,
            lo_evidence = ls_evidence s1\<rparr>, s1))"

section \<open>The observation window\<close>

lemma in_take_filter_upt:
  "i \<in> set (take j (filter P [0 ..< n])) \<longleftrightarrow> i < n \<and> P i \<and> length (filter P [0 ..< i]) < j"
proof (induction n)
  case (Suc n)
  have mono: "length (filter P [0 ..< i]) < length (filter P [0 ..< n])" if "i < n" "P i"
  proof -
    have "filter P [0 ..< n] = filter P [0 ..< i] @ filter P [i ..< n]"
      using that(1) upt_add_eq_append [of 0 i "n - i"] by (simp flip: filter_append)
    moreover have "i \<in> set (filter P [i ..< n])" using that by simp
    ultimately show ?thesis by (metis length_append length_pos_if_in_set less_add_same_cancel1)
  qed
  show ?case
    using Suc mono by (cases "j \<le> length (filter P [0 ..< n])") (auto simp: less_Suc_eq)
qed simp

lemma observations_before:
  assumes "i \<le> length wire"
  shows "length (tool_positions wire) =
    length (filter (\<lambda>j. m_role (wire ! j) = Role_TOOL) [0 ..< i]) + length (filter (\<lambda>m. m_role m = Role_TOOL) (drop i wire))"
proof -
  have "length (tool_positions wire) = length (filter (\<lambda>m. m_role m = Role_TOOL) wire)"
  proof -
    have "filter (\<lambda>m. m_role m = Role_TOOL) (map ((!) wire) [0 ..< length wire]) =
        map ((!) wire) (tool_positions wire)"
      by (simp add: filter_map comp_def tool_positions_def)
    then show ?thesis by (simp add: map_nth)
  qed
  moreover have "length (filter (\<lambda>m. m_role m = Role_TOOL) (take i wire)) =
      length (filter (\<lambda>j. m_role (wire ! j) = Role_TOOL) [0 ..< i])"
  proof -
    have "take i wire = map ((!) wire) [0 ..< i]" using assms by (simp add: list_eq_iff_nth_eq)
    then show ?thesis by (simp add: filter_map comp_def)
  qed
  moreover have "filter (\<lambda>m. m_role m = Role_TOOL) wire =
      filter (\<lambda>m. m_role m = Role_TOOL) (take i wire) @ filter (\<lambda>m. m_role m = Role_TOOL) (drop i wire)"
    by (simp flip: filter_append)
  ultimately show ?thesis by simp
qed

text \<open>
  The observation window collapses exactly the older observations: for a window of at
  least zero the list sent has every message at its place, and the message at a position is changed
  only if it is a \<^verbatim>\<open>role: tool\<close> message with at least as many tool messages after it as are live,
  in which case its content, and nothing else of it, becomes the line that says how long it was.
  Between \<^verbatim>\<open>observation_window\<close> and \<^verbatim>\<open>observation_window + polling - 1\<close> observations are live.
\<close>

theorem window_collapses_older_observations:
  assumes "0 \<le> window"
  shows "\<exists>live. window \<le> int live \<and> int live \<le> window + max 0 (polling - 1) \<and>
    length (with_collapsed_observations wire window turn polling) = length wire \<and>
    (\<forall>i < length wire. with_collapsed_observations wire window turn polling ! i =
      (if m_role (wire ! i) = Role_TOOL \<and> live \<le> length (filter (\<lambda>m. m_role m = Role_TOOL) (drop (Suc i) wire))
       then (wire ! i)\<lparr>m_content := collapsed_content (m_content (wire ! i))\<rparr> else wire ! i))"
proof -
  let ?live = "live_observations window turn polling"
  let ?n = "length (tool_positions wire)"
  have bounds: "window \<le> int ?live" "int ?live \<le> window + max 0 (polling - 1)"
    using assms pos_mod_bound [of polling "int turn"] pos_mod_sign [of polling "int turn"]
    by (auto simp: live_observations_def)
  have collapsed: "i \<in> set (take (?n - ?live) (tool_positions wire)) \<longleftrightarrow>
      m_role (wire ! i) = Role_TOOL \<and> ?live \<le> length (filter (\<lambda>m. m_role m = Role_TOOL) (drop (Suc i) wire))"
    if i: "i < length wire" for i
  proof (cases "m_role (wire ! i) = Role_TOOL")
    case True
    then have "drop i wire = wire ! i # drop (Suc i) wire" using i by (simp add: Cons_nth_drop_Suc)
    with observations_before [of i wire] i True
    have "?n = length (filter (\<lambda>j. m_role (wire ! j) = Role_TOOL) [0 ..< i]) +
        Suc (length (filter (\<lambda>m. m_role m = Role_TOOL) (drop (Suc i) wire)))" by simp
    then show ?thesis
      using i True by (auto simp: tool_positions_def in_take_filter_upt)
  qed (simp add: tool_positions_def in_take_filter_upt)
  have "with_collapsed_observations wire window turn polling ! i =
      (if i \<in> set (take (?n - ?live) (tool_positions wire))
       then (wire ! i)\<lparr>m_content := collapsed_content (m_content (wire ! i))\<rparr> else wire ! i)"
    if "i < length wire" for i
    using assms that by (auto simp: with_collapsed_observations_def Let_def nth_enumerate_eq)
  moreover have "length (with_collapsed_observations wire window turn polling) = length wire"
    by (simp add: with_collapsed_observations_def Let_def)
  ultimately show ?thesis using bounds collapsed by (intro exI [of _ ?live]) simp
qed

theorem window_collapses_older_observations_witness:
  "\<exists>live. int live = 1 \<and>
    (let obs = \<lparr>m_role = Role_TOOL, m_content = ''abc'', m_tool_calls = None, m_tool_call_id = Some ''a'',
                m_tool_status = None, m_reasoning = None\<rparr>;
         sent = with_collapsed_observations [obs, obs] 1 0 1
     in m_content (sent ! 0) = collapsed_content ''abc'' \<and> sent ! 1 = obs)"
proof -
  let ?obs = "\<lparr>m_role = Role_TOOL, m_content = ''abc'', m_tool_calls = None, m_tool_call_id = Some ''a'',
                m_tool_status = None, m_reasoning = None\<rparr> :: Message"
  from window_collapses_older_observations [of 1 1 "[?obs, ?obs]" 0] obtain live where
    "int live = 1" "\<forall>i < 2. with_collapsed_observations [?obs, ?obs] 1 0 1 ! i =
      (if m_role ([?obs, ?obs] ! i) = Role_TOOL \<and>
          live \<le> length (filter (\<lambda>m. m_role m = Role_TOOL) (drop (Suc i) [?obs, ?obs]))
       then ([?obs, ?obs] ! i)\<lparr>m_content := collapsed_content (m_content ([?obs, ?obs] ! i))\<rparr> else [?obs, ?obs] ! i)"
    by auto
  then show ?thesis by auto
qed

end
