(* ===== verification/User_Turn.thy ===== *)
theory User_Turn
  imports Agent_Loop
begin

text \<open>
  The user's side of a trial: the tokens that stop a dialogue (\<^verbatim>\<open>tolokaforge/core/actors/user_stop.py\<close>),
  the turn policies (\<^verbatim>\<open>actors/turn_policy.py\<close>), the guard on a simulator's replies
  (\<^verbatim>\<open>actors/reply_guard.py\<close>, \<^verbatim>\<open>scratchpad.py\<close>), and the methods of \<^verbatim>\<open>TrialRunner\<close>
  (\<^verbatim>\<open>core/runner.py\<close>) that run a user turn: the reply, its tool calls embedded in the reply's text
  (shared tool turns) or recorded as steps of their own (isolated ones), and the stop.  The
  runner's own fields are in \<open>user_world\<close>; the simulator, the user's tools, the clock and the
  metrics are functions of \<open>user_env\<close>.
\<close>

section \<open>Stop tokens\<close>

definition rstrip :: "pystr \<Rightarrow> pystr" where
  "rstrip s = rev (dropWhile is_space (rev s))"

definition strip :: "pystr \<Rightarrow> pystr" where
  "strip s = rstrip (dropWhile is_space s)"

text \<open>\<^verbatim>\<open>str.find\<close>, with \<^verbatim>\<open>-1\<close> as \<^term>\<open>None\<close>.\<close>

fun find_str :: "pystr \<Rightarrow> pystr \<Rightarrow> nat option" where
  "find_str needle [] = (if needle = [] then Some 0 else None)"
| "find_str needle (c # cs) =
     (if take (length needle) (c # cs) = needle then Some 0 else map_option Suc (find_str needle cs))"

text \<open>The validator of an agent's opening line: the value it refuses.\<close>

definition refuse_a_blank_first_agent_message :: "pystr option \<Rightarrow> pystr option" where
  "refuse_a_blank_first_agent_message line =
     (case line of None \<Rightarrow> None | Some msg \<Rightarrow> if blank msg then Some msg else None)"

definition SIMULATOR_STOP_TOKEN :: pystr where
  "SIMULATOR_STOP_TOKEN = ''###STOP###''"

datatype UserStopWithText = Deliver_reply | End_dialogue

datatype stop_tokens_error =
    NoStopTokens
  | BlankStopTokens "pystr list"
  | RepeatedStopTokens "pystr list"
  | NestedStopTokens "(pystr \<times> pystr) list"

definition nested_tokens :: "pystr list \<Rightarrow> (pystr \<times> pystr) list" where
  "nested_tokens tokens =
     sort_key fst (sort_key snd
       (filter (\<lambda>(inner, outer). inner \<noteq> outer \<and> substring inner outer) (List.product tokens tokens)))"

definition validate_stop_tokens :: "pystr list \<Rightarrow> stop_tokens_error option" where
  "validate_stop_tokens tokens =
     (let blanks = filter blank tokens;
          repeated = sort (remdups (filter (\<lambda>t. count_list tokens t > 1) tokens));
          nested = nested_tokens tokens
      in first_error
           [if tokens = [] then Some NoStopTokens else None,
            if blanks \<noteq> [] then Some (BlankStopTokens blanks) else None,
            if repeated \<noteq> [] then Some (RepeatedStopTokens repeated) else None,
            if nested \<noteq> [] then Some (NestedStopTokens nested) else None])"

record UserStop =
  us_token :: pystr
  us_text :: pystr
  us_dropped :: pystr

record UserStopRule =
  ur_tokens :: "pystr list"
  ur_with_text :: UserStopWithText

definition tokens_found :: "UserStopRule \<Rightarrow> pystr \<Rightarrow> (nat, pystr) dict" where
  "tokens_found rule reply_text =
     dict_of (List.map_filter
       (\<lambda>token. map_option (\<lambda>position. (position, token)) (find_str token reply_text)) (ur_tokens rule))"

definition stop_find :: "UserStopRule \<Rightarrow> pystr \<Rightarrow> UserStop option" where
  "stop_find rule reply_text =
     (let found = tokens_found rule reply_text in
      if found = [] then None
      else let position = Min (set (map fst found)) in
           map_option (\<lambda>token. \<lparr>us_token = token, us_text = rstrip (take position reply_text),
               us_dropped = strip (drop (position + length token) reply_text)\<rparr>)
             (map_of found position))"

section \<open>The guard on replies\<close>

record ReplyDefect =
  rd_detector :: pystr
  rd_reason :: pystr
  rd_excerpt :: pystr

definition REPLY_DEFECT_EXCERPT_MAX_CHARS :: nat where
  "REPLY_DEFECT_EXCERPT_MAX_CHARS = 200"

definition reply_defect :: "pystr \<Rightarrow> pystr \<Rightarrow> pystr \<Rightarrow> ReplyDefect" where
  "reply_defect detector reason excerpt =
     \<lparr>rd_detector = detector, rd_reason = reason, rd_excerpt = take REPLY_DEFECT_EXCERPT_MAX_CHARS excerpt\<rparr>"

record ReplyDetector =
  det_name :: pystr
  det_inspect :: "pystr \<Rightarrow> ReplyDefect option"

text \<open>
  The scratchpad's pattern: at the start of a line, blanks and tabs, then an opening or closing
  \<^verbatim>\<open>think\<close> tag in any case.
\<close>

definition think_tag_here :: "pystr \<Rightarrow> bool" where
  "think_tag_here s =
     (let t = dropWhile (\<lambda>c. c = CHR '' '' \<or> c = CHR 0x09) s;
          u = (if take 2 t = ''</'' then drop 2 t else drop 1 t);
          v = dropWhile is_space (drop 5 u)
      in take 1 t = ''<'' \<and> lower_str (take 5 u) = ''think'' \<and> take 1 v = ''>'')"

fun think_tag_from :: "bool \<Rightarrow> pystr \<Rightarrow> pystr option" where
  "think_tag_from line_start [] = None"
| "think_tag_from line_start (c # cs) =
     (if line_start \<and> think_tag_here (c # cs) then Some (c # cs)
      else think_tag_from (c = CHR 0x0A \<or> c = CHR 0x0D) cs)"

definition scratchpad_detector :: ReplyDetector where
  "scratchpad_detector =
     \<lparr>det_name = ''scratchpad'',
      det_inspect = \<lambda>msg. map_option (\<lambda>rest. reply_defect ''scratchpad'' ''think_tag''
        (take REPLY_DEFECT_EXCERPT_MAX_CHARS rest)) (think_tag_from True msg)\<rparr>"

text \<open>A pattern of the fourth-wall detector is its \<^verbatim>\<open>search\<close>: the matched span, if any.\<close>

fun fourth_wall_inspect :: "(pystr \<times> (pystr \<Rightarrow> pystr option)) list \<Rightarrow> pystr \<Rightarrow> ReplyDefect option" where
  "fourth_wall_inspect [] msg = None"
| "fourth_wall_inspect ((reason, search) # rules) msg =
     (case search msg of
        Some matched \<Rightarrow> Some (reply_defect ''fourth_wall'' reason matched)
      | None \<Rightarrow> fourth_wall_inspect rules msg)"

definition fourth_wall_detector :: "(pystr \<times> (pystr \<Rightarrow> pystr option)) list \<Rightarrow> ReplyDetector" where
  "fourth_wall_detector rules = \<lparr>det_name = ''fourth_wall'', det_inspect = fourth_wall_inspect rules\<rparr>"

definition DEFAULT_REPLY_DETECTORS :: "(pystr \<times> (pystr \<Rightarrow> pystr option)) list \<Rightarrow> ReplyDetector list" where
  "DEFAULT_REPLY_DETECTORS rules = [fourth_wall_detector rules, scratchpad_detector]"

fun guard_inspect :: "ReplyDetector list \<Rightarrow> pystr \<Rightarrow> ReplyDefect option" where
  "guard_inspect [] msg = None"
| "guard_inspect (d # ds) msg =
     (case det_inspect d msg of
        Some defect \<Rightarrow> Some (defect\<lparr>rd_detector := det_name d\<rparr>)
      | None \<Rightarrow> guard_inspect ds msg)"

datatype reply_failure = UserReplyRefused "ReplyDefect list" | Reply_raised exn

text \<open>The attempts left of \<^verbatim>\<open>enforce\<close>'s loop.  The note it adds to a raised error is not part of its text.\<close>

fun enforce_from ::
    "ReplyDetector list \<Rightarrow> ('v \<Rightarrow> (exn + 'r GenerationResult_scheme) \<times> 'v) \<Rightarrow> nat \<Rightarrow> ReplyDefect list \<Rightarrow> 'v
     \<Rightarrow> (reply_failure + 'r GenerationResult_scheme \<times> ReplyDefect list) \<times> 'v" where
  "enforce_from detectors draw_reply 0 rejected v = (Inl (UserReplyRefused rejected), v)"
| "enforce_from detectors draw_reply (Suc n) rejected v =
     (case draw_reply v of
        (Inl e, v1) \<Rightarrow> (Inl (Reply_raised e), v1)
      | (Inr r, v1) \<Rightarrow>
          (case guard_inspect detectors (gr_text r) of
             None \<Rightarrow> (Inr (r, rejected), v1)
           | Some defect \<Rightarrow> enforce_from detectors draw_reply n (rejected @ [defect]) v1))"

definition USER_REPLY_MAX_ATTEMPTS :: int where
  "USER_REPLY_MAX_ATTEMPTS = 3"

definition new_guard :: "ReplyDetector list \<Rightarrow> int \<Rightarrow> exn + ReplyDetector list \<times> nat" where
  "new_guard detectors max_attempts =
     (if max_attempts < 1
      then Inl (value_error (''UserReplyGuard needs at least one generation attempt, got '' @ str_int max_attempts @
        ''; a guard that never generates would refuse every user turn.''))
      else Inr (detectors, nat max_attempts))"

definition enforce ::
    "ReplyDetector list \<times> nat \<Rightarrow> ('v \<Rightarrow> (exn + 'r GenerationResult_scheme) \<times> 'v) \<Rightarrow> 'v
     \<Rightarrow> (reply_failure + 'r GenerationResult_scheme \<times> ReplyDefect list) \<times> 'v" where
  "enforce guard draw_reply v = enforce_from (fst guard) draw_reply (snd guard) [] v"

definition reason_codes :: "ReplyDefect list \<Rightarrow> pystr list" where
  "reason_codes rejected = map (\<lambda>d. rd_detector d @ '':'' @ rd_reason d) rejected"

definition user_reply_refused :: "ReplyDefect list \<Rightarrow> exn" where
  "user_reply_refused rejected =
     Exn RuntimeError ''UserReplyRefused''
       (''User simulator broke frame on all '' @ str_nat (length rejected) @ '' generation attempts ('' @
        join_str '', '' (reason_codes rejected) @ ''); the turn is refused rather than delivered. The matched excerpt '' @
        ''is in this trial's guard log lines, deliberately not in this message.'') None None"

section \<open>State of the user's side\<close>

text \<open>What the runner reads of a user reply besides the generation: the guard's discards, whether the
  client substituted its filler, and whether any call was billed.\<close>

record UserReply = GenerationResult +
  gr_guard_rejections :: "ReplyDefect list"
  gr_filler_substituted :: bool
  gr_billed :: bool

datatype UserReplyOutcome = Reply_DELIVERED | Reply_REFUSED

record UserReplyGuardEvent =
  ge_message_index :: nat
  ge_outcome :: UserReplyOutcome
  ge_rejected :: "ReplyDefect list"

record 'v user_world =
  uw_pending_stop :: "UserStop option"
  uw_guard_events :: "UserReplyGuardEvent list"
  uw_world :: 'v

type_synonym 'v user_trial = "'v user_world trial"

type_synonym 'v actor = "Message list \<Rightarrow> 'v \<Rightarrow> (reply_failure + UserReply) \<times> 'v"

type_synonym 'v user_executor = "pystr \<Rightarrow> (pystr, pyval) dict \<Rightarrow> pystr \<Rightarrow> 'v \<Rightarrow> (exn + ToolResult) \<times> 'v"

record 'v user_env =
  ue_simulator :: "'v actor option"
  ue_executor :: "'v user_executor option"
  ue_time :: "'v \<Rightarrow> pyfloat \<times> 'v"
  ue_sleep :: "int \<Rightarrow> 'v \<Rightarrow> 'v"
  ue_record_spend :: "UserReply \<Rightarrow> 'v \<Rightarrow> 'v"
  ue_stop_rule :: UserStopRule
  ue_isolated :: bool
  ue_max_steps :: int
  ue_start_time :: pyfloat
  ue_episode_timeout_s :: int
  ue_first_agent_message :: "pystr option"
  ue_rate_limit_probe_active :: bool

definition in_world :: "('v \<Rightarrow> 'a \<times> 'v) \<Rightarrow> 'v user_trial \<Rightarrow> 'a \<times> 'v user_trial" where
  "in_world f t =
     (case f (uw_world (tr_world t)) of (x, v) \<Rightarrow> (x, t\<lparr>tr_world := (tr_world t)\<lparr>uw_world := v\<rparr>\<rparr>))"

definition set_pending :: "UserStop option \<Rightarrow> 'v user_trial \<Rightarrow> 'v user_trial" where
  "set_pending stop t = t\<lparr>tr_world := (tr_world t)\<lparr>uw_pending_stop := stop\<rparr>\<rparr>"

definition say :: "Message \<Rightarrow> 'w trial \<Rightarrow> 'w trial" where
  "say m t = t\<lparr>tr_messages := tr_messages t @ [m]\<rparr>"

definition trial_budget ::
    "(SimulationBudget \<Rightarrow> (exn + TerminationReason option) \<times> SimulationBudget) \<Rightarrow> 'w trial
     \<Rightarrow> (exn + TerminationReason option) \<times> 'w trial" where
  "trial_budget step t =
     (case tr_budget t of
        None \<Rightarrow> (Inr None, t)
      | Some b \<Rightarrow> (case step b of (r, b') \<Rightarrow> (r, t\<lparr>tr_budget := Some b'\<rparr>)))"

section \<open>Turn policies\<close>

datatype InteractionMode = Mode_conversational | Mode_agent_only

datatype 'v turn_policy = ConversationalTurnPolicy "'v actor" | AgentOnlyTurnPolicy

record BootstrapDecision =
  bd_first_user_message :: "pystr option"
  bd_via_simulator :: bool

record TurnState =
  tst_messages :: "Message list"
  tst_last_agent_had_tool_calls :: bool
  tst_turn_index :: nat

datatype 'v next_actor = ActorTurn "'v actor" | Next_ends TerminationDecision | Next_nobody

definition turn_policy_factory :: "InteractionMode \<Rightarrow> 'v actor option \<Rightarrow> exn + 'v turn_policy" where
  "turn_policy_factory mode simulator =
     (case mode of
        Mode_agent_only \<Rightarrow> Inr AgentOnlyTurnPolicy
      | Mode_conversational \<Rightarrow>
          (case simulator of
             Some actor \<Rightarrow> Inr (ConversationalTurnPolicy actor)
           | None \<Rightarrow> Inl (value_error (''ConversationalTurnPolicy requires TurnPolicyContext.user_simulator; '' @
               ''route agent-monologue tasks through the agent_only policy instead.''))))"

definition policy_bootstrap :: "'v turn_policy \<Rightarrow> pystr \<Rightarrow> pystr option \<Rightarrow> exn + BootstrapDecision" where
  "policy_bootstrap policy task_id initial =
     (case (case initial of None \<Rightarrow> None | Some msg \<Rightarrow> if blank msg then None else Some msg) of
        Some msg \<Rightarrow> Inr \<lparr>bd_first_user_message = Some msg, bd_via_simulator = False\<rparr>
      | None \<Rightarrow>
          (case policy of
             ConversationalTurnPolicy _ \<Rightarrow> Inr \<lparr>bd_first_user_message = None, bd_via_simulator = True\<rparr>
           | AgentOnlyTurnPolicy \<Rightarrow>
               Inl (value_error (''AgentOnlyTurnPolicy requires initial_user_message for task '' @ repr_str task_id @
                 '' (interaction_mode='' @ repr_str ''agent_only'' @ ''); this shape has '' @
                 ''no user simulator to synthesise a seed from.''))))"

definition agent_only_done :: TerminationDecision where
  "agent_only_done =
     \<lparr>td_reason = AGENT_DONE,
      td_system_message = ''Agent emitted a turn with no tool calls under interaction_mode=agent_only. '' @
        ''Treating as completion; the agent_only policy dispatches no user actor.'',
      td_status = Some Status_COMPLETED, td_evidence = None\<rparr>"

definition policy_next_actor :: "'v turn_policy \<Rightarrow> TurnState \<Rightarrow> 'v next_actor" where
  "policy_next_actor policy st =
     (case policy of
        ConversationalTurnPolicy user \<Rightarrow> if tst_last_agent_had_tool_calls st then Next_nobody else ActorTurn user
      | AgentOnlyTurnPolicy \<Rightarrow> Next_ends agent_only_done)"

section \<open>Replies\<close>

definition record_user_reply_guard ::
    "nat \<Rightarrow> UserReplyOutcome \<Rightarrow> ReplyDefect list \<Rightarrow> 'v user_trial \<Rightarrow> 'v user_trial" where
  "record_user_reply_guard message_index outcome rejected t =
     (if rejected = [] then t
      else t\<lparr>tr_world := (tr_world t)\<lparr>uw_guard_events := uw_guard_events (tr_world t) @
             [\<lparr>ge_message_index = message_index, ge_outcome = outcome, ge_rejected = rejected\<rparr>]\<rparr>\<rparr>)"

definition record_actor_spend :: "'v user_env \<Rightarrow> UserReply \<Rightarrow> 'v user_trial \<Rightarrow> 'v user_trial" where
  "record_actor_spend env r t =
     (if gr_billed r then snd (in_world (\<lambda>v. ((), ue_record_spend env r v)) t) else t)"

definition reply_as_user ::
    "'v user_env \<Rightarrow> 'v actor \<Rightarrow> 'v user_trial \<Rightarrow> (exn + UserReply) \<times> 'v user_trial" where
  "reply_as_user env actor t =
     (let message_index = length (tr_messages t) in
      case in_world (actor (tr_messages t)) t of
        (Inl (UserReplyRefused rejected), t1) \<Rightarrow>
          (Inl (user_reply_refused rejected), record_user_reply_guard message_index Reply_REFUSED rejected t1)
      | (Inl (Reply_raised e), t1) \<Rightarrow> (Inl e, t1)
      | (Inr r, t1) \<Rightarrow>
          (Inr r, record_actor_spend env r
                    (record_user_reply_guard message_index Reply_DELIVERED (gr_guard_rejections r) t1)))"

section \<open>Calls of a shared reply\<close>

definition call_names :: "ToolCall list \<Rightarrow> pystr" where
  "call_names calls = join_str '', '' (map tc_name calls)"

definition no_user_executor :: "ToolCall list \<Rightarrow> exn" where
  "no_user_executor calls =
     runtime_error (''the user simulator emitted '' @ str_nat (length calls) @ '' tool call(s) ('' @ call_names calls @
       '') and this trial has no user-side executor to run them. The trial is built with both or neither'')"

text \<open>One call run between two readings of the clock and recorded as the user's.\<close>

definition run_user_call ::
    "'v user_env \<Rightarrow> 'v user_executor \<Rightarrow> ToolCall \<Rightarrow> 'v user_trial \<Rightarrow> (exn + ToolResult) \<times> 'v user_trial" where
  "run_user_call env executor call t =
     (case in_world (ue_time env) t of (tool_start, t1) \<Rightarrow>
      case in_world (executor (tc_name call) (tc_arguments call) (tc_id call)) t1 of
        (Inl e, t2) \<Rightarrow> (Inl e, t2)
      | (Inr r, t2) \<Rightarrow>
          (case in_world (ue_time env) t2 of (tool_end, t3) \<Rightarrow>
             (Inr r, t3\<lparr>tr_recorded := record_call (tc_id call) (tc_name call) (tc_arguments call) Executor_USER
                        (resolve_tool_status r) (resolve_tool_output r) (tool_end - tool_start) (tr_recorded t3)\<rparr>)))"

definition result_line :: "ToolCall \<Rightarrow> ToolResult \<Rightarrow> pystr" where
  "result_line call r =
     tc_name call @ ''() result: '' @
     (if tres_success r then tres_output r
      else ''Error: '' @ (case tres_error r of None \<Rightarrow> ''None'' | Some e \<Rightarrow> e))"

fun run_shared_calls ::
    "'v user_env \<Rightarrow> 'v user_executor \<Rightarrow> ToolCall list \<Rightarrow> 'v user_trial
     \<Rightarrow> (exn + (ToolCall \<times> pystr) list) \<times> 'v user_trial" where
  "run_shared_calls env executor [] t = (Inr [], t)"
| "run_shared_calls env executor (call # calls) t =
     (case assign (tc_id call) (tr_call_ids t) of (key, ids) \<Rightarrow>
        let keyed = call\<lparr>tc_id := key\<rparr> in
        case run_user_call env executor keyed (t\<lparr>tr_call_ids := ids\<rparr>) of
          (Inl e, t1) \<Rightarrow> (Inl e, t1)
        | (Inr r, t1) \<Rightarrow>
            (case run_shared_calls env executor calls t1 of
               (Inl e, t2) \<Rightarrow> (Inl e, t2)
             | (Inr rest, t2) \<Rightarrow> (Inr ((keyed, result_line keyed r) # rest), t2)))"

definition run_user_tool_calls ::
    "'v user_env \<Rightarrow> pystr \<Rightarrow> ToolCall list \<Rightarrow> 'v user_trial \<Rightarrow> (exn + pystr \<times> ToolCall list) \<times> 'v user_trial" where
  "run_user_tool_calls env reply_text calls t =
     (if calls = [] then (Inr (reply_text, []), t)
      else case ue_executor env of
             None \<Rightarrow> (Inl (no_user_executor calls), t)
           | Some executor \<Rightarrow>
               (case run_shared_calls env executor calls t of
                  (Inl e, t1) \<Rightarrow> (Inl e, t1)
                | (Inr done_calls, t1) \<Rightarrow>
                    (Inr (reply_text @ two_newlines @ join_str [CHR 0x0A] (map snd done_calls), map fst done_calls), t1)))"

section \<open>Isolated tool steps\<close>

datatype step_failure = SimulationBudgetReached TerminationReason | Step_raised exn

definition user_tool_message :: "pystr \<Rightarrow> pystr \<Rightarrow> ToolExecutionStatus option \<Rightarrow> Message" where
  "user_tool_message call_id content status =
     \<lparr>m_role = Role_TOOL, m_content = content, m_tool_calls = None, m_tool_call_id = Some call_id,
      m_tool_status = status, m_reasoning = None\<rparr>"

definition not_run_message :: pystr where
  "not_run_message = ''Error: not run, an earlier call of this step raised.''"

definition answer_a_failed_step :: "ToolCall list \<Rightarrow> exn \<Rightarrow> Message list" where
  "answer_a_failed_step calls e =
     (case calls of
        [] \<Rightarrow> []
      | failed # unrun \<Rightarrow>
          user_tool_message (tc_id failed) (''Error: '' @ exn_str e) None #
          map (\<lambda>call. user_tool_message (tc_id call) not_run_message None) unrun)"

text \<open>The loop over a step's calls; the number is the environment errors counted so far.\<close>

fun run_step_calls ::
    "'v user_env \<Rightarrow> 'v user_executor \<Rightarrow> ToolCall list \<Rightarrow> int \<Rightarrow> 'v user_trial \<Rightarrow> (exn + int) \<times> 'v user_trial" where
  "run_step_calls env executor [] errors t = (Inr errors, t)"
| "run_step_calls env executor (call # calls) errors t =
     (case run_user_call env executor call t of
        (Inl e, t1) \<Rightarrow>
          let t2 = t1\<lparr>tr_messages := tr_messages t1 @ answer_a_failed_step (call # calls) e\<rparr> in
          (case trial_budget (environment errors) t2 of
             (Inl e', t3) \<Rightarrow> (Inl e', t3)
           | (Inr _, t3) \<Rightarrow> (Inl e, t3))
      | (Inr r, t1) \<Rightarrow>
          run_step_calls env executor calls
            (if resolve_tool_status r \<in> set ENVIRONMENT_ERROR_STATUSES then errors + 1 else errors)
            (say (user_tool_message (tc_id call) (raw_tool_content r) (Some (resolve_tool_status r))) t1))"

definition keyed_calls :: "ToolCall list \<Rightarrow> pystr list \<Rightarrow> ToolCall list" where
  "keyed_calls calls ids = map2 (\<lambda>call i. call\<lparr>tc_id := i\<rparr>) calls ids"

definition user_message_with_calls :: "pystr \<Rightarrow> ToolCall list \<Rightarrow> pyval option \<Rightarrow> Message" where
  "user_message_with_calls content calls reasoning =
     \<lparr>m_role = Role_USER, m_content = content, m_tool_calls = Some calls, m_tool_call_id = None,
      m_tool_status = None, m_reasoning = reasoning\<rparr>"

definition record_user_tool_step ::
    "'v user_env \<Rightarrow> UserReply \<Rightarrow> 'v user_trial \<Rightarrow> (step_failure + unit) \<times> 'v user_trial" where
  "record_user_tool_step env r t =
     (case ue_executor env of
        None \<Rightarrow> (Inl (Step_raised (no_user_executor (gr_tool_calls r))), t)
      | Some executor \<Rightarrow>
          (case assign_all (map tc_id (gr_tool_calls r)) (tr_call_ids t) of (keys, ids) \<Rightarrow>
             let calls = keyed_calls (gr_tool_calls r) keys;
                 t1 = say (user_message_with_calls (gr_text r) calls (gr_reasoning r)) (t\<lparr>tr_call_ids := ids\<rparr>)
             in case trial_budget (participant True) t1 of
                  (Inl e, t2) \<Rightarrow> (Inl (Step_raised e), t2)
                | (Inr _, t2) \<Rightarrow>
                    (case run_step_calls env executor calls 0 t2 of
                       (Inl e, t3) \<Rightarrow> (Inl (Step_raised e), t3)
                     | (Inr errors, t3) \<Rightarrow>
                         (case trial_budget (environment errors) t3 of
                            (Inl e, t4) \<Rightarrow> (Inl (Step_raised e), t4)
                          | (Inr (Some reason), t4) \<Rightarrow> (Inl (SimulationBudgetReached reason), t4)
                          | (Inr None, t4) \<Rightarrow> (Inr (), t4)))))"

definition user_tool_loop_limit_decision :: "'v user_env \<Rightarrow> ToolCall list \<Rightarrow> TerminationDecision" where
  "user_tool_loop_limit_decision env unrun =
     \<lparr>td_reason = USER_TOOL_LOOP_LIMIT,
      td_system_message = ''User took '' @ str_int (ue_max_steps env) @ '' tool step(s) without replying; the next step's '' @
        str_nat (length unrun) @ '' call(s), '' @ call_names unrun @ '', were not run. Dialogue terminated.'',
      td_status = None, td_evidence = None\<rparr>"

definition budget_decision :: "TerminationReason \<Rightarrow> TerminationDecision" where
  "budget_decision reason =
     \<lparr>td_reason = reason, td_system_message = ''Simulation ended at '' @ reason_value reason @ ''.'',
      td_status = None, td_evidence = None\<rparr>"

function run_user_tool_steps ::
    "'v user_env \<Rightarrow> 'v actor \<Rightarrow> nat \<Rightarrow> UserReply \<Rightarrow> 'v user_trial
     \<Rightarrow> (exn + (TerminationDecision + UserReply)) \<times> 'v user_trial" where
  "run_user_tool_steps env actor steps reply t =
     (if gr_tool_calls reply = [] then (Inr (Inr reply), t)
      else if int (Suc steps) > ue_max_steps env
        then (Inr (Inl (user_tool_loop_limit_decision env (gr_tool_calls reply))), t)
      else case record_user_tool_step env reply t of
             (Inl (SimulationBudgetReached reason), t1) \<Rightarrow> (Inr (Inl (budget_decision reason)), t1)
           | (Inl (Step_raised e), t1) \<Rightarrow> (Inl e, t1)
           | (Inr _, t1) \<Rightarrow>
               (case in_world (ue_time env) t1 of (now, t2) \<Rightarrow>
                case episode_timeout_decision (ue_start_time env) (ue_episode_timeout_s env) now of
                  Some d \<Rightarrow> (Inr (Inl d), t2)
                | None \<Rightarrow>
                    (case reply_as_user env actor t2 of
                       (Inl e, t3) \<Rightarrow> (Inl e, t3)
                     | (Inr next_reply, t3) \<Rightarrow> run_user_tool_steps env actor (Suc steps) next_reply t3)))"
  by pat_completeness auto
termination
  by (relation "measure (\<lambda>(env, actor, steps, reply, t). nat (ue_max_steps env - int steps))") auto

declare run_user_tool_steps.simps [simp del]

section \<open>The user's turn\<close>

definition user_stop_decision :: "UserStop \<Rightarrow> bool \<Rightarrow> TerminationDecision" where
  "user_stop_decision stop after_final_reply =
     \<lparr>td_reason = USER_STOP,
      td_system_message = ''User signaled stop ('' @ us_token stop @
        (if after_final_reply then '' after final reply'' else []) @ ''). Dialogue ended.'',
      td_status = None, td_evidence = None\<rparr>"

definition user_turn_message :: "pystr \<Rightarrow> ToolCall list \<Rightarrow> Message" where
  "user_turn_message content calls =
     (if calls \<noteq> [] then user_message_with_calls content calls None else user_message content)"

definition ends_turn :: "TerminationDecision \<Rightarrow> UserTurnResult" where
  "ends_turn d = \<lparr>ut_message = None, ut_termination = Some d\<rparr>"

definition end_on_user_stop ::
    "'v user_env \<Rightarrow> UserStop \<Rightarrow> UserReply \<Rightarrow> 'v user_trial \<Rightarrow> (exn + UserTurnResult) \<times> 'v user_trial" where
  "end_on_user_stop env stop r t =
     (case run_user_tool_calls env (gr_text r) (if us_text stop \<noteq> [] then gr_tool_calls r else []) t of
        (Inl e, t1) \<Rightarrow> (Inl e, t1)
      | (Inr (content, calls), t1) \<Rightarrow>
          (Inr \<lparr>ut_message = Some (user_turn_message content calls),
                ut_termination = Some (user_stop_decision stop False)\<rparr>, t1))"

text \<open>The turn once the reply with no further tool step is there.\<close>

definition deliver_user_reply ::
    "'v user_env \<Rightarrow> UserReply \<Rightarrow> 'v user_trial \<Rightarrow> (exn + UserTurnResult) \<times> 'v user_trial" where
  "deliver_user_reply env r t =
     (case stop_find (ue_stop_rule env) (gr_text r) of
        Some stop \<Rightarrow>
          if ur_with_text (ue_stop_rule env) = End_dialogue then end_on_user_stop env stop r t
          else if us_text stop = [] then (Inr (ends_turn (user_stop_decision stop False)), t)
          else (case run_user_tool_calls env (us_text stop) (gr_tool_calls r) t of
                  (Inl e, t1) \<Rightarrow> (Inl e, t1)
                | (Inr (content, calls), t1) \<Rightarrow>
                    (Inr \<lparr>ut_message = Some (user_turn_message content calls), ut_termination = None\<rparr>,
                     set_pending (Some stop) t1))
      | None \<Rightarrow>
          (case run_user_tool_calls env (gr_text r) (gr_tool_calls r) t of
             (Inl e, t1) \<Rightarrow> (Inl e, t1)
           | (Inr (content, calls), t1) \<Rightarrow>
               (Inr \<lparr>ut_message = Some (user_turn_message content calls), ut_termination = None\<rparr>, t1)))"

definition dispatch_user_actor ::
    "'v user_env \<Rightarrow> 'v actor \<Rightarrow> 'v user_trial \<Rightarrow> (exn + UserTurnResult) \<times> 'v user_trial" where
  "dispatch_user_actor env actor t =
     (case uw_pending_stop (tr_world t) of
        Some stop \<Rightarrow> (Inr (ends_turn (user_stop_decision stop True)), set_pending None t)
      | None \<Rightarrow>
          (case reply_as_user env actor t of
             (Inl e, t1) \<Rightarrow> (Inl e, t1)
           | (Inr r, t1) \<Rightarrow>
               if ue_isolated env then
                 (case run_user_tool_steps env actor 0 r t1 of
                    (Inl e, t2) \<Rightarrow> (Inl e, t2)
                  | (Inr (Inl d), t2) \<Rightarrow> (Inr (ends_turn d), t2)
                  | (Inr (Inr r'), t2) \<Rightarrow> deliver_user_reply env r' t2)
               else deliver_user_reply env r t1))"

definition agent_generations :: "'v user_env \<Rightarrow> Message list \<Rightarrow> nat" where
  "agent_generations env ms =
     length (filter (\<lambda>m. m_role m = Role_ASSISTANT) ms) - (if ue_first_agent_message env = None then 0 else 1)"

definition policy_user_turn ::
    "'v user_env \<Rightarrow> 'v turn_policy \<Rightarrow> 'v user_trial \<Rightarrow> (exn + UserTurnResult) \<times> 'v user_trial" where
  "policy_user_turn env policy t =
     (case policy_next_actor policy \<lparr>tst_messages = tr_messages t, tst_last_agent_had_tool_calls = False,
             tst_turn_index = agent_generations env (tr_messages t)\<rparr> of
        Next_nobody \<Rightarrow> (Inr \<lparr>ut_message = None, ut_termination = None\<rparr>, t)
      | Next_ends d \<Rightarrow> (Inr (ends_turn d), t)
      | ActorTurn actor \<Rightarrow> dispatch_user_actor env actor t)"

end
