(* ===== verification/Loop_Contract.thy ===== *)
theory Loop_Contract
  imports Agent_Loop
begin

text \<open>
  The induction over an episode, done once.  \<open>loop_contract\<close> says what a property of the loop's
  state has to survive for every episode to keep it: the steps that change the state, in the words
  of \<^verbatim>\<open>ToolCallingLoop\<close> (a request is sent, a message is appended, the wire is reset, ids are
  assigned, a call is executed, the user replies).  \<open>fresh r s\<close> is what holds once the ids of the
  result \<open>r\<close> are assigned and nothing has been appended for it, \<open>pending calls s\<close> while \<open>calls\<close>
  of the current turn are still to be executed.
\<close>

definition keeps_sample ::
    "('w loop_state \<Rightarrow> bool) \<Rightarrow> (GenerationResult \<Rightarrow> 'w loop_state \<Rightarrow> bool) \<Rightarrow> (exn + sample) \<times> 'w loop_state \<Rightarrow> bool" where
  "keeps_sample good fresh p \<longleftrightarrow>
     good (snd p) \<and>
     (\<forall>r st. fst p = Inr (Sampled r st) \<longrightarrow> fresh r (snd p) \<and> (gr_text r \<noteq> [] \<or> gr_tool_calls r \<noteq> []))"

text \<open>
  What a user side owes a property of the trial: it holds again once the message the turn returned,
  if any, has been appended.
\<close>

definition spoken :: "exn + UserTurnResult \<Rightarrow> Message list" where
  "spoken x = (case x of Inl e \<Rightarrow> [] | Inr y \<Rightarrow> (case ut_message y of None \<Rightarrow> [] | Some m \<Rightarrow> [m]))"

definition user_keeps :: "('w trial \<Rightarrow> bool) \<Rightarrow> 'w loop_env \<Rightarrow> bool" where
  "user_keeps good env \<longleftrightarrow>
     (\<forall>u t x t'. le_user_turn env = Some u \<longrightarrow> u t = (x, t') \<longrightarrow> good t \<longrightarrow>
        good (t'\<lparr>tr_messages := tr_messages t' @ spoken x\<rparr>))"

lemma user_keeps_turn:
  assumes "user_keeps good env" "le_user_turn env = Some u" "u t = (x, t')" "good t"
  shows "\<forall>y. x = Inr y \<longrightarrow> ut_message y = None \<Longrightarrow> good t'"
    and "x = Inr y \<Longrightarrow> ut_message y = Some m \<Longrightarrow> good (t'\<lparr>tr_messages := tr_messages t' @ [m]\<rparr>)"
proof -
  have k: "good (t'\<lparr>tr_messages := tr_messages t' @ spoken x\<rparr>)" using assms unfolding user_keeps_def by blast
  show "good t'" if "\<forall>y. x = Inr y \<longrightarrow> ut_message y = None"
  proof -
    have "spoken x = []" using that by (cases x) (simp_all add: spoken_def)
    with k show ?thesis by simp
  qed
  show "good (t'\<lparr>tr_messages := tr_messages t' @ [m]\<rparr>)" if "x = Inr y" "ut_message y = Some m"
    using k that by (simp add: spoken_def)
qed

locale loop_contract =
  fixes env :: "'w loop_env" and cfg :: "'w LoopConfig"
    and good :: "'w loop_state \<Rightarrow> bool"
    and fresh :: "GenerationResult \<Rightarrow> 'w loop_state \<Rightarrow> bool"
    and pending :: "ToolCall list \<Rightarrow> 'w loop_state \<Rightarrow> bool"
  assumes world: "good (s\<lparr>tr_world := w\<rparr>) = good s" "pending cs (s\<lparr>tr_world := w\<rparr>) = pending cs s"
    and budget: "good (s\<lparr>tr_budget := b\<rparr>) = good s" "pending cs (s\<lparr>tr_budget := b\<rparr>) = pending cs s"
    and evidence: "good (s\<lparr>ls_evidence := ev\<rparr>) = good s"
    and stalls: "fresh r (s\<lparr>ls_stall_turns := n\<rparr>) = fresh r s"
    and sent: "good s \<Longrightarrow> good (s\<lparr>ls_sent := ls_sent s @ [wire_to_send cfg turn replay (ls_wire s)]\<rparr>)"
    and system_appended: "good s \<Longrightarrow> good (append_both (system_message msg) s)"
    and feedback_appended: "good s \<Longrightarrow> good (append_both (user_message msg) s)"
    and wire_reset: "good s \<Longrightarrow>
      good (s\<lparr>tr_messages := tr_messages s @ [system_message msg],
             ls_wire := wire_opening (ls_wire s) @ [user_message recap, system_message msg]\<rparr>)"
    and registered: "good s \<Longrightarrow> register_result env r0 s = (r, s') \<Longrightarrow> fresh r s'"
    and fresh_inv: "fresh r s \<Longrightarrow> good s"
    and turn_recorded: "fresh r s \<Longrightarrow> gr_text r \<noteq> [] \<or> gr_tool_calls r \<noteq> [] \<Longrightarrow>
      pending (gr_tool_calls r) (append_both (assistant_message r) s)"
    and pending_inv: "pending cs s \<Longrightarrow> good s"
    and executed: "pending (c # cs) s \<Longrightarrow> execute env (lc_tool_output_max_chars cfg) c msg s = (Inr x, s') \<Longrightarrow>
      pending cs s'"
    and execution_raised: "pending (c # cs) s \<Longrightarrow>
      execute env (lc_tool_output_max_chars cfg) c msg s = (Inl e, s') \<Longrightarrow> good s'"
    and user_moved: "good s \<Longrightarrow> le_user_turn env = Some u \<Longrightarrow> u (trial.truncate s) = (y', tr) \<Longrightarrow>
      \<forall>y. y' = Inr y \<longrightarrow> ut_message y = None \<Longrightarrow> good (trial.extend tr (trial.more s))"
    and user_spoke: "good s \<Longrightarrow> le_user_turn env = Some u \<Longrightarrow> u (trial.truncate s) = (Inr y, tr) \<Longrightarrow>
      ut_message y = Some m \<Longrightarrow> good (append_both m (trial.extend tr (trial.more s)))"
begin

lemmas quiet = world budget evidence

lemma announced: "good s \<Longrightarrow> good (snd (announce_and_stop d s))"
  by (simp add: announce_and_stop_def stop_on_def quiet system_appended)

lemma limit_stopped: "good s \<Longrightarrow> good (snd (stop_for_simulation_limit r s))"
  by (simp add: stop_for_simulation_limit_def announced)

lemma budgeted: "good s \<Longrightarrow> good (snd (with_budget f s))"
  by (simp add: with_budget_def quiet case_prod_beta split: option.split)

lemma budgeted_pending: "pending cs s \<Longrightarrow> pending cs (snd (with_budget f s))"
  by (simp add: with_budget_def quiet case_prod_beta split: option.split)

lemma generated: "good s \<Longrightarrow> good (snd (generate env cfg turn p replay s))"
  using sent [of "s\<lparr>tr_world := w\<rparr>" turn replay for w] by (simp add: generate_def Let_def case_prod_beta quiet)

lemma summarized: "good s \<Longrightarrow> good (snd (perform_summarize env cfg turn p trigger s))"
  using wire_reset [of "s\<lparr>tr_world := w\<rparr>" for w]
  by (simp add: perform_summarize_def Let_def quiet case_prod_beta split: option.split sum.split prod.split)

lemma maybe_summarized: "good s \<Longrightarrow> good (snd (maybe_summarize env cfg turn p s))"
  by (simp add: maybe_summarize_def summarized split: option.split)

lemma reactively_summarized: "good s \<Longrightarrow> good (snd (maybe_reactive_summarize env cfg turn p s))"
  by (simp add: maybe_reactive_summarize_def summarized)

lemma retried: "good s \<Longrightarrow> good (snd (retry_after_summarize env cfg turn p s))"
  using generated [of s turn p True]
  by (auto simp: retry_after_summarize_def system_appended split: prod.split sum.split)

lemma drawn:
  assumes "good s"
  shows "good (snd (draw_completion env cfg turn p replay s))"
proof -
  obtain x s1 where g: "generate env cfg turn p replay s = (x, s1)" by fastforce
  with generated [OF assms, of turn p replay] have s1: "good s1" by simp
  obtain y s2 where m: "maybe_reactive_summarize env cfg turn p s1 = (y, s2)" by fastforce
  with reactively_summarized [OF s1, of turn p] have "good s2" by simp
  then show ?thesis
    using s1 by (auto simp: draw_completion_def g m draw_ended_def announced retried split: sum.split option.split)
qed

lemma sampled: "good s \<Longrightarrow> keeps_sample good fresh (sample_loop env cfg turn p a sp st s)"
proof (induction "attempts_left cfg a" arbitrary: a sp st s rule: less_induct)
  case less
  obtain x s1 where d: "draw_completion env cfg turn p (\<not> sp) s = (x, s1)" by fastforce
  with drawn [OF less.prems, of turn p "\<not> sp"] have s1: "good s1" by simp
  show ?case
  proof (cases "\<exists>r0. x = Inr (Drawn r0)")
    case False
    then show ?thesis
      using s1 by (subst sample_loop.simps) (auto simp: keeps_sample_def d split: sum.split draw.split)
  next
    case True
    then obtain r0 where x: "x = Inr (Drawn r0)" ..
    obtain r s2 where r: "register_result env r0 s1 = (r, s2)" by fastforce
    with registered [OF s1] have fr: "fresh r s2" by simp
    note fr_inv = fresh_inv [OF fr]
    have again: "keeps_sample good fresh (sample_loop env cfg turn p a' sp' st' s')"
      if "attempts_left cfg a' < attempts_left cfg a" "good s'" for a' sp' st' s'
      using less.hyps that by simp
    have ended: "keeps_sample good fresh (Inr (Sample_ended t), s')" if "good s'" for t s'
      using that by (simp add: keeps_sample_def)
    have accepted: "keeps_sample good fresh (Inr (Sampled r st), s2)" if "gr_text r \<noteq> [] \<or> gr_tool_calls r \<noteq> []"
      using that fr fr_inv by (simp add: keeps_sample_def)
    show ?thesis
      by (subst sample_loop.simps)
        (simp add: d x r again ended accepted quiet system_appended feedback_appended fr_inv)
  qed
qed

lemma all_executed: "pending calls s \<Longrightarrow> good (snd (execute_all env (lc_tool_output_max_chars cfg) msg calls s))"
proof (induction calls arbitrary: s)
  case Nil
  then show ?case by (simp add: pending_inv)
next
  case (Cons c calls)
  obtain x s1 where e: "execute env (lc_tool_output_max_chars cfg) c msg s = (x, s1)" by fastforce
  obtain y s2 where rest: "execute_all env (lc_tool_output_max_chars cfg) msg calls s1 = (y, s2)" by fastforce
  show ?case
  proof (cases x)
    case (Inl err)
    then show ?thesis using execution_raised [OF Cons.prems e [unfolded Inl]] by (simp add: e)
  next
    case (Inr r)
    then show ?thesis
      using Cons.IH [OF executed [OF Cons.prems e [unfolded Inr]]] by (simp add: e rest split: sum.split)
  qed
qed

lemma batch_executed:
  assumes "pending (gr_tool_calls r) s"
  shows "good (snd (execute_batch env cfg r s))"
proof -
  obtain x s1 where e: "execute_all env (lc_tool_output_max_chars cfg) (gr_text r) (gr_tool_calls r) s = (x, s1)"
    by fastforce
  with all_executed [OF assms, of "gr_text r"] have s1: "good s1" by simp
  have kept: "good s2" if "with_budget f s1 = (y, s2)" for f y s2
    using budgeted [OF s1, of f] that by simp
  show ?thesis
    by (auto simp: execute_batch_def Let_def e turn_ended_def limit_stopped dest!: kept
        split: sum.split prod.split option.split)
qed

lemma user_turn_finished: "good s \<Longrightarrow> good (snd (finish_user_turn o' s))"
  by (auto simp: finish_user_turn_def turn_ended_def announced split: option.split)

lemma user_advanced:
  assumes "good s"
  shows "good (snd (advance_user_turn env s))"
proof (cases "le_user_turn env")
  case None
  then show ?thesis by (simp add: advance_user_turn_def assms)
next
  case (Some u)
  obtain x tr where u: "u (trial.truncate s) = (x, tr)" by fastforce
  show ?thesis
  proof (cases "\<exists>y m. x = Inr y \<and> ut_message y = Some m")
    case False
    then have "good (trial.extend tr (trial.more s))" using user_moved [OF assms Some u] by auto
    with False show ?thesis
      by (auto simp: advance_user_turn_def Some u user_turn_finished split: sum.split option.split)
  next
    case True
    then obtain y m where x: "x = Inr y" and m: "ut_message y = Some m" by blast
    let ?s1 = "append_both m (trial.extend tr (trial.more s))"
    have s1: "good ?s1" using user_spoke [OF assms Some u [unfolded x] m] .
    obtain z s2 where b: "with_budget (participant (calls_of m \<noteq> [])) ?s1 = (z, s2)" by fastforce
    with budgeted [OF s1, of "participant (calls_of m \<noteq> [])"] have "good s2" by simp
    then show ?thesis
      by (auto simp: advance_user_turn_def Some u x m b turn_ended_def limit_stopped user_turn_finished
          split: sum.split option.split)
  qed
qed

lemma decided:
  assumes "pending (gr_tool_calls r) s"
  shows "good (snd (decide_and_act env cfg turn r s))"
  using assms pending_inv [OF assms]
  by (auto simp: decide_and_act_def quiet turn_ended_def announced batch_executed user_advanced
      split: prod.split sum.split option.split)

lemma acted:
  assumes "fresh r s" "gr_text r \<noteq> [] \<or> gr_tool_calls r \<noteq> []"
  shows "good (snd (act_on_sample env cfg turn r st s))"
proof -
  let ?s1 = "record_turn env turn r (count_stall st s)"
  have p: "pending (gr_tool_calls r) ?s1"
    using turn_recorded [of r "count_stall st s"] assms by (simp add: record_turn_def Let_def quiet count_stall_def stalls)
  obtain y s2 where b: "with_budget (participant (gr_tool_calls r \<noteq> [])) ?s1 = (y, s2)" by fastforce
  with budgeted_pending [OF p, of "participant (gr_tool_calls r \<noteq> [])"]
  have p2: "pending (gr_tool_calls r) s2" by simp
  note s2 = pending_inv [OF p2]
  show ?thesis
    by (auto simp: act_on_sample_def b turn_ended_def limit_stopped [OF s2] decided [OF p2] stop_stalled_def
        quiet system_appended [OF s2] s2 split: sum.split option.split)
qed

lemma turn_run:
  assumes "good s"
  shows "good (snd (run_turn env cfg turn p s))"
proof -
  obtain x s1 where m: "maybe_summarize env cfg turn p s = (x, s1)" by fastforce
  with maybe_summarized [OF assms, of turn p] have s1: "good s1" by simp
  obtain y s2 where l: "sample_loop env cfg turn p no_attempts False False s1 = (y, s2)" by fastforce
  with sampled [OF s1, of turn p no_attempts False False] have "keeps_sample good fresh (y, s2)" by simp
  then show ?thesis
    using s1 by (auto simp: run_turn_def m l turn_ended_def announced acted keeps_sample_def
        split: sum.split option.split sample.split)
qed

lemma turn_attempted: "good s \<Longrightarrow> good (snd (attempt_turn env cfg turn p start n s))"
proof (induction "nat (lc_api_error_retries cfg - int n)" arbitrary: n s rule: less_induct)
  case less
  obtain now w where c: "le_time env (tr_world s) = (now, w)" by fastforce
  obtain x s1 where t: "run_turn env cfg turn p (s\<lparr>tr_world := w\<rparr>) = (x, s1)" by fastforce
  have s0: "good (s\<lparr>tr_world := w\<rparr>)" using less.prems by (simp add: quiet)
  with turn_run [of "s\<lparr>tr_world := w\<rparr>" turn p] t have s1: "good s1" by simp
  show ?case
    using s0 s1 by (subst attempt_turn.simps)
      (auto simp: c t Let_def quiet less.hyps split: option.split sum.split)
qed

lemma turns_run: "good s \<Longrightarrow> good (snd (run_from env cfg p start turns status s))"
proof (induction turns arbitrary: status s)
  case Nil
  then show ?case by (simp add: system_appended)
next
  case (Cons turn turns)
  obtain x s1 where t: "attempt_turn env cfg turn p start 0 s = (x, s1)" by fastforce
  with turn_attempted [OF Cons.prems, of turn p start 0] have "good s1" by simp
  then show ?case
    by (auto simp: t quiet system_appended Let_def Cons.IH split: sum.split)
qed

lemma episode_keeps:
  assumes "good (s\<lparr>ls_wire := read_as_agent env (tr_messages s), ls_evidence := None, ls_stall_turns := 0\<rparr>)"
  shows "good (snd (run env cfg p start s))"
  using turns_run [OF assms] by (simp add: run_def Let_def case_prod_beta)

end

end
