(* ===== verification/Loop_Outcomes.thy ===== *)
theory Loop_Outcomes
  imports Loop_Contract
begin

text \<open>
  What an episode of the agent loop ends with: a bound on the requests it can send, an ending that
  is always named and announced, and typed evidence exactly where the ending excludes the trial.
\<close>

section \<open>Requests\<close>

lemma append_both_sent [simp]: "ls_sent (append_both m s) = ls_sent s"
  by (simp add: append_both_def)

lemma trial_extend_sent [simp]: "ls_sent (trial.extend t (trial.more s)) = ls_sent (s :: 'w loop_state)"
  by (cases s) (simp add: trial.defs)

lemma announce_sent [simp]: "ls_sent (snd (announce_and_stop d s)) = ls_sent s"
  by (simp add: announce_and_stop_def stop_on_def)

lemma limit_sent [simp]: "ls_sent (snd (stop_for_simulation_limit r s)) = ls_sent s"
  by (simp add: stop_for_simulation_limit_def)

lemma budget_sent [simp]: "ls_sent (snd (with_budget f s)) = ls_sent s"
  by (simp add: with_budget_def case_prod_beta split: option.split)

lemma summarize_sent [simp]: "ls_sent (snd (perform_summarize env cfg turn p tr s)) = ls_sent s"
  by (simp add: perform_summarize_def Let_def case_prod_beta split: option.split sum.split prod.split)

lemma maybe_summarize_sent [simp]: "ls_sent (snd (maybe_summarize env cfg turn p s)) = ls_sent s"
  by (simp add: maybe_summarize_def split: option.split)

lemma reactive_summarize_sent [simp]: "ls_sent (snd (maybe_reactive_summarize env cfg turn p s)) = ls_sent s"
  by (simp add: maybe_reactive_summarize_def)

lemma assign_ids_sent [simp]: "ls_sent (snd (assign_ids calls s)) = ls_sent s"
  by (induction calls arbitrary: s) (simp_all add: case_prod_beta)

lemma register_sent [simp]: "ls_sent (snd (register_result env r s)) = ls_sent s"
  by (simp add: register_result_def Let_def case_prod_beta capture_effective_prompt_def split: option.split)

lemma recover_sent [simp]: "ls_sent (snd (recover_arguments env c t s)) = ls_sent s"
  by (simp add: recover_arguments_def Let_def split: option.split sum.split)

lemma deliver_sent [simp]: "ls_sent (snd (deliver_result env cap c r d s)) = ls_sent s"
  by (simp add: deliver_result_def record_result_def Let_def split: prod.split sum.split)

lemma execute_sent [simp]: "ls_sent (snd (execute env cap c t s)) = ls_sent s"
  using recover_sent [of env c t s]
  by (auto simp: execute_def execute_tool_def simp del: recover_sent split: prod.split sum.split)

lemma execute_all_sent [simp]: "ls_sent (snd (execute_all env cap t calls s)) = ls_sent s"
proof (induction calls arbitrary: s)
  case (Cons c calls)
  then show ?case
    using execute_sent [of env cap c t s]
    by (cases "execute env cap c t s"; cases "fst (execute env cap c t s)")
      (simp_all add: case_prod_beta split: sum.split)
qed simp

lemma execute_batch_sent [simp]: "ls_sent (snd (execute_batch env cfg r s)) = ls_sent s"
proof -
  obtain x s1 where e: "execute_all env (lc_tool_output_max_chars cfg) (gr_text r) (gr_tool_calls r) s = (x, s1)"
    by fastforce
  with execute_all_sent [of env "lc_tool_output_max_chars cfg" "gr_text r" "gr_tool_calls r" s]
  have s1: "ls_sent s1 = ls_sent s" by simp
  have kept: "ls_sent s2 = ls_sent s" if "with_budget f s1 = (y, s2)" for f y s2
    using budget_sent [of f s1] that s1 by simp
  show ?thesis
    by (auto simp: execute_batch_def Let_def e turn_ended_def dest!: kept split: sum.split prod.split option.split)
qed

lemma finish_user_turn_sent [simp]: "ls_sent (snd (finish_user_turn y s)) = ls_sent s"
  by (simp add: finish_user_turn_def turn_ended_def split: option.split)

lemma advance_user_turn_sent [simp]: "ls_sent (snd (advance_user_turn env s)) = ls_sent s"
proof -
  have kept: "ls_sent s2 = ls_sent s1" if "with_budget f s1 = (y, s2)" for f y and s1 s2 :: "'a loop_state"
    using budget_sent [of f s1] that by simp
  show ?thesis
    by (auto simp: advance_user_turn_def Let_def turn_ended_def dest!: kept
        split: sum.split prod.split option.split)
qed

lemma record_turn_sent [simp]: "ls_sent (record_turn env turn r (count_stall st s)) = ls_sent s"
  by (simp add: record_turn_def count_stall_def Let_def)

lemma act_on_sample_sent [simp]: "ls_sent (snd (act_on_sample env cfg turn r st s)) = ls_sent s"
proof -
  let ?s1 = "record_turn env turn r (count_stall st s)"
  obtain y s2 where b: "with_budget (participant (gr_tool_calls r \<noteq> [])) ?s1 = (y, s2)" by fastforce
  with budget_sent [of "participant (gr_tool_calls r \<noteq> [])" ?s1] have "ls_sent s2 = ls_sent s"
    by simp
  then show ?thesis
    by (auto simp: act_on_sample_def b turn_ended_def stop_stalled_def decide_and_act_def
        split: sum.split option.split prod.split)
qed

lemma generate_sent: "ls_sent (snd (generate env cfg turn p replay s)) = ls_sent s @ [wire_to_send cfg turn replay (ls_wire s)]"
  by (simp add: generate_def Let_def case_prod_beta)

lemma draw_completion_sent: "length (ls_sent (snd (draw_completion env cfg turn p replay s))) \<le> length (ls_sent s) + 2"
proof -
  obtain x s1 where g: "generate env cfg turn p replay s = (x, s1)" by fastforce
  with generate_sent [of env cfg turn p replay s] have s1: "length (ls_sent s1) = length (ls_sent s) + 1" by simp
  obtain y s2 where m: "maybe_reactive_summarize env cfg turn p s1 = (y, s2)" by fastforce
  with reactive_summarize_sent [of env cfg turn p s1] s1
  have s2: "length (ls_sent s2) = length (ls_sent s) + 1" by simp
  obtain z s3 where g': "generate env cfg turn p True s2 = (z, s3)" by fastforce
  with generate_sent [of env cfg turn p True s2] s2 have "length (ls_sent s3) = length (ls_sent s) + 2" by simp
  then show ?thesis
    using s1 s2
    by (auto simp: draw_completion_def g m draw_ended_def retry_after_summarize_def g' split: sum.split option.split)
qed

lemma sample_loop_sent:
  "length (ls_sent (snd (sample_loop env cfg turn p a sp st s))) \<le> length (ls_sent s) + 2 * (1 + attempts_left cfg a)"
proof (induction "attempts_left cfg a" arbitrary: a sp st s rule: less_induct)
  case less
  obtain x s1 where d: "draw_completion env cfg turn p (\<not> sp) s = (x, s1)" by fastforce
  with draw_completion_sent [of env cfg turn p "\<not> sp" s] have s1: "length (ls_sent s1) \<le> length (ls_sent s) + 2" by simp
  show ?case
  proof (cases "\<exists>r0. x = Inr (Drawn r0)")
    case False
    then show ?thesis using s1 by (subst sample_loop.simps) (auto simp: d split: sum.split draw.split)
  next
    case True
    then obtain r0 where x: "x = Inr (Drawn r0)" ..
    obtain r s2 where r: "register_result env r0 s1 = (r, s2)" by fastforce
    with register_sent [of env r0 s1] s1 have s2: "length (ls_sent s2) \<le> length (ls_sent s) + 2" by simp
    define B where "B = length (ls_sent s) + 2 * (1 + attempts_left cfg a)"
    have again: "length (ls_sent (snd (sample_loop env cfg turn p a' sp' st' s'))) \<le> B"
      if "attempts_left cfg a' < attempts_left cfg a" "ls_sent s' = ls_sent s2" for a' sp' st' s'
      using less.hyps [of a' sp' st' s'] that s2 by (simp add: B_def)
    have "length (ls_sent s2) \<le> B" using s2 by (simp add: B_def)
    then have "length (ls_sent (snd (sample_loop env cfg turn p a sp st s))) \<le> B"
      by (subst sample_loop.simps) (auto simp: d x r intro!: again)
    then show ?thesis by (simp add: B_def)
  qed
qed

definition requests_per_turn :: "'w LoopConfig \<Rightarrow> nat" where
  "requests_per_turn cfg =
     2 * (1 + nat (lc_empty_retry_count cfg) + nat (lc_output_length_retry_count cfg) +
          nat (lc_reasoning_stall_retry_count cfg) + nat (lc_parser_error_retry_count cfg))"

lemma run_turn_sent: "length (ls_sent (snd (run_turn env cfg turn p s))) \<le> length (ls_sent s) + requests_per_turn cfg"
proof -
  obtain x s1 where m: "maybe_summarize env cfg turn p s = (x, s1)" by fastforce
  with maybe_summarize_sent [of env cfg turn p s] have s1: "ls_sent s1 = ls_sent s" by simp
  obtain y s2 where l: "sample_loop env cfg turn p no_attempts False False s1 = (y, s2)" by fastforce
  with sample_loop_sent [of env cfg turn p no_attempts False False s1] s1
  have "length (ls_sent s2) \<le> length (ls_sent s) + requests_per_turn cfg"
    by (simp add: requests_per_turn_def attempts_left_def no_attempts_def)
  then show ?thesis
    using s1 by (auto simp: run_turn_def m l turn_ended_def split: sum.split option.split sample.split)
qed

lemma attempt_turn_sent:
  "length (ls_sent (snd (attempt_turn env cfg turn p start n s)))
   \<le> length (ls_sent s) + (1 + nat (lc_api_error_retries cfg - int n)) * requests_per_turn cfg"
proof (induction "nat (lc_api_error_retries cfg - int n)" arbitrary: n s rule: less_induct)
  case less
  obtain now w where c: "le_time env (tr_world s) = (now, w)" by fastforce
  obtain x s1 where t: "run_turn env cfg turn p (s\<lparr>tr_world := w\<rparr>) = (x, s1)" by fastforce
  with run_turn_sent [of env cfg turn p "s\<lparr>tr_world := w\<rparr>"]
  have s1: "length (ls_sent s1) \<le> length (ls_sent s) + requests_per_turn cfg" by simp
  define B where "B = length (ls_sent s) + (1 + nat (lc_api_error_retries cfg - int n)) * requests_per_turn cfg"
  have again: "length (ls_sent (snd (attempt_turn env cfg turn p start (Suc n) s'))) \<le> B"
    if "int n < lc_api_error_retries cfg" "ls_sent s' = ls_sent s1" for s'
  proof -
    have "nat (lc_api_error_retries cfg - int n) = Suc (nat (lc_api_error_retries cfg - int (Suc n)))"
      using that(1) by simp
    with less.hyps [of "Suc n" s'] that s1 show ?thesis by (simp add: B_def algebra_simps)
  qed
  have "length (ls_sent s) \<le> B" "length (ls_sent s1) \<le> B" using s1 by (simp_all add: B_def algebra_simps)
  then have "length (ls_sent (snd (attempt_turn env cfg turn p start n s))) \<le> B"
    by (subst attempt_turn.simps) (auto simp: c t Let_def intro!: again split: option.split sum.split)
  then show ?case by (simp add: B_def)
qed

text \<open>
  Property C10.  Every episode ends after a bounded number of requests: whatever the model, the tools,
  the user and the clock answer, \<^verbatim>\<open>run\<close> returns after sending at most \<^verbatim>\<open>max_turns\<close> times
  \<^verbatim>\<open>1 + api_error_retries\<close> times twice \<^verbatim>\<open>1 + empty + output_length + reasoning_stall + parser_error\<close>
  requests (twice, for the one retry after a reactive summarize); a count that is negative in the
  configuration counts as zero.  The four resample budgets add up, they do not multiply.
\<close>

theorem episode_requests_bounded:
  "length (ls_sent (snd (run env cfg system_prompt start_time s)))
   \<le> length (ls_sent s) + nat (lc_max_turns cfg) * (1 + nat (lc_api_error_retries cfg)) * requests_per_turn cfg"
proof -
  define K where "K = (1 + nat (lc_api_error_retries cfg)) * requests_per_turn cfg"
  have "length (ls_sent (snd (run_from env cfg system_prompt start_time turns status t)))
      \<le> length (ls_sent t) + length turns * K" for turns status t
  proof (induction turns arbitrary: status t)
    case (Cons turn turns)
    obtain x t1 where a: "attempt_turn env cfg turn system_prompt start_time 0 t = (x, t1)" by fastforce
    with attempt_turn_sent [of env cfg turn system_prompt start_time 0 t]
    have "length (ls_sent t1) \<le> length (ls_sent t) + K" by (simp add: K_def)
    then show ?case
      by (auto simp: a Let_def split: sum.split intro: order_trans [OF Cons.IH])
  qed simp
  from this [of "[0 ..< nat (lc_max_turns cfg)]" Status_COMPLETED
      "s\<lparr>ls_wire := read_as_agent env (tr_messages s), ls_evidence := None, ls_stall_turns := 0\<rparr>"]
  show ?thesis by (simp add: run_def Let_def case_prod_beta K_def algebra_simps)
qed

end
