(* ===== verification/Loop_Endings.thy ===== *)
theory Loop_Endings
  imports Loop_Outcomes
begin

text \<open>
  How an episode may end.  The locale \<open>loop_endings\<close> takes a relation between a termination reason
  and the evidence that comes with it, asks that the loop's own endings, the classifier's, the
  termination policy's and the user turn's are in it, and shows once that every episode then ends
  with a named reason in the relation and a closing system message on both of its lists.  It is
  interpreted twice: on the relation that admits everything, which gives that every episode ends
  named and announced, and on \<open>earned\<close>, evidence exactly for the reasons that exclude a trial, for
  the environment \<^verbatim>\<open>TrialRunner\<close> builds (its classifier \<^verbatim>\<open>classify_loop_error\<close> and its policy
  \<^verbatim>\<open>_agent_termination\<close>).
\<close>

section \<open>Endings\<close>

text \<open>Both lists end with the same system message.\<close>

definition announced_end :: "'w loop_state \<Rightarrow> bool" where
  "announced_end s \<longleftrightarrow>
     (\<exists>msg earlier wire. tr_messages s = earlier @ [system_message msg] \<and> ls_wire s = wire @ [system_message msg])"

lemma announced_append [simp]: "announced_end (append_both (system_message msg) s)"
  by (auto simp: announced_end_def append_both_def)

lemma announced_evidence [simp]: "announced_end (s\<lparr>ls_evidence := ev\<rparr>) = announced_end s"
  by (simp add: announced_end_def)

lemma append_both_evidence [simp]: "ls_evidence (append_both m s) = ls_evidence s"
  by (simp add: append_both_def)

lemma trial_extend_evidence [simp]: "ls_evidence (trial.extend t (trial.more s)) = ls_evidence (s :: 'w loop_state)"
  by (cases s) (simp add: trial.defs)

definition ends_well ::
    "(TerminationReason \<Rightarrow> pystr option \<Rightarrow> bool) \<Rightarrow> turn_result \<Rightarrow> 'w loop_state \<Rightarrow> bool" where
  "ends_well allowed t s \<longleftrightarrow>
     (case t of (status, reason, stop) \<Rightarrow>
        if stop then (\<exists>r. reason = Some r \<and> allowed r (ls_evidence s)) \<and> announced_end s
        else ls_evidence s = None)"

definition turn_ends_well ::
    "(TerminationReason \<Rightarrow> pystr option \<Rightarrow> bool) \<Rightarrow> (exn + turn_result) \<times> 'w loop_state \<Rightarrow> bool" where
  "turn_ends_well allowed p \<longleftrightarrow>
     (case fst p of Inl e \<Rightarrow> ls_evidence (snd p) = None | Inr t \<Rightarrow> ends_well allowed t (snd p))"

lemma turn_ends_well_simps [simp]:
  "turn_ends_well allowed (Inl e, s) = (ls_evidence s = None)"
  "turn_ends_well allowed (Inr t, s) = ends_well allowed t s"
  by (simp_all add: turn_ends_well_def)

lemma ends_well_simps [simp]:
  "ends_well allowed carry_on s = (ls_evidence s = None)"
  "ends_well allowed (st, Some r, True) s = (allowed r (ls_evidence s) \<and> announced_end s)"
  by (simp_all add: ends_well_def carry_on_def)

lemma participant_reasons: "fst (participant c b) = Inr (Some r) \<Longrightarrow> r = MAX_STEPS \<or> r = TOO_MANY_ERRORS"
  by (auto simp: participant_def budget_reason_def Let_def split: if_splits)

lemma environment_reasons: "fst (environment n b) = Inr (Some r) \<Longrightarrow> r = MAX_STEPS \<or> r = TOO_MANY_ERRORS"
  by (auto simp: environment_def budget_reason_def Let_def split: if_splits)

lemma with_budget_inversion:
  assumes "with_budget f s = (x, s')"
  shows "ls_evidence s' = ls_evidence s" "x = Inr (Some r) \<Longrightarrow> \<exists>b. fst (f b) = Inr (Some r)"
  using assms by (auto simp: with_budget_def split: option.splits prod.splits) (metis fst_conv)

lemma perform_summarize_evidence:
  "ls_evidence (snd (perform_summarize env cfg turn p tr s)) = ls_evidence s"
  "fst (perform_summarize env cfg turn p tr s) = Inr (Some d) \<Longrightarrow>
     td_reason d = CONTEXT_WINDOW_EXCEEDED \<and> td_evidence d = None"
  by (auto simp: perform_summarize_def Let_def summarize_failure_def split: option.splits sum.splits prod.splits if_splits)

lemma maybe_summarize_evidence:
  "ls_evidence (snd (maybe_summarize env cfg turn p s)) = ls_evidence s"
  "fst (maybe_summarize env cfg turn p s) = Inr (Some d) \<Longrightarrow>
     td_reason d = CONTEXT_WINDOW_EXCEEDED \<and> td_evidence d = None"
  by (auto simp: maybe_summarize_def perform_summarize_evidence dest: perform_summarize_evidence(2)
      split: option.splits if_splits)

lemma reactive_summarize_evidence:
  "ls_evidence (snd (maybe_reactive_summarize env cfg turn p s)) = ls_evidence s"
  "fst (maybe_reactive_summarize env cfg turn p s) = Inr (Some d) \<Longrightarrow>
     td_reason d = CONTEXT_WINDOW_EXCEEDED \<and> td_evidence d = None"
  by (auto simp: maybe_reactive_summarize_def perform_summarize_evidence dest: perform_summarize_evidence(2)
      split: if_splits)

lemma generate_evidence [simp]: "ls_evidence (snd (generate env cfg turn p replay s)) = ls_evidence s"
  by (simp add: generate_def Let_def case_prod_beta)

lemma assign_ids_evidence [simp]: "ls_evidence (snd (assign_ids calls s)) = ls_evidence s"
  by (induction calls arbitrary: s) (simp_all add: case_prod_beta)

lemma register_evidence [simp]: "ls_evidence (snd (register_result env r s)) = ls_evidence s"
  by (simp add: register_result_def Let_def case_prod_beta capture_effective_prompt_def split: option.split)

lemma recover_evidence [simp]: "ls_evidence (snd (recover_arguments env c t s)) = ls_evidence s"
  by (simp add: recover_arguments_def Let_def split: option.split sum.split)

lemma deliver_evidence [simp]: "ls_evidence (snd (deliver_result env cap c r d s)) = ls_evidence s"
  by (simp add: deliver_result_def record_result_def Let_def split: prod.split sum.split)

lemma execute_evidence [simp]: "ls_evidence (snd (execute env cap c t s)) = ls_evidence s"
  using recover_evidence [of env c t s]
  by (auto simp: execute_def execute_tool_def simp del: recover_evidence split: prod.split sum.split)

lemma execute_all_evidence [simp]: "ls_evidence (snd (execute_all env cap t calls s)) = ls_evidence s"
proof (induction calls arbitrary: s)
  case (Cons c calls)
  then show ?case
    using execute_evidence [of env cap c t s]
    by (cases "execute env cap c t s"; cases "fst (execute env cap c t s)")
      (simp_all add: case_prod_beta split: sum.split)
qed simp

lemma count_and_record_evidence [simp]: "ls_evidence (record_turn env turn r (count_stall st s)) = ls_evidence s"
  by (simp add: record_turn_def count_stall_def Let_def)

definition sample_ends_well ::
    "(TerminationReason \<Rightarrow> pystr option \<Rightarrow> bool) \<Rightarrow> (exn + sample) \<times> 'w loop_state \<Rightarrow> bool" where
  "sample_ends_well allowed p \<longleftrightarrow>
     (case fst p of Inr (Sample_ended t) \<Rightarrow> ends_well allowed t (snd p) | _ \<Rightarrow> ls_evidence (snd p) = None)"

definition attempt_ends_well ::
    "(TerminationReason \<Rightarrow> pystr option \<Rightarrow> bool) \<Rightarrow> (TerminationDecision + turn_result) \<times> 'w loop_state \<Rightarrow> bool" where
  "attempt_ends_well allowed p \<longleftrightarrow>
     (case fst p of Inl d \<Rightarrow> allowed (td_reason d) (td_evidence d) | Inr t \<Rightarrow> ends_well allowed t (snd p))"

lemma attempt_ends_well_simps [simp]:
  "attempt_ends_well allowed (Inl d, s) = allowed (td_reason d) (td_evidence d)"
  "attempt_ends_well allowed (Inr t, s) = ends_well allowed t s"
  by (simp_all add: attempt_ends_well_def)

locale loop_endings =
  fixes env :: "'w loop_env" and cfg :: "'w LoopConfig"
    and allowed :: "TerminationReason \<Rightarrow> pystr option \<Rightarrow> bool"
  assumes limits: "r \<in> {MAX_TURNS, Reason_TIMEOUT, TRIAL_TOKEN_BUDGET, CONTEXT_WINDOW_EXCEEDED, PROVIDER_CONTENT_FILTER,
      MAX_STEPS, TOO_MANY_ERRORS} \<Longrightarrow> allowed r None"
    and observed: "r \<in> {EMPTY_COMPLETION, REASONING_WITHOUT_ACTION} \<Longrightarrow> allowed r (Some ev)"
    and classified: "allowed (td_reason (le_classify_error env e)) (td_evidence (le_classify_error env e))"
    and decided: "le_should_terminate env res turn tr = (Inr (Some d), w) \<Longrightarrow> allowed (td_reason d) (td_evidence d)"
    and user_ended: "le_user_turn env = Some u \<Longrightarrow> u tr = (Inr y, tr') \<Longrightarrow> ut_termination y = Some d \<Longrightarrow>
      allowed (td_reason d) (td_evidence d)"
begin

lemma own [simp]:
  "allowed MAX_TURNS None" "allowed Reason_TIMEOUT None" "allowed TRIAL_TOKEN_BUDGET None"
  "allowed CONTEXT_WINDOW_EXCEEDED None" "allowed PROVIDER_CONTENT_FILTER None"
  "allowed MAX_STEPS None" "allowed TOO_MANY_ERRORS None"
  "allowed EMPTY_COMPLETION (Some ev)" "allowed REASONING_WITHOUT_ACTION (Some ev)"
  by (simp_all add: limits observed)

lemma announce: "allowed (td_reason d) (td_evidence d) \<Longrightarrow> turn_ends_well allowed (turn_ended (announce_and_stop d s))"
  by (simp add: turn_ended_def announce_and_stop_def stop_on_def)

lemma limit_stop:
  "r = MAX_STEPS \<or> r = TOO_MANY_ERRORS \<Longrightarrow> turn_ends_well allowed (turn_ended (stop_for_simulation_limit r s))"
  unfolding stop_for_simulation_limit_def by (rule announce) auto

lemma draw:
  assumes "ls_evidence s = None"
  shows "case draw_completion env cfg turn p replay s of
      (Inr (Draw_ended t), s') \<Rightarrow> ends_well allowed t s' | (_, s') \<Rightarrow> ls_evidence s' = None"
proof -
  obtain x s1 where g: "generate env cfg turn p replay s = (x, s1)" by fastforce
  with generate_evidence [of env cfg turn p replay s] assms have s1: "ls_evidence s1 = None" by simp
  obtain y s2 where m: "maybe_reactive_summarize env cfg turn p s1 = (y, s2)" by fastforce
  with reactive_summarize_evidence [of env cfg turn p s1] s1
  have s2: "ls_evidence s2 = None" "\<And>d. y = Inr (Some d) \<Longrightarrow> td_reason d = CONTEXT_WINDOW_EXCEEDED \<and> td_evidence d = None"
    by simp_all
  obtain z s3 where g': "generate env cfg turn p True s2 = (z, s3)" by fastforce
  with generate_evidence [of env cfg turn p True s2] s2 have s3: "ls_evidence s3 = None" by simp
  show ?thesis
    using s1 s2 s3
    by (auto simp: draw_completion_def g m draw_ended_def retry_after_summarize_def g' announce_and_stop_def stop_on_def
        split: sum.split option.split)
qed

lemma sample:
  "ls_evidence s = None \<Longrightarrow> sample_ends_well allowed (sample_loop env cfg turn p a sp st s)"
proof (induction "attempts_left cfg a" arbitrary: a sp st s rule: less_induct)
  case less
  obtain x s1 where d: "draw_completion env cfg turn p (\<not> sp) s = (x, s1)" by fastforce
  note drawn = draw [OF less.prems, of turn p "\<not> sp", unfolded d prod.case]
  show ?case
  proof (cases "\<exists>r0. x = Inr (Drawn r0)")
    case False
    then show ?thesis
      using drawn by (subst sample_loop.simps) (auto simp: sample_ends_well_def d split: sum.splits draw.splits)
  next
    case True
    then obtain r0 where x: "x = Inr (Drawn r0)" ..
    obtain r s2 where r: "register_result env r0 s1 = (r, s2)" by fastforce
    with register_evidence [of env r0 s1] drawn x have s2: "ls_evidence s2 = None" by simp
    have again: "sample_ends_well allowed (sample_loop env cfg turn p a' sp' st' s')"
      if "attempts_left cfg a' < attempts_left cfg a" "ls_evidence s' = ls_evidence s2" for a' sp' st' s'
      using less.hyps that s2 by simp
    show ?thesis
      by (subst sample_loop.simps) (simp add: d x r again, simp add: sample_ends_well_def s2)
  qed
qed

lemma batch:
  assumes "ls_evidence s = None"
  shows "turn_ends_well allowed (execute_batch env cfg r s)"
proof -
  obtain x s1 where e: "execute_all env (lc_tool_output_max_chars cfg) (gr_text r) (gr_tool_calls r) s = (x, s1)"
    by fastforce
  with execute_all_evidence [of env "lc_tool_output_max_chars cfg" "gr_text r" "gr_tool_calls r" s] assms
  have s1: "ls_evidence s1 = None" by simp
  have kept: "ls_evidence s2 = None \<and> (\<forall>q. y = Inr (Some q) \<longrightarrow> turn_ends_well allowed (turn_ended (stop_for_simulation_limit q s2)))"
    if "with_budget (environment n) s1 = (y, s2)" for n y s2
    using with_budget_inversion [OF that] s1 environment_reasons limit_stop by metis
  show ?thesis
    by (auto simp: execute_batch_def Let_def e dest!: kept split: sum.split prod.split option.split)
qed

lemma user_reply:
  assumes "ls_evidence s = None"
  shows "turn_ends_well allowed (advance_user_turn env s)"
proof (cases "le_user_turn env")
  case None
  then show ?thesis by (simp add: advance_user_turn_def assms)
next
  case (Some u)
  obtain x tr where u: "u (trial.truncate s) = (x, tr)" by fastforce
  have finish: "turn_ends_well allowed (finish_user_turn y s')" if "x = Inr y" "ls_evidence s' = None" for y s'
    using user_ended [OF Some u [unfolded that(1)]] announce that(2)
    by (auto simp: finish_user_turn_def split: option.split)
  have kept: "ls_evidence s2 = ls_evidence s1 \<and>
      (\<forall>q. y = Inr (Some q) \<longrightarrow> turn_ends_well allowed (turn_ended (stop_for_simulation_limit q s2)))"
    if "with_budget (participant c) s1 = (y, s2)" for c y s1 and s2 :: "'w loop_state"
    using with_budget_inversion [OF that] participant_reasons limit_stop by metis
  show ?thesis
    using assms by (auto simp: advance_user_turn_def Let_def Some u dest!: kept intro!: finish
        split: sum.split prod.split option.split)
qed

lemma act:
  assumes "ls_evidence s = None"
  shows "turn_ends_well allowed (act_on_sample env cfg turn r st s)"
proof -
  let ?s1 = "record_turn env turn r (count_stall st s)"
  obtain y s2 where b: "with_budget (participant (gr_tool_calls r \<noteq> [])) ?s1 = (y, s2)" by fastforce
  from with_budget_inversion [OF b] assms participant_reasons limit_stop
  have s2: "ls_evidence s2 = None" "\<And>q. y = Inr (Some q) \<Longrightarrow> turn_ends_well allowed (turn_ended (stop_for_simulation_limit q s2))"
    by (simp, metis)
  have stalled: "turn_ends_well allowed (turn_ended (stop_stalled cfg s2))"
    by (simp add: turn_ended_def stop_stalled_def)
  have "turn_ends_well allowed (decide_and_act env cfg turn r s2)"
    using s2(1) by (auto simp: decide_and_act_def batch user_reply announce dest: decided
        split: prod.split sum.split option.split)
  with s2 stalled show ?thesis by (auto simp: act_on_sample_def b split: sum.split option.split)
qed

lemma turn:
  assumes "ls_evidence s = None"
  shows "turn_ends_well allowed (run_turn env cfg turn p s)"
proof -
  obtain x s1 where m: "maybe_summarize env cfg turn p s = (x, s1)" by fastforce
  with maybe_summarize_evidence [of env cfg turn p s] assms
  have s1: "ls_evidence s1 = None" "\<And>d. x = Inr (Some d) \<Longrightarrow> td_reason d = CONTEXT_WINDOW_EXCEEDED \<and> td_evidence d = None"
    by simp_all
  obtain y s2 where l: "sample_loop env cfg turn p no_attempts False False s1 = (y, s2)" by fastforce
  with sample [OF s1(1), of turn p no_attempts False False] have "sample_ends_well allowed (y, s2)" by simp
  then show ?thesis
    using s1 by (auto simp: run_turn_def m l act sample_ends_well_def intro!: announce
        split: sum.split option.split sample.split)
qed

lemma attempt: "ls_evidence s = None \<Longrightarrow> attempt_ends_well allowed (attempt_turn env cfg turn p start n s)"
proof (induction "nat (lc_api_error_retries cfg - int n)" arbitrary: n s rule: less_induct)
  case less
  obtain now w where c: "le_time env (tr_world s) = (now, w)" by fastforce
  obtain x s1 where t: "run_turn env cfg turn p (s\<lparr>tr_world := w\<rparr>) = (x, s1)" by fastforce
  with turn [of "s\<lparr>tr_world := w\<rparr>" turn p] less.prems have x: "turn_ends_well allowed (x, s1)" by simp
  have late: "allowed (td_reason d) (td_evidence d)" if "episode_timeout_decision start q now = Some d" for d q
    using that by (auto simp: episode_timeout_decision_def split: if_splits)
  have spent: "allowed (td_reason d) (td_evidence d)" if "check_trial_token_budget env cfg w = Some d" for d
    using that by (auto simp: check_trial_token_budget_def split: if_splits option.splits)
  show ?case
    using x by (subst attempt_turn.simps)
      (auto simp: c t Let_def less.hyps classified late spent split: option.split sum.splits)
qed

lemma turns:
  "ls_evidence s = None \<Longrightarrow>
   (case run_from env cfg p start ts status s of
      ((st, reason), s') \<Rightarrow> ends_well allowed (Some st, reason, True) s')"
proof (induction ts arbitrary: status s)
  case Nil
  then show ?case by simp
next
  case (Cons turn ts)
  obtain x s1 where t: "attempt_turn env cfg turn p start 0 s = (x, s1)" by fastforce
  note tried = attempt [OF Cons.prems, of turn p start 0, unfolded t]
  show ?case
  proof (cases x)
    case (Inl d)
    with tried show ?thesis by (simp add: t)
  next
    case (Inr r)
    obtain st reason stop where r: "r = (st, reason, stop)" by (cases r) auto
    show ?thesis
      using tried Cons.IH [of s1] by (cases stop) (auto simp: t Inr r ends_well_def)
  qed
qed

lemma episode:
  "\<exists>reason. lo_termination_reason (fst (run env cfg p start s)) = Some reason \<and>
     allowed reason (lo_evidence (fst (run env cfg p start s))) \<and> announced_end (snd (run env cfg p start s))"
  using turns [of "s\<lparr>ls_wire := read_as_agent env (tr_messages s), ls_evidence := None, ls_stall_turns := 0\<rparr>"
      p start "[0 ..< nat (lc_max_turns cfg)]" Status_COMPLETED]
  by (auto simp: run_def Let_def ends_well_def split: prod.splits)

end

section \<open>The trial's policy and classifier\<close>

definition stuck_decision :: TerminationDecision where
  "stuck_decision =
     \<lparr>td_reason = STUCK_DETECTED, td_system_message = ''Stuck condition detected. Dialogue terminated.'',
      td_status = None, td_evidence = None\<rparr>"

definition submitted_decision :: "pystr \<Rightarrow> TerminationDecision" where
  "submitted_decision tool =
     \<lparr>td_reason = AGENT_SUBMITTED,
      td_system_message = ''Agent called '' @ tool @ ''. Episode terminated at the agent's own signal.'',
      td_status = Some Status_COMPLETED, td_evidence = None\<rparr>"

text \<open>
  \<^verbatim>\<open>TrialRunner._agent_termination\<close>: the stuck detector, when there is one, over the agent's own
  recorded calls, then the first call to a completion tool.  \<open>mark\<close> sets \<^verbatim>\<open>metrics.stuck_detected\<close>.
\<close>

definition agent_termination ::
    "(pystr \<Rightarrow> pystr) \<Rightarrow> ((pystr, pyval) dict \<Rightarrow> pystr) \<Rightarrow> int option \<Rightarrow> pystr list \<Rightarrow> ('w \<Rightarrow> 'w)
     \<Rightarrow> GenerationResult \<Rightarrow> nat \<Rightarrow> 'w trial \<Rightarrow> (exn + TerminationDecision option) \<times> 'w" where
  "agent_termination digest render detector completion_tools mark r turn t =
     (if (case detector of None \<Rightarrow> False
          | Some k \<Rightarrow> is_stuck digest render k (recorded_for Executor_AGENT (tr_recorded t)))
      then (Inr (Some stuck_decision), mark (tr_world t))
      else (Inr (map_option (\<lambda>c. submitted_decision (tc_name c))
                   (List.find (\<lambda>c. tc_name c \<in> set completion_tools) (gr_tool_calls r))),
            tr_world t))"

definition earned :: "TerminationReason \<Rightarrow> pystr option \<Rightarrow> bool" where
  "earned reason ev \<longleftrightarrow> (ev \<noteq> None \<longleftrightarrow> reason \<in> set EXCLUDED_TYPED_REASONS)"

lemma earned_classified: "earned (td_reason (classify_loop_error e ps)) (td_evidence (classify_loop_error e ps))"
  by (simp add: earned_def classify_loop_error_def Let_def EXCLUDED_TYPED_REASONS_def)

lemma earned_own:
  "r \<in> {MAX_TURNS, Reason_TIMEOUT, TRIAL_TOKEN_BUDGET, CONTEXT_WINDOW_EXCEEDED, PROVIDER_CONTENT_FILTER,
      MAX_STEPS, TOO_MANY_ERRORS} \<Longrightarrow> earned r None"
  "r \<in> {EMPTY_COMPLETION, REASONING_WITHOUT_ACTION} \<Longrightarrow> earned r (Some ev)"
  by (auto simp: earned_def EXCLUDED_TYPED_REASONS_def)

lemma earned_counts:
  assumes "earned reason (lo_evidence outcome)"
  shows "reason_downgraded_without_typed_evidence outcome (Some reason) = Some reason"
    and "classify_trial_outcome \<lparr>te_status = st, te_termination_reason = Some reason, te_grading_error = None\<rparr>
           = INFRASTRUCTURE_ABORT \<longleftrightarrow> lo_evidence outcome \<noteq> None"
  using assms by (simp_all add: earned_def reason_downgraded_without_typed_evidence_def classify_trial_outcome_def image_iff)

lemma earned_policy:
  "agent_termination digest render detector tools mark r turn t = (Inr (Some d), w) \<Longrightarrow> earned (td_reason d) (td_evidence d)"
  by (auto simp: agent_termination_def earned_def stuck_decision_def submitted_decision_def EXCLUDED_TYPED_REASONS_def
      split: if_splits option.splits)

text \<open>The user's side ends a dialogue on none of the excluding reasons.\<close>

definition user_ends_plainly :: "'w loop_env \<Rightarrow> bool" where
  "user_ends_plainly env \<longleftrightarrow>
     (\<forall>u t y t' d. le_user_turn env = Some u \<longrightarrow> u t = (Inr y, t') \<longrightarrow> ut_termination y = Some d \<longrightarrow>
        td_reason d \<notin> set EXCLUDED_TYPED_REASONS \<and> td_evidence d = None)"

definition trial_env ::
    "rate_limit_pattern list \<Rightarrow> (pystr \<Rightarrow> pystr) \<Rightarrow> ((pystr, pyval) dict \<Rightarrow> pystr) \<Rightarrow> int option \<Rightarrow> pystr list \<Rightarrow> ('w \<Rightarrow> 'w)
     \<Rightarrow> 'w loop_env \<Rightarrow> 'w loop_env" where
  "trial_env patterns digest render detector completion_tools mark env =
     env\<lparr>le_classify_error := \<lambda>e. classify_loop_error e patterns,
         le_should_terminate := agent_termination digest render detector completion_tools mark\<rparr>"

lemma trial_env_endings:
  assumes "user_ends_plainly env"
  shows "loop_endings (trial_env patterns digest render detector tools mark env) earned"
proof
  show "earned (td_reason d) (td_evidence d)"
    if "le_user_turn (trial_env patterns digest render detector tools mark env) = Some u"
      "u t = (Inr y, t')" "ut_termination y = Some d" for u t y t' d
    using assms [unfolded user_ends_plainly_def, rule_format, of u t y t' d] that
    by (simp add: trial_env_def earned_def)
qed (simp_all add: trial_env_def earned_classified earned_own earned_policy)

interpretation any: loop_endings env cfg "\<lambda>_ _. True" for env cfg
  by unfold_locales simp_all

interpretation solo: loop_endings
  "trial_env patterns digest render detector tools mark (env\<lparr>le_user_turn := None\<rparr>)" cfg earned
  for patterns digest render detector tools mark env cfg
  by (rule trial_env_endings) (simp add: user_ends_plainly_def)

text \<open>
  Property C5.  Whatever the model, the tools and the user do, an episode ends with a named reason and
  says so: \<^verbatim>\<open>run\<close> returns an outcome whose \<^verbatim>\<open>termination_reason\<close> is not \<^verbatim>\<open>None\<close>, and the last
  message of the recorded transcript and of the wire is one and the same \<^verbatim>\<open>role: system\<close> message.
\<close>

theorem episode_ends_named_and_announced:
  "\<exists>reason msg earlier wire.
     lo_termination_reason (fst (run env cfg system_prompt start_time s)) = Some reason \<and>
     tr_messages (snd (run env cfg system_prompt start_time s)) = earlier @ [system_message msg] \<and>
     ls_wire (snd (run env cfg system_prompt start_time s)) = wire @ [system_message msg]"
  using any.episode [of env cfg system_prompt start_time s] by (auto simp: announced_end_def)

text \<open>
  The built-in loop earns every exclusion it claims: run with the trial's classifier and
  termination policy, and a user side that ends dialogues on none of the excluding reasons, an
  episode carries evidence exactly when its reason is one of \<^verbatim>\<open>EXCLUDED_TYPED_REASONS\<close>.  So the
  runner's downgrade to \<^verbatim>\<open>ERROR\<close> never changes what this loop reports, and a graded trial is left
  out of the measured denominator exactly when the loop has named the observation behind it.
\<close>

theorem exclusion_is_earned:
  assumes "user_ends_plainly env"
  shows "\<exists>reason outcome.
     outcome = fst (run (trial_env patterns digest render detector tools mark env) cfg system_prompt start_time s) \<and>
     lo_termination_reason outcome = Some reason \<and>
     (lo_evidence outcome \<noteq> None \<longleftrightarrow> reason \<in> set EXCLUDED_TYPED_REASONS) \<and>
     reason_downgraded_without_typed_evidence outcome (Some reason) = Some reason \<and>
     (classify_trial_outcome \<lparr>te_status = lo_status outcome, te_termination_reason = Some reason,
        te_grading_error = None\<rparr> = INFRASTRUCTURE_ABORT \<longleftrightarrow> lo_evidence outcome \<noteq> None)"
proof -
  let ?out = "fst (run (trial_env patterns digest render detector tools mark env) cfg system_prompt start_time s)"
  from loop_endings.episode [OF trial_env_endings [OF assms]]
  obtain reason where "lo_termination_reason ?out = Some reason" and e: "earned reason (lo_evidence ?out)"
    by blast
  with earned_counts [OF e] show ?thesis unfolding earned_def by blast
qed

definition idle_env :: "GenerationResult list loop_env" where
  "idle_env =
     \<lparr>le_generate = \<lambda>_ _ w. (case w of [] \<Rightarrow> (Inl (Exn RateLimitError ''RateLimitError'' ''429'' (Some 429) None), [])
                                      | r # rs \<Rightarrow> (Inr r, rs)),
      le_execute = \<lambda>name _ _ _ w. (Inr \<lparr>tres_success = True, tres_output = ''ok'', tres_error = None, tres_status = None\<rparr>, w),
      le_should_terminate = \<lambda>_ _ t. (Inr None, tr_world t),
      le_user_turn = Some (\<lambda>t. (Inr \<lparr>ut_message = None, ut_termination = None\<rparr>, t)),
      le_classify_error = \<lambda>e. classify_loop_error e [],
      le_record_generation = \<lambda>_ w. w, le_record_parser_errors = \<lambda>_ w. w, le_record_tool_call = \<lambda>w. w,
      le_record_tool_output_truncated = \<lambda>_ w. w, le_last_prompt_tokens = \<lambda>_. None, le_cumulative_tokens = \<lambda>_. None,
      le_time = \<lambda>w. (0, w), le_acquire = \<lambda>w. w, le_retry_sleep = \<lambda>_ w. w, le_has_recorder = True,
      le_normalize_arguments = None, le_validation_schemas = None, le_output_max_chars_by_tool = [],
      le_agent_view = None, le_observe_generation = \<lambda>_ _ _ _ w. w, le_observe_tool_call = \<lambda>_ _ _ w. w\<rparr>"

definition demo_config :: "GenerationResult list LoopConfig" where
  "demo_config =
     \<lparr>lc_max_turns = 2, lc_episode_timeout_s = 1200, lc_max_trial_tokens = None, lc_api_error_retries = 1,
      lc_api_error_backoff_s = 1, lc_empty_retry_count = 0, lc_reasoning_stall_retry_count = 1,
      lc_reasoning_stall_turn_limit = 0, lc_output_length_retry_count = 0, lc_parser_error_retry_count = 0,
      lc_tool_output_max_chars = None, lc_observation_window = None, lc_observation_window_polling = 1,
      lc_max_context_tokens = None, lc_context_watermark = None, lc_summarize_policy = None\<rparr>"

definition demo_state :: "'w \<Rightarrow> 'w loop_state" where
  "demo_state w =
     \<lparr>tr_messages = [user_message ''hi''], tr_call_ids = fresh_call_ids, tr_recorded = [], tr_budget = None, tr_world = w,
      ls_wire = [], ls_assigned_ids = [], ls_evidence = None, ls_stall_turns = 0, ls_effective_prompt = None, ls_sent = []\<rparr>"

lemma idle_user_plain: "user_ends_plainly idle_env"
  by (auto simp: user_ends_plainly_def idle_env_def)

theorem exclusion_is_earned_witness:
  "\<exists>outcome.
     outcome = fst (run (trial_env [] id (\<lambda>_. []) None [] id idle_env) demo_config ''sys'' 0 (demo_state [])) \<and>
     lo_evidence outcome = Some ''RateLimitError'' \<and>
     reason_downgraded_without_typed_evidence outcome (Some RATE_LIMIT) = Some RATE_LIMIT"
proof -
  have "lo_termination_reason (fst (run (trial_env [] id (\<lambda>_. []) None [] id idle_env) demo_config ''sys'' 0 (demo_state [])))
      = Some RATE_LIMIT"
    "lo_evidence (fst (run (trial_env [] id (\<lambda>_. []) None [] id idle_env) demo_config ''sys'' 0 (demo_state [])))
      = Some ''RateLimitError''"
    by code_simp+
  then show ?thesis
    using exclusion_is_earned [OF idle_user_plain, of "[]" id "\<lambda>_. []" None "[]" id demo_config "''sys''" 0 "demo_state []"]
    by auto
qed

end
