(* ===== verification/Loop_History.thy ===== *)
theory Loop_History
  imports Loop_Endings "HOL-Library.Sublist"
begin

text \<open>
  What an episode does to the trial's history.  \<open>execute_effect\<close> says what executing one call may
  change.  \<open>loop_contract\<close> is interpreted on two properties of the state: the history only grows
  (messages and records that were there stay, up to the arguments the funnel recovers), and no
  assistant message without text and without calls is ever recorded or sent.
\<close>

section \<open>What one execution changes\<close>

definition rewrites_arguments :: "pystr \<Rightarrow> (Message list \<Rightarrow> Message list) \<Rightarrow> bool" where
  "rewrites_arguments call_id g \<longleftrightarrow>
     g = id \<or> (\<exists>arguments. g = update_last_assistant (set_call_arguments call_id arguments))"

lemma recover_effect:
  assumes "recover_arguments env c t s = (x, s1)"
  shows "\<exists>g. rewrites_arguments (tc_id c) g \<and>
      s1 = s\<lparr>tr_messages := g (tr_messages s), ls_wire := g (ls_wire s)\<rparr> \<and>
      (\<forall>c1. x = Inr c1 \<longrightarrow> tc_id c1 = tc_id c \<and> tc_name c1 = tc_name c)"
proof -
  consider (same) "s1 = s" "x = Inr c \<or> (\<exists>e. x = Inl e)"
    | (changed) args where "x = Inr (c\<lparr>tc_arguments := args\<rparr>)"
        "s1 = s\<lparr>tr_messages := update_last_assistant (set_call_arguments (tc_id c) args) (tr_messages s),
                ls_wire := update_last_assistant (set_call_arguments (tc_id c) args) (ls_wire s)\<rparr>"
    using assms by (auto simp: recover_arguments_def Let_def split: option.splits sum.splits if_splits)
  then show ?thesis
  proof cases
    case same
    then show ?thesis by (intro exI [of _ id]) (auto simp: rewrites_arguments_def)
  next
    case changed
    then show ?thesis
      by (intro exI [of _ "update_last_assistant (set_call_arguments (tc_id c) args)"])
        (auto simp: rewrites_arguments_def)
  qed
qed

definition answers :: "pystr \<Rightarrow> Message list \<Rightarrow> bool" where
  "answers call_id ms \<longleftrightarrow> (\<exists>content st. ms = [tool_message call_id content st])"

definition records_call :: "ToolCall \<Rightarrow> RecordedToolCall list \<Rightarrow> bool" where
  "records_call c rs \<longleftrightarrow> (\<exists>r. rs = [r] \<and> rc_call_id r = tc_id c \<and> rc_tool_name r = tc_name c)"

lemma deliver_effect:
  assumes "deliver_result env cap c r d s = (x, s')"
  shows "\<exists>ms rs. (ms = [] \<or> answers (tc_id c) ms) \<and> (rs = [] \<or> records_call c rs) \<and>
      tr_messages s' = tr_messages s @ ms \<and> ls_wire s' = ls_wire s @ ms \<and> tr_recorded s' = tr_recorded s @ rs \<and>
      tr_call_ids s' = tr_call_ids s \<and> ls_assigned_ids s' = ls_assigned_ids s \<and> ls_sent s' = ls_sent s \<and>
      (le_has_recorder env \<longleftrightarrow> rs \<noteq> []) \<and> (\<forall>y. x = Inr y \<longrightarrow> ms \<noteq> [])"
proof -
  define rs where "rs = (if le_has_recorder env
    then [\<lparr>rc_call_id = tc_id c, rc_sequence = int (length (tr_recorded s)), rc_tool_name = tc_name c,
           rc_arguments = tc_arguments c, rc_executor = Executor_AGENT, rc_status = resolve_tool_status r,
           rc_output = resolve_tool_output r, rc_latency_seconds = d\<rparr>] else [])"
  have rs: "rs = [] \<or> records_call c rs" "le_has_recorder env \<longleftrightarrow> rs \<noteq> []"
    by (simp_all add: rs_def records_call_def)
  have rec: "record_result env c r d s = s\<lparr>tr_recorded := tr_recorded s @ rs\<rparr>"
    by (simp add: record_result_def rs_def record_call_def)
  obtain y w where cap: "cap_tool_message_content env cap (tc_name c) (raw_tool_content r) (tr_world s) = (y, w)"
    by fastforce
  show ?thesis
  proof (cases y)
    case (Inl e)
    with assms rs show ?thesis
      by (intro exI [of _ "[]"] exI [of _ rs]) (auto simp: deliver_result_def rec cap Let_def)
  next
    case (Inr content)
    with assms rs show ?thesis
      by (intro exI [of _ "[tool_message (tc_id c) content (resolve_tool_status r)]"] exI [of _ rs])
        (auto simp: deliver_result_def rec cap Let_def append_both_def answers_def)
  qed
qed

lemma execute_effect:
  assumes "execute env cap c t s = (x, s')"
  shows "\<exists>g ms rs. rewrites_arguments (tc_id c) g \<and> (ms = [] \<or> answers (tc_id c) ms) \<and> (rs = [] \<or> records_call c rs) \<and>
      tr_messages s' = g (tr_messages s) @ ms \<and> ls_wire s' = g (ls_wire s) @ ms \<and> tr_recorded s' = tr_recorded s @ rs \<and>
      tr_call_ids s' = tr_call_ids s \<and> ls_assigned_ids s' = ls_assigned_ids s \<and> ls_sent s' = ls_sent s \<and>
      (le_has_recorder env \<longrightarrow> ms \<noteq> [] \<longrightarrow> rs \<noteq> []) \<and> (\<forall>y. x = Inr y \<longrightarrow> ms \<noteq> [])"
proof (cases "tc_id c \<in> set (ls_assigned_ids s)")
  case False
  with assms show ?thesis
    by (intro exI [of _ id] exI [of _ "[]"]) (auto simp: execute_def rewrites_arguments_def)
next
  case True
  obtain y s1 where r: "recover_arguments env c t s = (y, s1)" by fastforce
  from recover_effect [OF r] obtain g where g: "rewrites_arguments (tc_id c) g"
    and s1: "s1 = s\<lparr>tr_messages := g (tr_messages s), ls_wire := g (ls_wire s)\<rparr>"
    and c1: "\<And>c1. y = Inr c1 \<Longrightarrow> tc_id c1 = tc_id c \<and> tc_name c1 = tc_name c" by blast
  show ?thesis
  proof (cases y)
    case (Inl e)
    with assms True r s1 g show ?thesis
      by (intro exI [of _ g] exI [of _ "[]"]) (auto simp: execute_def)
  next
    case (Inr c')
    obtain start w1 where t1: "le_time env (tr_world s1) = (start, w1)" by fastforce
    obtain z w2 where ex: "le_execute env (tc_name c') (tc_arguments c') (tc_id c')
        (map_option (\<lambda>schemas. map_of schemas (tc_name c')) (le_validation_schemas env)) w1 = (z, w2)" by fastforce
    show ?thesis
    proof (cases z)
      case (Inl e)
      with assms True r s1 g \<open>y = Inr c'\<close> t1 ex show ?thesis
        by (intro exI [of _ g] exI [of _ "[]"]) (auto simp: execute_def execute_tool_def)
    next
      case (Inr res)
      obtain stop w3 where t2: "le_time env w2 = (stop, w3)" by fastforce
      have "deliver_result env cap c' res (stop - start) (s1\<lparr>tr_world := le_record_tool_call env w3\<rparr>) = (x, s')"
        using assms True r \<open>y = Inr c'\<close> t1 ex Inr t2 by (simp add: execute_def execute_tool_def)
      from deliver_effect [OF this] c1 [OF \<open>y = Inr c'\<close>] s1 g show ?thesis
        by (auto simp: records_call_def)
    qed
  qed
qed

lemma assign_ids_same [simp]:
  "tr_messages (snd (assign_ids calls s)) = tr_messages s" "ls_wire (snd (assign_ids calls s)) = ls_wire s"
  "tr_recorded (snd (assign_ids calls s)) = tr_recorded s"
  by (induction calls arbitrary: s) (simp_all add: case_prod_beta)

lemma register_effect:
  assumes "register_result env r0 s = (r, s')"
  shows "tr_messages s' = tr_messages s" "ls_wire s' = ls_wire s" "tr_recorded s' = tr_recorded s" "ls_sent s' = ls_sent s"
    "tr_call_ids s' = tr_call_ids (snd (assign_ids (gr_tool_calls r0) s))"
    "ls_assigned_ids s' = ls_assigned_ids (snd (assign_ids (gr_tool_calls r0) s))"
    "gr_tool_calls r = fst (assign_ids (gr_tool_calls r0) s)"
  using assms by (auto simp: register_result_def Let_def case_prod_beta capture_effective_prompt_def split: option.splits)

lemma append_both_fields [simp]:
  "tr_messages (append_both m s) = tr_messages s @ [m]" "ls_wire (append_both m s) = ls_wire s @ [m]"
  "tr_recorded (append_both m s) = tr_recorded s" "tr_call_ids (append_both m s) = tr_call_ids s"
  "ls_assigned_ids (append_both m s) = ls_assigned_ids s"
  by (simp_all add: append_both_def)

lemma trial_extend_fields [simp]:
  "tr_messages (trial.extend t (trial.more s)) = tr_messages t" "tr_recorded (trial.extend t (trial.more s)) = tr_recorded t"
  "tr_call_ids (trial.extend t (trial.more s)) = tr_call_ids t"
  "ls_wire (trial.extend t (trial.more s)) = ls_wire (s :: 'w loop_state)"
  "ls_assigned_ids (trial.extend t (trial.more s)) = ls_assigned_ids (s :: 'w loop_state)"
  by (cases s, simp add: trial.defs)+

lemma trial_truncate_fields [simp]:
  "tr_messages (trial.truncate s) = tr_messages s" "tr_recorded (trial.truncate s) = tr_recorded s"
  "tr_call_ids (trial.truncate s) = tr_call_ids s"
  by (simp_all add: trial.defs)

section \<open>The history only grows\<close>

definition erase :: "Message \<Rightarrow> Message" where
  "erase m = m\<lparr>m_tool_calls := map_option (map (\<lambda>c. c\<lparr>tc_arguments := []\<rparr>)) (m_tool_calls m)\<rparr>"

lemma map_update_last_assistant:
  assumes "\<And>m. h (f m) = h m"
  shows "map h (update_last_assistant f ms) = map h ms"
proof -
  have "map h (update_first P f xs) = map h xs" for P xs
    by (induction xs) (simp_all add: assms)
  then show ?thesis by (simp add: update_last_assistant_def flip: rev_map)
qed

lemma erase_set_call_arguments [simp]: "erase (set_call_arguments i a m) = erase m"
  by (cases "m_tool_calls m") (auto simp: erase_def set_call_arguments_def)

lemma rewrites_erased: "rewrites_arguments i g \<Longrightarrow> map erase (g ms) = map erase ms"
  by (auto simp: rewrites_arguments_def map_update_last_assistant)

definition keeps_history :: "Message list \<Rightarrow> RecordedToolCall list \<Rightarrow> 'w loop_state \<Rightarrow> bool" where
  "keeps_history ms rs s \<longleftrightarrow> prefix (map erase ms) (map erase (tr_messages s)) \<and> prefix rs (tr_recorded s)"

definition grown :: "Message list \<Rightarrow> RecordedToolCall list \<Rightarrow> 'w trial \<Rightarrow> bool" where
  "grown ms rs t \<longleftrightarrow> prefix ms (tr_messages t) \<and> prefix rs (tr_recorded t)"

definition user_only_appends :: "'w loop_env \<Rightarrow> bool" where
  "user_only_appends env \<longleftrightarrow> (\<forall>ms rs. user_keeps (grown ms rs) env)"

lemma history_appended:
  "keeps_history ms rs s \<Longrightarrow> map erase (tr_messages s') = map erase (tr_messages s) @ xs \<Longrightarrow>
     tr_recorded s' = tr_recorded s @ ys \<Longrightarrow> keeps_history ms rs s'"
  by (auto simp: keeps_history_def prefix_def)

lemma history_executed:
  assumes "keeps_history ms rs s" "execute env cap c t s = (x, s')"
  shows "keeps_history ms rs s'"
  using execute_effect [OF assms(2)] by (auto simp: rewrites_erased intro: history_appended [OF assms(1)])

lemma history_grown:
  assumes "keeps_history ms rs s" "prefix (tr_messages s) (tr_messages s')" "prefix (tr_recorded s) (tr_recorded s')"
  shows "keeps_history ms rs s'"
  using assms prefix_order.trans [OF _ map_mono_prefix [OF assms(2)], of "map erase ms" erase]
    prefix_order.trans [OF _ assms(3), of rs]
  by (simp add: keeps_history_def)

lemma history_user:
  assumes "user_only_appends env" "keeps_history ms rs s" "le_user_turn env = Some u" "u (trial.truncate s) = (x, t)"
  shows "\<forall>y. x = Inr y \<longrightarrow> ut_message y = None \<Longrightarrow> keeps_history ms rs (trial.extend t (trial.more s))"
    and "x = Inr y \<Longrightarrow> ut_message y = Some m \<Longrightarrow> keeps_history ms rs (append_both m (trial.extend t (trial.more s)))"
proof -
  have "user_keeps (grown (tr_messages s) (tr_recorded s)) env" using assms(1) by (simp add: user_only_appends_def)
  from user_keeps_turn [OF this assms(3,4)] have k: "\<forall>y. x = Inr y \<longrightarrow> ut_message y = None \<Longrightarrow> grown (tr_messages s) (tr_recorded s) t"
    "x = Inr y \<Longrightarrow> ut_message y = Some m \<Longrightarrow> grown (tr_messages s) (tr_recorded s) (t\<lparr>tr_messages := tr_messages t @ [m]\<rparr>)"
    by (simp_all add: grown_def)
  show "keeps_history ms rs (trial.extend t (trial.more s))" if "\<forall>y. x = Inr y \<longrightarrow> ut_message y = None"
    using k(1) [OF that] by (auto simp: grown_def intro: history_grown [OF assms(2)])
  show "keeps_history ms rs (append_both m (trial.extend t (trial.more s)))" if "x = Inr y" "ut_message y = Some m"
    using k(2) [OF that] by (auto simp: grown_def simp del: prefix_snoc intro: history_grown [OF assms(2)])
qed

lemma history_contract:
  assumes "user_only_appends env"
  shows "loop_contract env cfg (keeps_history ms rs) (\<lambda>_. keeps_history ms rs) (\<lambda>_. keeps_history ms rs)"
proof
  show "keeps_history ms rs (trial.extend t (trial.more s))"
    if "keeps_history ms rs s" "le_user_turn env = Some u" "u (trial.truncate s) = (x, t)"
      "\<forall>y. x = Inr y \<longrightarrow> ut_message y = None" for s u x t
    using history_user(1) [OF assms that] .
  show "keeps_history ms rs (append_both m (trial.extend t (trial.more s)))"
    if "keeps_history ms rs s" "le_user_turn env = Some u" "u (trial.truncate s) = (Inr y, t)" "ut_message y = Some m" for s u y t m
    using history_user(2) [OF assms that(1-3) refl that(4)] .
  show "keeps_history ms rs s'"
    if "keeps_history ms rs s" "execute env (lc_tool_output_max_chars cfg) c msg s = (Inr x, s')" for s s' c msg x
    using history_executed [OF that] .
  show "keeps_history ms rs s'"
    if "keeps_history ms rs s" "execute env (lc_tool_output_max_chars cfg) c msg s = (Inl e, s')" for s s' c msg e
    using history_executed [OF that] .
qed (auto simp: keeps_history_def prefix_def dest: register_effect)

interpretation history: loop_contract "env\<lparr>le_user_turn := None\<rparr>" cfg "keeps_history ms rs"
  "\<lambda>_. keeps_history ms rs" "\<lambda>_. keeps_history ms rs" for env cfg ms rs
  by (rule history_contract) (simp add: user_only_appends_def user_keeps_def)

text \<open>
  An episode never loses history: every message and every tool-call record the trial
  held when the loop started is still there, in place, when it returns, whatever was retried,
  truncated, collapsed or summarized on the wire, provided the user's side only appends.  Of a
  message only the arguments of its calls may differ, where the funnel recovered malformed ones.
\<close>

theorem history_survives_the_episode:
  assumes "user_only_appends env"
  shows "prefix (map erase (tr_messages s)) (map erase (tr_messages (snd (run env cfg system_prompt start_time s)))) \<and>
    prefix (tr_recorded s) (tr_recorded (snd (run env cfg system_prompt start_time s)))"
  using loop_contract.episode_keeps [OF history_contract [OF assms, of cfg "tr_messages s" "tr_recorded s"],
      of s system_prompt start_time]
  by (simp add: keeps_history_def)

lemma idle_user_appends: "user_only_appends idle_env"
  by (auto simp: user_only_appends_def user_keeps_def idle_env_def spoken_def)

theorem history_survives_the_episode_witness:
  "user_only_appends idle_env \<and>
   prefix (map erase [user_message ''hi'']) (map erase (tr_messages (snd (run idle_env demo_config ''sys'' 0 (demo_state [])))))"
  using history_survives_the_episode [OF idle_user_appends, of "demo_state []" demo_config "''sys''" 0] idle_user_appends
  by (simp add: demo_state_def)

section \<open>No empty assistant turn\<close>

text \<open>An assistant message some provider refuses to be sent: no text and no calls.\<close>

definition legal_turn :: "Message \<Rightarrow> bool" where
  "legal_turn m \<longleftrightarrow> (m_role m = Role_ASSISTANT \<longrightarrow> m_content m \<noteq> [] \<or> calls_of m \<noteq> [])"

definition sends_legal :: "'w loop_state \<Rightarrow> bool" where
  "sends_legal s \<longleftrightarrow>
     list_all legal_turn (tr_messages s) \<and> list_all legal_turn (ls_wire s) \<and> list_all (list_all legal_turn) (ls_sent s)"

definition user_speaks_legally :: "'w loop_env \<Rightarrow> bool" where
  "user_speaks_legally env \<longleftrightarrow> user_keeps (\<lambda>t. list_all legal_turn (tr_messages t)) env"

definition views_a_part :: "'w loop_env \<Rightarrow> bool" where
  "views_a_part env \<longleftrightarrow> (\<forall>view ms. le_agent_view env = Some view \<longrightarrow> set (view ms) \<subseteq> set ms)"

lemma legal_text [simp]: "legal_turn (system_message t)" "legal_turn (user_message t)" "legal_turn (tool_message i c st)"
  by (simp_all add: legal_turn_def system_message_def user_message_def text_message_def tool_message_def)

lemma legal_assistant: "legal_turn (assistant_message r) \<longleftrightarrow> gr_text r \<noteq> [] \<or> gr_tool_calls r \<noteq> []"
  by (simp add: legal_turn_def assistant_message_def calls_of_def)

lemma legal_updated:
  assumes "\<And>m. legal_turn m \<Longrightarrow> legal_turn (f m)" "list_all legal_turn ms"
  shows "list_all legal_turn (update_last_assistant f ms)"
proof -
  have "list_all legal_turn (update_first P f xs)" if "list_all legal_turn xs" for P xs
    using that by (induction xs) (simp_all add: assms(1))
  with assms(2) show ?thesis by (simp add: update_last_assistant_def)
qed

lemma legal_rewritten: "rewrites_arguments i g \<Longrightarrow> list_all legal_turn ms \<Longrightarrow> list_all legal_turn (g ms)"
  by (auto simp: rewrites_arguments_def legal_turn_def set_call_arguments_def calls_of_def
      intro!: legal_updated split: option.splits)

lemma legal_collapsed_message: "legal_turn (m\<lparr>m_content := collapsed_content c\<rparr>)"
  by (simp add: legal_turn_def collapsed_content_def)

lemma legal_collapsed: "list_all legal_turn wire \<Longrightarrow> list_all legal_turn (with_collapsed_observations wire k turn q)"
  by (auto simp: with_collapsed_observations_def Let_def list_all_iff in_set_enumerate_eq legal_collapsed_message)

lemma legal_to_send: "list_all legal_turn wire \<Longrightarrow> list_all legal_turn (wire_to_send cfg turn replay wire)"
  by (auto simp: wire_to_send_def Let_def legal_collapsed without_last_assistant_reasoning_def legal_turn_def calls_of_def
      intro!: legal_updated split: option.split)

lemma wire_opening_part: "set (wire_opening wire) \<subseteq> set wire"
proof -
  have "set ms \<subseteq> set wire" if "opening_through_user wire = Some ms" for ms
    using that by (induction wire arbitrary: ms) (auto split: if_splits)
  then show ?thesis using set_take_subset [of 1 wire] by (auto simp: wire_opening_def split: option.split)
qed

lemma legal_opening: "list_all legal_turn wire \<Longrightarrow> list_all legal_turn (wire_opening wire)"
  using wire_opening_part [of wire] by (auto simp: list_all_iff)

lemma legal_executed:
  assumes "sends_legal s" "execute env cap c t s = (x, s')"
  shows "sends_legal s'"
  using execute_effect [OF assms(2)] assms(1)
  by (auto simp: sends_legal_def answers_def legal_rewritten)

lemma legal_user:
  assumes "user_speaks_legally env" "sends_legal s" "le_user_turn env = Some u" "u (trial.truncate s) = (x, t)"
  shows "\<forall>y. x = Inr y \<longrightarrow> ut_message y = None \<Longrightarrow> sends_legal (trial.extend t (trial.more s))"
    and "x = Inr y \<Longrightarrow> ut_message y = Some m \<Longrightarrow> sends_legal (append_both m (trial.extend t (trial.more s)))"
  using user_keeps_turn [OF assms(1) [unfolded user_speaks_legally_def] assms(3,4)] assms(2)
  by (auto simp: sends_legal_def)

lemma legal_contract:
  assumes "user_speaks_legally env"
  shows "loop_contract env cfg sends_legal (\<lambda>_. sends_legal) (\<lambda>_. sends_legal)"
proof
  show "sends_legal (trial.extend t (trial.more s))"
    if "sends_legal s" "le_user_turn env = Some u" "u (trial.truncate s) = (x, t)"
      "\<forall>y. x = Inr y \<longrightarrow> ut_message y = None" for s u x t
    using legal_user(1) [OF assms that] .
  show "sends_legal (append_both m (trial.extend t (trial.more s)))"
    if "sends_legal s" "le_user_turn env = Some u" "u (trial.truncate s) = (Inr y, t)" "ut_message y = Some m" for s u y t m
    using legal_user(2) [OF assms that(1-3) refl that(4)] .
  show "sends_legal s'" if "sends_legal s" "execute env (lc_tool_output_max_chars cfg) c msg s = (Inr x, s')" for s s' c msg x
    using legal_executed [OF that] .
  show "sends_legal s'" if "sends_legal s" "execute env (lc_tool_output_max_chars cfg) c msg s = (Inl e, s')" for s s' c msg e
    using legal_executed [OF that] .
qed (auto simp: sends_legal_def legal_to_send legal_opening legal_assistant dest: register_effect)

interpretation legal: loop_contract "env\<lparr>le_user_turn := None\<rparr>" cfg sends_legal "\<lambda>_. sends_legal" "\<lambda>_. sends_legal"
  for env cfg
  by (rule legal_contract) (simp add: user_speaks_legally_def user_keeps_def)

lemma legal_start:
  assumes "views_a_part env" "list_all legal_turn (tr_messages s)" "list_all (list_all legal_turn) (ls_sent s)"
  shows "sends_legal (s\<lparr>ls_wire := read_as_agent env (tr_messages s), ls_evidence := None, ls_stall_turns := 0\<rparr>)"
proof -
  have "set (read_as_agent env (tr_messages s)) \<subseteq> set (tr_messages s)"
    using assms(1) by (auto simp: views_a_part_def read_as_agent_def split: option.split)
  with assms(2,3) show ?thesis by (auto simp: sends_legal_def list_all_iff)
qed

text \<open>
  No request of an episode carries an assistant message with neither text nor tool calls,
  the shape providers such as Gemini refuse, and none is recorded: however often empty completions,
  reasoning stalls, truncations and parse errors are resampled, whatever is collapsed or summarized,
  every message list handed to the model and the transcript left behind are free of it.
\<close>

theorem no_empty_assistant_turn:
  assumes "user_speaks_legally env" "views_a_part env"
    and "list_all legal_turn (tr_messages s)" "list_all (list_all legal_turn) (ls_sent s)"
  shows "list_all (list_all legal_turn) (ls_sent (snd (run env cfg system_prompt start_time s))) \<and>
    list_all legal_turn (tr_messages (snd (run env cfg system_prompt start_time s)))"
  using loop_contract.episode_keeps [OF legal_contract [OF assms(1)] legal_start [OF assms(2-4)],
      of cfg system_prompt start_time]
  by (simp add: sends_legal_def)

definition empty_then_text :: "GenerationResult list" where
  "empty_then_text =
     (let r = \<lparr>gr_text = [], gr_tool_calls = [], gr_completion_tokens = 9, gr_reasoning_tokens = 7, gr_reasoning = None,
               gr_effective_system_prompt = None, gr_finish_reason = Some ''stop'', gr_native_finish_reason = None,
               gr_parser_errors = []\<rparr>
      in [r, r\<lparr>gr_text := ''done'', gr_reasoning_tokens := 0\<rparr>])"

lemma idle_user_legal: "user_speaks_legally idle_env" "views_a_part idle_env"
  by (auto simp: user_speaks_legally_def user_keeps_def views_a_part_def idle_env_def spoken_def)

theorem no_empty_assistant_turn_witness:
  "length (ls_sent (snd (run idle_env demo_config ''sys'' 0 (demo_state empty_then_text)))) = 3 \<and>
   list_all (list_all legal_turn) (ls_sent (snd (run idle_env demo_config ''sys'' 0 (demo_state empty_then_text))))"
proof -
  have "length (ls_sent (snd (run idle_env demo_config ''sys'' 0 (demo_state empty_then_text)))) = 3"
    by code_simp
  moreover have "list_all legal_turn (tr_messages (demo_state empty_then_text))"
      "list_all (list_all legal_turn) (ls_sent (demo_state empty_then_text))"
    by (simp_all add: demo_state_def)
  ultimately show ?thesis
    using no_empty_assistant_turn [OF idle_user_legal, of "demo_state empty_then_text" demo_config "''sys''" 0] by simp
qed

end
