(* ===== verification/Loop_Join.thy ===== *)
theory Loop_Join
  imports Loop_History
begin

text \<open>
  The loop and the grader meet in the tool-call ids: \<^verbatim>\<open>build_trial_timeline\<close> joins the transcript
  the loop leaves to the calls it recorded, and raises where they disagree.  \<open>joined\<close> is the state
  in which they agree; \<open>loop_contract\<close> is interpreted on it, so every episode whose user side keeps
  it leaves a trial that can be graded.
\<close>

section \<open>Agreement of the two views\<close>

definition declarations :: "Message list \<Rightarrow> (pystr \<times> pystr) list" where
  "declarations ms = concat (map (\<lambda>m. map (\<lambda>c. (tc_id c, tc_name c)) (calls_of m)) (turns_of ms))"

lemma declared_ids_declarations: "declared_ids (turns_of ms) = map fst (declarations ms)"
  by (simp add: declared_ids_def declarations_def map_concat comp_def)

lemma declarations_append [simp]: "declarations (xs @ ys) = declarations xs @ declarations ys"
  by (simp add: declarations_def turns_of_def)

lemma declarations_Nil [simp]: "declarations [] = []"
  by (simp add: declarations_def turns_of_def)

lemma declarations_single:
  "declarations [m] = (if kind_by_role (m_role m) = None then [] else map (\<lambda>c. (tc_id c, tc_name c)) (calls_of m))"
  by (simp add: declarations_def turns_of_def)

lemma declarations_texts [simp]:
  "declarations [system_message t] = []" "declarations [user_message t] = []" "declarations [tool_message i c st] = []"
  "declarations [assistant_message r] = map (\<lambda>c. (tc_id c, tc_name c)) (gr_tool_calls r)"
  by (auto simp: declarations_single system_message_def user_message_def text_message_def tool_message_def
      assistant_message_def calls_of_def)

lemma erase_reads [simp]:
  "m_role (erase m) = m_role m" "map (\<lambda>c. (tc_id c, tc_name c)) (calls_of (erase m)) = map (\<lambda>c. (tc_id c, tc_name c)) (calls_of m)"
  by (simp_all add: erase_def calls_of_def comp_def split: option.split)

lemma declarations_erased: "declarations (map erase ms) = declarations ms"
  by (simp add: declarations_def turns_of_def filter_map comp_def)

lemma rewrites_declarations: "rewrites_arguments i g \<Longrightarrow> declarations (g ms) = declarations ms"
  by (metis declarations_erased rewrites_erased)


text \<open>The calls the \<^verbatim>\<open>role: tool\<close> messages of a transcript answer.\<close>

definition answered :: "Message list \<Rightarrow> pystr option list" where
  "answered ms = map m_tool_call_id (filter (\<lambda>m. m_role m = Role_TOOL) ms)"

lemma answered_append [simp]: "answered (xs @ ys) = answered xs @ answered ys"
  by (simp add: answered_def)

lemma answered_single [simp]:
  "m_role m \<noteq> Role_TOOL \<Longrightarrow> answered [m] = []" "answered [tool_message i c st] = [Some i]" "answered [] = []"
  by (simp_all add: answered_def tool_message_def)

lemma answered_erased: "answered (map erase ms) = answered ms"
  by (simp add: answered_def filter_map comp_def) (simp add: erase_def)

lemma rewrites_answered: "rewrites_arguments i g \<Longrightarrow> answered (g ms) = answered ms"
  by (metis answered_erased rewrites_erased)

text \<open>
  The two views agree: ids are used once, every record belongs to a declared call of its name, and
  in a trial with no record at all every tool message answers a call of its own.
\<close>

definition joined :: "('w, 'z) trial_scheme \<Rightarrow> bool" where
  "joined t \<longleftrightarrow>
     distinct (assigned (tr_call_ids t)) \<and>
     distinct (map fst (declarations (tr_messages t))) \<and>
     set (map fst (declarations (tr_messages t))) \<subseteq> set (assigned (tr_call_ids t)) \<and>
     distinct (map rc_call_id (tr_recorded t)) \<and>
     (\<forall>r \<in> set (tr_recorded t). (rc_call_id r, rc_tool_name r) \<in> set (declarations (tr_messages t))) \<and>
     (tr_recorded t = [] \<longrightarrow>
        distinct (answered (tr_messages t)) \<and>
        set (answered (tr_messages t)) \<subseteq> Some ` fst ` set (declarations (tr_messages t)))"

definition unspoken :: "GenerationResult \<Rightarrow> 'w loop_state \<Rightarrow> bool" where
  "unspoken r s \<longleftrightarrow>
     joined s \<and> distinct (map tc_id (gr_tool_calls r)) \<and>
     set (map tc_id (gr_tool_calls r)) \<subseteq> set (assigned (tr_call_ids s)) \<and>
     set (map tc_id (gr_tool_calls r)) \<inter> set (map fst (declarations (tr_messages s))) = {}"

definition unexecuted :: "ToolCall list \<Rightarrow> 'w loop_state \<Rightarrow> bool" where
  "unexecuted cs s \<longleftrightarrow>
     joined s \<and> distinct (map tc_id cs) \<and>
     (\<forall>c \<in> set cs. (tc_id c, tc_name c) \<in> set (declarations (tr_messages s)) \<and> tc_id c \<notin> rc_call_id ` set (tr_recorded s))"

lemma text_roles [simp]: "m_role (system_message t) = Role_SYSTEM" "m_role (user_message t) = Role_USER"
  by (simp_all add: system_message_def user_message_def text_message_def)

lemma joined_text:
  assumes "joined s" "declarations [m] = []" "m_role m \<noteq> Role_TOOL"
  shows "joined (append_both m s)"
  using assms by (auto simp: joined_def)

lemma joined_only_reads:
  "tr_messages s' = tr_messages s \<Longrightarrow> tr_recorded s' = tr_recorded s \<Longrightarrow> tr_call_ids s' = tr_call_ids s \<Longrightarrow>
     joined s' = joined s"
  by (simp add: joined_def)

lemma assign_ids_assigned:
  "map tc_id (fst (assign_ids calls s)) = fst (assign_all (map tc_id calls) (tr_call_ids s))"
  "tr_call_ids (snd (assign_ids calls s)) = snd (assign_all (map tc_id calls) (tr_call_ids s))"
  by (induction calls arbitrary: s) (simp_all add: case_prod_beta)

lemma assign_all_assigned:
  "set (assigned (snd (assign_all xs s))) = set (fst (assign_all xs s)) \<union> set (assigned s)"
  "distinct (assigned s) \<Longrightarrow> distinct (assigned (snd (assign_all xs s)))"
proof (induction xs arbitrary: s)
  case (Cons x xs)
  { case 1 show ?case using Cons.IH(1) assign_new [of x s] by (auto simp: case_prod_beta) }
  { case 2 then show ?case using Cons.IH(2) assign_new [of x s] by (simp add: case_prod_beta) }
qed simp_all

lemma joined_registered:
  assumes "joined s" "register_result env r0 s = (r, s')"
  shows "unspoken r s'"
proof -
  note e = register_effect [OF assms(2)]
  let ?a = "assign_all (map tc_id (gr_tool_calls r0)) (tr_call_ids s)"
  have ids: "map tc_id (gr_tool_calls r) = fst ?a" and st: "tr_call_ids s' = snd ?a"
    using e(5,7) by (simp_all add: assign_ids_assigned)
  have d: "distinct (assigned (tr_call_ids s))" using assms(1) by (simp add: joined_def)
  note k = assign_all_keys [OF d, of "map tc_id (gr_tool_calls r0)"] assign_all_assigned [where xs = "map tc_id (gr_tool_calls r0)" and s = "tr_call_ids s"]
  have "joined s'" using assms(1) k d by (auto simp: joined_def e(1,3) st)
  moreover have "set (fst ?a) \<inter> set (map fst (declarations (tr_messages s))) = {}"
    using k(1) assms(1) unfolding joined_def by blast
  ultimately show ?thesis unfolding unspoken_def ids st e(1) using k by auto
qed

lemma joined_declares:
  assumes "joined t" "m_role m \<noteq> Role_TOOL" "distinct (map tc_id (calls_of m))"
    "tc_id ` set (calls_of m) \<subseteq> set (assigned (tr_call_ids t))"
    "tc_id ` set (calls_of m) \<inter> fst ` set (declarations (tr_messages t)) = {}"
  shows "joined (t\<lparr>tr_messages := tr_messages t @ [m]\<rparr>)"
proof -
  have "map fst (declarations [m]) = (if kind_by_role (m_role m) = None then [] else map tc_id (calls_of m))"
    by (simp add: declarations_single comp_def)
  moreover have "set (answered (tr_messages t)) \<subseteq> Some ` fst ` (set (declarations (tr_messages t)) \<union> set (declarations [m]))"
    if "tr_recorded t = []"
    using assms(1) that unfolding joined_def by (simp add: image_Un le_supI1)
  ultimately show ?thesis
    using assms unfolding joined_def by (auto simp: image_Un simp flip: set_map)
qed

lemma assistant_role: "m_role (assistant_message r) = Role_ASSISTANT"
  by (simp add: assistant_message_def)

lemma assistant_calls: "calls_of (assistant_message r) = gr_tool_calls r"
  by (simp add: assistant_message_def calls_of_def)

lemma joined_recorded:
  assumes "unspoken r s"
  shows "unexecuted (gr_tool_calls r) (append_both (assistant_message r) s)"
proof -
  let ?ids = "map tc_id (gr_tool_calls r)" and ?D = "declarations (tr_messages s)"
  have j: "joined s" and u: "distinct ?ids" "set ?ids \<subseteq> set (assigned (tr_call_ids s))" "set ?ids \<inter> set (map fst ?D) = {}"
    using assms by (simp_all add: unspoken_def)
  have "joined (s\<lparr>tr_messages := tr_messages s @ [assistant_message r]\<rparr>)"
    using j u by (intro joined_declares) (simp_all add: assistant_role assistant_calls)
  then have "joined (append_both (assistant_message r) s)"
    by (simp add: joined_only_reads [of "append_both (assistant_message r) s" "s\<lparr>tr_messages := tr_messages s @ [assistant_message r]\<rparr>"])
  moreover have "tc_id c \<notin> rc_call_id ` set (tr_recorded s)" if "c \<in> set (gr_tool_calls r)" for c
  proof
    assume "tc_id c \<in> rc_call_id ` set (tr_recorded s)"
    then have "tc_id c \<in> set (map fst ?D)" using j by (force simp: joined_def)
    with that u(3) show False by auto
  qed
  ultimately show ?thesis using u(1) by (auto simp: unexecuted_def)
qed

lemma joined_executed:
  assumes "le_has_recorder env" "unexecuted (c # cs) s" "execute env cap c t s = (x, s')"
  shows "joined s'" and "x = Inr y \<Longrightarrow> unexecuted cs s'"
proof -
  from execute_effect [OF assms(3)] obtain g ms rs where g: "rewrites_arguments (tc_id c) g"
    and ms: "ms = [] \<or> answers (tc_id c) ms" and rs: "rs = [] \<or> records_call c rs"
    and s': "tr_messages s' = g (tr_messages s) @ ms" "tr_recorded s' = tr_recorded s @ rs" "tr_call_ids s' = tr_call_ids s"
    and r: "ms \<noteq> [] \<longrightarrow> rs \<noteq> []" using assms(1) by blast
  have d: "declarations (tr_messages s') = declarations (tr_messages s)"
    using ms by (auto simp: s' rewrites_declarations [OF g] answers_def)
  have roles: "answered (tr_messages s') = answered (tr_messages s) @ answered ms"
    by (simp add: s' rewrites_answered [OF g])
  have j: "joined s" and c: "(tc_id c, tc_name c) \<in> set (declarations (tr_messages s))"
      "tc_id c \<notin> rc_call_id ` set (tr_recorded s)"
    and cs: "distinct (map tc_id cs)" "tc_id c \<notin> set (map tc_id cs)"
      "\<And>c'. c' \<in> set cs \<Longrightarrow> (tc_id c', tc_name c') \<in> set (declarations (tr_messages s)) \<and> tc_id c' \<notin> rc_call_id ` set (tr_recorded s)"
    using assms(2) by (auto simp: unexecuted_def)
  consider (nothing) "ms = []" "rs = []"
    | (answered) rec where "rs = [rec]" "rc_call_id rec = tc_id c" "rc_tool_name rec = tc_name c"
    using rs r by (auto simp: records_call_def)
  then have "joined s' \<and> rc_call_id ` set (tr_recorded s') \<subseteq> insert (tc_id c) (rc_call_id ` set (tr_recorded s))"
  proof cases
    case nothing
    with j show ?thesis unfolding joined_def roles d s'(2,3) by (simp add: subset_insertI)
  next
    case answered
    with j c show ?thesis unfolding joined_def roles d s'(2,3) by simp
  qed
  then have join: "joined s'" and ids: "rc_call_id ` set (tr_recorded s') \<subseteq> insert (tc_id c) (rc_call_id ` set (tr_recorded s))"
    by simp_all
  show "joined s'" by (rule join)
  have "(tc_id c', tc_name c') \<in> set (declarations (tr_messages s')) \<and> tc_id c' \<notin> rc_call_id ` set (tr_recorded s')"
    if c': "c' \<in> set cs" for c'
  proof -
    have "tc_id c' \<noteq> tc_id c" using cs(2) c' by (metis in_set_conv_nth length_map nth_map)
    with cs(3) [OF c'] ids d show ?thesis by auto
  qed
  with join cs(1) show "unexecuted cs s'" unfolding unexecuted_def by simp
qed

definition user_keeps_join :: "'w loop_env \<Rightarrow> bool" where
  "user_keeps_join env \<longleftrightarrow> user_keeps joined env"

lemma joined_user:
  assumes "user_keeps_join env" "joined s" "le_user_turn env = Some u" "u (trial.truncate s) = (x, t)"
  shows "\<forall>y. x = Inr y \<longrightarrow> ut_message y = None \<Longrightarrow> joined (trial.extend t (trial.more (s :: 'w loop_state)))"
    and "x = Inr y \<Longrightarrow> ut_message y = Some m \<Longrightarrow> joined (append_both m (trial.extend t (trial.more s)))"
proof -
  have "joined (trial.truncate s)" using assms(2) by (simp add: joined_def)
  note k = user_keeps_turn [OF assms(1) [unfolded user_keeps_join_def] assms(3,4) this]
  show "joined (trial.extend t (trial.more s))" if "\<forall>y. x = Inr y \<longrightarrow> ut_message y = None"
    using k(1) [OF that] by (simp add: joined_def)
  show "joined (append_both m (trial.extend t (trial.more s)))" if "x = Inr y" "ut_message y = Some m"
    using k(2) [OF that] by (simp add: joined_def)
qed

lemma join_contract:
  assumes "le_has_recorder env" "user_keeps_join env"
  shows "loop_contract env cfg joined unspoken unexecuted"
proof
  show "joined (trial.extend t (trial.more s))"
    if "joined s" "le_user_turn env = Some u" "u (trial.truncate s) = (x, t)" "\<forall>y. x = Inr y \<longrightarrow> ut_message y = None"
    for s :: "'a loop_state" and u x t
    using joined_user(1) [OF assms(2) that] .
  show "joined (append_both m (trial.extend t (trial.more s)))"
    if "joined s" "le_user_turn env = Some u" "u (trial.truncate s) = (Inr y, t)" "ut_message y = Some m" for s u y t m
    using joined_user(2) [OF assms(2) that(1-3) refl that(4)] .
  show "unexecuted cs s'"
    if "unexecuted (c # cs) s" "execute env (lc_tool_output_max_chars cfg) c msg s = (Inr x, s')" for s s' c cs msg x
    using joined_executed(2) [OF assms(1) that refl] .
  show "joined s'"
    if "unexecuted (c # cs) s" "execute env (lc_tool_output_max_chars cfg) c msg s = (Inl e, s')" for s s' c cs msg e
    using joined_executed(1) [OF assms(1) that] .
  show "unspoken r s'" if "joined s" "register_result env r0 s = (r, s')" for s s' r r0
    using joined_registered [OF that] .
  show "unexecuted (gr_tool_calls r) (append_both (assistant_message r) s)" if "unspoken r s" for r s
    using joined_recorded [OF that] .
  show "joined (append_both (system_message msg) s)" if "joined s" for msg and s :: "'a loop_state"
    using that by (rule joined_text) simp_all
  show "joined (append_both (user_message msg) s)" if "joined s" for msg and s :: "'a loop_state"
    using that by (rule joined_text) simp_all
  show "joined (s\<lparr>tr_messages := tr_messages s @ [system_message msg],
      ls_wire := wire_opening (ls_wire s) @ [user_message recap, system_message msg]\<rparr>)"
    if "joined s" for msg recap and s :: "'a loop_state"
    using that by (simp add: joined_def)
qed (simp_all add: unspoken_def unexecuted_def joined_def)

interpretation join: loop_contract "env\<lparr>le_has_recorder := True, le_user_turn := None\<rparr>" cfg joined unspoken unexecuted
  for env cfg
  by (rule join_contract) (simp_all add: user_keeps_join_def user_keeps_def)

section \<open>Every episode can be graded\<close>

lemma joined_reconciles:
  assumes "joined t" "kr \<in> set (records_by_episode_key (tr_recorded t))"
  shows "answers_declaration (declarations_by_key (declared_calls (turns_of (tr_messages t)))) kr"
proof -
  let ?turns = "turns_of (tr_messages t)" and ?rs = "sort_key rc_sequence (tr_recorded t)"
  let ?ds = "concat (declared_calls ?turns)"
  have dd: "distinct (map fst (declarations (tr_messages t)))" and dr: "distinct (map rc_call_id (tr_recorded t))"
    and in_decl: "\<And>r. r \<in> set (tr_recorded t) \<Longrightarrow> (rc_call_id r, rc_tool_name r) \<in> set (declarations (tr_messages t))"
    using assms(1) by (simp_all add: joined_def)
  have "mset (map rc_call_id ?rs) = mset (map rc_call_id (tr_recorded t))" by simp
  then have "distinct (map rc_call_id ?rs)" using dr by (metis mset_eq_imp_distinct_iff)
  then have "records_by_episode_key (tr_recorded t) = zip (map rc_call_id ?rs) ?rs"
    by (simp add: records_zip call_ids_distinct)
  then obtain r where r: "r \<in> set (tr_recorded t)" "kr = (rc_call_id r, r)"
    using assms(2) nth_mem [of _ ?rs] by (auto simp: set_zip simp del: nth_mem)
  have keys: "map dc_key ?ds = map fst (declarations (tr_messages t))"
    by (simp add: declared_keys declared_ids_declarations call_ids_distinct [OF dd])
  have names: "map (\<lambda>d. tc_name (dc_call d)) ?ds = map snd (declarations (tr_messages t))"
  proof -
    have "map tc_name (map dc_call ?ds) = map snd (declarations (tr_messages t))"
      unfolding declared_call_list by (simp add: declarations_def map_concat comp_def)
    then show ?thesis by (simp add: comp_def)
  qed
  obtain i where i: "i < length (declarations (tr_messages t))"
      "declarations (tr_messages t) ! i = (rc_call_id r, rc_tool_name r)"
    using in_decl [OF r(1)] by (metis in_set_conv_nth)
  have len: "length ?ds = length (declarations (tr_messages t))" using keys by (metis length_map)
  then have il: "i < length ?ds" using i(1) by simp
  have "dc_key (?ds ! i) = rc_call_id r" using keys i il by (metis nth_map fst_conv)
  moreover have "tc_name (dc_call (?ds ! i)) = rc_tool_name r" using names i il by (metis (mono_tags, lifting) nth_map snd_conv)
  ultimately show ?thesis
    using declarations_of_declared [OF nth_mem [OF il]] by (auto simp: answers_declaration_def r(2))
qed

text \<open>With no record, the results are read from the messages; ids that occur once keep their names.\<close>

lemma index_answered:
  assumes "answered ms = map Some ids" "set (fst (assign_all ids s)) \<subseteq> set ks"
  shows "is_ok (index_message_results_from n s ks rs ms)"
  using assms
proof (induction ms arbitrary: n s rs ids)
  case (Cons m ms)
  show ?case
  proof (cases "m_role m = Role_TOOL")
    case False
    with Cons show ?thesis by (simp add: answered_def)
  next
    case True
    with Cons.prems(1) obtain i ids' where i: "ids = i # ids'" "m_tool_call_id m = Some i" "answered ms = map Some ids'"
      by (cases ids) (auto simp: answered_def)
    with Cons True show ?thesis by (auto simp: case_prod_beta)
  qed
qed simp

lemma joined_builds:
  assumes "joined t"
  shows "is_ok (build_trial_timeline (tr_messages t) (tr_recorded t) reason)"
proof -
  have "require_records_reconcile (records_by_episode_key (tr_recorded t)) (declared_calls (turns_of (tr_messages t))) = None"
    using joined_reconciles [OF assms] by (simp add: reconcile_iff)
  moreover have "is_ok (index_message_results (tr_messages t) (declared_calls (turns_of (tr_messages t))))"
    if "tr_recorded t = []"
  proof -
    have d: "distinct (answered (tr_messages t))" and dd: "distinct (map fst (declarations (tr_messages t)))"
      and sub: "set (answered (tr_messages t)) \<subseteq> Some ` fst ` set (declarations (tr_messages t))"
      using assms that by (simp_all add: joined_def)
    then have "answered (tr_messages t) \<in> lists (range Some)" by auto
    then obtain ids where ids: "answered (tr_messages t) = map Some ids" by (auto simp: lists_image)
    then have "distinct ids" using d by (simp add: distinct_map)
    then have "fst (assign_all ids fresh_call_ids) = ids"
      using call_ids_distinct [of ids] by (simp add: episode_unique_call_ids_def)
    moreover have "set ids \<subseteq> fst ` set (declarations (tr_messages t))" using sub ids by auto
    moreover have "fst ` set (declarations_by_key (declared_calls (turns_of (tr_messages t)))) =
        fst ` set (declarations (tr_messages t))"
      by (simp add: declarations_keys declared_ids_declarations call_ids_distinct [OF dd])
    ultimately show ?thesis unfolding index_message_results_def by (intro index_answered [OF ids]) simp
  qed
  ultimately show ?thesis by (auto simp: build_trial_timeline_def Let_def is_ok_iff bind_res_eq_Inr_iff)
qed

text \<open>
  Every episode of the built-in loop can be graded: started on a trial whose transcript
  and tool-call record agree, with a recorder and a user side that keeps them in agreement, it
  leaves a transcript and a record \<^verbatim>\<open>build_trial_timeline\<close> joins, whatever ids the provider repeats,
  whichever generations are discarded and resampled, and wherever a tool, the cap or the policy
  raises.  The runner's audit of the same inputs reports nothing.
\<close>

theorem episode_can_be_graded:
  assumes "le_has_recorder env" "user_keeps_join env" "joined s"
  shows "is_ok (build_trial_timeline (tr_messages (snd (run env cfg system_prompt start_time s)))
           (tr_recorded (snd (run env cfg system_prompt start_time s)))
           (map_option reason_value (lo_termination_reason (fst (run env cfg system_prompt start_time s)))))"
proof (rule joined_builds)
  have "joined (s\<lparr>ls_wire := read_as_agent env (tr_messages s), ls_evidence := None, ls_stall_turns := 0\<rparr>)"
    using assms(3) by (simp add: joined_def)
  from loop_contract.episode_keeps [OF join_contract [OF assms(1,2)] this]
  show "joined (snd (run env cfg system_prompt start_time s))" .
qed

definition repeated_ids :: "GenerationResult list" where
  "repeated_ids =
     (let r = \<lparr>gr_text = [], gr_tool_calls = [\<lparr>tc_id = ''get:0'', tc_name = ''get'', tc_arguments = []\<rparr>],
               gr_completion_tokens = 9, gr_reasoning_tokens = 0, gr_reasoning = None, gr_effective_system_prompt = None,
               gr_finish_reason = Some ''tool_calls'', gr_native_finish_reason = None, gr_parser_errors = []\<rparr>
      in [r, r])"

lemma idle_user_joins: "le_has_recorder idle_env" "user_keeps_join idle_env"
  by (auto simp: user_keeps_join_def user_keeps_def idle_env_def spoken_def)

theorem episode_can_be_graded_witness:
  "map rc_call_id (tr_recorded (snd (run idle_env demo_config ''sys'' 0 (demo_state repeated_ids)))) = [''get:0'', ''get:0#2''] \<and>
   is_ok (build_trial_timeline (tr_messages (snd (run idle_env demo_config ''sys'' 0 (demo_state repeated_ids))))
     (tr_recorded (snd (run idle_env demo_config ''sys'' 0 (demo_state repeated_ids))))
     (map_option reason_value (lo_termination_reason (fst (run idle_env demo_config ''sys'' 0 (demo_state repeated_ids))))))"
proof -
  have "map rc_call_id (tr_recorded (snd (run idle_env demo_config ''sys'' 0 (demo_state repeated_ids)))) = [''get:0'', ''get:0#2'']"
    by code_simp
  moreover have "joined (demo_state repeated_ids)"
    by (simp add: joined_def demo_state_def fresh_call_ids_def)
  ultimately show ?thesis
    using episode_can_be_graded [OF idle_user_joins, of "demo_state repeated_ids" demo_config "''sys''" 0] by simp
qed

end
