(* ===== verification/Trial_Run.thy ===== *)
theory Trial_Run
  imports User_Turn Loop_Join
begin

text \<open>
  \<^verbatim>\<open>TrialRunner.run\<close> of \<^verbatim>\<open>tolokaforge/core/runner.py\<close>: turn 0 is seeded by the task or by the
  simulator, then the built-in loop is run with the runner's stop conditions and the user's turn of
  \<^verbatim>\<open>User_Turn\<close> in it.  The hypotheses the loop's theorems put on a user side are proved of this one,
  so that what they say holds of whole trials.
\<close>

section \<open>Turn 0\<close>

definition is_rate_limit_error :: "exn \<Rightarrow> bool" where
  "is_rate_limit_error e =
     (let error_str = lower_str (exn_str e) in
      substring ''429'' error_str \<or> substring ''ratelimit'' error_str \<or>
      (substring ''rate'' error_str \<and> substring ''limit'' error_str))"

definition SIMULATOR_GREETING :: pystr where
  "SIMULATOR_GREETING = ''Hi! How can I help you today?''"

definition greeting_context :: "'v user_env \<Rightarrow> Message list" where
  "greeting_context env =
     (case ue_first_agent_message env of
        Some _ \<Rightarrow> []
      | None \<Rightarrow> [text_message Role_ASSISTANT SIMULATOR_GREETING])"

definition init_attempts :: "'v user_env \<Rightarrow> nat" where
  "init_attempts env = (if ue_rate_limit_probe_active env then 1 else 4)"

definition back_off :: "'v user_env \<Rightarrow> nat \<Rightarrow> 'v user_trial \<Rightarrow> 'v user_trial" where
  "back_off env attempt t = snd (in_world (\<lambda>v. ((), ue_sleep env (min (2 ^ attempt) 12) v)) t)"

definition empty_opening :: exn where
  "empty_opening = runtime_error (''User simulator bootstrap produced an empty first message; '' @
     ''a blank opening cannot seed the conversation.'')"

definition no_opening :: exn where
  "no_opening = runtime_error ''Failed to generate initial user message''"

text \<open>The body of the retry's \<^verbatim>\<open>try\<close>: \<^term>\<open>True\<close> beside an error marks the one that is never retried.\<close>

definition shared_opening ::
    "'v user_env \<Rightarrow> 'v actor \<Rightarrow> 'v user_trial \<Rightarrow> (bool \<times> exn + pystr \<times> ToolCall list) \<times> 'v user_trial" where
  "shared_opening env actor t =
     (case in_world (actor (greeting_context env @ tr_messages t)) t of
        (Inl (UserReplyRefused rejected), t1) \<Rightarrow>
          (Inl (True, user_reply_refused rejected),
           record_user_reply_guard (length (tr_messages t1)) Reply_REFUSED rejected t1)
      | (Inl (Reply_raised e), t1) \<Rightarrow> (Inl (False, e), t1)
      | (Inr r, t1) \<Rightarrow>
          let t2 = record_user_reply_guard (length (tr_messages t1)) Reply_DELIVERED (gr_guard_rejections r) t1 in
          if gr_filler_substituted r \<or> blank (gr_text r) then (Inl (False, empty_opening), t2)
          else (case run_user_tool_calls env (gr_text r) (gr_tool_calls r) (record_actor_spend env r t2) of
                  (Inl e, t3) \<Rightarrow> (Inl (False, e), t3)
                | (Inr p, t3) \<Rightarrow> (Inr p, t3)))"

fun bootstrap_shared ::
    "'v user_env \<Rightarrow> 'v actor \<Rightarrow> nat list \<Rightarrow> 'v user_trial \<Rightarrow> (exn + pystr \<times> ToolCall list) \<times> 'v user_trial" where
  "bootstrap_shared env actor [] t = (Inl no_opening, t)"
| "bootstrap_shared env actor (attempt # rest) t =
     (case shared_opening env actor t of
        (Inr p, t1) \<Rightarrow> (Inr p, t1)
      | (Inl (refused, e), t1) \<Rightarrow>
          if \<not> refused \<and> is_rate_limit_error e \<and> attempt < init_attempts env
          then bootstrap_shared env actor rest (back_off env attempt t1)
          else (Inl e, t1))"

text \<open>One ask of an isolated opening.  An error that is not retried is raised by \<^verbatim>\<open>_wait_to_retry_the_opening\<close>.\<close>

fun bootstrap_reply ::
    "'v user_env \<Rightarrow> 'v actor \<Rightarrow> nat list \<Rightarrow> 'v user_trial \<Rightarrow> (exn + UserReply) \<times> 'v user_trial" where
  "bootstrap_reply env actor [] t = (Inl no_opening, t)"
| "bootstrap_reply env actor (attempt # rest) t =
     (case in_world (actor (greeting_context env @ tr_messages t)) t of
        (Inl (UserReplyRefused rejected), t1) \<Rightarrow>
          (Inl (user_reply_refused rejected),
           record_user_reply_guard (length (tr_messages t1)) Reply_REFUSED rejected t1)
      | (Inl (Reply_raised e), t1) \<Rightarrow>
          if \<not> is_rate_limit_error e \<or> attempt \<ge> init_attempts env then (Inl e, t1)
          else bootstrap_reply env actor rest (back_off env attempt t1)
      | (Inr r, t1) \<Rightarrow>
          (Inr r, record_actor_spend env r
             (record_user_reply_guard (length (tr_messages t1)) Reply_DELIVERED (gr_guard_rejections r) t1)))"

definition attempt_numbers :: "'v user_env \<Rightarrow> nat list" where
  "attempt_numbers env = [1 ..< init_attempts env + 1]"

definition too_many_opening_steps :: "'v user_env \<Rightarrow> ToolCall list \<Rightarrow> exn" where
  "too_many_opening_steps env calls =
     runtime_error (''User simulator took more than '' @ str_int (ue_max_steps env) @ '' tool '' @
       ''step(s) before its opening message; the dialogue cannot start. The '' @
       ''next step called '' @ call_names calls @ ''.'')"

function bootstrap_steps ::
    "'v user_env \<Rightarrow> 'v actor \<Rightarrow> nat \<Rightarrow> UserReply \<Rightarrow> 'v user_trial \<Rightarrow> (step_failure + pystr) \<times> 'v user_trial" where
  "bootstrap_steps env actor steps reply t =
     (if gr_tool_calls reply = [] then
        (if blank (gr_text reply) then (Inl (Step_raised empty_opening), t) else (Inr (gr_text reply), t))
      else if int (Suc steps) > ue_max_steps env
        then (Inl (Step_raised (too_many_opening_steps env (gr_tool_calls reply))), t)
      else case record_user_tool_step env reply t of
             (Inl f, t1) \<Rightarrow> (Inl f, t1)
           | (Inr _, t1) \<Rightarrow>
               (case bootstrap_reply env actor (attempt_numbers env) t1 of
                  (Inl e, t2) \<Rightarrow> (Inl (Step_raised e), t2)
                | (Inr next_reply, t2) \<Rightarrow> bootstrap_steps env actor (Suc steps) next_reply t2))"
  by pat_completeness auto
termination
  by (relation "measure (\<lambda>(env, actor, steps, reply, t). nat (ue_max_steps env - int steps))") auto

declare bootstrap_steps.simps [simp del]

definition bootstrap_isolated ::
    "'v user_env \<Rightarrow> 'v actor \<Rightarrow> 'v user_trial \<Rightarrow> (step_failure + pystr) \<times> 'v user_trial" where
  "bootstrap_isolated env actor t =
     (case bootstrap_reply env actor (attempt_numbers env) t of
        (Inl e, t1) \<Rightarrow> (Inl (Step_raised e), t1)
      | (Inr opening_reply, t1) \<Rightarrow> bootstrap_steps env actor 0 opening_reply t1)"

definition no_simulator :: exn where
  "no_simulator = runtime_error (''bootstrap_via_simulator requires a user simulator; the conductor '' @
     ''must construct one for interaction_mode='' @ repr_str ''conversational'' @ ''.'')"

definition bootstrap_via_simulator ::
    "'v user_env \<Rightarrow> 'v user_trial \<Rightarrow> (step_failure + pystr \<times> ToolCall list) \<times> 'v user_trial" where
  "bootstrap_via_simulator env t =
     (case ue_simulator env of
        None \<Rightarrow> (Inl (Step_raised no_simulator), t)
      | Some actor \<Rightarrow>
          if ue_isolated env then
            (case bootstrap_isolated env actor t of
               (Inl f, t1) \<Rightarrow> (Inl f, t1)
             | (Inr msg, t1) \<Rightarrow> (Inr (msg, []), t1))
          else (case bootstrap_shared env actor (attempt_numbers env) t of
                  (Inl e, t1) \<Rightarrow> (Inl (Step_raised e), t1)
                | (Inr p, t1) \<Rightarrow> (Inr p, t1)))"

datatype seed_failure = BootstrapUserStop pystr | Seed_budget TerminationReason | Seed_raised exn

fun seed_of_step :: "step_failure \<Rightarrow> seed_failure" where
  "seed_of_step (SimulationBudgetReached reason) = Seed_budget reason"
| "seed_of_step (Step_raised e) = Seed_raised e"

definition deliver_first_user_message ::
    "'v user_env \<Rightarrow> pystr \<Rightarrow> ToolCall list \<Rightarrow> 'v user_trial \<Rightarrow> (seed_failure + unit) \<times> 'v user_trial" where
  "deliver_first_user_message env msg calls t =
     (case trial_budget (participant (calls \<noteq> [])) (say (user_turn_message msg calls) t) of
        (Inl e, t1) \<Rightarrow> (Inl (Seed_raised e), t1)
      | (Inr (Some reason), t1) \<Rightarrow> (Inl (Seed_budget reason), t1)
      | (Inr None, t1) \<Rightarrow>
          (case (if calls = [] \<and> ur_with_text (ue_stop_rule env) = End_dialogue
                 then stop_find (ue_stop_rule env) msg else None) of
             Some stop \<Rightarrow>
               (Inl (BootstrapUserStop (''User signaled stop ('' @ us_token stop @ ''). Dialogue ended.'')), t1)
           | None \<Rightarrow> (Inr (), t1)))"

definition say_opening_line :: "'v user_env \<Rightarrow> 'v user_trial \<Rightarrow> 'v user_trial" where
  "say_opening_line env t =
     (case ue_first_agent_message env of None \<Rightarrow> t | Some line \<Rightarrow> say (text_message Role_ASSISTANT line) t)"

definition seed_first_user_message ::
    "'v user_env \<Rightarrow> 'v turn_policy \<Rightarrow> pystr \<Rightarrow> pystr \<Rightarrow> 'v user_trial \<Rightarrow> (seed_failure + unit) \<times> 'v user_trial" where
  "seed_first_user_message env policy task_id initial t =
     (case policy_bootstrap policy task_id (if blank initial then None else Some initial) of
        Inl e \<Rightarrow> (Inl (Seed_raised e), t)
      | Inr d \<Rightarrow>
          let t1 = say_opening_line env t in
          (case bd_first_user_message d of
             Some msg \<Rightarrow> deliver_first_user_message env msg [] t1
           | None \<Rightarrow>
               if bd_via_simulator d then
                 (case bootstrap_via_simulator env t1 of
                    (Inl f, t2) \<Rightarrow> (Inl (seed_of_step f), t2)
                  | (Inr (msg, calls), t2) \<Rightarrow> deliver_first_user_message env msg calls t2)
               else (Inl (Seed_raised (runtime_error (''BootstrapDecision must supply first_user_message or '' @
                       ''bootstrap_via_simulator=True''))), t1)))"

section \<open>The trial\<close>

definition starts_with :: "pystr \<Rightarrow> pystr \<Rightarrow> bool" where
  "starts_with s p \<longleftrightarrow> take (length p) s = p"

definition low_signal_prefixes :: "pystr list" where
  "low_signal_prefixes = [''let me'', ''i will'', ''i'' @ [CHR 0x27] @ ''ll'', ''working on'', ''one moment'', ''starting now'']"

definition normalize_tool_arguments :: "pystr \<Rightarrow> (pystr, pyval) dict \<Rightarrow> pystr \<Rightarrow> (pystr, pyval) dict" where
  "normalize_tool_arguments tool_name arguments assistant_text =
     (let candidate = strip assistant_text in
      if tool_name \<noteq> ''write_file'' \<or> ''content'' \<in> set (map fst arguments) \<or> candidate = [] \<or>
         list_ex (starts_with (lower_str candidate)) low_signal_prefixes \<or>
         (length candidate < 80 \<and> CHR 0x0A \<notin> set candidate)
      then arguments
      else dict_set ''content'' (VStr candidate) arguments)"

text \<open>
  What a runner is built with.  \<open>rn_loop\<close> holds the agent's client, tools, clock and metrics; its stop
  conditions, user turn, recorder, view and argument recovery are set by \<open>runner_env\<close>.
\<close>

record 'v trial_runner =
  rn_task_id :: pystr
  rn_mode :: InteractionMode
  rn_user :: "'v user_env"
  rn_loop :: "'v user_world loop_env"
  rn_config :: "'v user_world LoopConfig"
  rn_patterns :: "rate_limit_pattern list"
  rn_digest :: "pystr \<Rightarrow> pystr"
  rn_render :: "(pystr, pyval) dict \<Rightarrow> pystr"
  rn_detector :: "int option"
  rn_completion_tools :: "pystr list"
  rn_mark_stuck :: "'v user_world \<Rightarrow> 'v user_world"
  rn_max_simulation_steps :: "int option"
  rn_max_environment_errors :: "int option"

definition runner_env :: "'v trial_runner \<Rightarrow> 'v user_env \<Rightarrow> 'v turn_policy \<Rightarrow> 'v user_world loop_env" where
  "runner_env rn u policy =
     trial_env (rn_patterns rn) (rn_digest rn) (rn_render rn) (rn_detector rn) (rn_completion_tools rn) (rn_mark_stuck rn)
       ((rn_loop rn)\<lparr>le_user_turn := Some (policy_user_turn u policy),
          le_has_recorder := True,
          le_normalize_arguments := Some (\<lambda>name arguments msg. Inr (normalize_tool_arguments name arguments msg)),
          le_agent_view := (if ue_isolated u then Some agent_view else None)\<rparr>)"

definition loop_start :: "'w trial \<Rightarrow> 'w loop_state" where
  "loop_start t =
     trial.extend t \<lparr>ls_wire = [], ls_assigned_ids = [], ls_evidence = None, ls_stall_turns = 0,
       ls_effective_prompt = None, ls_sent = []\<rparr>"

record 'v trial_result =
  tx_status :: TrialStatus
  tx_reason :: "TerminationReason option"
  tx_trial :: "'v user_trial"
  tx_sent :: "Message list list"

text \<open>The \<^verbatim>\<open>except\<close> branches of \<^verbatim>\<open>run\<close>: how a trial ends that never reached the loop.\<close>

definition end_unseeded :: "rate_limit_pattern list \<Rightarrow> seed_failure \<Rightarrow> 'v user_trial \<Rightarrow> 'v trial_result" where
  "end_unseeded patterns f t =
     (case f of
        BootstrapUserStop msg \<Rightarrow>
          \<lparr>tx_status = Status_COMPLETED, tx_reason = Some USER_STOP, tx_trial = say (system_message msg) t, tx_sent = []\<rparr>
      | Seed_budget reason \<Rightarrow>
          \<lparr>tx_status = Status_COMPLETED, tx_reason = Some reason,
           tx_trial = say (system_message (''simulation ended at '' @ reason_value reason)) t, tx_sent = []\<rparr>
      | Seed_raised e \<Rightarrow>
          \<lparr>tx_status = Status_ERROR,
           tx_reason = Some (if exn_class e = TrialNotRegisteredError then TRIAL_LOST
                             else td_reason (classify_loop_error e patterns)),
           tx_trial = say (system_message (''Trial initialization error: '' @ exn_str e @ ''. Dialogue terminated.'')) t,
           tx_sent = []\<rparr>)"

definition run_seeded ::
    "'v trial_runner \<Rightarrow> 'v user_env \<Rightarrow> 'v turn_policy \<Rightarrow> pystr \<Rightarrow> 'v user_trial \<Rightarrow> 'v trial_result" where
  "run_seeded rn u policy system_prompt t =
     (case run (runner_env rn u policy) (rn_config rn) system_prompt (ue_start_time u) (loop_start t) of
        (outcome, s) \<Rightarrow>
          \<lparr>tx_status = lo_status outcome,
           tx_reason = reason_downgraded_without_typed_evidence outcome (lo_termination_reason outcome),
           tx_trial = trial.truncate s, tx_sent = ls_sent s\<rparr>)"

definition run_with_budget ::
    "'v trial_runner \<Rightarrow> pystr \<Rightarrow> pystr \<Rightarrow> SimulationBudget option \<Rightarrow> 'v \<Rightarrow> 'v trial_result" where
  "run_with_budget rn system_prompt initial budget v =
     (case ue_time (rn_user rn) v of (start, v1) \<Rightarrow>
        let u = (rn_user rn)\<lparr>ue_start_time := start\<rparr>;
            t = \<lparr>tr_messages = [], tr_call_ids = fresh_call_ids, tr_recorded = [], tr_budget = budget,
                 tr_world = \<lparr>uw_pending_stop = None, uw_guard_events = [], uw_world = v1\<rparr>\<rparr>
        in case turn_policy_factory (rn_mode rn) (ue_simulator u) of
             Inl e \<Rightarrow> end_unseeded (rn_patterns rn) (Seed_raised e) t
           | Inr policy \<Rightarrow>
               (case seed_first_user_message u policy (rn_task_id rn) initial t of
                  (Inl f, t1) \<Rightarrow> end_unseeded (rn_patterns rn) f t1
                | (Inr _, t1) \<Rightarrow> run_seeded rn u policy system_prompt t1))"

definition run_trial :: "'v trial_runner \<Rightarrow> pystr \<Rightarrow> pystr \<Rightarrow> 'v \<Rightarrow> exn + 'v trial_result" where
  "run_trial rn system_prompt initial v =
     (let limited = (rn_max_simulation_steps rn \<noteq> None \<or> rn_max_environment_errors rn \<noteq> None) in
      if limited \<and> \<not> ue_isolated (rn_user rn)
        then Inl (value_error ''max_simulation_steps / max_environment_errors require isolated user-tool turns'')
      else if \<not> limited then Inr (run_with_budget rn system_prompt initial None v)
      else (case new_budget (rn_max_simulation_steps rn) (rn_max_environment_errors rn) of
              Inl e \<Rightarrow> Inl e
            | Inr b \<Rightarrow> Inr (run_with_budget rn system_prompt initial (Some b) v)))"

end
