(* ===== verification/User_Contract.thy ===== *)
theory User_Contract
  imports Trial_Run
begin

text \<open>
  What the user's side of a trial preserves, proved once.  \<open>user_contract\<close> lists the changes the
  runner's methods make to a trial (a step is declared, run, answered, fails part-way; a shared call
  is run before the message that declares it; a message is said) and shows that a property that
  survives them survives a whole user turn and the seeding of turn 0.  \<open>running calls t\<close> holds while
  \<open>calls\<close> of a declared step are to be run, \<open>embedded calls t\<close> once the shared \<open>calls\<close> have run and
  their message has not been said.
\<close>

definition rests :: "(('v user_trial) \<Rightarrow> bool) \<Rightarrow> (exn + UserTurnResult) \<times> 'v user_trial \<Rightarrow> bool" where
  "rests good p \<longleftrightarrow> good ((snd p)\<lparr>tr_messages := tr_messages (snd p) @ spoken (fst p)\<rparr>)"

lemma rests_simps [simp]:
  "rests good (Inl e, t) = good t"
  "rests good (Inr (ends_turn d), t) = good t"
  "rests good (Inr \<lparr>ut_message = None, ut_termination = d'\<rparr>, t) = good t"
  "rests good (Inr \<lparr>ut_message = Some m, ut_termination = d'\<rparr>, t) = good (say m t)"
  by (simp_all add: rests_def ends_turn_def spoken_def say_def)

lemma user_turn_message_cases:
  "user_turn_message msg [] = user_message msg"
  "cs \<noteq> [] \<Longrightarrow> user_turn_message msg cs = user_message_with_calls msg cs None"
  by (simp_all add: user_turn_message_def)

definition carried ::
    "('v user_trial \<Rightarrow> bool) \<Rightarrow> (ToolCall list \<Rightarrow> 'v user_trial \<Rightarrow> bool)
     \<Rightarrow> (exn + pystr \<times> ToolCall list) \<times> 'v user_trial \<Rightarrow> bool" where
  "carried good embedded p \<longleftrightarrow> (case fst p of Inl e \<Rightarrow> good (snd p) | Inr (msg, cs) \<Rightarrow> embedded cs (snd p))"

lemma carried_simps [simp]:
  "carried good embedded (Inl e, t) = good t" "carried good embedded (Inr (msg, cs), t) = embedded cs t"
  by (simp_all add: carried_def)

locale user_contract =
  fixes u :: "'v user_env" and good :: "'v user_trial \<Rightarrow> bool"
    and running :: "ToolCall list \<Rightarrow> 'v user_trial \<Rightarrow> bool"
    and embedded :: "ToolCall list \<Rightarrow> 'v user_trial \<Rightarrow> bool"
  assumes world: "good (t\<lparr>tr_world := w\<rparr>) = good t" "running cs (t\<lparr>tr_world := w\<rparr>) = running cs t"
      "embedded cs (t\<lparr>tr_world := w\<rparr>) = embedded cs t"
    and budget: "good (t\<lparr>tr_budget := b\<rparr>) = good t" "running cs (t\<lparr>tr_budget := b\<rparr>) = running cs t"
    and declared: "good t \<Longrightarrow> assign_all (map tc_id cs) (tr_call_ids t) = (keys, ids) \<Longrightarrow>
      running (keyed_calls cs keys)
        (say (user_message_with_calls msg (keyed_calls cs keys) reasoning) (t\<lparr>tr_call_ids := ids\<rparr>))"
    and running_inv: "running cs t \<Longrightarrow> good t"
    and step_ran: "running (c # cs) t \<Longrightarrow>
      running cs (say (user_tool_message (tc_id c) content (Some st))
        (t\<lparr>tr_recorded := record_call (tc_id c) (tc_name c) (tc_arguments c) Executor_USER st out d (tr_recorded t)\<rparr>))"
    and step_failed: "running (c # cs) t \<Longrightarrow>
      good (t\<lparr>tr_messages := tr_messages t @ answer_a_failed_step (c # cs) e\<rparr>)"
    and nothing_embedded: "good t \<Longrightarrow> embedded [] t"
    and shared_ran: "embedded cs t \<Longrightarrow> assign (tc_id c) (tr_call_ids t) = (k, ids) \<Longrightarrow>
      embedded (cs @ [c\<lparr>tc_id := k\<rparr>]) (t\<lparr>tr_call_ids := ids,
        tr_recorded := record_call k (tc_name c) (tc_arguments c) Executor_USER st out d (tr_recorded t)\<rparr>)"
    and shared_raised: "embedded cs t \<Longrightarrow> assign (tc_id c) (tr_call_ids t) = (k, ids) \<Longrightarrow>
      \<not> ue_isolated u \<Longrightarrow> ue_executor u = Some ex \<Longrightarrow> ex name args k v = (Inl e, v') \<Longrightarrow>
      good (t\<lparr>tr_call_ids := ids\<rparr>)"
    and shared_said: "embedded cs t \<Longrightarrow> good (say (user_turn_message msg cs) t)"
    and opening_said: "good t \<Longrightarrow> ue_first_agent_message u = Some line \<Longrightarrow> good (say (text_message Role_ASSISTANT line) t)"
    and ending_said: "good t \<Longrightarrow> good (say (system_message msg) t)"
begin

lemmas quiet = world budget

lemma in_world_quiet [simp]:
  "good (snd (in_world f t)) = good t" "running cs (snd (in_world f t)) = running cs t"
  "embedded cs (snd (in_world f t)) = embedded cs t"
  by (simp_all add: in_world_def case_prod_beta quiet)

lemma pending_quiet [simp]: "good (set_pending st t) = good t"
  by (simp add: set_pending_def quiet)

lemma said_pending [simp]: "good (say m (set_pending st t)) = good (say m t)"
proof -
  have "say m (set_pending st t) = (say m t)\<lparr>tr_world := (tr_world t)\<lparr>uw_pending_stop := st\<rparr>\<rparr>"
    by (simp add: set_pending_def say_def)
  then show ?thesis by (simp add: quiet)
qed

lemma guard_quiet [simp]: "good (record_user_reply_guard i oc rej t) = good t"
  by (simp add: record_user_reply_guard_def quiet)

lemma spend_quiet [simp]: "good (record_actor_spend u r t) = good t"
  by (simp add: record_actor_spend_def)

lemma budget_quiet [simp]: "good (snd (trial_budget f t)) = good t" "running cs (snd (trial_budget f t)) = running cs t"
  by (simp_all add: trial_budget_def case_prod_beta quiet split: option.split)

lemma replied: "good t \<Longrightarrow> good (snd (reply_as_user u actor t))"
proof -
  assume "good t"
  obtain x t1 where "in_world (actor (tr_messages t)) t = (x, t1)" by fastforce
  moreover from this in_world_quiet(1) [of "actor (tr_messages t)" t] \<open>good t\<close> have "good t1" by simp
  ultimately show ?thesis by (simp add: reply_as_user_def Let_def split: sum.split reply_failure.split)
qed

lemma called:
  assumes "run_user_call u ex c t = (x, t')"
  shows "(\<exists>e w v v'. x = Inl e \<and> t' = t\<lparr>tr_world := w\<rparr> \<and> ex (tc_name c) (tc_arguments c) (tc_id c) v = (Inl e, v')) \<or>
    (\<exists>r d w. x = Inr r \<and> t' = t\<lparr>tr_world := w, tr_recorded := record_call (tc_id c) (tc_name c) (tc_arguments c)
       Executor_USER (resolve_tool_status r) (resolve_tool_output r) d (tr_recorded t)\<rparr>)"
proof -
  obtain st w1 where t1: "ue_time u (uw_world (tr_world t)) = (st, w1)" by fastforce
  obtain y w2 where ex: "ex (tc_name c) (tc_arguments c) (tc_id c) w1 = (y, w2)" by fastforce
  obtain en w3 where t2: "ue_time u w2 = (en, w3)" by fastforce
  show ?thesis
  proof (cases y)
    case (Inl e)
    then show ?thesis using assms ex
      by (intro disjI1 exI [of _ e] exI [of _ "(tr_world t)\<lparr>uw_world := w2\<rparr>"] exI [of _ w1] exI [of _ w2])
        (simp add: run_user_call_def in_world_def t1)
  next
    case (Inr r)
    then show ?thesis using assms ex
      by (intro disjI2 exI [of _ r] exI [of _ "en - st"] exI [of _ "(tr_world t)\<lparr>uw_world := w3\<rparr>"])
        (simp add: run_user_call_def in_world_def t1 t2)
  qed
qed

lemma step_calls:
  "running cs t \<Longrightarrow> good (snd (run_step_calls u ex cs n t))"
proof (induction cs arbitrary: n t)
  case Nil
  then show ?case by (simp add: running_inv)
next
  case (Cons c cs)
  obtain x t1 where c: "run_user_call u ex c t = (x, t1)" by fastforce
  from called [OF c] show ?case
  proof (elim disjE exE conjE)
    fix e w assume x: "x = Inl e" and t1: "t1 = t\<lparr>tr_world := w\<rparr>"
    let ?t2 = "t1\<lparr>tr_messages := tr_messages t1 @ answer_a_failed_step (c # cs) e\<rparr>"
    have "good ?t2" using step_failed [of c cs t1 e] Cons.prems by (simp add: t1 quiet)
    moreover obtain z t3 where b: "trial_budget (environment n) ?t2 = (z, t3)" by fastforce
    ultimately have "good t3" using budget_quiet(1) [of "environment n" ?t2] by simp
    then show ?thesis by (simp add: c x Let_def b split: sum.split)
  next
    fix r d w assume x: "x = Inr r" and t1: "t1 = t\<lparr>tr_world := w, tr_recorded := record_call (tc_id c) (tc_name c)
      (tc_arguments c) Executor_USER (resolve_tool_status r) (resolve_tool_output r) d (tr_recorded t)\<rparr>"
    have "running cs (say (user_tool_message (tc_id c) (raw_tool_content r) (Some (resolve_tool_status r))) t1)"
      using step_ran [of c cs "t\<lparr>tr_world := w\<rparr>"] Cons.prems by (simp add: t1 quiet)
    then show ?thesis by (simp add: c x Cons.IH)
  qed
qed

lemma step_recorded:
  assumes "good t"
  shows "good (snd (record_user_tool_step u r t))"
proof (cases "ue_executor u")
  case None
  then show ?thesis by (simp add: record_user_tool_step_def assms)
next
  case (Some ex)
  obtain keys ids where a: "assign_all (map tc_id (gr_tool_calls r)) (tr_call_ids t) = (keys, ids)" by fastforce
  let ?cs = "keyed_calls (gr_tool_calls r) keys"
  let ?t1 = "say (user_message_with_calls (gr_text r) ?cs (gr_reasoning r)) (t\<lparr>tr_call_ids := ids\<rparr>)"
  have t1: "running ?cs ?t1" using declared [OF assms a] .
  obtain x t2 where b: "trial_budget (participant True) ?t1 = (x, t2)" by fastforce
  with budget_quiet(2) [of ?cs "participant True" ?t1] t1 have t2: "running ?cs t2" by simp
  obtain y t3 where s: "run_step_calls u ex ?cs 0 t2 = (y, t3)" by fastforce
  with step_calls [OF t2, of ex 0] have t3: "good t3" by simp
  have "good (snd (trial_budget (environment n) t3))" for n using t3 by simp
  then have t4: "good t4" if "trial_budget (environment n) t3 = (z, t4)" for n z t4 using that by (metis snd_conv)
  show ?thesis
    using t3 running_inv [OF t2]
    by (auto simp: record_user_tool_step_def Some a Let_def b s dest: t4 split: sum.split prod.split option.split)
qed

lemma steps_run: "good t \<Longrightarrow> good (snd (run_user_tool_steps u actor n r t))"
proof (induction "nat (ue_max_steps u - int n)" arbitrary: n r t rule: less_induct)
  case less
  obtain x t1 where s: "record_user_tool_step u r t = (x, t1)" by fastforce
  with step_recorded [OF less.prems, of r] have t1: "good t1" by simp
  obtain now t2 where c: "in_world (ue_time u) t1 = (now, t2)" by fastforce
  with in_world_quiet(1) [of "ue_time u" t1] t1 have t2: "good t2" by simp
  obtain y t3 where r: "reply_as_user u actor t2 = (y, t3)" by fastforce
  with replied [OF t2, of actor] have t3: "good t3" by simp
  have again: "good (snd (run_user_tool_steps u actor (Suc n) r' t3))" if "\<not> ue_max_steps u < int (Suc n)" for r'
    using less.hyps [of "Suc n" t3 r'] that t3 by simp
  show ?case
    using less.prems t1 t2 t3
    by (subst run_user_tool_steps.simps) (auto simp: s c r again split: sum.split step_failure.split option.split)
qed

text \<open>Shared calls: run first, declared by the message that is said afterwards.\<close>

lemma shared_calls:
  assumes "\<not> ue_isolated u" "ue_executor u = Some ex"
  shows "embedded before t \<Longrightarrow>
    (case run_shared_calls u ex cs t of
       (Inl e, t') \<Rightarrow> good t'
     | (Inr replies, t') \<Rightarrow> embedded (before @ map fst replies) t')"
proof (induction cs arbitrary: before t)
  case Nil
  then show ?case by simp
next
  case (Cons c cs)
  obtain k ids where a: "assign (tc_id c) (tr_call_ids t) = (k, ids)" by fastforce
  let ?c = "c\<lparr>tc_id := k\<rparr>"
  obtain x t1 where r: "run_user_call u ex ?c (t\<lparr>tr_call_ids := ids\<rparr>) = (x, t1)" by fastforce
  from called [OF r] show ?case
  proof (elim disjE exE conjE)
    fix e w v v' assume x: "x = Inl e" and t1: "t1 = t\<lparr>tr_call_ids := ids\<rparr>\<lparr>tr_world := w\<rparr>"
      and ex: "ex (tc_name ?c) (tc_arguments ?c) (tc_id ?c) v = (Inl e, v')"
    have "good (t\<lparr>tr_call_ids := ids\<rparr>)" using shared_raised [OF Cons.prems a assms] ex by simp
    then show ?thesis by (simp add: a r x t1 world)
  next
    fix y d w assume x: "x = Inr y" and t1: "t1 = t\<lparr>tr_call_ids := ids\<rparr>\<lparr>tr_world := w, tr_recorded :=
      record_call (tc_id ?c) (tc_name ?c) (tc_arguments ?c) Executor_USER (resolve_tool_status y) (resolve_tool_output y) d
        (tr_recorded (t\<lparr>tr_call_ids := ids\<rparr>))\<rparr>"
    have "t1 = t\<lparr>tr_call_ids := ids, tr_recorded := record_call k (tc_name c) (tc_arguments c) Executor_USER
        (resolve_tool_status y) (resolve_tool_output y) d (tr_recorded t)\<rparr>\<lparr>tr_world := w\<rparr>"
      by (simp add: t1)
    then have "embedded (before @ [?c]) t1" using shared_ran [OF Cons.prems a] by (simp add: world)
    from Cons.IH [OF this] show ?thesis
      by (auto simp: a r x Let_def split: prod.splits sum.splits)
  qed
qed

lemma tool_calls_run:
  assumes "good t" "cs = [] \<or> \<not> ue_isolated u"
  shows "carried good embedded (run_user_tool_calls u msg cs t)"
proof (cases "cs = [] \<or> ue_executor u = None")
  case True
  then show ?thesis
    using assms(1) by (auto simp: run_user_tool_calls_def nothing_embedded)
next
  case False
  then obtain ex where ex: "ue_executor u = Some ex" by auto
  have "\<not> ue_isolated u" using False assms(2) by auto
  from shared_calls [OF this ex nothing_embedded [OF assms(1)], of cs] False ex show ?thesis
    by (auto simp: run_user_tool_calls_def split: prod.splits sum.splits)
qed

lemma reply_delivered:
  assumes "good t" "gr_tool_calls r = [] \<or> \<not> ue_isolated u"
  shows "rests good (deliver_user_reply u r t)"
proof -
  have said: "rests good (case run_user_tool_calls u msg cs t of (Inl e, t1) \<Rightarrow> (Inl e, t1)
      | (Inr (content, calls), t1) \<Rightarrow>
          (Inr \<lparr>ut_message = Some (user_turn_message content calls), ut_termination = d\<rparr>, f t1))"
    if "cs = [] \<or> \<not> ue_isolated u" "\<And>m t'. good (say m (f t')) = good (say m t')" for msg cs d f
    using tool_calls_run [OF assms(1) that(1), of msg] that(2)
    by (auto simp: shared_said split: prod.split sum.split)
  show ?thesis
    using said [where cs = "gr_tool_calls r" and f = "\<lambda>t. t"] said [where cs = "gr_tool_calls r" and f = "set_pending st" for st]
      said [where cs = "[]" and f = "\<lambda>t. t"] assms
    by (auto simp: deliver_user_reply_def end_on_user_stop_def split: option.split)
qed

lemma steps_end: "run_user_tool_steps u actor n r t = (Inr (Inr r'), t') \<Longrightarrow> gr_tool_calls r' = []"
proof (induction "nat (ue_max_steps u - int n)" arbitrary: n r t rule: less_induct)
  case less
  show ?case
    using less.prems
    by (subst (asm) run_user_tool_steps.simps)
      (auto split: if_splits prod.splits sum.splits step_failure.splits option.splits dest: less.hyps [rotated])
qed

lemma user_dispatched:
  assumes "good t"
  shows "rests good (dispatch_user_actor u actor t)"
proof -
  obtain x t1 where r: "reply_as_user u actor t = (x, t1)" by fastforce
  with replied [OF assms, of actor] have t1: "good t1" by simp
  define y t2 where "y r = fst (run_user_tool_steps u actor 0 r t1)" and "t2 r = snd (run_user_tool_steps u actor 0 r t1)" for r
  then have s: "run_user_tool_steps u actor 0 r t1 = (y r, t2 r)" for r by simp
  have t2: "good (t2 r)" for r using steps_run [OF t1, of actor 0 r] s [of r] by simp
  have "rests good (deliver_user_reply u r' (t2 r))" if "y r = Inr (Inr r')" for r r'
    using reply_delivered [OF t2] steps_end [of actor 0 r t1 r' "t2 r"] s [of r] that by simp
  moreover have "rests good (deliver_user_reply u r t1)" if "\<not> ue_isolated u" for r
    using reply_delivered [OF t1] that by simp
  ultimately show ?thesis
    using assms t1 t2
    by (auto simp: dispatch_user_actor_def r s split: option.split sum.split)
qed

lemma user_turn_taken: "good t \<Longrightarrow> rests good (policy_user_turn u policy t)"
  by (simp add: policy_user_turn_def user_dispatched split: next_actor.split)

text \<open>Turn 0.\<close>

lemma backed_off [simp]: "good (back_off u n t) = good t"
  by (simp add: back_off_def)

lemma shared_opened:
  assumes "good t" "\<not> ue_isolated u"
  shows "case shared_opening u actor t of (Inl e, t') \<Rightarrow> good t' | (Inr (msg, cs), t') \<Rightarrow> embedded cs t'"
proof -
  obtain x t1 where a: "in_world (actor (greeting_context u @ tr_messages t)) t = (x, t1)" by fastforce
  with in_world_quiet(1) [of "actor (greeting_context u @ tr_messages t)" t] assms have t1: "good t1" by simp
  have "carried good embedded (run_user_tool_calls u msg cs (record_actor_spend u r (record_user_reply_guard i oc rej t1)))" for msg cs r i oc rej
    using t1 assms(2) by (intro tool_calls_run) simp_all
  then show ?thesis
    using t1 by (auto simp: shared_opening_def a Let_def carried_def split: sum.split reply_failure.split prod.split) (metis fst_conv snd_conv sum.case prod.case)+
qed

lemma shared_bootstrapped:
  assumes "\<not> ue_isolated u"
  shows "good t \<Longrightarrow> carried good embedded (bootstrap_shared u actor ns t)"
proof (induction ns arbitrary: t)
  case (Cons n ns)
  obtain x t1 where o: "shared_opening u actor t = (x, t1)" by fastforce
  have again: "carried good embedded (bootstrap_shared u actor ns (back_off u n t1))" if "good t1" using Cons.IH that by simp
  from shared_opened [OF Cons.prems assms, of actor] show ?case
    by (auto simp: o again split: sum.splits)
qed simp

lemma asked: "good t \<Longrightarrow> good (snd (bootstrap_reply u actor ns t))"
proof (induction ns arbitrary: t)
  case (Cons n ns)
  obtain x t1 where a: "in_world (actor (greeting_context u @ tr_messages t)) t = (x, t1)" by fastforce
  with in_world_quiet(1) [of "actor (greeting_context u @ tr_messages t)" t] Cons.prems have "good t1" by simp
  with Cons.IH show ?case by (simp add: a split: sum.split reply_failure.split)
qed simp

lemma opening_steps: "good t \<Longrightarrow> good (snd (bootstrap_steps u actor n r t))"
proof (induction "nat (ue_max_steps u - int n)" arbitrary: n r t rule: less_induct)
  case less
  obtain x t1 where s: "record_user_tool_step u r t = (x, t1)" by fastforce
  with step_recorded [OF less.prems, of r] have t1: "good t1" by simp
  obtain y t2 where a: "bootstrap_reply u actor (attempt_numbers u) t1 = (y, t2)" by fastforce
  with asked [OF t1, of actor "attempt_numbers u"] have t2: "good t2" by simp
  have again: "good (snd (bootstrap_steps u actor (Suc n) r' t2))" if "\<not> ue_max_steps u < int (Suc n)" for r'
    using less.hyps [of "Suc n" t2 r'] that t2 by simp
  show ?case
    using less.prems t1 t2 by (subst bootstrap_steps.simps) (auto simp: s a again split: sum.split)
qed

lemma isolated_bootstrapped: "good t \<Longrightarrow> good (snd (bootstrap_isolated u actor t))"
  using asked [of t actor "attempt_numbers u"] opening_steps
  by (auto simp: bootstrap_isolated_def split: prod.split sum.split)

lemma bootstrapped:
  assumes "good t"
  shows "case bootstrap_via_simulator u t of (Inl f, t') \<Rightarrow> good t' | (Inr (msg, cs), t') \<Rightarrow> embedded cs t'"
proof (cases "ue_simulator u")
  case None
  then show ?thesis by (simp add: bootstrap_via_simulator_def assms)
next
  case (Some actor)
  show ?thesis
  proof (cases "ue_isolated u")
    case True
    with isolated_bootstrapped [OF assms, of actor] Some show ?thesis
      by (auto simp: bootstrap_via_simulator_def nothing_embedded split: prod.split sum.split)
  next
    case False
    with shared_bootstrapped [OF False assms, of actor "attempt_numbers u"] Some show ?thesis
      by (auto simp: bootstrap_via_simulator_def carried_def split: prod.split sum.split)
  qed
qed

lemma first_message_said:
  assumes "embedded cs t"
  shows "good (snd (deliver_first_user_message u msg cs t))"
proof -
  obtain x t1 where b: "trial_budget (participant (cs \<noteq> [])) (say (user_turn_message msg cs) t) = (x, t1)" by fastforce
  with budget_quiet(1) [of "participant (cs \<noteq> [])" "say (user_turn_message msg cs) t"] shared_said [OF assms]
  have "good t1" by simp
  then show ?thesis by (auto simp: deliver_first_user_message_def b split: sum.split option.split)
qed

lemma seeded:
  assumes "good t"
  shows "good (snd (seed_first_user_message u policy task initial t))"
proof -
  have t1: "good (say_opening_line u t)"
    using assms by (auto simp: say_opening_line_def opening_said split: option.split)
  from bootstrapped [OF t1] first_message_said [OF nothing_embedded [OF t1]] first_message_said t1 assms show ?thesis
    by (auto simp: seed_first_user_message_def Let_def split: sum.split option.split prod.splits)
qed

lemma unseeded: "good t \<Longrightarrow> good (tx_trial (end_unseeded patterns f t))"
  by (simp add: end_unseeded_def ending_said split: seed_failure.split)

end

end
