(* ===== verification/Trial_Graded.thy ===== *)
theory Trial_Graded
  imports User_Contract
begin

text \<open>
  Whole trials.  \<open>user_contract\<close> is interpreted on three properties of a trial (the history only
  grows, no assistant turn is empty, transcript and record agree); together with the loop's
  contracts this gives theorems about \<^verbatim>\<open>TrialRunner.run\<close> with no assumption on the user's side but what
  the code needs: a user tool that raises in the middle of a shared reply leaves records no message
  declares.
\<close>

section \<open>The history\<close>

interpretation appending: user_contract u "grown ms rs" "\<lambda>_. grown ms rs" "\<lambda>_. grown ms rs" for u ms rs
  by unfold_locales (auto simp: grown_def say_def record_call_def)

lemma runner_user_turn: "le_user_turn (runner_env rn u policy) = Some (policy_user_turn u policy)"
  by (simp add: runner_env_def trial_env_def)

lemma runner_keeps:
  assumes "\<And>t. good t \<Longrightarrow> rests good (policy_user_turn u policy t)"
  shows "user_keeps good (runner_env rn u policy)"
proof -
  have "good (t'\<lparr>tr_messages := tr_messages t' @ spoken x\<rparr>)" if "policy_user_turn u policy t = (x, t')" "good t" for t x t'
    using assms [OF that(2)] that(1) by (simp add: rests_def)
  then show ?thesis by (simp add: user_keeps_def runner_user_turn)
qed

lemma runner_appends: "user_only_appends (runner_env rn u policy)"
  by (simp add: user_only_appends_def runner_keeps appending.user_turn_taken)

section \<open>Legal turns\<close>

lemma lawful_contract:
  assumes "refuse_a_blank_first_agent_message (ue_first_agent_message u) = None"
  shows "user_contract u (\<lambda>t. list_all legal_turn (tr_messages t)) (\<lambda>_ t. list_all legal_turn (tr_messages t))
    (\<lambda>_ t. list_all legal_turn (tr_messages t))"
proof unfold_locales
  show "list_all legal_turn (tr_messages (say (text_message Role_ASSISTANT line) t))"
    if "list_all legal_turn (tr_messages t)" "ue_first_agent_message u = Some line" for t line
    using that assms
    by (cases line) (auto simp: say_def legal_turn_def text_message_def refuse_a_blank_first_agent_message_def blank_def)
qed (auto simp: say_def legal_turn_def user_message_with_calls_def user_tool_message_def answer_a_failed_step_def
    user_turn_message_def user_message_def system_message_def text_message_def calls_of_def list_all_iff)

interpretation lawful: user_contract "u\<lparr>ue_first_agent_message := None\<rparr>" "\<lambda>t. list_all legal_turn (tr_messages t)"
  "\<lambda>_ t. list_all legal_turn (tr_messages t)" "\<lambda>_ t. list_all legal_turn (tr_messages t)" for u
  by (rule lawful_contract) (simp add: refuse_a_blank_first_agent_message_def)

lemma agent_view_part: "set (agent_view ms) \<subseteq> set ms"
  by (auto simp: agent_view_def in_set_enumerate_eq)

section \<open>Agreement of transcript and record\<close>

lemma joined_by:
  assumes "tr_call_ids t' = tr_call_ids t" "tr_recorded t' = tr_recorded t"
    "declarations (tr_messages t') = declarations (tr_messages t)" "answered (tr_messages t') = answered (tr_messages t)"
  shows "joined t' = joined t"
  by (simp add: joined_def assms)

definition step_open :: "ToolCall list \<Rightarrow> ('w, 'z) trial_scheme \<Rightarrow> bool" where
  "step_open cs t \<longleftrightarrow>
     joined t \<and> distinct (map tc_id cs) \<and>
     (\<forall>c \<in> set cs. (tc_id c, tc_name c) \<in> set (declarations (tr_messages t)) \<and> tc_id c \<notin> rc_call_id ` set (tr_recorded t)) \<and>
     (tr_recorded t = [] \<longrightarrow> Some ` tc_id ` set cs \<inter> set (answered (tr_messages t)) = {})"

definition reply_open :: "ToolCall list \<Rightarrow> 'w trial \<Rightarrow> bool" where
  "reply_open cs t \<longleftrightarrow> joined (say (user_message_with_calls [] cs None) t)"

lemma user_side_declarations [simp]:
  "declarations [user_message_with_calls msg cs rs] = map (\<lambda>c. (tc_id c, tc_name c)) cs"
  "declarations [user_turn_message msg cs] = map (\<lambda>c. (tc_id c, tc_name c)) cs"
  "declarations [user_tool_message i c st] = []"
  by (simp_all add: declarations_single user_message_with_calls_def user_turn_message_def user_message_def
      user_tool_message_def text_message_def calls_of_def)

lemma user_side_answered [simp]:
  "answered [user_message_with_calls msg cs rs] = []" "answered [user_turn_message msg cs] = []"
  "answered [user_tool_message i c st] = [Some i]"
  by (simp_all add: answered_def user_message_with_calls_def user_turn_message_def user_message_def
      user_tool_message_def text_message_def)

lemma failed_step_reads:
  "declarations (answer_a_failed_step cs e) = []" "answered (answer_a_failed_step cs e) = map (Some \<circ> tc_id) cs"
  by (auto simp: answer_a_failed_step_def declarations_def turns_of_def answered_def user_tool_message_def comp_def
      split: list.split)

lemma keyed_calls_reads:
  assumes "length keys = length cs"
  shows "map tc_id (keyed_calls cs keys) = keys" "map tc_name (keyed_calls cs keys) = map tc_name cs"
  using assms by (induction keys cs rule: list_induct2) (simp_all add: keyed_calls_def)

lemma joined_reassigned:
  assumes "joined t" "set (assigned (tr_call_ids t)) \<subseteq> set (assigned ids)" "distinct (assigned ids)"
  shows "joined (t\<lparr>tr_call_ids := ids\<rparr>)"
  using assms by (auto simp: joined_def)

lemma joined_record_ids: "joined t \<Longrightarrow> rc_call_id ` set (tr_recorded t) \<subseteq> fst ` set (declarations (tr_messages t))"
  by (force simp: joined_def)

lemma joined_known_ids:
  "joined t \<Longrightarrow> fst ` set (declarations (tr_messages t)) \<subseteq> set (assigned (tr_call_ids t))"
  by (simp add: joined_def)

lemma step_declared:
  assumes "joined t" "assign_all (map tc_id cs) (tr_call_ids t) = (keys, ids)"
  shows "step_open (keyed_calls cs keys)
    (say (user_message_with_calls msg (keyed_calls cs keys) reasoning) (t\<lparr>tr_call_ids := ids\<rparr>))"
proof -
  let ?cs = "keyed_calls cs keys" and ?t = "t\<lparr>tr_call_ids := ids\<rparr>"
  let ?m = "user_message_with_calls msg ?cs reasoning"
  have d: "distinct (assigned (tr_call_ids t))" using assms(1) by (simp add: joined_def)
  note k = assign_all_keys [OF d, of "map tc_id cs", unfolded assms(2) fst_conv]
  note g = assign_all_assigned [where xs = "map tc_id cs" and s = "tr_call_ids t", unfolded assms(2) fst_conv snd_conv]
  have ids: "map tc_id ?cs = keys" using k by (intro keyed_calls_reads) simp
  then have ids': "tc_id ` set ?cs = set keys" by (metis set_map)
  have fresh: "set keys \<inter> fst ` set (declarations (tr_messages t)) = {}"
    using k joined_known_ids [OF assms(1)] by blast
  have jt: "joined ?t" using assms(1) g d by (intro joined_reassigned) auto
  have m: "m_role ?m = Role_USER" "calls_of ?m = ?cs" by (simp_all add: user_message_with_calls_def calls_of_def)
  have "joined (?t\<lparr>tr_messages := tr_messages ?t @ [?m]\<rparr>)"
    using jt by (rule joined_declares) (use k g fresh in \<open>simp_all add: m ids ids'\<close>)
  moreover have "tc_id c \<notin> rc_call_id ` set (tr_recorded t)" if "c \<in> set ?cs" for c
    using that fresh joined_record_ids [OF assms(1)] ids' by blast
  moreover have "Some ` tc_id ` set ?cs \<inter> set (answered (tr_messages t)) = {}" if "tr_recorded t = []"
    using assms(1) that fresh unfolding joined_def ids' by blast
  ultimately show ?thesis using k by (simp add: step_open_def say_def ids)
qed

lemma step_answered:
  assumes "step_open (c # cs) t"
  shows "step_open cs (say (user_tool_message (tc_id c) content (Some st))
    (t\<lparr>tr_recorded := record_call (tc_id c) (tc_name c) args ex st out d (tr_recorded t)\<rparr>))"
proof -
  have "tc_id c' \<noteq> tc_id c" if "c' \<in> set cs" for c'
    using assms imageI [OF that, of tc_id] by (auto simp: step_open_def)
  with assms show ?thesis by (auto simp: step_open_def joined_def say_def record_call_def)
qed

lemma step_abandoned:
  assumes "step_open (c # cs) t"
  shows "joined (t\<lparr>tr_messages := tr_messages t @ answer_a_failed_step (c # cs) e\<rparr>)"
proof (cases "tr_recorded t = []")
  case True
  have "distinct (map (Some \<circ> tc_id) (c # cs))" "Some ` tc_id ` set (c # cs) \<inter> set (answered (tr_messages t)) = {}"
    using assms True by (auto simp: step_open_def distinct_map comp_def intro!: inj_onI dest: inj_onD)
  moreover have "tc_id ` set (c # cs) \<subseteq> fst ` set (declarations (tr_messages t))"
  proof
    fix i assume "i \<in> tc_id ` set (c # cs)"
    then obtain c' where c': "c' \<in> set (c # cs)" "i = tc_id c'" by blast
    then have "(tc_id c', tc_name c') \<in> set (declarations (tr_messages t))"
      using assms unfolding step_open_def by blast
    then show "i \<in> fst ` set (declarations (tr_messages t))" using c'(2) by (metis fst_conv imageI)
  qed
  moreover have "joined t" using assms by (simp add: step_open_def)
  ultimately show ?thesis
    using True unfolding joined_def by (auto simp: failed_step_reads image_comp)
next
  case False
  then show ?thesis using assms by (simp add: step_open_def joined_def failed_step_reads)
qed

lemma reply_ran:
  assumes "reply_open cs t" "assign (tc_id c) (tr_call_ids t) = (k, ids)"
  shows "reply_open (cs @ [c\<lparr>tc_id := k\<rparr>])
    (t\<lparr>tr_call_ids := ids, tr_recorded := record_call k (tc_name c) args ex st out d (tr_recorded t)\<rparr>)"
proof -
  have a: "k \<notin> set (assigned (tr_call_ids t))" "assigned ids = k # assigned (tr_call_ids t)"
    using assign_new [of "tc_id c" "tr_call_ids t"] assms(2) by simp_all
  have j: "joined (say (user_message_with_calls [] cs None) t)" using assms(1) by (simp add: reply_open_def)
  have "k \<notin> fst ` set (declarations (tr_messages t)) \<union> tc_id ` set cs"
    using joined_known_ids [OF j] a(1) by (auto simp: say_def image_Un image_image)
  moreover have "k \<notin> rc_call_id ` set (tr_recorded t)"
    using joined_record_ids [OF j] joined_known_ids [OF j] a(1) by (auto simp: say_def)
  ultimately show ?thesis
    using j a by (auto simp: reply_open_def joined_def say_def record_call_def image_Un)
qed

definition user_tools_settle :: "'v user_env \<Rightarrow> bool" where
  "user_tools_settle u \<longleftrightarrow>
     (\<forall>ex name args k v e v'. ue_executor u = Some ex \<longrightarrow> ex name args k v \<noteq> (Inl e, v'))"

lemma graded_contract:
  assumes "ue_isolated u \<or> user_tools_settle u"
  shows "user_contract u joined step_open reply_open"
proof unfold_locales
  show "reply_open (cs @ [c\<lparr>tc_id := k\<rparr>]) (t\<lparr>tr_call_ids := ids,
      tr_recorded := record_call k (tc_name c) (tc_arguments c) Executor_USER st out d (tr_recorded t)\<rparr>)"
    if "reply_open cs t" "assign (tc_id c) (tr_call_ids t) = (k, ids)" for cs t c k ids st out d
    using that by (rule reply_ran)
  show "joined (t\<lparr>tr_call_ids := ids\<rparr>)"
    if "\<not> ue_isolated u" "ue_executor u = Some ex" "ex name args k v = (Inl e, v')" for t ids ex name args k v e v'
    using assms that by (auto simp: user_tools_settle_def)
  show "joined (say (user_turn_message msg cs) t)" if "reply_open cs t" for cs t msg
  proof -
    have "joined (say (user_turn_message msg cs) t) = joined (say (user_message_with_calls [] cs None) t)"
      by (rule joined_by) (simp_all add: say_def)
    with that show ?thesis by (simp add: reply_open_def)
  qed
  show "joined (say (text_message Role_ASSISTANT line) t)" if "joined t" for line t
    using that by (simp add: joined_def say_def declarations_single answered_def text_message_def calls_of_def)
  show "step_open (keyed_calls cs keys)
      (say (user_message_with_calls msg (keyed_calls cs keys) reasoning) (t\<lparr>tr_call_ids := ids\<rparr>))"
    if "joined t" "assign_all (map tc_id cs) (tr_call_ids t) = (keys, ids)" for t cs keys ids msg reasoning
    using that by (rule step_declared)
  show "step_open cs (say (user_tool_message (tc_id c) content (Some st))
      (t\<lparr>tr_recorded := record_call (tc_id c) (tc_name c) (tc_arguments c) Executor_USER st out d (tr_recorded t)\<rparr>))"
    if "step_open (c # cs) t" for c cs t content st out d
    using that by (rule step_answered)
  show "joined (t\<lparr>tr_messages := tr_messages t @ answer_a_failed_step (c # cs) e\<rparr>)" if "step_open (c # cs) t" for c cs t e
    using that by (rule step_abandoned)
qed (simp_all add: reply_open_def joined_def say_def step_open_def)

interpretation graded: user_contract "u\<lparr>ue_isolated := True\<rparr>" joined step_open reply_open for u
  by (rule graded_contract) simp

section \<open>From the first message to the last\<close>

lemma trial_reaches:
  assumes contract: "\<And>start. user_contract ((rn_user rn)\<lparr>ue_start_time := start\<rparr>) good running embedded"
    and loop: "\<And>start policy t. good t \<Longrightarrow>
      goal (run_seeded rn ((rn_user rn)\<lparr>ue_start_time := start\<rparr>) policy system_prompt t)"
    and ended: "\<And>f t. good t \<Longrightarrow> goal (end_unseeded (rn_patterns rn) f t)"
    and start: "\<And>b w. good \<lparr>tr_messages = [], tr_call_ids = fresh_call_ids, tr_recorded = [], tr_budget = b, tr_world = w\<rparr>"
    and ran: "run_trial rn system_prompt initial v = Inr r"
  shows "goal r"
proof -
  obtain b where r: "r = run_with_budget rn system_prompt initial b v"
    using ran by (auto simp: run_trial_def Let_def split: if_splits sum.splits)
  obtain now v1 where now: "ue_time (rn_user rn) v = (now, v1)" by fastforce
  let ?u = "(rn_user rn)\<lparr>ue_start_time := now\<rparr>"
  let ?t = "\<lparr>tr_messages = [], tr_call_ids = fresh_call_ids, tr_recorded = [], tr_budget = b,
    tr_world = \<lparr>uw_pending_stop = None, uw_guard_events = [], uw_world = v1\<rparr>\<rparr>"
  have seeded: "good t1" if "seed_first_user_message ?u policy (rn_task_id rn) initial ?t = (x, t1)" for policy x t1
    using user_contract.seeded [OF contract [of now] start, of policy "rn_task_id rn" initial b] that by (metis snd_conv)
  show ?thesis
    by (auto simp: r run_with_budget_def now Let_def start ended loop dest: seeded split: sum.split prod.split)
qed

text \<open>
  Property C2.  Every trial can be graded.  Whatever the simulator, the agent, the tools and the clock do,
  \<^verbatim>\<open>TrialRunner.run\<close> leaves a transcript and a tool-call record that \<^verbatim>\<open>build_trial_timeline\<close> joins,
  from the seeding of turn 0 through every retry, resample, failed step and stop, when the user's tool
  turns are isolated or the user's tools do not raise.
\<close>

theorem every_trial_can_be_graded:
  assumes "ue_isolated (rn_user rn) \<or> user_tools_settle (rn_user rn)"
    and "run_trial rn system_prompt initial v = Inr r"
  shows "is_ok (build_trial_timeline (tr_messages (tx_trial r)) (tr_recorded (tx_trial r)) (map_option reason_value (tx_reason r)))"
proof (rule joined_builds)
  have c: "user_contract ((rn_user rn)\<lparr>ue_start_time := start\<rparr>) joined step_open reply_open" for start
    using assms(1) by (intro graded_contract) (simp add: user_tools_settle_def)
  have "joined (tx_trial (run_seeded rn u policy system_prompt t))"
    if "u = (rn_user rn)\<lparr>ue_start_time := start\<rparr>" "joined t" for start u policy t
  proof -
    have k: "user_keeps_join (runner_env rn u policy)"
      using user_contract.user_turn_taken [OF c [of start]] by (simp add: user_keeps_join_def runner_keeps that(1))
    have rec: "le_has_recorder (runner_env rn u policy)" by (simp add: runner_env_def trial_env_def)
    have "joined ((loop_start t)\<lparr>ls_wire := read_as_agent (runner_env rn u policy) (tr_messages (loop_start t)),
        ls_evidence := None, ls_stall_turns := 0\<rparr>)"
      using that(2) by (simp add: joined_def loop_start_def trial.defs)
    from loop_contract.episode_keeps [OF join_contract [OF rec k] this]
    show ?thesis by (simp add: run_seeded_def case_prod_beta joined_def)
  qed
  then show "joined (tx_trial r)"
    using user_contract.unseeded [OF c]
    by (intro trial_reaches [where goal = "\<lambda>r. joined (tx_trial r)", OF c _ _ _ assms(2)])
      (simp_all add: joined_def fresh_call_ids_def)
qed

section \<open>A trial whose user's second tool raises\<close>

definition torn_reply :: UserReply where
  "torn_reply =
     \<lparr>gr_text = ''checking'', gr_tool_calls = [\<lparr>tc_id = ''u1'', tc_name = ''look'', tc_arguments = []\<rparr>,
        \<lparr>tc_id = ''u2'', tc_name = ''break'', tc_arguments = []\<rparr>],
      gr_completion_tokens = 5, gr_reasoning_tokens = 0, gr_reasoning = None, gr_effective_system_prompt = None,
      gr_finish_reason = None, gr_native_finish_reason = None, gr_parser_errors = [],
      gr_guard_rejections = [], gr_filler_substituted = False, gr_billed = False\<rparr>"

definition boom :: exn where
  "boom = Exn OtherError ''ConnectionError'' ''connection reset'' None None"

definition torn_user :: "bool \<Rightarrow> unit user_env" where
  "torn_user isolated =
     \<lparr>ue_simulator = Some (\<lambda>_ v. (Inr torn_reply, v)),
      ue_executor = Some (\<lambda>name _ _ v. if name = ''break''
        then (Inl boom, v)
        else (Inr \<lparr>tres_success = True, tres_output = ''ok'', tres_error = None, tres_status = None\<rparr>, v)),
      ue_time = \<lambda>v. (0, v), ue_sleep = \<lambda>_ v. v, ue_record_spend = \<lambda>_ v. v,
      ue_stop_rule = \<lparr>ur_tokens = [SIMULATOR_STOP_TOKEN], ur_with_text = Deliver_reply\<rparr>,
      ue_isolated = isolated, ue_max_steps = 10, ue_start_time = 0, ue_episode_timeout_s = 600,
      ue_first_agent_message = Some ''Welcome.'', ue_rate_limit_probe_active = False\<rparr>"

definition torn_loop :: "unit user_world loop_env" where
  "torn_loop =
     \<lparr>le_generate = \<lambda>_ _ w. (Inr \<lparr>gr_text = ''Hello'', gr_tool_calls = [], gr_completion_tokens = 2, gr_reasoning_tokens = 0,
         gr_reasoning = None, gr_effective_system_prompt = None, gr_finish_reason = Some ''stop'',
         gr_native_finish_reason = None, gr_parser_errors = []\<rparr>, w),
      le_execute = \<lambda>_ _ _ _ w. (Inr \<lparr>tres_success = True, tres_output = ''ok'', tres_error = None, tres_status = None\<rparr>, w),
      le_should_terminate = \<lambda>_ _ t. (Inr None, tr_world t), le_user_turn = None,
      le_classify_error = \<lambda>e. classify_loop_error e [], le_record_generation = \<lambda>_ w. w,
      le_record_parser_errors = \<lambda>_ w. w, le_record_tool_call = \<lambda>w. w, le_record_tool_output_truncated = \<lambda>_ w. w,
      le_last_prompt_tokens = \<lambda>_. None, le_cumulative_tokens = \<lambda>_. None, le_time = \<lambda>w. (0, w), le_acquire = \<lambda>w. w,
      le_retry_sleep = \<lambda>_ w. w, le_has_recorder = True, le_normalize_arguments = None, le_validation_schemas = None,
      le_output_max_chars_by_tool = [], le_agent_view = None, le_observe_generation = \<lambda>_ _ _ _ w. w,
      le_observe_tool_call = \<lambda>_ _ _ w. w\<rparr>"

definition torn_runner :: "bool \<Rightarrow> unit trial_runner" where
  "torn_runner isolated =
     \<lparr>rn_task_id = ''task'', rn_mode = Mode_conversational, rn_user = torn_user isolated, rn_loop = torn_loop,
      rn_config = \<lparr>lc_max_turns = 1, lc_episode_timeout_s = 600, lc_max_trial_tokens = None, lc_api_error_retries = 0,
        lc_api_error_backoff_s = 1, lc_empty_retry_count = 0, lc_reasoning_stall_retry_count = 0,
        lc_reasoning_stall_turn_limit = 0, lc_output_length_retry_count = 0, lc_parser_error_retry_count = 0,
        lc_tool_output_max_chars = None, lc_observation_window = None, lc_observation_window_polling = 1,
        lc_max_context_tokens = None, lc_context_watermark = None, lc_summarize_policy = None\<rparr>,
      rn_patterns = [], rn_digest = id, rn_render = \<lambda>_. [], rn_detector = None, rn_completion_tools = [],
      rn_mark_stuck = id, rn_max_simulation_steps = None, rn_max_environment_errors = None\<rparr>"

definition torn_trial :: "bool \<Rightarrow> unit trial_result" where
  "torn_trial isolated = projr (run_trial (torn_runner isolated) ''sys'' [] ())"

definition torn_ids :: call_ids where
  "torn_ids = snd (assign ''u1'' fresh_call_ids)"

definition torn_ids2 :: call_ids where
  "torn_ids2 = snd (assign ''u2'' torn_ids)"

lemma torn_assigns:
  "assign ''u1'' fresh_call_ids = (''u1'', torn_ids)"
  "assign ''u2'' torn_ids = (''u2'', torn_ids2)"
proof -
  have "fst (assign ''u1'' fresh_call_ids) = ''u1''" "fst (assign ''u2'' torn_ids) = ''u2''" by code_simp+
  then show "assign ''u1'' fresh_call_ids = (''u1'', torn_ids)" "assign ''u2'' torn_ids = (''u2'', torn_ids2)"
    by (simp_all add: prod_eq_iff torn_ids_def torn_ids2_def)
qed

definition torn_record :: RecordedToolCall where
  "torn_record = \<lparr>rc_call_id = ''u1'', rc_sequence = 0, rc_tool_name = ''look'', rc_arguments = [],
     rc_executor = Executor_USER, rc_status = SUCCESS, rc_output = ''ok'', rc_latency_seconds = 0\<rparr>"

definition torn_start :: "unit user_trial" where
  "torn_start = \<lparr>tr_messages = [text_message Role_ASSISTANT ''Welcome.''], tr_call_ids = fresh_call_ids, tr_recorded = [], tr_budget = None,
     tr_world = \<lparr>uw_pending_stop = None, uw_guard_events = [], uw_world = ()\<rparr>\<rparr>"

definition torn_executor :: "unit user_executor" where "torn_executor = the (ue_executor (torn_user True))"

lemma torn_user_simps [simp]:
  "ue_executor (torn_user b) = Some torn_executor" "ue_isolated (torn_user b) = b"
  "ue_simulator (torn_user b) = Some (\<lambda>_ v. (Inr torn_reply, v))"
  "ue_time (torn_user b) = (\<lambda>v. (0, v))"
  "ue_first_agent_message (torn_user b) = Some ''Welcome.''"
  "init_attempts (torn_user b) = 4" "ue_max_steps (torn_user b) = 10"
  "torn_user b\<lparr>ue_start_time := 0\<rparr> = torn_user b"
  by (simp_all add: torn_executor_def torn_user_def init_attempts_def)

lemma torn_reply_simps [simp]:
  "blank (gr_text torn_reply) = False" "gr_guard_rejections torn_reply = []" "gr_filler_substituted torn_reply = False"
  "gr_billed torn_reply = False"
  "gr_tool_calls torn_reply = [\<lparr>tc_id = ''u1'', tc_name = ''look'', tc_arguments = []\<rparr>,
        \<lparr>tc_id = ''u2'', tc_name = ''break'', tc_arguments = []\<rparr>]"
proof -
  show "blank (gr_text torn_reply) = False" by code_simp
qed (simp_all add: torn_reply_def)

lemma boom_unlimited [simp]: "is_rate_limit_error boom = False" by code_simp

lemma torn_calls [simp]:
  "run_user_call (torn_user b) torn_executor \<lparr>tc_id = ''u1'', tc_name = ''look'', tc_arguments = []\<rparr> t =
     (Inr \<lparr>tres_success = True, tres_output = ''ok'', tres_error = None, tres_status = None\<rparr>, 
      t\<lparr>tr_recorded := record_call ''u1'' ''look'' [] Executor_USER SUCCESS ''ok'' 0 (tr_recorded t)\<rparr>)"
  "run_user_call (torn_user b) torn_executor \<lparr>tc_id = ''u2'', tc_name = ''break'', tc_arguments = []\<rparr> t = (Inl boom, t)"
  by (simp_all add: run_user_call_def in_world_def torn_executor_def torn_user_def resolve_tool_status_def resolve_tool_output_def)

definition torn_end :: "bool \<Rightarrow> unit user_trial" where
  "torn_end isolated = torn_start\<lparr>tr_call_ids := torn_ids2, tr_recorded := [torn_record],
     tr_messages := tr_messages torn_start @ (if isolated
       then user_message_with_calls ''checking'' (gr_tool_calls torn_reply) None #
          user_tool_message ''u1'' ''ok'' (Some SUCCESS) # answer_a_failed_step (tl (gr_tool_calls torn_reply)) boom
       else [])\<rparr>"

lemma torn_opening:
  "shared_opening (torn_user False) (\<lambda>_ v. (Inr torn_reply, v)) torn_start =
     (Inl (False, boom), torn_end False)"
  by (simp add: torn_end_def shared_opening_def in_world_def record_user_reply_guard_def run_user_tool_calls_def record_actor_spend_def Let_def
    torn_start_def torn_assigns record_call_def torn_record_def)

lemma torn_step:
  "record_user_tool_step (torn_user True) torn_reply torn_start = (Inl (Step_raised boom), torn_end True)"
  by (simp add: record_user_tool_step_def keyed_calls_def Let_def torn_start_def torn_assigns record_call_def torn_record_def
    trial_budget_def say_def raw_tool_content_def resolve_tool_status_def torn_reply_def torn_end_def)

lemma torn_seeds:
  "seed_first_user_message (torn_user b) (ConversationalTurnPolicy (\<lambda>_ v. (Inr torn_reply, v))) ''task'' []
     (torn_start\<lparr>tr_messages := []\<rparr>) = (Inl (Seed_raised boom), torn_end b)"
proof -
  have o: "say_opening_line (torn_user b) (torn_start\<lparr>tr_messages := []\<rparr>) = torn_start"
    by (simp add: say_opening_line_def say_def torn_start_def)
  have n: "attempt_numbers (torn_user b) = [Suc 0, 2, 3, 4]" for b
    by (simp add: attempt_numbers_def upt_rec)
  have r: "bootstrap_reply (torn_user True) (\<lambda>_ v. (Inr torn_reply, v)) [Suc 0, 2, 3, 4] t = (Inr torn_reply, t)" for t
    by (simp add: in_world_def record_user_reply_guard_def record_actor_spend_def)
  have "bootstrap_via_simulator (torn_user b) torn_start = (Inl (Step_raised boom), torn_end b)"
  proof (cases b)
    case True
    then show ?thesis
      by (simp add: bootstrap_via_simulator_def bootstrap_isolated_def n r bootstrap_steps.simps torn_step del: bootstrap_reply.simps)
  next
    case False
    then show ?thesis by (simp add: bootstrap_via_simulator_def n torn_opening)
  qed
  with o show ?thesis by (simp add: seed_first_user_message_def policy_bootstrap_def blank_def)
qed

lemma torn_trial_run:
  "run_trial (torn_runner b) ''sys'' [] () = Inr (torn_trial b)"
  "tx_trial (torn_trial b) = say (system_message (''Trial initialization error: '' @ exn_str boom @ ''. Dialogue terminated.'')) (torn_end b)"
  "tx_sent (torn_trial b) = []"
  by (simp_all add: torn_trial_def run_trial_def torn_runner_def run_with_budget_def turn_policy_factory_def
   torn_seeds [unfolded torn_start_def, simplified] end_unseeded_def)

lemma torn_recorded: "map rc_call_id (tr_recorded (tx_trial (torn_trial b))) = [''u1'']"
  by (simp add: torn_trial_run say_def torn_end_def torn_record_def)

theorem every_trial_can_be_graded_witness:
  "map rc_call_id (tr_recorded (tx_trial (torn_trial True))) = [''u1''] \<and>
   is_ok (build_trial_timeline (tr_messages (tx_trial (torn_trial True))) (tr_recorded (tx_trial (torn_trial True)))
     (map_option reason_value (tx_reason (torn_trial True))))"
proof -
  have "ue_isolated (rn_user (torn_runner True))" by (simp add: torn_runner_def)
  then show ?thesis
    using every_trial_can_be_graded [OF _ torn_trial_run(1), of True] torn_recorded by simp
qed

section \<open>Why the condition is needed\<close>

text \<open>Calls of a shared reply: what ran is recorded under new keys, and nothing is said.\<close>

definition ran_unsaid :: "'v user_trial \<Rightarrow> 'v user_trial \<Rightarrow> bool" where
  "ran_unsaid t t' \<longleftrightarrow> tr_messages t' = tr_messages t \<and>
     set (assigned (tr_call_ids t)) \<subseteq> set (assigned (tr_call_ids t')) \<and>
     (\<exists>ran. tr_recorded t' = tr_recorded t @ ran \<and> distinct (map rc_call_id ran) \<and>
        rc_call_id ` set ran \<subseteq> set (assigned (tr_call_ids t')) - set (assigned (tr_call_ids t)))"

lemma ran_unsaid_refl: "ran_unsaid t t"
  by (simp add: ran_unsaid_def)

lemma ran_unsaid_trans:
  assumes "ran_unsaid t1 t2" "ran_unsaid t2 t3"
  shows "ran_unsaid t1 t3"
proof -
  obtain as where a: "tr_recorded t2 = tr_recorded t1 @ as" "distinct (map rc_call_id as)"
    "rc_call_id ` set as \<subseteq> set (assigned (tr_call_ids t2)) - set (assigned (tr_call_ids t1))"
    using assms(1) by (auto simp: ran_unsaid_def)
  obtain bs where b: "tr_recorded t3 = tr_recorded t2 @ bs" "distinct (map rc_call_id bs)"
    "rc_call_id ` set bs \<subseteq> set (assigned (tr_call_ids t3)) - set (assigned (tr_call_ids t2))"
    using assms(2) by (auto simp: ran_unsaid_def)
  have g: "set (assigned (tr_call_ids t1)) \<subseteq> set (assigned (tr_call_ids t2))"
    "set (assigned (tr_call_ids t2)) \<subseteq> set (assigned (tr_call_ids t3))"
    "tr_messages t3 = tr_messages t1"
    using assms by (simp_all add: ran_unsaid_def)
  have "distinct (map rc_call_id (as @ bs))" using a b by auto
  moreover have "rc_call_id ` set (as @ bs) \<subseteq> set (assigned (tr_call_ids t3)) - set (assigned (tr_call_ids t1))"
    using a(3) b(3) g(1,2) by (auto simp: image_Un)
  moreover have "tr_recorded t3 = tr_recorded t1 @ (as @ bs)" using a(1) b(1) by simp
  ultimately show ?thesis using g unfolding ran_unsaid_def by blast
qed

lemma in_world_fields:
  assumes "in_world f t = (x, t')"
  shows "tr_messages t' = tr_messages t" "tr_recorded t' = tr_recorded t" "tr_call_ids t' = tr_call_ids t"
  using assms by (auto simp: in_world_def split: prod.splits)

lemma user_call_ran:
  assumes "assign (tc_id c) (tr_call_ids t) = (key, ids)"
    and "run_user_call u ex (c\<lparr>tc_id := key\<rparr>) (t\<lparr>tr_call_ids := ids\<rparr>) = (x, t')"
  shows "ran_unsaid t t'"
proof -
  have key: "key \<notin> set (assigned (tr_call_ids t))" "assigned ids = key # assigned (tr_call_ids t)"
    using assign_new [of "tc_id c" "tr_call_ids t"] assms(1) by simp_all
  obtain now t1 where t1: "in_world (ue_time u) (t\<lparr>tr_call_ids := ids\<rparr>) = (now, t1)" by fastforce
  obtain y t2 where t2: "in_world (ex (tc_name c) (tc_arguments c) key) t1 = (y, t2)" by fastforce
  obtain later t3 where t3: "in_world (ue_time u) t2 = (later, t3)" by fastforce
  have same: "tr_messages t2 = tr_messages t" "tr_recorded t2 = tr_recorded t" "tr_call_ids t2 = ids"
    "tr_messages t3 = tr_messages t" "tr_recorded t3 = tr_recorded t" "tr_call_ids t3 = ids"
    using in_world_fields [OF t1] in_world_fields [OF t2] in_world_fields [OF t3] by simp_all
  show ?thesis
  proof (cases y)
    case (Inl e)
    then have "t' = t2" using assms(2) by (simp add: run_user_call_def t1 t2)
    then show ?thesis using same key by (auto simp: ran_unsaid_def)
  next
    case (Inr r)
    then have "\<exists>rec. t' = t3\<lparr>tr_recorded := tr_recorded t3 @ [rec]\<rparr> \<and> rc_call_id rec = key"
      using assms(2) by (auto simp: run_user_call_def t1 t2 t3 record_call_def)
    then show ?thesis using same key by (auto simp: ran_unsaid_def)
  qed
qed

lemma shared_calls_ran: "run_shared_calls u ex cs t = (x, t') \<Longrightarrow> ran_unsaid t t'"
proof (induction cs arbitrary: t x t')
  case (Cons c cs)
  obtain key ids where k: "assign (tc_id c) (tr_call_ids t) = (key, ids)" by fastforce
  obtain y t1 where y: "run_user_call u ex (c\<lparr>tc_id := key\<rparr>) (t\<lparr>tr_call_ids := ids\<rparr>) = (y, t1)" by fastforce
  obtain z t2 where z: "run_shared_calls u ex cs t1 = (z, t2)" by fastforce
  have "t' = t1 \<or> t' = t2" using Cons.prems by (auto simp: k y z Let_def split: sum.splits)
  then show ?case using user_call_ran [OF k y] ran_unsaid_trans [OF user_call_ran [OF k y] Cons.IH [OF z]] by blast
qed (simp add: ran_unsaid_refl)

lemma raised_reply_ran: "deliver_user_reply u r t = (Inl e, t') \<Longrightarrow> ran_unsaid t t'"
  by (auto simp: deliver_user_reply_def end_on_user_stop_def run_user_tool_calls_def ran_unsaid_refl dest: shared_calls_ran
      split: option.splits if_splits prod.splits sum.splits)

text \<open>A record whose key no message declares keeps the two views from being joined.\<close>

lemma unsaid_record_refused:
  assumes "distinct (map fst (declarations ms))" "distinct (map rc_call_id rs)" "turns_of ms \<noteq> []"
    and "k \<in> rc_call_id ` set rs" "k \<notin> fst ` set (declarations ms)"
  shows "\<not> is_ok (build_trial_timeline ms rs reason)"
proof
  assume "is_ok (build_trial_timeline ms rs reason)"
  then obtain tl where "build_trial_timeline ms rs reason = Inr tl" by (auto simp: is_ok_iff)
  from build_inversion [OF this] have all: "\<forall>kr \<in> set (records_by_episode_key rs).
      answers_declaration (declarations_by_key (declared_calls (turns_of ms))) kr" using assms(3) by metis
  have "mset (map rc_call_id (sort_key rc_sequence rs)) = mset (map rc_call_id rs)" by simp
  then have d: "distinct (map rc_call_id (sort_key rc_sequence rs))" using assms(2) by (metis mset_eq_imp_distinct_iff)
  then have "map fst (records_by_episode_key rs) = map rc_call_id (sort_key rc_sequence rs)"
    by (simp add: records_zip call_ids_distinct)
  then have "fst ` set (records_by_episode_key rs) = rc_call_id ` set rs" by (metis set_map set_sort)
  with assms(4) obtain kr where "kr \<in> set (records_by_episode_key rs)" "fst kr = k" by (metis image_iff)
  with all have "k \<in> fst ` set (declarations_by_key (declared_calls (turns_of ms)))"
    by (metis answers_declaration_def domI dom_map_of_conv_image_fst)
  then show False using assms(1,5)
    by (simp add: declarations_keys declared_ids_declarations call_ids_distinct)
qed

text \<open>
  Property C38.  Why shared tool turns need tools that do not raise.  Let the transcript and the record of a trial agree
  when a user's reply is delivered, and let a tool of the reply raise after an earlier call of it ran (the record
  has grown).  Then the turn raises the tool's error and says nothing: the messages are as before, the record holds
  a call that no message declares, and however the trial goes on without declaring another call, \<^verbatim>\<open>build_trial_timeline\<close>
  refuses what it ends with, if it ends with any turn at all.
\<close>

theorem raising_shared_reply_tears_the_record:
  assumes "joined t" and "deliver_user_reply u r t = (Inl e, t')" and "tr_recorded t' \<noteq> tr_recorded t"
    and "turns_of (tr_messages t @ later) \<noteq> []" and "declarations later = []"
  shows "tr_messages t' = tr_messages t \<and>
    (\<exists>c \<in> set (tr_recorded t'). rc_call_id c \<notin> fst ` set (declarations (tr_messages t'))) \<and>
    \<not> is_ok (build_trial_timeline (tr_messages t' @ later) (tr_recorded t') reason)"
proof -
  from raised_reply_ran [OF assms(2)] obtain ran where m: "tr_messages t' = tr_messages t"
    and rs: "tr_recorded t' = tr_recorded t @ ran" and d: "distinct (map rc_call_id ran)"
    and new: "rc_call_id ` set ran \<inter> set (assigned (tr_call_ids t)) = {}"
    by (auto simp: ran_unsaid_def)
  from assms(3) rs obtain c where c: "c \<in> set ran" by (cases ran) auto
  have sub: "fst ` set (declarations (tr_messages t)) \<subseteq> set (assigned (tr_call_ids t))"
    by (rule joined_known_ids [OF assms(1)])
  then have undeclared: "rc_call_id c \<notin> fst ` set (declarations (tr_messages t))" using new c by blast
  have "rc_call_id ` set (tr_recorded t) \<inter> rc_call_id ` set ran = {}"
    using joined_record_ids [OF assms(1)] sub new by blast
  moreover have "distinct (map rc_call_id (tr_recorded t))" "distinct (map fst (declarations (tr_messages t)))"
    using assms(1) by (simp_all add: joined_def)
  moreover have "declarations (tr_messages t @ later) = declarations (tr_messages t)"
    using assms(5) by (simp add: declarations_def turns_of_def)
  ultimately have "\<not> is_ok (build_trial_timeline (tr_messages t' @ later) (tr_recorded t') reason)"
    using d rs c undeclared assms(4) unfolding m by (intro unsaid_record_refused [of _ _ "rc_call_id c"]) auto
  then show ?thesis using m rs c undeclared by auto
qed

definition torn_after :: "unit user_trial" where
  "torn_after = snd (deliver_user_reply (torn_user False) torn_reply torn_start)"

lemma torn_delivery:
  "deliver_user_reply (torn_user False) torn_reply torn_start = (Inl boom, torn_after)"
  "tr_recorded torn_after = [torn_record]"
proof -
  have "stop_find (ue_stop_rule (torn_user False)) (gr_text torn_reply) = None" by code_simp
  then have "deliver_user_reply (torn_user False) torn_reply torn_start = (Inl boom, torn_end False)"
    by (simp add: deliver_user_reply_def run_user_tool_calls_def Let_def torn_start_def torn_end_def torn_assigns
        record_call_def torn_record_def)
  then show "deliver_user_reply (torn_user False) torn_reply torn_start = (Inl boom, torn_after)"
    "tr_recorded torn_after = [torn_record]" by (simp_all add: torn_after_def torn_end_def)
qed

theorem raising_shared_reply_tears_the_record_witness:
  "tr_messages torn_after = tr_messages torn_start \<and> tr_recorded torn_after = [torn_record] \<and>
   \<not> is_ok (build_trial_timeline (tr_messages torn_after @ [system_message ''stopped'']) (tr_recorded torn_after) None)"
proof -
  have "joined torn_start"
    by (simp add: joined_def torn_start_def declarations_single answered_def text_message_def calls_of_def fresh_call_ids_def)
  moreover have "tr_recorded torn_after \<noteq> tr_recorded torn_start" by (simp add: torn_delivery torn_start_def)
  moreover have "turns_of (tr_messages torn_start @ [system_message ''stopped'']) \<noteq> []"
    "declarations [system_message ''stopped''] = []" by code_simp+
  ultimately show ?thesis
    using raising_shared_reply_tears_the_record [OF _ torn_delivery(1), of "[system_message ''stopped'']" None] torn_delivery(2)
    by auto
qed

text \<open>
  Property C12.  No request of a trial carries an assistant turn with neither text nor calls, and none is
  recorded, whatever the simulator says, provided the task's opening line passed its validator.
\<close>

theorem trial_sends_no_empty_turn:
  assumes "refuse_a_blank_first_agent_message (ue_first_agent_message (rn_user rn)) = None"
    and "run_trial rn system_prompt initial v = Inr r"
  shows "list_all legal_turn (tr_messages (tx_trial r)) \<and> list_all (list_all legal_turn) (tx_sent r)"
proof -
  let ?good = "\<lambda>t :: 'a user_trial. list_all legal_turn (tr_messages t)"
  let ?goal = "\<lambda>r. ?good (tx_trial r) \<and> list_all (list_all legal_turn) (tx_sent r)"
  have c: "user_contract ((rn_user rn)\<lparr>ue_start_time := start\<rparr>) ?good (\<lambda>_. ?good) (\<lambda>_. ?good)" for start
    using assms(1) by (intro lawful_contract) simp
  have "?goal (run_seeded rn u policy system_prompt t)"
    if "u = (rn_user rn)\<lparr>ue_start_time := start\<rparr>" "?good t" for start u policy t
  proof -
    let ?env = "runner_env rn u policy"
    have k: "user_speaks_legally ?env"
      using user_contract.user_turn_taken [OF c [of start]] by (simp add: user_speaks_legally_def runner_keeps that(1))
    have v: "views_a_part ?env"
      by (auto simp: views_a_part_def runner_env_def trial_env_def agent_view_part split: if_splits)
    have "list_all legal_turn (tr_messages (loop_start t))" "list_all (list_all legal_turn) (ls_sent (loop_start t))"
      using that(2) by (simp_all add: loop_start_def trial.defs)
    from loop_contract.episode_keeps [OF legal_contract [OF k] legal_start [OF v this]]
    show ?thesis by (simp add: run_seeded_def case_prod_beta sends_legal_def)
  qed
  moreover have "?goal (end_unseeded (rn_patterns rn) f t)" if "?good t" for f t
    using user_contract.unseeded [OF c that] by (simp add: end_unseeded_def split: seed_failure.split)
  ultimately show ?thesis by (intro trial_reaches [where goal = ?goal, OF c _ _ _ assms(2)]) simp_all
qed

theorem trial_sends_no_empty_turn_witness:
  "length (tr_messages (tx_trial (torn_trial True))) = 5 \<and> list_all legal_turn (tr_messages (tx_trial (torn_trial True)))"
proof -
  have "length (tr_messages (tx_trial (torn_trial True))) = 5"
    by (simp add: torn_trial_run say_def torn_end_def torn_start_def answer_a_failed_step_def)
  moreover have "refuse_a_blank_first_agent_message (ue_first_agent_message (rn_user (torn_runner True))) = None"
    by code_simp
  ultimately show ?thesis using trial_sends_no_empty_turn [OF _ torn_trial_run(1), of True] by simp
qed

text \<open>
  The loop rewrites the arguments of a call only in the last assistant message, and by then it has appended one of its
  own: while calls of a turn are pending, an assistant message stands after the seeded history.
\<close>

definition verbatim_history :: "Message list \<Rightarrow> RecordedToolCall list \<Rightarrow> 'w loop_state \<Rightarrow> bool" where
  "verbatim_history ms rs s \<longleftrightarrow> prefix ms (tr_messages s) \<and> prefix rs (tr_recorded s)"

definition turn_after_history :: "Message list \<Rightarrow> RecordedToolCall list \<Rightarrow> 'w loop_state \<Rightarrow> bool" where
  "turn_after_history ms rs s \<longleftrightarrow>
     (\<exists>later. tr_messages s = ms @ later \<and> (\<exists>m \<in> set later. m_role m = Role_ASSISTANT)) \<and> prefix rs (tr_recorded s)"

lemma update_last_assistant_later:
  assumes "\<exists>m \<in> set later. m_role m = Role_ASSISTANT"
  shows "update_last_assistant f (ms @ later) = ms @ update_last_assistant f later"
proof -
  have "\<exists>x \<in> set xs. P x \<Longrightarrow> update_first P f (xs @ ys) = update_first P f xs @ ys" for P xs ys
    by (induction xs) auto
  with assms show ?thesis by (simp add: update_last_assistant_def)
qed

lemma rewrites_later:
  assumes "rewrites_arguments i g" "\<exists>m \<in> set later. m_role m = Role_ASSISTANT"
  shows "\<exists>later'. g (ms @ later) = ms @ later' \<and> (\<exists>m \<in> set later'. m_role m = Role_ASSISTANT)"
proof -
  have r: "m_role (set_call_arguments i a m) = m_role m" for a m by (simp add: set_call_arguments_def)
  have "map m_role (update_last_assistant (set_call_arguments i a) later) = map m_role later" for a
    by (rule map_update_last_assistant) (rule r)
  then have "m_role ` set (update_last_assistant (set_call_arguments i a) later) = m_role ` set later" for a
    by (metis set_map)
  then have "\<exists>m \<in> set (update_last_assistant (set_call_arguments i a) later). m_role m = Role_ASSISTANT" for a
    using assms(2) by (metis (mono_tags, lifting) image_iff)
  then show ?thesis using assms update_last_assistant_later [OF assms(2)] by (auto simp: rewrites_arguments_def)
qed

lemma turn_after_executed:
  assumes "turn_after_history ms rs s" "execute env cap c msg s = (x, s')"
  shows "turn_after_history ms rs s'"
proof -
  obtain later where l: "tr_messages s = ms @ later" "\<exists>m \<in> set later. m_role m = Role_ASSISTANT" "prefix rs (tr_recorded s)"
    using assms(1) by (auto simp: turn_after_history_def)
  obtain g as bs where g: "rewrites_arguments (tc_id c) g" "tr_messages s' = g (ms @ later) @ as" "tr_recorded s' = tr_recorded s @ bs"
    using execute_effect [OF assms(2)] l(1) by auto
  obtain later' where "g (ms @ later) = ms @ later'" "\<exists>m \<in> set later'. m_role m = Role_ASSISTANT"
    using rewrites_later [OF g(1) l(2)] by blast
  then show ?thesis using g l(3) by (auto simp: turn_after_history_def)
qed

lemma turn_after_inv: "turn_after_history ms rs s \<Longrightarrow> verbatim_history ms rs s"
  by (auto simp: turn_after_history_def verbatim_history_def)

lemma verbatim_contract:
  assumes "user_only_appends env"
  shows "loop_contract env cfg (verbatim_history ms rs) (\<lambda>_. verbatim_history ms rs) (\<lambda>_. turn_after_history ms rs)"
proof
  have keeps: "user_keeps (grown ms rs) env" using assms by (simp add: user_only_appends_def)
  have start: "grown ms rs (trial.truncate s)" if "verbatim_history ms rs s" for s
    using that by (simp add: grown_def verbatim_history_def)
  show "verbatim_history ms rs (trial.extend t (trial.more s))"
    if "verbatim_history ms rs s" "le_user_turn env = Some u" "u (trial.truncate s) = (x, t)"
      "\<forall>y. x = Inr y \<longrightarrow> ut_message y = None" for s u x t
    using user_keeps_turn(1) [OF keeps that(2,3) start [OF that(1)] that(4)] by (simp add: grown_def verbatim_history_def)
  show "verbatim_history ms rs (append_both m (trial.extend t (trial.more s)))"
    if "verbatim_history ms rs s" "le_user_turn env = Some u" "u (trial.truncate s) = (Inr y, t)" "ut_message y = Some m" for s u y t m
    using user_keeps_turn(2) [OF keeps that(2,3) start [OF that(1)] refl that(4)]
    by (simp add: grown_def verbatim_history_def del: prefix_snoc)
  show "turn_after_history ms rs s'"
    if "turn_after_history ms rs s" "execute env (lc_tool_output_max_chars cfg) c msg s = (Inr x, s')" for s s' c msg x
    using turn_after_executed [OF that] .
  show "verbatim_history ms rs s'"
    if "turn_after_history ms rs s" "execute env (lc_tool_output_max_chars cfg) c msg s = (Inl e, s')" for s s' c msg e
    using turn_after_inv [OF turn_after_executed [OF that]] .
  show "turn_after_history ms rs (append_both (assistant_message r) s)" if "verbatim_history ms rs s" for r s
  proof -
    have "\<exists>later. tr_messages s = ms @ later" using that by (auto simp: verbatim_history_def prefix_def)
    moreover have "m_role (assistant_message r) = Role_ASSISTANT" by (simp add: assistant_message_def)
    ultimately show ?thesis using that by (fastforce simp: turn_after_history_def verbatim_history_def)
  qed
  show "verbatim_history ms rs s" if "turn_after_history ms rs s" for s using turn_after_inv [OF that] .
qed (auto simp: verbatim_history_def turn_after_history_def prefix_def dest: register_effect)

interpretation verbatim: loop_contract "runner_env rn u policy" cfg "verbatim_history ms rs"
  "\<lambda>_. verbatim_history ms rs" "\<lambda>_. turn_after_history ms rs" for rn u policy cfg ms rs
  by (rule verbatim_contract) (rule runner_appends)

text \<open>
  Property C11.  What the seeding of a trial left is still there when the loop returns, word for word and in place:
  the messages and the tool-call records of turn 0 are a prefix of those the trial ends with.  No retry, resample,
  summary, user turn or stop drops, reorders or rewrites one of them, and the recovery of malformed call arguments
  never reaches back into them.
\<close>

theorem seeded_history_survives:
  "prefix (tr_messages t) (tr_messages (tx_trial (run_seeded rn u policy system_prompt t))) \<and>
   prefix (tr_recorded t) (tr_recorded (tx_trial (run_seeded rn u policy system_prompt t)))"
proof -
  let ?s = "(loop_start t)\<lparr>ls_wire := read_as_agent (runner_env rn u policy) (tr_messages (loop_start t)), ls_evidence := None,
    ls_stall_turns := 0\<rparr>"
  have "verbatim_history (tr_messages t) (tr_recorded t) ?s" by (simp add: verbatim_history_def loop_start_def trial.defs)
  from verbatim.episode_keeps [OF this] show ?thesis
    by (simp add: run_seeded_def case_prod_beta verbatim_history_def)
qed

section \<open>How a trial ends\<close>

definition plain :: "TerminationDecision \<Rightarrow> bool" where
  "plain d \<longleftrightarrow> td_reason d \<notin> set EXCLUDED_TYPED_REASONS \<and> td_evidence d = None"

lemma plain_decisions [simp]:
  "plain (user_stop_decision st after)" "plain agent_only_done" "plain (user_tool_loop_limit_decision u cs)"
  "episode_timeout_decision a b c = Some d \<Longrightarrow> plain d"
  "reason = MAX_STEPS \<or> reason = TOO_MANY_ERRORS \<Longrightarrow> plain (budget_decision reason)"
  by (auto simp: plain_def user_stop_decision_def agent_only_done_def user_tool_loop_limit_decision_def
      episode_timeout_decision_def budget_decision_def EXCLUDED_TYPED_REASONS_def split: if_splits)

lemma trial_budget_reason:
  "trial_budget (environment n) t = (Inr (Some reason), t') \<Longrightarrow> reason = MAX_STEPS \<or> reason = TOO_MANY_ERRORS"
  using environment_reasons [of n _ reason] by (auto simp: trial_budget_def split: option.splits prod.splits) (metis fst_conv)

lemma step_budget_reason:
  "record_user_tool_step u r t = (Inl (SimulationBudgetReached reason), t') \<Longrightarrow> reason = MAX_STEPS \<or> reason = TOO_MANY_ERRORS"
  by (auto simp: record_user_tool_step_def Let_def dest: trial_budget_reason split: option.splits prod.splits sum.splits)

lemma steps_plain: "run_user_tool_steps u actor n r t = (Inr (Inl d), t') \<Longrightarrow> plain d"
proof (induction "nat (ue_max_steps u - int n)" arbitrary: n r t rule: less_induct)
  case less
  show ?case
    using less.prems
    by (subst (asm) run_user_tool_steps.simps)
      (auto split: if_splits prod.splits sum.splits step_failure.splits option.splits
        dest: less.hyps [rotated] step_budget_reason)
qed

lemma delivered_plain: "deliver_user_reply u r t = (Inr y, t') \<Longrightarrow> ut_termination y = Some d \<Longrightarrow> plain d"
  by (auto simp: deliver_user_reply_def end_on_user_stop_def ends_turn_def
      split: option.splits if_splits prod.splits sum.splits)

lemma user_turn_plain: "policy_user_turn u policy t = (Inr y, t') \<Longrightarrow> ut_termination y = Some d \<Longrightarrow> plain d"
  by (auto simp: policy_user_turn_def policy_next_actor_def dispatch_user_actor_def ends_turn_def
      dest: steps_plain delivered_plain
      split: option.splits if_splits prod.splits sum.splits turn_policy.splits next_actor.splits)

text \<open>
  Property C6.  A trial earns every exclusion it claims.  Run with the runner's classifier, stop conditions and user
  turn, the loop names a reason, and its outcome carries evidence exactly when that reason is one of
  \<^verbatim>\<open>EXCLUDED_TYPED_REASONS\<close>.  So the runner's downgrade for missing evidence changes nothing: the trial records the
  loop's own reason, and a trial whose grading raised no error is left out of the measured ones exactly when the loop
  named the observation behind it.
\<close>

theorem trial_exclusion_is_earned:
  "\<exists>reason outcome. outcome = fst (run (runner_env rn u policy) (rn_config rn) system_prompt (ue_start_time u) (loop_start t)) \<and>
     lo_termination_reason outcome = Some reason \<and>
     reason_downgraded_without_typed_evidence outcome (Some reason) = Some reason \<and>
     tx_reason (run_seeded rn u policy system_prompt t) = Some reason \<and>
     (lo_evidence outcome \<noteq> None \<longleftrightarrow> reason \<in> set EXCLUDED_TYPED_REASONS) \<and>
     (classify_trial_outcome \<lparr>te_status = tx_status (run_seeded rn u policy system_prompt t), te_termination_reason = Some reason,
        te_grading_error = None\<rparr> = INFRASTRUCTURE_ABORT \<longleftrightarrow> lo_evidence outcome \<noteq> None)"
proof -
  let ?out = "fst (run (runner_env rn u policy) (rn_config rn) system_prompt (ue_start_time u) (loop_start t))"
  let ?env = "(rn_loop rn)\<lparr>le_user_turn := Some (policy_user_turn u policy), le_has_recorder := True,
    le_normalize_arguments := Some (\<lambda>name arguments msg. Inr (normalize_tool_arguments name arguments msg)),
    le_agent_view := (if ue_isolated u then Some agent_view else None)\<rparr>"
  have "user_ends_plainly ?env" using user_turn_plain [unfolded plain_def] by (simp add: user_ends_plainly_def) blast
  from loop_endings.episode [OF trial_env_endings [OF this]]
  obtain reason where r: "lo_termination_reason ?out = Some reason" and e: "earned reason (lo_evidence ?out)"
    unfolding runner_env_def by blast
  have "tx_reason (run_seeded rn u policy system_prompt t) = Some reason"
    using earned_counts(1) [OF e] r by (simp add: run_seeded_def case_prod_beta)
  moreover have "tx_status (run_seeded rn u policy system_prompt t) = lo_status ?out"
    by (simp add: run_seeded_def case_prod_beta)
  ultimately show ?thesis using earned_counts [OF e] e r unfolding earned_def by metis
qed

end
