(* ===== verification/Reply_Rules.thy ===== *)
theory Reply_Rules
  imports User_Turn "HOL-Library.Sublist"
begin

text \<open>
  What the rules of \<^verbatim>\<open>User_Turn\<close> on a user's reply give: which stop token of a reply is the one that
  counts, that the agent reads none of them, and what the guard on a simulator's replies delivers and refuses.
\<close>

section \<open>The token that stops a dialogue\<close>

definition occurs_at :: "pystr \<Rightarrow> pystr \<Rightarrow> nat \<Rightarrow> bool" where
  "occurs_at token msg p \<longleftrightarrow> p \<le> length msg \<and> take (length token) (drop p msg) = token"

lemma occurs_at_Cons [simp]:
  "occurs_at token (c # cs) 0 = (take (length token) (c # cs) = token)"
  "occurs_at token (c # cs) (Suc p) = occurs_at token cs p"
  by (simp_all add: occurs_at_def)

lemma occurs_at_Nil [simp]: "occurs_at token [] p = (p = 0 \<and> token = [])"
  by (auto simp: occurs_at_def)

lemma find_str_None: "find_str token msg = None \<longleftrightarrow> (\<nexists>p. occurs_at token msg p)"
proof (induction msg)
  case (Cons c cs)
  have "(\<exists>p. occurs_at token (c # cs) p) \<longleftrightarrow> occurs_at token (c # cs) 0 \<or> (\<exists>p. occurs_at token cs p)"
    by (metis nat.exhaust occurs_at_Cons(2))
  then show ?case using Cons by simp
qed simp

lemma find_str_Some: "find_str token msg = Some p \<Longrightarrow> occurs_at token msg p \<and> (\<forall>q. occurs_at token msg q \<longrightarrow> p \<le> q)"
proof (induction msg arbitrary: p)
  case (Cons c cs)
  show ?case
  proof (cases "occurs_at token (c # cs) 0")
    case True
    then show ?thesis using Cons.prems by simp
  next
    case False
    then obtain p' where p: "p = Suc p'" "find_str token cs = Some p'" using Cons.prems by auto
    have "p \<le> q" if "occurs_at token (c # cs) q" for q
      using that False Cons.IH [OF p(2)] p(1) by (cases q) simp_all
    then show ?thesis using Cons.IH [OF p(2)] p(1) by simp
  qed
qed (simp split: if_splits)

lemma substring_occurs: "substring token msg \<longleftrightarrow> (\<exists>p. occurs_at token msg p)"
proof (induction msg)
  case (Cons c cs)
  have "(\<exists>p. occurs_at token (c # cs) p) \<longleftrightarrow> occurs_at token (c # cs) 0 \<or> (\<exists>p. occurs_at token cs p)"
    by (metis nat.exhaust occurs_at_Cons(2))
  then show ?case using Cons by simp
qed simp

definition token_positions :: "UserStopRule \<Rightarrow> pystr \<Rightarrow> (nat \<times> pystr) list" where
  "token_positions rule msg =
     List.map_filter (\<lambda>token. map_option (\<lambda>position. (position, token)) (find_str token msg)) (ur_tokens rule)"

lemma token_positions_set:
  "(p, token) \<in> set (token_positions rule msg) \<longleftrightarrow> token \<in> set (ur_tokens rule) \<and> find_str token msg = Some p"
  by (force simp: token_positions_def List.map_filter_def)

lemma token_positions_Nil: "token_positions rule msg = [] \<longleftrightarrow> (\<forall>token \<in> set (ur_tokens rule). \<not> substring token msg)"
proof -
  have "token_positions rule msg = [] \<longleftrightarrow> (\<forall>token \<in> set (ur_tokens rule). find_str token msg = None)"
    by (auto simp: token_positions_def List.map_filter_def filter_empty_conv)
  then show ?thesis by (simp add: find_str_None substring_occurs)
qed

lemma dict_of_nonempty: "dict_of ps = [] \<longleftrightarrow> ps = []"
  using dict_of_keys [of ps] by (metis image_is_empty set_empty)

lemma stop_find_None: "stop_find rule msg = None \<longleftrightarrow> (\<forall>token \<in> set (ur_tokens rule). \<not> substring token msg)"
proof -
  let ?found = "dict_of (token_positions rule msg)"
  have "map_of ?found (Min (set (map fst ?found))) \<noteq> None" if "?found \<noteq> []"
    using that Min_in [of "set (map fst ?found)"] by (simp add: map_of_eq_None_iff)
  then have "stop_find rule msg = None \<longleftrightarrow> ?found = []"
    by (simp add: stop_find_def tokens_found_def token_positions_def Let_def)
  then show ?thesis by (simp only: dict_of_nonempty token_positions_Nil)
qed

lemma stop_find_Some:
  assumes "stop_find rule msg = Some s"
  obtains p where "us_token s \<in> set (ur_tokens rule)" "occurs_at (us_token s) msg p"
    "\<And>token q. token \<in> set (ur_tokens rule) \<Longrightarrow> occurs_at token msg q \<Longrightarrow> p \<le> q"
    "us_text s = rstrip (take p msg)" "us_dropped s = strip (drop (p + length (us_token s)) msg)"
proof -
  let ?ps = "token_positions rule msg"
  let ?found = "dict_of ?ps"
  let ?p = "Min (set (map fst ?found))"
  have keys: "set (map fst ?found) = fst ` set ?ps" by (simp add: dict_of_keys)
  obtain token where token: "map_of ?found ?p = Some token"
    and s: "s = \<lparr>us_token = token, us_text = rstrip (take ?p msg), us_dropped = strip (drop (?p + length token) msg)\<rparr>"
    using assms by (auto simp: stop_find_def tokens_found_def token_positions_def Let_def split: if_splits)
  have "(?p, token) \<in> set ?ps" using token map_of_SomeD [of "rev ?ps" ?p token] by (simp add: map_of_dict_of)
  then have here: "token \<in> set (ur_tokens rule)" "find_str token msg = Some ?p" by (simp_all add: token_positions_set)
  have first: "?p \<le> q" if t: "t \<in> set (ur_tokens rule)" and o: "occurs_at t msg q" for t q
  proof -
    obtain q' where q': "find_str t msg = Some q'" using o find_str_None [of t msg] by auto
    then have "(q', t) \<in> set ?ps" using t by (simp add: token_positions_set)
    then have "?p \<le> q'" unfolding keys by (intro Min_le) (auto intro: rev_image_eqI)
    also have "q' \<le> q" using find_str_Some [OF q'] o by blast
    finally show ?thesis .
  qed
  show thesis using that [of ?p] here first find_str_Some [OF here(2)] by (simp add: s)
qed

lemma rstrip_prefix: "prefix (rstrip s) s"
proof -
  have "rev s = takeWhile is_space (rev s) @ dropWhile is_space (rev s)" by simp
  then have "s = rev (dropWhile is_space (rev s)) @ rev (takeWhile is_space (rev s))" by (metis rev_append rev_rev_ident)
  then show ?thesis by (metis prefixI rstrip_def)
qed

lemma occurs_in_prefix:
  assumes "prefix s msg" and "occurs_at token s q"
  shows "occurs_at token msg q \<and> q + length token \<le> length s"
proof -
  obtain zs where zs: "msg = s @ zs" using assms(1) by (auto elim: prefixE)
  have "length token \<le> length s - q" using assms(2) unfolding occurs_at_def by (metis length_drop length_take min.cobounded1)
  then show ?thesis using assms(2) by (auto simp: occurs_at_def zs)
qed

lemma no_token_before_the_stop:
  assumes "stop_find rule msg = Some s" and "token \<in> set (ur_tokens rule)" and "token \<noteq> []"
  shows "\<not> substring token (us_text s)"
proof
  assume "substring token (us_text s)"
  then obtain q where q: "occurs_at token (us_text s) q" by (auto simp: substring_occurs)
  obtain p where p: "us_text s = rstrip (take p msg)" "\<And>q. occurs_at token msg q \<Longrightarrow> p \<le> q"
    using stop_find_Some [OF assms(1)] assms(2) by metis
  have pre: "prefix (us_text s) (take p msg)" by (simp add: p(1) rstrip_prefix)
  have "prefix (us_text s) msg" using pre take_is_prefix by (rule prefix_order.trans)
  from occurs_in_prefix [OF this q] have "p \<le> q" "q + length token \<le> length (us_text s)" using p(2) by simp_all
  moreover have "length (us_text s) \<le> p" using prefix_length_le [OF pre] by simp
  ultimately show False using assms(3) by (cases token) simp_all
qed

lemma valid_tokens_nonempty:
  "validate_stop_tokens tokens = None \<Longrightarrow> token \<in> set tokens \<Longrightarrow> token \<noteq> []"
  by (auto simp: validate_stop_tokens_def Let_def first_error_None_iff filter_empty_conv blank_def split: if_splits)

text \<open>What a reply is delivered with: the words, and the lines of the calls that ran with them.\<close>

lemma delivered_content:
  assumes "run_user_tool_calls u reply_text calls t = (Inr (content, keyed), t')"
  shows "\<exists>results. content = reply_text @ results \<and> (if calls = [] then results = [] else prefix two_newlines results)"
  using assms by (auto simp: run_user_tool_calls_def split: if_splits option.splits prod.splits sum.splits)

lemma said_before_the_stop: "stop_find rule msg = Some s \<Longrightarrow> prefix (us_text s) msg"
  using stop_find_Some rstrip_prefix take_is_prefix by (metis prefix_order.trans)

lemma turn_message_content [simp]: "m_content (user_turn_message content keyed) = content"
  by (simp add: user_turn_message_def user_message_with_calls_def user_message_def text_message_def)

text \<open>
  Property C20.  The agent reads no stop token in the user's words.  After turn 0, under \<^verbatim>\<open>stop_with_text: deliver\<close> and with
  tokens that pass their validator, the message a user's reply is delivered as begins with words of that reply: all of them if
  its rule finds no stop, and else those before the stop it finds.  No stop token of the task occurs in these words,
  wherever in the reply the tokens stood and however many there were.  What
  follows the words, and only when the reply makes shared tool calls, is the blank line and the results of those
  calls, which are not searched.
\<close>

theorem delivered_reply_holds_no_stop_token:
  assumes valid: "validate_stop_tokens (ur_tokens (ue_stop_rule u)) = None"
    and mode: "ur_with_text (ue_stop_rule u) = Deliver_reply"
    and turn: "deliver_user_reply u r t = (Inr y, t')" and msg: "ut_message y = Some m"
  shows "\<exists>said results. m_content m = said @ results \<and> prefix said (gr_text r) \<and>
    said = (case stop_find (ue_stop_rule u) (gr_text r) of None \<Rightarrow> gr_text r | Some stop \<Rightarrow> us_text stop) \<and>
    list_all (\<lambda>token. \<not> substring token said) (ur_tokens (ue_stop_rule u)) \<and>
    (if gr_tool_calls r = [] then results = [] else prefix two_newlines results)"
proof (cases "stop_find (ue_stop_rule u) (gr_text r)")
  case None
  then obtain keyed t1 where "run_user_tool_calls u (gr_text r) (gr_tool_calls r) t = (Inr (m_content m, keyed), t1)"
    using turn msg by (auto simp: deliver_user_reply_def split: sum.splits prod.splits)
  from delivered_content [OF this] obtain results where "m_content m = gr_text r @ results"
    "if gr_tool_calls r = [] then results = [] else prefix two_newlines results" by blast
  moreover have "list_all (\<lambda>token. \<not> substring token (gr_text r)) (ur_tokens (ue_stop_rule u))"
    using None by (simp add: stop_find_None list_all_iff)
  ultimately show ?thesis using None by (intro exI [of _ "gr_text r"] exI [of _ results]) simp
next
  case (Some s)
  then obtain keyed t1 where "run_user_tool_calls u (us_text s) (gr_tool_calls r) t = (Inr (m_content m, keyed), t1)"
    using turn msg mode by (auto simp: deliver_user_reply_def ends_turn_def split: sum.splits prod.splits if_splits)
  from delivered_content [OF this] obtain results where "m_content m = us_text s @ results"
    "if gr_tool_calls r = [] then results = [] else prefix two_newlines results" by blast
  moreover have "list_all (\<lambda>token. \<not> substring token (us_text s)) (ur_tokens (ue_stop_rule u))"
    using no_token_before_the_stop [OF Some] valid_tokens_nonempty [OF valid] by (simp add: list_all_iff)
  ultimately show ?thesis
    using said_before_the_stop [OF Some] Some by (intro exI [of _ "us_text s"] exI [of _ results]) simp
qed

section \<open>The guard\<close>

text \<open>The replies and the world after a number of draws.\<close>

fun drawn :: "('v \<Rightarrow> (exn + 'r) \<times> 'v) \<Rightarrow> nat \<Rightarrow> 'v \<Rightarrow> (exn + 'r) list \<times> 'v" where
  "drawn draw_reply 0 v = ([], v)"
| "drawn draw_reply (Suc n) v =
     (case draw_reply v of (r, v1) \<Rightarrow> case drawn draw_reply n v1 of (rs, v2) \<Rightarrow> (r # rs, v2))"

lemma enforce_from_delivers:
  "enforce_from ds draw_reply n rejected v = (Inr (r, rej), v') \<longleftrightarrow>
     (\<exists>rs defects. length rs < n \<and> drawn draw_reply (Suc (length rs)) v = (map Inr rs @ [Inr r], v') \<and>
        guard_inspect ds (gr_text r) = None \<and> map (\<lambda>r. guard_inspect ds (gr_text r)) rs = map Some defects \<and> rej = rejected @ defects)"
proof (induction n arbitrary: rejected v)
  case (Suc n)
  obtain x v1 where x: "draw_reply v = (x, v1)" by fastforce
  show ?case (is "?l = (\<exists>rs defects. ?P rs defects)")
  proof (cases x)
    case (Inl e)
    have "\<not> ?P rs defects" for rs defects by (cases rs) (auto simp: x Inl split: prod.splits)
    then show ?thesis by (auto simp: x Inl)
  next
    case (Inr y)
    show ?thesis
    proof (cases "guard_inspect ds (gr_text y)")
      case None
      have "?P rs defects \<longleftrightarrow> rs = [] \<and> defects = [] \<and> r = y \<and> v' = v1 \<and> rej = rejected" for rs defects
        using None by (cases rs) (auto simp: x Inr split: prod.splits)
      then show ?thesis by (auto simp: x Inr None)
    next
      case (Some d)
      have "?P rs defects \<longleftrightarrow> (\<exists>rs1 ds1. rs = y # rs1 \<and> defects = d # ds1 \<and> length rs1 < n \<and>
          drawn draw_reply (Suc (length rs1)) v1 = (map Inr rs1 @ [Inr r], v') \<and> guard_inspect ds (gr_text r) = None \<and>
          map (\<lambda>r. guard_inspect ds (gr_text r)) rs1 = map Some ds1 \<and> rej = (rejected @ [d]) @ ds1)" for rs defects
        using Some by (cases rs; cases defects) (auto simp: x Inr split: prod.splits)
      then show ?thesis using Suc.IH [of "rejected @ [d]" v1] by (simp add: x Inr Some)
    qed
  qed
qed simp

lemma enforce_from_refuses:
  "enforce_from ds draw_reply n rejected v = (Inl (UserReplyRefused rej), v') \<longleftrightarrow>
     (\<exists>rs defects. length rs = n \<and> drawn draw_reply n v = (map Inr rs, v') \<and>
        map (\<lambda>r. guard_inspect ds (gr_text r)) rs = map Some defects \<and> rej = rejected @ defects)"
proof (induction n arbitrary: rejected v)
  case 0
  then show ?case by auto
next
  case (Suc n)
  obtain x v1 where x: "draw_reply v = (x, v1)" by fastforce
  show ?case (is "?l = (\<exists>rs defects. ?P rs defects)")
  proof (cases x)
    case (Inl e)
    have "\<not> ?P rs defects" for rs defects by (cases rs) (auto simp: x Inl split: prod.splits)
    then show ?thesis by (auto simp: x Inl)
  next
    case (Inr y)
    show ?thesis
    proof (cases "guard_inspect ds (gr_text y)")
      case None
      have "\<not> ?P rs defects" for rs defects using None by (cases rs; cases defects) (auto simp: x Inr split: prod.splits)
      then show ?thesis by (auto simp: x Inr None)
    next
      case (Some d)
      have "?P rs defects \<longleftrightarrow> (\<exists>rs1 ds1. rs = y # rs1 \<and> defects = d # ds1 \<and> length rs1 = n \<and>
          drawn draw_reply n v1 = (map Inr rs1, v') \<and>
          map (\<lambda>r. guard_inspect ds (gr_text r)) rs1 = map Some ds1 \<and> rej = (rejected @ [d]) @ ds1)" for rs defects
        using Some by (cases rs; cases defects) (auto simp: x Inr split: prod.splits)
      then show ?thesis using Suc.IH [of "rejected @ [d]" v1] by (simp add: x Inr Some)
    qed
  qed
qed

text \<open>
  The guard delivers the first clean reply and refuses only when there was none.  A reply is delivered exactly
  when it passes every detector, fewer than the allowed attempts were drawn before it and each of those was defective; the
  turn is refused exactly when every allowed attempt was drawn and found defective.  Either way the
  defects of the discarded replies are reported, in order.
\<close>

theorem guard_delivers_the_first_clean_reply:
  "(enforce (ds, n) draw_reply v = (Inr (r, rej), v') \<longleftrightarrow>
      (\<exists>rs. length rs < n \<and> drawn draw_reply (Suc (length rs)) v = (map Inr rs @ [Inr r], v') \<and>
         guard_inspect ds (gr_text r) = None \<and> map (\<lambda>r. guard_inspect ds (gr_text r)) rs = map Some rej)) \<and>
   (enforce (ds, n) draw_reply v = (Inl (UserReplyRefused rej), v') \<longleftrightarrow>
      (\<exists>rs. length rs = n \<and> drawn draw_reply n v = (map Inr rs, v') \<and>
         map (\<lambda>r. guard_inspect ds (gr_text r)) rs = map Some rej))"
  by (auto simp: enforce_def enforce_from_delivers enforce_from_refuses)

section \<open>A final reply\<close>

definition final_reply :: UserReply where
  "final_reply =
     \<lparr>gr_text = ''Thanks. ###STOP### ignore ###STOP###'',
      gr_tool_calls = [\<lparr>tc_id = ''u1'', tc_name = ''log'', tc_arguments = []\<rparr>], gr_completion_tokens = 5, gr_reasoning_tokens = 0,
      gr_reasoning = None, gr_effective_system_prompt = None, gr_finish_reason = None, gr_native_finish_reason = None,
      gr_parser_errors = [], gr_guard_rejections = [], gr_filler_substituted = False, gr_billed = False\<rparr>"

definition final_user :: "unit user_env" where
  "final_user =
     \<lparr>ue_simulator = None,
      ue_executor = Some (\<lambda>name _ _ v. (Inr \<lparr>tres_success = True, tres_output = ''###STOP###'', tres_error = None, tres_status = None\<rparr>, v)),
      ue_time = \<lambda>v. (0, v), ue_sleep = \<lambda>_ v. v, ue_record_spend = \<lambda>_ v. v,
      ue_stop_rule = \<lparr>ur_tokens = [SIMULATOR_STOP_TOKEN], ur_with_text = Deliver_reply\<rparr>,
      ue_isolated = False, ue_max_steps = 10, ue_start_time = 0, ue_episode_timeout_s = 600,
      ue_first_agent_message = None, ue_rate_limit_probe_active = False\<rparr>"

definition final_trial :: "unit user_trial" where
  "final_trial = \<lparr>tr_messages = [], tr_call_ids = fresh_call_ids, tr_recorded = [], tr_budget = None,
     tr_world = \<lparr>uw_pending_stop = None, uw_guard_events = [], uw_world = ()\<rparr>\<rparr>"

theorem delivered_reply_holds_no_stop_token_witness:
  "\<exists>y t' m said results. deliver_user_reply final_user final_reply final_trial = (Inr y, t') \<and> ut_message y = Some m \<and>
     m_content m = said @ results \<and> prefix said (gr_text final_reply) \<and> \<not> substring SIMULATOR_STOP_TOKEN said \<and>
     prefix two_newlines results"
proof -
  have "case deliver_user_reply final_user final_reply final_trial of
      (Inr y, _) \<Rightarrow> ut_message y \<noteq> None | _ \<Rightarrow> False" by code_simp
  then obtain y t' m where d: "deliver_user_reply final_user final_reply final_trial = (Inr y, t')" "ut_message y = Some m"
    by (auto split: prod.splits sum.splits)
  have v: "validate_stop_tokens (ur_tokens (ue_stop_rule final_user)) = None" by code_simp
  have f: "ur_with_text (ue_stop_rule final_user) = Deliver_reply" "ur_tokens (ue_stop_rule final_user) = [SIMULATOR_STOP_TOKEN]"
    "gr_tool_calls final_reply \<noteq> []"
    by (simp_all add: final_user_def final_reply_def)
  from delivered_reply_holds_no_stop_token [OF v f(1) d] d f(2,3) show ?thesis by auto
qed

end
