(* ===== verification/Transcript_Rules.thy ===== *)
theory Transcript_Rules
  imports Trace_Timeline Trace_Evaluator
begin

text \<open>
  The transcript rules of \<^verbatim>\<open>tolokaforge/core/grading/transcript.py\<close> with their configuration
  (\<^verbatim>\<open>tolokaforge/runner/models.py\<close>) and the turn window of \<^verbatim>\<open>core/grading/turn_bounds.py\<close>: one row per
  declared assertion about what the agent said and called, read on the trial's timeline, folded into
  a fraction with the activity floor as a gate.  A row's message is kept as the data it renders.
  The regular-expression engines are the parameter \<open>regex_lib\<close>, here as they compile and search with
  \<^verbatim>\<open>ignore_case\<close>.
\<close>

section \<open>Configuration\<close>

datatype requestor = Requestor_assistant | Requestor_user

record RequiredAction =
  ra_action_id :: pystr
  ra_requestor :: requestor
  ra_name :: pystr
  ra_arguments :: "(pystr, pyval) dict"
  ra_compare_args :: "pystr list option"

record CommunicateInfo =
  ci_info :: pystr
  ci_required :: bool

record ToolExpectations =
  te_required_tools :: "pystr list"
  te_disallowed_tools :: "pystr list"

record TranscriptRulesConfig =
  trc_must_contain :: "pystr list"
  trc_disallow_regex :: "pystr list"
  trc_regex_engine :: RegexEngineKind
  trc_max_turns :: "int option"
  trc_min_assistant_turns :: "int option"
  trc_tool_expectations :: "ToolExpectations option"
  trc_required_actions :: "RequiredAction list"
  trc_communicate_info :: "CommunicateInfo list"

datatype transcript_config_error = BoundBelowOne | UnsatisfiableTurnWindow int int

definition validate_turn_window :: "int option \<Rightarrow> int option \<Rightarrow> transcript_config_error option" where
  "validate_turn_window min_assistant_turns max_turns =
     (case (min_assistant_turns, max_turns) of
        (Some low, Some high) \<Rightarrow> if low \<le> high then None else Some (UnsatisfiableTurnWindow low high)
      | _ \<Rightarrow> None)"

definition below_one :: "int option \<Rightarrow> bool" where
  "below_one bound = (case bound of None \<Rightarrow> False | Some n \<Rightarrow> n < 1)"

definition validate_transcript_rules :: "TranscriptRulesConfig \<Rightarrow> transcript_config_error option" where
  "validate_transcript_rules rules =
     (if below_one (trc_max_turns rules) \<or> below_one (trc_min_assistant_turns rules) then Some BoundBelowOne
      else validate_turn_window (trc_min_assistant_turns rules) (trc_max_turns rules))"

definition no_rules :: TranscriptRulesConfig where
  "no_rules = \<lparr>trc_must_contain = [], trc_disallow_regex = [], trc_regex_engine = LINEAR, trc_max_turns = None,
     trc_min_assistant_turns = None, trc_tool_expectations = None, trc_required_actions = [], trc_communicate_info = []\<rparr>"

fun requestor_to_executor :: "requestor \<Rightarrow> ToolExecutorIdentity" where
  "requestor_to_executor Requestor_assistant = Executor_AGENT"
| "requestor_to_executor Requestor_user = Executor_USER"

section \<open>Rows\<close>

datatype transcript_rule =
    R_must_contain pystr
  | R_disallow_regex pystr
  | R_max_turns int
  | R_min_assistant_turns int
  | R_required_tool pystr
  | R_disallowed_tool pystr
  | R_required_action RequiredAction
  | R_communicate_info CommunicateInfo

fun rule_type :: "transcript_rule \<Rightarrow> pystr" where
  "rule_type (R_must_contain _) = ''must_contain''"
| "rule_type (R_disallow_regex _) = ''disallow_regex''"
| "rule_type (R_max_turns _) = ''max_turns''"
| "rule_type (R_min_assistant_turns _) = ''min_assistant_turns''"
| "rule_type (R_required_tool _) = ''required_tool''"
| "rule_type (R_disallowed_tool _) = ''disallowed_tool''"
| "rule_type (R_required_action _) = ''required_action''"
| "rule_type (R_communicate_info _) = ''communicate_info''"

datatype rule_message =
    M_found | M_missing | M_invalid_pattern RegexEngineKind | M_matched | M_unmatched | M_turn_count nat
  | M_unrecorded | M_called "ToolExecutionStatus list" | M_no_name | M_no_matching_call "pystr list"

record TranscriptRuleResult =
  trr_rule :: transcript_rule
  trr_passed :: bool
  trr_message :: rule_message

record TranscriptEvaluationResult =
  ter_passed :: bool
  ter_score :: pyfloat
  ter_details :: "TranscriptRuleResult list"
  ter_accounted_keys :: "(pystr, KeyAccountingRecord) dict"

definition row :: "transcript_rule \<Rightarrow> bool \<Rightarrow> rule_message \<Rightarrow> TranscriptRuleResult" where
  "row rule passed message = \<lparr>trr_rule = rule, trr_passed = passed, trr_message = message\<rparr>"

section \<open>The checks\<close>

definition declared :: "AttemptedCall list \<Rightarrow> pystr \<Rightarrow> AttemptedCall list" where
  "declared calls tool_name = filter (\<lambda>call. ac_tool_name call = tool_name) calls"

definition executed_by_agent :: "AttemptedCall list \<Rightarrow> pystr \<Rightarrow> AttemptedCall list" where
  "executed_by_agent calls tool_name =
     filter (\<lambda>call. ac_status call \<noteq> None \<and> ac_executor call = Some Executor_AGENT) (declared calls tool_name)"

definition outcome_unknown :: "AttemptedCall list \<Rightarrow> pystr \<Rightarrow> bool \<Rightarrow> bool" where
  "outcome_unknown calls tool_name records_present \<longleftrightarrow> \<not> records_present \<and> declared calls tool_name \<noteq> []"

definition said :: "pystr \<Rightarrow> pystr list \<Rightarrow> bool" where
  "said needle assistant_messages =
     list_ex (\<lambda>content. substring (lower_str needle) (lower_str content)) assistant_messages"

definition check_must_contain :: "pystr \<Rightarrow> pystr list \<Rightarrow> TranscriptRuleResult" where
  "check_must_contain needle assistant_messages =
     (let found = said needle assistant_messages
      in row (R_must_contain needle) found (if found then M_found else M_missing))"

definition check_disallow_regex ::
    "regex_lib \<Rightarrow> pystr \<Rightarrow> RegexEngineKind \<Rightarrow> pystr list \<Rightarrow> TranscriptRuleResult" where
  "check_disallow_regex lib pattern engine assistant_messages =
     (case engine_compile lib engine pattern of
        Some _ \<Rightarrow> row (R_disallow_regex pattern) False (M_invalid_pattern engine)
      | None \<Rightarrow>
          if list_ex (rx_search lib engine pattern) assistant_messages
          then row (R_disallow_regex pattern) False M_matched
          else row (R_disallow_regex pattern) True M_unmatched)"

definition check_max_turns :: "int \<Rightarrow> nat \<Rightarrow> TranscriptRuleResult" where
  "check_max_turns max_turns turn_count = row (R_max_turns max_turns) (int turn_count \<le> max_turns) (M_turn_count turn_count)"

definition unmet_activity_floor :: "int \<Rightarrow> nat \<Rightarrow> TranscriptRuleResult option" where
  "unmet_activity_floor min_assistant_turns turn_count =
     (if int turn_count \<ge> min_assistant_turns then None
      else Some (row (R_min_assistant_turns min_assistant_turns) False (M_turn_count turn_count)))"

definition check_required_tool :: "pystr \<Rightarrow> AttemptedCall list \<Rightarrow> bool \<Rightarrow> TranscriptRuleResult" where
  "check_required_tool tool_name calls records_present =
     (if outcome_unknown calls tool_name records_present then row (R_required_tool tool_name) False M_unrecorded
      else let called = list_ex (\<lambda>call. ac_status call = Some SUCCESS) (executed_by_agent calls tool_name)
           in row (R_required_tool tool_name) called (if called then M_found else M_missing))"

definition check_disallowed_tool :: "pystr \<Rightarrow> AttemptedCall list \<Rightarrow> bool \<Rightarrow> TranscriptRuleResult" where
  "check_disallowed_tool tool_name calls records_present =
     (if outcome_unknown calls tool_name records_present then row (R_disallowed_tool tool_name) False M_unrecorded
      else let offending = executed_by_agent calls tool_name
           in row (R_disallowed_tool tool_name) (offending = []) (M_called (List.map_filter ac_status offending)))"

definition get_argument :: "pystr \<Rightarrow> (pystr, pyval) dict \<Rightarrow> pyval" where
  "get_argument k d = (case map_of d k of None \<Rightarrow> VNone | Some v \<Rightarrow> v)"

definition keys_to_compare :: "RequiredAction \<Rightarrow> pystr list" where
  "keys_to_compare action =
     (case ra_compare_args action of None \<Rightarrow> map fst (ra_arguments action) | Some keys \<Rightarrow> keys)"

definition performs :: "RequiredAction \<Rightarrow> AttemptedCall \<Rightarrow> bool" where
  "performs action call \<longleftrightarrow>
     ac_tool_name call = ra_name action \<and>
     ac_executor call = Some (requestor_to_executor (ra_requestor action)) \<and>
     ac_status call = Some SUCCESS \<and>
     list_all (\<lambda>k. py_eq (get_argument k (ac_arguments call)) (get_argument k (ra_arguments action))) (keys_to_compare action)"

definition check_required_action :: "RequiredAction \<Rightarrow> AttemptedCall list \<Rightarrow> bool \<Rightarrow> TranscriptRuleResult" where
  "check_required_action action calls records_present =
     (if ra_name action = [] then row (R_required_action action) False M_no_name
      else if outcome_unknown calls (ra_name action) records_present
        then row (R_required_action action) False M_unrecorded
      else if list_ex (performs action) calls then row (R_required_action action) True M_matched
      else row (R_required_action action) False (M_no_matching_call (keys_to_compare action)))"

definition check_communicate_info :: "CommunicateInfo \<Rightarrow> pystr list \<Rightarrow> TranscriptRuleResult option" where
  "check_communicate_info info assistant_messages =
     (if \<not> ci_required info then None
      else let found = said (ci_info info) assistant_messages
           in Some (row (R_communicate_info info) found (if found then M_found else M_missing)))"

section \<open>The evaluation\<close>

definition required_tools :: "TranscriptRulesConfig \<Rightarrow> pystr list" where
  "required_tools rules = (case trc_tool_expectations rules of None \<Rightarrow> [] | Some te \<Rightarrow> te_required_tools te)"

definition disallowed_tools :: "TranscriptRulesConfig \<Rightarrow> pystr list" where
  "disallowed_tools rules = (case trc_tool_expectations rules of None \<Rightarrow> [] | Some te \<Rightarrow> te_disallowed_tools te)"

definition floor_row :: "TrialTimeline \<Rightarrow> TranscriptRulesConfig \<Rightarrow> TranscriptRuleResult option" where
  "floor_row timeline rules =
     (case trc_min_assistant_turns rules of
        None \<Rightarrow> None
      | Some low \<Rightarrow> unmet_activity_floor low (length (assistant_texts timeline)))"

definition rule_rows :: "regex_lib \<Rightarrow> TrialTimeline \<Rightarrow> TranscriptRulesConfig \<Rightarrow> TranscriptRuleResult list" where
  "rule_rows lib timeline rules =
     (let assistant_messages = assistant_texts timeline; calls = attempted_calls timeline;
          records_present = tl_records_present timeline
      in (case floor_row timeline rules of None \<Rightarrow> [] | Some r \<Rightarrow> [r]) @
         map (\<lambda>needle. check_must_contain needle assistant_messages) (trc_must_contain rules) @
         map (\<lambda>p. check_disallow_regex lib p (trc_regex_engine rules) assistant_messages) (trc_disallow_regex rules) @
         (case trc_max_turns rules of None \<Rightarrow> [] | Some n \<Rightarrow> [check_max_turns n (length assistant_messages)]) @
         map (\<lambda>tool. check_required_tool tool calls records_present) (required_tools rules) @
         map (\<lambda>tool. check_disallowed_tool tool calls records_present) (disallowed_tools rules) @
         map (\<lambda>action. check_required_action action calls records_present) (trc_required_actions rules) @
         List.map_filter (\<lambda>info. check_communicate_info info assistant_messages) (trc_communicate_info rules))"

definition transcript_keys :: "TranscriptRulesConfig \<Rightarrow> pystr list" where
  "transcript_keys rules =
     (if trc_min_assistant_turns rules \<noteq> None then [''transcript_rules.min_assistant_turns''] else []) @
     (if trc_must_contain rules \<noteq> [] then [''transcript_rules.must_contain''] else []) @
     (if trc_disallow_regex rules \<noteq> [] then [''transcript_rules.disallow_regex''] else []) @
     (if trc_max_turns rules \<noteq> None then [''transcript_rules.max_turns''] else []) @
     (if required_tools rules \<noteq> [] \<or> disallowed_tools rules \<noteq> [] then [''transcript_rules.tool_expectations''] else []) @
     (if trc_required_actions rules \<noteq> [] then [''transcript_rules.required_actions''] else []) @
     (if trc_communicate_info rules \<noteq> [] then [''transcript_rules.communicate_info''] else [])"

definition evaluate_transcript_rules ::
    "regex_lib \<Rightarrow> TrialTimeline \<Rightarrow> TranscriptRulesConfig \<Rightarrow> TranscriptEvaluationResult" where
  "evaluate_transcript_rules lib timeline rules =
     (let details = rule_rows lib timeline rules;
          accounted_keys = map (\<lambda>k. (k, EVALUATED)) (transcript_keys rules);
          passed_count = length (filter trr_passed details); total_count = length details
      in if details = []
         then \<lparr>ter_passed = True, ter_score = 1, ter_details = [], ter_accounted_keys = accounted_keys\<rparr>
         else \<lparr>ter_passed = (passed_count = total_count),
               ter_score = (if floor_row timeline rules \<noteq> None then 0 else of_nat passed_count / of_nat total_count),
               ter_details = details, ter_accounted_keys = accounted_keys\<rparr>)"

definition scored_transcript_rules :: "TrialTimeline \<Rightarrow> TranscriptRulesConfig \<Rightarrow> TranscriptRulesConfig option" where
  "scored_transcript_rules timeline rules =
     (if tl_events timeline \<noteq> [] then Some rules
      else map_option (\<lambda>low. no_rules\<lparr>trc_min_assistant_turns := Some low\<rparr>) (trc_min_assistant_turns rules))"

section \<open>What a verdict means\<close>

definition tool_known :: "TrialTimeline \<Rightarrow> pystr \<Rightarrow> bool" where
  "tool_known t tool \<longleftrightarrow> tl_records_present t \<or> list_all (\<lambda>c. ac_tool_name c \<noteq> tool) (attempted_calls t)"

definition agent_ran :: "TrialTimeline \<Rightarrow> pystr \<Rightarrow> (ToolExecutionStatus \<Rightarrow> bool) \<Rightarrow> bool" where
  "agent_ran t tool P \<longleftrightarrow>
     (\<exists>c \<in> set (attempted_calls t). ac_tool_name c = tool \<and> ac_executor c = Some Executor_AGENT \<and>
        (\<exists>st. ac_status c = Some st \<and> P st))"

lemma outcome_unknown_iff: "outcome_unknown (attempted_calls t) tool (tl_records_present t) \<longleftrightarrow> \<not> tool_known t tool"
  by (auto simp: outcome_unknown_def tool_known_def declared_def filter_empty_conv list_all_iff)

lemma row_passed [simp]: "trr_passed (row r b m) = b"
  by (simp add: row_def)

lemma required_tool_passed [simp]:
  "trr_passed (check_required_tool tool (attempted_calls t) (tl_records_present t)) \<longleftrightarrow>
     tool_known t tool \<and> agent_ran t tool (\<lambda>st. st = SUCCESS)"
  by (auto simp: check_required_tool_def outcome_unknown_iff agent_ran_def executed_by_agent_def declared_def
      list_ex_iff Let_def)

lemma disallowed_tool_passed [simp]:
  "trr_passed (check_disallowed_tool tool (attempted_calls t) (tl_records_present t)) \<longleftrightarrow>
     tool_known t tool \<and> \<not> agent_ran t tool (\<lambda>_. True)"
  by (auto simp: check_disallowed_tool_def outcome_unknown_iff agent_ran_def executed_by_agent_def declared_def
      filter_empty_conv Let_def)

lemma required_action_passed [simp]:
  "trr_passed (check_required_action a (attempted_calls t) (tl_records_present t)) \<longleftrightarrow>
     ra_name a \<noteq> [] \<and> tool_known t (ra_name a) \<and> list_ex (performs a) (attempted_calls t)"
  by (simp add: check_required_action_def outcome_unknown_iff)

lemma text_rows_passed [simp]:
  "trr_passed (check_must_contain n texts) = said n texts"
  "trr_passed (check_disallow_regex lib p e texts) \<longleftrightarrow> rx_groups lib e p \<noteq> None \<and> \<not> list_ex (rx_search lib e p) texts"
  "trr_passed (check_max_turns high k) \<longleftrightarrow> int k \<le> high"
  by (simp_all add: check_must_contain_def check_disallow_regex_def check_max_turns_def engine_compile_def Let_def)

definition rules_hold :: "regex_lib \<Rightarrow> TrialTimeline \<Rightarrow> TranscriptRulesConfig \<Rightarrow> bool" where
  "rules_hold lib t rules \<longleftrightarrow>
     (let texts = assistant_texts t; turns = int (length texts) in
      (case trc_min_assistant_turns rules of None \<Rightarrow> True | Some low \<Rightarrow> low \<le> turns) \<and>
      list_all (\<lambda>n. said n texts) (trc_must_contain rules) \<and>
      list_all (\<lambda>p. rx_groups lib (trc_regex_engine rules) p \<noteq> None \<and>
        \<not> list_ex (rx_search lib (trc_regex_engine rules) p) texts) (trc_disallow_regex rules) \<and>
      (case trc_max_turns rules of None \<Rightarrow> True | Some high \<Rightarrow> turns \<le> high) \<and>
      list_all (\<lambda>tool. tool_known t tool \<and> agent_ran t tool (\<lambda>st. st = SUCCESS)) (required_tools rules) \<and>
      list_all (\<lambda>tool. tool_known t tool \<and> \<not> agent_ran t tool (\<lambda>_. True)) (disallowed_tools rules) \<and>
      list_all (\<lambda>a. ra_name a \<noteq> [] \<and> tool_known t (ra_name a) \<and> list_ex (performs a) (attempted_calls t))
        (trc_required_actions rules) \<and>
      list_all (\<lambda>info. said (ci_info info) texts) (filter ci_required (trc_communicate_info rules)))"

lemma info_rows:
  "list_all trr_passed (List.map_filter (\<lambda>info. check_communicate_info info texts) infos) \<longleftrightarrow>
     list_all (\<lambda>info. said (ci_info info) texts) (filter ci_required infos)"
  by (induction infos) (simp_all add: check_communicate_info_def Let_def)

lemma rows_hold: "list_all trr_passed (rule_rows lib t rules) \<longleftrightarrow> rules_hold lib t rules"
proof -
  have "list_all trr_passed (case floor_row t rules of None \<Rightarrow> [] | Some r \<Rightarrow> [r]) \<longleftrightarrow>
      (case trc_min_assistant_turns rules of None \<Rightarrow> True | Some low \<Rightarrow> low \<le> int (length (assistant_texts t)))"
    by (simp add: floor_row_def unmet_activity_floor_def split: option.split)
  moreover have "list_all trr_passed (case trc_max_turns rules of None \<Rightarrow> [] | Some n \<Rightarrow> [check_max_turns n k]) \<longleftrightarrow>
      (case trc_max_turns rules of None \<Rightarrow> True | Some high \<Rightarrow> int k \<le> high)" for k
    by (simp split: option.split)
  ultimately show ?thesis
    by (simp add: rule_rows_def rules_hold_def Let_def info_rows list.pred_map comp_def)
qed

lemma passed_iff_all: "length (filter P xs) = length xs \<longleftrightarrow> list_all P xs"
proof (induction xs)
  case (Cons x xs)
  then show ?case using length_filter_le [of P xs] by (auto simp del: length_filter_le)
qed simp

text \<open>
  Property C16.  The transcript component means its rules: it passes exactly when every declared rule holds
  of the timeline (required texts said, no forbidden pattern matched and every pattern compilable, the
  turn count in its window, required tools succeeded and forbidden ones never run in the agent's hands,
  required actions performed, required information told), with a call whose outcome no record tells
  counted against the trial; its score is a share of one, is one exactly when it passes, and is zero
  when the activity floor is not met.
\<close>

theorem transcript_verdict_means_the_rules:
  "(ter_passed (evaluate_transcript_rules lib t rules) \<longleftrightarrow> rules_hold lib t rules) \<and>
   0 \<le> ter_score (evaluate_transcript_rules lib t rules) \<and> ter_score (evaluate_transcript_rules lib t rules) \<le> 1 \<and>
   (ter_score (evaluate_transcript_rules lib t rules) = 1 \<longleftrightarrow> rules_hold lib t rules) \<and>
   (floor_row t rules \<noteq> None \<longrightarrow> ter_score (evaluate_transcript_rules lib t rules) = 0)"
proof (cases "rule_rows lib t rules = []")
  case True
  then have "rules_hold lib t rules" using rows_hold [of lib t rules] by simp
  moreover have "floor_row t rules = None"
    using True by (auto simp: rule_rows_def Let_def split: option.splits)
  ultimately show ?thesis using True by (simp add: evaluate_transcript_rules_def Let_def)
next
  case False
  let ?rows = "rule_rows lib t rules"
  let ?k = "length (filter trr_passed ?rows)"
  have all: "?k = length ?rows \<longleftrightarrow> rules_hold lib t rules" by (simp add: passed_iff_all rows_hold)
  have floor: "\<not> rules_hold lib t rules" if "floor_row t rules \<noteq> None"
    using that rows_hold [of lib t rules]
    by (auto simp: rule_rows_def Let_def floor_row_def unmet_activity_floor_def split: option.splits if_splits)
  have le: "?k \<le> length ?rows" by (rule length_filter_le)
  have share: "(of_nat ?k :: rat) / of_nat (length ?rows) \<le> 1" "0 \<le> (of_nat ?k :: rat) / of_nat (length ?rows)"
    "(of_nat ?k :: rat) / of_nat (length ?rows) = 1 \<longleftrightarrow> rules_hold lib t rules"
    using False le by (simp_all add: divide_le_eq divide_eq_eq eq_commute [of "length ?rows"] flip: all)
  show ?thesis
    using False floor share all by (simp add: evaluate_transcript_rules_def Let_def)
qed

text \<open>A trial whose only rule is a floor of two turns it does not meet.\<close>

definition silent_timeline :: TrialTimeline where
  "silent_timeline = \<lparr>tl_events = [], tl_termination_reason = None, tl_message_view_present = False, tl_records_present = False\<rparr>"

theorem transcript_verdict_means_the_rules_witness:
  "ter_score (evaluate_transcript_rules \<lparr>rx_groups = \<lambda>_ _. None, rx_search = \<lambda>_ _ _. False, rx_first_groups = \<lambda>_ _ _. []\<rparr>
     silent_timeline (no_rules\<lparr>trc_min_assistant_turns := Some 2, trc_disallow_regex := [''x'']\<rparr>)) = 0"
proof -
  have "floor_row silent_timeline (no_rules\<lparr>trc_min_assistant_turns := Some 2, trc_disallow_regex := [''x'']\<rparr>) \<noteq> None"
    by code_simp
  then show ?thesis
    using transcript_verdict_means_the_rules [of "\<lparr>rx_groups = \<lambda>_ _. None, rx_search = \<lambda>_ _ _. False, rx_first_groups = \<lambda>_ _ _. []\<rparr>"
        silent_timeline "no_rules\<lparr>trc_min_assistant_turns := Some 2, trc_disallow_regex := [''x'']\<rparr>"] by simp
qed

section \<open>The rules on a built timeline\<close>

lemma seed_kinds [simp]:
  "ev_kind (call_seed k n a x) = TOOL_CALL" "ev_kind (result_seed k r) = TOOL_RESULT"
  "ev_call_id (call_seed k n a x) = Some k" "ev_tool_name (call_seed k n a x) = Some n"
  "ev_arguments (call_seed k n a x) = Some a" "ev_executor (call_seed k n a x) = x"
  "ev_call_id (result_seed k r) = Some k" "ev_status (result_seed k r) = Some (rc_status r)"
  by (simp_all add: call_seed_def result_seed_def seed_def)

lemma call_seeds_calls:
  "filter (\<lambda>e. ev_kind e = TOOL_CALL) (call_seeds records results d) =
     [call_seed (dc_key d) (tc_name (dc_call d)) (tc_arguments (dc_call d)) (map_option rc_executor (map_of records (dc_key d)))]"
  by (auto simp: call_seeds_def message_result_seed_def seed_def split: option.split)

lemma call_seeds_results:
  "filter (\<lambda>e. ev_kind e = TOOL_RESULT) (call_seeds records [] d) =
     (case map_of records (dc_key d) of None \<Rightarrow> [] | Some r \<Rightarrow> [result_seed (dc_key d) r])"
  by (auto simp: call_seeds_def split: option.split)

lemma turn_seeds_of_kind:
  assumes "k = TOOL_CALL \<or> k = TOOL_RESULT"
  shows "set (filter (\<lambda>e. ev_kind e = k) (turn_seeds records results steps m ds)) =
    (\<Union>d \<in> set ds. set (filter (\<lambda>e. ev_kind e = k) (call_seeds records results d)))"
proof -
  have "set (execution_order ds records) = set ds" by (metis mset_execution_order set_mset_mset)
  moreover have "filter (\<lambda>e. ev_kind e = k) (if is_user_tool_step m steps then []
      else case kind_by_role (m_role m) of None \<Rightarrow> [] | Some kind \<Rightarrow> [(seed kind)\<lparr>ev_text := Some (m_content m)\<rparr>]) = []"
    using assms by (cases "m_role m") (auto simp: seed_def)
  ultimately show ?thesis by (simp add: turn_seeds_def filter_concat comp_def del: set_filter)
qed

lemma view_seeds_of_kind:
  assumes "length ms = length dss" "k = TOOL_CALL \<or> k = TOOL_RESULT"
  shows "set (filter (\<lambda>e. ev_kind e = k) (concat (map2 (turn_seeds records results steps) ms dss))) =
    (\<Union>d \<in> set (concat dss). set (filter (\<lambda>e. ev_kind e = k) (call_seeds records results d)))"
  using assms(1)
proof (induction ms dss rule: list_induct2)
  case (Cons m ms ds dss)
  then show ?case
    using turn_seeds_of_kind [OF assms(2), of records results steps m ds] by (simp del: set_filter)
qed simp

lemma declared_with_key:
  assumes "map_of (declarations_by_key (declared_calls turns)) k = Some c"
  shows "\<exists>d \<in> set (concat (declared_calls turns)). dc_key d = k \<and> dc_call d = c"
proof -
  have d: "distinct (map fst (map (\<lambda>d. (dc_key d, dc_call d)) (concat (declared_calls turns))))"
    using distinct_declared_keys [of turns] by (simp add: comp_def)
  have "(k, c) \<in> set (map (\<lambda>d. (dc_key d, dc_call d)) (concat (declared_calls turns)))"
    using map_of_SomeD [OF assms] unfolding declarations_by_key_def dict_of_distinct [OF d] .
  then show ?thesis by auto
qed

lemma built_seeds:
  assumes "build_trial_timeline ms recorded reason = Inr t" "recorded \<noteq> []"
  defines "R \<equiv> records_by_episode_key recorded"
  shows "set (filter (\<lambda>e. ev_kind e = TOOL_RESULT) (map unnumbered (tl_events t))) = {result_seed k r | k r. (k, r) \<in> set R}"
    and "e \<in> set (filter (\<lambda>e. ev_kind e = TOOL_CALL) (map unnumbered (tl_events t))) \<Longrightarrow>
      \<exists>k n a x. e = call_seed k n a x \<and> (\<forall>r. map_of R k = Some r \<longrightarrow> n = rc_tool_name r \<and> x = Some (rc_executor r)) \<and>
        (map_of R k = None \<longrightarrow> x = None)"
    and "(k, r) \<in> set R \<Longrightarrow> \<exists>a. call_seed k (rc_tool_name r) a (Some (rc_executor r)) \<in>
      set (filter (\<lambda>e. ev_kind e = TOOL_CALL) (map unnumbered (tl_events t)))"
proof -
  let ?turns = "turns_of ms"
  from build_inversion [OF assms(1)] assms(2) have
    seeds: "map unnumbered (tl_events t) =
       (if ?turns \<noteq> [] then concat (map2 (turn_seeds R [] (user_tool_step_call_ids ms)) ?turns (declared_calls ?turns))
        else concat (map record_seeds (sort_key (\<lambda>(k, r). rc_sequence r) R)))"
    and rec: "?turns \<noteq> [] \<Longrightarrow> \<forall>kr \<in> set R. answers_declaration (declarations_by_key (declared_calls ?turns)) kr"
    unfolding R_def by metis+
  have dist: "distinct (map fst R)" by (simp add: R_def)
  have linked: "\<exists>d \<in> set (concat (declared_calls ?turns)). dc_key d = k \<and> tc_name (dc_call d) = rc_tool_name r"
    if tn: "?turns \<noteq> []" and kr: "(k, r) \<in> set R" for k r
  proof -
    obtain c where "map_of (declarations_by_key (declared_calls ?turns)) k = Some c" "rc_tool_name r = tc_name c"
      using rec [OF tn] kr by (auto simp: answers_declaration_def)
    with declared_with_key show ?thesis by metis
  qed
  show "set (filter (\<lambda>e. ev_kind e = TOOL_RESULT) (map unnumbered (tl_events t))) = {result_seed k r | k r. (k, r) \<in> set R}"
  proof (cases "?turns = []")
    case True
    then show ?thesis unfolding seeds by (auto simp: record_seeds_def)
  next
    case False
    have "e \<in> set (filter (\<lambda>e. ev_kind e = TOOL_RESULT) (map unnumbered (tl_events t))) \<longleftrightarrow>
        (\<exists>d \<in> set (concat (declared_calls ?turns)). \<exists>r. map_of R (dc_key d) = Some r \<and> e = result_seed (dc_key d) r)" for e
      unfolding seeds if_P [OF False] view_seeds_of_kind [OF length_declared [symmetric] disjI2 [OF refl]] call_seeds_results
      by (force split: option.splits)
    also have "(\<exists>d \<in> set (concat (declared_calls ?turns)). \<exists>r. map_of R (dc_key d) = Some r \<and> e = result_seed (dc_key d) r) \<longleftrightarrow>
        (\<exists>k r. (k, r) \<in> set R \<and> e = result_seed k r)" for e
      using linked [OF False] dist by (metis map_of_SomeD map_of_is_SomeI)
    finally show ?thesis by blast
  qed
  have calls: "set (filter (\<lambda>e. ev_kind e = TOOL_CALL) (map unnumbered (tl_events t))) =
      (if ?turns \<noteq> [] then (\<lambda>d. call_seed (dc_key d) (tc_name (dc_call d)) (tc_arguments (dc_call d))
          (map_option rc_executor (map_of R (dc_key d)))) ` set (concat (declared_calls ?turns))
       else (\<lambda>(k, r). call_seed k (rc_tool_name r) (rc_arguments r) (Some (rc_executor r))) ` set R)"
  proof (cases "?turns = []")
    case True
    then show ?thesis unfolding seeds by (auto simp: record_seeds_def image_iff)
  next
    case False
    show ?thesis
      unfolding seeds if_P [OF False] view_seeds_of_kind [OF length_declared [symmetric] disjI1 [OF refl]] call_seeds_calls
      by auto
  qed
  show "\<exists>k n a x. e = call_seed k n a x \<and> (\<forall>r. map_of R k = Some r \<longrightarrow> n = rc_tool_name r \<and> x = Some (rc_executor r)) \<and>
      (map_of R k = None \<longrightarrow> x = None)"
    if e: "e \<in> set (filter (\<lambda>e. ev_kind e = TOOL_CALL) (map unnumbered (tl_events t)))" for e
  proof (cases "?turns = []")
    case True
    obtain k r where "(k, r) \<in> set R" "e = call_seed k (rc_tool_name r) (rc_arguments r) (Some (rc_executor r))"
      using e unfolding calls using True by auto
    moreover from this dist have "map_of R k = Some r" by simp
    ultimately show ?thesis
      by (intro exI [of _ k] exI [of _ "rc_tool_name r"] exI [of _ "rc_arguments r"] exI [of _ "Some (rc_executor r)"]) simp
  next
    case False
    obtain d where d: "d \<in> set (concat (declared_calls ?turns))"
      "e = call_seed (dc_key d) (tc_name (dc_call d)) (tc_arguments (dc_call d)) (map_option rc_executor (map_of R (dc_key d)))"
      using e unfolding calls using False by auto
    have "tc_name (dc_call d) = rc_tool_name r" if "map_of R (dc_key d) = Some r" for r
      using rec [OF False] map_of_SomeD [OF that] declarations_of_declared [OF d(1)]
      by (auto simp: answers_declaration_def)
    with d(2) show ?thesis
      by (intro exI [of _ "dc_key d"] exI [of _ "tc_name (dc_call d)"] exI [of _ "tc_arguments (dc_call d)"]
          exI [of _ "map_option rc_executor (map_of R (dc_key d))"]) simp
  qed
  show "\<exists>a. call_seed k (rc_tool_name r) a (Some (rc_executor r)) \<in>
      set (filter (\<lambda>e. ev_kind e = TOOL_CALL) (map unnumbered (tl_events t)))" if kr: "(k, r) \<in> set R" for k r
  proof (cases "?turns = []")
    case True
    with kr show ?thesis unfolding calls by auto
  next
    case False
    from linked [OF False kr] obtain d where "d \<in> set (concat (declared_calls ?turns))" "dc_key d = k"
      "tc_name (dc_call d) = rc_tool_name r" by blast
    moreover have "map_of R k = Some r" using kr dist by simp
    ultimately show ?thesis unfolding calls using False by (auto simp: image_iff intro!: exI [of _ "tc_arguments (dc_call d)"] bexI [of _ d])
  qed
qed

lemma lookup_dict_of:
  assumes "(k, v) \<in> set ps" "\<And>v'. (k, v') \<in> set ps \<Longrightarrow> v' = v"
  shows "map_of (dict_of ps) k = Some v"
proof -
  have "k \<in> fst ` set (rev ps)" using assms(1) by force
  then obtain v' where v': "map_of (rev ps) k = Some v'"
    by (cases "map_of (rev ps) k") (simp_all add: map_of_eq_None_iff)
  from map_of_SomeD [OF v'] assms(2) v' show ?thesis by (simp add: map_of_dict_of)
qed

lemma lookup_dict_of_None: "(\<And>v. (k, v) \<notin> set ps) \<Longrightarrow> map_of (dict_of ps) k = None"
  by (auto simp: map_of_dict_of map_of_eq_None_iff)

text \<open>The agent's completed calls on a built timeline are the agent's records.\<close>

lemma agent_ran_recorded:
  assumes "build_trial_timeline ms recorded reason = Inr t" "recorded \<noteq> []"
  shows "agent_ran t tool P \<longleftrightarrow>
    (\<exists>r \<in> set recorded. rc_tool_name r = tool \<and> rc_executor r = Executor_AGENT \<and> P (rc_status r))"
proof -
  let ?R = "records_by_episode_key recorded"
  let ?pairs = "map (\<lambda>e. (ev_call_id e, ev_status e)) (filter (\<lambda>e. ev_kind e = TOOL_RESULT) (tl_events t))"
  note seeds = built_seeds [OF assms]
  have dist: "distinct (map fst ?R)" by simp
  have recs: "snd ` set ?R = set recorded" by (simp add: records_zip flip: set_map)
  have pairs: "(k, v) \<in> set ?pairs \<longleftrightarrow> (\<exists>i r. (i, r) \<in> set ?R \<and> k = Some i \<and> v = Some (rc_status r))" for k v
  proof -
    have "set ?pairs = (\<lambda>e. (ev_call_id e, ev_status e)) ` set (filter (\<lambda>e. ev_kind e = TOOL_RESULT) (map unnumbered (tl_events t)))"
      by (simp add: filter_map comp_def image_image del: set_filter)
    also have "\<dots> = (\<lambda>e. (ev_call_id e, ev_status e)) ` ((\<lambda>(i, r). result_seed i r) ` set ?R)"
    proof -
      have "{result_seed i r | i r. (i, r) \<in> set ?R} = (\<lambda>(i, r). result_seed i r) ` set ?R"
        by (auto intro!: image_eqI [where f = "\<lambda>(i, r). result_seed i r"])
      then show ?thesis by (simp only: seeds(1))
    qed
    also have "\<dots> = (\<lambda>(i, r). (Some i, Some (rc_status r))) ` set ?R" by (simp add: image_image case_prod_beta)
    finally have pairs: "set ?pairs = (\<lambda>(i, r). (Some i, Some (rc_status r))) ` set ?R" .
    show ?thesis unfolding pairs by (auto intro: rev_image_eqI)
  qed
  have status: "(case map_of (dict_of ?pairs) (Some i) of None \<Rightarrow> None | Some st \<Rightarrow> st) = map_option rc_status (map_of ?R i)" for i
  proof (cases "map_of ?R i")
    case None
    then have "(Some i, v) \<notin> set ?pairs" for v unfolding pairs by (auto simp: map_of_eq_None_iff image_iff)
    from lookup_dict_of_None [OF this] None show ?thesis by (simp only: option.case option.map)
  next
    case (Some r)
    have "(Some i, Some (rc_status r)) \<in> set ?pairs" unfolding pairs using map_of_SomeD [OF Some] by blast
    moreover have "v = Some (rc_status r)" if "(Some i, v) \<in> set ?pairs" for v
    proof -
      obtain r' where r': "(i, r') \<in> set ?R" "v = Some (rc_status r')" using \<open>(Some i, v) \<in> set ?pairs\<close> unfolding pairs by blast
      have "map_of ?R i = Some r'" using r'(1) dist by (rule map_of_is_SomeI [rotated])
      with Some r'(2) show ?thesis by simp
    qed
    ultimately have "map_of (dict_of ?pairs) (Some i) = Some (Some (rc_status r))" by (rule lookup_dict_of)
    with Some show ?thesis by (simp only: option.case option.map)
  qed
  have ran: "agent_ran t tool P \<longleftrightarrow> (\<exists>e \<in> set (filter (\<lambda>e. ev_kind e = TOOL_CALL) (map unnumbered (tl_events t))).
      (case ev_tool_name e of None \<Rightarrow> [] | Some k \<Rightarrow> k) = tool \<and> ev_executor e = Some Executor_AGENT \<and>
      (\<exists>st. (case map_of (dict_of ?pairs) (ev_call_id e) of None \<Rightarrow> None | Some st \<Rightarrow> st) = Some st \<and> P st))"
    by (simp add: agent_ran_def attempted_calls_def Let_def filter_map comp_def del: set_filter)
  show ?thesis
  proof
    assume "agent_ran t tool P"
    then obtain e st where e: "e \<in> set (filter (\<lambda>e. ev_kind e = TOOL_CALL) (map unnumbered (tl_events t)))"
      "(case ev_tool_name e of None \<Rightarrow> [] | Some k \<Rightarrow> k) = tool" "ev_executor e = Some Executor_AGENT"
      "(case map_of (dict_of ?pairs) (ev_call_id e) of None \<Rightarrow> None | Some st \<Rightarrow> st) = Some st" "P st"
      unfolding ran by blast
    from seeds(2) [OF e(1)] obtain k n a x where c: "e = call_seed k n a x"
      "\<And>r. map_of ?R k = Some r \<Longrightarrow> n = rc_tool_name r \<and> x = Some (rc_executor r)" by blast
    from e(4) c(1) status [of k] obtain r where r: "map_of ?R k = Some r" "st = rc_status r" by auto
    then have "r \<in> set recorded" using map_of_SomeD [OF r(1)] recs by force
    with c r e show "\<exists>r \<in> set recorded. rc_tool_name r = tool \<and> rc_executor r = Executor_AGENT \<and> P (rc_status r)"
      by (intro bexI [of _ r]) auto
  next
    assume "\<exists>r \<in> set recorded. rc_tool_name r = tool \<and> rc_executor r = Executor_AGENT \<and> P (rc_status r)"
    then obtain r where r: "r \<in> set recorded" "rc_tool_name r = tool" "rc_executor r = Executor_AGENT" "P (rc_status r)" by blast
    then obtain k where k: "(k, r) \<in> set ?R" using recs by force
    from seeds(3) [OF k] obtain a where a: "call_seed k (rc_tool_name r) a (Some (rc_executor r)) \<in>
        set (filter (\<lambda>e. ev_kind e = TOOL_CALL) (map unnumbered (tl_events t)))" by blast
    have "map_of ?R k = Some r" using k dist by simp
    with status [of k] r show "agent_ran t tool P" unfolding ran by (intro bexI [OF _ a]) simp
  qed
qed

lemma unrecorded_calls:
  assumes "build_trial_timeline ms [] reason = Inr t"
  shows "set (filter (\<lambda>e. ev_kind e = TOOL_CALL) (map unnumbered (tl_events t))) =
    (\<lambda>d. call_seed (dc_key d) (tc_name (dc_call d)) (tc_arguments (dc_call d)) None) ` set (concat (declared_calls (turns_of ms)))"
proof -
  have R: "records_by_episode_key [] = []" by simp
  from build_inversion [OF assms] obtain results where seeds: "map unnumbered (tl_events t) =
       (if turns_of ms \<noteq> [] then concat (map2 (turn_seeds [] results (user_tool_step_call_ids ms)) (turns_of ms) (declared_calls (turns_of ms)))
        else concat (map record_seeds (sort_key (\<lambda>(k, r). rc_sequence r) [])))"
    unfolding R by metis
  show ?thesis
  proof (cases "turns_of ms = []")
    case True
    then show ?thesis unfolding seeds by (simp add: declared_calls_def)
  next
    case False
    show ?thesis
      unfolding seeds if_P [OF False] view_seeds_of_kind [OF length_declared [symmetric] disjI1 [OF refl]] call_seeds_calls
      by auto
  qed
qed

lemma unrecorded_reads:
  assumes "build_trial_timeline ms [] reason = Inr t"
  shows "\<not> agent_ran t tool P"
    and "tool_known t tool \<longleftrightarrow> tool \<notin> tc_name ` set (concat (map calls_of (turns_of ms)))"
proof -
  have attempted: "(\<exists>c \<in> set (attempted_calls t). ac_tool_name c = tool \<and> Q (ac_executor c)) \<longleftrightarrow>
      Q None \<and> (\<exists>d \<in> set (concat (declared_calls (turns_of ms))). tc_name (dc_call d) = tool)" for Q
  proof -
    have "(\<exists>c \<in> set (attempted_calls t). ac_tool_name c = tool \<and> Q (ac_executor c)) \<longleftrightarrow>
        (\<exists>e \<in> set (filter (\<lambda>e. ev_kind e = TOOL_CALL) (map unnumbered (tl_events t))).
          (case ev_tool_name e of None \<Rightarrow> [] | Some k \<Rightarrow> k) = tool \<and> Q (ev_executor e))"
      by (simp add: attempted_calls_def Let_def filter_map comp_def del: set_filter)
    then show ?thesis unfolding unrecorded_calls [OF assms] by auto
  qed
  show "\<not> agent_ran t tool P"
    using attempted [of "\<lambda>x. x = Some Executor_AGENT"] by (auto simp: agent_ran_def)
  have "tl_records_present t = False"
    using assms by (auto simp: build_trial_timeline_def Let_def bind_res_eq_Inr_iff split: option.splits)
  moreover have "(\<exists>d \<in> set (concat (declared_calls (turns_of ms))). tc_name (dc_call d) = tool) \<longleftrightarrow>
      tool \<in> tc_name ` set (concat (map calls_of (turns_of ms)))"
    unfolding declared_call_list [symmetric] by (auto simp: image_iff)
  ultimately show "tool_known t tool \<longleftrightarrow> tool \<notin> tc_name ` set (concat (map calls_of (turns_of ms)))"
    using attempted [of "\<lambda>_. True"] by (auto simp: tool_known_def list_all_iff)
qed

lemma records_present_built:
  "build_trial_timeline ms recorded reason = Inr t \<Longrightarrow> recorded \<noteq> [] \<Longrightarrow> tool_known t tool"
  by (auto simp: tool_known_def build_trial_timeline_def Let_def bind_res_eq_Inr_iff split: option.splits)

text \<open>
  Tool expectations are judged on what ran.  On a timeline joined from a transcript and its
  tool-call record, a forbidden tool passes exactly when no record of the agent names it, at any
  status, and a required tool exactly when a successful record of the agent names it: a call the
  agent declared and that never ran, or that the user made, counts for neither.  Without any
  record a required tool fails and a forbidden one passes only if the transcript never names it.
\<close>

theorem tool_expectations_read_the_record:
  assumes "build_trial_timeline messages recorded reason = Inr t"
  shows "(trr_passed (check_disallowed_tool tool (attempted_calls t) (tl_records_present t)) \<longleftrightarrow>
      (if recorded \<noteq> [] then \<not> (\<exists>r \<in> set recorded. rc_tool_name r = tool \<and> rc_executor r = Executor_AGENT)
       else tool \<notin> tc_name ` set (concat (map calls_of (turns_of messages))))) \<and>
    (trr_passed (check_required_tool tool (attempted_calls t) (tl_records_present t)) \<longleftrightarrow>
      (\<exists>r \<in> set recorded. rc_tool_name r = tool \<and> rc_executor r = Executor_AGENT \<and> rc_status r = SUCCESS))"
proof (cases "recorded = []")
  case True
  with assms have "build_trial_timeline messages [] reason = Inr t" by simp
  from unrecorded_reads [OF this] True show ?thesis by simp
next
  case False
  then show ?thesis
    using records_present_built [OF assms False] agent_ran_recorded [OF assms False] by simp
qed

theorem tool_expectations_read_the_record_witness:
  "\<exists>t. build_trial_timeline demo_messages demo_records None = Inr t \<and>
     \<not> trr_passed (check_disallowed_tool ''get'' (attempted_calls t) (tl_records_present t)) \<and>
     trr_passed (check_required_tool ''get'' (attempted_calls t) (tl_records_present t))"
proof -
  obtain t where t: "build_trial_timeline demo_messages demo_records None = Inr t" using demo_builds by blast
  have "\<exists>r \<in> set demo_records. rc_tool_name r = ''get'' \<and> rc_executor r = Executor_AGENT \<and> rc_status r = SUCCESS"
    "demo_records \<noteq> []" by (simp_all add: demo_records_def)
  with tool_expectations_read_the_record [OF t, of "''get''"] t show ?thesis by auto
qed

end
