(* ===== verification/Trial_Record.thy ===== *)
theory Trial_Record
  imports Loop_Guards "HOL-Library.Multiset"
begin

text \<open>
  What a finished trial carries besides its transcript: the token and cost accounting of
  \<^verbatim>\<open>tolokaforge/core/llm/usage.py\<close>, the trial metrics and the \<^verbatim>\<open>Trajectory\<close> of
  \<^verbatim>\<open>tolokaforge/core/models/trajectory.py\<close>, the grade of \<^verbatim>\<open>models/grade.py\<close>, and from
  \<^verbatim>\<open>tolokaforge/core/runner.py\<close> the sink that adds up a generation's spend and the roll-up of the
  spend per role.
\<close>

section \<open>Usage\<close>

datatype UsageField =
    F_prompt_tokens | F_completion_tokens | F_reasoning_tokens | F_cached_tokens
  | F_cache_creation_input_tokens | F_cache_read_input_tokens

definition USAGE_FIELDS :: "UsageField list" where
  "USAGE_FIELDS = [F_prompt_tokens, F_completion_tokens, F_reasoning_tokens, F_cached_tokens,
     F_cache_creation_input_tokens, F_cache_read_input_tokens]"

text \<open>The token fields of a row, read as \<^verbatim>\<open>getattr(row, field)\<close>.\<close>

type_synonym token_counts = "UsageField \<Rightarrow> int"

definition no_tokens :: token_counts where
  "no_tokens = (\<lambda>_. 0)"

definition add_tokens :: "token_counts \<Rightarrow> token_counts \<Rightarrow> token_counts" where
  "add_tokens a b = (\<lambda>field. a field + b field)"

lemma token_rules [simp]:
  "no_tokens field = 0" "add_tokens a b field = a field + b field"
  "add_tokens no_tokens a = a" "add_tokens a no_tokens = a"
  by (simp_all add: no_tokens_def add_tokens_def)

record ProviderRawCall =
  pc_role :: pystr
  pc_model :: "pystr option"
  pc_tokens :: token_counts
  pc_cost_usd :: "pyfloat option"
  pc_latency_s :: pyfloat

record Usage =
  us_tokens :: token_counts
  us_calls :: "ProviderRawCall list"

definition no_usage :: Usage where
  "no_usage = \<lparr>us_tokens = no_tokens, us_calls = []\<rparr>"

definition usage_add :: "Usage \<Rightarrow> Usage \<Rightarrow> Usage" where
  "usage_add a b = \<lparr>us_tokens = add_tokens (us_tokens a) (us_tokens b), us_calls = us_calls a @ us_calls b\<rparr>"

section \<open>A trial's record\<close>

record CostByRoleMetrics =
  cbr_role :: pystr
  cbr_cost_usd :: pyfloat
  cbr_tokens :: token_counts

record CostByRoleModelMetrics =
  cbm_role :: pystr
  cbm_model :: "pystr option"
  cbm_cost_usd :: pyfloat
  cbm_tokens :: token_counts

record Metrics =
  mx_latency_total_s :: pyfloat
  mx_turns :: int
  mx_api_calls :: int
  mx_usage :: Usage
  mx_cost_usd :: "pyfloat option"
  mx_harness_stdout_dialect :: "pystr option"
  mx_harness_usage_source :: "pystr option"
  mx_tool_calls :: int
  mx_stuck_detected :: bool
  mx_cost_by_role :: "CostByRoleMetrics list"
  mx_cost_by_role_model :: "CostByRoleModelMetrics list"

record JudgeUsage =
  ju_prompt_tokens :: int
  ju_completion_tokens :: int
  ju_reasoning_tokens :: int
  ju_cost_usd :: pyfloat

datatype grade_reasons = Reasons_text pystr | Reasons_dict "(pystr, pystr list) dict"

record Grade =
  grd_binary_pass :: bool
  grd_score :: pyfloat
  grd_reasons :: grade_reasons
  grd_state_diff :: "(pystr, pyval) dict option"
  grd_judge_usage :: "JudgeUsage option"
  grd_synthesized :: "TerminationReason option"

record Trajectory = trial_ending +
  tj_task_id :: pystr
  tj_trial_index :: int
  tj_messages :: "Message list"
  tj_metrics :: Metrics
  tj_tool_log :: "RecordedToolCall list"
  tj_grade :: "Grade option"
  tj_grading_judge_usage :: "JudgeUsage option"
  tj_has_failure_evidence :: bool
  tj_provision_stage :: "pystr option"

text \<open>
  The validator of a trajectory; \<open>tj_has_failure_evidence\<close> says whether a snapshot, a diff or a
  comparison view was kept from a grading that failed.
\<close>

datatype trajectory_error = GradedAndUngradeable | EvidenceWithoutGradingError

definition reject_graded_and_ungradeable :: "Trajectory \<Rightarrow> trajectory_error option" where
  "reject_graded_and_ungradeable t =
     (if te_grading_error t \<noteq> None \<and> tj_grade t \<noteq> None then Some GradedAndUngradeable
      else if te_grading_error t = None \<and> (tj_grading_judge_usage t \<noteq> None \<or> tj_has_failure_evidence t)
        then Some EvidenceWithoutGradingError
      else None)"

section \<open>Adding up spend\<close>

text \<open>What the sink reads of a generation.\<close>

record generation_spend =
  gs_usage :: Usage
  gs_cost_usd :: "pyfloat option"

definition record_generation :: "generation_spend \<Rightarrow> Metrics \<Rightarrow> Metrics" where
  "record_generation g m =
     m\<lparr>mx_api_calls := mx_api_calls m + 1,
       mx_usage := usage_add (mx_usage m) (gs_usage g),
       mx_cost_usd := (case gs_cost_usd g of
          None \<Rightarrow> mx_cost_usd m
        | Some c \<Rightarrow> Some (case mx_cost_usd m of None \<Rightarrow> c | Some c0 \<Rightarrow> c0 + c))\<rparr>"

text \<open>
  The two dictionaries the roll-ups keep side by side, a cost and a row of tokens per key, as one;
  a key is set to zeros before it is first added to.
\<close>

type_synonym spend = "pyfloat \<times> token_counts"

definition spend_add :: "'k \<Rightarrow> pyfloat \<Rightarrow> token_counts \<Rightarrow> ('k, spend) dict \<Rightarrow> ('k, spend) dict" where
  "spend_add key cost tokens d =
     dict_set key (case map_of d key of None \<Rightarrow> (cost, tokens) | Some (c, ts) \<Rightarrow> (c + cost, add_tokens ts tokens)) d"

definition COST_ROLLUP_RESIDUAL_TOLERANCE_USD :: pyfloat where
  "COST_ROLLUP_RESIDUAL_TOLERANCE_USD = 1 / 10 ^ 9"

definition call_cost :: "ProviderRawCall \<Rightarrow> pyfloat" where
  "call_cost call = (case pc_cost_usd call of None \<Rightarrow> 0 | Some c \<Rightarrow> c)"

definition calls_cost :: "ProviderRawCall list \<Rightarrow> pyfloat" where
  "calls_cost calls = sum_list (map call_cost calls)"

definition calls_tokens :: "ProviderRawCall list \<Rightarrow> token_counts" where
  "calls_tokens calls = (\<lambda>field. sum_list (map (\<lambda>call. pc_tokens call field) calls))"

definition spend_by_pair :: "ProviderRawCall list \<Rightarrow> (pystr \<times> pystr option, spend) dict" where
  "spend_by_pair calls =
     fold (\<lambda>call. spend_add (pc_role call, pc_model call) (call_cost call) (pc_tokens call)) calls []"

definition with_residual ::
    "pystr option \<Rightarrow> Metrics \<Rightarrow> (pystr \<times> pystr option, spend) dict \<Rightarrow> (pystr \<times> pystr option, spend) dict" where
  "with_residual agent_model m pairs =
     (case mx_cost_usd m of
        None \<Rightarrow> pairs
      | Some cost \<Rightarrow>
          let calls = us_calls (mx_usage m); residual = cost - calls_cost calls in
          if abs residual > COST_ROLLUP_RESIDUAL_TOLERANCE_USD
          then spend_add (''agent'', agent_model) residual
                 (\<lambda>field. us_tokens (mx_usage m) field - calls_tokens calls field) pairs
          else pairs)"

definition spend_by_role :: "(pystr \<times> pystr option, spend) dict \<Rightarrow> (pystr, spend) dict" where
  "spend_by_role pairs = fold (\<lambda>((role, _), cost, tokens). spend_add role cost tokens) pairs []"

text \<open>\<open>agent_model\<close> is the model name of the agent's client, when it has one that is text.\<close>

definition apply_cost_rollup :: "pystr option \<Rightarrow> Metrics \<Rightarrow> Metrics" where
  "apply_cost_rollup agent_model m =
     (let pairs = with_residual agent_model m (spend_by_pair (us_calls (mx_usage m))) in
      m\<lparr>mx_cost_by_role_model :=
          map (\<lambda>((role, model), cost, tokens).
                 \<lparr>cbm_role = role, cbm_model = model, cbm_cost_usd = cost, cbm_tokens = tokens\<rparr>)
            (sort_key (\<lambda>p. fst (fst p))
              (sort_key (\<lambda>p. case snd (fst p) of None \<Rightarrow> [] | Some model \<Rightarrow> model) pairs)),
        mx_cost_by_role :=
          map (\<lambda>(role, cost, tokens). \<lparr>cbr_role = role, cbr_cost_usd = cost, cbr_tokens = tokens\<rparr>)
            (sort_key fst (spend_by_role pairs))\<rparr>)"

section \<open>What a roll-up sums to\<close>

definition spend_cost :: "('k, spend) dict \<Rightarrow> pyfloat" where
  "spend_cost d = sum_list (map (\<lambda>p. fst (snd p)) d)"

definition spend_tokens :: "('k, spend) dict \<Rightarrow> UsageField \<Rightarrow> int" where
  "spend_tokens d field = sum_list (map (\<lambda>p. snd (snd p) field) d)"

lemma spend_Nil [simp]: "spend_cost [] = 0" "spend_tokens [] field = 0"
  by (simp_all add: spend_cost_def spend_tokens_def)

lemma spend_add_sums [simp]:
  "spend_cost (spend_add key cost tokens d) = spend_cost d + cost"
  "spend_tokens (spend_add key cost tokens d) field = spend_tokens d field + tokens field"
  by (induction d) (auto simp: spend_add_def spend_cost_def spend_tokens_def split: option.splits)

lemma fold_spend_sums:
  "spend_cost (fold (\<lambda>x. spend_add (k x) (c x) (t x)) xs d) = spend_cost d + sum_list (map c xs)"
  "spend_tokens (fold (\<lambda>x. spend_add (k x) (c x) (t x)) xs d) field =
     spend_tokens d field + sum_list (map (\<lambda>x. t x field) xs)"
  by (induction xs arbitrary: d) simp_all

lemma spend_by_pair_sums [simp]:
  "spend_cost (spend_by_pair calls) = calls_cost calls"
  "spend_tokens (spend_by_pair calls) field = calls_tokens calls field"
  by (simp_all add: spend_by_pair_def fold_spend_sums calls_cost_def calls_tokens_def)

lemma spend_by_role_sums [simp]:
  "spend_cost (spend_by_role pairs) = spend_cost pairs" "spend_tokens (spend_by_role pairs) field = spend_tokens pairs field"
  using fold_spend_sums [of "\<lambda>p. fst (fst p)" "\<lambda>p. fst (snd p)" "\<lambda>p. snd (snd p)" pairs "[]"]
  by (simp_all add: spend_by_role_def case_prod_beta' spend_cost_def spend_tokens_def)

lemma sum_list_sort_key: "sum_list (map f (sort_key k xs)) = sum_list (map (f :: _ \<Rightarrow> 'a :: comm_monoid_add) xs)"
  by (metis mset_map mset_sort sum_mset_sum_list)

definition rolled_up_cost :: "Metrics \<Rightarrow> pyfloat" where
  "rolled_up_cost m = sum_list (map cbr_cost_usd (mx_cost_by_role m))"

lemma rolled_up_rows:
  "rolled_up_cost (apply_cost_rollup agent_model m) =
     spend_cost (with_residual agent_model m (spend_by_pair (us_calls (mx_usage m))))"
proof -
  let ?pairs = "with_residual agent_model m (spend_by_pair (us_calls (mx_usage m)))"
  have "rolled_up_cost (apply_cost_rollup agent_model m) = sum_list (map (\<lambda>p. fst (snd p)) (sort_key fst (spend_by_role ?pairs)))"
    by (simp add: rolled_up_cost_def apply_cost_rollup_def Let_def comp_def case_prod_beta')
  also have "\<dots> = spend_cost (spend_by_role ?pairs)" by (simp add: sum_list_sort_key spend_cost_def)
  finally show ?thesis by simp
qed

lemma rollup_cost:
  "rolled_up_cost (apply_cost_rollup agent_model m) =
     (case mx_cost_usd m of
        None \<Rightarrow> calls_cost (us_calls (mx_usage m))
      | Some cost \<Rightarrow>
          if abs (cost - calls_cost (us_calls (mx_usage m))) > COST_ROLLUP_RESIDUAL_TOLERANCE_USD then cost
          else calls_cost (us_calls (mx_usage m)))"
  by (simp add: rolled_up_rows with_residual_def Let_def split: option.split)

text \<open>
  The spend per role accounts for the spend of the trial.  For a trial with a known cost the rows of
  \<^verbatim>\<open>cost_by_role\<close> add up to it to within the roll-up's tolerance, and exactly where a residual was moved to the
  agent; for a trial without one they are the costs of its calls.
\<close>

theorem roles_account_for_the_cost:
  "case mx_cost_usd m of
     None \<Rightarrow> rolled_up_cost (apply_cost_rollup agent_model m) = calls_cost (us_calls (mx_usage m))
   | Some cost \<Rightarrow> abs (rolled_up_cost (apply_cost_rollup agent_model m) - cost) \<le> COST_ROLLUP_RESIDUAL_TOLERANCE_USD"
  by (auto simp: rollup_cost COST_ROLLUP_RESIDUAL_TOLERANCE_USD_def abs_minus_commute split: option.split)

section \<open>A trial of the loop has no residual\<close>

definition priced_by_its_calls :: "generation_spend \<Rightarrow> bool" where
  "priced_by_its_calls g \<longleftrightarrow>
     (case gs_cost_usd g of None \<Rightarrow> calls_cost (us_calls (gs_usage g)) = 0 | Some c \<Rightarrow> c = calls_cost (us_calls (gs_usage g)))"

definition tallied :: "Metrics \<Rightarrow> bool" where
  "tallied m \<longleftrightarrow>
     calls_cost (us_calls (mx_usage m)) = (case mx_cost_usd m of None \<Rightarrow> 0 | Some c \<Rightarrow> c)"

lemma calls_cost_append [simp]: "calls_cost (xs @ ys) = calls_cost xs + calls_cost ys"
  by (simp add: calls_cost_def)

lemma record_generation_tallied: "tallied m \<Longrightarrow> priced_by_its_calls g \<Longrightarrow> tallied (record_generation g m)"
  by (auto simp: tallied_def priced_by_its_calls_def record_generation_def usage_add_def split: option.splits)

lemma generations_tallied: "tallied m \<Longrightarrow> list_all priced_by_its_calls gs \<Longrightarrow> tallied (fold record_generation gs m)"
  by (induction gs arbitrary: m) (simp_all add: record_generation_tallied)

lemma tallied_rollup:
  "tallied m \<Longrightarrow> rolled_up_cost (apply_cost_rollup agent_model m) = (case mx_cost_usd m of None \<Rightarrow> 0 | Some c \<Rightarrow> c)"
  by (simp add: rollup_cost tallied_def COST_ROLLUP_RESIDUAL_TOLERANCE_USD_def split: option.splits)

end
