(* ===== verification/Failure_Attribution.thy ===== *)
theory Failure_Attribution
  imports Trial_Record
begin

text \<open>
  \<^verbatim>\<open>tolokaforge/core/failure_attribution.py\<close> beyond the outcome class: which cause a failed trial is
  attributed to, on what evidence, and the summary over a run.  Evidence is kept as a value per
  kind; the connection-error pattern is an alternation of literals read without regard to case.
\<close>

section \<open>Causes\<close>

datatype FailureClass =
    FC_tool_arguments | FC_tool_execution | FC_grader_contract | FC_grading_failure | FC_infrastructure
  | FC_timeout_or_resource | FC_provision_failure | FC_harness_autofail | FC_model_reasoning

definition DETERMINISTIC_CLASSES :: "FailureClass list" where
  "DETERMINISTIC_CLASSES =
     [FC_tool_arguments, FC_tool_execution, FC_grader_contract, FC_grading_failure, FC_infrastructure,
      FC_timeout_or_resource, FC_provision_failure]"

datatype evidence =
    Ev_grading_error pystr
  | Ev_termination_reason TerminationReason TrialStatus
  | Ev_synthesized_grade TerminationReason
  | Ev_tool_log (ev_tool: pystr) (ev_index: nat) pystr
  | Ev_state_diff "pystr list"
  | Ev_grade_reasons "pystr list"
  | Ev_connection_errors nat
  | Ev_grade_fail_patterns "pystr list"
  | Ev_missing_write_file

definition CONNECTION_ERRORS :: "pystr list" where
  "CONNECTION_ERRORS = [''ERR_CONNECTION_REFUSED'', ''ECONNREFUSED'', ''Connection refused'', ''net::ERR_'']"

definition connection_error_in :: "pystr \<Rightarrow> bool" where
  "connection_error_in content = list_ex (\<lambda>p. substring (lower_str p) (lower_str content)) CONNECTION_ERRORS"

definition is_failed_trajectory :: "Trajectory \<Rightarrow> bool" where
  "is_failed_trajectory t =
     (if te_status t \<in> {Status_ERROR, Status_TIMEOUT, Status_FAILED} then True
      else case tj_grade t of None \<Rightarrow> True | Some g \<Rightarrow> \<not> grd_binary_pass g)"

definition RESOURCE_REASONS :: "TerminationReason list" where
  "RESOURCE_REASONS =
     [Reason_TIMEOUT, TRIAL_TOKEN_BUDGET, RATE_LIMIT, API_ERROR, PROVIDER_REFUSED_ALL_REQUESTS, EMPTY_COMPLETION,
      REASONING_WITHOUT_ACTION, CONTEXT_WINDOW_EXCEEDED, Reason_ERROR]"

section \<open>The scan\<close>

type_synonym attributed = "FailureClass \<times> bool \<times> evidence list"

text \<open>The loop over the tool log: the first call that neither succeeded nor was refused decides.\<close>

fun scan_tool_log :: "nat \<Rightarrow> RecordedToolCall list \<Rightarrow> attributed" where
  "scan_tool_log idx [] = (FC_model_reasoning, False, [])"
| "scan_tool_log idx (call # calls) =
     (if rc_status call \<in> {SUCCESS, TOOL_ERROR} then scan_tool_log (Suc idx) calls
      else (if substring ''invalid arguments'' (lower_str (rc_output call)) \<or>
               substring ''validation'' (lower_str (rc_output call))
            then FC_tool_arguments else FC_tool_execution,
            True, [Ev_tool_log (rc_tool_name call) idx (rc_output call)]))"

definition sorted_keys :: "(pystr, 'v) dict \<Rightarrow> pystr list" where
  "sorted_keys d = sort (map fst d)"

definition read_grade :: "Grade option \<Rightarrow> attributed \<Rightarrow> attributed" where
  "read_grade grade a =
     (case (a, grade) of
        ((c, False, ev), Some g) \<Rightarrow>
          (case grd_state_diff g of
             Some (d # ds) \<Rightarrow> (FC_grader_contract, True, ev @ [Ev_state_diff (sorted_keys (d # ds))])
           | _ \<Rightarrow>
               (case grd_reasons g of
                  Reasons_dict (d # ds) \<Rightarrow> (FC_grader_contract, True, ev @ [Ev_grade_reasons (sorted_keys (d # ds))])
                | _ \<Rightarrow> a))
      | _ \<Rightarrow> a)"

definition read_messages :: "Message list \<Rightarrow> attributed \<Rightarrow> attributed" where
  "read_messages messages a =
     (case a of (c, deterministic, ev) \<Rightarrow>
        let connection_errors = length (filter (\<lambda>m. m_content m \<noteq> [] \<and> connection_error_in (m_content m)) messages) in
        if \<not> deterministic \<and> connection_errors > 0
        then (FC_infrastructure, True, ev @ [Ev_connection_errors connection_errors])
        else a)"

fun split_bar :: "pystr \<Rightarrow> pystr list" where
  "split_bar [] = [[]]"
| "split_bar (c # cs) =
     (if c = CHR ''|'' then [] # split_bar cs
      else case split_bar cs of [] \<Rightarrow> [[c]] | w # ws \<Rightarrow> (c # w) # ws)"

definition strip_space :: "pystr \<Rightarrow> pystr" where
  "strip_space s = rev (dropWhile is_space (rev (dropWhile is_space s)))"

text \<open>\<^verbatim>\<open>"FAIL" in r.upper()\<close>, read on the lower case of both.\<close>

definition fail_patterns :: "pystr \<Rightarrow> pystr list" where
  "fail_patterns reasons = map strip_space (filter (\<lambda>r. substring ''fail'' (lower_str r)) (split_bar reasons))"

definition grade_text :: "Grade option \<Rightarrow> pystr option" where
  "grade_text grade =
     (case grade of Some g \<Rightarrow> (case grd_reasons g of Reasons_text s \<Rightarrow> Some s | Reasons_dict _ \<Rightarrow> None) | None \<Rightarrow> None)"

definition read_fail_patterns :: "Grade option \<Rightarrow> attributed \<Rightarrow> attributed" where
  "read_fail_patterns grade a =
     (case (a, grade_text grade) of
        ((c, deterministic, []), Some reasons) \<Rightarrow>
          if fail_patterns reasons \<noteq> [] then (c, deterministic, [Ev_grade_fail_patterns (take 5 (fail_patterns reasons))])
          else a
      | _ \<Rightarrow> a)"

definition read_missing_tool :: "Grade option \<Rightarrow> RecordedToolCall list \<Rightarrow> attributed \<Rightarrow> attributed" where
  "read_missing_tool grade tool_log a =
     (case (a, grade_text grade) of
        ((c, deterministic, ev), Some reasons) \<Rightarrow>
          if substring ''No files match'' reasons \<and> ''write_file'' \<notin> set (map rc_tool_name tool_log)
          then (c, deterministic, ev @ [Ev_missing_write_file]) else a
      | _ \<Rightarrow> a)"

definition synthesized_reason :: "Trajectory \<Rightarrow> TerminationReason option" where
  "synthesized_reason t = (case tj_grade t of None \<Rightarrow> None | Some g \<Rightarrow> grd_synthesized g)"

text \<open>The branch of \<^verbatim>\<open>attribute_failure\<close> that no error, reason or synthesised grade decides.\<close>

definition scanned_cause :: "Trajectory \<Rightarrow> attributed" where
  "scanned_cause t =
     read_missing_tool (tj_grade t) (tj_tool_log t)
       (read_fail_patterns (tj_grade t)
         (read_messages (tj_messages t) (read_grade (tj_grade t) (scan_tool_log 0 (tj_tool_log t)))))"

definition attribute_cause :: "Trajectory \<Rightarrow> attributed" where
  "attribute_cause t =
     (case te_grading_error t of
        Some e \<Rightarrow> (FC_grading_failure, True, [Ev_grading_error e])
      | None \<Rightarrow>
          (case te_termination_reason t of
             Some PROVISION_ERROR \<Rightarrow> (FC_provision_failure, True, [Ev_termination_reason PROVISION_ERROR (te_status t)])
           | Some TRIAL_LOST \<Rightarrow> (FC_infrastructure, True, [Ev_termination_reason TRIAL_LOST (te_status t)])
           | reason \<Rightarrow>
               if reason \<in> Some ` set RESOURCE_REASONS
               then (FC_timeout_or_resource, True, [Ev_termination_reason (the reason) (te_status t)])
               else (case synthesized_reason t of
                       Some r \<Rightarrow> (FC_harness_autofail, True, [Ev_synthesized_grade r])
                     | None \<Rightarrow> scanned_cause t)))"

record Attribution =
  at_task_id :: pystr
  at_trial_index :: int
  at_status :: TrialStatus
  at_termination_reason :: "TerminationReason option"
  at_provision_stage :: "pystr option"
  at_outcome_class :: TrialOutcomeClass
  at_failure_class :: FailureClass
  at_deterministic :: bool
  at_confidence :: pyfloat
  at_evidence :: "evidence list"
  at_synthesized :: "TerminationReason option"

definition attribute_failure :: "Trajectory \<Rightarrow> Attribution" where
  "attribute_failure t =
     (case attribute_cause t of (failure_class, deterministic, evidence) \<Rightarrow>
        \<lparr>at_task_id = tj_task_id t, at_trial_index = tj_trial_index t, at_status = te_status t,
         at_termination_reason = te_termination_reason t, at_provision_stage = tj_provision_stage t,
         at_outcome_class = classify_trial_outcome t, at_failure_class = failure_class,
         at_deterministic = deterministic, at_confidence = (if deterministic then 1 else 1 / 2),
         at_evidence = evidence, at_synthesized = synthesized_reason t\<rparr>)"

section \<open>The summary of a run\<close>

text \<open>\<^verbatim>\<open>collections.Counter\<close>: counts in the order the keys were first met.\<close>

definition counter_add :: "'k \<Rightarrow> nat \<Rightarrow> ('k, nat) dict \<Rightarrow> ('k, nat) dict" where
  "counter_add key n d = dict_set key ((case map_of d key of None \<Rightarrow> 0 | Some m \<Rightarrow> m) + n) d"

definition counter :: "'k list \<Rightarrow> ('k, nat) dict" where
  "counter keys = fold (\<lambda>key. counter_add key 1) keys []"

definition evidence_tools :: "evidence list \<Rightarrow> pystr list" where
  "evidence_tools evs =
     concat (map (\<lambda>e. case e of
        Ev_tool_log tool _ _ \<Rightarrow> if tool = [] then [] else [tool]
      | Ev_missing_write_file \<Rightarrow> [''write_file'']
      | _ \<Rightarrow> []) evs)"

record AttributionSummary =
  as_total_failed_attempts :: nat
  as_coverage :: "pyfloat option"
  as_by_failure_class :: "(FailureClass, nat) dict"
  as_by_outcome_class :: "(TrialOutcomeClass, nat) dict"
  as_by_tool :: "(pystr, nat) dict"

definition summarize_failure_attributions :: "Attribution list \<Rightarrow> AttributionSummary" where
  "summarize_failure_attributions attributions =
     \<lparr>as_total_failed_attempts = length attributions,
      as_coverage = (if attributions = [] then None
         else Some (of_nat (length (filter at_deterministic attributions)) / of_nat (length attributions))),
      as_by_failure_class = counter (map at_failure_class attributions),
      as_by_outcome_class = counter (map at_outcome_class attributions),
      as_by_tool = counter (concat (map (\<lambda>a. evidence_tools (at_evidence a)) attributions))\<rparr>"

section \<open>Counting\<close>

lemma counter_add_sum: "sum_list (map snd (counter_add key n d)) = sum_list (map snd d) + n"
  by (induction d) (auto simp: counter_add_def split: option.splits)

lemma counter_fold_sum: "sum_list (map snd (fold (\<lambda>key. counter_add key 1) keys d)) = sum_list (map snd d) + length keys"
  by (induction keys arbitrary: d) (simp_all add: counter_add_sum)

lemma counter_sum [simp]: "sum_list (map snd (counter keys)) = length keys"
  using counter_fold_sum [of keys "[]"] by (simp add: counter_def)

lemma counter_fold_lookup:
  "(case map_of (fold (\<lambda>key. counter_add key 1) keys d) key of None \<Rightarrow> 0 | Some n \<Rightarrow> n) =
     (case map_of d key of None \<Rightarrow> 0 | Some n \<Rightarrow> n) + count_list keys key"
  by (induction keys arbitrary: d) (auto simp: counter_add_def)

lemma counter_lookup: "(case map_of (counter keys) key of None \<Rightarrow> 0 | Some n \<Rightarrow> n) = count_list keys key"
  using counter_fold_lookup [of keys "[]" key] by (simp add: counter_def)

lemma counter_keys_fold: "fst ` set (fold (\<lambda>key. counter_add key 1) keys d) = fst ` set d \<union> set keys"
  by (induction keys arbitrary: d) (auto simp: counter_add_def)

lemma counter_keys: "fst ` set (counter keys) = set keys"
  using counter_keys_fold [of keys "[]"] by (simp add: counter_def)

lemma counter_distinct_fold:
  "distinct (map fst d) \<Longrightarrow> distinct (map fst (fold (\<lambda>key. counter_add key 1) keys d))"
  by (induction keys arbitrary: d) (simp_all add: counter_add_def distinct_dict_set)

lemma counter_distinct [simp]: "distinct (map fst (counter keys))"
  using counter_distinct_fold [of "[]" keys] by (simp add: counter_def)

section \<open>Whom a failure is blamed on\<close>

definition ran_clean :: "RecordedToolCall \<Rightarrow> bool" where
  "ran_clean call \<longleftrightarrow> rc_status call \<in> {SUCCESS, TOOL_ERROR}"

definition contract_evidence :: "Grade option \<Rightarrow> bool" where
  "contract_evidence grade \<longleftrightarrow>
     (case grade of
        None \<Rightarrow> False
      | Some g \<Rightarrow> grd_state_diff g \<notin> {None, Some []} \<or> (\<exists>d. grd_reasons g = Reasons_dict d \<and> d \<noteq> []))"

definition reports_connection_error :: "Message list \<Rightarrow> bool" where
  "reports_connection_error messages \<longleftrightarrow> list_ex (\<lambda>m. m_content m \<noteq> [] \<and> connection_error_in (m_content m)) messages"

text \<open>A cause as the scan leaves it: the model is the cause exactly when none was determined.\<close>

definition sound_cause :: "attributed \<Rightarrow> bool" where
  "sound_cause a \<longleftrightarrow> (case a of (c, deterministic, ev) \<Rightarrow>
     deterministic = (c \<noteq> FC_model_reasoning) \<and> (deterministic \<longrightarrow> ev \<noteq> []))"

lemma scan_sound: "sound_cause (scan_tool_log idx calls)"
  by (induction calls arbitrary: idx) (simp_all add: sound_cause_def)

lemma scan_blames: "fst (scan_tool_log idx calls) = FC_model_reasoning \<longleftrightarrow> list_all ran_clean calls"
  by (induction calls arbitrary: idx) (simp_all add: ran_clean_def)

lemma read_grade_sound: "sound_cause a \<Longrightarrow> sound_cause (read_grade grade a)"
  by (auto simp: sound_cause_def read_grade_def split: prod.splits option.splits bool.splits list.splits grade_reasons.splits)

lemma read_grade_blames:
  "sound_cause a \<Longrightarrow>
   fst (read_grade grade a) = FC_model_reasoning \<longleftrightarrow> fst a = FC_model_reasoning \<and> \<not> contract_evidence grade"
  by (auto simp: sound_cause_def read_grade_def contract_evidence_def
      split: prod.splits option.splits bool.splits list.splits grade_reasons.splits)

lemma read_messages_sound: "sound_cause a \<Longrightarrow> sound_cause (read_messages messages a)"
  by (auto simp: sound_cause_def read_messages_def Let_def split: if_splits)

lemma read_messages_blames:
  "sound_cause a \<Longrightarrow>
   fst (read_messages messages a) = FC_model_reasoning \<longleftrightarrow> fst a = FC_model_reasoning \<and> \<not> reports_connection_error messages"
  by (auto simp: sound_cause_def read_messages_def reports_connection_error_def list_ex_iff filter_empty_conv Let_def split: if_splits)

lemma read_fail_patterns_keeps [simp]:
  "fst (read_fail_patterns grade a) = fst a" "fst (snd (read_fail_patterns grade a)) = fst (snd a)"
  "sound_cause a \<Longrightarrow> sound_cause (read_fail_patterns grade a)"
  by (auto simp: sound_cause_def read_fail_patterns_def split: prod.splits option.splits list.splits)

lemma read_missing_tool_keeps [simp]:
  "fst (read_missing_tool grade calls a) = fst a"
  "sound_cause a \<Longrightarrow> sound_cause (read_missing_tool grade calls a)"
  by (auto simp: sound_cause_def read_missing_tool_def split: prod.splits option.splits)

lemma scanned_cause_rules:
  "sound_cause (scanned_cause t)"
  "fst (scanned_cause t) = FC_model_reasoning \<longleftrightarrow>
     list_all ran_clean (tj_tool_log t) \<and> \<not> contract_evidence (tj_grade t) \<and> \<not> reports_connection_error (tj_messages t)"
  by (simp_all add: scanned_cause_def scan_sound scan_blames read_grade_sound read_grade_blames read_messages_sound
      read_messages_blames)

lemma attribute_cause_rules:
  "sound_cause (attribute_cause t)"
  "fst (attribute_cause t) = FC_model_reasoning \<longleftrightarrow>
     te_grading_error t = None \<and> te_termination_reason t \<notin> Some ` ({PROVISION_ERROR, TRIAL_LOST} \<union> set RESOURCE_REASONS) \<and>
     synthesized_reason t = None \<and> list_all ran_clean (tj_tool_log t) \<and> \<not> contract_evidence (tj_grade t) \<and>
     \<not> reports_connection_error (tj_messages t)"
proof -
  have "sound_cause (attribute_cause t) \<and> (fst (attribute_cause t) = FC_model_reasoning \<longleftrightarrow>
     te_grading_error t = None \<and> te_termination_reason t \<notin> Some ` ({PROVISION_ERROR, TRIAL_LOST} \<union> set RESOURCE_REASONS) \<and>
     synthesized_reason t = None \<and> fst (scanned_cause t) = FC_model_reasoning)"
  proof (cases "te_termination_reason t")
    case None
    then show ?thesis
      by (cases "te_grading_error t"; cases "synthesized_reason t")
        (simp_all add: attribute_cause_def scanned_cause_rules(1), simp_all add: sound_cause_def)
  next
    case (Some r)
    then show ?thesis
      by (cases r; cases "te_grading_error t"; cases "synthesized_reason t")
        (simp_all add: attribute_cause_def RESOURCE_REASONS_def scanned_cause_rules(1) sound_cause_def [of "(_, _)"])
  qed
  then show "sound_cause (attribute_cause t)" "fst (attribute_cause t) = FC_model_reasoning \<longleftrightarrow>
     te_grading_error t = None \<and> te_termination_reason t \<notin> Some ` ({PROVISION_ERROR, TRIAL_LOST} \<union> set RESOURCE_REASONS) \<and>
     synthesized_reason t = None \<and> list_all ran_clean (tj_tool_log t) \<and> \<not> contract_evidence (tj_grade t) \<and>
     \<not> reports_connection_error (tj_messages t)"
    by (simp_all only: scanned_cause_rules(2) simp_thms)
qed

lemma attribute_failure_reads [simp]:
  "at_failure_class (attribute_failure t) = fst (attribute_cause t)"
  "at_deterministic (attribute_failure t) = fst (snd (attribute_cause t))"
  "at_evidence (attribute_failure t) = snd (snd (attribute_cause t))"
  "at_outcome_class (attribute_failure t) = classify_trial_outcome t"
  by (simp_all add: attribute_failure_def case_prod_beta)

text \<open>
  Property C35.  The model is blamed exactly when nothing else explains the failure: grading gave a verdict, the
  termination reason names no resource, provision or lost trial, the grade was not synthesised, every tool call
  succeeded or was refused, the grade holds no diff or structured reasons, and no message reports a refused
  connection.  Every other cause is marked deterministic and carries its evidence.
\<close>

theorem model_blamed_iff_nothing_else_explains:
  "(at_failure_class (attribute_failure t) = FC_model_reasoning \<longleftrightarrow>
      te_grading_error t = None \<and> te_termination_reason t \<notin> Some ` ({PROVISION_ERROR, TRIAL_LOST} \<union> set RESOURCE_REASONS) \<and>
      synthesized_reason t = None \<and> list_all ran_clean (tj_tool_log t) \<and> \<not> contract_evidence (tj_grade t) \<and>
      \<not> reports_connection_error (tj_messages t)) \<and>
   at_deterministic (attribute_failure t) = (at_failure_class (attribute_failure t) \<noteq> FC_model_reasoning) \<and>
   \<not> (at_deterministic (attribute_failure t) \<and> at_evidence (attribute_failure t) = [])"
  using attribute_cause_rules(1) [of t] unfolding attribute_failure_reads attribute_cause_rules(2)
  by (auto simp: sound_cause_def case_prod_beta attribute_cause_rules(2))

definition timed_out_trial :: Trajectory where
  "timed_out_trial =
     \<lparr>te_status = Status_ERROR, te_termination_reason = Some API_TIMEOUT, te_grading_error = None,
      tj_task_id = ''task'', tj_trial_index = 0, tj_messages = [],
      tj_metrics = \<lparr>mx_latency_total_s = 60, mx_turns = 0, mx_api_calls = 0, mx_usage = no_usage, mx_cost_usd = None,
        mx_harness_stdout_dialect = None, mx_harness_usage_source = None, mx_tool_calls = 0, mx_stuck_detected = False,
        mx_cost_by_role = [], mx_cost_by_role_model = []\<rparr>,
      tj_tool_log = [], tj_grade = None, tj_grading_judge_usage = None, tj_has_failure_evidence = False,
      tj_provision_stage = None\<rparr>"

text \<open>
  Property C21.  Of the trials left out of the measured ones only an API timeout can be blamed on the model: every other
  excluded reason is attributed to its own cause.  The witness is a trial the provider's timeout killed before the agent
  spoke, excluded as never having happened and still attributed to the model's reasoning.
\<close>

theorem aborted_trial_blamed_only_for_api_timeout:
  assumes "at_outcome_class (attribute_failure t) = INFRASTRUCTURE_ABORT"
    and "at_failure_class (attribute_failure t) = FC_model_reasoning"
  shows "te_termination_reason t = Some API_TIMEOUT"
proof -
  have "te_termination_reason t \<in> Some ` set EXCLUDED_TYPED_REASONS"
    using assms(1) by (auto simp: classify_trial_outcome_def split: if_splits)
  moreover have "te_termination_reason t \<notin> Some ` ({PROVISION_ERROR, TRIAL_LOST} \<union> set RESOURCE_REASONS)"
    using assms(2) unfolding attribute_failure_reads attribute_cause_rules(2) by simp
  ultimately show ?thesis by (auto simp: EXCLUDED_TYPED_REASONS_def RESOURCE_REASONS_def)
qed

theorem aborted_trial_blamed_only_for_api_timeout_witness:
  "at_outcome_class (attribute_failure timed_out_trial) = INFRASTRUCTURE_ABORT \<and>
   at_failure_class (attribute_failure timed_out_trial) = FC_model_reasoning \<and>
   te_termination_reason timed_out_trial = Some API_TIMEOUT"
proof -
  have "at_outcome_class (attribute_failure timed_out_trial) = INFRASTRUCTURE_ABORT"
    "at_failure_class (attribute_failure timed_out_trial) = FC_model_reasoning" by code_simp+
  then show ?thesis using aborted_trial_blamed_only_for_api_timeout by blast
qed

lemma summary_accounts_for_every_failure:
  "sum_list (map snd (as_by_failure_class (summarize_failure_attributions attributions))) = length attributions"
  "sum_list (map snd (as_by_outcome_class (summarize_failure_attributions attributions))) = length attributions"
  by (simp_all add: summarize_failure_attributions_def)

end
