(* ===== verification/Run_Metrics.thy ===== *)
theory Run_Metrics
  imports Failure_Attribution
begin

text \<open>
  \<^verbatim>\<open>tolokaforge/core/metrics.py\<close>: the partition of a task's trials by outcome, pass@k, the averages over
  the measured trials, the spend over all of them, and their aggregation over a run.  The dictionaries
  of figures are records with one field per key; a key that may be absent is an option.
\<close>

section \<open>Outcomes\<close>

fun trial_status_value :: "TrialStatus \<Rightarrow> pystr" where
  "trial_status_value Status_COMPLETED = ''completed''"
| "trial_status_value Status_FAILED = ''failed''"
| "trial_status_value Status_TIMEOUT = ''timeout''"
| "trial_status_value Status_ERROR = ''error''"

record OutcomeCount =
  oc_class :: TrialOutcomeClass
  oc_count :: nat

record TrialOutcomePartition =
  pt_total_trials :: nat
  pt_measured :: "Trajectory list"
  pt_outcomes_by_reason :: "(pystr, OutcomeCount) dict"
  pt_infrastructure_aborts :: "(pystr, nat) dict"
  pt_harness_errors :: nat
  pt_ungradeable :: nat

definition outcome_key :: "Trajectory \<Rightarrow> TrialOutcomeClass \<Rightarrow> pystr" where
  "outcome_key t outcome =
     (let key = (case te_termination_reason t of
           Some reason \<Rightarrow> reason_value reason | None \<Rightarrow> ''unset_'' @ trial_status_value (te_status t))
      in if outcome = UNGRADEABLE then ''ungradeable_'' @ key else key)"

definition counter_get :: "('k, nat) dict \<Rightarrow> 'k \<Rightarrow> nat" where
  "counter_get d key = (case map_of d key of None \<Rightarrow> 0 | Some n \<Rightarrow> n)"

definition excluded_sorted :: "TerminationReason list" where
  "excluded_sorted = sort_key reason_value EXCLUDED_TYPED_REASONS"

definition keyed_outcome :: "Trajectory \<Rightarrow> pystr \<times> TrialOutcomeClass" where
  "keyed_outcome t = (outcome_key t (classify_trial_outcome t), classify_trial_outcome t)"

definition partition_trial_outcomes :: "Trajectory list \<Rightarrow> TrialOutcomePartition" where
  "partition_trial_outcomes trajectories =
     (let keyed = map keyed_outcome trajectories;
          counts = counter (map fst keyed);
          classes = dict_of keyed;
          per_class = counter (map snd keyed)
      in \<lparr>pt_total_trials = length trajectories,
          pt_measured = filter (\<lambda>t. classify_trial_outcome t \<noteq> INFRASTRUCTURE_ABORT) trajectories,
          pt_outcomes_by_reason =
            map (\<lambda>(key, count). (key, \<lparr>oc_class = the (map_of classes key), oc_count = count\<rparr>)) counts,
          pt_infrastructure_aborts = map (\<lambda>r. (reason_value r, counter_get counts (reason_value r))) excluded_sorted,
          pt_harness_errors = counter_get per_class HARNESS_ERROR,
          pt_ungradeable = counter_get per_class UNGRADEABLE\<rparr>)"

section \<open>Averages and percentiles\<close>

definition mean_or_none :: "pyfloat list \<Rightarrow> pyfloat option" where
  "mean_or_none values = (if values = [] then None else Some (sum_list values / of_nat (length values)))"

text \<open>\<^verbatim>\<open>int\<close> of a float that is not negative is its floor; \<open>p\<close> is between 0 and 100.\<close>

definition percentile :: "pyfloat list \<Rightarrow> pyfloat \<Rightarrow> pyfloat" where
  "percentile values p =
     (if values = [] then 0
      else if length values = 1 then values ! 0
      else let idx = of_nat (length values - 1) * (p / 100);
               lo = nat \<lfloor>idx\<rfloor>;
               hi = min (lo + 1) (length values - 1);
               frac = idx - of_nat lo
           in values ! lo + (values ! hi - values ! lo) * frac)"

record LatencyPercentiles =
  lp_p50_s :: pyfloat
  lp_p90_s :: pyfloat
  lp_p99_s :: pyfloat

definition calculate_latency_percentiles :: "pyfloat list \<Rightarrow> LatencyPercentiles" where
  "calculate_latency_percentiles latencies_s =
     (if latencies_s = [] then \<lparr>lp_p50_s = 0, lp_p90_s = 0, lp_p99_s = 0\<rparr>
      else let values = sort latencies_s in
           \<lparr>lp_p50_s = percentile values 50, lp_p90_s = percentile values 90, lp_p99_s = percentile values 99\<rparr>)"

section \<open>pass@k\<close>

definition compute_pass_at_k :: "int \<Rightarrow> int \<Rightarrow> int \<Rightarrow> exn + pyfloat" where
  "compute_pass_at_k n c k =
     (if n < 0 \<or> c < 0 \<or> k < 0 then Inl (value_error ''n, c, and k must be non-negative'')
      else if c > n then Inl (value_error (''c ('' @ str_int c @ '') cannot be greater than n ('' @ str_int n @ '')''))
      else if k > n then Inl (value_error (''k ('' @ str_int k @ '') cannot be greater than n ('' @ str_int n @ '')''))
      else if k = 0 then Inr 0
      else if c = n then Inr 1
      else if c = 0 then Inr 0
      else let n_fail = n - c in
           if k > n_fail then Inr 1
           else Inr (1 - of_nat (nat n_fail choose nat k) / of_nat (nat n choose nat k)))"

definition passed :: "Trajectory \<Rightarrow> bool" where
  "passed t = (case tj_grade t of None \<Rightarrow> False | Some g \<Rightarrow> grd_binary_pass g)"

definition pass_rows :: "Trajectory list \<Rightarrow> int \<Rightarrow> exn + (pystr \<times> pyfloat option) list" where
  "pass_rows measured k =
     (let rows = (\<lambda>v. [(''pass@'' @ str_int k, v), (''pass_hat@'' @ str_int k, v)]) in
      if measured = [] \<or> k > int (length measured) then Inr (rows None)
      else bind_res (compute_pass_at_k (int (length measured)) (int (length (filter passed measured))) k)
             (\<lambda>pass_k. Inr (rows (Some pass_k))))"

definition calculate_pass_k :: "Trajectory list \<Rightarrow> int list \<Rightarrow> exn + (pystr, pyfloat option) dict" where
  "calculate_pass_k trajectories k_values =
     bind_res (traverse (pass_rows (pt_measured (partition_trial_outcomes trajectories))) k_values)
       (\<lambda>rows. Inr (dict_of (concat rows)))"

section \<open>Spend\<close>

text \<open>The spend of the grader's own model: of the grade, or kept from a grading that failed.\<close>

definition judge_usage_of :: "Trajectory \<Rightarrow> JudgeUsage option" where
  "judge_usage_of t = (case tj_grade t of Some g \<Rightarrow> grd_judge_usage g | None \<Rightarrow> tj_grading_judge_usage t)"

definition judge_tokens :: "JudgeUsage \<Rightarrow> token_counts" where
  "judge_tokens u field =
     (case field of F_prompt_tokens \<Rightarrow> ju_prompt_tokens u | F_completion_tokens \<Rightarrow> ju_completion_tokens u
      | F_reasoning_tokens \<Rightarrow> ju_reasoning_tokens u | _ \<Rightarrow> 0)"

definition trial_buckets :: "Trajectory list \<Rightarrow> (pystr, spend) dict" where
  "trial_buckets trajectories =
     fold (\<lambda>row. spend_add (cbr_role row) (cbr_cost_usd row) (cbr_tokens row))
       (concat (map (\<lambda>t. mx_cost_by_role (tj_metrics t)) trajectories)) []"

definition cost_by_role_rows :: "Trajectory list \<Rightarrow> (pystr \<times> spend) list" where
  "cost_by_role_rows trajectories =
     (let usages = List.map_filter judge_usage_of trajectories;
          judge = (sum_list (map ju_cost_usd usages), \<lambda>field. sum_list (map (\<lambda>u. judge_tokens u field) usages));
          buckets = trial_buckets trajectories
      in sort_key fst (if usages \<noteq> [] then dict_set ''judge'' judge buckets else buckets))"

definition role_plane_grand_total :: "(pystr \<times> spend) list \<Rightarrow> pyfloat option" where
  "role_plane_grand_total rows = (if rows = [] then None else Some (sum_list (map (\<lambda>row. fst (snd row)) rows)))"

definition sum_or_none :: "pyfloat list \<Rightarrow> pyfloat option" where
  "sum_or_none values = (if values = [] then None else Some (sum_list values))"

record SpendMetrics =
  sp_avg_tokens :: "UsageField \<Rightarrow> pyfloat"
  sp_total_cost_usd :: "pyfloat option"
  sp_avg_cost_usd :: "pyfloat option"
  sp_costed_trials :: nat
  sp_unpriced_trials :: nat
  sp_judge_cost_usd :: "pyfloat option"
  sp_total_cost_incl_judge_usd :: "pyfloat option"
  sp_total_cost_incl_judge_is_partial :: bool
  sp_total_cost_by_role :: "(pystr \<times> spend) list"
  sp_total_cost_incl_all_usd :: "pyfloat option"

definition known_costs :: "Trajectory list \<Rightarrow> pyfloat list" where
  "known_costs trajectories = List.map_filter (\<lambda>t. mx_cost_usd (tj_metrics t)) trajectories"

definition judge_costs :: "Trajectory list \<Rightarrow> pyfloat list" where
  "judge_costs trajectories = map ju_cost_usd (List.map_filter judge_usage_of trajectories)"

definition incl_judge :: "pyfloat option \<Rightarrow> pyfloat option \<Rightarrow> pyfloat option \<times> bool" where
  "incl_judge agents judge =
     (case (agents, judge) of
        (None, None) \<Rightarrow> (None, False)
      | (Some t, None) \<Rightarrow> (Some t, True)
      | (None, Some j) \<Rightarrow> (Some j, True)
      | (Some t, Some j) \<Rightarrow> (Some (t + j), False))"

definition spend_metrics :: "Trajectory list \<Rightarrow> SpendMetrics" where
  "spend_metrics trajectories =
     (let n_total = length trajectories;
          costs = known_costs trajectories;
          agents = sum_or_none costs;
          judge = sum_or_none (judge_costs trajectories);
          combined = incl_judge agents judge;
          role_rows = cost_by_role_rows trajectories
      in \<lparr>sp_avg_tokens = \<lambda>field. of_int (sum_list (map (\<lambda>t. us_tokens (mx_usage (tj_metrics t)) field) trajectories))
            / of_nat n_total,
          sp_total_cost_usd = agents, sp_avg_cost_usd = mean_or_none costs,
          sp_costed_trials = length costs, sp_unpriced_trials = n_total - length costs,
          sp_judge_cost_usd = judge,
          sp_total_cost_incl_judge_usd = fst combined, sp_total_cost_incl_judge_is_partial = snd combined,
          sp_total_cost_by_role = role_rows,
          sp_total_cost_incl_all_usd = (if fst combined = None then None else role_plane_grand_total role_rows)\<rparr>)"

section \<open>The metrics of a task\<close>

record MeasuredAverages =
  ma_scored_trials :: nat
  ma_avg_score :: "pyfloat option"
  ma_avg_latency_s :: "pyfloat option"
  ma_avg_turns :: "pyfloat option"
  ma_avg_tool_calls :: "pyfloat option"
  ma_stuck_rate :: "pyfloat option"

definition scores_of :: "Trajectory list \<Rightarrow> pyfloat list" where
  "scores_of measured = List.map_filter (\<lambda>t. map_option grd_score (tj_grade t)) measured"

definition measured_averages :: "Trajectory list \<Rightarrow> MeasuredAverages" where
  "measured_averages measured =
     \<lparr>ma_scored_trials = length (scores_of measured),
      ma_avg_score = mean_or_none (scores_of measured),
      ma_avg_latency_s = mean_or_none (map (\<lambda>t. mx_latency_total_s (tj_metrics t)) measured),
      ma_avg_turns = mean_or_none (map (\<lambda>t. of_int (mx_turns (tj_metrics t))) measured),
      ma_avg_tool_calls = mean_or_none (map (\<lambda>t. of_int (mx_tool_calls (tj_metrics t))) measured),
      ma_stuck_rate = mean_or_none
        (map (\<lambda>t. if mx_stuck_detected (tj_metrics t) then 1 else 0)
          (filter (\<lambda>t. mx_harness_stdout_dialect (tj_metrics t) = None \<and> mx_harness_usage_source (tj_metrics t) = None)
            measured))\<rparr>"

record TaskMetrics =
  tm_partition :: TrialOutcomePartition
  tm_successful_trials :: nat
  tm_success_rate :: "pyfloat option"
  tm_pass :: "(pystr, pyfloat option) dict"
  tm_averages :: MeasuredAverages
  tm_spend :: SpendMetrics
  tm_latency :: LatencyPercentiles
  tm_api_call_latency :: LatencyPercentiles

definition calculate_task_metrics :: "Trajectory list \<Rightarrow> exn + TaskMetrics option" where
  "calculate_task_metrics trajectories =
     (if trajectories = [] then Inr None
      else let part = partition_trial_outcomes trajectories;
               measured = pt_measured part;
               n_success = length (filter passed measured)
           in bind_res (calculate_pass_k trajectories [1, 5, 10]) (\<lambda>pass_k. Inr (Some
                \<lparr>tm_partition = part, tm_successful_trials = n_success,
                 tm_success_rate = (if measured \<noteq> [] then Some (of_nat n_success / of_nat (length measured)) else None),
                 tm_pass = pass_k, tm_averages = measured_averages measured, tm_spend = spend_metrics trajectories,
                 tm_latency = calculate_latency_percentiles (map (\<lambda>t. mx_latency_total_s (tj_metrics t)) trajectories),
                 tm_api_call_latency = calculate_latency_percentiles
                   (concat (map (\<lambda>t. map pc_latency_s (us_calls (mx_usage (tj_metrics t)))) trajectories))\<rparr>)))"

section \<open>The metrics of a run\<close>

definition tm_measured :: "TaskMetrics \<Rightarrow> nat" where
  "tm_measured m = length (pt_measured (tm_partition m))"

definition merge_abort_counts :: "TaskMetrics list \<Rightarrow> (pystr, nat) dict" where
  "merge_abort_counts task_metrics =
     map (\<lambda>r. (reason_value r,
       sum_list (map (\<lambda>m. counter_get (pt_infrastructure_aborts (tm_partition m)) (reason_value r)) task_metrics)))
       excluded_sorted"

definition merge_outcomes_by_reason :: "TaskMetrics list \<Rightarrow> (pystr, OutcomeCount) dict" where
  "merge_outcomes_by_reason task_metrics =
     (let rows = concat (map (\<lambda>m. pt_outcomes_by_reason (tm_partition m)) task_metrics);
          counts = fold (\<lambda>(key, row). counter_add key (oc_count row)) rows [];
          classes = dict_of (map (\<lambda>(key, row). (key, oc_class row)) rows)
      in map (\<lambda>(key, count). (key, \<lparr>oc_class = the (map_of classes key), oc_count = count\<rparr>)) counts)"

definition merge_cost_by_role_rows :: "TaskMetrics list \<Rightarrow> (pystr \<times> spend) list" where
  "merge_cost_by_role_rows task_metrics =
     sort_key fst (fold (\<lambda>row. spend_add (fst row) (fst (snd row)) (snd (snd row)))
       (concat (map (\<lambda>m. sp_total_cost_by_role (tm_spend m)) task_metrics)) [])"

datatype run_averages =
    Micro_average "pyfloat option" "pyfloat option"
  | Macro_average "pyfloat option" "pyfloat option"

record AggregateMetrics =
  ag_total_tasks :: nat
  ag_total_trials :: nat
  ag_measured_trials :: nat
  ag_scored_trials :: nat
  ag_harness_errors :: nat
  ag_ungradeable :: nat
  ag_infrastructure_aborts :: "(pystr, nat) dict"
  ag_outcomes_by_reason :: "(pystr, OutcomeCount) dict"
  ag_averages :: run_averages
  ag_pass_macro :: "(pystr, pyfloat option) dict"
  ag_avg_latency_s :: "pyfloat option"
  ag_avg_turns :: "pyfloat option"
  ag_avg_tool_calls :: "pyfloat option"
  ag_stuck_rate :: "pyfloat option"
  ag_total_tokens :: "UsageField \<Rightarrow> pyfloat"
  ag_avg_tokens :: "UsageField \<Rightarrow> pyfloat"
  ag_total_cost_usd :: "pyfloat option"
  ag_avg_cost_usd :: "pyfloat option"
  ag_costed_trials :: nat
  ag_unpriced_trials :: nat
  ag_judge_cost_usd :: "pyfloat option"
  ag_total_cost_incl_judge_usd :: "pyfloat option"
  ag_total_cost_by_role :: "(pystr \<times> spend) list"
  ag_total_cost_incl_all_usd :: "pyfloat option"
  ag_latency_macro :: LatencyPercentiles

definition pass_macro :: "TaskMetrics list \<Rightarrow> pystr \<Rightarrow> pyfloat option" where
  "pass_macro task_metrics key =
     mean_or_none (List.map_filter (\<lambda>m. case map_of (tm_pass m) key of None \<Rightarrow> None | Some v \<Rightarrow> v) task_metrics)"

definition run_average :: "bool \<Rightarrow> TaskMetrics list \<Rightarrow> run_averages" where
  "run_average weighted task_metrics =
     (let measured_trials = sum_list (map tm_measured task_metrics);
          scored_trials = sum_list (map (\<lambda>m. ma_scored_trials (tm_averages m)) task_metrics)
      in if weighted then
           Micro_average
             (if measured_trials > 0
              then Some (of_nat (sum_list (map tm_successful_trials task_metrics)) / of_nat measured_trials) else None)
             (if scored_trials > 0
              then Some (sum_list (List.map_filter (\<lambda>m. map_option (\<lambda>s. s * of_nat (ma_scored_trials (tm_averages m)))
                     (ma_avg_score (tm_averages m))) task_metrics) / of_nat scored_trials)
              else None)
         else
           Macro_average (mean_or_none (List.map_filter tm_success_rate task_metrics))
             (mean_or_none (List.map_filter (\<lambda>m. ma_avg_score (tm_averages m)) task_metrics)))"

definition calculate_aggregate_metrics :: "TaskMetrics list \<Rightarrow> bool \<Rightarrow> AggregateMetrics option" where
  "calculate_aggregate_metrics ms weighted =
     (if ms = [] then None
      else let n_tasks = length ms;
               known = (\<lambda>f. List.map_filter f ms);
               incl = sum_or_none (known (\<lambda>m. sp_total_cost_incl_judge_usd (tm_spend m)));
               role_rows = merge_cost_by_role_rows ms;
               macro = (\<lambda>f. sum_list (map (\<lambda>m. f (tm_latency m)) ms) / of_nat n_tasks)
           in Some
             \<lparr>ag_total_tasks = n_tasks,
              ag_total_trials = sum_list (map (\<lambda>m. pt_total_trials (tm_partition m)) ms),
              ag_measured_trials = sum_list (map tm_measured ms),
              ag_scored_trials = sum_list (map (\<lambda>m. ma_scored_trials (tm_averages m)) ms),
              ag_harness_errors = sum_list (map (\<lambda>m. pt_harness_errors (tm_partition m)) ms),
              ag_ungradeable = sum_list (map (\<lambda>m. pt_ungradeable (tm_partition m)) ms),
              ag_infrastructure_aborts = merge_abort_counts ms,
              ag_outcomes_by_reason = merge_outcomes_by_reason ms,
              ag_averages = run_average weighted ms,
              ag_pass_macro = concat (map (\<lambda>k.
                [(''pass@'' @ str_int k @ ''_macro'', pass_macro ms (''pass@'' @ str_int k)),
                 (''pass_hat@'' @ str_int k @ ''_macro'', pass_macro ms (''pass_hat@'' @ str_int k))]) [1, 5, 10]),
              ag_avg_latency_s = mean_or_none (known (\<lambda>m. ma_avg_latency_s (tm_averages m))),
              ag_avg_turns = mean_or_none (known (\<lambda>m. ma_avg_turns (tm_averages m))),
              ag_avg_tool_calls = mean_or_none (known (\<lambda>m. ma_avg_tool_calls (tm_averages m))),
              ag_stuck_rate = mean_or_none (known (\<lambda>m. ma_stuck_rate (tm_averages m))),
              ag_total_tokens = \<lambda>field. sum_list (map (\<lambda>m. sp_avg_tokens (tm_spend m) field *
                of_nat (pt_total_trials (tm_partition m))) ms),
              ag_avg_tokens = \<lambda>field. sum_list (map (\<lambda>m. sp_avg_tokens (tm_spend m) field) ms) / of_nat n_tasks,
              ag_total_cost_usd = sum_or_none (known (\<lambda>m. sp_total_cost_usd (tm_spend m))),
              ag_avg_cost_usd = mean_or_none (known (\<lambda>m. sp_avg_cost_usd (tm_spend m))),
              ag_costed_trials = sum_list (map (\<lambda>m. sp_costed_trials (tm_spend m)) ms),
              ag_unpriced_trials = sum_list (map (\<lambda>m. sp_unpriced_trials (tm_spend m)) ms),
              ag_judge_cost_usd = sum_or_none (known (\<lambda>m. sp_judge_cost_usd (tm_spend m))),
              ag_total_cost_incl_judge_usd = incl,
              ag_total_cost_by_role = role_rows,
              ag_total_cost_incl_all_usd = (if incl = None then None else role_plane_grand_total role_rows),
              ag_latency_macro = \<lparr>lp_p50_s = macro lp_p50_s, lp_p90_s = macro lp_p90_s, lp_p99_s = macro lp_p99_s\<rparr>\<rparr>)"

end
