(* ===== verification/Metrics_Laws.thy ===== *)
theory Metrics_Laws
  imports Run_Metrics
begin

text \<open>
  What the figures of \<^verbatim>\<open>Run_Metrics\<close> mean: pass@k as a share of draws, the partition of the trials, the
  run-level averages as those of the pooled trials, and the two totals of a run's cost.
\<close>

section \<open>pass@k is a share of draws\<close>

definition draws :: "nat \<Rightarrow> nat \<Rightarrow> nat set set" where
  "draws n k = {D. D \<subseteq> {..<n} \<and> card D = k}"

lemma card_draws: "card (draws n k) = n choose k"
  using n_subsets [of "{..<n}" k] by (simp add: draws_def)

lemma card_failing_draws:
  assumes "S \<subseteq> {..<n}"
  shows "card {D \<in> draws n k. D \<inter> S = {}} = (n - card S) choose k"
proof -
  have "{D \<in> draws n k. D \<inter> S = {}} = {D. D \<subseteq> {..<n} - S \<and> card D = k}" by (auto simp: draws_def)
  moreover have "card ({..<n} - S) = n - card S" using assms by (simp add: card_Diff_subset finite_subset)
  ultimately show ?thesis using n_subsets [of "{..<n} - S" k] by simp
qed

lemma finite_draws: "finite (draws n k)"
  by (simp add: draws_def)

lemma card_passing_draws:
  assumes "S \<subseteq> {..<n}"
  shows "card {D \<in> draws n k. D \<inter> S \<noteq> {}} = (n choose k) - ((n - card S) choose k)"
proof -
  have "{D \<in> draws n k. D \<inter> S \<noteq> {}} = draws n k - {D \<in> draws n k. D \<inter> S = {}}" by auto
  then show ?thesis
    using card_failing_draws [OF assms, of k] finite_draws [of n k]
    by (simp add: card_Diff_subset card_draws)
qed

lemma compute_pass_value:
  assumes "c \<le> n" and "k \<le> n"
  shows "compute_pass_at_k (int n) (int c) (int k) = Inr (1 - of_nat ((n - c) choose k) / of_nat (n choose k))"
proof -
  have "0 < n choose k" using assms(2) by (rule zero_less_binomial)
  moreover have "(n - c) choose k = 0" if "n - c < k" using that by (rule binomial_eq_0)
  moreover have "nat (int n - int c) = n - c" by simp
  ultimately show ?thesis using assms
    by (auto simp: compute_pass_at_k_def Let_def)
qed

text \<open>
  Property C19.  pass@k is the probability it names.  For n trials of which the set S passed, the figure computed is the
  share of the k-element draws from the n trials that contain a trial of S, in every branch the code
  takes to compute it.
\<close>

theorem pass_at_k_is_a_share_of_draws:
  assumes "S \<subseteq> {..<n}" and "k \<le> n"
  shows "compute_pass_at_k (int n) (int (card S)) (int k) =
    Inr (of_nat (card {D \<in> draws n k. D \<inter> S \<noteq> {}}) / of_nat (card (draws n k)))"
proof -
  have c: "card S \<le> n" using assms(1) card_mono [of "{..<n}" S] by simp
  have pos: "0 < n choose k" using assms(2) by (rule zero_less_binomial)
  have le: "(n - card S) choose k \<le> n choose k" by (rule binomial_right_mono) simp
  show ?thesis using compute_pass_value [OF c assms(2)] pos le
    by (simp add: card_passing_draws [OF assms(1)] card_draws of_nat_diff diff_divide_distrib)
qed

theorem pass_at_k_is_a_share_of_draws_witness:
  "compute_pass_at_k 5 2 2 = Inr (7 / 10) \<and> card {D \<in> draws 5 2. D \<inter> {0, 1} \<noteq> {}} = 7"
proof -
  have "card (draws 5 2) = 10" by (simp add: card_draws numeral_eq_Suc)
  moreover have "card {D \<in> draws 5 2. D \<inter> {0, 1} \<noteq> {}} = 7"
    by (subst card_passing_draws) (simp_all add: numeral_eq_Suc)
  moreover have "{0, 1} \<subseteq> {..<5 :: nat}" by simp
  ultimately show ?thesis using pass_at_k_is_a_share_of_draws [of "{0, 1}" 5 2] by simp
qed

section \<open>Every trial is counted once\<close>

lemma excluded_sorted_set: "set excluded_sorted = set EXCLUDED_TYPED_REASONS" "distinct excluded_sorted"
  by (simp_all add: excluded_sorted_def EXCLUDED_TYPED_REASONS_def)

text \<open>The class an outcome key stands for.\<close>

definition key_class :: "pystr \<Rightarrow> TrialOutcomeClass" where
  "key_class key =
     (if take 12 key = ''ungradeable_'' then UNGRADEABLE
      else if key \<in> set (map reason_value EXCLUDED_TYPED_REASONS) then INFRASTRUCTURE_ABORT
      else if key \<in> {''error'', ''trial_lost'', ''unset_error'', ''unset_timeout'', ''unset_failed''} then HARNESS_ERROR
      else MEASURED)"

lemma key_class_of_outcome: "key_class (outcome_key t (classify_trial_outcome t)) = classify_trial_outcome t"
proof (cases "te_grading_error t")
  case (Some e)
  then show ?thesis by (simp add: classify_trial_outcome_def outcome_key_def key_class_def Let_def)
next
  case None
  show ?thesis
  proof (cases "te_termination_reason t")
    case reasonless: None
    then show ?thesis using None
      by (cases "te_status t")
        (simp_all add: classify_trial_outcome_def outcome_key_def key_class_def EXCLUDED_TYPED_REASONS_def Let_def)
  next
    case (Some r)
    then show ?thesis using None
      by (cases r) (simp_all add: classify_trial_outcome_def outcome_key_def key_class_def EXCLUDED_TYPED_REASONS_def Let_def)
  qed
qed

lemma excluded_sorted_eq: "excluded_sorted = EXCLUDED_TYPED_REASONS"
  by code_simp

lemma abort_key_counted:
  "sum_list (map (\<lambda>r. if key = reason_value r then 1 else 0) excluded_sorted) =
     (if key_class key = INFRASTRUCTURE_ABORT then 1 else (0 :: nat))"
  by (auto simp: excluded_sorted_eq EXCLUDED_TYPED_REASONS_def key_class_def)

definition outcome_keys :: "Trajectory list \<Rightarrow> pystr list" where
  "outcome_keys trajectories = map (\<lambda>t. outcome_key t (classify_trial_outcome t)) trajectories"

lemma partition_reads:
  "pt_total_trials (partition_trial_outcomes ts) = length ts"
  "pt_measured (partition_trial_outcomes ts) = filter (\<lambda>t. classify_trial_outcome t \<noteq> INFRASTRUCTURE_ABORT) ts"
  "pt_infrastructure_aborts (partition_trial_outcomes ts) =
     map (\<lambda>r. (reason_value r, count_list (outcome_keys ts) (reason_value r))) excluded_sorted"
  "pt_harness_errors (partition_trial_outcomes ts) = count_list (map classify_trial_outcome ts) HARNESS_ERROR"
  "pt_ungradeable (partition_trial_outcomes ts) = count_list (map classify_trial_outcome ts) UNGRADEABLE"
  by (simp_all add: partition_trial_outcomes_def Let_def counter_get_def counter_lookup keyed_outcome_def comp_def outcome_keys_def)

lemma aborts_counted:
  "sum_list (map (\<lambda>r. count_list (outcome_keys ts) (reason_value r)) excluded_sorted) =
     length (filter (\<lambda>t. classify_trial_outcome t = INFRASTRUCTURE_ABORT) ts)"
proof (induction ts)
  case Nil
  then show ?case by (simp add: outcome_keys_def)
next
  case (Cons t ts)
  let ?key = "outcome_key t (classify_trial_outcome t)"
  have "sum_list (map (\<lambda>r. count_list (outcome_keys (t # ts)) (reason_value r)) excluded_sorted) =
      sum_list (map (\<lambda>r. (if ?key = reason_value r then 1 else 0) + count_list (outcome_keys ts) (reason_value r)) excluded_sorted)"
    by (intro arg_cong [where f = sum_list] map_cong refl) (simp add: outcome_keys_def)
  then show ?case using Cons by (simp add: sum_list_addf abort_key_counted key_class_of_outcome)
qed

lemma map_of_map_rows: "map_of (map (\<lambda>(key, v). (key, f key v)) d) key = map_option (f key) (map_of d key)"
  by (induction d) auto

lemma outcomes_by_reason_eq:
  "pt_outcomes_by_reason (partition_trial_outcomes ts) =
     map (\<lambda>(key, count). (key, \<lparr>oc_class = key_class key, oc_count = count\<rparr>)) (counter (outcome_keys ts))"
proof -
  let ?keyed = "map keyed_outcome ts"
  have k: "map_of (dict_of ?keyed) key = Some (key_class key)" if "key \<in> set (outcome_keys ts)" for key
  proof -
    have "map_of (rev ?keyed) key \<noteq> None"
      using that by (auto simp: map_of_eq_None_iff outcome_keys_def keyed_outcome_def image_image)
    then obtain c where c: "map_of (rev ?keyed) key = Some c" by auto
    then have "(key, c) \<in> set ?keyed" using map_of_SomeD by fastforce
    then have "c = key_class key" by (auto simp: keyed_outcome_def key_class_of_outcome)
    with c show ?thesis by (simp add: map_of_dict_of)
  qed
  have "the (map_of (dict_of ?keyed) (fst p)) = key_class (fst p)" if "p \<in> set (counter (outcome_keys ts))" for p
    using k [of "fst p"] that counter_keys [of "outcome_keys ts"] by (metis image_eqI option.sel)
  then show ?thesis
    by (simp add: partition_trial_outcomes_def Let_def comp_def keyed_outcome_def case_prod_beta' outcome_keys_def)
qed

lemma outcomes_counted: "sum_list (map (\<lambda>p. oc_count (snd p)) (pt_outcomes_by_reason (partition_trial_outcomes ts))) = length ts"
proof -
  have "sum_list (map (\<lambda>p. oc_count (snd p)) (pt_outcomes_by_reason (partition_trial_outcomes ts))) =
      sum_list (map snd (counter (outcome_keys ts)))"
    by (simp add: outcomes_by_reason_eq comp_def case_prod_beta')
  then show ?thesis by (simp add: outcome_keys_def)
qed

text \<open>
  Property C18.  Every trial is counted once.  The measured trials and the aborts under every excluded reason add up to
  the trials; so do the counts of the outcome keys; the harness errors and the ungradeable trials are disjoint parts
  of the measured ones; and each key has one class, the class of every trial counted under it.
\<close>

theorem outcomes_partition_the_trials:
  "length (pt_measured (partition_trial_outcomes ts)) + sum_list (map snd (pt_infrastructure_aborts (partition_trial_outcomes ts)))
     = length ts \<and>
   sum_list (map (\<lambda>p. oc_count (snd p)) (pt_outcomes_by_reason (partition_trial_outcomes ts))) = length ts \<and>
   pt_harness_errors (partition_trial_outcomes ts) + pt_ungradeable (partition_trial_outcomes ts)
     \<le> length (pt_measured (partition_trial_outcomes ts)) \<and>
   list_all (\<lambda>t. map_option oc_class (map_of (pt_outcomes_by_reason (partition_trial_outcomes ts))
       (outcome_key t (classify_trial_outcome t))) = Some (classify_trial_outcome t)) ts"
proof (intro conjI)
  show "length (pt_measured (partition_trial_outcomes ts)) +
      sum_list (map snd (pt_infrastructure_aborts (partition_trial_outcomes ts))) = length ts"
    using sum_length_filter_compl [of "\<lambda>t. classify_trial_outcome t \<noteq> INFRASTRUCTURE_ABORT" ts]
    by (simp add: partition_reads comp_def aborts_counted)
  show "sum_list (map (\<lambda>p. oc_count (snd p)) (pt_outcomes_by_reason (partition_trial_outcomes ts))) = length ts"
    by (rule outcomes_counted)
  show "pt_harness_errors (partition_trial_outcomes ts) + pt_ungradeable (partition_trial_outcomes ts)
      \<le> length (pt_measured (partition_trial_outcomes ts))"
    unfolding partition_reads by (induction ts) auto
  have "map_of (pt_outcomes_by_reason (partition_trial_outcomes ts)) key =
      map_option (\<lambda>n. \<lparr>oc_class = key_class key, oc_count = n\<rparr>) (map_of (counter (outcome_keys ts)) key)" for key
    unfolding outcomes_by_reason_eq by (rule map_of_map_rows)
  moreover have "\<exists>n. map_of (counter (outcome_keys ts)) (outcome_key t (classify_trial_outcome t)) = Some n" if "t \<in> set ts" for t
    using that counter_keys [of "outcome_keys ts"]
    by (intro not_None_eq [THEN iffD1]) (simp add: map_of_eq_None_iff outcome_keys_def)
  ultimately show "list_all (\<lambda>t. map_option oc_class (map_of (pt_outcomes_by_reason (partition_trial_outcomes ts))
       (outcome_key t (classify_trial_outcome t))) = Some (classify_trial_outcome t)) ts"
    by (fastforce simp: list_all_iff key_class_of_outcome)
qed

section \<open>Figures that add up over tasks\<close>

text \<open>
  A figure of a list of trials that is the sum of the figures of its parts.  The run-level totals are sums of such
  figures, so each is the figure of all the trials together.
\<close>

locale additive_figure =
  fixes figure :: "Trajectory list \<Rightarrow> 'a :: monoid_add"
  assumes of_none: "figure [] = 0" and of_append: "figure (xs @ ys) = figure xs + figure ys"
begin

lemma pooled: "figure (concat tss) = sum_list (map figure tss)"
  by (induction tss) (simp_all add: of_none of_append)

end

definition measured :: "Trajectory list \<Rightarrow> Trajectory list" where
  "measured ts = filter (\<lambda>t. classify_trial_outcome t \<noteq> INFRASTRUCTURE_ABORT) ts"

lemma map_filter_append [simp]: "List.map_filter f (xs @ ys) = List.map_filter f xs @ List.map_filter f ys"
  by (simp add: List.map_filter_def)

lemma map_filter_empty [simp]: "List.map_filter f [] = []"
  by (simp add: List.map_filter_def)

lemma figures_append [simp]:
  "measured [] = []" "measured (xs @ ys) = measured xs @ measured ys"
  "scores_of [] = []" "scores_of (xs @ ys) = scores_of xs @ scores_of ys"
  "known_costs [] = []" "known_costs (xs @ ys) = known_costs xs @ known_costs ys"
  "judge_costs [] = []" "judge_costs (xs @ ys) = judge_costs xs @ judge_costs ys"
  by (simp_all add: measured_def scores_of_def known_costs_def judge_costs_def)

interpretation trials_figure: additive_figure length
  by unfold_locales simp_all

interpretation measured_figure: additive_figure "\<lambda>ts. length (measured ts)"
  by unfold_locales simp_all

interpretation success_figure: additive_figure "\<lambda>ts. length (filter passed (measured ts))"
  by unfold_locales simp_all

interpretation scored_figure: additive_figure "\<lambda>ts. length (scores_of (measured ts))"
  by unfold_locales simp_all

interpretation score_figure: additive_figure "\<lambda>ts. sum_list (scores_of (measured ts))"
  by unfold_locales simp_all

interpretation class_figure: additive_figure "\<lambda>ts. count_list (map classify_trial_outcome ts) c" for c
  by unfold_locales simp_all

interpretation key_figure: additive_figure "\<lambda>ts. count_list (outcome_keys ts) key" for key
  by unfold_locales (simp_all add: outcome_keys_def)

interpretation cost_figure: additive_figure "\<lambda>ts. sum_list (known_costs ts)"
  by unfold_locales simp_all

interpretation judge_figure: additive_figure "\<lambda>ts. sum_list (judge_costs ts)"
  by unfold_locales simp_all

interpretation token_figure: additive_figure "\<lambda>ts. sum_list (map (\<lambda>t. us_tokens (mx_usage (tj_metrics t)) field) ts)" for field
  by unfold_locales simp_all

section \<open>A task's metrics\<close>

lemma pass_rows_ok: "0 \<le> k \<Longrightarrow> is_ok (pass_rows ms k)"
proof -
  assume "0 \<le> k"
  then obtain n where k: "k = int n" using zero_le_imp_eq_int by blast
  show ?thesis
    using compute_pass_value [of "length (filter passed ms)" "length ms" n]
    by (auto simp: pass_rows_def Let_def k)
qed

lemma traverse_all_ok: "(\<And>x. x \<in> set xs \<Longrightarrow> is_ok (f x)) \<Longrightarrow> is_ok (traverse f xs)"
proof (induction xs)
  case (Cons x xs)
  have "is_ok (f x)" "is_ok (traverse f xs)" using Cons by simp_all
  then show ?case by (auto simp: is_ok_iff)
qed simp

lemma calculate_pass_k_ok: "list_all (\<lambda>k. 0 \<le> k) ks \<Longrightarrow> is_ok (calculate_pass_k ts ks)"
proof -
  assume "list_all (\<lambda>k. 0 \<le> k) ks"
  then have "is_ok (traverse (pass_rows (pt_measured (partition_trial_outcomes ts))) ks)"
    by (intro traverse_all_ok pass_rows_ok) (simp add: list_all_iff)
  then show ?thesis by (auto simp: calculate_pass_k_def is_ok_iff)
qed

lemma task_metrics_total:
  assumes "ts \<noteq> []"
  obtains m where "calculate_task_metrics ts = Inr (Some m)"
  using assms calculate_pass_k_ok [of "[1, 5, 10]" ts] by (auto simp: calculate_task_metrics_def is_ok_iff Let_def)

lemma task_metrics_reads:
  assumes "calculate_task_metrics ts = Inr (Some m)"
  shows "tm_partition m = partition_trial_outcomes ts" "tm_successful_trials m = length (filter passed (measured ts))"
    "tm_success_rate m = (if measured ts \<noteq> [] then Some (of_nat (length (filter passed (measured ts))) / of_nat (length (measured ts))) else None)"
    "tm_averages m = measured_averages (measured ts)" "tm_spend m = spend_metrics ts" "tm_measured m = length (measured ts)" "ts \<noteq> []"
  using assms
  by (auto simp: calculate_task_metrics_def bind_res_eq_Inr_iff Let_def partition_reads measured_def tm_measured_def split: if_splits)

definition tasks_measured :: "Trajectory list list \<Rightarrow> TaskMetrics list \<Rightarrow> bool" where
  "tasks_measured tss ms \<longleftrightarrow> list_all2 (\<lambda>ts m. calculate_task_metrics ts = Inr (Some m)) tss ms"

lemma map_tasks:
  assumes "tasks_measured tss ms" and "\<And>ts m. calculate_task_metrics ts = Inr (Some m) \<Longrightarrow> f m = g ts"
  shows "map f ms = map g tss"
  using assms(1) unfolding tasks_measured_def by (induction rule: list_all2_induct) (simp_all add: assms(2))

lemma map_filter_tasks:
  assumes "tasks_measured tss ms" and "\<And>ts m. calculate_task_metrics ts = Inr (Some m) \<Longrightarrow> f m = g ts"
  shows "List.map_filter f ms = List.map_filter g tss"
  using assms(1) unfolding tasks_measured_def
  by (induction rule: list_all2_induct) (simp_all add: assms(2) map_filter_simps split: option.split)

section \<open>Merged counts\<close>

lemma counter_add_new: "key \<notin> fst ` set d \<Longrightarrow> counter_add key n d = d @ [(key, n)]"
  by (auto simp: counter_add_def dict_set_new map_of_eq_None_iff [symmetric])

lemma counter_add_twice: "counter_add key m (counter_add key n d) = counter_add key (n + m) d"
  by (induction d) (auto simp: counter_add_def)

lemma counter_add_commute:
  "key \<in> fst ` set d \<Longrightarrow> k \<noteq> key \<Longrightarrow> counter_add k n (counter_add key m d) = counter_add key m (counter_add k n d)"
proof (induction d)
  case (Cons row d)
  obtain a b where "row = (a, b)" by (cases row)
  with Cons show ?case by (cases "a = key"; cases "a = k") (simp_all add: counter_add_def)
qed simp

lemma counter_add_keys [simp]: "fst ` set (counter_add key n d) = insert key (fst ` set d)"
  by (simp add: counter_add_def)

lemma counter_add_after:
  "key \<in> fst ` set d \<Longrightarrow> key \<notin> fst ` set rows \<Longrightarrow>
   fold (\<lambda>(k, n). counter_add k n) rows (counter_add key m d) = counter_add key m (fold (\<lambda>(k, n). counter_add k n) rows d)"
proof (induction rows arbitrary: d)
  case (Cons row rows)
  obtain a b where row: "row = (a, b)" by (cases row)
  have "counter_add a b (counter_add key m d) = counter_add key m (counter_add a b d)"
    using Cons.prems by (intro counter_add_commute) (auto simp: row)
  then show ?case using Cons by (simp add: row)
qed simp

lemma counter_add_split:
  assumes "distinct (map fst rows)" and "key \<in> fst ` set rows"
  shows "fold (\<lambda>(k, n). counter_add k n) (counter_add key 1 rows) d =
    counter_add key 1 (fold (\<lambda>(k, n). counter_add k n) rows d)"
  using assms
proof (induction rows arbitrary: d)
  case (Cons row rows)
  obtain k n where row: "row = (k, n)" by (cases row)
  show ?case
  proof (cases "k = key")
    case True
    then have "key \<notin> fst ` set rows" using Cons.prems(1) by (auto simp: row)
    then have "fold (\<lambda>(k, n). counter_add k n) rows (counter_add key 1 (counter_add key n d)) =
        counter_add key 1 (fold (\<lambda>(k, n). counter_add k n) rows (counter_add key n d))"
      by (intro counter_add_after) simp_all
    then show ?thesis by (simp add: row True counter_add_def [of key "Suc 0" "(key, n) # rows"] counter_add_twice)
  next
    case False
    then have "counter_add key 1 (row # rows) = row # counter_add key 1 rows" by (simp add: counter_add_def row)
    then show ?thesis using Cons.IH [of "counter_add k n d"] Cons.prems False by (simp add: row)
  qed
qed simp

lemma counter_snoc: "counter (keys @ [key]) = counter_add key 1 (counter keys)"
  by (simp add: counter_def)

lemma counter_merge:
  "fold (\<lambda>(k, n). counter_add k n) (counter keys) d = fold (\<lambda>key. counter_add key 1) keys d"
proof (induction keys rule: rev_induct)
  case Nil
  then show ?case by (simp add: counter_def)
next
  case (snoc key keys)
  show ?case
  proof (cases "key \<in> fst ` set (counter keys)")
    case True
    then show ?thesis using snoc counter_add_split [of "counter keys" key d] by (simp add: counter_snoc)
  next
    case False
    then show ?thesis using snoc by (simp add: counter_snoc counter_add_new)
  qed
qed

lemma merged_counts:
  "fold (\<lambda>(k, n). counter_add k n) (concat (map (\<lambda>ts. counter (outcome_keys ts)) tss)) d =
     fold (\<lambda>key. counter_add key 1) (outcome_keys (concat tss)) d"
  by (induction tss arbitrary: d) (simp_all add: counter_merge outcome_keys_def)

lemma merge_outcomes_pools:
  assumes "tasks_measured tss ms"
  shows "merge_outcomes_by_reason ms = pt_outcomes_by_reason (partition_trial_outcomes (concat tss))"
proof -
  let ?counts = "concat (map (\<lambda>ts. counter (outcome_keys ts)) tss)"
  let ?rows = "concat (map (\<lambda>m. pt_outcomes_by_reason (tm_partition m)) ms)"
  have "map (\<lambda>m. pt_outcomes_by_reason (tm_partition m)) ms =
      map (\<lambda>ts. map (\<lambda>(key, count). (key, \<lparr>oc_class = key_class key, oc_count = count\<rparr>)) (counter (outcome_keys ts))) tss"
    by (rule map_tasks [OF assms]) (simp add: task_metrics_reads outcomes_by_reason_eq)
  then have rows: "?rows = map (\<lambda>(key, count). (key, \<lparr>oc_class = key_class key, oc_count = count\<rparr>)) ?counts"
    by (simp add: map_concat comp_def)
  have counts: "fold (\<lambda>(key, row). counter_add key (oc_count row)) ?rows [] = counter (outcome_keys (concat tss))"
    using merged_counts [of tss "[]"] by (simp add: rows fold_map comp_def case_prod_beta' counter_def)
  have classes: "map_of (dict_of (map (\<lambda>(key, row). (key, oc_class row)) ?rows)) key = Some (key_class key)"
    if "key \<in> fst ` set ?counts" for key
  proof -
    have "map (\<lambda>(key, row). (key, oc_class row)) ?rows = map (\<lambda>(key, v). (key, key_class key)) ?counts"
      by (simp add: rows case_prod_beta')
    moreover have "map_of (rev ?counts) key \<noteq> None" using that by (simp add: map_of_eq_None_iff)
    ultimately show ?thesis by (auto simp: map_of_dict_of rev_map map_of_map_rows)
  qed
  have "fst ` set ?counts = set (outcome_keys (concat tss))"
    by (auto simp: counter_keys image_UN outcome_keys_def)
  then have "the (map_of (dict_of (map (\<lambda>(key, row). (key, oc_class row)) ?rows)) (fst p)) = key_class (fst p)"
    if "p \<in> set (counter (outcome_keys (concat tss)))" for p
    using that classes [of "fst p"] counter_keys [of "outcome_keys (concat tss)"] by (metis image_eqI option.sel)
  then show ?thesis
    unfolding merge_outcomes_by_reason_def Let_def counts outcomes_by_reason_eq by (simp add: case_prod_beta')
qed

lemma merge_aborts_pools:
  assumes "tasks_measured tss ms"
  shows "merge_abort_counts ms = pt_infrastructure_aborts (partition_trial_outcomes (concat tss))"
proof -
  have "counter_get (pt_infrastructure_aborts (partition_trial_outcomes ts)) (reason_value r) =
      count_list (outcome_keys ts) (reason_value r)" if "r \<in> set EXCLUDED_TYPED_REASONS" for ts r
    using that by (auto simp: partition_reads counter_get_def excluded_sorted_eq EXCLUDED_TYPED_REASONS_def)
  then have "map (\<lambda>m. counter_get (pt_infrastructure_aborts (tm_partition m)) (reason_value r)) ms =
      map (\<lambda>ts. count_list (outcome_keys ts) (reason_value r)) tss" if "r \<in> set EXCLUDED_TYPED_REASONS" for r
    using that by (intro map_tasks [OF assms]) (simp add: task_metrics_reads)
  then show ?thesis
    by (simp add: merge_abort_counts_def partition_reads key_figure.pooled excluded_sorted_set)
qed

section \<open>The averages of a run\<close>

lemma mean_times_count: "map_option (\<lambda>s. s * of_nat (length xs)) (mean_or_none xs) = (if xs = [] then None else Some (sum_list xs))"
  by (simp add: mean_or_none_def)

lemma sum_map_filter_nonempty:
  "sum_list (List.map_filter (\<lambda>ts. if f ts = [] then None else Some (sum_list (f ts))) tss) =
     sum_list (map (\<lambda>ts. sum_list (f ts :: pyfloat list)) tss)"
  by (induction tss) (simp_all add: map_filter_simps)

lemma micro_average_pools:
  assumes "tasks_measured tss ms"
  shows "run_average True ms =
    Micro_average
      (if measured (concat tss) = [] then None
       else Some (of_nat (length (filter passed (measured (concat tss)))) / of_nat (length (measured (concat tss)))))
      (mean_or_none (scores_of (measured (concat tss))))"
proof -
  have m: "sum_list (map tm_measured ms) = length (measured (concat tss))"
    "sum_list (map tm_successful_trials ms) = length (filter passed (measured (concat tss)))"
    "sum_list (map (\<lambda>m. ma_scored_trials (tm_averages m)) ms) = length (scores_of (measured (concat tss)))"
    unfolding measured_figure.pooled success_figure.pooled scored_figure.pooled
    by (intro arg_cong [where f = sum_list] map_tasks [OF assms]; simp add: task_metrics_reads measured_averages_def)+
  have "List.map_filter (\<lambda>m. map_option (\<lambda>s. s * of_nat (ma_scored_trials (tm_averages m))) (ma_avg_score (tm_averages m))) ms =
      List.map_filter (\<lambda>ts. if scores_of (measured ts) = [] then None else Some (sum_list (scores_of (measured ts)))) tss"
    by (rule map_filter_tasks [OF assms]) (simp add: task_metrics_reads measured_averages_def mean_times_count)
  then have "sum_list (List.map_filter (\<lambda>m. map_option (\<lambda>s. s * of_nat (ma_scored_trials (tm_averages m)))
      (ma_avg_score (tm_averages m))) ms) = sum_list (scores_of (measured (concat tss)))"
    by (simp add: sum_map_filter_nonempty score_figure.pooled)
  then show ?thesis by (simp add: run_average_def m mean_or_none_def)
qed

lemma sum_or_none_pools:
  "sum_or_none (List.map_filter (\<lambda>ts. sum_or_none (f ts)) tss) = sum_or_none (concat (map f tss))"
proof -
  have "sum_list (List.map_filter (\<lambda>ts. sum_or_none (f ts)) tss) = sum_list (concat (map f tss))"
    by (induction tss) (simp_all add: map_filter_simps sum_or_none_def)
  moreover have "List.map_filter (\<lambda>ts. sum_or_none (f ts)) tss = [] \<longleftrightarrow> concat (map f tss) = []"
    by (induction tss) (simp_all add: map_filter_simps sum_or_none_def)
  ultimately show ?thesis by (simp add: sum_or_none_def)
qed

lemma concat_figures:
  "known_costs (concat tss) = concat (map known_costs tss)" "judge_costs (concat tss) = concat (map judge_costs tss)"
  by (induction tss) simp_all

lemma spend_reads:
  "sp_total_cost_usd (spend_metrics ts) = sum_or_none (known_costs ts)"
  "sp_judge_cost_usd (spend_metrics ts) = sum_or_none (judge_costs ts)"
  "sp_total_cost_incl_judge_usd (spend_metrics ts) = fst (incl_judge (sum_or_none (known_costs ts)) (sum_or_none (judge_costs ts)))"
  "sp_total_cost_by_role (spend_metrics ts) = cost_by_role_rows ts"
  by (simp_all add: spend_metrics_def Let_def)

text \<open>
  Property C17.  A run is measured as one pool of trials.  The counts, the aborts per reason, the outcomes per key in
  their order, the micro averages of success and score, and the agents' and the judge's known cost of a run aggregated
  over its tasks are those of one task that ran all the trials.
\<close>

theorem run_metrics_pool_the_trials:
  assumes tasks: "tasks_measured tss ms" and run: "calculate_aggregate_metrics ms True = Some a"
    and one: "calculate_task_metrics (concat tss) = Inr (Some pool)"
  shows "ag_total_trials a = length (concat tss) \<and> ag_measured_trials a = tm_measured pool \<and>
    ag_harness_errors a = pt_harness_errors (tm_partition pool) \<and> ag_ungradeable a = pt_ungradeable (tm_partition pool) \<and>
    ag_infrastructure_aborts a = pt_infrastructure_aborts (tm_partition pool) \<and>
    ag_outcomes_by_reason a = pt_outcomes_by_reason (tm_partition pool) \<and>
    ag_averages a = Micro_average (tm_success_rate pool) (ma_avg_score (tm_averages pool)) \<and>
    ag_total_cost_usd a = sp_total_cost_usd (tm_spend pool) \<and> ag_judge_cost_usd a = sp_judge_cost_usd (tm_spend pool)"
proof -
  note reads = task_metrics_reads [OF one]
  have sums: "sum_list (map (\<lambda>m. pt_total_trials (tm_partition m)) ms) = length (concat tss)"
    "sum_list (map tm_measured ms) = length (measured (concat tss))"
    "sum_list (map (\<lambda>m. pt_harness_errors (tm_partition m)) ms) = count_list (map classify_trial_outcome (concat tss)) HARNESS_ERROR"
    "sum_list (map (\<lambda>m. pt_ungradeable (tm_partition m)) ms) = count_list (map classify_trial_outcome (concat tss)) UNGRADEABLE"
    unfolding trials_figure.pooled measured_figure.pooled class_figure.pooled
    by (intro arg_cong [where f = sum_list] map_tasks [OF tasks]; simp add: task_metrics_reads partition_reads)+
  have costs: "List.map_filter (\<lambda>m. sp_total_cost_usd (tm_spend m)) ms = List.map_filter (\<lambda>ts. sum_or_none (known_costs ts)) tss"
    "List.map_filter (\<lambda>m. sp_judge_cost_usd (tm_spend m)) ms = List.map_filter (\<lambda>ts. sum_or_none (judge_costs ts)) tss"
    by (rule map_filter_tasks [OF tasks], simp add: task_metrics_reads spend_reads)+
  have avg: "ag_averages a = Micro_average (tm_success_rate pool) (ma_avg_score (tm_averages pool))"
    using run micro_average_pools [OF tasks]
    by (auto simp: calculate_aggregate_metrics_def Let_def reads measured_averages_def split: if_splits)
  show ?thesis
    using run avg sums merge_aborts_pools [OF tasks] merge_outcomes_pools [OF tasks]
    by (auto simp: calculate_aggregate_metrics_def Let_def reads partition_reads costs spend_reads sum_or_none_pools concat_figures
        split: if_splits)
qed

section \<open>Two totals of one cost\<close>

text \<open>What the roll-up of a trial promises: its rows add up to its cost, and no row is the judge's.\<close>

definition reconciled :: "Trajectory \<Rightarrow> bool" where
  "reconciled t \<longleftrightarrow>
     rolled_up_cost (tj_metrics t) = (case mx_cost_usd (tj_metrics t) of None \<Rightarrow> 0 | Some c \<Rightarrow> c) \<and>
     list_all (\<lambda>row. cbr_role row \<noteq> ''judge'') (mx_cost_by_role (tj_metrics t))"

lemma spend_add_keys [simp]: "fst ` set (spend_add key c ts d) = insert key (fst ` set d)"
  by (simp add: spend_add_def)

lemma fold_spend_keys: "fst ` set (fold (\<lambda>x. spend_add (k x) (c x) (ts x)) xs d) = fst ` set d \<union> k ` set xs"
  by (induction xs arbitrary: d) auto

lemma rollup_reconciled:
  assumes "tallied m" and "list_all (\<lambda>call. pc_role call \<noteq> ''judge'') (us_calls (mx_usage m))"
    and "tj_metrics t = apply_cost_rollup agent_model m"
  shows "reconciled t"
proof -
  let ?pairs = "with_residual agent_model m (spend_by_pair (us_calls (mx_usage m)))"
  have "fst ` set (spend_by_pair calls) = (\<lambda>call. (pc_role call, pc_model call)) ` set calls" for calls
    by (simp add: spend_by_pair_def fold_spend_keys)
  then have "fst ` fst ` set (spend_by_pair calls) = pc_role ` set calls" for calls by (simp add: image_image)
  then have "fst ` fst ` set ?pairs \<subseteq> insert ''agent'' (pc_role ` set (us_calls (mx_usage m)))"
    by (simp add: with_residual_def Let_def subset_insertI split: option.split)
  moreover have "''judge'' \<notin> insert ''agent'' (pc_role ` set (us_calls (mx_usage m)))"
    using assms(2) by (auto simp: list_all_iff)
  ultimately have "''judge'' \<notin> fst ` fst ` set ?pairs" by (rule contra_subsetD)
  moreover have "fst ` set (spend_by_role ?pairs) = fst ` fst ` set ?pairs"
    using fold_spend_keys [of "\<lambda>p. fst (fst p)" "\<lambda>p. fst (snd p)" "\<lambda>p. snd (snd p)" ?pairs "[]"]
    by (simp add: spend_by_role_def case_prod_beta' image_image)
  moreover have "cbr_role ` set (mx_cost_by_role (apply_cost_rollup agent_model m)) = fst ` set (spend_by_role ?pairs)"
    by (auto simp: apply_cost_rollup_def Let_def case_prod_beta' image_image)
  ultimately have "list_all (\<lambda>row. cbr_role row \<noteq> ''judge'') (mx_cost_by_role (apply_cost_rollup agent_model m))"
    unfolding list_all_iff by (metis imageI)
  moreover have "mx_cost_usd (apply_cost_rollup agent_model m) = mx_cost_usd m" by (simp add: apply_cost_rollup_def Let_def)
  ultimately show ?thesis using tallied_rollup [OF assms(1)] by (simp add: reconciled_def assms(3))
qed

lemma buckets_cost: "spend_cost (trial_buckets ts) = sum_list (map (\<lambda>t. rolled_up_cost (tj_metrics t)) ts)"
  unfolding trial_buckets_def fold_spend_sums
  by (simp add: map_concat comp_def) (induction ts; simp add: rolled_up_cost_def)

lemma reconciled_sum:
  "list_all reconciled ts \<Longrightarrow> sum_list (map (\<lambda>t. rolled_up_cost (tj_metrics t)) ts) = sum_list (known_costs ts)"
  by (induction ts) (simp_all add: reconciled_def known_costs_def map_filter_simps split: option.splits)

lemma rows_cost:
  assumes "list_all reconciled ts"
  shows "spend_cost (cost_by_role_rows ts) = sum_list (known_costs ts) + sum_list (judge_costs ts)"
proof -
  have "fst ` set (trial_buckets ts) = cbr_role ` set (concat (map (\<lambda>t. mx_cost_by_role (tj_metrics t)) ts))"
    by (simp add: trial_buckets_def fold_spend_keys)
  moreover have "''judge'' \<notin> cbr_role ` set (concat (map (\<lambda>t. mx_cost_by_role (tj_metrics t)) ts))"
    using assms by (fastforce simp: list_all_iff reconciled_def)
  ultimately have "''judge'' \<notin> fst ` set (trial_buckets ts)" by simp
  moreover have "spend_cost (sort_key fst d) = spend_cost d" for d :: "(pystr, spend) dict"
    by (simp add: spend_cost_def sum_list_sort_key)
  ultimately show ?thesis
    using reconciled_sum [OF assms] buckets_cost [of ts]
    by (simp add: cost_by_role_rows_def Let_def judge_costs_def dict_set_new spend_cost_def)
qed

lemma incl_judge_sum:
  "fst (incl_judge (sum_or_none ks) (sum_or_none js)) =
     (if ks = [] \<and> js = [] then None else Some (sum_list ks + sum_list js))"
  by (simp add: incl_judge_def sum_or_none_def)

lemma spend_cost_concat: "spend_cost (concat ds) = sum_list (map spend_cost ds)"
  by (induction ds) (simp_all add: spend_cost_def)

lemma merged_rows_cost:
  assumes "tasks_measured tss ms" and "list_all (list_all reconciled) tss"
  shows "spend_cost (merge_cost_by_role_rows ms) = sum_list (map (\<lambda>ts. sum_list (known_costs ts) + sum_list (judge_costs ts)) tss)"
proof -
  have rows: "map (\<lambda>m. sp_total_cost_by_role (tm_spend m)) ms = map cost_by_role_rows tss"
    by (rule map_tasks [OF assms(1)]) (simp add: task_metrics_reads spend_reads)
  have "spend_cost (merge_cost_by_role_rows ms) = sum_list (map (\<lambda>ts. spend_cost (cost_by_role_rows ts)) tss)"
    unfolding merge_cost_by_role_rows_def rows spend_cost_def [of "sort_key _ _"] sum_list_sort_key
    using fold_spend_sums(1) [of fst "\<lambda>row. fst (snd row)" "\<lambda>row. snd (snd row)" "concat (map cost_by_role_rows tss)" "[]"]
      spend_cost_concat [of "map cost_by_role_rows tss"]
    by (simp add: spend_cost_def [symmetric] comp_def)
  then show ?thesis using assms(2) by (simp add: rows_cost list_all_iff cong: map_cong)
qed

lemma run_costs:
  assumes "tasks_measured tss ms" and "calculate_aggregate_metrics ms weighted = Some a"
  shows "ag_total_cost_incl_judge_usd a = sum_or_none (concat (map (\<lambda>ts. known_costs ts @ judge_costs ts) tss))"
    and "ag_total_cost_by_role a = merge_cost_by_role_rows ms"
proof -
  have "List.map_filter (\<lambda>m. sp_total_cost_incl_judge_usd (tm_spend m)) ms =
      List.map_filter (\<lambda>ts. sum_or_none (known_costs ts @ judge_costs ts)) tss"
    by (rule map_filter_tasks [OF assms(1)]) (simp add: task_metrics_reads spend_reads incl_judge_sum, simp add: sum_or_none_def)
  then show "ag_total_cost_incl_judge_usd a = sum_or_none (concat (map (\<lambda>ts. known_costs ts @ judge_costs ts) tss))"
    using assms(2) by (auto simp: calculate_aggregate_metrics_def Let_def sum_or_none_pools split: if_splits)
  show "ag_total_cost_by_role a = merge_cost_by_role_rows ms"
    using assms(2) by (auto simp: calculate_aggregate_metrics_def Let_def split: if_splits)
qed

text \<open>
  Property C22.  A run's cost has one total.  Where the roll-up of every trial reconciles, the grand total over the
  roles and the total of agents and judge are the same figure, known or unknown together, unless no role
  has a row at all: then the grand total is unknown, also for a run whose known cost is zero.
\<close>

theorem role_plane_totals_the_run:
  assumes tasks: "tasks_measured tss ms" and ok: "list_all (list_all reconciled) tss"
    and run: "calculate_aggregate_metrics ms weighted = Some a"
  shows "ag_total_cost_incl_all_usd a = (if ag_total_cost_by_role a = [] then None else ag_total_cost_incl_judge_usd a)"
proof -
  let ?known = "\<lambda>ts. known_costs ts @ judge_costs ts"
  note incl = run_costs(1) [OF tasks run]
  have "sum_list (concat (map ?known tss)) = spend_cost (merge_cost_by_role_rows ms)"
    unfolding merged_rows_cost [OF tasks ok] by (induction tss) (simp_all add: add.assoc)
  then show ?thesis
    using run incl
    by (auto simp: calculate_aggregate_metrics_def Let_def role_plane_grand_total_def spend_cost_def sum_or_none_def split: if_splits)
qed

section \<open>A run of two tasks\<close>

definition demo_metrics :: "pyfloat \<Rightarrow> Metrics" where
  "demo_metrics cost = apply_cost_rollup (Some ''m'') (record_generation
     \<lparr>gs_usage = \<lparr>us_tokens = no_tokens, us_calls = [\<lparr>pc_role = ''agent'', pc_model = Some ''m'', pc_tokens = no_tokens,
        pc_cost_usd = Some cost, pc_latency_s = 1\<rparr>]\<rparr>, gs_cost_usd = Some cost\<rparr> (tj_metrics timed_out_trial))"

definition demo_graded :: "bool \<Rightarrow> pyfloat \<Rightarrow> Trajectory" where
  "demo_graded ok cost = timed_out_trial\<lparr>te_status := Status_COMPLETED, te_termination_reason := Some AGENT_DONE,
     tj_metrics := demo_metrics cost,
     tj_grade := Some \<lparr>grd_binary_pass = ok, grd_score = (if ok then 1 else 1 / 4), grd_reasons = Reasons_text [],
       grd_state_diff = None, grd_judge_usage = Some \<lparr>ju_prompt_tokens = 10, ju_completion_tokens = 5, ju_reasoning_tokens = 0,
         ju_cost_usd = 1\<rparr>, grd_synthesized = None\<rparr>\<rparr>"

definition demo_tasks :: "Trajectory list list" where
  "demo_tasks = [[demo_graded True 2, timed_out_trial], [demo_graded False 3]]"

definition task_metrics_of :: "Trajectory list \<Rightarrow> TaskMetrics" where
  "task_metrics_of ts = the (projr (calculate_task_metrics ts))"

definition demo_run :: AggregateMetrics where
  "demo_run = the (calculate_aggregate_metrics (map task_metrics_of demo_tasks) True)"

lemma task_metrics_of: "ts \<noteq> [] \<Longrightarrow> calculate_task_metrics ts = Inr (Some (task_metrics_of ts))"
  using task_metrics_total [of ts] by (metis option.sel sum.sel(2) task_metrics_of_def)

lemma demo_run_facts:
  "tasks_measured demo_tasks (map task_metrics_of demo_tasks)"
  "calculate_aggregate_metrics (map task_metrics_of demo_tasks) True = Some demo_run"
  "calculate_task_metrics (concat demo_tasks) = Inr (Some (task_metrics_of (concat demo_tasks)))"
proof -
  have "ts \<noteq> []" if "ts \<in> set demo_tasks" for ts using that by (auto simp: demo_tasks_def)
  then show "tasks_measured demo_tasks (map task_metrics_of demo_tasks)"
    unfolding tasks_measured_def list_all2_conv_all_nth by (simp add: task_metrics_of)
  show "calculate_aggregate_metrics (map task_metrics_of demo_tasks) True = Some demo_run"
    by (simp add: demo_run_def calculate_aggregate_metrics_def demo_tasks_def Let_def)
  show "calculate_task_metrics (concat demo_tasks) = Inr (Some (task_metrics_of (concat demo_tasks)))"
    by (rule task_metrics_of) (simp add: demo_tasks_def)
qed

theorem run_metrics_pool_the_trials_witness:
  "ag_averages demo_run = Micro_average (Some (1 / 2)) (Some (5 / 8)) \<and> ag_total_trials demo_run = 3 \<and>
   ag_averages demo_run = Micro_average (tm_success_rate (task_metrics_of (concat demo_tasks)))
     (ma_avg_score (tm_averages (task_metrics_of (concat demo_tasks))))"
proof -
  note reads = task_metrics_reads [OF demo_run_facts(3)]
  have "length (measured (concat demo_tasks)) = 2" "length (filter passed (measured (concat demo_tasks))) = 1"
    "mean_or_none (scores_of (measured (concat demo_tasks))) = Some (5 / 8)" "length (concat demo_tasks) = 3" by code_simp+
  then have "tm_success_rate (task_metrics_of (concat demo_tasks)) = Some (1 / 2)"
    "ma_avg_score (tm_averages (task_metrics_of (concat demo_tasks))) = Some (5 / 8)" "length (concat demo_tasks) = 3"
    by (auto simp: reads measured_averages_def)
  then show ?thesis using run_metrics_pool_the_trials [OF demo_run_facts] by simp
qed

theorem role_plane_totals_the_run_witness:
  "ag_total_cost_incl_all_usd demo_run = Some 7 \<and> ag_total_cost_incl_judge_usd demo_run = Some 7"
proof -
  have ok: "list_all (list_all reconciled) demo_tasks"
    "sum_or_none (concat (map (\<lambda>ts. known_costs ts @ judge_costs ts) demo_tasks)) = Some 7"
    "sum_list (map (\<lambda>ts. sum_list (known_costs ts) + sum_list (judge_costs ts)) demo_tasks) = 7" by code_simp+
  then have "spend_cost (ag_total_cost_by_role demo_run) = 7"
    using merged_rows_cost [OF demo_run_facts(1)] run_costs(2) [OF demo_run_facts(1,2)] by simp
  then have "ag_total_cost_by_role demo_run \<noteq> []" by auto
  then show ?thesis
    using role_plane_totals_the_run [OF demo_run_facts(1) ok(1) demo_run_facts(2)] run_costs(1) [OF demo_run_facts(1,2)] ok(2) by simp
qed

end
