(* ===== verification/Run_Budgets.thy ===== *)
theory Run_Budgets
  imports Loop_Guards
begin

text \<open>
  \<^verbatim>\<open>tolokaforge/core/budgets.py\<close>: the hard caps of a run on cost, time and trials, and their composite.  A
  tracker is a record; the two clocks an operation may read are its argument.  The protocol
  \<^verbatim>\<open>BudgetTracker\<close> is the locale \<open>tracker_contract\<close>.  Locks are left out: the operations are atomic under them.
\<close>

section \<open>Trackers\<close>

datatype BudgetKind = Kind_cost | Kind_time | Kind_sample

record BudgetHit =
  bh_which :: BudgetKind
  bh_threshold :: pyfloat
  bh_value_at_hit :: pyfloat
  bh_timestamp :: pyfloat

record clocks =
  ck_monotonic :: pyfloat
  ck_time :: pyfloat

record CostBudget =
  cb_limit :: pyfloat
  cb_value :: pyfloat
  cb_hit :: "BudgetHit option"

definition new_cost_budget :: "pyfloat \<Rightarrow> pyfloat \<Rightarrow> CostBudget" where
  "new_cost_budget limit_usd initial_cost_usd = \<lparr>cb_limit = limit_usd, cb_value = initial_cost_usd, cb_hit = None\<rparr>"

definition cost_record_cost :: "pyfloat \<Rightarrow> clocks \<Rightarrow> CostBudget \<Rightarrow> CostBudget" where
  "cost_record_cost delta now b = b\<lparr>cb_value := cb_value b + delta\<rparr>"

definition cost_record_terminated :: "clocks \<Rightarrow> CostBudget \<Rightarrow> CostBudget" where
  "cost_record_terminated now b = b"

definition cost_poll :: "clocks \<Rightarrow> CostBudget \<Rightarrow> BudgetHit option \<times> CostBudget" where
  "cost_poll now b =
     (if cb_hit b \<noteq> None then (cb_hit b, b)
      else if cb_value b \<ge> cb_limit b then
        let hit = \<lparr>bh_which = Kind_cost, bh_threshold = cb_limit b, bh_value_at_hit = cb_value b, bh_timestamp = ck_time now\<rparr>
        in (Some hit, b\<lparr>cb_hit := Some hit\<rparr>)
      else (None, b))"

record TimeBudget =
  tb_limit :: pyfloat
  tb_start :: "pyfloat option"
  tb_hit :: "BudgetHit option"

definition new_time_budget :: "pyfloat \<Rightarrow> TimeBudget" where
  "new_time_budget limit_seconds = \<lparr>tb_limit = limit_seconds, tb_start = None, tb_hit = None\<rparr>"

definition start_clock_if_needed :: "clocks \<Rightarrow> TimeBudget \<Rightarrow> TimeBudget" where
  "start_clock_if_needed now b = (if tb_start b = None then b\<lparr>tb_start := Some (ck_monotonic now)\<rparr> else b)"

definition time_record_cost :: "pyfloat \<Rightarrow> clocks \<Rightarrow> TimeBudget \<Rightarrow> TimeBudget" where
  "time_record_cost delta now b = start_clock_if_needed now b"

definition time_record_terminated :: "clocks \<Rightarrow> TimeBudget \<Rightarrow> TimeBudget" where
  "time_record_terminated now b = start_clock_if_needed now b"

definition time_poll :: "clocks \<Rightarrow> TimeBudget \<Rightarrow> BudgetHit option \<times> TimeBudget" where
  "time_poll now b =
     (if tb_hit b \<noteq> None then (tb_hit b, b)
      else case tb_start b of
             None \<Rightarrow> (None, b)
           | Some start \<Rightarrow>
               let elapsed = ck_monotonic now - start in
               if elapsed \<ge> tb_limit b then
                 let hit = \<lparr>bh_which = Kind_time, bh_threshold = tb_limit b, bh_value_at_hit = elapsed, bh_timestamp = ck_time now\<rparr>
                 in (Some hit, b\<lparr>tb_hit := Some hit\<rparr>)
               else (None, b))"

record SampleBudget =
  sa_limit :: int
  sa_count :: int
  sa_hit :: "BudgetHit option"

definition new_sample_budget :: "int \<Rightarrow> SampleBudget" where
  "new_sample_budget limit = \<lparr>sa_limit = limit, sa_count = 0, sa_hit = None\<rparr>"

definition sample_record_cost :: "pyfloat \<Rightarrow> clocks \<Rightarrow> SampleBudget \<Rightarrow> SampleBudget" where
  "sample_record_cost delta now b = b"

definition sample_record_terminated :: "clocks \<Rightarrow> SampleBudget \<Rightarrow> SampleBudget" where
  "sample_record_terminated now b = b\<lparr>sa_count := sa_count b + 1\<rparr>"

definition sample_poll :: "clocks \<Rightarrow> SampleBudget \<Rightarrow> BudgetHit option \<times> SampleBudget" where
  "sample_poll now b =
     (if sa_hit b \<noteq> None then (sa_hit b, b)
      else if sa_count b \<ge> sa_limit b then
        let hit = \<lparr>bh_which = Kind_sample, bh_threshold = of_int (sa_limit b), bh_value_at_hit = of_int (sa_count b),
                   bh_timestamp = ck_time now\<rparr>
        in (Some hit, b\<lparr>sa_hit := Some hit\<rparr>)
      else (None, b))"

section \<open>The composite\<close>

datatype budget_tracker = Tracker_cost CostBudget | Tracker_time TimeBudget | Tracker_sample SampleBudget

fun record_generation_cost :: "pyfloat \<Rightarrow> clocks \<Rightarrow> budget_tracker \<Rightarrow> budget_tracker" where
  "record_generation_cost delta now (Tracker_cost b) = Tracker_cost (cost_record_cost delta now b)"
| "record_generation_cost delta now (Tracker_time b) = Tracker_time (time_record_cost delta now b)"
| "record_generation_cost delta now (Tracker_sample b) = Tracker_sample (sample_record_cost delta now b)"

fun record_trial_terminated :: "clocks \<Rightarrow> budget_tracker \<Rightarrow> budget_tracker" where
  "record_trial_terminated now (Tracker_cost b) = Tracker_cost (cost_record_terminated now b)"
| "record_trial_terminated now (Tracker_time b) = Tracker_time (time_record_terminated now b)"
| "record_trial_terminated now (Tracker_sample b) = Tracker_sample (sample_record_terminated now b)"

fun tracker_poll :: "clocks \<Rightarrow> budget_tracker \<Rightarrow> BudgetHit option \<times> budget_tracker" where
  "tracker_poll now (Tracker_cost b) = map_prod id Tracker_cost (cost_poll now b)"
| "tracker_poll now (Tracker_time b) = map_prod id Tracker_time (time_poll now b)"
| "tracker_poll now (Tracker_sample b) = map_prod id Tracker_sample (sample_poll now b)"

type_synonym CompositeBudget = "budget_tracker list"

definition new_composite_budget :: "budget_tracker list \<Rightarrow> exn + CompositeBudget" where
  "new_composite_budget trackers =
     (if trackers = [] then Inl (value_error ''CompositeBudget requires at least one tracker'') else Inr trackers)"

definition composite_record_cost :: "pyfloat \<Rightarrow> clocks \<Rightarrow> CompositeBudget \<Rightarrow> CompositeBudget" where
  "composite_record_cost delta now b = map (record_generation_cost delta now) b"

definition composite_record_terminated :: "clocks \<Rightarrow> CompositeBudget \<Rightarrow> CompositeBudget" where
  "composite_record_terminated now b = map (record_trial_terminated now) b"

fun composite_poll :: "clocks \<Rightarrow> CompositeBudget \<Rightarrow> BudgetHit option \<times> CompositeBudget" where
  "composite_poll now [] = (None, [])"
| "composite_poll now (tracker # trackers) =
     (case tracker_poll now tracker of
        (Some hit, tracker') \<Rightarrow> (Some hit, tracker' # trackers)
      | (None, tracker') \<Rightarrow> map_prod id (\<lambda>rest. tracker' # rest) (composite_poll now trackers))"

definition make_budget :: "pyfloat option \<Rightarrow> pyfloat option \<Rightarrow> int option \<Rightarrow> pyfloat \<Rightarrow> CompositeBudget option" where
  "make_budget cost_limit_usd time_limit_seconds sample_limit initial_cost_usd =
     (let trackers =
        (case cost_limit_usd of None \<Rightarrow> [] | Some limit \<Rightarrow> [Tracker_cost (new_cost_budget limit initial_cost_usd)]) @
        (case time_limit_seconds of None \<Rightarrow> [] | Some limit \<Rightarrow> [Tracker_time (new_time_budget limit)]) @
        (case sample_limit of None \<Rightarrow> [] | Some limit \<Rightarrow> [Tracker_sample (new_sample_budget limit)])
      in if trackers = [] then None else Some trackers)"

section \<open>What a tracker promises\<close>

datatype budget_event = Cost_recorded pyfloat | Trial_terminated | Budget_polled

text \<open>
  The protocol's promise: \<^verbatim>\<open>poll\<close> freezes what it first reports and nothing else touches it.
\<close>

locale tracker_contract =
  fixes on_cost :: "pyfloat \<Rightarrow> clocks \<Rightarrow> 's \<Rightarrow> 's" and on_terminated :: "clocks \<Rightarrow> 's \<Rightarrow> 's"
    and on_poll :: "clocks \<Rightarrow> 's \<Rightarrow> BudgetHit option \<times> 's" and frozen :: "'s \<Rightarrow> BudgetHit option"
  assumes cost_keeps: "frozen (on_cost delta now s) = frozen s"
    and terminated_keeps: "frozen (on_terminated now s) = frozen s"
    and poll_freezes: "on_poll now s = (r, s') \<Longrightarrow> frozen s' = r"
    and poll_repeats: "frozen s = Some hit \<Longrightarrow> on_poll now s = (Some hit, s)"
begin

definition after :: "budget_event \<times> clocks \<Rightarrow> 's \<Rightarrow> 's" where
  "after e s = (case e of
      (Cost_recorded delta, now) \<Rightarrow> on_cost delta now s
    | (Trial_terminated, now) \<Rightarrow> on_terminated now s
    | (Budget_polled, now) \<Rightarrow> snd (on_poll now s))"

lemma step_frozen: "frozen s = Some hit \<Longrightarrow> frozen (after e s) = Some hit"
  by (cases e; cases "fst e") (auto simp: after_def cost_keeps terminated_keeps poll_repeats)

lemma stays_frozen: "frozen s = Some hit \<Longrightarrow> frozen (fold after es s) = Some hit"
  by (induction es arbitrary: s) (simp_all add: step_frozen)

lemma poll_idempotent:
  "on_poll now s = (Some hit, s') \<Longrightarrow> on_poll later (fold after es s') = (Some hit, fold after es s')"
  by (intro poll_repeats stays_frozen) (simp add: poll_freezes)

end

interpretation cost_tracker: tracker_contract cost_record_cost cost_record_terminated cost_poll cb_hit
  by unfold_locales (auto simp: cost_record_cost_def cost_record_terminated_def cost_poll_def Let_def split: if_splits)

interpretation time_tracker: tracker_contract time_record_cost time_record_terminated time_poll tb_hit
  by unfold_locales (auto simp: time_record_cost_def time_record_terminated_def start_clock_if_needed_def time_poll_def Let_def
      split: if_splits option.splits)

interpretation sample_tracker: tracker_contract sample_record_cost sample_record_terminated sample_poll sa_hit
  by unfold_locales (auto simp: sample_record_cost_def sample_record_terminated_def sample_poll_def Let_def split: if_splits)

fun tracker_hit :: "budget_tracker \<Rightarrow> BudgetHit option" where
  "tracker_hit (Tracker_cost b) = cb_hit b"
| "tracker_hit (Tracker_time b) = tb_hit b"
| "tracker_hit (Tracker_sample b) = sa_hit b"

interpretation any_tracker: tracker_contract record_generation_cost record_trial_terminated tracker_poll tracker_hit
proof
  show "tracker_hit (record_generation_cost delta now s) = tracker_hit s" for delta now s
    by (cases s) (simp_all add: cost_tracker.cost_keeps time_tracker.cost_keeps sample_tracker.cost_keeps)
  show "tracker_hit (record_trial_terminated now s) = tracker_hit s" for now s
    by (cases s) (simp_all add: cost_tracker.terminated_keeps time_tracker.terminated_keeps sample_tracker.terminated_keeps)
  show "tracker_hit s' = r" if "tracker_poll now s = (r, s')" for now s r s'
    using that by (cases s)
      (auto simp: map_prod_def dest: cost_tracker.poll_freezes time_tracker.poll_freezes sample_tracker.poll_freezes
        split: prod.splits)
  show "tracker_poll now s = (Some hit, s)" if "tracker_hit s = Some hit" for now s hit
    using that by (cases s)
      (simp_all add: cost_tracker.poll_repeats time_tracker.poll_repeats sample_tracker.poll_repeats)
qed

section \<open>A history of a run's budget\<close>

fun composite_after :: "budget_event \<times> clocks \<Rightarrow> CompositeBudget \<Rightarrow> CompositeBudget" where
  "composite_after (Cost_recorded delta, now) b = composite_record_cost delta now b"
| "composite_after (Trial_terminated, now) b = composite_record_terminated now b"
| "composite_after (Budget_polled, now) b = snd (composite_poll now b)"

definition spent :: "(budget_event \<times> clocks) list \<Rightarrow> pyfloat" where
  "spent es = sum_list (map (\<lambda>(e, _). case e of Cost_recorded delta \<Rightarrow> delta | _ \<Rightarrow> 0) es)"

definition terminated :: "(budget_event \<times> clocks) list \<Rightarrow> int" where
  "terminated es = int (length (filter (\<lambda>(e, _). e = Trial_terminated) es))"

definition clock_started :: "(budget_event \<times> clocks) list \<Rightarrow> pyfloat option" where
  "clock_started es =
     (case filter (\<lambda>(e, _). e \<noteq> Budget_polled) es of [] \<Rightarrow> None | (_, now) # _ \<Rightarrow> Some (ck_monotonic now))"

text \<open>Whether a limit is reached at a time, by the history alone.\<close>

fun limit_reached :: "pyfloat \<Rightarrow> (budget_event \<times> clocks) list \<Rightarrow> pyfloat \<Rightarrow> BudgetKind \<times> pyfloat \<Rightarrow> bool" where
  "limit_reached initial es now (Kind_cost, limit) = (limit \<le> initial + spent es)"
| "limit_reached initial es now (Kind_time, limit) =
     (case clock_started es of None \<Rightarrow> False | Some start \<Rightarrow> limit \<le> now - start)"
| "limit_reached initial es now (Kind_sample, limit) = (limit \<le> of_int (terminated es))"

fun limit_of :: "budget_tracker \<Rightarrow> BudgetKind \<times> pyfloat" where
  "limit_of (Tracker_cost b) = (Kind_cost, cb_limit b)"
| "limit_of (Tracker_time b) = (Kind_time, tb_limit b)"
| "limit_of (Tracker_sample b) = (Kind_sample, of_int (sa_limit b))"

text \<open>A tracker as a history leaves it: a hit it froze is one the history still reaches.\<close>

fun tracks :: "pyfloat \<Rightarrow> (budget_event \<times> clocks) list \<Rightarrow> pyfloat \<Rightarrow> budget_tracker \<Rightarrow> bool" where
  "tracks initial es now (Tracker_cost b) =
     (cb_value b = initial + spent es \<and> (cb_hit b \<noteq> None \<longrightarrow> limit_reached initial es now (Kind_cost, cb_limit b)))"
| "tracks initial es now (Tracker_time b) =
     (tb_start b = clock_started es \<and> (tb_hit b \<noteq> None \<longrightarrow> limit_reached initial es now (Kind_time, tb_limit b)))"
| "tracks initial es now (Tracker_sample b) =
     (sa_count b = terminated es \<and> (sa_hit b \<noteq> None \<longrightarrow> limit_reached initial es now (Kind_sample, of_int (sa_limit b))))"

fun honest_event :: "budget_event \<Rightarrow> bool" where
  "honest_event (Cost_recorded delta) = (0 \<le> delta)"
| "honest_event _ = True"

lemma history_snoc:
  "spent (es @ [(e, c)]) = spent es + (case e of Cost_recorded delta \<Rightarrow> delta | _ \<Rightarrow> 0)"
  "terminated (es @ [(e, c)]) = terminated es + (if e = Trial_terminated then 1 else 0)"
  "clock_started (es @ [(e, c)]) =
     (if clock_started es = None \<and> e \<noteq> Budget_polled then Some (ck_monotonic c) else clock_started es)"
  by (auto simp: spent_def terminated_def clock_started_def split: list.splits)

lemma limit_stays_reached:
  assumes "limit_reached initial es now l" and "honest_event e" and "now \<le> ck_monotonic c"
  shows "limit_reached initial (es @ [(e, c)]) (ck_monotonic c) l"
  using assms by (cases "(initial, es, now, l)" rule: limit_reached.cases; cases e) (auto simp: history_snoc split: option.splits)

lemma limit_stays_reached_later:
  assumes "limit_reached initial es now l" and "now \<le> now'"
  shows "limit_reached initial es now' l"
  using assms by (cases "(initial, es, now, l)" rule: limit_reached.cases) (auto split: option.splits)

lemma tracks_poll:
  assumes "tracks initial es now t" and "now \<le> ck_monotonic c"
  shows "fst (tracker_poll c t) \<noteq> None \<longleftrightarrow> limit_reached initial es (ck_monotonic c) (limit_of t)"
    and "tracks initial (es @ [(Budget_polled, c)]) (ck_monotonic c) (snd (tracker_poll c t))"
    and "limit_of (snd (tracker_poll c t)) = limit_of t"
  using assms
  by (cases t; force simp: cost_poll_def time_poll_def sample_poll_def Let_def history_snoc split: option.splits if_splits)+

lemma tracks_unpolled:
  "tracks initial es now t \<Longrightarrow> now \<le> ck_monotonic c \<Longrightarrow> tracks initial (es @ [(Budget_polled, c)]) (ck_monotonic c) t"
  by (cases t) (auto simp: history_snoc split: option.splits)

lemma tracks_records:
  assumes "tracks initial es now t" and "now \<le> ck_monotonic c"
  shows "0 \<le> delta \<Longrightarrow> tracks initial (es @ [(Cost_recorded delta, c)]) (ck_monotonic c) (record_generation_cost delta c t)"
    and "tracks initial (es @ [(Trial_terminated, c)]) (ck_monotonic c) (record_trial_terminated c t)"
    and "limit_of (record_generation_cost delta c t) = limit_of t" and "limit_of (record_trial_terminated c t) = limit_of t"
  using assms
  by (cases t; auto simp: cost_record_cost_def cost_record_terminated_def time_record_cost_def time_record_terminated_def
      start_clock_if_needed_def sample_record_cost_def sample_record_terminated_def history_snoc split: option.splits)+

lemma composite_poll_all:
  assumes "now \<le> ck_monotonic c"
  shows "list_all (tracks initial es now) b \<Longrightarrow>
    (fst (composite_poll c b) \<noteq> None \<longleftrightarrow> list_ex (limit_reached initial es (ck_monotonic c)) (map limit_of b)) \<and>
    list_all (tracks initial (es @ [(Budget_polled, c)]) (ck_monotonic c)) (snd (composite_poll c b)) \<and>
    map limit_of (snd (composite_poll c b)) = map limit_of b"
proof (induction b)
  case (Cons t b)
  obtain r t' where t: "tracker_poll c t = (r, t')" by fastforce
  have here: "tracks initial es now t" using Cons.prems by simp
  note polled = tracks_poll [OF here assms, unfolded t fst_conv snd_conv]
  have rest: "list_all (tracks initial (es @ [(Budget_polled, c)]) (ck_monotonic c)) b"
    using Cons.prems tracks_unpolled [OF _ assms] by (simp add: list_all_iff)
  show ?case
  proof (cases r)
    case None
    then show ?thesis using Cons polled by (simp add: t)
  next
    case (Some hit)
    then show ?thesis using polled rest by (simp add: t)
  qed
qed simp

lemma composite_poll_tracks:
  assumes "list_all (tracks initial es now) b" and "now \<le> ck_monotonic c"
  shows "fst (composite_poll c b) \<noteq> None \<longleftrightarrow> list_ex (limit_reached initial es (ck_monotonic c)) (map limit_of b)"
    and "list_all (tracks initial (es @ [(Budget_polled, c)]) (ck_monotonic c)) (snd (composite_poll c b))"
    and "map limit_of (snd (composite_poll c b)) = map limit_of b"
  using composite_poll_all [OF assms(2,1)] by simp_all

lemma composite_after_tracks:
  assumes "list_all (tracks initial es now) b" and "now \<le> ck_monotonic c" and "honest_event e"
  shows "list_all (tracks initial (es @ [(e, c)]) (ck_monotonic c)) (composite_after (e, c) b)"
    and "map limit_of (composite_after (e, c) b) = map limit_of b"
proof -
  have t: "tracks initial es now t" if "t \<in> set b" for t using assms(1) that by (simp add: list_all_iff)
  show "list_all (tracks initial (es @ [(e, c)]) (ck_monotonic c)) (composite_after (e, c) b)"
    using assms(3) tracks_records(1,2) [OF t assms(2)] composite_poll_tracks(2) [OF assms(1,2)]
    by (cases e) (auto simp: composite_record_cost_def composite_record_terminated_def list_all_iff)
  show "map limit_of (composite_after (e, c) b) = map limit_of b"
    using tracks_records(3,4) [OF t assms(2)] composite_poll_tracks(3) [OF assms(1,2)]
    by (cases e) (auto simp: composite_record_cost_def composite_record_terminated_def)
qed

definition readings :: "(budget_event \<times> clocks) list \<Rightarrow> pyfloat list" where
  "readings es = map (\<lambda>(e, c). ck_monotonic c) es"

lemma last_below: "sorted (xs @ [y]) \<Longrightarrow> xs \<noteq> [] \<Longrightarrow> last xs \<le> (y :: pyfloat)"
  by (simp add: sorted_append)

lemma history_tracks:
  assumes "list_all (tracks initial [] start) b" and "sorted (start # readings es)"
    and "list_all (\<lambda>(e, c). honest_event e) es"
  shows "list_all (tracks initial es (last (start # readings es))) (fold composite_after es b) \<and>
    map limit_of (fold composite_after es b) = map limit_of b"
  using assms(2,3)
proof (induction es rule: rev_induct)
  case Nil
  then show ?case using assms(1) by (simp add: readings_def)
next
  case (snoc ec es)
  obtain e c where ec: "ec = (e, c)" by (cases ec)
  let ?now = "last (start # readings es)"
  have s: "sorted ((start # readings es) @ [ck_monotonic c])" using snoc.prems(1) by (simp add: ec readings_def)
  then have "?now \<le> ck_monotonic c" by (rule last_below) simp
  moreover have "sorted (start # readings es)" using s unfolding sorted_append by blast
  moreover have "last (start # readings (es @ [ec])) = ck_monotonic c" by (simp add: readings_def ec)
  ultimately show ?case
    using snoc composite_after_tracks [of initial es ?now "fold composite_after es b" c e] by (simp add: ec)
qed

lemma made_budget_tracks:
  assumes "make_budget cost_limit time_limit sample_limit initial = Some b"
  shows "list_all (tracks initial [] start) b"
  using assms
  by (auto simp: make_budget_def Let_def new_cost_budget_def new_time_budget_def new_sample_budget_def spent_def terminated_def
      clock_started_def split: option.splits if_splits)

lemma hit_iff_limit_reached:
  assumes made: "make_budget cost_limit time_limit sample_limit initial = Some b"
    and clock: "sorted (readings es @ [ck_monotonic now])"
    and costs: "list_all (\<lambda>(e, c). honest_event e) es"
  shows "fst (composite_poll now (fold composite_after es b)) \<noteq> None \<longleftrightarrow>
    list_ex (limit_reached initial es (ck_monotonic now)) (map limit_of b)"
proof -
  let ?start = "hd (readings es @ [ck_monotonic now])"
  let ?last = "last (?start # readings es)"
  have "sorted (?start # readings es @ [ck_monotonic now])"
    using clock by (cases "readings es") simp_all
  then have s: "sorted ((?start # readings es) @ [ck_monotonic now])" by simp
  then have s: "sorted (?start # readings es)" "?last \<le> ck_monotonic now"
    using last_below [OF s] unfolding sorted_append by blast+
  note tracked = history_tracks [OF made_budget_tracks [OF made] s(1) costs]
  show ?thesis using composite_poll_tracks(1) [OF conjunct1 [OF tracked] s(2)] conjunct2 [OF tracked] by simp
qed

lemma reached_limit_persists:
  assumes "limit_reached initial es t l" and "sorted (t # readings later @ [t'])"
    and "list_all (\<lambda>(e, c). honest_event e) later"
  shows "limit_reached initial (es @ later) t' l"
  using assms
proof (induction later arbitrary: es t)
  case Nil
  then show ?case by (auto simp: readings_def intro: limit_stays_reached_later)
next
  case (Cons ec later)
  obtain e c where ec: "ec = (e, c)" by (cases ec)
  have "limit_reached initial (es @ [(e, c)]) (ck_monotonic c) l"
    using Cons.prems by (intro limit_stays_reached) (auto simp: ec readings_def)
  from Cons.IH [OF this] show ?case using Cons.prems(2,3) by (simp add: ec readings_def)
qed

text \<open>
  Property C34.  A run is stopped exactly when one of its caps is reached, and stays stopped.  Take any history of
  recorded costs, terminated trials and polls in which no cost is negative and the clock never runs backwards.  A
  poll of the run's budget reports a hit exactly when the cost spent with what a resumed run had spent before, the
  time since the first record, or the number of terminated trials has reached its limit.  If it reports one, every
  poll after any further such events reports one too.
\<close>

theorem budget_hits_iff_a_limit_is_reached:
  assumes made: "make_budget cost_limit time_limit sample_limit initial = Some b"
    and clock: "sorted (readings (es @ (Budget_polled, now) # later) @ [ck_monotonic again])"
    and costs: "list_all (\<lambda>(e, c). honest_event e) (es @ later)"
  shows "(fst (composite_poll now (fold composite_after es b)) \<noteq> None \<longleftrightarrow>
            list_ex (limit_reached initial es (ck_monotonic now)) (map limit_of b)) \<and>
    (fst (composite_poll now (fold composite_after es b)) \<noteq> None \<longrightarrow>
       fst (composite_poll again (fold composite_after (es @ (Budget_polled, now) # later) b)) \<noteq> None)"
proof -
  let ?later = "(Budget_polled, now) # later"
  have c: "sorted (readings es @ [ck_monotonic now])" "sorted (ck_monotonic now # readings ?later @ [ck_monotonic again])"
    using clock by (auto simp: readings_def sorted_append)
  have h: "list_all (\<lambda>(e, c). honest_event e) es" "list_all (\<lambda>(e, c). honest_event e) ?later"
    "list_all (\<lambda>(e, c). honest_event e) (es @ ?later)"
    using costs by simp_all
  note now = hit_iff_limit_reached [OF made c(1) h(1)]
  have "list_ex (limit_reached initial (es @ ?later) (ck_monotonic again)) (map limit_of b)"
    if "list_ex (limit_reached initial es (ck_monotonic now)) (map limit_of b)"
    using that reached_limit_persists [OF _ c(2) h(2)] unfolding list_ex_iff by blast
  then show ?thesis using now hit_iff_limit_reached [OF made clock h(3)] by blast
qed

definition at_time :: "pyfloat \<Rightarrow> clocks" where
  "at_time t = \<lparr>ck_monotonic = t, ck_time = t\<rparr>"

definition demo_budget :: CompositeBudget where
  "demo_budget = the (make_budget (Some 5) (Some 60) (Some 1) 0)"

definition demo_history :: "(budget_event \<times> clocks) list" where
  "demo_history = [(Cost_recorded 2, at_time 0), (Budget_polled, at_time 1), (Trial_terminated, at_time 2)]"

theorem budget_hits_iff_a_limit_is_reached_witness:
  "list_ex (limit_reached 0 demo_history 3) (map limit_of demo_budget) \<and>
   map_option bh_which (fst (composite_poll (at_time 3) (fold composite_after demo_history demo_budget))) = Some Kind_sample \<and>
   fst (composite_poll (at_time 5) (fold composite_after
     (demo_history @ [(Budget_polled, at_time 3), (Cost_recorded 4, at_time 4)]) demo_budget)) \<noteq> None"
proof -
  have m: "make_budget (Some 5) (Some 60) (Some 1) 0 = Some demo_budget" by (simp add: demo_budget_def make_budget_def Let_def)
  have c: "sorted (readings (demo_history @ (Budget_polled, at_time 3) # [(Cost_recorded 4, at_time 4)]) @ [ck_monotonic (at_time 5)])"
    "list_all (\<lambda>(e, c). honest_event e) (demo_history @ [(Cost_recorded 4, at_time 4)])"
    by (simp_all add: demo_history_def readings_def at_time_def)
  have r: "list_ex (limit_reached 0 demo_history 3) (map limit_of demo_budget)"
    "map_option bh_which (fst (composite_poll (at_time 3) (fold composite_after demo_history demo_budget))) = Some Kind_sample"
    by code_simp+
  then have "fst (composite_poll (at_time 3) (fold composite_after demo_history demo_budget)) \<noteq> None" by auto
  then show ?thesis using budget_hits_iff_a_limit_is_reached [OF m c] r by blast
qed

text \<open>
  The composite is not a tracker as the protocol asks: it reports the first of its trackers that has hit, so a later
  hit of an earlier tracker replaces the one reported before.
\<close>

lemma composite_report_changes:
  "let b1 = fold composite_after demo_history demo_budget;
       polled = composite_poll (at_time 3) b1;
       later = composite_poll (at_time 5) (composite_record_cost 4 (at_time 4) (snd polled))
   in map_option bh_which (fst polled) = Some Kind_sample \<and> map_option bh_which (fst later) = Some Kind_cost"
  by code_simp

end
