(* ===== verification/Run_Resume.thy ===== *)
theory Run_Resume
  imports Loop_Guards
begin

text \<open>
  \<^verbatim>\<open>tolokaforge/core/resume.py\<close>: the ledger of a run (\<^verbatim>\<open>RunState\<close>), its marks, and what a resumed run
  reads from it.  The state file is modelled by what loading it gives; the clock, the directory of a trial and
  the resolution of a path are arguments.  The ledger is kept beside the queue of \<^verbatim>\<open>Run_Queue\<close>; the
  theorem at the end says what a plan made from it counts after any history of marks.
\<close>

section \<open>The ledger\<close>

record TrialState =
  ts_task_id :: pystr
  ts_trial_index :: int
  ts_status :: pystr
  ts_start_ts :: "pyfloat option"
  ts_end_ts :: "pyfloat option"
  ts_binary_pass :: "bool option"
  ts_score :: "pyfloat option"
  ts_error :: "pystr option"

record RunState =
  rs_run_id :: pystr
  rs_config_path :: pystr
  rs_output_dir :: pystr
  rs_start_ts :: pyfloat
  rs_last_updated :: pyfloat
  rs_status :: pystr
  rs_total_trials :: int
  rs_completed_trials :: int
  rs_failed_trials :: int
  rs_trials :: "(pystr, TrialState) dict"
  rs_zero_coverage :: bool
  rs_zero_judge_graded :: bool

definition trial_key :: "pystr \<Rightarrow> int \<Rightarrow> pystr" where
  "trial_key task_id trial_index = task_id @ '':'' @ str_int trial_index"

definition get_pending_trials :: "RunState \<Rightarrow> TrialState list" where
  "get_pending_trials st =
     filter (\<lambda>trial. ts_status trial \<in> {''pending'', ''failed''}) (map snd (rs_trials st))"

definition get_completed_trials :: "RunState \<Rightarrow> TrialState list" where
  "get_completed_trials st = filter (\<lambda>trial. ts_status trial = ''completed'') (map snd (rs_trials st))"

definition state_mark_completed ::
  "pyfloat \<Rightarrow> pystr \<Rightarrow> int \<Rightarrow> bool option \<Rightarrow> pyfloat option \<Rightarrow> RunState \<Rightarrow> RunState" where
  "state_mark_completed now task_id trial_index binary_pass score st =
     (let key = trial_key task_id trial_index in
      case map_of (rs_trials st) key of
        None \<Rightarrow> st
      | Some trial \<Rightarrow> st\<lparr>rs_trials := dict_set key
            (trial\<lparr>ts_status := ''completed'', ts_end_ts := Some now, ts_binary_pass := binary_pass,
                   ts_score := score\<rparr>) (rs_trials st),
          rs_completed_trials := rs_completed_trials st + 1\<rparr>)"

definition state_mark_failed :: "pyfloat \<Rightarrow> pystr \<Rightarrow> int \<Rightarrow> pystr \<Rightarrow> RunState \<Rightarrow> RunState" where
  "state_mark_failed now task_id trial_index error st =
     (let key = trial_key task_id trial_index in
      case map_of (rs_trials st) key of
        None \<Rightarrow> st
      | Some trial \<Rightarrow> st\<lparr>rs_trials := dict_set key
            (trial\<lparr>ts_status := ''failed'', ts_end_ts := Some now, ts_error := Some error\<rparr>) (rs_trials st),
          rs_failed_trials := rs_failed_trials st + 1\<rparr>)"

definition state_mark_running :: "pyfloat \<Rightarrow> pystr \<Rightarrow> int \<Rightarrow> RunState \<Rightarrow> RunState" where
  "state_mark_running now task_id trial_index st =
     (let key = trial_key task_id trial_index in
      case map_of (rs_trials st) key of
        None \<Rightarrow> st
      | Some trial \<Rightarrow> st\<lparr>rs_trials := dict_set key
            (trial\<lparr>ts_status := ''running'', ts_start_ts := Some now\<rparr>) (rs_trials st)\<rparr>)"

section \<open>The manager\<close>

text \<open>
  A state file is absent, unreadable (not JSON, or not a \<^verbatim>\<open>RunState\<close>), or holds a state.
\<close>

datatype state_file = No_state_file | Unreadable_state | Holds RunState

definition load_state :: "state_file \<Rightarrow> RunState option" where
  "load_state f = (case f of Holds st \<Rightarrow> Some st | _ \<Rightarrow> None)"

definition save_state :: "pyfloat \<Rightarrow> RunState \<Rightarrow> RunState" where
  "save_state now st = st\<lparr>rs_last_updated := now\<rparr>"

text \<open>\<open>under_cwd\<close> is the resolved path relative to the resolved working directory, if it lies under it.\<close>

definition normalize_to_relative :: "(pystr \<Rightarrow> pystr option) \<Rightarrow> pystr \<Rightarrow> pystr" where
  "normalize_to_relative under_cwd path =
     (if path \<noteq> [] \<and> hd path = CHR ''/'' then (case under_cwd path of Some rel \<Rightarrow> rel | None \<Rightarrow> path)
      else path)"

definition pending_trial :: "pystr \<Rightarrow> int \<Rightarrow> TrialState" where
  "pending_trial task_id trial_index =
     \<lparr>ts_task_id = task_id, ts_trial_index = trial_index, ts_status = ''pending'', ts_start_ts = None,
      ts_end_ts = None, ts_binary_pass = None, ts_score = None, ts_error = None\<rparr>"

definition planned_attempts :: "pystr list \<Rightarrow> int \<Rightarrow> (pystr \<times> int) list" where
  "planned_attempts task_ids repeats =
     concat (map (\<lambda>task_id. map (Pair task_id) [0 .. repeats - 1]) task_ids)"

text \<open>The three times are the readings of the clock for the start, the field's first value and the save.\<close>

definition initialize_run ::
  "(pystr \<Rightarrow> pystr option) \<Rightarrow> pyfloat \<Rightarrow> pyfloat \<Rightarrow> pyfloat \<Rightarrow> pystr \<Rightarrow> pystr \<Rightarrow> pystr \<Rightarrow> pystr list \<Rightarrow> int \<Rightarrow> RunState" where
  "initialize_run under_cwd now0 now1 now2 output_dir run_id config_path task_ids repeats =
     (let trials = fold (\<lambda>(task_id, trial_idx). dict_set (trial_key task_id trial_idx) (pending_trial task_id trial_idx))
                     (planned_attempts task_ids repeats) []
      in save_state now2
        \<lparr>rs_run_id = run_id, rs_config_path = normalize_to_relative under_cwd config_path,
         rs_output_dir = normalize_to_relative under_cwd output_dir, rs_start_ts = now0, rs_last_updated = now1,
         rs_status = ''running'', rs_total_trials = int (length trials), rs_completed_trials = 0,
         rs_failed_trials = 0, rs_trials = trials, rs_zero_coverage = False, rs_zero_judge_graded = False\<rparr>)"

text \<open>
  What the directory of a trial holds: its trajectory file's text, with what \<^verbatim>\<open>yaml.safe_load\<close> gives for it
  (\<^const>\<open>None\<close> when reading or loading raises).
\<close>

record trial_dir =
  td_trajectory :: "(pystr \<times> pyval option) option"

definition has_infrastructure_error :: "(pystr \<Rightarrow> int \<Rightarrow> trial_dir option) \<Rightarrow> pystr \<Rightarrow> int \<Rightarrow> bool" where
  "has_infrastructure_error dirs task_id trial_index =
     (case dirs task_id trial_index of
        None \<Rightarrow> False
      | Some d \<Rightarrow> (case td_trajectory d of
          None \<Rightarrow> False
        | Some (content, traj_data) \<Rightarrow> (case traj_data of
            Some (VDict d1) \<Rightarrow>
              map_of d1 ''status'' = Some (VStr ''error'') \<or>
              substring ''Error code: 429'' content \<or> substring ''RateLimitError'' content
          | _ \<Rightarrow> False)))"

definition is_completed :: "(pystr \<Rightarrow> int \<Rightarrow> trial_dir option) \<Rightarrow> RunState option \<Rightarrow> pystr \<Rightarrow> int \<Rightarrow> bool" where
  "is_completed dirs run_state task_id trial_index =
     (case run_state of
        None \<Rightarrow> False
      | Some st \<Rightarrow> (case map_of (rs_trials st) (trial_key task_id trial_index) of
          None \<Rightarrow> False
        | Some trial \<Rightarrow>
            if ts_status trial \<noteq> ''completed'' then False
            else if ts_binary_pass trial = Some True then True
            else \<not> has_infrastructure_error dirs task_id trial_index))"

record ResumeInfo =
  ri_run_id :: pystr
  ri_status :: pystr
  ri_total_trials :: int
  ri_completed_trials :: int
  ri_failed_trials :: int
  ri_pending_trials :: int
  ri_progress_pct :: pyfloat
  ri_can_resume :: bool

definition get_resume_info :: "state_file \<Rightarrow> ResumeInfo option" where
  "get_resume_info f = map_option (\<lambda>st.
     let pending = get_pending_trials st; completed = get_completed_trials st in
     \<lparr>ri_run_id = rs_run_id st, ri_status = rs_status st, ri_total_trials = rs_total_trials st,
      ri_completed_trials = int (length completed), ri_failed_trials = rs_failed_trials st,
      ri_pending_trials = int (length pending),
      ri_progress_pct = (if rs_total_trials st > 0 then of_nat (length completed) / of_int (rs_total_trials st) * 100 else 0),
      ri_can_resume = (length pending > 0)\<rparr>) (load_state f)"

record ResumePlan =
  rp_run_id :: pystr
  rp_total :: int
  rp_completed :: int
  rp_already_done :: int
  rp_to_retry :: int
  rp_is_complete :: bool

definition describe_resume_plan :: "(pystr \<Rightarrow> int \<Rightarrow> trial_dir option) \<Rightarrow> state_file \<Rightarrow> ResumePlan option" where
  "describe_resume_plan dirs f = map_option (\<lambda>st.
     let trials = map snd (rs_trials st);
         completed = int (length (filter (\<lambda>trial. ts_status trial = ''completed'') trials));
         already_done = int (length (filter
           (\<lambda>trial. is_completed dirs (Some st) (ts_task_id trial) (ts_trial_index trial)) trials));
         to_retry = rs_total_trials st - already_done
     in \<lparr>rp_run_id = rs_run_id st, rp_total = rs_total_trials st, rp_completed = completed,
         rp_already_done = already_done, rp_to_retry = to_retry, rp_is_complete = (to_retry = 0)\<rparr>) (load_state f)"

definition mark_run_completed :: "pyfloat \<Rightarrow> bool \<Rightarrow> bool \<Rightarrow> state_file \<Rightarrow> state_file" where
  "mark_run_completed now zero_coverage zero_judge_graded f =
     (case load_state f of
        None \<Rightarrow> f
      | Some st \<Rightarrow> Holds (save_state now (st\<lparr>rs_status := ''completed'', rs_zero_coverage := zero_coverage,
          rs_zero_judge_graded := zero_judge_graded\<rparr>)))"

definition mark_run_paused :: "pyfloat \<Rightarrow> state_file \<Rightarrow> state_file" where
  "mark_run_paused now f =
     (case load_state f of None \<Rightarrow> f | Some st \<Rightarrow> Holds (save_state now (st\<lparr>rs_status := ''paused''\<rparr>)))"

section \<open>Which directory is resumed\<close>

text \<open>
  The two files of a run directory, each absent or with what \<^verbatim>\<open>json.loads\<close> gives for its text; truth of a JSON
  value as \<^verbatim>\<open>if value\<close> reads it.
\<close>

datatype resume_error = Not_resumable pystr | Json_raised exn | No_get_attribute

fun py_truth :: "pyval \<Rightarrow> bool" where
  "py_truth VNone = False"
| "py_truth (VBool b) = b"
| "py_truth (VInt i) = (i \<noteq> 0)"
| "py_truth (VFloat q) = (q \<noteq> 0)"
| "py_truth (VStr s) = (s \<noteq> [])"
| "py_truth (VList vs) = (vs \<noteq> [])"
| "py_truth (VDict d) = (d \<noteq> [])"

definition loaded_run_id :: "exn + pyval \<Rightarrow> resume_error + pyval" where
  "loaded_run_id loaded =
     (case loaded of
        Inl e \<Rightarrow> Inl (Json_raised e)
      | Inr (VDict d) \<Rightarrow> Inr (case map_of d ''run_id'' of None \<Rightarrow> VNone | Some v \<Rightarrow> v)
      | Inr _ \<Rightarrow> Inl No_get_attribute)"

definition read_persisted_run_id :: "(exn + pyval) option \<Rightarrow> resume_error + pyval" where
  "read_persisted_run_id engine_file = (case engine_file of None \<Rightarrow> Inr VNone | Some loaded \<Rightarrow> loaded_run_id loaded)"

definition resolve_resume_run_directory ::
  "(exn + pyval) option \<Rightarrow> (exn + pyval) option \<Rightarrow> pystr \<Rightarrow> pystr \<Rightarrow> resume_error + (pyval \<times> pystr)" where
  "resolve_resume_run_directory engine_file run_state_file name run_dir =
     (if engine_file = None \<and> run_state_file = None then Inl (Not_resumable run_dir)
      else bind_res (read_persisted_run_id engine_file) (\<lambda>run_id.
        if py_truth run_id then Inr (run_id, run_dir)
        else case run_state_file of
            None \<Rightarrow> Inr (VStr name, run_dir)
          | Some loaded \<Rightarrow> bind_res (loaded_run_id loaded) (\<lambda>persisted.
              Inr (if py_truth persisted then persisted else VStr name, run_dir))))"

section \<open>Keys\<close>

lemma digit_is_no_colon: "d < 10 \<Longrightarrow> digit_char d \<noteq> CHR '':''"
proof
  assume "d < 10" "digit_char d = CHR '':''"
  then have "of_char (digit_char d) = (58 :: nat)" by simp
  then show False using of_digit_char [OF \<open>d < 10\<close>] \<open>d < 10\<close> by simp
qed

lemma str_nat_no_colon: "CHR '':'' \<notin> set (str_nat n)"
proof (induction n rule: str_nat.induct)
  case (1 n)
  then show ?case
    using digit_is_no_colon [of n] digit_is_no_colon [of "n mod 10"]
    by (cases "n < 10") (auto simp: str_nat.simps [of n])
qed

lemma str_nat_no_minus: "hd (str_nat n) \<noteq> CHR ''-''"
proof (induction n rule: str_nat.induct)
  case (1 n)
  have ne: "str_nat m \<noteq> []" for m by (subst str_nat.simps) simp
  show ?case
  proof (cases "n < 10")
    case True
    have "digit_char n \<noteq> CHR ''-''"
    proof
      assume "digit_char n = CHR ''-''"
      then have "of_char (digit_char n) = (45 :: nat)" by simp
      then show False using of_digit_char [OF True] by simp
    qed
    then show ?thesis using True by (simp add: str_nat.simps [of n])
  next
    case False
    then show ?thesis using 1 ne by (simp add: str_nat.simps [of n])
  qed
qed

lemma str_int_inject [simp]: "str_int i = str_int j \<longleftrightarrow> i = j"
proof -
  have *: "CHR ''-'' # str_nat m \<noteq> str_nat n" for m n
    using str_nat_no_minus [of n] by (metis list.sel(1))
  show ?thesis using * *[symmetric] by (auto simp: str_int_def)
qed

lemma str_int_no_colon: "CHR '':'' \<notin> set (str_int i)"
  using str_nat_no_colon by (simp add: str_int_def)

lemma split_at_last_colon:
  assumes "CHR '':'' \<notin> set a" "CHR '':'' \<notin> set b"
  shows "s @ CHR '':'' # a = t @ CHR '':'' # b \<longleftrightarrow> s = t \<and> a = b"
proof -
  have suffix: "takeWhile (\<lambda>c. c \<noteq> CHR '':'') (rev (u @ CHR '':'' # w)) = rev w" if "CHR '':'' \<notin> set w" for u w
  proof -
    have "takeWhile (\<lambda>c. c \<noteq> CHR '':'') (rev w @ CHR '':'' # rev u) = rev w @ takeWhile (\<lambda>c. c \<noteq> CHR '':'') (CHR '':'' # rev u)"
      using that by (intro takeWhile_append2) auto
    then show ?thesis by simp
  qed
  show ?thesis using suffix [OF assms(1), of s] suffix [OF assms(2), of t] by (metis append_same_eq rev_rev_ident)
qed

lemma trial_key_inject [simp]: "trial_key t i = trial_key u j \<longleftrightarrow> t = u \<and> i = j"
  by (auto simp: trial_key_def split_at_last_colon str_int_no_colon)

section \<open>Histories of marks\<close>

datatype state_mark =
    Mark_running pyfloat pystr int
  | Mark_completed pyfloat pystr int "bool option" "pyfloat option"
  | Mark_failed pyfloat pystr int pystr

fun apply_mark :: "state_mark \<Rightarrow> RunState \<Rightarrow> RunState" where
  "apply_mark (Mark_running now t i) = state_mark_running now t i"
| "apply_mark (Mark_completed now t i p s) = state_mark_completed now t i p s"
| "apply_mark (Mark_failed now t i e) = state_mark_failed now t i e"

fun marked :: "state_mark \<Rightarrow> pystr \<times> int" where
  "marked (Mark_running now t i) = (t, i)"
| "marked (Mark_completed now t i p s) = (t, i)"
| "marked (Mark_failed now t i e) = (t, i)"

fun mark_status :: "state_mark \<Rightarrow> pystr" where
  "mark_status (Mark_running now t i) = ''running''"
| "mark_status (Mark_completed now t i p s) = ''completed''"
| "mark_status (Mark_failed now t i e) = ''failed''"

definition last_mark :: "state_mark list \<Rightarrow> pystr \<times> int \<Rightarrow> state_mark option" where
  "last_mark marks a = find (\<lambda>m. marked m = a) (rev marks)"

definition status_after :: "state_mark list \<Rightarrow> pystr \<times> int \<Rightarrow> pystr" where
  "status_after marks a = (case last_mark marks a of None \<Rightarrow> ''pending'' | Some m \<Rightarrow> mark_status m)"

text \<open>An attempt a resumed run skips: its last mark completed it, and it passed or left no infrastructure error.\<close>

definition settled_after :: "(pystr \<Rightarrow> int \<Rightarrow> trial_dir option) \<Rightarrow> state_mark list \<Rightarrow> pystr \<times> int \<Rightarrow> bool" where
  "settled_after dirs marks a =
     (case last_mark marks a of
        Some (Mark_completed now t i p s) \<Rightarrow> p = Some True \<or> \<not> has_infrastructure_error dirs t i
      | _ \<Rightarrow> False)"

lemma last_mark_snoc: "last_mark (marks @ [m]) a = (if marked m = a then Some m else last_mark marks a)"
  by (simp add: last_mark_def)

text \<open>What the entry of an attempt shows of the marks so far.\<close>

definition entry_shows :: "state_mark list \<Rightarrow> pystr \<times> int \<Rightarrow> TrialState \<Rightarrow> bool" where
  "entry_shows marks a trial \<longleftrightarrow> (ts_task_id trial, ts_trial_index trial) = a \<and>
     ts_status trial = status_after marks a \<and>
     (case last_mark marks a of Some (Mark_completed now t i p s) \<Rightarrow> ts_binary_pass trial = p | _ \<Rightarrow> True)"

abbreviation key_at :: "pystr \<times> int \<Rightarrow> pystr" where
  "key_at a \<equiv> trial_key (fst a) (snd a)"

definition ledger_shows :: "state_mark list \<Rightarrow> (pystr \<times> int) list \<Rightarrow> RunState \<Rightarrow> bool" where
  "ledger_shows marks planned st \<longleftrightarrow> distinct planned \<and> rs_total_trials st = int (length planned) \<and>
     (\<exists>T. rs_trials st = map (\<lambda>a. (key_at a, T a)) planned \<and> (\<forall>a. entry_shows marks a (T a)))"

lemma map_of_planned:
  "map_of (map (\<lambda>a. (key_at a, T a)) planned) (key_at a) = (if a \<in> set planned then Some (T a) else None)"
  by (induction planned) (auto simp: prod_eq_iff)

lemma dict_set_planned:
  "a \<in> set planned \<Longrightarrow> distinct planned \<Longrightarrow>
     dict_set (key_at a) v (map (\<lambda>a. (key_at a, T a)) planned) = map (\<lambda>b. (key_at b, (T(a := v)) b)) planned"
  by (induction planned) (auto simp: prod_eq_iff)

text \<open>A mark on an attempt that is not planned changes nothing and shows nowhere.\<close>

fun mark_entry :: "state_mark \<Rightarrow> TrialState \<Rightarrow> TrialState" where
  "mark_entry (Mark_running now t i) trial = trial\<lparr>ts_status := ''running'', ts_start_ts := Some now\<rparr>"
| "mark_entry (Mark_completed now t i p s) trial =
     trial\<lparr>ts_status := ''completed'', ts_end_ts := Some now, ts_binary_pass := p, ts_score := s\<rparr>"
| "mark_entry (Mark_failed now t i e) trial =
     trial\<lparr>ts_status := ''failed'', ts_end_ts := Some now, ts_error := Some e\<rparr>"

lemma apply_mark_trials:
  "rs_trials (apply_mark m st) =
     (case map_of (rs_trials st) (key_at (marked m)) of
        None \<Rightarrow> rs_trials st | Some trial \<Rightarrow> dict_set (key_at (marked m)) (mark_entry m trial) (rs_trials st))"
  by (cases m)
    (simp_all add: state_mark_running_def state_mark_completed_def state_mark_failed_def Let_def split: option.split)

lemma apply_mark_frame [simp]:
  "rs_total_trials (apply_mark m st) = rs_total_trials st" "rs_run_id (apply_mark m st) = rs_run_id st"
  by (cases m;
      simp add: state_mark_running_def state_mark_completed_def state_mark_failed_def Let_def split: option.split)+

lemma entry_shows_other:
  "entry_shows marks a trial \<Longrightarrow> marked m \<noteq> a \<Longrightarrow> entry_shows (marks @ [m]) a trial"
  by (simp add: entry_shows_def status_after_def last_mark_snoc)

lemma entry_shows_marked:
  "entry_shows marks (marked m) trial \<Longrightarrow> entry_shows (marks @ [m]) (marked m) (mark_entry m trial)"
  by (cases m) (simp_all add: entry_shows_def status_after_def last_mark_snoc)

lemma apply_mark_shows:
  assumes "ledger_shows marks planned st"
  shows "ledger_shows (marks @ [m]) planned (apply_mark m st)"
proof -
  obtain T where T: "rs_trials st = map (\<lambda>a. (key_at a, T a)) planned" "\<And>a. entry_shows marks a (T a)"
    and d: "distinct planned" "rs_total_trials st = int (length planned)"
    using assms by (auto simp: ledger_shows_def)
  define T' where "T' = T(marked m := mark_entry m (T (marked m)))"
  have "rs_trials (apply_mark m st) = map (\<lambda>a. (key_at a, T' a)) planned"
    using d(1) by (auto simp: apply_mark_trials T(1) map_of_planned dict_set_planned T'_def)
  moreover have "entry_shows (marks @ [m]) a (T' a)" for a
    using entry_shows_other [OF T(2), of m a] entry_shows_marked [OF T(2), of m]
    by (cases "marked m = a") (simp_all add: T'_def)
  ultimately show ?thesis using d by (auto simp: ledger_shows_def apply_mark_trials)
qed

lemma marks_show:
  "ledger_shows marks planned st \<Longrightarrow> ledger_shows (marks @ later) planned (fold apply_mark later st)"
proof (induction later arbitrary: marks st)
  case Nil
  then show ?case by simp
next
  case (Cons m later)
  from Cons.IH [OF apply_mark_shows [OF Cons.prems, of m]] show ?case by simp
qed

lemma planned_as_dict:
  "distinct seen \<Longrightarrow> \<exists>planned. distinct planned \<and> set planned = set seen \<union> set as \<and>
     fold (\<lambda>(t, i). dict_set (trial_key t i) (pending_trial t i)) as
       (map (\<lambda>a. (key_at a, pending_trial (fst a) (snd a))) seen) =
     map (\<lambda>a. (key_at a, pending_trial (fst a) (snd a))) planned"
proof (induction as arbitrary: seen)
  case Nil
  then show ?case by auto
next
  case (Cons a as)
  let ?entry = "\<lambda>a. pending_trial (fst a) (snd a)"
  show ?case
  proof (cases "a \<in> set seen")
    case True
    have same: "(?entry(a := ?entry a)) = ?entry" by (rule ext) simp
    from True Cons.IH [OF Cons.prems] dict_set_planned [OF True Cons.prems, of "?entry a" ?entry] show ?thesis
      by (simp add: case_prod_beta same insert_absorb)
  next
    case False
    have "key_at a \<notin> fst ` set (map (\<lambda>a. (key_at a, ?entry a)) seen)"
      using False by (auto simp: prod_eq_iff)
    from dict_set_new [OF this, of "?entry a"] Cons.IH [of "seen @ [a]"] False Cons.prems show ?thesis
      by (simp add: case_prod_beta)
  qed
qed

lemma initialized_ledger_shows:
  assumes "st = initialize_run under_cwd t0 t1 t2 out run_id cfg task_ids repeats"
  shows "\<exists>planned. ledger_shows [] planned st \<and> set planned = set (planned_attempts task_ids repeats)"
proof -
  from planned_as_dict [of "[]" "planned_attempts task_ids repeats"]
  obtain planned where p: "distinct planned" "set planned = set (planned_attempts task_ids repeats)"
    "fold (\<lambda>(t, i). dict_set (trial_key t i) (pending_trial t i)) (planned_attempts task_ids repeats) [] =
      map (\<lambda>a. (key_at a, pending_trial (fst a) (snd a))) planned" by auto
  have "entry_shows [] a (pending_trial (fst a) (snd a))" for a
    by (simp add: entry_shows_def pending_trial_def status_after_def last_mark_def)
  then have "ledger_shows [] planned st"
    using p by (auto simp: ledger_shows_def assms initialize_run_def save_state_def)
  with p(2) show ?thesis by blast
qed

lemma set_planned_attempts: "set (planned_attempts task_ids repeats) = set task_ids \<times> {0..<repeats}"
  by (auto simp: planned_attempts_def)

section \<open>What a resumed run is told\<close>

lemma shown_is_completed:
  assumes "ledger_shows marks planned st" "a \<in> set planned"
  shows "is_completed dirs (Some st) (fst a) (snd a) \<longleftrightarrow> settled_after dirs marks a"
proof -
  obtain T where T: "rs_trials st = map (\<lambda>a. (key_at a, T a)) planned" "entry_shows marks a (T a)"
    using assms(1) unfolding ledger_shows_def by blast
  have "last_mark marks a = Some m \<Longrightarrow> marked m = a" for m
    by (auto simp: last_mark_def find_Some_iff)
  then show ?thesis
    using T(2) assms(2)
    by (auto simp: is_completed_def T(1) map_of_planned settled_after_def entry_shows_def status_after_def
        split: option.splits state_mark.splits)
qed

lemma count_planned:
  assumes "distinct planned"
  shows "int (length (filter P planned)) = int (card {a \<in> set planned. P a})"
  using assms distinct_card [OF distinct_filter [OF assms, of P]] by simp

lemma shown_plan:
  assumes "ledger_shows marks planned st"
  shows "describe_resume_plan dirs (Holds st) = Some
    \<lparr>rp_run_id = rs_run_id st, rp_total = int (card (set planned)),
     rp_completed = int (card {a \<in> set planned. status_after marks a = ''completed''}),
     rp_already_done = int (card {a \<in> set planned. settled_after dirs marks a}),
     rp_to_retry = int (card {a \<in> set planned. \<not> settled_after dirs marks a}),
     rp_is_complete = ({a \<in> set planned. \<not> settled_after dirs marks a} = {})\<rparr>"
proof -
  obtain T where T: "rs_trials st = map (\<lambda>a. (key_at a, T a)) planned" "\<And>a. entry_shows marks a (T a)"
    and d: "distinct planned" "rs_total_trials st = int (length planned)"
    using assms unfolding ledger_shows_def by blast
  have id: "ts_task_id (T a) = fst a" "ts_trial_index (T a) = snd a" "ts_status (T a) = status_after marks a" for a
    using T(2) [of a] by (cases a; simp add: entry_shows_def)+
  have fin: "finite {a \<in> set planned. \<not> settled_after dirs marks a}" by simp
  have "card (set planned) = card {a \<in> set planned. settled_after dirs marks a} +
      card {a \<in> set planned. \<not> settled_after dirs marks a}"
    by (subst card_Un_disjoint [symmetric]) (auto intro: arg_cong [where f = card])
  moreover have "filter (\<lambda>a. is_completed dirs (Some st) (fst a) (snd a)) planned =
      filter (settled_after dirs marks) planned"
    using shown_is_completed [OF assms] by (auto intro: filter_cong)
  ultimately show ?thesis
    using d(1) fin by (simp add: Let_def describe_resume_plan_def load_state_def T(1) filter_map o_def id d(2) count_planned
      distinct_card [symmetric])
qed

text \<open>
  Property C15.  A run is planned as every task with every trial index below the repeats, and its ledger is marked
  in any order, as attempts start, fail, complete and are retried.  The plan of a resumed run then
  splits the planned attempts exactly: done are those whose last mark completed them with a pass or without an
  infrastructure error in their directory, to retry are all others, and the plan is complete when none is left.
  Keys of the ledger never collide, whatever the task ids are.
\<close>

theorem resume_plan_splits_the_attempts:
  "let planned = set task_ids \<times> {0..<repeats};
       st = fold apply_mark marks (initialize_run under_cwd t0 t1 t2 out run_id cfg task_ids repeats)
   in describe_resume_plan dirs (Holds st) = Some
    \<lparr>rp_run_id = run_id, rp_total = int (card planned),
     rp_completed = int (card {a \<in> planned. status_after marks a = ''completed''}),
     rp_already_done = int (card {a \<in> planned. settled_after dirs marks a}),
     rp_to_retry = int (card {a \<in> planned. \<not> settled_after dirs marks a}),
     rp_is_complete = ({a \<in> planned. \<not> settled_after dirs marks a} = {})\<rparr>"
proof -
  let ?st0 = "initialize_run under_cwd t0 t1 t2 out run_id cfg task_ids repeats"
  obtain planned where p: "ledger_shows [] planned ?st0" "set planned = set task_ids \<times> {0..<repeats}"
    using initialized_ledger_shows [OF refl, of under_cwd t0 t1 t2 out run_id cfg task_ids repeats] set_planned_attempts by metis
  have "rs_run_id (fold apply_mark marks st) = rs_run_id st" for st by (induction marks arbitrary: st) simp_all
  then have "rs_run_id (fold apply_mark marks ?st0) = run_id"
    by (simp add: initialize_run_def save_state_def Let_def)
  with shown_plan [OF marks_show [OF p(1), of marks], of dirs] p(2) show ?thesis by (simp add: Let_def)
qed

text \<open>The counters count marks, not trials: an attempt that is replayed is counted again.\<close>

lemma replayed_trial_is_counted_twice:
  "let st = fold apply_mark [Mark_completed 1 ''t'' 0 (Some False) None, Mark_completed 2 ''t'' 0 (Some True) None]
         (initialize_run (\<lambda>_. None) 0 0 0 ''out'' ''r'' ''c'' [''t''] 1)
   in rs_total_trials st = 1 \<and> rs_completed_trials st = 2"
  by code_simp

text \<open>
  \<open>can_resume\<close> reads the trials that are pending or failed: a run stopped while its last trials were running
  cannot be resumed by it, although the plan has them to retry.
\<close>

lemma running_trial_is_not_pending:
  "let f = Holds (fold apply_mark [Mark_running 1 ''t'' 0] (initialize_run (\<lambda>_. None) 0 0 0 ''out'' ''r'' ''c'' [''t''] 1))
   in map_option ri_can_resume (get_resume_info f) = Some False \<and>
      map_option rp_to_retry (describe_resume_plan (\<lambda>_ _. None) f) = Some 1"
  by code_simp

end
