(* ===== verification/Run_Schedule.thy ===== *)
theory Run_Schedule
  imports Run_Queue Run_Metrics Run_Budgets Run_Resume
begin

text \<open>
  The scheduling loop of \<^verbatim>\<open>tolokaforge/core/orchestrator.py\<close>, where the queue of \<^verbatim>\<open>Run_Queue\<close>, the ledger of
  \<^verbatim>\<open>Run_Resume\<close> and the caps of \<^verbatim>\<open>Run_Budgets\<close> are driven together: which trials a run starts, what becomes of
  an attempt that ends, when scheduling stops, and what is stamped on the state file.  The thread pool is an
  argument: which of the active futures finishes next, and with a trajectory or an exception.  So are the
  clock, the building of a trial's specification and the rows that other transactions hold locked.  Log lines, the
  display and the cleanup of the runner before a retry are left out.
\<close>

section \<open>What the loop is handed and keeps\<close>

record schedule_config =
  sg_backend :: queue_backend
  sg_locks :: "pyfloat \<Rightarrow> int set"
  sg_workers :: int
  sg_owner :: pystr
  sg_episode_s :: int
  sg_task_ids :: "pystr list"
  sg_repeats :: int
  sg_shuffled :: "(pystr \<times> int) list \<Rightarrow> (pystr \<times> int) list"
  sg_spec_error :: "attempt_lease \<Rightarrow> exn option"
  sg_finishes :: "nat \<Rightarrow> (nat, attempt_lease) dict \<Rightarrow> nat \<times> (exn + Trajectory)"
  sg_clock :: "nat \<Rightarrow> clocks"

datatype run_event =
    Run_started int int
  | Trial_started pystr int
  | Trial_failed pystr pystr bool
  | Trial_completed pystr "bool option" "pyfloat option"

record schedule =
  sd_queue :: run_queue
  sd_state :: RunState
  sd_file :: state_file
  sd_budget :: "CompositeBudget option"
  sd_exhausted :: bool
  sd_last_hit :: "BudgetHit option"
  sd_active :: "(nat, attempt_lease) dict"
  sd_submitted :: nat
  sd_results :: "(pystr \<times> int, Trajectory) dict"
  sd_total_cost :: pyfloat
  sd_events :: "run_event list"
  sd_tick :: nat

text \<open>Each call that reads the clock takes its next reading.\<close>

definition on_queue :: "schedule_config \<Rightarrow> (pyfloat \<Rightarrow> queue_op) \<Rightarrow> schedule \<Rightarrow> queue_reply \<times> schedule" where
  "on_queue cfg operation s =
     (let now = ck_time (sg_clock cfg (sd_tick s));
          (reply, q) = backend_exec (sg_backend cfg) (sg_locks cfg) (operation now) (sd_queue s)
      in (reply, s\<lparr>sd_queue := q, sd_tick := sd_tick s + 1\<rparr>))"

definition mark_and_save :: "schedule_config \<Rightarrow> (pyfloat \<Rightarrow> state_mark) \<Rightarrow> schedule \<Rightarrow> schedule" where
  "mark_and_save cfg mark s =
     (let st = save_state (ck_time (sg_clock cfg (sd_tick s + 1)))
                 (apply_mark (mark (ck_time (sg_clock cfg (sd_tick s)))) (sd_state s))
      in s\<lparr>sd_state := st, sd_file := Holds st, sd_tick := sd_tick s + 2\<rparr>)"

definition on_budget :: "schedule_config \<Rightarrow> (clocks \<Rightarrow> CompositeBudget \<Rightarrow> CompositeBudget) \<Rightarrow> schedule \<Rightarrow> schedule" where
  "on_budget cfg f s =
     s\<lparr>sd_budget := map_option (f (sg_clock cfg (sd_tick s))) (sd_budget s), sd_tick := sd_tick s + 1\<rparr>"

definition emit :: "run_event \<Rightarrow> schedule \<Rightarrow> schedule" where
  "emit e s = s\<lparr>sd_events := sd_events s @ [e]\<rparr>"

section \<open>Reading a trajectory\<close>

definition is_auth_failure :: "Trajectory \<Rightarrow> bool" where
  "is_auth_failure t =
     (if te_termination_reason t \<notin> {Some API_ERROR, Some PROVIDER_REFUSED_ALL_REQUESTS} then False
      else case rev (tj_messages t) of
          [] \<Rightarrow> False
        | m # _ \<Rightarrow> list_ex (\<lambda>mark. substring mark (m_content m))
            [''AuthenticationError'', ''\"code\":401'', ''\"code\": 401'', ''\"code\":403'', ''\"code\": 403''])"

definition is_retryable_trajectory :: "Trajectory \<Rightarrow> bool" where
  "is_retryable_trajectory t =
     (if te_termination_reason t = Some PROVISION_ERROR then False
      else if is_auth_failure t then False
      else if te_status t \<in> {Status_ERROR, Status_TIMEOUT} then True
      else te_termination_reason t \<in> {Some RATE_LIMIT, Some API_ERROR, Some Reason_TIMEOUT, Some Reason_ERROR})"

definition trial_total_spend_usd :: "Trajectory \<Rightarrow> pyfloat" where
  "trial_total_spend_usd t =
     (let spent = (case mx_cost_usd (tj_metrics t) of None \<Rightarrow> 0 | Some c \<Rightarrow> c) in
      case tj_grade t of
        Some g \<Rightarrow> (case grd_judge_usage g of Some u \<Rightarrow> spent + ju_cost_usd u | None \<Rightarrow> spent)
      | None \<Rightarrow> (case tj_grading_judge_usage t of Some u \<Rightarrow> spent + ju_cost_usd u | None \<Rightarrow> spent))"

definition record_attempt :: "Trajectory \<Rightarrow> schedule \<Rightarrow> schedule" where
  "record_attempt t s = s\<lparr>sd_results := dict_set (tj_task_id t, tj_trial_index t) t (sd_results s)\<rparr>"

definition ending_reason :: "Trajectory \<Rightarrow> pystr" where
  "ending_reason t =
     (case te_termination_reason t of Some r \<Rightarrow> reason_value r | None \<Rightarrow> trial_status_value (te_status t))"

section \<open>Starting trials\<close>

definition lease_seconds :: "schedule_config \<Rightarrow> int" where
  "lease_seconds cfg = max 300 (sg_episode_s cfg * 2)"

definition submit_one :: "schedule_config \<Rightarrow> schedule \<Rightarrow> bool \<times> schedule" where
  "submit_one cfg s =
     (if sd_exhausted s then (False, s)
      else case on_queue cfg (\<lambda>now. LeaseNext now (sg_owner cfg) (lease_seconds cfg)) s of
        (LeaseGrant (Some lease), s1) \<Rightarrow>
          (let t = lease_task_id lease; i = lease_trial_index lease in
           if t \<notin> set (sg_task_ids cfg) then
             (True, mark_and_save cfg (\<lambda>now. Mark_failed now t i (''Task not found: '' @ t))
               (snd (on_queue cfg (\<lambda>now. MarkFailed now (lease_id lease)
                  (''Task not found in loaded set: '' @ t) False) s1)))
           else
             let s2 = emit (Trial_started t i) (mark_and_save cfg (\<lambda>now. Mark_running now t i)
                 (snd (on_queue cfg (\<lambda>now. MarkRunning now (lease_id lease) (sg_owner cfg)) s1)))
             in case sg_spec_error cfg lease of
                 Some e \<Rightarrow>
                   (True, emit (Trial_failed (trial_key t i) (exn_str e) False)
                     (mark_and_save cfg (\<lambda>now. Mark_failed now t i (exn_str e))
                       (snd (on_queue cfg (\<lambda>now. MarkFailed now (lease_id lease)
                          (''Spec build failed: '' @ exn_str e) False) s2))))
               | None \<Rightarrow>
                   (True, s2\<lparr>sd_active := sd_active s2 @ [(sd_submitted s2, lease)],
                             sd_submitted := sd_submitted s2 + 1\<rparr>))
      | (_, s1) \<Rightarrow> (False, s1))"

definition pending_rows :: "run_queue \<Rightarrow> nat" where
  "pending_rows q = length (filter (\<lambda>r. status r = Pending) (rows q))"

lemma update_row_pending:
  assumes "r \<in> set (rows q)" "status r = Pending" "\<And>x. status (f x) \<noteq> Pending"
  shows "pending_rows (update_row (att_id r) f q) < pending_rows q"
proof -
  have "length (filter (\<lambda>x. status x = Pending) (map (\<lambda>x. if att_id x = i then f x else x) xs)) \<le>
      length (filter (\<lambda>x. status x = Pending) xs)" for i xs
    using assms(3) by (induction xs) auto
  moreover have "r \<in> set xs \<Longrightarrow>
      length (filter (\<lambda>x. status x = Pending) (map (\<lambda>x. if att_id x = att_id r then f x else x) xs)) <
      length (filter (\<lambda>x. status x = Pending) xs)" for xs
    using assms(2,3) calculation [of "att_id r"] by (induction xs) (auto simp: less_Suc_eq_le le_SucI)
  ultimately show ?thesis using assms(1) by (simp add: pending_rows_def update_row_def)
qed

lemma update_row_twice:
  "frames g \<Longrightarrow> update_row i f (update_row i g q) = update_row i (f \<circ> g) q"
  by (auto simp: update_row_def frames_def)

lemma frames_comp: "frames f \<Longrightarrow> frames g \<Longrightarrow> frames (f \<circ> g)"
  by (simp add: frames_def)

lemma update_row_absent: "find (\<lambda>r. att_id r = i) (rows q) = None \<Longrightarrow> update_row i f q = q"
  by (auto simp: update_row_def find_None_iff map_idI)

text \<open>What a backend does on each operation of the loop.\<close>

lemma exec_lease:
  assumes "backend_exec b locks (LeaseNext now w secs) q = (reply, q')"
  shows "(reply = LeaseGrant None \<and> q' = q \<and>
      (\<forall>r \<in> set (rows q). status r = Pending \<longrightarrow> b = PostgresBackend \<and> att_id r \<in> locks now)) \<or>
    (\<exists>r \<in> set (rows q). status r = Pending \<and> reply = LeaseGrant (Some (lease_of r)) \<and>
      q' = update_row (att_id r) (lease_row w (now + of_int (max 30 secs)) now) q)"
  using assms first_row_minimal
  by (cases b)
    (fastforce simp: backend_exec_def sqlite_lease_next_def pg_lease_next_def Let_def filter_empty_conv split: option.splits)+

definition running_row :: "pyfloat \<Rightarrow> pystr \<Rightarrow> attempt \<Rightarrow> attempt" where
  "running_row now w r = r\<lparr>status := Running, lease_owner := Some w,
     started_at := Some (case started_at r of None \<Rightarrow> now | Some t \<Rightarrow> t), updated_at := now\<rparr>"

definition completed_row :: "pyfloat \<Rightarrow> pyfloat \<Rightarrow> attempt \<Rightarrow> attempt" where
  "completed_row now cost r = r\<lparr>status := Completed, ended_at := Some now, lease_owner := None,
     lease_expires_at := None, last_cost_usd := max 0 cost, updated_at := now\<rparr>"

lemma exec_marks:
  "snd (backend_exec b locks (MarkRunning now i w) q) = update_row i (running_row now w) q"
  "snd (backend_exec b locks (MarkCompleted now i c) q) = update_row i (completed_row now c) q"
  by (cases b; simp add: backend_exec_def sqlite_mark_running_def pg_mark_running_def sqlite_mark_completed_def
      pg_mark_completed_def running_row_def [abs_def] completed_row_def [abs_def])+

lemma exec_mark_failed:
  "backend_exec b locks (MarkFailed now i err retryable) q =
     (let again = (case row_at i q of None \<Rightarrow> False | Some r \<Rightarrow> retryable \<and> retry_count r < max_retries r)
      in (Requeued again, update_row i (if again then retry_row now err else fail_row now err) q))"
  by (cases b)
    (auto simp: backend_exec_def sqlite_mark_failed_def pg_mark_failed_def mark_failed_read_def mark_failed_write_def
      row_at_def Let_def update_row_absent split: option.split)

lemma row_status [simp]:
  "status (lease_row w e now r) = Leased" "status (running_row now w r) = Running"
  "status (completed_row now c r) = Completed" "status (retry_row now err r) = Pending" "status (fail_row now err r) = Failed"
  "retry_count (lease_row w e now r) = retry_count r" "retry_count (running_row now w r) = retry_count r"
  "retry_count (completed_row now c r) = retry_count r" "retry_count (retry_row now err r) = retry_count r + 1"
  "retry_count (fail_row now err r) = retry_count r"
  by (simp_all add: lease_row_def running_row_def completed_row_def retry_row_def fail_row_def)

lemma row_frames [simp]: "frames (running_row now w)" "frames (completed_row now c)"
  by (simp_all add: frames_def running_row_def completed_row_def key_of_def)

lemma row_at_lease_of [simp]:
  "lease_id (lease_of r) = att_id r" "(lease_task_id (lease_of r), lease_trial_index (lease_of r)) = key_of r"
  by (simp_all add: lease_of_def key_of_def)

section \<open>What one call of \<open>submit_one\<close> does\<close>

definition ledger_status :: "RunState \<Rightarrow> pystr \<times> int \<Rightarrow> pystr option" where
  "ledger_status st a = map_option ts_status (map_of (rs_trials st) (key_at a))"

lemma mark_entry_status: "ts_status (mark_entry m trial) = mark_status m"
  by (cases m) simp_all

lemma ledger_status_mark:
  "ledger_status (apply_mark m st) a =
     (if a = marked m then map_option (\<lambda>_. mark_status m) (ledger_status st a) else ledger_status st a)"
  by (auto simp: ledger_status_def apply_mark_trials mark_entry_status prod_eq_iff split: option.split)

lemma ledger_status_save [simp]: "ledger_status (save_state now st) = ledger_status st"
  by (simp add: ledger_status_def [abs_def] save_state_def)

text \<open>An attempt moves: its row and its entry of the ledger change together, and the ledger is saved.\<close>

definition moves :: "attempt \<Rightarrow> attempt_status \<Rightarrow> pystr \<Rightarrow> schedule \<Rightarrow> schedule \<Rightarrow> bool" where
  "moves r x m s s' \<longleftrightarrow>
     (\<exists>f. frames f \<and> (\<forall>r. status (f r) = x \<and> retry_count (f r) = retry_count r) \<and>
        sd_queue s' = update_row (att_id r) f (sd_queue s)) \<and>
     (\<forall>a. ledger_status (sd_state s') a =
        (if a = key_of r then map_option (\<lambda>_. m) (ledger_status (sd_state s) a) else ledger_status (sd_state s) a)) \<and>
     sd_file s' = Holds (sd_state s')"

lemma moves_trans:
  assumes "moves r x m s s'" "moves r y n s' s''"
  shows "moves r y n s s''"
proof -
  obtain f where f: "frames f" "\<And>r. status (f r) = x" "\<And>r. retry_count (f r) = retry_count r"
    "sd_queue s' = update_row (att_id r) f (sd_queue s)" using assms(1) by (auto simp: moves_def)
  obtain g where g: "frames g" "\<And>r. status (g r) = y" "\<And>r. retry_count (g r) = retry_count r"
    "sd_queue s'' = update_row (att_id r) g (sd_queue s')" using assms(2) by (auto simp: moves_def)
  have "sd_queue s'' = update_row (att_id r) (g \<circ> f) (sd_queue s)" using f g by (simp add: update_row_twice)
  moreover have "frames (g \<circ> f)" using f(1) g(1) by (rule frames_comp [rotated])
  ultimately have queue: "\<exists>h. frames h \<and> (\<forall>r. status (h r) = y \<and> retry_count (h r) = retry_count r) \<and>
      sd_queue s'' = update_row (att_id r) h (sd_queue s)"
    using f(3) g(2,3) by (intro exI [of _ "g \<circ> f"]) simp
  have "ledger_status (sd_state s'') a =
      (if a = key_of r then map_option (\<lambda>_. n) (ledger_status (sd_state s) a) else ledger_status (sd_state s) a)" for a
    using assms unfolding moves_def by (simp del: split_paired_All add: option.map_comp o_def)
  with queue assms(2) show ?thesis by (simp add: moves_def)
qed

lemma on_queue_simps [simp]:
  "sd_state (snd (on_queue cfg x s)) = sd_state s" "sd_file (snd (on_queue cfg x s)) = sd_file s"
  "sd_budget (snd (on_queue cfg x s)) = sd_budget s" "sd_exhausted (snd (on_queue cfg x s)) = sd_exhausted s"
  "sd_active (snd (on_queue cfg x s)) = sd_active s" "sd_submitted (snd (on_queue cfg x s)) = sd_submitted s"
  "sd_events (snd (on_queue cfg x s)) = sd_events s"
  "sd_queue (snd (on_queue cfg x s)) =
     snd (backend_exec (sg_backend cfg) (sg_locks cfg) (x (ck_time (sg_clock cfg (sd_tick s)))) (sd_queue s))"
  by (simp_all add: on_queue_def Let_def case_prod_beta)

lemma mark_and_save_simps [simp]:
  "sd_queue (mark_and_save cfg m s) = sd_queue s" "sd_budget (mark_and_save cfg m s) = sd_budget s"
  "sd_exhausted (mark_and_save cfg m s) = sd_exhausted s" "sd_active (mark_and_save cfg m s) = sd_active s"
  "sd_submitted (mark_and_save cfg m s) = sd_submitted s" "sd_events (mark_and_save cfg m s) = sd_events s"
  "sd_file (mark_and_save cfg m s) = Holds (sd_state (mark_and_save cfg m s))"
  by (simp_all add: mark_and_save_def Let_def)

lemma ledger_mark_and_save:
  "ledger_status (sd_state (mark_and_save cfg m s)) a =
     (let mark = m (ck_time (sg_clock cfg (sd_tick s))) in
      if a = marked mark then map_option (\<lambda>_. mark_status mark) (ledger_status (sd_state s) a)
      else ledger_status (sd_state s) a)"
  by (simp add: mark_and_save_def Let_def ledger_status_mark)

lemma emit_simps [simp]:
  "sd_state (emit e s) = sd_state s" "sd_file (emit e s) = sd_file s" "sd_budget (emit e s) = sd_budget s"
  "sd_exhausted (emit e s) = sd_exhausted s" "sd_active (emit e s) = sd_active s" "sd_queue (emit e s) = sd_queue s"
  "sd_submitted (emit e s) = sd_submitted s" "sd_events (emit e s) = sd_events s @ [e]"
  by (simp_all add: emit_def)

lemma moves_emit [simp]: "moves r x m s (emit e s') = moves r x m s s'"
  by (simp add: moves_def)

lemma moves_active [simp]: "moves r x m s (s'\<lparr>sd_active := as, sd_submitted := n\<rparr>) = moves r x m s s'"
  by (simp add: moves_def)

lemma move_and_save:
  assumes "frames f" "\<And>r. status (f r) = x" "\<And>r. retry_count (f r) = retry_count r"
    "sd_queue s' = update_row (att_id r) f (sd_queue s)" "sd_state s' = sd_state s"
    "\<And>now. marked (m now) = key_of r" "\<And>now. mark_status (m now) = n"
  shows "moves r x n s (mark_and_save cfg m s')"
  using assms by (auto simp: moves_def ledger_mark_and_save)

text \<open>Nothing the loop decides on has changed but the clock.\<close>

definition same_run :: "schedule \<Rightarrow> schedule \<Rightarrow> bool" where
  "same_run s s' \<longleftrightarrow> sd_queue s' = sd_queue s \<and> sd_state s' = sd_state s \<and> sd_file s' = sd_file s \<and>
     sd_active s' = sd_active s \<and> sd_submitted s' = sd_submitted s \<and> sd_events s' = sd_events s"

definition none_available :: "schedule_config \<Rightarrow> run_queue \<Rightarrow> bool" where
  "none_available cfg q \<longleftrightarrow> (\<exists>now. \<forall>r \<in> set (rows q). status r = Pending \<longrightarrow>
     sg_backend cfg = PostgresBackend \<and> att_id r \<in> sg_locks cfg now)"

lemma submit_one_cases:
  obtains
    (stopped) s' where "submit_one cfg s = (False, s')" "same_run s s'"
      "sd_exhausted s' = sd_exhausted s" "sd_budget s' = sd_budget s"
      "sd_exhausted s \<or> none_available cfg (sd_queue s)"
  | (failed) s' r where "submit_one cfg s = (True, s')" "\<not> sd_exhausted s" "r \<in> set (rows (sd_queue s))" "status r = Pending"
      "moves r Failed ''failed'' s s'" "sd_active s' = sd_active s" "sd_submitted s' = sd_submitted s"
      "\<not> sd_exhausted s'" "sd_budget s' = sd_budget s"
  | (started) s' r where "submit_one cfg s = (True, s')" "\<not> sd_exhausted s" "r \<in> set (rows (sd_queue s))" "status r = Pending"
      "moves r Running ''running'' s s'" "sd_active s' = sd_active s @ [(sd_submitted s, lease_of r)]"
      "sd_submitted s' = sd_submitted s + 1" "\<not> sd_exhausted s'" "sd_budget s' = sd_budget s"
proof (cases "sd_exhausted s")
  case True
  then show thesis using stopped [of s] by (simp add: submit_one_def same_run_def)
next
  case False
  obtain reply s1 where lease: "on_queue cfg (\<lambda>now. LeaseNext now (sg_owner cfg) (lease_seconds cfg)) s = (reply, s1)"
    by fastforce
  then have "backend_exec (sg_backend cfg) (sg_locks cfg)
      (LeaseNext (ck_time (sg_clock cfg (sd_tick s))) (sg_owner cfg) (lease_seconds cfg)) (sd_queue s) = (reply, sd_queue s1)"
    by (auto simp: on_queue_def Let_def case_prod_beta)
  note effect = exec_lease [OF this]
  have s1: "sd_state s1 = sd_state s" "sd_file s1 = sd_file s" "sd_active s1 = sd_active s" "sd_events s1 = sd_events s"
    "sd_submitted s1 = sd_submitted s" "sd_exhausted s1 = sd_exhausted s" "sd_budget s1 = sd_budget s"
    using lease on_queue_simps [of cfg "\<lambda>now. LeaseNext now (sg_owner cfg) (lease_seconds cfg)" s] by (simp_all only: snd_conv)
  from effect show thesis
  proof (elim disjE bexE conjE)
    assume "reply = LeaseGrant None" "sd_queue s1 = sd_queue s"
      "\<forall>r \<in> set (rows (sd_queue s)). status r = Pending \<longrightarrow>
         sg_backend cfg = PostgresBackend \<and> att_id r \<in> sg_locks cfg (ck_time (sg_clock cfg (sd_tick s)))"
    then show thesis
      using stopped [of s1] False lease s1 by (auto simp: submit_one_def same_run_def none_available_def)
  next
    fix r
    assume r: "r \<in> set (rows (sd_queue s))" "status r = Pending" and reply: "reply = LeaseGrant (Some (lease_of r))"
      and q: "sd_queue s1 = update_row (att_id r) (lease_row (sg_owner cfg)
        (ck_time (sg_clock cfg (sd_tick s)) + of_int (max 30 (lease_seconds cfg))) (ck_time (sg_clock cfg (sd_tick s)))) (sd_queue s)"
    let ?lease = "lease_row (sg_owner cfg) (ck_time (sg_clock cfg (sd_tick s)) + of_int (max 30 (lease_seconds cfg)))
      (ck_time (sg_clock cfg (sd_tick s)))"
    let ?t = "lease_task_id (lease_of r)" and ?i = "lease_trial_index (lease_of r)"
    have key: "(?t, ?i) = key_of r" by simp
    have fails: "moves r Failed ''failed'' s (mark_and_save cfg (\<lambda>now. Mark_failed now ?t ?i err)
        (snd (on_queue cfg (\<lambda>now. MarkFailed now (att_id r) err' False) s1)))" for err err'
      by (rule move_and_save [where f = "fail_row (ck_time (sg_clock cfg (sd_tick s1))) err' \<circ> ?lease"])
        (simp_all add: frames_comp exec_mark_failed Let_def q update_row_twice s1 key split: option.split)
    let ?s2 = "emit (Trial_started ?t ?i) (mark_and_save cfg (\<lambda>now. Mark_running now ?t ?i)
       (snd (on_queue cfg (\<lambda>now. MarkRunning now (att_id r) (sg_owner cfg)) s1)))"
    have runs: "moves r Running ''running'' s ?s2"
      unfolding moves_emit
      by (rule move_and_save [where f = "running_row (ck_time (sg_clock cfg (sd_tick s1))) (sg_owner cfg) \<circ> ?lease"])
        (simp_all add: frames_comp exec_marks q update_row_twice s1 key)
    have stops: "moves r Failed ''failed'' s (mark_and_save cfg (\<lambda>now. Mark_failed now ?t ?i err)
        (snd (on_queue cfg (\<lambda>now. MarkFailed now (att_id r) err' False) ?s2)))" for err err'
      by (rule moves_trans [OF runs], rule move_and_save [where f = "fail_row (ck_time (sg_clock cfg (sd_tick ?s2))) err'"])
        (simp_all add: exec_mark_failed Let_def key split: option.split)
    show thesis
    proof (cases "?t \<in> set (sg_task_ids cfg)")
      case False
      with failed [OF _ \<open>\<not> sd_exhausted s\<close> r fails] lease reply s1 \<open>\<not> sd_exhausted s\<close> show thesis
        by (simp add: submit_one_def Let_def)
    next
      case True
      show thesis
      proof (cases "sg_spec_error cfg (lease_of r)")
        case None
        show thesis
          by (rule started [OF _ \<open>\<not> sd_exhausted s\<close> r, of "?s2\<lparr>sd_active := sd_active ?s2 @ [(sd_submitted ?s2, lease_of r)],
               sd_submitted := sd_submitted ?s2 + 1\<rparr>"])
            (use True None lease reply s1 False runs in \<open>simp_all add: submit_one_def Let_def\<close>)
      next
        case (Some e)
        show thesis
          by (rule failed [OF _ \<open>\<not> sd_exhausted s\<close> r, of "emit (Trial_failed (trial_key ?t ?i) (exn_str e) False)
              (mark_and_save cfg (\<lambda>now. Mark_failed now ?t ?i (exn_str e))
              (snd (on_queue cfg (\<lambda>now. MarkFailed now (att_id r) (''Spec build failed: '' @ exn_str e) False) ?s2)))"])
            (use True Some lease reply s1 False stops in \<open>simp_all add: submit_one_def Let_def\<close>)
      qed
    qed
  qed
qed

lemma moves_pending:
  assumes "moves r x m s s'" "r \<in> set (rows (sd_queue s))" "status r = Pending" "x \<noteq> Pending"
  shows "pending_rows (sd_queue s') < pending_rows (sd_queue s)"
  using assms update_row_pending [OF assms(2,3)] by (auto simp: moves_def)

lemma submit_one_pending:
  assumes "submit_one cfg s = (True, s')"
  shows "pending_rows (sd_queue s') < pending_rows (sd_queue s)"
  using assms by (cases rule: submit_one_cases [of cfg s]) (auto dest: moves_pending)

section \<open>The loop\<close>

text \<open>\<^verbatim>\<open>while len(active_futures) < workers and submit_one(): pass\<close>\<close>

function fill_pool :: "schedule_config \<Rightarrow> schedule \<Rightarrow> schedule" where
  "fill_pool cfg s =
     (if int (length (sd_active s)) < sg_workers cfg
      then (case submit_one cfg s of (True, s') \<Rightarrow> fill_pool cfg s' | (False, s') \<Rightarrow> s')
      else s)"
  by pat_completeness auto
termination
  by (relation "measure (\<lambda>(cfg, s). pending_rows (sd_queue s))") (auto dest: submit_one_pending [OF sym])

declare fill_pool.simps [simp del]

text \<open>An attempt that may be retried: requeued while the queue allows it, else failed for good.\<close>

definition retry_or_fail :: "schedule_config \<Rightarrow> attempt_lease \<Rightarrow> pystr \<Rightarrow> pystr \<Rightarrow> schedule \<Rightarrow> schedule" where
  "retry_or_fail cfg lease queue_error final_error s =
     (let t = lease_task_id lease; i = lease_trial_index lease in
      case on_queue cfg (\<lambda>now. MarkFailed now (lease_id lease) queue_error True) s of
        (Requeued True, s1) \<Rightarrow> s1
      | (_, s1) \<Rightarrow> on_budget cfg composite_record_terminated
          (emit (Trial_failed (trial_key t i) final_error True)
            (mark_and_save cfg (\<lambda>now. Mark_failed now t i final_error) s1)))"

definition complete_attempt :: "schedule_config \<Rightarrow> attempt_lease \<Rightarrow> Trajectory \<Rightarrow> schedule \<Rightarrow> schedule" where
  "complete_attempt cfg lease trajectory s =
     (let t = lease_task_id lease; i = lease_trial_index lease;
          verdict = map_option grd_binary_pass (tj_grade trajectory);
          score = map_option grd_score (tj_grade trajectory)
      in on_budget cfg composite_record_terminated
          (emit (Trial_completed (trial_key t i) verdict score)
            (mark_and_save cfg (\<lambda>now. Mark_completed now t i verdict score)
              (snd (on_queue cfg (\<lambda>now. MarkCompleted now (lease_id lease) (trial_total_spend_usd trajectory)) s)))))"

definition settle_outcome :: "schedule_config \<Rightarrow> attempt_lease \<Rightarrow> exn + Trajectory \<Rightarrow> schedule \<Rightarrow> schedule" where
  "settle_outcome cfg lease outcome s =
     (case outcome of
        Inl e \<Rightarrow> retry_or_fail cfg lease (exn_str e) (exn_str e) s
      | Inr trajectory \<Rightarrow>
          (let trial_cost = trial_total_spend_usd trajectory;
               s1 = record_attempt trajectory s;
               s2 = on_budget cfg (composite_record_cost trial_cost) (s1\<lparr>sd_total_cost := sd_total_cost s1 + trial_cost\<rparr>)
           in if is_retryable_trajectory trajectory then
                retry_or_fail cfg lease (''Retryable failure: '' @ ending_reason trajectory)
                  (''Retry limit reached after transient failure: '' @ ending_reason trajectory) s2
              else complete_attempt cfg lease trajectory s2))"

definition poll_budget :: "schedule_config \<Rightarrow> schedule \<Rightarrow> schedule" where
  "poll_budget cfg s =
     (case sd_budget s of
        None \<Rightarrow> s
      | Some b \<Rightarrow>
          if sd_exhausted s then s
          else (case composite_poll (sg_clock cfg (sd_tick s)) b of
              (None, b') \<Rightarrow> s\<lparr>sd_budget := Some b', sd_tick := sd_tick s + 1\<rparr>
            | (Some hit, b') \<Rightarrow> s\<lparr>sd_budget := Some b', sd_exhausted := True, sd_last_hit := Some hit,
                sd_tick := sd_tick s + 1\<rparr>))"

text \<open>
  \<^verbatim>\<open>wait\<close> returns a set of finished futures and the loop takes them one by one; a schedule of such sets is a schedule of
  single futures.  The argument \<open>sg_finishes\<close> picks the next one among the active futures, by its position.
\<close>

definition finish_one :: "schedule_config \<Rightarrow> schedule \<Rightarrow> schedule" where
  "finish_one cfg s =
     (let (k, outcome) = sg_finishes cfg (sd_tick s) (sd_active s);
          position = k mod length (sd_active s);
          lease = snd (sd_active s ! position);
          s1 = poll_budget cfg (settle_outcome cfg lease outcome
                 (s\<lparr>sd_active := take position (sd_active s) @ drop (Suc position) (sd_active s)\<rparr>))
      in if sd_exhausted s1 then s1 else fill_pool cfg s1)"

partial_function (option) run_loop :: "schedule_config \<Rightarrow> schedule \<Rightarrow> schedule option" where
  "run_loop cfg s = (if sd_active s = [] then Some s else run_loop cfg (finish_one cfg s))"

section \<open>A whole run\<close>

record run_request =
  rq_resume :: bool
  rq_run_id :: pystr
  rq_config_path :: pystr
  rq_output_dir :: pystr
  rq_under_cwd :: "pystr \<Rightarrow> pystr option"
  rq_trial_dirs :: "pystr \<Rightarrow> int \<Rightarrow> trial_dir option"
  rq_existing_cost :: pyfloat
  rq_injected_budget :: "CompositeBudget option"
  rq_max_budget_usd :: "pyfloat option"
  rq_zero_coverage :: bool
  rq_zero_judge_graded :: bool

definition resolve_budget :: "run_request \<Rightarrow> pyfloat \<Rightarrow> CompositeBudget option" where
  "resolve_budget rq initial_cost_usd =
     (case rq_injected_budget rq of
        Some b \<Rightarrow> Some b
      | None \<Rightarrow> map_option (\<lambda>limit. [Tracker_cost (new_cost_budget limit initial_cost_usd)]) (rq_max_budget_usd rq))"

definition canonicalise_resumed_run_id :: "schedule_config \<Rightarrow> pystr \<Rightarrow> RunState \<times> state_file \<Rightarrow> RunState \<times> state_file" where
  "canonicalise_resumed_run_id cfg canonical sf =
     (if rs_run_id (fst sf) = canonical then sf
      else let st = save_state (ck_time (sg_clock cfg 0)) ((fst sf)\<lparr>rs_run_id := canonical\<rparr>) in (st, Holds st))"

text \<open>The state a run starts from, and whether it resumes: a run that finds no state starts afresh.
  The bundles of completed trials, which a resumed run reads back for its reports, are left out.\<close>

definition open_run_state :: "schedule_config \<Rightarrow> run_request \<Rightarrow> state_file \<Rightarrow> bool \<times> RunState \<times> state_file" where
  "open_run_state cfg rq f =
     (case (if rq_resume rq then load_state f else None) of
        Some st \<Rightarrow> (True, canonicalise_resumed_run_id cfg (rq_run_id rq) (st, f))
      | None \<Rightarrow>
          let now = \<lambda>n. ck_time (sg_clock cfg n);
              st = initialize_run (rq_under_cwd rq) (now 0) (now 1) (now 2) (rq_output_dir rq) (rq_run_id rq)
                     (rq_config_path rq) (sg_task_ids cfg) (sg_repeats cfg)
          in (False, st, Holds st))"

definition build_pending_trials :: "schedule_config \<Rightarrow> (pystr \<Rightarrow> int \<Rightarrow> bool) \<Rightarrow> (pystr \<times> int) list" where
  "build_pending_trials cfg skip_completed =
     sg_shuffled cfg (filter (\<lambda>(t, i). \<not> skip_completed t i) (planned_attempts (sg_task_ids cfg) (sg_repeats cfg)))"

definition seed_queue :: "schedule_config \<Rightarrow> (pystr \<times> int) list \<Rightarrow> schedule \<Rightarrow> schedule" where
  "seed_queue cfg pending s =
     (let now = \<lambda>n. ck_time (sg_clock cfg (sd_tick s + n));
          s1 = snd (on_queue cfg (\<lambda>t. EnqueueMany t pending) s)
      in (snd (on_queue cfg (\<lambda>t. RecoverInflight t (now 2) (now 3) (lease_seconds cfg)) s1))\<lparr>sd_tick := sd_tick s + 4\<rparr>)"

definition start_run :: "schedule_config \<Rightarrow> run_request \<Rightarrow> run_queue \<Rightarrow> state_file \<Rightarrow> schedule" where
  "start_run cfg rq q f =
     (case open_run_state cfg rq f of (resume, st, f1) \<Rightarrow>
        let pending = build_pending_trials cfg (\<lambda>t i. resume \<and> is_completed (rq_trial_dirs rq) (load_state f1) t i);
            s0 = \<lparr>sd_queue = q, sd_state = st, sd_file = f1,
                  sd_budget = resolve_budget rq (rq_existing_cost rq), sd_exhausted = False, sd_last_hit = None,
                  sd_active = [], sd_submitted = 0, sd_results = [], sd_total_cost = rq_existing_cost rq,
                  sd_events = [], sd_tick = 3\<rparr>;
            s1 = poll_budget cfg (seed_queue cfg pending s0)
        in emit (Run_started (rs_total_trials st) (rs_completed_trials st)) s1)"

definition remaining_attempts :: "run_queue \<Rightarrow> int" where
  "remaining_attempts q = count_status Pending q + count_status Leased q + count_status Running q"

definition stamp_run :: "schedule_config \<Rightarrow> run_request \<Rightarrow> schedule \<Rightarrow> schedule" where
  "stamp_run cfg rq s =
     (let now = ck_time (sg_clock cfg (sd_tick s)) in
      s\<lparr>sd_file := (if sd_exhausted s \<and> remaining_attempts (sd_queue s) > 0 then mark_run_paused now (sd_file s)
                    else mark_run_completed now (rq_zero_coverage rq) (rq_zero_judge_graded rq) (sd_file s)),
        sd_tick := sd_tick s + 1\<rparr>)"

definition orchestrate :: "schedule_config \<Rightarrow> run_request \<Rightarrow> run_queue \<Rightarrow> state_file \<Rightarrow> schedule option" where
  "orchestrate cfg rq q f = map_option (stamp_run cfg rq) (run_loop cfg (fill_pool cfg (start_run cfg rq q f)))"

end
