(* ===== verification/Schedule_Laws.thy ===== *)
theory Schedule_Laws
  imports Run_Schedule
begin

text \<open>
  What holds of a run driven by the loop of \<^verbatim>\<open>Run_Schedule\<close>: the loop as a step relation on the queue, the ledger and
  the active futures, the invariants of its reachable states, its termination, the agreement of queue and ledger
  at the end of a fresh run, and the attempts that a resumed run does not start again.
\<close>

section \<open>The steps of a run\<close>

text \<open>
  What the loop does to the queue, the ledger and the active futures, as a step relation: bookkeeping, a pending
  attempt that cannot be started, one that is started, and an active one that is requeued, fails or completes.
\<close>

inductive sched_step :: "schedule \<Rightarrow> schedule \<Rightarrow> bool" where
  idle: "\<lbrakk>sd_queue s' = sd_queue s; sd_state s' = sd_state s; sd_file s' = sd_file s; sd_active s' = sd_active s\<rbrakk>
    \<Longrightarrow> sched_step s s'"
| refused: "\<lbrakk>r \<in> set (rows (sd_queue s)); status r = Pending; moves r Failed ''failed'' s s'; sd_active s' = sd_active s;
     wf_queue (sd_queue s')\<rbrakk> \<Longrightarrow> sched_step s s'"
| started: "\<lbrakk>r \<in> set (rows (sd_queue s)); status r = Pending; moves r Running ''running'' s s';
     sd_active s' = sd_active s @ [(n, lease_of r)]; wf_queue (sd_queue s')\<rbrakk> \<Longrightarrow> sched_step s s'"
| requeued: "\<lbrakk>sd_active s = before @ (n, lease) # behind; sd_active s' = before @ behind;
     row_at (lease_id lease) (sd_queue s) = Some r; retry_count r < max_retries r;
     frames f; \<And>r. status (f r) = Pending; \<And>r. retry_count (f r) = retry_count r + 1;
     sd_queue s' = update_row (lease_id lease) f (sd_queue s); sd_state s' = sd_state s; sd_file s' = sd_file s;
     wf_queue (sd_queue s')\<rbrakk> \<Longrightarrow> sched_step s s'"
| ended: "\<lbrakk>sd_active s = before @ (n, lease) # behind; sd_active s' = before @ behind;
     row_at (lease_id lease) (sd_queue s) = Some r; moves r x m s s';
     (x, m) \<in> {(Failed, ''failed''), (Completed, ''completed'')}; wf_queue (sd_queue s')\<rbrakk> \<Longrightarrow> sched_step s s'"

inductive_cases sched_stepE: "sched_step s s'"

text \<open>The rows of the active futures: running, and one each.\<close>

definition active_ids :: "schedule \<Rightarrow> int list" where
  "active_ids s = map (lease_id \<circ> snd) (sd_active s)"

definition active_ok :: "schedule \<Rightarrow> bool" where
  "active_ok s \<longleftrightarrow> wf_queue (sd_queue s) \<and> distinct (active_ids s) \<and>
     (\<forall>l \<in> snd ` set (sd_active s). \<exists>r. row_at (lease_id l) (sd_queue s) = Some r \<and> status r = Running \<and>
        key_of r = (lease_task_id l, lease_trial_index l))"

lemma active_row:
  assumes "active_ok s" "i \<in> set (active_ids s)"
  obtains r where "row_at i (sd_queue s) = Some r" "status r = Running"
proof -
  from assms(2) obtain l where "l \<in> snd ` set (sd_active s)" "lease_id l = i" by (auto simp: active_ids_def)
  with assms(1) show thesis using that by (auto simp: active_ok_def)
qed

lemma pending_not_active:
  assumes "active_ok s" "r \<in> set (rows (sd_queue s))" "status r = Pending"
  shows "row_at (att_id r) (sd_queue s) = Some r" "att_id r \<notin> set (active_ids s)"
proof -
  show row: "row_at (att_id r) (sd_queue s) = Some r" using assms by (simp add: active_ok_def row_at_Some_iff)
  show "att_id r \<notin> set (active_ids s)"
  proof
    assume "att_id r \<in> set (active_ids s)"
    from active_row [OF assms(1) this] row assms(3) show False by auto
  qed
qed

lemma removed_active:
  assumes "active_ok s" "sd_active s = before @ (n, lease) # behind" "sd_active s' = before @ behind"
    "row_at (lease_id lease) (sd_queue s) = Some r"
  shows "att_id r = lease_id lease" "status r = Running" "att_id r \<in> set (active_ids s)"
    "set (active_ids s') = set (active_ids s) - {att_id r}"
proof -
  show i: "att_id r = lease_id lease" using assms(4) by (rule row_at_id)
  show "att_id r \<in> set (active_ids s)" by (simp add: active_ids_def assms(2) i)
  from active_row [OF assms(1) this] show "status r = Running" using assms(4) i by auto
  have "distinct (active_ids s)" using assms(1) by (simp add: active_ok_def)
  then show "set (active_ids s') = set (active_ids s) - {att_id r}"
    by (auto simp: active_ids_def assms(2,3) i)
qed

text \<open>What a status of the ledger says when a row is moved to a status.\<close>

fun ledger_word :: "attempt_status \<Rightarrow> pystr" where
  "ledger_word Running = ''running''"
| "ledger_word Failed = ''failed''"
| "ledger_word Completed = ''completed''"
| "ledger_word _ = ''pending''"

text \<open>Every step but the idle one updates one row: a pending one, or the one of an active future.\<close>

definition row_moved :: "attempt \<Rightarrow> (attempt \<Rightarrow> attempt) \<Rightarrow> schedule \<Rightarrow> schedule \<Rightarrow> bool" where
  "row_moved r f s s' \<longleftrightarrow> row_at (att_id r) (sd_queue s) = Some r \<and> frames f \<and> wf_queue (sd_queue s') \<and>
     sd_queue s' = update_row (att_id r) f (sd_queue s) \<and>
     status r \<in> {Pending, Running} \<and> (status r = Running \<longleftrightarrow> att_id r \<in> set (active_ids s)) \<and>
     status (f r) \<in> {Pending, Running, Completed, Failed} \<and>
     set (active_ids s') = (if status (f r) = Running then insert (att_id r) (set (active_ids s))
        else set (active_ids s) - {att_id r}) \<and>
     length (sd_active s') + of_bool (status r = Running) = length (sd_active s) + of_bool (status (f r) = Running) \<and>
     snd ` set (sd_active s') \<subseteq> insert (lease_of r) (snd ` set (sd_active s)) \<and>
     (if status (f r) = Pending
      then status r = Running \<and> retry_count r < max_retries r \<and> retry_count (f r) = retry_count r + 1 \<and>
        sd_state s' = sd_state s \<and> sd_file s' = sd_file s
      else status (f r) \<noteq> status r \<and> retry_count (f r) = retry_count r \<and> sd_file s' = Holds (sd_state s') \<and>
        (\<forall>a. ledger_status (sd_state s') a =
          (if a = key_of r then map_option (\<lambda>_. ledger_word (status (f r))) (ledger_status (sd_state s) a)
           else ledger_status (sd_state s) a)))"

lemma moved_row:
  assumes "moves r x m s s'" "m = ledger_word x" "x \<in> {Running, Completed, Failed}"
    "row_at (att_id r) (sd_queue s) = Some r" "wf_queue (sd_queue s')"
    "status r \<in> {Pending, Running}" "status r \<noteq> x" "status r = Running \<longleftrightarrow> att_id r \<in> set (active_ids s)"
    "set (active_ids s') = (if x = Running then insert (att_id r) (set (active_ids s)) else set (active_ids s) - {att_id r})"
    "length (sd_active s') + of_bool (status r = Running) = length (sd_active s) + of_bool (x = Running)"
    "snd ` set (sd_active s') \<subseteq> insert (lease_of r) (snd ` set (sd_active s))"
  shows "\<exists>f. row_moved r f s s'"
proof -
  obtain f where f: "frames f" "\<And>r. status (f r) = x" "\<And>r. retry_count (f r) = retry_count r"
    "sd_queue s' = update_row (att_id r) f (sd_queue s)" using assms(1) by (auto simp: moves_def)
  have "row_moved r f s s'"
    using assms f(1,4) unfolding row_moved_def moves_def f(2,3)
    by (simp del: split_paired_All) blast
  then show ?thesis by blast
qed

lemma step_row:
  assumes "sched_step s s'" "active_ok s"
  obtains (idle) "sd_queue s' = sd_queue s" "sd_state s' = sd_state s" "sd_active s' = sd_active s" "sd_file s' = sd_file s"
  | (row) r f where "row_moved r f s s'"
  using assms(1)
proof (cases rule: sched_step.cases)
  case idle
  then show thesis using that(1) by simp
next
  case (refused r)
  note p = pending_not_active [OF assms(2) refused(1,2)]
  have "\<exists>f. row_moved r f s s'"
    by (rule moved_row [OF refused(3)]) (use refused p in \<open>simp_all add: active_ids_def subset_insertI\<close>)
  then show thesis using that(2) by blast
next
  case (started r n)
  note p = pending_not_active [OF assms(2) started(1,2)]
  have "\<exists>f. row_moved r f s s'"
    by (rule moved_row [OF started(3)]) (use started p in \<open>simp_all add: active_ids_def\<close>)
  then show thesis using that(2) by blast
next
  case (requeued before n lease behind r f)
  note p = removed_active [OF assms(2) requeued(1,2,3)]
  have "row_moved r f s s'"
    using requeued p by (auto simp: row_moved_def)
  then show thesis using that(2) by blast
next
  case (ended before n lease behind r x m)
  note p = removed_active [OF assms(2) ended(1,2,3)]
  have x: "x \<in> {Completed, Failed}" "m = ledger_word x" using ended(5) by auto
  have kept: "snd ` set (sd_active s') \<subseteq> insert (lease_of r) (snd ` set (sd_active s))"
    unfolding ended(1,2) by auto
  have "\<exists>f. row_moved r f s s'"
    by (rule moved_row [OF ended(4) x(2) _ _ ended(6) _ _ _ _ _ kept])
      (use x(1) p in \<open>auto simp only: ended(1,2) p insert_iff empty_iff\<close>,
       use x(1) p(1) ended(3) in \<open>auto simp: ended(1,2)\<close>)
  then show thesis using that(2) by blast
qed

lemma moved_row_at:
  assumes "row_moved r f s s'"
  shows "row_at i (sd_queue s') = map_option (\<lambda>x. if i = att_id r then f x else x) (row_at i (sd_queue s))"
proof -
  have "frames f" "sd_queue s' = update_row (att_id r) f (sd_queue s)" using assms by (simp_all add: row_moved_def)
  then show ?thesis by (simp add: row_at_update_row eq_commute [of i])
qed

lemma moved_active_ok:
  assumes "row_moved r f s s'" "active_ok s"
  shows "active_ok s'"
proof -
  note m = assms(1) [unfolded row_moved_def]
  have len: "length (active_ids s) = length (sd_active s)" "length (active_ids s') = length (sd_active s')"
    by (simp_all add: active_ids_def)
  have "card (set (active_ids s)) = length (active_ids s)"
    using assms(2) by (simp add: active_ok_def distinct_card)
  then have "card (set (active_ids s')) = length (active_ids s')"
    using m len by (auto simp: card_insert_if card_Diff_singleton_if of_bool_def split: if_splits)
  then have dist: "distinct (active_ids s')" by (rule card_distinct)
  have "\<exists>x. row_at (lease_id l) (sd_queue s') = Some x \<and> status x = Running \<and> key_of x = (lease_task_id l, lease_trial_index l)"
    if l: "l \<in> snd ` set (sd_active s')" for l
  proof -
    have in': "lease_id l \<in> set (active_ids s')" using l by (auto simp: active_ids_def)
    show ?thesis
    proof (cases "lease_id l = att_id r")
      case True
      with in' m have run: "status (f r) = Running" by (auto split: if_splits)
      have key: "key_of (f r) = key_of r" using m by (simp add: frames_def)
      have "key_of r = (lease_task_id l, lease_trial_index l)"
      proof (cases "l = lease_of r")
        case False
        then have "l \<in> snd ` set (sd_active s)" using l m by blast
        with assms(2) True m show ?thesis by (fastforce simp: active_ok_def)
      qed simp
      moreover have "row_at (att_id r) (sd_queue s') = Some (f r)"
        using moved_row_at [OF assms(1), of "att_id r"] conjunct1 [OF m] by simp
      ultimately show ?thesis using True run key by simp
    next
      case False
      then have "l \<in> snd ` set (sd_active s)" using l m by auto
      with assms(2) False show ?thesis by (auto simp: active_ok_def moved_row_at [OF assms(1)])
    qed
  qed
  moreover have "wf_queue (sd_queue s')" using m by blast
  ultimately show ?thesis using dist unfolding active_ok_def by blast
qed

lemma step_active_ok:
  assumes "sched_step s s'" "active_ok s"
  shows "active_ok s'"
  using assms
proof (cases rule: step_row)
  case idle
  with assms(2) show ?thesis by (simp add: active_ok_def active_ids_def)
next
  case (row r f)
  then show ?thesis using assms(2) by (rule moved_active_ok)
qed

lemma steps_active_ok: "sched_step\<^sup>*\<^sup>* s s' \<Longrightarrow> active_ok s \<Longrightarrow> active_ok s'"
  by (induction rule: rtranclp_induct) (auto intro: step_active_ok)

text \<open>Rows outside the pending ones and those of the active futures are never touched.\<close>

lemma step_keeps_row:
  assumes "sched_step s s'" "active_ok s" "row_at i (sd_queue s) = Some x" "status x \<noteq> Pending" "i \<notin> set (active_ids s)"
  shows "row_at i (sd_queue s') = Some x \<and> i \<notin> set (active_ids s')"
  using assms(1,2)
proof (cases rule: step_row)
  case idle
  with assms show ?thesis by (simp add: active_ids_def)
next
  case (row r f)
  note m = row [unfolded row_moved_def]
  have "i \<noteq> att_id r"
  proof
    assume "i = att_id r"
    then have "x = r" using assms(3) conjunct1 [OF m] by simp
    with assms(4,5) m \<open>i = att_id r\<close> show False by auto
  qed
  moreover have "set (active_ids s') \<subseteq> insert (att_id r) (set (active_ids s))" using m by auto
  ultimately show ?thesis using assms(3,5) by (auto simp: moved_row_at [OF row])
qed

lemma steps_keep_row:
  assumes "sched_step\<^sup>*\<^sup>* s s'" "active_ok s" "row_at i (sd_queue s) = Some x" "status x \<noteq> Pending" "i \<notin> set (active_ids s)"
  shows "row_at i (sd_queue s') = Some x \<and> i \<notin> set (active_ids s')"
  using assms
proof (induction rule: rtranclp_induct)
  case (step s' s'')
  then show ?case using step_keeps_row [OF step(2) steps_active_ok [OF step(1)]] by blast
qed simp

section \<open>The loop ends\<close>

text \<open>
  The work left: an attempt still has its retries, one that is pending has to be started and to end, one that is
  active has to end.
\<close>

definition row_work :: "attempt \<Rightarrow> nat" where
  "row_work r = 2 * nat (max_retries r - retry_count r) + (if status r = Pending then 2 else 0)"

definition work_left :: "schedule \<Rightarrow> nat" where
  "work_left s = sum_list (map row_work (rows (sd_queue s))) + length (sd_active s)"

lemma sum_update_row:
  assumes "wf_queue q" "row_at i q = Some r"
  shows "sum_list (map row_work (rows (update_row i f q))) + row_work r = sum_list (map row_work (rows q)) + row_work (f r)"
proof -
  have "sorted_wrt (<) (map att_id rs) \<Longrightarrow> find (\<lambda>r. att_id r = i) rs = Some r \<Longrightarrow>
      sum_list (map row_work (map (\<lambda>r. if att_id r = i then f r else r) rs)) + row_work r =
      sum_list (map row_work rs) + row_work (f r)" for rs
  proof (induction rs)
    case (Cons x rs)
    show ?case
    proof (cases "att_id x = i")
      case True
      then have "map (\<lambda>r. if att_id r = i then f r else r) rs = rs"
        using Cons.prems(1) by (intro map_idI) auto
      with True Cons.prems(2) show ?thesis by simp
    qed (use Cons in simp)
  qed simp
  with assms show ?thesis by (simp add: wf_queue_def row_at_def update_row_def)
qed

lemma moved_work:
  assumes "row_moved r f s s'" "active_ok s"
  shows "work_left s' < work_left s"
proof -
  note m = assms(1) [unfolded row_moved_def]
  have "max_retries (f r) = max_retries r" using m by (simp add: frames_def)
  then have "row_work (f r) + length (sd_active s') < row_work r + length (sd_active s)"
    using m by (auto simp: row_work_def of_bool_def split: if_splits)
  moreover have "sum_list (map row_work (rows (sd_queue s'))) + row_work r =
      sum_list (map row_work (rows (sd_queue s))) + row_work (f r)"
    using sum_update_row [of "sd_queue s" "att_id r" r f] m assms(2) by (simp add: active_ok_def)
  ultimately show ?thesis by (simp add: work_left_def)
qed

lemma step_work: "sched_step s s' \<Longrightarrow> active_ok s \<Longrightarrow> work_left s' \<le> work_left s"
  by (erule (1) step_row) (simp_all add: work_left_def less_imp_le moved_work [unfolded work_left_def])

lemma steps_work: "sched_step\<^sup>*\<^sup>* s s' \<Longrightarrow> active_ok s \<Longrightarrow> work_left s' \<le> work_left s"
  by (induction rule: rtranclp_induct) (auto dest: step_work steps_active_ok)

lemma on_queue_wf [simp]: "wf_queue (sd_queue s) \<Longrightarrow> wf_queue (sd_queue (snd (on_queue cfg x s)))"
  by (simp add: be.exec_wf)

lemma submit_one_wf:
  assumes "wf_queue (sd_queue s)"
  shows "wf_queue (sd_queue (snd (submit_one cfg s)))"
proof -
  obtain reply s1 where lease: "on_queue cfg (\<lambda>now. LeaseNext now (sg_owner cfg) (lease_seconds cfg)) s = (reply, s1)"
    by fastforce
  have "wf_queue (sd_queue s1)" using on_queue_wf [OF assms] lease by (metis snd_conv)
  then show ?thesis
    using assms lease by (simp add: submit_one_def Let_def be.exec_wf split: queue_reply.split option.split)
qed

lemma submit_one_step:
  assumes "submit_one cfg s = (b, s')" "wf_queue (sd_queue s)"
  shows "sched_step s s'"
proof -
  have wf: "wf_queue (sd_queue s')" using submit_one_wf [OF assms(2), of cfg] assms(1) by simp
  show ?thesis
  proof (cases rule: submit_one_cases [of cfg s])
    case (stopped s1)
    then show ?thesis using assms(1) by (auto simp: same_run_def intro: idle)
  next
    case (failed s1 r)
    then show ?thesis using assms(1) wf by (auto intro: refused)
  next
    case (started s1 r)
    then show ?thesis using assms(1) wf by (auto intro: sched_step.started)
  qed
qed

lemma fill_pool_steps: "active_ok s \<Longrightarrow> sched_step\<^sup>*\<^sup>* s (fill_pool cfg s)"
proof (induction cfg s rule: fill_pool.induct)
  case (1 cfg s)
  obtain b s' where sub: "submit_one cfg s = (b, s')" by fastforce
  have step: "sched_step s s'" using submit_one_step [OF sub] "1.prems" by (simp add: active_ok_def)
  show ?case
  proof (cases "int (length (sd_active s)) < sg_workers cfg")
    case True
    show ?thesis
    proof (cases b)
      case True
      with \<open>int (length (sd_active s)) < sg_workers cfg\<close> sub "1.IH" [OF _ sub [symmetric]] step_active_ok [OF step "1.prems"] step
      show ?thesis by (subst fill_pool.simps) (simp add: converse_rtranclp_into_rtranclp)
    next
      case False
      with \<open>int (length (sd_active s)) < sg_workers cfg\<close> sub step
      show ?thesis by (subst fill_pool.simps) simp
    qed
  qed (simp add: fill_pool.simps)
qed

text \<open>After the pool is filled, scheduling has stopped, nothing can be leased, or every worker is busy.\<close>

definition saturated :: "schedule_config \<Rightarrow> schedule \<Rightarrow> bool" where
  "saturated cfg s \<longleftrightarrow> sd_exhausted s \<or> none_available cfg (sd_queue s) \<or> sg_workers cfg \<le> int (length (sd_active s))"

lemma fill_pool_saturated: "saturated cfg (fill_pool cfg s)"
proof (induction cfg s rule: fill_pool.induct)
  case (1 cfg s)
  show ?case
  proof (cases "int (length (sd_active s)) < sg_workers cfg")
    case True
    then show ?thesis
    proof (cases rule: submit_one_cases [of cfg s])
      case (stopped s1)
      then show ?thesis using True by (subst fill_pool.simps) (auto simp: saturated_def same_run_def)
    next
      case (failed s1 r)
      then show ?thesis using True "1.IH" [OF True failed(1) [symmetric]] by (subst fill_pool.simps) simp
    next
      case (started s1 r)
      then show ?thesis using True "1.IH" [OF True started(1) [symmetric]] by (subst fill_pool.simps) simp
    qed
  qed (simp add: fill_pool.simps saturated_def)
qed

lemma on_budget_simps [simp]:
  "sd_state (on_budget cfg f s) = sd_state s" "sd_file (on_budget cfg f s) = sd_file s"
  "sd_exhausted (on_budget cfg f s) = sd_exhausted s" "sd_active (on_budget cfg f s) = sd_active s"
  "sd_queue (on_budget cfg f s) = sd_queue s" "sd_events (on_budget cfg f s) = sd_events s"
  by (simp_all add: on_budget_def)

lemma poll_budget_simps [simp]:
  "sd_state (poll_budget cfg s) = sd_state s" "sd_file (poll_budget cfg s) = sd_file s"
  "sd_active (poll_budget cfg s) = sd_active s" "sd_queue (poll_budget cfg s) = sd_queue s"
  "sd_events (poll_budget cfg s) = sd_events s"
  by (simp_all add: poll_budget_def split: option.split prod.split)

lemma record_attempt_simps [simp]:
  "sd_state (record_attempt t s) = sd_state s" "sd_file (record_attempt t s) = sd_file s"
  "sd_exhausted (record_attempt t s) = sd_exhausted s" "sd_active (record_attempt t s) = sd_active s"
  "sd_queue (record_attempt t s) = sd_queue s" "sd_events (record_attempt t s) = sd_events s"
  by (simp_all add: record_attempt_def)

lemma moves_on_budget [simp]: "moves r x m s (on_budget cfg f s') = moves r x m s s'"
  by (simp add: moves_def)

text \<open>What becomes of the attempt of a future that finished.\<close>

lemma leased_row:
  assumes "active_ok s" "sd_active s = before @ (n, lease) # behind"
  obtains r where "row_at (lease_id lease) (sd_queue s) = Some r" "att_id r = lease_id lease"
    "(lease_task_id lease, lease_trial_index lease) = key_of r"
  using assms row_at_id [of "lease_id lease" "sd_queue s"] by (fastforce simp: active_ok_def)

lemma retry_or_fail_step:
  assumes "active_ok s" "sd_active s = before @ (n, lease) # behind" "sd_queue s0 = sd_queue s"
    "sd_state s0 = sd_state s" "sd_file s0 = sd_file s" "sd_active s0 = before @ behind"
  shows "sched_step s (retry_or_fail cfg lease err final s0)"
    and "sd_active (retry_or_fail cfg lease err final s0) = before @ behind"
proof -
  obtain r where r: "row_at (lease_id lease) (sd_queue s) = Some r" "att_id r = lease_id lease"
    "(lease_task_id lease, lease_trial_index lease) = key_of r" using assms by (elim leased_row)
  let ?now = "ck_time (sg_clock cfg (sd_tick s0))"
  let ?op = "\<lambda>now. MarkFailed now (lease_id lease) err True"
  have wf: "wf_queue (sd_queue (snd (on_queue cfg ?op s0)))"
    using assms(1,3) by (intro on_queue_wf) (simp add: active_ok_def)
  have q: "sd_queue (snd (on_queue cfg ?op s0)) = update_row (lease_id lease)
      (if retry_count r < max_retries r then retry_row ?now err else fail_row ?now err) (sd_queue s)"
    by (simp add: exec_mark_failed Let_def r assms(3))
  have reply: "fst (on_queue cfg ?op s0) = Requeued (retry_count r < max_retries r)"
    by (simp add: on_queue_def Let_def case_prod_beta exec_mark_failed r assms(3))
  then obtain s1 where s1: "on_queue cfg ?op s0 = (Requeued (retry_count r < max_retries r), s1)"
    by (metis prod.collapse)
  have same: "sd_state s1 = sd_state s" "sd_file s1 = sd_file s" "sd_active s1 = before @ behind"
    using on_queue_simps [of cfg ?op s0] by (simp_all add: s1 assms)
  have "sched_step s (retry_or_fail cfg lease err final s0) \<and>
    sd_active (retry_or_fail cfg lease err final s0) = before @ behind"
  proof (cases "retry_count r < max_retries r")
    case True
    have "sched_step s s1"
      by (rule requeued [OF assms(2) same(3) r(1) True, of "retry_row ?now err"])
        (use q wf True in \<open>simp_all add: s1 same\<close>)
    with True show ?thesis using s1 same by (simp add: retry_or_fail_def Let_def)
  next
    case False
    let ?s2 = "mark_and_save cfg (\<lambda>now. Mark_failed now (lease_task_id lease) (lease_trial_index lease) final) s1"
    have "moves r Failed ''failed'' s ?s2"
      by (rule move_and_save [where f = "fail_row ?now err"]) (use q False in \<open>simp_all add: s1 same r\<close>)
    moreover have "retry_or_fail cfg lease err final s0 =
        on_budget cfg composite_record_terminated (emit (Trial_failed
          (trial_key (lease_task_id lease) (lease_trial_index lease)) final True) ?s2)"
      using False s1 by (simp add: retry_or_fail_def Let_def)
    ultimately show ?thesis
      using ended [OF assms(2) _ r(1), of _ Failed "''failed''"] same wf s1 by simp
  qed
  then show "sched_step s (retry_or_fail cfg lease err final s0)"
    and "sd_active (retry_or_fail cfg lease err final s0) = before @ behind" by simp_all
qed

lemma complete_attempt_step:
  assumes "active_ok s" "sd_active s = before @ (n, lease) # behind" "sd_queue s0 = sd_queue s"
    "sd_state s0 = sd_state s" "sd_active s0 = before @ behind"
  shows "sched_step s (complete_attempt cfg lease t s0)" and "sd_active (complete_attempt cfg lease t s0) = before @ behind"
proof -
  obtain r where r: "row_at (lease_id lease) (sd_queue s) = Some r" "att_id r = lease_id lease"
    "(lease_task_id lease, lease_trial_index lease) = key_of r" using assms by (elim leased_row)
  let ?s1 = "snd (on_queue cfg (\<lambda>now. MarkCompleted now (lease_id lease) (trial_total_spend_usd t)) s0)"
  have wf: "wf_queue (sd_queue ?s1)" using assms(1,3) by (intro on_queue_wf) (simp add: active_ok_def)
  show act: "sd_active (complete_attempt cfg lease t s0) = before @ behind"
    by (simp add: complete_attempt_def Let_def assms)
  have "moves r Completed ''completed'' s (complete_attempt cfg lease t s0)"
    unfolding complete_attempt_def Let_def moves_on_budget moves_emit
    by (rule move_and_save [where f = "completed_row (ck_time (sg_clock cfg (sd_tick s0))) (trial_total_spend_usd t)"])
      (simp_all add: exec_marks assms r)
  then show "sched_step s (complete_attempt cfg lease t s0)"
    using ended [OF assms(2) act r(1)] wf by (simp add: complete_attempt_def Let_def)
qed

lemma settle_outcome_step:
  assumes "active_ok s" "sd_active s = before @ (n, lease) # behind"
  shows "sched_step s (settle_outcome cfg lease outcome (s\<lparr>sd_active := before @ behind\<rparr>))"
    and "sd_active (settle_outcome cfg lease outcome (s\<lparr>sd_active := before @ behind\<rparr>)) = before @ behind"
  by (simp_all add: settle_outcome_def Let_def retry_or_fail_step [OF assms] complete_attempt_step [OF assms] split: sum.split)

lemma finish_one_steps:
  assumes "active_ok s" "sd_active s \<noteq> []"
  shows "sched_step\<^sup>*\<^sup>* s (finish_one cfg s)" and "work_left (finish_one cfg s) < work_left s"
    and "saturated cfg (finish_one cfg s)"
proof -
  obtain k outcome where pick: "sg_finishes cfg (sd_tick s) (sd_active s) = (k, outcome)" by fastforce
  let ?p = "k mod length (sd_active s)"
  have p: "?p < length (sd_active s)" using assms(2) by simp
  obtain n lease where at: "sd_active s ! ?p = (n, lease)" by fastforce
  let ?rest = "take ?p (sd_active s) @ drop (Suc ?p) (sd_active s)"
  have split: "sd_active s = take ?p (sd_active s) @ (n, lease) # drop (Suc ?p) (sd_active s)"
    using id_take_nth_drop [OF p] at by simp
  let ?t = "settle_outcome cfg lease outcome (s\<lparr>sd_active := ?rest\<rparr>)"
  have step: "sched_step s ?t" by (rule settle_outcome_step(1) [OF assms(1) split])
  have act: "sd_active ?t = ?rest" by (rule settle_outcome_step(2) [OF assms(1) split])
  have work: "work_left ?t < work_left s"
    using step assms(1)
  proof (cases rule: step_row)
    case idle
    have "length (sd_active ?t) < length (sd_active s)" unfolding act using p by simp
    with idle(3) show ?thesis by simp
  next
    case (row r f)
    then show ?thesis using assms(1) by (rule moved_work)
  qed
  let ?u = "poll_budget cfg ?t"
  have fin: "finish_one cfg s = (if sd_exhausted ?u then ?u else fill_pool cfg ?u)"
    by (simp add: finish_one_def pick at Let_def)
  have idle: "sched_step ?t ?u" by (rule sched_step.idle) simp_all
  have ok: "active_ok ?u" using step_active_ok [OF idle step_active_ok [OF step assms(1)]] .
  have su: "sched_step\<^sup>*\<^sup>* s ?u" using step idle by (meson converse_rtranclp_into_rtranclp r_into_rtranclp)
  have wu: "work_left ?u < work_left s" using work by (simp add: work_left_def)
  show "sched_step\<^sup>*\<^sup>* s (finish_one cfg s)"
    unfolding fin using su rtranclp_trans [OF su fill_pool_steps [OF ok]] by simp
  show "work_left (finish_one cfg s) < work_left s"
    using wu steps_work [OF fill_pool_steps [OF ok] ok, of cfg] by (simp add: fin)
  show "saturated cfg (finish_one cfg s)" by (simp add: fin fill_pool_saturated) (simp add: saturated_def)
qed

lemma run_loop_returns:
  assumes "active_ok s" "saturated cfg s"
  shows "\<exists>s'. run_loop cfg s = Some s' \<and> sched_step\<^sup>*\<^sup>* s s' \<and> sd_active s' = [] \<and> saturated cfg s'"
  using assms
proof (induction "work_left s" arbitrary: s rule: less_induct)
  case less
  show ?case
  proof (cases "sd_active s = []")
    case True
    then show ?thesis using less.prems by (subst run_loop.simps) simp
  next
    case False
    note f = finish_one_steps [OF less.prems(1) False, of cfg]
    from less.hyps [OF f(2) steps_active_ok [OF f(1) less.prems(1)] f(3)] f(1) False show ?thesis
      by (subst run_loop.simps) (auto intro: rtranclp_trans)
  qed
qed

section \<open>Queue and ledger agree\<close>

text \<open>
  What the ledger says of a row.  Requeueing an attempt does not write to the ledger: an attempt that waits for a
  retry still reads running there.
\<close>

fun ledger_agrees :: "attempt_status \<Rightarrow> int \<Rightarrow> pystr option \<Rightarrow> bool" where
  "ledger_agrees Pending retries l = (l = Some (if 0 < retries then ''running'' else ''pending''))"
| "ledger_agrees Running retries l = (l = Some ''running'')"
| "ledger_agrees Completed retries l = (l = Some ''completed'')"
| "ledger_agrees Failed retries l = (l = Some ''failed'')"
| "ledger_agrees _ retries l = False"

definition agreed :: "schedule \<Rightarrow> bool" where
  "agreed s \<longleftrightarrow> (\<forall>r \<in> set (rows (sd_queue s)). ledger_agrees (status r) (retry_count r) (ledger_status (sd_state s) (key_of r)) \<and>
     (status r = Running \<longrightarrow> att_id r \<in> set (active_ids s))) \<and> sd_file s = Holds (sd_state s)"

lemma wf_same_key:
  assumes "wf_queue q" "x \<in> set (rows q)" "y \<in> set (rows q)" "key_of x = key_of y"
  shows "x = y"
  using assms by (auto simp: wf_queue_def distinct_map dest: inj_onD)

lemma ledger_agrees_word:
  "ledger_agrees x n l \<Longrightarrow> y \<in> {Running, Completed, Failed} \<Longrightarrow> ledger_agrees y k (map_option (\<lambda>_. ledger_word y) l)"
  by (cases x; cases l) auto

lemma moved_agreed:
  assumes "row_moved r f s s'" "active_ok s" "agreed s"
  shows "agreed s'"
proof -
  note m = assms(1) [unfolded row_moved_def]
  have wf: "wf_queue (sd_queue s)" "wf_queue (sd_queue s')" using m assms(2) by (auto simp: active_ok_def)
  have r: "r \<in> set (rows (sd_queue s))" using m wf(1) by (auto simp: row_at_Some_iff)
  have key: "key_of (f r) = key_of r" "att_id (f r) = att_id r" using m by (simp_all add: frames_def)
  have old: "ledger_agrees (status r) (retry_count r) (ledger_status (sd_state s) (key_of r))" using assms(3) r by (simp add: agreed_def)
  have new: "ledger_agrees (status (f r)) (retry_count (f r)) (ledger_status (sd_state s') (key_of r))"
  proof (cases "status (f r) = Pending")
    case True
    moreover have "0 \<le> retry_count r" using r wf(1) by (auto simp: wf_queue_def wf_row_def)
    ultimately show ?thesis using m old by simp
  next
    case False
    with m have "ledger_status (sd_state s') (key_of r) =
        map_option (\<lambda>_. ledger_word (status (f r))) (ledger_status (sd_state s) (key_of r))" by (metis (full_types))
    with False m ledger_agrees_word [OF old, of "status (f r)" "retry_count (f r)"] show ?thesis by auto
  qed
  have "ledger_agrees (status x) (retry_count x) (ledger_status (sd_state s') (key_of x)) \<and>
      (status x = Running \<longrightarrow> att_id x \<in> set (active_ids s'))" if x: "x \<in> set (rows (sd_queue s'))" for x
  proof (cases "att_id x = att_id r")
    case True
    have "row_at (att_id x) (sd_queue s') = Some x" using x wf(2) by (simp add: row_at_Some_iff)
    then have "x = f r" using moved_row_at [OF assms(1), of "att_id x"] conjunct1 [OF m] True by simp
    with new key m show ?thesis by auto
  next
    case False
    have "row_at (att_id x) (sd_queue s') = Some x" using x wf(2) by (simp add: row_at_Some_iff)
    then have "row_at (att_id x) (sd_queue s) = Some x" using False by (auto simp: moved_row_at [OF assms(1)])
    then have xs: "x \<in> set (rows (sd_queue s))" using wf(1) by (simp add: row_at_Some_iff)
    then have "key_of x \<noteq> key_of r" using wf_same_key [OF wf(1) xs r] False by auto
    then have "ledger_status (sd_state s') (key_of x) = ledger_status (sd_state s) (key_of x)"
      using m by (metis (full_types))
    with xs assms(3) False m show ?thesis by (auto simp: agreed_def)
  qed
  moreover have "sd_file s' = Holds (sd_state s')" using m assms(3) by (auto simp: agreed_def split: if_splits)
  ultimately show ?thesis unfolding agreed_def by blast
qed

lemma step_agreed:
  assumes "sched_step s s'" "active_ok s" "agreed s"
  shows "agreed s'"
  using assms(1,2)
proof (cases rule: step_row)
  case idle
  with assms(3) show ?thesis by (simp add: agreed_def active_ids_def)
next
  case (row r f)
  then show ?thesis using assms(2,3) by (rule moved_agreed)
qed

lemma steps_agreed: "sched_step\<^sup>*\<^sup>* s s' \<Longrightarrow> active_ok s \<Longrightarrow> agreed s \<Longrightarrow> agreed s'"
  by (induction rule: rtranclp_induct) (auto intro: step_agreed steps_active_ok)

lemma step_keys:
  assumes "sched_step s s'" "active_ok s"
  shows "map key_of (rows (sd_queue s')) = map key_of (rows (sd_queue s))"
  using assms
proof (cases rule: step_row)
  case (row r f)
  then have "frames f" "sd_queue s' = update_row (att_id r) f (sd_queue s)" by (simp_all add: row_moved_def)
  then show ?thesis by (simp add: update_row_def frames_def)
qed simp

lemma steps_keys:
  "sched_step\<^sup>*\<^sup>* s s' \<Longrightarrow> active_ok s \<Longrightarrow> map key_of (rows (sd_queue s')) = map key_of (rows (sd_queue s))"
  by (induction rule: rtranclp_induct) (simp_all add: step_keys steps_active_ok)

section \<open>The start of a run\<close>

text \<open>Seeding adds pending rows for the attempts that have none, and requeues the stale ones.\<close>

definition seed_insert :: "queue_backend \<Rightarrow> pyfloat \<Rightarrow> run_queue \<Rightarrow> pystr \<times> int \<Rightarrow> run_queue" where
  "seed_insert b now = (case b of SqliteBackend \<Rightarrow> sqlite_insert now | PostgresBackend \<Rightarrow> pg_insert now)"

lemma exec_seed:
  "snd (backend_exec b locks (EnqueueMany now items) q) = foldl (seed_insert b now) q items"
  "snd (backend_exec b locks (RecoverInflight t0 t1 t2 age) q) = q\<lparr>rows :=
     map (\<lambda>r. if stale t2 (t0 - of_int (max 1 age)) r then requeue_row t1 r else r) (rows q)\<rparr>"
  by (cases b; simp add: backend_exec_def seed_insert_def queue_simps sqlite_recover_inflight_def pg_recover_inflight_def Let_def)+

lemma seed_insert_rows:
  "rows (seed_insert b now q k) = (if k \<in> key_of ` set (rows q) then rows q
     else rows q @ [fresh_row (next_id q) (queue_max_retries q) now k])"
  by (cases b) (simp_all add: seed_insert_def sqlite_insert_def pg_insert_def)

lemma fresh_row_simps:
  "key_of (fresh_row i m now k) = k" "status (fresh_row i m now k) = Pending" "retry_count (fresh_row i m now k) = 0"
  by (simp_all add: fresh_row_def key_of_def)

lemma seed_keeps_rows: "r \<in> set (rows q) \<Longrightarrow> r \<in> set (rows (foldl (seed_insert b now) q items))"
  by (induction items arbitrary: q) (simp_all add: seed_insert_rows)

lemma seed_keys: "key_of ` set (rows (foldl (seed_insert b now) q items)) = key_of ` set (rows q) \<union> set items"
  by (induction items arbitrary: q) (auto simp: seed_insert_rows fresh_row_simps)

lemma seed_adds_pending:
  "r \<in> set (rows (foldl (seed_insert b now) q items)) \<Longrightarrow> r \<in> set (rows q) \<or> status r = Pending \<and> retry_count r = 0"
proof (induction items arbitrary: q)
  case (Cons k items)
  then have "r \<in> set (rows (seed_insert b now q k)) \<or> status r = Pending \<and> retry_count r = 0" by simp
  then show ?case by (auto simp: seed_insert_rows fresh_row_simps split: if_splits)
qed simp

lemma seed_queue_simps [simp]:
  "sd_state (seed_queue cfg p s) = sd_state s" "sd_file (seed_queue cfg p s) = sd_file s"
  "sd_active (seed_queue cfg p s) = sd_active s" "sd_exhausted (seed_queue cfg p s) = sd_exhausted s"
  by (simp_all add: seed_queue_def Let_def)

lemma seed_queue_wf: "wf_queue (sd_queue s) \<Longrightarrow> wf_queue (sd_queue (seed_queue cfg p s))"
  by (simp add: seed_queue_def Let_def be.exec_wf)

lemma seeded_rows:
  "rows (sd_queue (seed_queue cfg p s)) =
     (let now = \<lambda>n. ck_time (sg_clock cfg (sd_tick s + n)) in
      map (\<lambda>r. if stale (now 3) (now 1 - of_int (max 1 (lease_seconds cfg))) r then requeue_row (now 2) r else r)
        (rows (foldl (seed_insert (sg_backend cfg) (now 0)) (sd_queue s) p)))"
  by (simp add: seed_queue_def Let_def exec_seed) (simp add: on_queue_def Let_def case_prod_beta)

lemma seeded_row:
  assumes "r \<in> set (rows (sd_queue s))" "status r \<in> {Completed, Failed}"
  shows "r \<in> set (rows (sd_queue (seed_queue cfg p s)))"
proof -
  have "\<not> stale expiry cutoff r" for expiry cutoff using assms(2) by (auto simp: stale_def)
  with seed_keeps_rows [OF assms(1)] show ?thesis by (force simp: seeded_rows Let_def)
qed

lemma seeded_fresh:
  assumes "rows (sd_queue s) = []"
  shows "key_of ` set (rows (sd_queue (seed_queue cfg p s))) = set p"
    and "r \<in> set (rows (sd_queue (seed_queue cfg p s))) \<Longrightarrow> status r = Pending \<and> retry_count r = 0"
proof -
  let ?rows = "rows (foldl (seed_insert (sg_backend cfg) (ck_time (sg_clock cfg (sd_tick s)))) (sd_queue s) p)"
  have pending: "x \<in> set ?rows \<Longrightarrow> status x = Pending \<and> retry_count x = 0" for x
    using seed_adds_pending [of x] assms by fastforce
  then have "x \<in> set ?rows \<Longrightarrow> \<not> stale expiry cutoff x" for x expiry cutoff by (simp add: stale_def)
  then have same: "rows (sd_queue (seed_queue cfg p s)) = ?rows"
    by (simp add: seeded_rows Let_def cong: map_cong)
  show "key_of ` set (rows (sd_queue (seed_queue cfg p s))) = set p"
    unfolding same seed_keys by (simp add: assms)
  show "r \<in> set (rows (sd_queue (seed_queue cfg p s))) \<Longrightarrow> status r = Pending \<and> retry_count r = 0"
    unfolding same by (rule pending)
qed

section \<open>Whole runs\<close>

lemma start_run_simps:
  "sd_active (start_run cfg rq q f) = []"
  "sd_queue (start_run cfg rq q f) = sd_queue (seed_queue cfg (build_pending_trials cfg
     (\<lambda>t i. fst (open_run_state cfg rq f) \<and>
        is_completed (rq_trial_dirs rq) (load_state (snd (snd (open_run_state cfg rq f)))) t i))
     \<lparr>sd_queue = q, sd_state = fst (snd (open_run_state cfg rq f)), sd_file = snd (snd (open_run_state cfg rq f)),
      sd_budget = resolve_budget rq (rq_existing_cost rq), sd_exhausted = False, sd_last_hit = None, sd_active = [],
      sd_submitted = 0, sd_results = [], sd_total_cost = rq_existing_cost rq, sd_events = [], sd_tick = 3\<rparr>)"
  "sd_state (start_run cfg rq q f) = fst (snd (open_run_state cfg rq f))"
  "sd_file (start_run cfg rq q f) = snd (snd (open_run_state cfg rq f))"
  by (simp_all add: start_run_def Let_def case_prod_beta)

lemma start_run_ok: "wf_queue q \<Longrightarrow> active_ok (start_run cfg rq q f)"
  by (simp add: active_ok_def active_ids_def start_run_simps(1)) (simp add: start_run_simps(2) seed_queue_wf)

lemma orchestrate_returns:
  assumes "wf_queue q"
  obtains s where "orchestrate cfg rq q f = Some (stamp_run cfg rq s)" "sched_step\<^sup>*\<^sup>* (start_run cfg rq q f) s"
    "sd_active s = []" "saturated cfg s"
proof -
  note ok = start_run_ok [OF assms, of cfg rq f]
  note fill = fill_pool_steps [OF ok, of cfg]
  from run_loop_returns [OF steps_active_ok [OF fill ok] fill_pool_saturated] fill that show thesis
    by (auto simp: orchestrate_def intro: rtranclp_trans)
qed

text \<open>A fresh run: no row is left over, the ledger is new, and the two start in agreement.\<close>

lemma fresh_ledger:
  assumes "a \<in> set (planned_attempts task_ids repeats)"
  shows "ledger_status (initialize_run under_cwd t0 t1 t2 out run_id cfg task_ids repeats) a = Some ''pending''"
proof -
  let ?st = "initialize_run under_cwd t0 t1 t2 out run_id cfg task_ids repeats"
  obtain planned where p: "ledger_shows [] planned ?st" "set planned = set (planned_attempts task_ids repeats)"
    using initialized_ledger_shows [OF refl] by blast
  obtain T where "rs_trials ?st = map (\<lambda>a. (key_at a, T a)) planned" "entry_shows [] a (T a)"
    using p(1) unfolding ledger_shows_def by blast
  then show ?thesis
    using assms p(2) by (simp add: ledger_status_def map_of_planned entry_shows_def status_after_def last_mark_def)
qed

lemma fresh_start:
  assumes "\<not> rq_resume rq" "\<And>xs. set (sg_shuffled cfg xs) = set xs"
  shows "key_of ` set (rows (sd_queue (start_run cfg rq (init_queue m) f))) = set (sg_task_ids cfg) \<times> {0..<sg_repeats cfg}"
    and "agreed (start_run cfg rq (init_queue m) f)"
proof -
  have new: "fst (open_run_state cfg rq f) = False"
    "snd (snd (open_run_state cfg rq f)) = Holds (fst (snd (open_run_state cfg rq f)))"
    using assms(1) by (simp_all add: open_run_state_def Let_def)
  have empty: "rows (init_queue m) = []" by (simp add: init_queue_def)
  show keys: "key_of ` set (rows (sd_queue (start_run cfg rq (init_queue m) f))) =
      set (sg_task_ids cfg) \<times> {0..<sg_repeats cfg}"
    by (simp add: start_run_simps seeded_fresh(1) empty new build_pending_trials_def assms(2) set_planned_attempts)
  have "ledger_status (sd_state (start_run cfg rq (init_queue m) f)) (key_of r) = Some ''pending'' \<and>
      status r = Pending \<and> retry_count r = 0"
    if r: "r \<in> set (rows (sd_queue (start_run cfg rq (init_queue m) f)))" for r
  proof
    have "key_of r \<in> set (planned_attempts (sg_task_ids cfg) (sg_repeats cfg))"
      using keys r by (auto simp: set_planned_attempts)
    from fresh_ledger [OF this] show "ledger_status (sd_state (start_run cfg rq (init_queue m) f)) (key_of r) = Some ''pending''"
      using assms(1) by (simp add: start_run_simps open_run_state_def Let_def)
    show "status r = Pending \<and> retry_count r = 0" using r by (auto simp: start_run_simps empty dest: seeded_fresh(2) [rotated])
  qed
  then show "agreed (start_run cfg rq (init_queue m) f)"
    by (auto simp: agreed_def) (simp add: start_run_simps new)
qed

lemma stamp_run_simps [simp]:
  "sd_queue (stamp_run cfg rq s) = sd_queue s" "sd_exhausted (stamp_run cfg rq s) = sd_exhausted s"
  "sd_state (stamp_run cfg rq s) = sd_state s"
  by (simp_all add: stamp_run_def Let_def)

lemma stamped_file:
  assumes "sd_file s = Holds (sd_state s)"
  shows "\<exists>st. sd_file (stamp_run cfg rq s) = Holds st \<and> rs_trials st = rs_trials (sd_state s) \<and>
    rs_status st = (if sd_exhausted s \<and> 0 < remaining_attempts (sd_queue s) then ''paused'' else ''completed'')"
  by (simp add: stamp_run_def Let_def assms mark_run_paused_def mark_run_completed_def load_state_def save_state_def)

lemma remaining_pending:
  assumes "\<And>r. r \<in> set (rows q) \<Longrightarrow> status r \<in> {Pending, Completed, Failed}"
  shows "0 < remaining_attempts q \<longleftrightarrow> (\<exists>r \<in> set (rows q). status r = Pending)"
proof -
  have "count_status Leased q = 0" "count_status Running q = 0"
    using assms by (fastforce simp: count_status_def filter_empty_conv)+
  then show ?thesis by (auto simp: remaining_attempts_def count_status_def filter_empty_conv)
qed

text \<open>
  Property C13.  A fresh run on a new queue always ends, whatever the trials return or raise, in whatever order they
  finish, and whatever its caps are.  It needs one worker at least, an order of the planned attempts that keeps all of
  them and adds none, and a queue whose rows no other transaction holds locked (SQLite, or Postgres without locks).
  Then every planned attempt has its row, and the row is completed, failed, or, only when a cap was hit, still
  pending.  The ledger says completed of a completed one and failed of a failed one.  Of one still pending it says
  pending if the attempt was never started, and still running if it was requeued for a retry, which the ledger is not
  told.  The state file is stamped paused exactly when an attempt is left pending, and completed otherwise.
\<close>

theorem fresh_run_settles_every_attempt:
  assumes "0 < sg_workers cfg" "\<not> rq_resume rq" "\<And>xs. set (sg_shuffled cfg xs) = set xs"
    "sg_backend cfg = SqliteBackend \<or> sg_locks cfg = (\<lambda>now. {})"
  shows "\<exists>s st. orchestrate cfg rq (init_queue m) f = Some s \<and> sd_file s = Holds st \<and>
    key_of ` set (rows (sd_queue s)) = set (sg_task_ids cfg) \<times> {0..<sg_repeats cfg} \<and>
    (\<forall>r \<in> set (rows (sd_queue s)).
       (status r, ledger_status st (key_of r)) \<in> {(Completed, Some ''completed''), (Failed, Some ''failed'')} \<or>
       sd_exhausted s \<and> status r = Pending \<and>
         ledger_status st (key_of r) = Some (if 0 < retry_count r then ''running'' else ''pending'')) \<and>
    rs_status st = (if Pending \<in> status ` set (rows (sd_queue s)) then ''paused'' else ''completed'')"
proof -
  obtain s where s: "orchestrate cfg rq (init_queue m) f = Some (stamp_run cfg rq s)"
    "sched_step\<^sup>*\<^sup>* (start_run cfg rq (init_queue m) f) s" "sd_active s = []" "saturated cfg s"
    by (rule orchestrate_returns [OF wf_init_queue])
  note ok = start_run_ok [OF wf_init_queue, of cfg rq m f]
  note start = fresh_start [OF assms(2,3), where m = m and f = f]
  have agr: "agreed s" by (rule steps_agreed [OF s(2) ok start(2)])
  have "key_of ` set (rows (sd_queue s)) = key_of ` set (rows (sd_queue (start_run cfg rq (init_queue m) f)))"
    using arg_cong [OF steps_keys [OF s(2) ok], of set] by simp
  then have keys: "key_of ` set (rows (sd_queue s)) = set (sg_task_ids cfg) \<times> {0..<sg_repeats cfg}"
    using start(1) by simp
  have fin: "status r \<in> {Pending, Completed, Failed} \<and> ledger_agrees (status r) (retry_count r) (ledger_status (sd_state s) (key_of r)) \<and>
      (status r = Pending \<longrightarrow> sd_exhausted s)" if r: "r \<in> set (rows (sd_queue s))" for r
  proof -
    have a: "ledger_agrees (status r) (retry_count r) (ledger_status (sd_state s) (key_of r))" "status r \<noteq> Running"
      using agr r s(3) by (auto simp: agreed_def active_ids_def)
    then have "status r \<in> {Pending, Completed, Failed}" by (cases "status r") auto
    moreover have "status r = Pending \<longrightarrow> sd_exhausted s"
      using s(3,4) assms(1,4) r by (auto simp: saturated_def none_available_def)
    ultimately show ?thesis using a(1) by blast
  qed
  obtain st where st: "sd_file (stamp_run cfg rq s) = Holds st" "rs_trials st = rs_trials (sd_state s)"
    "rs_status st = (if sd_exhausted s \<and> 0 < remaining_attempts (sd_queue s) then ''paused'' else ''completed'')"
    using stamped_file [of s cfg rq] agr by (auto simp: agreed_def)
  have led: "ledger_status st = ledger_status (sd_state s)" by (simp add: ledger_status_def [abs_def] st(2))
  have left: "0 < remaining_attempts (sd_queue s) \<longleftrightarrow> Pending \<in> status ` set (rows (sd_queue s))"
    using remaining_pending [of "sd_queue s"] fin by force
  have stamp: "rs_status st = (if Pending \<in> status ` set (rows (sd_queue s)) then ''paused'' else ''completed'')"
  proof (cases "Pending \<in> status ` set (rows (sd_queue s))")
    case True
    then obtain r where "r \<in> set (rows (sd_queue s))" "status r = Pending" by force
    with fin [of r] have "sd_exhausted s" by blast
    with True left show ?thesis by (simp add: st(3))
  qed (use left in \<open>simp add: st(3)\<close>)
  have rows: "(status r, ledger_status st (key_of r)) \<in> {(Completed, Some ''completed''), (Failed, Some ''failed'')} \<or>
       sd_exhausted s \<and> status r = Pending \<and>
         ledger_status st (key_of r) = Some (if 0 < retry_count r then ''running'' else ''pending'')"
    if "r \<in> set (rows (sd_queue s))" for r
    using fin [OF that] unfolding led by (cases "status r") auto
  show ?thesis
    by (rule exI [of _ "stamp_run cfg rq s"], rule exI [of _ st]) (use s(1) st(1) keys rows stamp in simp)
qed

definition demo_schedule :: schedule_config where
  "demo_schedule = \<lparr>sg_backend = SqliteBackend, sg_locks = (\<lambda>_. {}), sg_workers = 2, sg_owner = ''o'', sg_episode_s = 60,
     sg_task_ids = [''t''], sg_repeats = 2, sg_shuffled = rev, sg_spec_error = (\<lambda>_. None),
     sg_finishes = (\<lambda>tick active. (tick, Inl (value_error ''lost''))), sg_clock = (\<lambda>n. at_time (of_nat n))\<rparr>"

definition demo_request :: "bool \<Rightarrow> run_request" where
  "demo_request resume = \<lparr>rq_resume = resume, rq_run_id = ''r'', rq_config_path = ''c'', rq_output_dir = ''out'',
     rq_under_cwd = (\<lambda>_. None), rq_trial_dirs = (\<lambda>_ _. None), rq_existing_cost = 0, rq_injected_budget = None,
     rq_max_budget_usd = Some 5, rq_zero_coverage = False, rq_zero_judge_graded = False\<rparr>"

theorem fresh_run_settles_every_attempt_witness:
  "\<exists>s st. orchestrate demo_schedule (demo_request False) (init_queue 1) No_state_file = Some s \<and> sd_file s = Holds st \<and>
     key_of ` set (rows (sd_queue s)) = {(''t'', 0), (''t'', 1)} \<and>
     rs_status st = (if Pending \<in> status ` set (rows (sd_queue s)) then ''paused'' else ''completed'')"
proof -
  have two: "{0..<2::int} = {0, 1}" by auto
  have "0 < sg_workers demo_schedule" "\<not> rq_resume (demo_request False)" "set (sg_shuffled demo_schedule xs) = set xs"
    "sg_backend demo_schedule = SqliteBackend \<or> sg_locks demo_schedule = (\<lambda>now. {})" for xs
    by (simp_all add: demo_schedule_def demo_request_def)
  from fresh_run_settles_every_attempt [OF this, of 1 No_state_file] show ?thesis
    by (force simp: demo_schedule_def two)
qed

text \<open>
  Property C14.  A run on a queue that already has rows, resumed or not, always ends, and it never
  starts an attempt whose row is completed or failed: the row stays in the queue exactly as it was.  Enqueueing ignores an
  attempt that has a row and only stale leases are requeued, so the attempts that the plan of a resumed run lists to
  retry because they failed or left an infrastructure error are not run again.
\<close>

theorem finished_row_is_never_replayed:
  assumes "wf_queue q" "r \<in> set (rows q)" "status r \<in> {Completed, Failed}"
  shows "\<exists>s. orchestrate cfg rq q f = Some s \<and> r \<in> set (rows (sd_queue s))"
proof -
  obtain s where s: "orchestrate cfg rq q f = Some (stamp_run cfg rq s)" "sched_step\<^sup>*\<^sup>* (start_run cfg rq q f) s"
    by (rule orchestrate_returns [OF assms(1)])
  note ok = start_run_ok [OF assms(1), of cfg rq f]
  have "r \<in> set (rows (sd_queue (start_run cfg rq q f)))"
    unfolding start_run_simps(2) by (rule seeded_row) (use assms in simp_all)
  then have row: "row_at (att_id r) (sd_queue (start_run cfg rq q f)) = Some r"
    using ok by (simp add: active_ok_def row_at_Some_iff)
  have "row_at (att_id r) (sd_queue s) = Some r"
    using steps_keep_row [OF s(2) ok row] assms(3) by (auto simp: active_ids_def start_run_simps(1))
  then have "r \<in> set (rows (sd_queue s))"
    using steps_active_ok [OF s(2) ok] by (simp add: active_ok_def row_at_Some_iff)
  with s(1) show ?thesis by simp
qed

definition failed_row :: attempt where
  "failed_row = fail_row 5 ''lost'' (fresh_row 1 0 0 (''t'', 0))"

definition failed_ledger :: state_file where
  "failed_ledger = Holds (fold apply_mark [Mark_running 4 ''t'' 0, Mark_failed 5 ''t'' 0 ''lost'']
     (initialize_run (\<lambda>_. None) 0 0 0 ''out'' ''r'' ''c'' [''t''] 1))"

theorem finished_row_is_never_replayed_witness:
  "map_option rp_to_retry (describe_resume_plan (\<lambda>_ _. None) failed_ledger) = Some 1 \<and>
   (\<exists>s. orchestrate demo_schedule (demo_request True)
      \<lparr>queue_max_retries = 0, rows = [failed_row], next_id = 2, events = []\<rparr> failed_ledger = Some s \<and>
      failed_row \<in> set (rows (sd_queue s)))"
proof
  show "map_option rp_to_retry (describe_resume_plan (\<lambda>_ _. None) failed_ledger) = Some 1" by code_simp
  show "\<exists>s. orchestrate demo_schedule (demo_request True)
      \<lparr>queue_max_retries = 0, rows = [failed_row], next_id = 2, events = []\<rparr> failed_ledger = Some s \<and>
      failed_row \<in> set (rows (sd_queue s))"
    by (rule finished_row_is_never_replayed)
      (simp_all add: failed_row_def fail_row_def fresh_row_def wf_queue_def wf_row_def)
qed

end
