(* ===== verification/Spec2Isabelle.thy ===== *)
theory Spec2Isabelle
  imports Queue_Histories Trial_Verdict Trial_Graded Reply_Rules Transcript_Rules Metrics_Laws Schedule_Laws
begin

text \<open>
  A verification development of Toloka Forge, a harness that runs language-model agents through
  tool-using trials and grades what they did.  The program's part modelled here is the path from a
  queued attempt to a graded trial: the queue that hands attempts to workers, the runner that seeds a dialogue
  and answers as the user, the loop that carries one episode of it and ends it for a named reason, the transcript and the tool-call records it
  leaves, the timeline joined from both, the transcript rules and the trace checks read on it, the
  rubric judge's report, the fold of all component scores into one verdict, the loop that schedules a run's attempts
  under its caps, and the figures a run reports over its trials.

  \<^bold>\<open>How Python is read.\<close>  Integers are \<^typ>\<open>int\<close> or \<^typ>\<open>nat\<close>; a \<^verbatim>\<open>float\<close> is a rational number (rounding, infinities
  and NaN are not modelled, the overflow of \<^verbatim>\<open>float(int)\<close> is); text is a list of 8-bit characters; a \<^verbatim>\<open>dict\<close> is an
  association list in insertion order; an exception is the left side of a sum; a pydantic model is a record
  with its validators as functions to an optional error; messages for people are kept as the data they render.
  Code outside the repository is a parameter: \<open>regex_lib\<close> is the regular-expression engines (what they compile,
  find and capture), \<open>custom_reader\<close> is pydantic's reading of a raw \<^verbatim>\<open>custom_checks\<close> block, the argument \<open>judge_run\<close> of the
  judge's retry loop is what one run of the tool-calling loop ends with.  The record \<open>loop_env\<close> holds what
  the tool-calling loop is handed: the provider's client, the tools, the clock and the retry sleep, the metrics sink,
  the observer, the classifier of raised errors, the stop condition and the user's turn, each a function of a world of
  its own type \<^typ>\<open>'w\<close> that may answer differently on every call and may raise where the code lets it.  The
  theorems about an episode hold for every such record; the stop conditions of the runner (stuck detection,
  submission) and its user turn are definitions, and those theorems are also read with them in place.  The record
  \<open>user_env\<close> holds what the user's side is handed: the simulator, the user's tools, the clock, the sleep and the
  metrics.  The record \<open>schedule_config\<close> holds what the scheduling loop is handed: the backend, the clock, the building of a
  specification, and the thread pool as the choice of the future that finishes next and its result.  The patterns of the fourth-wall detector are an argument, the spans their searches find.

  \<^bold>\<open>Theories and the code they model\<close> (paths under \<^verbatim>\<open>src/tolokaforge/\<close>).
  \<^item> \<^verbatim>\<open>Forge_Prelude\<close>: the types above, results with errors, ordered dictionaries, weighted means, and the
    lemma collections.
  \<^item> \<^verbatim>\<open>Run_Queue\<close> (\<^verbatim>\<open>core/run_queue.py\<close>): the attempts table of the SQLite and the PostgreSQL backend, every
    operation on it, and the histories of operations that do not overlap.  The locale \<open>attempt_queue\<close> states what a
    backend owes and is interpreted on both; the PostgreSQL backend refines the SQLite one, and overlapping failure
    reports may lose an update.
  \<^item> \<^verbatim>\<open>Queue_Histories\<close>: the same table under concurrent workers, where the two statements of \<^verbatim>\<open>mark_failed\<close> are
    apart and any statement may come between them.  The locale \<open>interleaved_queue\<close> adds to the contract what the
    single statements owe whatever the retry counters are, and is interpreted on both backends; in every interleaving
    the table stays well-formed, and the retries and executions of an attempt exceed its budget by at most one for
    every further caller that reports failures.
  \<^item> \<^verbatim>\<open>Tool_Call_Ids\<close> (\<^verbatim>\<open>core/tool_call_ids.py\<close>): ids made unique within an episode.
  \<^item> \<^verbatim>\<open>Json_Values\<close>, \<^verbatim>\<open>Date_Keys\<close>, \<^verbatim>\<open>Value_Predicates\<close> (\<^verbatim>\<open>core/grading/predicates.py\<close>, \<^verbatim>\<open>argument_predicates.py\<close>,
    \<^verbatim>\<open>trace_check_operator.py\<close>, \<^verbatim>\<open>regex_engine.py\<close>, \<^verbatim>\<open>core/value_predicate_operators.py\<close>, the predicate of
    \<^verbatim>\<open>runner/models.py\<close>): comparisons, the satisfiability table, date keys, operators and path reads.
  \<^item> \<^verbatim>\<open>Transcript\<close> (\<^verbatim>\<open>core/actors/tool_steps.py\<close>, \<^verbatim>\<open>tool_turns.py\<close>): messages, user tool steps and the views of a
    transcript each side reads.
  \<^item> \<^verbatim>\<open>Trial_Outcome\<close> (\<^verbatim>\<open>core/models/trial_status.py\<close>, \<^verbatim>\<open>core/failure_attribution.py\<close>, the error classifier of
    \<^verbatim>\<open>core/loop.py\<close> and its evidence in \<^verbatim>\<open>core/llm/client.py\<close> and \<^verbatim>\<open>core/runner.py\<close>): exceptions with their cause chains,
    the reasons a trial ends for, and which trials are left out of the measured ones.
  \<^item> \<^verbatim>\<open>Loop_Guards\<close> (\<^verbatim>\<open>core/simulation_budget.py\<close>, \<^verbatim>\<open>core/stuck.py\<close>, \<^verbatim>\<open>core/tool_output_truncation.py\<close>): the limits of
    an episode and what each of them promises.
  \<^item> \<^verbatim>\<open>Tool_Funnel\<close>, \<^verbatim>\<open>Agent_Loop\<close> (\<^verbatim>\<open>core/loop.py\<close>, the recorder of \<^verbatim>\<open>core/runner.py\<close>): \<^verbatim>\<open>ToolCallFunnel\<close> and
    \<^verbatim>\<open>ToolCallingLoop\<close>, method by method, over the messages, the wire copy, the records and the world.
  \<^item> \<^verbatim>\<open>Loop_Contract\<close>, \<^verbatim>\<open>Loop_Outcomes\<close>, \<^verbatim>\<open>Loop_Endings\<close>, \<^verbatim>\<open>Loop_History\<close>, \<^verbatim>\<open>Loop_Join\<close>: what holds of a whole episode.
    The locale \<open>loop_contract\<close> carries a relation between the state before and after each primitive step
    through the resampling, the retries and the turns; the locale \<open>loop_endings\<close> does the same for how an episode
    stops.  Their interpretations give a bound on the requests, the reason and the announcement of every ending,
    the messages that survive, the absence of empty assistant turns, and records that reconcile, so that the timeline
    of \<^verbatim>\<open>Trace_Timeline\<close> can be built from what an episode leaves.
  \<^item> \<^verbatim>\<open>User_Turn\<close> (\<^verbatim>\<open>core/actors/user_stop.py\<close>, \<^verbatim>\<open>turn_policy.py\<close>, \<^verbatim>\<open>reply_guard.py\<close>, \<^verbatim>\<open>scratchpad.py\<close>, the user
    turn of \<^verbatim>\<open>core/runner.py\<close>): stop tokens, the guard that regenerates a bad reply, the turn policies, a user's
    tool calls under shared and isolated turns, and the stop.
  \<^item> \<^verbatim>\<open>Trial_Run\<close> (\<^verbatim>\<open>TrialRunner.run\<close> and the seeding of turn 0 in \<^verbatim>\<open>core/runner.py\<close>): a whole trial, from the first
    message to the result the runner reports.
  \<^item> \<^verbatim>\<open>User_Contract\<close>, \<^verbatim>\<open>Trial_Graded\<close>: what holds of a whole trial.  The locale \<open>user_contract\<close> states what each
    primitive step of the user's side has to keep and carries it through a user turn and through the seeding; its
    interpretations discharge the hypotheses the theorems of \<^verbatim>\<open>Loop_History\<close> and \<^verbatim>\<open>Loop_Join\<close> put on a user
    turn, so those theorems hold of trials: every trial can be graded, no message is lost, no empty turn is sent and
    every exclusion is earned.  The first needs its condition: under shared tool turns, a tool that raises after
    another ran always leaves a record that cannot be joined.
  \<^item> \<^verbatim>\<open>Reply_Rules\<close>: the earliest stop token decides and the agent reads none in the user's words; what the guard delivers and refuses.
  \<^item> \<^verbatim>\<open>Trace_Timeline\<close> (\<^verbatim>\<open>core/grading/trace_timeline.py\<close>): the join of messages and records; every call and result
    is accounted for, in order and paired, and the join is refused exactly when the records do not reconcile.
  \<^item> \<^verbatim>\<open>Trace_Model\<close> (\<^verbatim>\<open>runner/models.py\<close>): matchers, bindings, constraint trees, windows, routes, with every validator.
  \<^item> \<^verbatim>\<open>Trace_Truth\<close>, \<^verbatim>\<open>Trace_Matcher\<close>, \<^verbatim>\<open>Trace_Sides\<close>, \<^verbatim>\<open>Trace_Constraints\<close>, \<^verbatim>\<open>Trace_Bindings\<close>, \<^verbatim>\<open>Trace_Evaluator\<close>
    (\<^verbatim>\<open>core/grading/trace_checks/\<close>): four-valued verdicts, a matcher on a timeline, the readings of a constraint's
    sides, every constraint kind, the binder, and the evaluation of a block.  The locales \<open>bracket\<close> and
    \<open>two_brackets\<close> state when checking the ends of a family of readings decides all of them, and are interpreted
    on the sides the code enumerates; so a verdict is shown to be the one all completions of unreadable events
    share.  The component's score, gates, routes and accounted keys follow.
  \<^item> \<^verbatim>\<open>Transcript_Rules\<close> (\<^verbatim>\<open>core/grading/transcript.py\<close>, \<^verbatim>\<open>turn_bounds.py\<close>, the rules of \<^verbatim>\<open>runner/models.py\<close>): every rule
    kind, the activity floor, the key accounting and what a verdict says of the messages and the records.
  \<^item> \<^verbatim>\<open>Grade_Fold\<close> (\<^verbatim>\<open>core/grading/combine_method.py\<close>, \<^verbatim>\<open>combine_weights.py\<close>, \<^verbatim>\<open>grade_components.py\<close>,
    \<^verbatim>\<open>state_composition.py\<close>, \<^verbatim>\<open>composite_fold.py\<close>, the fold of \<^verbatim>\<open>combine.py\<close>): from component scores to a grade.  The
    locale \<open>grading_substrate\<close> states the contract of a fold and is interpreted on the runner and on the core engine,
    whose copies of the fold are translated apart and shown to agree.
  \<^item> \<^verbatim>\<open>Rubric_Grading\<close> (\<^verbatim>\<open>core/grading/rubric.py\<close>, the retry loop of \<^verbatim>\<open>judge.py\<close>, the rubric of \<^verbatim>\<open>runner/models.py\<close>):
    the report schema, the parser with its trailing markers, the aggregation and the bounded retry.
  \<^item> \<^verbatim>\<open>Trial_Verdict\<close> (\<^verbatim>\<open>composite_fold.py\<close>, \<^verbatim>\<open>golden_replay.py\<close>, the fold of \<^verbatim>\<open>GradeTrial\<close> in
    \<^verbatim>\<open>runner/service.py\<close>): the reasons of a grade, \<^verbatim>\<open>CompositeFold.finalise\<close>, and how the results of the trace block and
    of the judge reach it and what is answered.
  \<^item> \<^verbatim>\<open>Trial_Record\<close>, \<^verbatim>\<open>Failure_Attribution\<close> (\<^verbatim>\<open>core/llm/usage.py\<close>, \<^verbatim>\<open>core/models/trajectory.py\<close>, \<^verbatim>\<open>grade.py\<close>,
    \<^verbatim>\<open>core/failure_attribution.py\<close>, the sink and the cost roll-up of \<^verbatim>\<open>core/runner.py\<close>): what a finished trial
    carries, that its spend per role accounts for its cost, and the cause a failure is attributed to.
  \<^item> \<^verbatim>\<open>Run_Budgets\<close> (\<^verbatim>\<open>core/budgets.py\<close>): the caps a run puts on cost, time and trials.  The locale
    \<open>tracker_contract\<close> states the protocol of a tracker (a hit, once reported, is repeated) and is interpreted on
    the three of them; a poll of the composite hits exactly when one of the limits is reached, and the composite itself
    may report another hit later.
  \<^item> \<^verbatim>\<open>Run_Resume\<close> (\<^verbatim>\<open>core/resume.py\<close>): the ledger of a run, its marks, the state file, and what a resumed run is
    told.  After any history of marks the plan splits the attempts exactly into those that are done and those to
    retry.
  \<^item> \<^verbatim>\<open>Run_Schedule\<close> (the scheduling loop of \<^verbatim>\<open>core/orchestrator.py\<close>): starting trials, settling what they return or raise,
    polling the caps, stamping the state file, over the queue of \<^verbatim>\<open>Run_Queue\<close>, the ledger and the budget.
  \<^item> \<^verbatim>\<open>Schedule_Laws\<close>: the loop as a step relation; its termination, the agreement of queue and ledger at the end of a
    fresh run, and the finished rows that no later run starts again.
  \<^item> \<^verbatim>\<open>Run_Metrics\<close>, \<^verbatim>\<open>Metrics_Laws\<close> (\<^verbatim>\<open>core/metrics.py\<close>): the figures of a task and of a run.  The locale
    \<open>additive_figure\<close> states that a figure of trials adds up over tasks and is interpreted on those the code sums; so
    a run is measured as one pool of trials, every trial is counted once, pass@k is the share of draws it names, and the
    two totals of a run's cost agree.
  \<^item> This theory: what the evaluator, the judge and the fold give together.

  \<^bold>\<open>Loops.\<close>  Every function terminates by structure or by a measure; no fuel is used.  The retry loop of the judge
  ends because each rejection uses one of the configured retries; one turn's resampling ends because each
  resample spends one of four configured counts, a turn's retries because each one spends an API-error retry, and the
  episode ends at \<^verbatim>\<open>max_turns\<close>.  A user's tool steps end at \<^verbatim>\<open>max_steps\<close>, the asks for an opening at their
  attempts.  Filling the pool ends because each call takes a pending row; the scheduling loop is a partial function, shown to
  return because each future that finishes uses up work the queue's retries allow.  What a provider, a tool or a user does in one call is taken to return or raise.

  \<^bold>\<open>Not modelled.\<close>  Database connections, containers, threads and remote calls around these parts; the
  orchestrator outside its scheduling loop (engine start-up, dispatch, the worker command, reports), the runner service outside the fold of \<^verbatim>\<open>GradeTrial\<close> and its tool factory, the requests of the language-model client, the custom-check
  runner, the configuration gate over parsed YAML, the live panel.  In the loop, log lines, time stamps, content
  blocks and provider ids of messages are left out.  Of the runner, the strict mode that raises an initialization
  error again, loops and policies that are plug-ins, the harness path and telemetry are left out.  State checks and
  diffs, JSONPath evaluation, the grading ledger and price tables are not modelled.  A value predicate is total: it reads
  as not holding where the code's operator raises, which \<open>operator_raises\<close> states for dates and bindings; case is folded for
  ASCII letters only.
\<close>

section \<open>From the trace and the rubric to the verdict\<close>







text \<open>A trial whose trace block holds and whose judge accepts on its second report.\<close>

definition open_config :: TraceChecksConfig where
  "open_config = \<lparr>cfg_constraints = [demo_constraint ''quiet'' S_GATE (E_absent says_done)], cfg_alternatives = None,
     cfg_regex_engine = LINEAR\<rparr>"

definition open_trace :: TraceChecksResult where
  "open_trace = projr (evaluate_trace_checks no_regex demo_timeline open_config)"

definition open_judge :: JudgeResult where
  "open_judge = projr (judge_grade demo_runs 1 demo_rubric)"

definition open_fold_config :: FoldConfig where
  "open_fold_config = demo_fold_config\<lparr>fc_weights := [(''trace_checks'', 1), (''llm_judge'', 1)],
     fc_sections := [(''trace_checks'', VDict []), (''llm_judge'', VDict [])]\<rparr>"

definition open_components :: CompositeGradeComponents where
  "open_components = no_components\<lparr>gc_trace_checks_score := 1, gc_llm_judge_score := 3 / 4\<rparr>"

definition open_fold :: CompositeFoldResult where
  "open_fold = projr (finalise demo_reader open_components open_fold_config None False False no_inputs)"

lemma open_trace_evaluates:
  "validate_config no_regex open_config = None"
  "evaluate_trace_checks no_regex demo_timeline open_config = Inr open_trace"
proof -
  show v: "validate_config no_regex open_config = None" by code_simp
  have "compile_trace_check_patterns no_regex open_config = None" by code_simp
  then show "evaluate_trace_checks no_regex demo_timeline open_config = Inr open_trace"
    using evaluates [OF v, of demo_timeline] by (auto simp: open_trace_def)
qed

lemma open_trace_holds: "tr_gate_failed open_trace = False" "tr_score open_trace = 1"
  by code_simp+

lemma open_judge_completes: "judge_grade demo_runs 1 demo_rubric = Inr open_judge"
  unfolding open_judge_def demo_judged by simp

lemma open_judge_fields: "jr_gate_failed open_judge = False" "jr_score open_judge = Some (3 / 4)" "jr_status open_judge = Judge_COMPLETED"
  by code_simp+

lemma open_folded:
  "finalise demo_reader open_components open_fold_config None False False no_inputs = Inr open_fold"
proof -
  have "is_ok (finalise demo_reader open_components open_fold_config None False False no_inputs)" by code_simp
  then show ?thesis by (auto simp: is_ok_iff open_fold_def)
qed

lemma open_passes: "cf_binary_pass open_fold" "cf_score open_fold = 7 / 8"
  by code_simp+

lemma open_folded_gates: "finalise demo_reader open_components open_fold_config None (jr_gate_failed open_judge)
    (tr_gate_failed open_trace) no_inputs = Inr open_fold"
  using open_folded by (simp add: open_trace_holds open_judge_fields)




text \<open>
  Property C27.  End to end, a trial's score is a share of one.  With weights that are not negative in the
  configuration and in the rubric, a hash weight in the unit interval, and component scores that are at most
  one outside the trace and the judge, folding the evaluator's score and a completed judge's score gives a
  score between zero and one.
\<close>
theorem trial_score_is_a_share:
  assumes trace: "validate_config lib tcfg = None" "evaluate_trace_checks lib t tcfg = Inr tr"
    and judge: "validate_criterion_ids rubric = None" "judge_grade judge_run retries rubric = Inr jr"
      "jr_score jr = Some q" "list_all (\<lambda>c. 0 \<le> cn_weight c) (rb_criteria rubric)"
    and others: "unit_scores c" and weights: "list_all (\<lambda>p. 0 \<le> snd p) (fc_weights cfg)"
    and hash: "\<And>w. fc_hash_weight cfg = Some w \<Longrightarrow> 0 \<le> w \<and> w \<le> 1"
    and fold: "finalise custom (c\<lparr>gc_trace_checks_score := tr_score tr, gc_llm_judge_score := q\<rparr>) cfg hw
                 (jr_gate_failed jr) (tr_gate_failed tr) i = Inr f"
  shows "0 \<le> cf_score f \<and> cf_score f \<le> 1"
proof -
  obtain args results a where p: "parse_submit_report args rubric = Inr results" "aggregate_rubric rubric results = Inr a"
    and q: "q = ra_score a"
    using judge_results [OF judge(2)] judge(3) by auto
  have "0 \<le> q \<and> q \<le> 1" using aggregate_of_parsed [OF p(1) judge(1,4)] p(2) by (simp add: q)
  moreover have "tr_score tr \<le> 1" using component_facts [OF trace] by simp
  ultimately have unit: "unit_scores (c\<lparr>gc_trace_checks_score := tr_score tr, gc_llm_judge_score := q\<rparr>)"
    using others by (simp add: unit_scores_def)
  then have zeroed: "unit_scores (if jg then c'\<lparr>gc_llm_judge_score := 0\<rparr> else c')"
    if "c' = c\<lparr>gc_trace_checks_score := tr_score tr, gc_llm_judge_score := q\<rparr>" for jg c'
    using that by (simp add: unit_scores_def)
  show ?thesis using finalise_folds [OF fold] runner_unit [OF _ zeroed [OF refl] weights hash] by fastforce
qed

theorem trial_score_is_a_share_witness: "cf_score open_fold = 7 / 8 \<and> cf_score open_fold \<le> 1"
proof -
  have w: "list_all (\<lambda>c. 0 \<le> cn_weight c) (rb_criteria demo_rubric)" "list_all (\<lambda>p. 0 \<le> snd p) (fc_weights open_fold_config)"
    "unit_scores no_components" by code_simp+
  have h: "0 \<le> w \<and> w \<le> 1" if "fc_hash_weight open_fold_config = Some w" for w
    using that by (simp add: open_fold_config_def demo_fold_config_def)
  have f: "finalise demo_reader (no_components\<lparr>gc_trace_checks_score := tr_score open_trace, gc_llm_judge_score := 3 / 4\<rparr>)
      open_fold_config None (jr_gate_failed open_judge) (tr_gate_failed open_trace) no_inputs = Inr open_fold"
    using open_folded_gates by (simp add: open_trace_holds open_components_def)
  show ?thesis
    using trial_score_is_a_share [OF open_trace_evaluates demo_rubric_valid open_judge_completes open_judge_fields(2) w(1)
        w(3) w(2) h f] open_passes(2) by simp
qed

end
